(* ===== verification/PyBase.thy ===== *)
theory PyBase
  imports Complex_Main "HOL-Library.Code_Target_Numeral"
begin

text \<open>
  Prelude of the development: the parts of Python that the modelled programs share.

  Exceptions are values of \<open>exn\<close>; a fallible computation has type \<open>'a res\<close>, a sum whose left
  side is the exception that ends it, and \<open>bindE\<close> is the sequencing of statements that may raise.
  The string functions (\<open>py_strip\<close>, \<open>split_ws\<close>, \<open>split_char\<close>, \<open>py_join\<close>, \<open>py_int\<close>, \<open>show_int\<close>)
  are the \<open>str\<close> methods and conversions the programs call, on ASCII strings (lists of \<open>char\<close>).
  The locale \<open>field_codec\<close> states what a reader of whitespace separated fields relies on; it is
  interpreted on the decimal integers at the end of the theory.
\<close>

named_theorems res_simps "sequencing of fallible computations"
named_theorems str_simps "Python string functions on constructed strings"

section \<open>Exceptions and fallible computations\<close>

datatype exn =
    ValueError string
  | IndexError
  | KeyError string
  | TypeError
  | ZeroDivisionError
  | AssertionError
  | AttributeError string
  | UnboundLocalError string
  | OverflowError
  | FileNotFoundError string
  | FileExistsError string
  | OSError
  | Exception string
  | SystemExit int

type_synonym 'a res = "exn + 'a"

definition bindE :: "'a res \<Rightarrow> ('a \<Rightarrow> 'b res) \<Rightarrow> 'b res" where
  "bindE m f = (case m of Inl e \<Rightarrow> Inl e | Inr a \<Rightarrow> f a)"

definition guardE :: "exn \<Rightarrow> bool \<Rightarrow> unit res" where
  "guardE e b = (if b then Inr () else Inl e)"

definition of_option :: "exn \<Rightarrow> 'a option \<Rightarrow> 'a res" where
  "of_option e x = (case x of None \<Rightarrow> Inl e | Some a \<Rightarrow> Inr a)"

fun mapE :: "('a \<Rightarrow> 'b res) \<Rightarrow> 'a list \<Rightarrow> 'b list res" where
  "mapE f [] = Inr []"
| "mapE f (x # xs) = bindE (f x) (\<lambda>y. bindE (mapE f xs) (\<lambda>ys. Inr (y # ys)))"

lemma bindE_simps [simp, res_simps]:
  "bindE (Inl e) f = Inl e"
  "bindE (Inr a) f = f a"
  by (simp_all add: bindE_def)

lemma bindE_cong [fundef_cong]:
  "m = m' \<Longrightarrow> (\<And>a. m' = Inr a \<Longrightarrow> f a = g a) \<Longrightarrow> bindE m f = bindE m' g"
  by (cases m') (auto simp: bindE_def)

lemma bindE_Inr_iff [res_simps]: "bindE m f = Inr b \<longleftrightarrow> (\<exists>a. m = Inr a \<and> f a = Inr b)"
  by (cases m) (auto simp: bindE_def)

lemma bindE_Inl_iff [res_simps]:
  "bindE m f = Inl e \<longleftrightarrow> m = Inl e \<or> (\<exists>a. m = Inr a \<and> f a = Inl e)"
  by (cases m) (auto simp: bindE_def)

lemma guardE_Inr_iff [simp, res_simps]: "guardE e b = Inr u \<longleftrightarrow> b"
  by (simp add: guardE_def)

lemma guardE_Inl_iff [simp, res_simps]: "guardE e b = Inl e' \<longleftrightarrow> \<not> b \<and> e = e'"
  by (simp add: guardE_def)

lemma guardE_simps [simp]: "guardE e True = Inr ()" "guardE e False = Inl e"
  by (simp_all add: guardE_def)

lemma of_option_simps [simp, res_simps]:
  "of_option e None = Inl e" "of_option e (Some a) = Inr a"
  by (simp_all add: of_option_def)

lemma of_option_Inr_iff [simp, res_simps]: "of_option e x = Inr a \<longleftrightarrow> x = Some a"
  by (cases x) auto

lemma of_option_Inl_iff [simp, res_simps]: "of_option e x = Inl e' \<longleftrightarrow> x = None \<and> e = e'"
  by (cases x) auto

lemma mapE_Inr_iff: "mapE f xs = Inr ys \<longleftrightarrow> list_all2 (\<lambda>x y. f x = Inr y) xs ys"
  by (induction xs arbitrary: ys) (auto simp: res_simps list_all2_Cons1)

lemma mapE_total: "(\<And>x. x \<in> set xs \<Longrightarrow> f x = Inr (g x)) \<Longrightarrow> mapE f xs = Inr (map g xs)"
  by (induction xs) auto

lemma mapE_length: "mapE f xs = Inr ys \<Longrightarrow> length ys = length xs"
  by (auto simp: mapE_Inr_iff dest: list_all2_lengthD)

section \<open>Python lists: indexing and slicing\<close>

definition py_index :: "'a list \<Rightarrow> int \<Rightarrow> 'a res" where
  "py_index xs k =
     (if 0 \<le> k \<and> nat k < length xs then Inr (xs ! nat k)
      else if k < 0 \<and> nat (- k) \<le> length xs then Inr (xs ! (length xs - nat (- k)))
      else Inl IndexError)"

definition slice_bound :: "nat \<Rightarrow> int \<Rightarrow> nat" where
  "slice_bound n i = (if i < 0 then nat (int n + i) else min n (nat i))"

definition py_slice :: "'a list \<Rightarrow> int \<Rightarrow> int \<Rightarrow> 'a list" where
  "py_slice xs i j =
     (let a = slice_bound (length xs) i; b = slice_bound (length xs) j
      in take (b - a) (drop a xs))"

lemma py_index_Inr_iff:
  "py_index xs (int i) = Inr x \<longleftrightarrow> i < length xs \<and> x = xs ! i"
  by (auto simp: py_index_def)

lemma py_index_nat [simp]: "i < length xs \<Longrightarrow> py_index xs (int i) = Inr (xs ! i)"
  by (simp add: py_index_Inr_iff)

lemma py_index_last [simp]: "xs \<noteq> [] \<Longrightarrow> py_index xs (- 1) = Inr (last xs)"
  by (cases xs) (auto simp: py_index_def last_conv_nth)

lemma py_index_last_Nil [simp]: "py_index [] i = Inl IndexError"
  by (simp add: py_index_def)

lemma py_slice_nat [simp]: "py_slice xs (int i) (int j) = take (j - i) (drop i xs)"
  by (auto simp: py_slice_def slice_bound_def Let_def min_def)

lemma set_py_slice: "set (py_slice xs i j) \<subseteq> set xs"
  by (auto simp: py_slice_def Let_def dest: in_set_takeD in_set_dropD)

section \<open>Python strings\<close>

definition is_ws :: "char \<Rightarrow> bool" where
  "is_ws c \<longleftrightarrow> (let n = (of_char c :: nat) in n = 32 \<or> (9 \<le> n \<and> n \<le> 13) \<or> (28 \<le> n \<and> n \<le> 31))"

definition nl :: string where
  "nl = [CHR 0x0A]"

definition has_prefix :: "'a list \<Rightarrow> 'a list \<Rightarrow> bool" where
  "has_prefix p s \<longleftrightarrow> take (length p) s = p"

fun has_infix :: "'a list \<Rightarrow> 'a list \<Rightarrow> bool" where
  "has_infix p [] \<longleftrightarrow> p = []"
| "has_infix p (c # cs) \<longleftrightarrow> has_prefix p (c # cs) \<or> has_infix p cs"

definition py_rstrip :: "string \<Rightarrow> string" where
  "py_rstrip s = rev (dropWhile is_ws (rev s))"

definition py_strip :: "string \<Rightarrow> string" where
  "py_strip s = py_rstrip (dropWhile is_ws s)"

text \<open>\<open>s.split()\<close>: the maximal runs of characters that are not whitespace.\<close>

function split_ws :: "string \<Rightarrow> string list" where
  "split_ws s =
     (case dropWhile is_ws s of
        [] \<Rightarrow> []
      | c # cs \<Rightarrow> (c # takeWhile (\<lambda>x. \<not> is_ws x) cs) # split_ws (dropWhile (\<lambda>x. \<not> is_ws x) cs))"
  by pat_completeness auto
termination
proof (relation "measure length", goal_cases)
  case (2 s c cs)
  have "length (dropWhile (\<lambda>x. \<not> is_ws x) cs) \<le> length cs"
    by (rule length_dropWhile_le)
  also have "length cs < length (dropWhile is_ws s)" using 2 by simp
  also have "\<dots> \<le> length s" by (rule length_dropWhile_le)
  finally show ?case by simp
qed simp

declare split_ws.simps [simp del]

text \<open>\<open>s.split(c)\<close> for a one-character separator: never the empty list.\<close>

fun split_char :: "char \<Rightarrow> string \<Rightarrow> string list" where
  "split_char d [] = [[]]"
| "split_char d (c # cs) =
     (if c = d then [] # split_char d cs
      else case split_char d cs of [] \<Rightarrow> [[c]] | w # ws \<Rightarrow> (c # w) # ws)"

text \<open>\<open>s.split(sep)\<close> and \<open>s.replace(old, new)\<close> for separators of any positive length.\<close>

function split_str :: "string \<Rightarrow> string \<Rightarrow> string list" where
  "split_str sep [] = [[]]"
| "split_str sep (c # cs) =
     (if sep \<noteq> [] \<and> has_prefix sep (c # cs) then [] # split_str sep (drop (length sep) (c # cs))
      else case split_str sep cs of [] \<Rightarrow> [[c]] | w # ws \<Rightarrow> (c # w) # ws)"
  by pat_completeness auto
termination by (relation "measure (\<lambda>(sep, s). length s)") auto

fun py_join :: "string \<Rightarrow> string list \<Rightarrow> string" where
  "py_join sep [] = []"
| "py_join sep [w] = w"
| "py_join sep (w # v # ws) = w @ sep @ py_join sep (v # ws)"

definition py_replace :: "string \<Rightarrow> string \<Rightarrow> string \<Rightarrow> string" where
  "py_replace old new s = py_join new (split_str old s)"

text \<open>\<open>file.readlines()\<close>: the lines with their terminators.\<close>

fun py_lines :: "string \<Rightarrow> string list" where
  "py_lines [] = []"
| "py_lines (c # cs) =
     (if c = CHR 0x0A then [c] # py_lines cs
      else case py_lines cs of [] \<Rightarrow> [[c]] | w # ws \<Rightarrow> (c # w) # ws)"

lemma split_char_ne [simp]: "split_char d s \<noteq> []"
  by (induction s) (auto split: list.splits)

lemma split_str_ne [simp]: "split_str sep s \<noteq> []"
  by (induction sep s rule: split_str.induct) (auto split: list.splits)

lemma has_prefix_append [simp, str_simps]: "has_prefix p (p @ s)"
  by (simp add: has_prefix_def)

lemma has_prefix_iff: "has_prefix p s \<longleftrightarrow> (\<exists>t. s = p @ t)"
  by (metis append_take_drop_id has_prefix_append has_prefix_def)

lemma has_infix_iff: "has_infix p s \<longleftrightarrow> (\<exists>u v. s = u @ p @ v)"
proof (induction s)
  case (Cons c cs)
  have "(\<exists>u v. c # cs = u @ p @ v) \<longleftrightarrow> (\<exists>v. c # cs = p @ v) \<or> (\<exists>u v. cs = u @ p @ v)"
    by (metis append_Cons append_Nil list.exhaust list.inject)
  then show ?case using Cons by (simp add: has_prefix_iff)
qed simp

lemma split_char_no: "d \<notin> set s \<Longrightarrow> split_char d s = [s]"
  by (induction s) auto

lemma split_char_append: "d \<notin> set w \<Longrightarrow> split_char d (w @ d # s) = w # split_char d s"
  by (induction w) auto

lemma split_char_join:
  "ws \<noteq> [] \<Longrightarrow> \<forall>w \<in> set ws. d \<notin> set w \<Longrightarrow> split_char d (py_join [d] ws) = ws"
  by (induction "[d]" ws rule: py_join.induct) (auto simp: split_char_no split_char_append)

lemma join_split_char: "py_join [d] (split_char d s) = s"
proof (induction s)
  case (Cons c cs)
  obtain w ws where w: "split_char d cs = w # ws" by (meson neq_Nil_conv split_char_ne)
  then show ?case using Cons by (cases ws) auto
qed simp

lemma set_split_char: "w \<in> set (split_char d s) \<Longrightarrow> d \<notin> set w"
proof (induction s arbitrary: w)
  case (Cons c cs)
  obtain v vs where v: "split_char d cs = v # vs" by (meson neq_Nil_conv split_char_ne)
  then show ?case using Cons by (auto split: if_splits)
qed simp

lemma py_lines_line: "CHR 0x0A \<notin> set w \<Longrightarrow> py_lines (w @ CHR 0x0A # s) = (w @ nl) # py_lines s"
  by (induction w) (auto simp: nl_def)

lemma py_lines_concat:
  "\<forall>w \<in> set ws. CHR 0x0A \<notin> set w \<Longrightarrow> py_lines (concat (map (\<lambda>w. w @ nl) ws)) = map (\<lambda>w. w @ nl) ws"
proof (induction ws)
  case (Cons w ws)
  have "py_lines (w @ CHR 0x0A # concat (map (\<lambda>w. w @ nl) ws))
      = (w @ nl) # py_lines (concat (map (\<lambda>w. w @ nl) ws))"
    using Cons.prems by (intro py_lines_line) simp
  then show ?case using Cons by (simp add: nl_def)
qed simp

lemma concat_py_lines: "concat (py_lines s) = s"
  by (induction s) (auto split: list.splits)

lemma split_ws_Nil [simp]: "split_ws [] = []"
  by (simp add: split_ws.simps)

lemma split_ws_blank: "\<forall>c \<in> set s. is_ws c \<Longrightarrow> split_ws s = []"
  by (simp add: split_ws.simps dropWhile_eq_Nil_conv[THEN iffD2] del: dropWhile_eq_Nil_conv)

lemma split_ws_word:
  assumes "w \<noteq> []" and "\<forall>c \<in> set w. \<not> is_ws c" and "is_ws d"
  shows "split_ws (w @ d # s) = w # split_ws s"
proof -
  obtain c cs where w: "w = c # cs" using assms(1) by (cases w) auto
  have tw: "takeWhile (\<lambda>x. \<not> is_ws x) (cs @ d # s) = cs"
    using assms w by (simp add: takeWhile_tail)
  have dw: "dropWhile (\<lambda>x. \<not> is_ws x) (cs @ d # s) = d # s"
    using assms w by simp
  have "split_ws (d # s) = split_ws s"
    using assms(3) by (simp add: split_ws.simps)
  then show ?thesis
    using assms w tw dw by (subst split_ws.simps) simp
qed

lemma split_ws_word_end:
  assumes "w \<noteq> []" and "\<forall>c \<in> set w. \<not> is_ws c"
  shows "split_ws w = [w]"
proof -
  obtain c cs where w: "w = c # cs" using assms(1) by (cases w) auto
  have tw: "takeWhile (\<lambda>x. \<not> is_ws x) cs = cs"
    using assms w by (simp add: takeWhile_eq_all_conv)
  have "dropWhile (\<lambda>x. \<not> is_ws x) cs = []"
    using assms w by simp
  then have "split_ws (dropWhile (\<lambda>x. \<not> is_ws x) cs) = []"
    by (metis split_ws_Nil)
  then show ?thesis using assms w tw by (subst split_ws.simps) simp
qed

lemma split_ws_skip: "is_ws d \<Longrightarrow> split_ws (d # s) = split_ws s"
  by (simp add: split_ws.simps)

section \<open>Decimal integers\<close>

definition digit_char :: "nat \<Rightarrow> char" where
  "digit_char d = ''0123456789'' ! d"

definition is_digit :: "char \<Rightarrow> bool" where
  "is_digit c \<longleftrightarrow> (let n = (of_char c :: nat) in 48 \<le> n \<and> n \<le> 57)"

definition digit_val :: "char \<Rightarrow> nat" where
  "digit_val c = (of_char c :: nat) - 48"

text \<open>\<open>str(n)\<close> for \<open>n \<ge> 0\<close>, most significant digit first.\<close>

fun show_nat :: "nat \<Rightarrow> string" where
  "show_nat n = (if n < 10 then [digit_char n] else show_nat (n div 10) @ [digit_char (n mod 10)])"

declare show_nat.simps [simp del]

definition show_int :: "int \<Rightarrow> string" where
  "show_int i = (if i < 0 then CHR ''-'' # show_nat (nat (- i)) else show_nat (nat i))"

text \<open>
  The digits that \<open>int\<close> and \<open>float\<close> accept: decimal digits with single underscores between them.
  The flag says whether the previous character was a digit.
\<close>

fun parse_digits :: "bool \<Rightarrow> nat \<Rightarrow> string \<Rightarrow> nat option" where
  "parse_digits ok acc [] = (if ok then Some acc else None)"
| "parse_digits ok acc (c # cs) =
     (if is_digit c then parse_digits True (10 * acc + digit_val c) cs
      else if c = CHR ''_'' \<and> ok then parse_digits False acc cs
      else None)"

definition py_int :: "string \<Rightarrow> int option" where
  "py_int s =
     (case py_strip s of
        [] \<Rightarrow> None
      | c # cs \<Rightarrow>
          if c = CHR ''-'' then map_option (\<lambda>n. - int n) (parse_digits False 0 cs)
          else if c = CHR ''+'' then map_option int (parse_digits False 0 cs)
          else map_option int (parse_digits False 0 (c # cs)))"

lemma less_10_cases:
  assumes "(d :: nat) < 10"
  shows "d = 0 \<or> d = 1 \<or> d = 2 \<or> d = 3 \<or> d = 4 \<or> d = 5 \<or> d = 6 \<or> d = 7 \<or> d = 8 \<or> d = 9"
  using assms by arith

lemma digit_char_props:
  assumes "d < 10"
  shows "is_digit (digit_char d)" and "digit_val (digit_char d) = d"
    and "\<not> is_ws (digit_char d)" and "digit_char d \<noteq> CHR ''-''" and "digit_char d \<noteq> CHR ''+''"
    and "digit_char d \<noteq> CHR ''_''" and "digit_char d \<noteq> CHR ''.''" and "digit_char d \<noteq> CHR 0x0A"
    and "digit_char d \<noteq> CHR '' ''" and "digit_char d \<noteq> CHR '',''"
  using less_10_cases[OF assms]
  by (auto simp: is_digit_def digit_char_def digit_val_def is_ws_def numeral_eq_Suc)

lemma show_nat_ne [simp]: "show_nat n \<noteq> []"
  by (subst show_nat.simps) simp

lemma show_nat_digits: "c \<in> set (show_nat n) \<Longrightarrow> \<exists>d < 10. c = digit_char d"
proof (induction n rule: show_nat.induct)
  case (1 n)
  show ?case
  proof (cases "n < 10")
    case True
    then show ?thesis using "1.prems" by (subst (asm) show_nat.simps) auto
  next
    case False
    then have "c \<in> set (show_nat (n div 10)) \<or> c = digit_char (n mod 10)"
      using "1.prems" by (subst (asm) show_nat.simps) auto
    then show ?thesis using "1.IH" False by (auto intro: exI[of _ "n mod 10"])
  qed
qed

lemma show_nat_no_ws [simp]: "c \<in> set (show_nat n) \<Longrightarrow> \<not> is_ws c"
  by (auto dest!: show_nat_digits simp: digit_char_props)

lemma show_nat_is_digit: "c \<in> set (show_nat n) \<Longrightarrow> is_digit c"
  by (auto dest!: show_nat_digits simp: digit_char_props)

lemma parse_digits_append:
  "\<forall>c \<in> set ds. is_digit c \<Longrightarrow>
     parse_digits ok acc (ds @ r) =
     parse_digits (ok \<or> ds \<noteq> []) (foldl (\<lambda>a c. 10 * a + digit_val c) acc ds) r"
  by (induction ds arbitrary: ok acc) auto

lemma foldl_show_nat:
  "foldl (\<lambda>a c. 10 * a + digit_val c) 0 (show_nat n) = n"
proof (induction n rule: show_nat.induct)
  case (1 n)
  then show ?case by (subst show_nat.simps) (auto simp: digit_char_props)
qed

lemma parse_show_nat: "parse_digits False 0 (show_nat n) = Some n"
  using parse_digits_append[of "show_nat n" False 0 "[]"] foldl_show_nat[of n]
  by (simp add: show_nat_is_digit)

lemma dropWhile_ws_clean: "\<forall>c \<in> set s. \<not> is_ws c \<Longrightarrow> dropWhile is_ws s = s"
  by (cases s) auto

lemma py_strip_clean: "\<forall>c \<in> set s. \<not> is_ws c \<Longrightarrow> py_strip s = s"
  by (simp add: py_strip_def py_rstrip_def dropWhile_ws_clean)

lemma show_nat_head: "show_nat n = c # cs \<Longrightarrow> c \<noteq> CHR ''-'' \<and> c \<noteq> CHR ''+''"
  by (metis digit_char_props(4,5) list.set_intros(1) show_nat_digits)

lemma minus_not_ws [simp]: "\<not> is_ws (CHR ''-'')"
  by (simp add: is_ws_def)

lemma show_int_no_ws [simp]: "c \<in> set (show_int i) \<Longrightarrow> \<not> is_ws c"
  by (auto simp: show_int_def split: if_splits)

lemma show_int_ne [simp]: "show_int i \<noteq> []"
  by (simp add: show_int_def)

lemma show_int_chars: "c \<in> set (show_int i) \<Longrightarrow> c = CHR ''-'' \<or> (\<exists>d < 10. c = digit_char d)"
  by (auto simp: show_int_def split: if_splits dest: show_nat_digits)

lemma py_int_show_int [simp]: "py_int (show_int i) = Some i"
proof -
  have strip: "py_strip (show_int i) = show_int i"
    by (rule py_strip_clean) simp
  show ?thesis
  proof (cases "i < 0")
    case True
    then show ?thesis
      using strip by (simp add: py_int_def show_int_def parse_show_nat)
  next
    case False
    obtain c cs where c: "show_nat (nat i) = c # cs" by (meson neq_Nil_conv show_nat_ne)
    then have "parse_digits False 0 (c # cs) = Some (nat i)"
      using parse_show_nat by metis
    then show ?thesis
      using strip False c show_nat_head[OF c] by (simp add: py_int_def show_int_def)
  qed
qed

lemma show_int_inj: "show_int i = show_int j \<Longrightarrow> i = j"
  by (metis option.inject py_int_show_int)

section \<open>Lines of whitespace separated fields\<close>

text \<open>
  What a program that writes fields with one space between them and a program that reads them back
  with \<open>split()\<close> have to agree on: the encoding is not empty, contains no whitespace, and the
  reader inverts it.
\<close>

locale field_codec =
  fixes enc :: "'a \<Rightarrow> string" and dec :: "string \<Rightarrow> 'a option"
  assumes dec_enc: "dec (enc a) = Some a"
    and enc_ne: "enc a \<noteq> []"
    and enc_clean: "c \<in> set (enc a) \<Longrightarrow> \<not> is_ws c"
begin

lemma split_fields_tail:
  "\<forall>c \<in> set t. is_ws c \<Longrightarrow> split_ws (py_join '' '' (map enc xs) @ t) = map enc xs"
proof (induction xs rule: induct_list012)
  case 1
  then show ?case by (simp add: split_ws_blank)
next
  case (2 x)
  show ?case
  proof (cases t)
    case Nil
    then show ?thesis using enc_ne enc_clean by (simp add: split_ws_word_end)
  next
    case (Cons d t')
    then show ?thesis
      using 2 enc_ne enc_clean split_ws_word[of "enc x" d t'] split_ws_blank[of t'] by simp
  qed
next
  case (3 x y zs)
  have "is_ws (CHR '' '')" by (simp add: is_ws_def)
  then show ?case
    using 3 enc_ne enc_clean split_ws_word[of "enc x" "CHR '' ''"] by simp
qed

lemma split_fields: "split_ws (py_join '' '' (map enc xs)) = map enc xs"
  using split_fields_tail[of "[]"] by simp

lemma decode_fields: "map dec (split_ws (py_join '' '' (map enc xs) @ nl)) = map Some xs"
  by (subst split_fields_tail) (auto simp: nl_def is_ws_def dec_enc)

lemma enc_inj: "enc a = enc b \<Longrightarrow> a = b"
  by (metis dec_enc option.inject)

end

interpretation int_field: field_codec show_int py_int
  by unfold_locales auto

end
