(* ===== verification/FatTopo.thy ===== *)
theory FatTopo
  imports PyBase
begin

text \<open>
  The fat-tree generator \<open>config/fat_topology_gen.py\<close>: from the four constants at its top it
  derives the sizes of the layers, writes one line per link in three nested loops (server to ToR,
  ToR to aggregation, aggregation to core), counts the links as it goes, and then prepends the line
  of switch ids and the line of totals.

  The constants are a record, so that the theorems hold for every even \<open>k_fat\<close>; \<open>shipped_params\<close>
  are the values in the file. For an even \<open>k_fat\<close> the divisions \<open>k_fat / 2\<close> of the script are exact,
  and \<open>int(k_fat / 2 * k_fat / 2)\<close> is the integer \<open>(k_fat div 2 * k_fat) div 2\<close> (floats represent
  these numbers exactly up to \<open>2 ^ 53\<close>); the \<open>assert\<close> on line 7 excludes the odd ones. The progress
  messages the script prints are not modelled.
\<close>

section \<open>The parameters and the derived sizes\<close>

record topo_params =
  k_fat :: nat
  oversubscript :: nat
  link_rate :: nat
  link_latency :: nat

definition shipped_params :: topo_params where
  "shipped_params = \<lparr>k_fat = 12, oversubscript = 2, link_rate = 100, link_latency = 1000\<rparr>"

definition n_core :: "topo_params \<Rightarrow> nat" where
  "n_core p = (k_fat p div 2 * k_fat p) div 2"

definition n_pod :: "topo_params \<Rightarrow> nat" where
  "n_pod p = k_fat p"

definition n_agg_per_pod :: "topo_params \<Rightarrow> nat" where
  "n_agg_per_pod p = k_fat p div 2"

definition n_tor_per_pod :: "topo_params \<Rightarrow> nat" where
  "n_tor_per_pod p = k_fat p div 2"

definition n_server_per_pod :: "topo_params \<Rightarrow> nat" where
  "n_server_per_pod p = (k_fat p div 2 * k_fat p) div 2 * oversubscript p"

definition n_server_per_tor :: "topo_params \<Rightarrow> nat" where
  "n_server_per_tor p = k_fat p div 2 * oversubscript p"

definition n_server_total :: "topo_params \<Rightarrow> nat" where
  "n_server_total p = n_server_per_pod p * k_fat p"

definition n_tor_total :: "topo_params \<Rightarrow> nat" where
  "n_tor_total p = n_tor_per_pod p * k_fat p"

definition n_agg_total :: "topo_params \<Rightarrow> nat" where
  "n_agg_total p = n_tor_per_pod p * k_fat p"

definition n_core_total :: "topo_params \<Rightarrow> nat" where
  "n_core_total p = n_core p"

definition i_tor :: "topo_params \<Rightarrow> nat" where
  "i_tor p = n_server_total p"

definition i_agg :: "topo_params \<Rightarrow> nat" where
  "i_agg p = n_server_total p + n_tor_total p"

definition i_core :: "topo_params \<Rightarrow> nat" where
  "i_core p = n_server_total p + n_tor_total p + n_agg_total p"

section \<open>The three link loops\<close>

type_synonym link = "nat \<times> nat"

definition server_links :: "topo_params \<Rightarrow> link list" where
  "server_links p =
     concat (map (\<lambda>t. map (\<lambda>i. (t * n_server_per_tor p + i, i_tor p + t)) [0..<n_server_per_tor p])
       [0..<n_tor_total p])"

definition tor_agg_links :: "topo_params \<Rightarrow> link list" where
  "tor_agg_links p =
     concat (map (\<lambda>i. concat (map (\<lambda>j.
         map (\<lambda>l. (i_tor p + i * n_tor_per_pod p + j, i_agg p + i * n_tor_per_pod p + l))
           [0..<n_agg_per_pod p]) [0..<n_tor_per_pod p])) [0..<n_pod p])"

definition agg_core_links :: "topo_params \<Rightarrow> link list" where
  "agg_core_links p =
     (let n_jump = k_fat p div 2
      in concat (map (\<lambda>i. concat (map (\<lambda>j.
           map (\<lambda>l. (i_agg p + i * n_agg_per_pod p + j, i_core p + j * n_jump + l))
             [0..<k_fat p div 2]) [0..<n_agg_per_pod p])) [0..<n_pod p]))"

definition all_links :: "topo_params \<Rightarrow> link list" where
  "all_links p = server_links p @ tor_agg_links p @ agg_core_links p"

text \<open>The body of the loops: write a line, count it.\<close>

definition link_line :: "topo_params \<Rightarrow> link \<Rightarrow> string" where
  "link_line p e =
     show_nat (fst e) @ '' '' @ show_nat (snd e) @ '' '' @ show_nat (link_rate p) @ ''Gbps '' @
     show_nat (link_latency p) @ ''ns 0.000000'' @ nl"

fun write_links :: "topo_params \<Rightarrow> link list \<Rightarrow> string \<times> nat \<Rightarrow> string \<times> nat" where
  "write_links p [] (out, num_link) = (out, num_link)"
| "write_links p (e # es) (out, num_link) = write_links p es (out @ link_line p e, num_link + 1)"

section \<open>The two header lines and the files\<close>

definition rstrip_newlines :: "string \<Rightarrow> string" where
  "rstrip_newlines s = rev (dropWhile (\<lambda>c. c = CHR 0x0D \<or> c = CHR 0x0A) (rev s))"

definition line_prepender :: "string \<Rightarrow> string \<Rightarrow> string" where
  "line_prepender content line = rstrip_newlines line @ nl @ content"

definition num_total_node :: "topo_params \<Rightarrow> nat" where
  "num_total_node p = n_server_total p + n_tor_total p + n_agg_total p + n_core_total p"

definition num_total_switch :: "topo_params \<Rightarrow> nat" where
  "num_total_switch p = n_tor_total p + n_agg_total p + n_core_total p"

definition id_switch_all :: "topo_params \<Rightarrow> string" where
  "id_switch_all p =
     concat (map (\<lambda>i. if i = num_total_switch p - 1
                      then show_nat (i + n_server_total p) @ nl
                      else show_nat (i + n_server_total p) @ '' '') [0..<num_total_switch p])"

record topo_files =
  topo_name :: string
  topo_text :: string
  trace_name :: string
  trace_text :: string

definition topology_text :: "topo_params \<Rightarrow> string" where
  "topology_text p =
     (case write_links p (all_links p) ([], 0) of (body, num_link) \<Rightarrow>
        line_prepender (line_prepender body (id_switch_all p))
          (show_nat (num_total_node p) @ '' '' @ show_nat (num_total_switch p) @ '' '' @ show_nat num_link))"

definition fat_topology_gen :: "topo_params \<Rightarrow> topo_files res" where
  "fat_topology_gen p =
     bindE (guardE AssertionError (even (k_fat p))) (\<lambda>_.
     Inr \<lparr>topo_name = ''fat_k'' @ show_nat (k_fat p) @ ''_'' @ show_nat (link_rate p) @ ''G_OS'' @
                        show_nat (oversubscript p) @ ''.txt'',
          topo_text = topology_text p,
          trace_name = ''fat_k'' @ show_nat (k_fat p) @ ''_trace.txt'',
          trace_text = show_nat (n_server_total p) @ nl\<rparr>)"

section \<open>The shape of the topology\<close>

named_theorems topo_sizes "sizes in terms of half of k_fat"

lemma sizes_half [topo_sizes]:
  assumes "k_fat p = 2 * h"
  shows "n_core p = h * h" "n_pod p = 2 * h" "n_agg_per_pod p = h" "n_tor_per_pod p = h"
    "n_server_per_tor p = h * oversubscript p" "n_server_per_pod p = h * h * oversubscript p"
    "n_server_total p = h * h * oversubscript p * (2 * h)" "n_tor_total p = h * (2 * h)"
    "n_agg_total p = h * (2 * h)" "n_core_total p = h * h" "k_fat p div 2 = h"
  using assms
  by (simp_all add: n_core_def n_pod_def n_agg_per_pod_def n_tor_per_pod_def n_server_per_tor_def
      n_server_per_pod_def n_server_total_def n_tor_total_def n_agg_total_def n_core_total_def)

lemma write_links_acc:
  "write_links p es (out, n) = (out @ concat (map (link_line p) es), n + length es)"
  by (induction es arbitrary: out n) auto

lemma concat_const_length: "(\<And>x. x \<in> set xs \<Longrightarrow> length (f x) = n) \<Longrightarrow> length (concat (map f xs)) = length xs * n"
  by (induction xs) auto

lemma length_server_links: "length (server_links p) = n_tor_total p * n_server_per_tor p"
  by (simp add: server_links_def concat_const_length[where n = "n_server_per_tor p"])

lemma length_tor_agg_links: "length (tor_agg_links p) = n_pod p * (n_tor_per_pod p * n_agg_per_pod p)"
proof -
  have "length (concat (map (\<lambda>j. map (f j) [0..<n_agg_per_pod p]) [0..<n_tor_per_pod p]))
      = n_tor_per_pod p * n_agg_per_pod p" for f :: "nat \<Rightarrow> nat \<Rightarrow> link"
    by (simp add: concat_const_length[where n = "n_agg_per_pod p"])
  then show ?thesis
    by (simp add: tor_agg_links_def concat_const_length[where n = "n_tor_per_pod p * n_agg_per_pod p"])
qed

lemma length_agg_core_links: "length (agg_core_links p) = n_pod p * (n_agg_per_pod p * (k_fat p div 2))"
proof -
  have "length (concat (map (\<lambda>j. map (f j) [0..<k_fat p div 2]) [0..<n_agg_per_pod p]))
      = n_agg_per_pod p * (k_fat p div 2)" for f :: "nat \<Rightarrow> nat \<Rightarrow> link"
    by (simp add: concat_const_length[where n = "k_fat p div 2"])
  then show ?thesis
    by (simp add: agg_core_links_def Let_def
        concat_const_length[where n = "n_agg_per_pod p * (k_fat p div 2)"])
qed

lemma server_link_iff:
  "(u, v) \<in> set (server_links p) \<longleftrightarrow>
     (\<exists>t i. t < n_tor_total p \<and> i < n_server_per_tor p \<and> u = t * n_server_per_tor p + i \<and> v = i_tor p + t)"
  by (force simp: server_links_def)

lemma tor_agg_link_iff:
  "(u, v) \<in> set (tor_agg_links p) \<longleftrightarrow>
     (\<exists>i j l. i < n_pod p \<and> j < n_tor_per_pod p \<and> l < n_agg_per_pod p \<and>
        u = i_tor p + i * n_tor_per_pod p + j \<and> v = i_agg p + i * n_tor_per_pod p + l)"
  by (force simp: tor_agg_links_def)

lemma agg_core_link_iff:
  "(u, v) \<in> set (agg_core_links p) \<longleftrightarrow>
     (\<exists>i j l. i < n_pod p \<and> j < n_agg_per_pod p \<and> l < k_fat p div 2 \<and>
        u = i_agg p + i * n_agg_per_pod p + j \<and> v = i_core p + j * (k_fat p div 2) + l)"
  by (force simp: agg_core_links_def Let_def)

lemmas link_iffs = server_link_iff tor_agg_link_iff agg_core_link_iff

lemma mult_add_less: "a < m \<Longrightarrow> b < n \<Longrightarrow> a * n + b < m * (n :: nat)"
proof -
  assume "a < m" "b < n"
  then have "a * n + b < Suc a * n" by simp
  also have "\<dots> \<le> m * n" using \<open>a < m\<close> by (intro mult_le_mono1) simp
  finally show ?thesis .
qed

lemma nested_loops: "concat (map (\<lambda>x. map (f x) ys) xs) = map (\<lambda>(x, y). f x y) (List.product xs ys)"
  by (induction xs) (auto simp: comp_def)

lemma upt_blocks: "concat (map (\<lambda>t. map (\<lambda>i. t * n + i) [0..<n]) [0..<m]) = [0..<m * n]"
proof (induction m)
  case (Suc m)
  have "map (\<lambda>i. m * n + i) [0..<n] = [m * n..<m * n + n]"
    by (simp add: map_add_upt add.commute)
  then show ?case
    using Suc upt_add_eq_append[of 0 "m * n" n] by (simp add: add.commute)
qed simp

lemma server_sources: "map fst (server_links p) = [0..<n_tor_total p * n_server_per_tor p]"
  using upt_blocks[of "n_server_per_tor p" "n_tor_total p"]
  by (simp add: server_links_def map_concat comp_def)

lemma even_half:
  assumes "even (k_fat p)" obtains h where "k_fat p = 2 * h"
  using assms by (auto elim: evenE)

lemma servers_by_tor: "even (k_fat p) \<Longrightarrow> n_tor_total p * n_server_per_tor p = n_server_total p"
  by (elim even_half) (simp add: topo_sizes algebra_simps)

lemma switch_link_source:
  assumes "even (k_fat p)" "(u, v) \<in> set (tor_agg_links p) \<union> set (agg_core_links p)"
  shows "n_server_total p \<le> u"
  using assms by (auto simp: link_iffs i_tor_def i_agg_def)

lemma filter_source: "filter (\<lambda>e. fst e = u) es = [] \<longleftrightarrow> u \<notin> fst ` set es"
  by (auto simp: filter_empty_conv)

lemma count_distinct_fst:
  "distinct (map fst es) \<Longrightarrow> (u, v) \<in> set es \<Longrightarrow> filter (\<lambda>e. fst e = u) es = [(u, v)]"
proof (induction es)
  case (Cons e es)
  show ?case
  proof (cases "e = (u, v)")
    case True
    then have "u \<notin> fst ` set es" using Cons.prems(1) by auto
    then show ?thesis using True by (simp add: filter_source)
  next
    case False
    then have uv: "(u, v) \<in> set es" using Cons.prems(2) by auto
    then have "fst e \<noteq> u" using Cons.prems(1) by (force simp: image_iff)
    then show ?thesis using Cons uv by auto
  qed
qed simp

lemma tor_of_server:
  assumes "even (k_fat p)" "u < n_server_total p"
  shows "(u, i_tor p + u div n_server_per_tor p) \<in> set (server_links p)"
proof -
  have u: "u < n_tor_total p * n_server_per_tor p" using assms by (simp add: servers_by_tor)
  then have pos: "0 < n_server_per_tor p" by (cases "n_server_per_tor p") auto
  have "u div n_server_per_tor p < n_tor_total p" "u mod n_server_per_tor p < n_server_per_tor p"
    using u pos by (simp_all add: less_mult_imp_div_less)
  moreover have "u = u div n_server_per_tor p * n_server_per_tor p + u mod n_server_per_tor p" by simp
  ultimately show ?thesis unfolding server_link_iff by blast
qed

text \<open>
  In the fat-tree topology that \<open>fat_topology_gen.py\<close> writes (even \<open>k_fat\<close>), every server has
  exactly one link line, and it goes to the ToR switch of its rack: server \<open>u\<close> hangs off switch
  \<open>i_tor + u div n_server_per_tor\<close>.
\<close>

theorem server_has_one_uplink:
  assumes "even (k_fat p)" and "u < n_server_total p"
  shows "filter (\<lambda>e. fst e = u) (all_links p) = [(u, i_tor p + u div n_server_per_tor p)]"
proof -
  have "distinct (map fst (server_links p))" by (simp add: server_sources)
  then have "filter (\<lambda>e. fst e = u) (server_links p) = [(u, i_tor p + u div n_server_per_tor p)]"
    using tor_of_server[OF assms] by (rule count_distinct_fst)
  moreover have "u \<notin> fst ` set (tor_agg_links p)" "u \<notin> fst ` set (agg_core_links p)"
    using switch_link_source[OF assms(1), of u] assms(2) by (fastforce simp: not_le[symmetric])+
  ultimately show ?thesis by (simp add: all_links_def filter_source)
qed

theorem server_has_one_uplink_witness:
  "filter (\<lambda>e. fst e = 7) (all_links \<lparr>k_fat = 4, oversubscript = 2, link_rate = 100, link_latency = 1000\<rparr>)
   = [(7, 33)]"
  using server_has_one_uplink[of "\<lparr>k_fat = 4, oversubscript = 2, link_rate = 100, link_latency = 1000\<rparr>" 7]
  by (simp add: n_server_total_def n_server_per_pod_def i_tor_def n_server_per_tor_def)

lemma in_range_lemma:
  assumes k: "k_fat p = 2 * h" and uv: "(u, v) \<in> set (all_links p)"
  shows "u < v \<and> v < num_total_node p"
proof -
  note sz = sizes_half[OF k]
  have base: "i_tor p = n_server_total p" "i_agg p = i_tor p + h * (2 * h)" "i_core p = i_agg p + h * (2 * h)"
      "num_total_node p = i_core p + h * h"
    by (simp_all add: i_tor_def i_agg_def i_core_def num_total_node_def sz)
  have pj: "i * h + j < h * (2 * h)" if "i < 2 * h" "j < h" for i j
    using mult_add_less[OF that] by (simp add: mult.commute)
  consider "(u, v) \<in> set (server_links p)" | "(u, v) \<in> set (tor_agg_links p)"
    | "(u, v) \<in> set (agg_core_links p)" using uv by (auto simp: all_links_def)
  then show ?thesis
  proof cases
    case 1
    then obtain t i where *: "t < n_tor_total p" "i < n_server_per_tor p"
        "u = t * n_server_per_tor p + i" "v = i_tor p + t"
      by (auto simp: server_link_iff)
    have "u < n_server_total p"
      using mult_add_less[OF *(1,2)] *(3) servers_by_tor[of p] k by simp
    then show ?thesis using * base sz(8) by linarith
  next
    case 2
    then obtain i j l where *: "i < 2 * h" "j < h" "l < h"
        "u = i_tor p + (i * h + j)" "v = i_agg p + (i * h + l)"
      by (auto simp: tor_agg_link_iff sz add.assoc)
    then show ?thesis using pj[of i j] pj[of i l] base by linarith
  next
    case 3
    then obtain i j l where *: "i < 2 * h" "j < h" "l < h"
        "u = i_agg p + (i * h + j)" "v = i_core p + (j * h + l)"
      by (auto simp: agg_core_link_iff sz add.assoc)
    then show ?thesis using pj[of i j] mult_add_less[of j h l h] base by linarith
  qed
qed

lemma tor_agg_product:
  "tor_agg_links p = map (\<lambda>(i, j, l). (i_tor p + i * n_tor_per_pod p + j, i_agg p + i * n_tor_per_pod p + l))
     (List.product [0..<n_pod p] (List.product [0..<n_tor_per_pod p] [0..<n_agg_per_pod p]))"
  by (simp add: tor_agg_links_def nested_loops)

lemma agg_core_product:
  "agg_core_links p = map (\<lambda>(i, j, l). (i_agg p + i * n_agg_per_pod p + j, i_core p + j * (k_fat p div 2) + l))
     (List.product [0..<n_pod p] (List.product [0..<n_agg_per_pod p] [0..<k_fat p div 2]))"
  by (simp add: agg_core_links_def Let_def nested_loops)

lemma digits_unique: "i * n + j = i' * n + j' \<Longrightarrow> j < n \<Longrightarrow> j' < (n :: nat) \<Longrightarrow> i = i' \<and> j = j'"
  by (metis add.commute div_mult_self1 mod_mult_self1 mod_less div_less add_cancel_right_left
      gr_implies_not_zero mult.commute mult.right_neutral)

lemma distinct_tor_agg: "n_tor_per_pod p = n_agg_per_pod p \<Longrightarrow> distinct (tor_agg_links p)"
  unfolding tor_agg_product distinct_map
  by (auto simp: distinct_product inj_on_def dest: digits_unique simp: add.assoc)

lemma distinct_agg_core:
  "n_agg_per_pod p = k_fat p div 2 \<Longrightarrow> distinct (agg_core_links p)"
  unfolding agg_core_product distinct_map
  by (auto simp: distinct_product inj_on_def dest: digits_unique simp: add.assoc)

text \<open>
  C28. Totals: the number of links that the loops count is one per server plus two full layers of
  \<open>k_fat * (k_fat div 2) ^ 2\<close> switch links; no link is written twice; and both ends of every link
  are node ids below the total of the first line, the lower layer's end first.
\<close>

theorem topology_links_sound:
  assumes "even (k_fat p)"
  shows "write_links p (all_links p) ([], 0) =
           (concat (map (link_line p) (all_links p)),
            n_server_total p + 2 * (k_fat p * (k_fat p div 2) ^ 2)) \<and>
         distinct (all_links p) \<and>
         (\<forall>(u, v) \<in> set (all_links p). u < v \<and> v < num_total_node p)"
proof -
  obtain h where k: "k_fat p = 2 * h" using assms by (rule even_half)
  have "length (all_links p) = n_server_total p + 2 * (k_fat p * (k_fat p div 2) ^ 2)"
    using servers_by_tor[OF assms]
    by (simp add: all_links_def length_server_links length_tor_agg_links length_agg_core_links
        topo_sizes[OF k] k power2_eq_square)
  moreover have "distinct (all_links p)"
  proof -
    have "distinct (server_links p)"
      using server_sources[of p] by (metis distinct_map distinct_upt)
    moreover have "distinct (tor_agg_links p)" "distinct (agg_core_links p)"
      by (simp_all add: distinct_tor_agg distinct_agg_core topo_sizes[OF k])
    moreover have "u < n_server_total p" if "(u, v) \<in> set (server_links p)" for u v
      using server_sources[of p] that servers_by_tor[OF assms]
      by (metis atLeastLessThan_iff fst_conv image_eqI list.set_map set_upt)
    moreover have "u < i_agg p" if "(u, v) \<in> set (tor_agg_links p)" for u v
      using that mult_add_less[of _ "2 * h" _ h]
      by (auto simp: tor_agg_link_iff topo_sizes[OF k] i_agg_def i_tor_def mult.commute)
    moreover have "i_agg p \<le> u" if "(u, v) \<in> set (agg_core_links p)" for u v
      using that by (auto simp: agg_core_link_iff)
    ultimately show ?thesis
      using switch_link_source[OF assms] by (fastforce simp: all_links_def not_le[symmetric])
  qed
  moreover have "\<forall>(u, v) \<in> set (all_links p). u < v \<and> v < num_total_node p"
    using in_range_lemma[OF k] by blast
  ultimately show ?thesis by (simp add: write_links_acc)
qed

theorem topology_links_sound_witness:
  "snd (write_links shipped_params (all_links shipped_params) ([], 0)) = 1728"
  using topology_links_sound[of shipped_params]
  by (simp add: shipped_params_def n_server_total_def n_server_per_pod_def)

section \<open>Connectivity\<close>

text \<open>
  Every core switch has exactly one link into every pod: core \<open>c\<close> is attached to the
  aggregation switch number \<open>c div (k_fat div 2)\<close> of each pod.
\<close>

theorem core_one_link_per_pod:
  assumes "even (k_fat p)" and "c < n_core_total p" and "i < n_pod p"
  shows "{u. (u, i_core p + c) \<in> set (agg_core_links p) \<and>
             i_agg p + i * n_agg_per_pod p \<le> u \<and> u < i_agg p + (i + 1) * n_agg_per_pod p}
         = {i_agg p + i * n_agg_per_pod p + c div (k_fat p div 2)}"
proof -
  obtain h where k: "k_fat p = 2 * h" using assms(1) by (rule even_half)
  note sz = sizes_half[OF k]
  have c: "c < h * h" using assms(2) by (simp add: sz)
  then have h: "0 < h" by (cases h) auto
  have uniq: "j = c div h \<and> i' = i"
    if "c = j * h + l" "l < h" "j < h" "i * h \<le> i' * h + j" "i' * h + j < (i + 1) * h" for i' j l
  proof
    show "j = c div h" using that by simp
    have "(i' * h + j) div h = i" using that(4,5) h by (intro div_nat_eqI) (auto simp: mult.commute)
    then show "i' = i" using that(3) by simp
  qed
  have cd: "c div h < h" "c mod h < h" using c h by (simp_all add: less_mult_imp_div_less)
  let ?X = "i_agg p + i * h + c div h"
  have mem: "(?X, i_core p + c) \<in> set (agg_core_links p)"
    unfolding agg_core_link_iff sz using assms(3) cd
    by (intro exI[of _ i] exI[of _ "c div h"] exI[of _ "c mod h"]) (simp add: sz)
  have rng: "i_agg p + i * h \<le> ?X" "?X < i_agg p + (i + 1) * h" using cd(1) by simp_all
  have only: "u = ?X"
    if up: "(u, i_core p + c) \<in> set (agg_core_links p)"
      and lo: "i_agg p + i * h \<le> u" and hi: "u < i_agg p + (i + 1) * h" for u
  proof -
    obtain i' j l where *: "j < h" "l < h" "u = i_agg p + i' * h + j" "i_core p + c = i_core p + j * h + l"
      using up by (auto simp: agg_core_link_iff sz)
    have "j = c div h \<and> i' = i"
      by (rule uniq[of j l i']) (use * lo hi in linarith)+
    then show ?thesis using * by simp
  qed
  show ?thesis
    unfolding sz
  proof (rule set_eqI, unfold mem_Collect_eq singleton_iff, rule iffI)
    fix u assume "(u, i_core p + c) \<in> set (agg_core_links p) \<and> i_agg p + i * h \<le> u \<and>
      u < i_agg p + (i + 1) * h"
    then show "u = ?X" by (elim conjE) (rule only)
  next
    fix u assume "u = ?X"
    then show "(u, i_core p + c) \<in> set (agg_core_links p) \<and> i_agg p + i * h \<le> u \<and>
      u < i_agg p + (i + 1) * h" using mem rng by simp
  qed
qed

theorem core_one_link_per_pod_witness:
  "{u. (u, i_core shipped_params + 35) \<in> set (agg_core_links shipped_params) \<and>
       i_agg shipped_params + 11 * n_agg_per_pod shipped_params \<le> u \<and>
       u < i_agg shipped_params + (11 + 1) * n_agg_per_pod shipped_params}
   = {i_agg shipped_params + 11 * n_agg_per_pod shipped_params + 35 div (k_fat shipped_params div 2)}"
  by (rule core_one_link_per_pod) (simp_all add: shipped_params_def n_core_total_def n_core_def n_pod_def)

definition hop :: "topo_params \<Rightarrow> (nat \<times> nat) set" where
  "hop p = set (all_links p) \<union> (set (all_links p))\<inverse>"

lemma hop_sym: "(u, v) \<in> hop p \<Longrightarrow> (v, u) \<in> hop p"
  by (auto simp: hop_def)

lemma hop_up:
  assumes "even (k_fat p)" "u < n_server_total p"
  obtains t g where "(u, t) \<in> hop p" "(t, g) \<in> hop p" "(g, i_core p) \<in> hop p"
proof -
  obtain h where k: "k_fat p = 2 * h" using assms(1) by (rule even_half)
  note sz = sizes_half[OF k]
  define t where "t = u div n_server_per_tor p"
  have h: "0 < h" using assms(2) by (cases h) (auto simp: sz)
  have "u < n_tor_total p * n_server_per_tor p" using assms by (simp add: servers_by_tor)
  then have "t < h * (2 * h)"
    unfolding t_def by (metis less_mult_imp_div_less sz(8))
  then have t: "t div h < 2 * h" "t mod h < h" "t = t div h * h + t mod h"
    using h by (simp_all add: less_mult_imp_div_less mult.commute)
  have "(u, i_tor p + t) \<in> set (server_links p)"
    using tor_of_server[OF assms] by (simp add: t_def)
  moreover have "(i_tor p + t, i_agg p + t div h * h) \<in> set (tor_agg_links p)"
    unfolding tor_agg_link_iff sz using t h
    by (intro exI[of _ "t div h"] exI[of _ "t mod h"] exI[of _ 0]) simp
  moreover have "(i_agg p + t div h * h, i_core p) \<in> set (agg_core_links p)"
    unfolding agg_core_link_iff sz using t h
    by (intro exI[of _ "t div h"] exI[of _ 0]) simp
  ultimately show thesis
    by (intro that[of "i_tor p + t" "i_agg p + t div h * h"]) (auto simp: hop_def all_links_def)
qed

text \<open>
  C32. The generated network is connected: any two servers are joined by a walk of six links (up to
  a core switch and down again).
\<close>

theorem servers_connected:
  assumes "even (k_fat p)" and "a < n_server_total p" and "b < n_server_total p"
  shows "(a, b) \<in> hop p ^^ 6"
proof -
  obtain t g where up: "(a, t) \<in> hop p" "(t, g) \<in> hop p" "(g, i_core p) \<in> hop p"
    using hop_up[OF assms(1,2)] by blast
  obtain t' g' where down: "(b, t') \<in> hop p" "(t', g') \<in> hop p" "(g', i_core p) \<in> hop p"
    using hop_up[OF assms(1,3)] by blast
  show ?thesis
    using up down[THEN hop_sym] by (auto simp: numeral_eq_Suc intro!: relcompI)
qed

theorem servers_connected_witness: "(0, 863) \<in> hop shipped_params ^^ 6"
  by (rule servers_connected) (simp_all add: shipped_params_def n_server_total_def n_server_per_pod_def)

end
