(* ===== verification/PyFloat.thy ===== *)
theory PyFloat
  imports PyBase "HOL-Library.Log_Nat"
begin

text \<open>
  Python's \<open>float\<close>: IEEE binary64 numbers as rationals with the rounding written out.

  A finite float is \<open>Fin r\<close> with its exact rational value; \<open>PInf\<close>, \<open>MInf\<close> and \<open>NaN\<close> are the other
  values (the two zeros are one value). Every arithmetic operation computes the exact result and
  rounds it once with \<open>fround\<close>: to 53 significant bits, ties to even, with gradual underflow at
  exponent -1074 and overflow to infinity at \<open>2 ^ 1024\<close>. Conversions from decimal strings
  (\<open>py_float\<close>) and to them (\<open>fmt_fixed\<close> for \<open>%.nf\<close>, \<open>repr_float\<close> for \<open>str\<close>) are correctly rounded,
  as CPython's are. The locale \<open>rounding\<close> states what numeric code may rely on, whatever the
  precision; it is interpreted on the binary64 rounding.
\<close>

section \<open>Rounding to the nearest integer, ties to even\<close>

definition round_half_even :: "rat \<Rightarrow> int" where
  "round_half_even x =
     (let f = \<lfloor>x\<rfloor>; d = x - of_int f
      in if d < 1 / 2 then f else if 1 / 2 < d then f + 1 else if even f then f else f + 1)"

lemma round_half_even_of_int [simp]: "round_half_even (of_int n) = n"
  by (simp add: round_half_even_def)

lemma round_half_even_zero [simp]: "round_half_even 0 = 0"
  using round_half_even_of_int[of 0] by simp

lemma round_half_even_bounds:
  "\<lfloor>x\<rfloor> \<le> round_half_even x" "round_half_even x \<le> \<lfloor>x\<rfloor> + 1"
  by (simp_all add: round_half_even_def Let_def)

lemma round_half_even_mono:
  assumes "x \<le> y" shows "round_half_even x \<le> round_half_even y"
proof (cases "\<lfloor>x\<rfloor> = \<lfloor>y\<rfloor>")
  case True
  then show ?thesis using assms by (auto simp: round_half_even_def Let_def)
next
  case False
  then have "\<lfloor>x\<rfloor> + 1 \<le> \<lfloor>y\<rfloor>" using floor_mono[OF assms] by linarith
  then show ?thesis
    using round_half_even_bounds(2)[of x] round_half_even_bounds(1)[of y] by linarith
qed

lemma round_half_even_uminus: "round_half_even (- x) = - round_half_even x"
proof (cases "x \<in> \<int>")
  case True
  then obtain n where "x = of_int n" by (auto elim: Ints_cases)
  then show ?thesis using round_half_even_of_int[of "- n"] by simp
next
  case False
  then have fl: "\<lfloor>- x\<rfloor> = - \<lfloor>x\<rfloor> - 1"
    by (metis ceiling_altdef ceiling_def minus_equation_iff minus_diff_eq
        Ints_of_int diff_conv_add_uminus add.commute)
  show ?thesis
    unfolding round_half_even_def Let_def fl by (auto simp: algebra_simps)
qed

lemma round_half_even_nonneg: "0 \<le> x \<Longrightarrow> 0 \<le> round_half_even x"
  using round_half_even_mono[of 0 x] by simp

lemma round_half_even_close: "\<bar>of_int (round_half_even x) - x\<bar> \<le> 1 / 2"
proof -
  have "of_int \<lfloor>x\<rfloor> \<le> x" "x < of_int \<lfloor>x\<rfloor> + 1" by linarith+
  then show ?thesis by (auto simp: round_half_even_def Let_def abs_le_iff)
qed

section \<open>Rounding to 53 significant bits\<close>

text \<open>\<open>ilog2 x\<close> is the exponent of the leading bit of a positive rational.\<close>

definition ilog2 :: "rat \<Rightarrow> int" where
  "ilog2 x =
     (case quotient_of x of (p, q) \<Rightarrow>
        let k = bitlen p - bitlen q in if 2 powi k \<le> x then k else k - 1)"

definition ulp_exp :: "rat \<Rightarrow> int" where
  "ulp_exp x = max (ilog2 x - 52) (- 1074)"

definition rnd53_pos :: "rat \<Rightarrow> rat" where
  "rnd53_pos x = of_int (round_half_even (x / 2 powi ulp_exp x)) * 2 powi ulp_exp x"

definition rnd53 :: "rat \<Rightarrow> rat" where
  "rnd53 x = (if 0 < x then rnd53_pos x else if x < 0 then - rnd53_pos (- x) else 0)"

lemma ilog2_bounds:
  assumes "0 < x" shows "2 powi ilog2 x \<le> x" and "x < 2 powi (ilog2 x + 1)"
proof -
  obtain p q where pq: "quotient_of x = (p, q)" by (cases "quotient_of x")
  then have q: "0 < q" and x: "x = of_int p / of_int q"
    by (auto intro: quotient_of_denom_pos quotient_of_div)
  have p: "0 < p" using assms q x by (simp add: zero_less_divide_iff)
  define a where "a = bitlen p" define b where "b = bitlen q"
  have ab: "0 < a" "0 < b" using p q by (simp_all add: a_def b_def bitlen_nonneg bitlen_eq_zero_iff order_less_le)
  have pb: "2 ^ nat (a - 1) \<le> p" "p < 2 ^ nat a" and qb: "2 ^ nat (b - 1) \<le> q" "q < 2 ^ nat b"
    using bitlen_bounds[OF p] bitlen_bounds[OF q] by (simp_all add: a_def b_def)
  have toR: "(of_int (2 ^ nat k) :: rat) = 2 powi k" if "0 \<le> k" for k
    using that by (simp add: power_int_def)
  have pR: "2 powi (a - 1) \<le> (of_int p :: rat)" "(of_int p :: rat) < 2 powi a"
    using pb ab toR[of "a - 1"] toR[of a]
    by (metis diff_ge_0_iff_ge int_one_le_iff_zero_less of_int_le_iff, metis less_imp_le of_int_less_iff)
  have qR: "2 powi (b - 1) \<le> (of_int q :: rat)" "(of_int q :: rat) < 2 powi b"
    using qb ab toR[of "b - 1"] toR[of b]
    by (metis diff_ge_0_iff_ge int_one_le_iff_zero_less of_int_le_iff, metis less_imp_le of_int_less_iff)
  have "2 powi (a - 1) / 2 powi b \<le> x"
    unfolding x using pR qR q p by (intro frac_le) auto
  then have lo: "2 powi (a - b - 1) \<le> x"
    by (simp add: power_int_diff[symmetric] algebra_simps)
  have "x < 2 powi a / 2 powi (b - 1)"
    unfolding x using pR qR q p by (intro frac_less) auto
  then have hi: "x < 2 powi (a - b + 1)"
    by (simp add: power_int_diff[symmetric] algebra_simps)
  have il: "ilog2 x = (if 2 powi (a - b) \<le> x then a - b else a - b - 1)"
    by (simp add: ilog2_def pq a_def b_def Let_def)
  show "2 powi ilog2 x \<le> x" using lo by (simp add: il)
  show "x < 2 powi (ilog2 x + 1)" using hi by (simp add: il)
qed

lemma powi_le_iff: "(2::rat) powi a \<le> 2 powi b \<longleftrightarrow> a \<le> b"
  by (metis linorder_not_le one_le_numeral one_less_numeral_iff power_int_increasing
      power_int_strict_increasing semiring_norm(76))

lemma powi_less_iff: "(2::rat) powi a < 2 powi b \<longleftrightarrow> a < b"
  using powi_le_iff[of b a] by (simp add: not_le[symmetric])

lemma powi_pos [simp]: "0 < (2::rat) powi k"
  by (simp add: zero_less_power_int)

lemma powi_int: "0 \<le> k \<Longrightarrow> (2::rat) powi k = of_int (2 ^ nat k)"
  by (simp add: power_int_def)

lemma powi_split: "(2::rat) powi (a - b) * 2 powi b = 2 powi a"
  by (simp add: power_int_add[symmetric])

lemma ilog2_less: "0 < x \<Longrightarrow> x < 2 powi k \<Longrightarrow> ilog2 x < k"
  by (metis ilog2_bounds(1) order_le_less_trans powi_less_iff)

lemma ilog2_ge: "0 < x \<Longrightarrow> 2 powi k \<le> x \<Longrightarrow> k \<le> ilog2 x"
  by (metis ilog2_bounds(2) order_le_less_trans powi_less_iff zless_add1_eq linorder_not_le less_le)

lemma ilog2_mono: "0 < x \<Longrightarrow> x \<le> y \<Longrightarrow> ilog2 x \<le> ilog2 y"
  by (meson ilog2_bounds(1) ilog2_ge order_less_le_trans order_trans)

lemma ulp_exp_mono: "0 < x \<Longrightarrow> x \<le> y \<Longrightarrow> ulp_exp x \<le> ulp_exp y"
  using ilog2_mono[of x y] by (simp add: ulp_exp_def)

lemma rnd53_pos_le:
  assumes "0 < x" "x \<le> 2 powi k" "ulp_exp x \<le> k"
  shows "rnd53_pos x \<le> 2 powi k"
proof -
  let ?q = "ulp_exp x"
  have "x / 2 powi ?q \<le> 2 powi (k - ?q)"
    using assms by (simp add: power_int_diff divide_right_mono)
  then have "round_half_even (x / 2 powi ?q) \<le> round_half_even (of_int (2 ^ nat (k - ?q)))"
    using assms by (intro round_half_even_mono) (simp add: powi_int)
  then have "(of_int (round_half_even (x / 2 powi ?q)) :: rat) \<le> 2 powi (k - ?q)"
    using assms by (simp add: powi_int) (metis of_int_le_iff of_int_numeral of_int_power round_half_even_of_int)
  then show ?thesis
    unfolding rnd53_pos_def by (metis mult_le_cancel_right_pos powi_pos powi_split)
qed

lemma rnd53_pos_ge:
  assumes "0 < x" "2 powi k \<le> x" "ulp_exp x \<le> k"
  shows "2 powi k \<le> rnd53_pos x"
proof -
  let ?q = "ulp_exp x"
  have "2 powi (k - ?q) \<le> x / 2 powi ?q"
    using assms by (simp add: power_int_diff divide_right_mono)
  then have "round_half_even (of_int (2 ^ nat (k - ?q))) \<le> round_half_even (x / 2 powi ?q)"
    using assms by (intro round_half_even_mono) (simp add: powi_int)
  then have "2 powi (k - ?q) \<le> (of_int (round_half_even (x / 2 powi ?q)) :: rat)"
    using assms by (simp add: powi_int) (metis of_int_le_iff of_int_numeral of_int_power round_half_even_of_int)
  then show ?thesis
    unfolding rnd53_pos_def by (metis mult_le_cancel_right_pos powi_pos powi_split)
qed

lemma rnd53_pos_mono:
  assumes "0 < x" "x \<le> y" shows "rnd53_pos x \<le> rnd53_pos y"
proof (cases "ulp_exp x = ulp_exp y")
  case True
  have "round_half_even (x / 2 powi ulp_exp y) \<le> round_half_even (y / 2 powi ulp_exp y)"
    using assms by (intro round_half_even_mono divide_right_mono) (auto simp: less_imp_le)
  then show ?thesis unfolding rnd53_pos_def True
    by (intro mult_right_mono) (auto simp: less_imp_le)
next
  case False
  then have lt: "ulp_exp x < ulp_exp y" using ulp_exp_mono[OF assms] by simp
  then have uy: "ulp_exp y = ilog2 y - 52" by (auto simp: ulp_exp_def max_def split: if_splits)
  have "ilog2 x < ilog2 y" using lt by (auto simp: ulp_exp_def max_def split: if_splits)
  then have "x \<le> 2 powi ilog2 y"
    using ilog2_bounds(2)[OF assms(1)] powi_le_iff[of "ilog2 x + 1" "ilog2 y"] by simp
  then have "rnd53_pos x \<le> 2 powi ilog2 y" using assms lt uy by (intro rnd53_pos_le) auto
  also have "\<dots> \<le> rnd53_pos y" using assms uy ilog2_bounds(1)[of y] by (intro rnd53_pos_ge) auto
  finally show ?thesis .
qed

lemma rnd53_pos_exact:
  assumes "x = of_int m * 2 powi e" "ulp_exp x \<le> e"
  shows "rnd53_pos x = x"
proof -
  have "x / 2 powi ulp_exp x = of_int (m * 2 ^ nat (e - ulp_exp x))"
    using assms by (simp add: powi_int[symmetric] power_int_diff[symmetric] flip: powi_int of_int_power)
      (metis powi_int diff_ge_0_iff_ge of_int_numeral of_int_power power_int_diff times_divide_eq_right zero_neq_numeral)
  then show ?thesis
    unfolding rnd53_pos_def by (metis nonzero_eq_divide_eq powi_pos less_irrefl round_half_even_of_int)
qed

lemma rnd53_pos_nonneg: "0 < x \<Longrightarrow> 0 \<le> rnd53_pos x"
  unfolding rnd53_pos_def
  by (intro mult_nonneg_nonneg) (auto simp: less_imp_le intro!: round_half_even_nonneg)

lemma rnd53_pos_idem:
  assumes "0 < x" "0 < rnd53_pos x" shows "rnd53_pos (rnd53_pos x) = rnd53_pos x"
proof -
  let ?r = "rnd53_pos x" and ?q = "ulp_exp x"
  define k where "k = max (ilog2 x + 1) ?q"
  have "x \<le> 2 powi k"
    using ilog2_bounds(2)[OF assms(1)] powi_le_iff[of "ilog2 x + 1" k] by (auto simp: k_def)
  then have le: "?r \<le> 2 powi k" using assms by (intro rnd53_pos_le) (auto simp: k_def)
  show ?thesis
  proof (cases "?r = 2 powi k")
    case True
    have "ilog2 ?r < k + 1" using assms True powi_less_iff[of k "k + 1"] by (intro ilog2_less) auto
    then have "ulp_exp ?r \<le> k" by (auto simp: ulp_exp_def k_def)
    then show ?thesis using True by (intro rnd53_pos_exact[of _ 1 k]) auto
  next
    case False
    then have "ilog2 ?r < k" using le assms by (intro ilog2_less) auto
    then have "ulp_exp ?r \<le> ?q" by (auto simp: ulp_exp_def k_def max_def split: if_splits)
    then show ?thesis by (intro rnd53_pos_exact) (auto simp: rnd53_pos_def)
  qed
qed

lemma rnd53_mono: "x \<le> y \<Longrightarrow> rnd53 x \<le> rnd53 y"
  using rnd53_pos_mono[of x y] rnd53_pos_mono[of "- y" "- x"]
    rnd53_pos_nonneg[of y] rnd53_pos_nonneg[of "- x"]
  by (auto simp: rnd53_def not_less intro: order_trans[of _ 0])

lemma rnd53_idem: "rnd53 (rnd53 x) = rnd53 x"
  using rnd53_pos_idem[of x] rnd53_pos_idem[of "- x"] rnd53_pos_nonneg[of x] rnd53_pos_nonneg[of "- x"]
  by (auto simp: rnd53_def)

lemma rnd53_uminus: "rnd53 (- x) = - rnd53 x"
  by (simp add: rnd53_def)

lemma rnd53_int:
  assumes "\<bar>n\<bar> < 2 ^ 53" shows "rnd53 (of_int n) = of_int n"
proof -
  have pos: "rnd53_pos (of_int m) = of_int m" if "0 < m" "m < 2 ^ 53" for m
  proof (rule rnd53_pos_exact[of _ m 0])
    have "(of_int m :: rat) < 2 powi 53"
      using that(2) by (simp add: power_int_def)
    then have "ilog2 (of_int m) < 53" using that by (intro ilog2_less) auto
    then show "ulp_exp (of_int m) \<le> 0" by (simp add: ulp_exp_def)
  qed simp
  show ?thesis using pos[of n] pos[of "- n"] assms by (auto simp: rnd53_def)
qed

text \<open>An equation on integers, with a single division, to evaluate the rounding with.\<close>

definition round_div :: "int \<Rightarrow> int \<Rightarrow> int" where
  "round_div a b =
     (let d = a div b; r = a mod b
      in if 2 * r < b then d else if b < 2 * r then d + 1 else if even d then d else d + 1)"

lemma round_div: "0 < b \<Longrightarrow> round_half_even (of_int a / of_int b) = round_div a b"
proof -
  assume b: "0 < b"
  have fl: "\<lfloor>of_int a / of_int b :: rat\<rfloor> = a div b" by (rule floor_divide_of_int_eq)
  have "(of_int a :: rat) = of_int (a div b) * of_int b + of_int (a mod b)"
    by (metis div_mult_mod_eq of_int_add of_int_mult)
  then have d: "of_int a / of_int b - of_int (a div b) = (of_int (a mod b) / of_int b :: rat)"
    using b by (simp add: field_simps)
  have c1: "(of_int (a mod b) / of_int b < (1 / 2 :: rat)) = (2 * (a mod b) < b)"
    using b by (simp add: field_simps) (metis of_int_less_iff of_int_mult of_int_numeral)
  have c2: "((1 / 2 :: rat) < of_int (a mod b) / of_int b) = (b < 2 * (a mod b))"
    using b by (simp add: field_simps) (metis of_int_less_iff of_int_mult of_int_numeral)
  show ?thesis
    unfolding round_half_even_def round_div_def Let_def fl d c1 c2 by simp
qed

lemma rnd53_pos_code [code]:
  "rnd53_pos x =
     (case quotient_of x of (p, q) \<Rightarrow>
        let e = ulp_exp x
        in if 0 \<le> e then of_int (round_div p (q * 2 ^ nat e) * 2 ^ nat e)
           else Rat.Fract (round_div (p * 2 ^ nat (- e)) q) (2 ^ nat (- e)))"
proof -
  obtain p q where pq: "quotient_of x = (p, q)" by (cases "quotient_of x")
  then have q: "0 < q" and x: "x = of_int p / of_int q"
    by (auto intro: quotient_of_denom_pos quotient_of_div)
  define e where "e = ulp_exp x"
  show ?thesis
  proof (cases "0 \<le> e")
    case True
    have "x / 2 powi e = of_int p / of_int (q * 2 ^ nat e)"
      unfolding x using True by (simp add: power_int_def)
    then have "rnd53_pos x = of_int (round_div p (q * 2 ^ nat e)) * 2 powi e"
      using q by (simp only: rnd53_pos_def e_def[symmetric]) (subst round_div, simp_all)
    then show ?thesis using True by (simp add: pq e_def[symmetric] power_int_def Let_def)
  next
    case False
    have "x / 2 powi e = of_int (p * 2 ^ nat (- e)) / of_int q"
      unfolding x using False by (simp add: power_int_def field_simps)
    then have "rnd53_pos x = of_int (round_div (p * 2 ^ nat (- e)) q) * 2 powi e"
      using q by (simp only: rnd53_pos_def e_def[symmetric]) (subst round_div, simp_all)
    then show ?thesis
      using False by (simp add: pq e_def[symmetric] power_int_def Let_def Fract_of_int_quotient field_simps)
  qed
qed

text \<open>Powers of two are floats, and the difference of two different floats does not vanish.\<close>

lemma rnd53_powi:
  assumes "- 1074 \<le> k" shows "rnd53 (2 powi k) = 2 powi k"
proof -
  have "ilog2 (2 powi k) < k + 1" by (intro ilog2_less) (auto simp: powi_less_iff)
  then have "ulp_exp (2 powi k) \<le> k" using assms by (simp add: ulp_exp_def)
  then have "rnd53_pos (2 powi k) = 2 powi k" by (intro rnd53_pos_exact[of _ 1 k]) auto
  then show ?thesis by (simp add: rnd53_def)
qed

lemma rnd53_pos_multiple: "\<exists>m. rnd53_pos x = of_int m * 2 powi (- 1074)"
proof -
  define m where "m = round_half_even (x / 2 powi ulp_exp x)"
  have "0 \<le> ulp_exp x + 1074" by (simp add: ulp_exp_def)
  then have "2 powi ulp_exp x = of_int (2 ^ nat (ulp_exp x + 1074)) * (2 powi (- 1074) :: rat)"
    using powi_split[of "ulp_exp x" "- 1074"] powi_int[of "ulp_exp x + 1074"] by simp
  then have "rnd53_pos x = of_int (m * 2 ^ nat (ulp_exp x + 1074)) * 2 powi (- 1074)"
    by (simp add: rnd53_pos_def m_def)
  then show ?thesis by blast
qed

lemma rnd53_multiple: "\<exists>m. rnd53 x = of_int m * 2 powi (- 1074)"
proof -
  obtain m n where "rnd53_pos x = of_int m * 2 powi (- 1074)" "rnd53_pos (- x) = of_int n * 2 powi (- 1074)"
    using rnd53_pos_multiple by blast
  then have "rnd53 x = of_int (if 0 < x then m else if x < 0 then - n else 0) * 2 powi (- 1074)"
    by (simp add: rnd53_def)
  then show ?thesis by blast
qed

lemma rnd53_diff_pos:
  assumes "rnd53 a = a" "rnd53 b = b" "a < b" shows "0 < rnd53 (b - a)"
proof -
  obtain m n where mn: "a = of_int m * 2 powi (- 1074)" "b = of_int n * 2 powi (- 1074)"
    using rnd53_multiple[of a] rnd53_multiple[of b] assms by metis
  then have "m < n" using assms(3) by (simp add: mult_less_cancel_right)
  then have "1 \<le> (of_int (n - m) :: rat)" by (simp only: of_int_1_le_iff)
  then have "1 * 2 powi (- 1074) \<le> of_int (n - m) * (2 powi (- 1074) :: rat)"
    by (intro mult_right_mono) (auto simp: less_imp_le)
  also have "\<dots> = b - a" by (simp add: mn left_diff_distrib)
  finally have "rnd53 (2 powi (- 1074)) \<le> rnd53 (b - a)" by (intro rnd53_mono) simp
  then show ?thesis using rnd53_powi[of "- 1074"] powi_pos[of "- 1074"] by simp
qed

section \<open>What numeric code relies on\<close>

text \<open>
  Nothing below depends on the number of bits: a rounding is a monotone projection that fixes 0.
  From it follow the facts that range and ordering arguments use, with every operation rounded.
\<close>

locale rounding =
  fixes rnd :: "rat \<Rightarrow> rat"
  assumes mono: "x \<le> y \<Longrightarrow> rnd x \<le> rnd y"
    and idem: "rnd (rnd x) = rnd x"
    and zero: "rnd 0 = 0"
begin

lemma nonneg: "0 \<le> x \<Longrightarrow> 0 \<le> rnd x"
  using mono[of 0 x] by (simp add: zero)

lemma nonpos: "x \<le> 0 \<Longrightarrow> rnd x \<le> 0"
  using mono[of x 0] by (simp add: zero)

lemma exact_le: "rnd a = a \<Longrightarrow> a \<le> x \<Longrightarrow> a \<le> rnd x"
  using mono[of a x] by simp

lemma le_exact: "rnd a = a \<Longrightarrow> x \<le> a \<Longrightarrow> rnd x \<le> a"
  using mono[of x a] by simp

lemma less_of_rnd_less: "rnd x < rnd y \<Longrightarrow> x < y"
  using mono[of y x] by linarith

lemma add_ge: "rnd a = a \<Longrightarrow> 0 \<le> b \<Longrightarrow> a \<le> rnd (a + b)"
  by (rule exact_le) auto

lemma chord_ge:
  assumes "rnd a = a" "0 \<le> dx" "0 \<le> dy" "0 \<le> t"
  shows "a \<le> rnd (a + rnd (rnd (rnd dx / rnd dy) * rnd t))"
  by (rule add_ge[OF assms(1)]) (intro nonneg mult_nonneg_nonneg divide_nonneg_nonneg assms)

lemma chord_mono:
  assumes "0 \<le> dx" "0 \<le> dy" "t \<le> u"
  shows "rnd (a + rnd (rnd (rnd dx / rnd dy) * rnd t)) \<le> rnd (a + rnd (rnd (rnd dx / rnd dy) * rnd u))"
  by (intro mono add_left_mono mult_left_mono nonneg divide_nonneg_nonneg assms)

end

interpretation binary64: rounding rnd53
  by unfold_locales (simp_all add: rnd53_mono rnd53_idem, simp add: rnd53_def)

section \<open>Floats and their operations\<close>

datatype pyfloat = Fin rat | PInf | MInf | NaN

definition fmax :: rat where
  "fmax = (2 ^ 53 - 1) * 2 ^ 971"

text \<open>The largest finite float as a numeral, for evaluation.\<close>

lemma fmax_code [code]:
  "fmax = 179769313486231570814527423731704356798070567525844996598917476803157260780028538760589558632766878171540458953514382464234321326889464182768467546703537516986049910576551282076245490090389328944075868508455133942304583236903222948165808559332123348274797826204144723168738177180919299881250404026184124858368"
  by (simp add: fmax_def)

definition fround :: "rat \<Rightarrow> pyfloat" where
  "fround x = (let r = rnd53 x in if fmax < r then PInf else if r < - fmax then MInf else Fin r)"

fun flt :: "pyfloat \<Rightarrow> pyfloat \<Rightarrow> bool" where
  "flt (Fin a) (Fin b) = (a < b)"
| "flt (Fin a) PInf = True"
| "flt MInf (Fin b) = True"
| "flt MInf PInf = True"
| "flt _ _ = False"

fun feq :: "pyfloat \<Rightarrow> pyfloat \<Rightarrow> bool" where
  "feq NaN _ = False"
| "feq _ NaN = False"
| "feq a b = (a = b)"

definition fle :: "pyfloat \<Rightarrow> pyfloat \<Rightarrow> bool" where
  "fle a b = (flt a b \<or> feq a b)"

fun fneg :: "pyfloat \<Rightarrow> pyfloat" where
  "fneg (Fin a) = Fin (- a)"
| "fneg PInf = MInf"
| "fneg MInf = PInf"
| "fneg NaN = NaN"

fun fadd :: "pyfloat \<Rightarrow> pyfloat \<Rightarrow> pyfloat" where
  "fadd (Fin a) (Fin b) = fround (a + b)"
| "fadd NaN _ = NaN"
| "fadd _ NaN = NaN"
| "fadd PInf MInf = NaN"
| "fadd MInf PInf = NaN"
| "fadd PInf _ = PInf"
| "fadd _ PInf = PInf"
| "fadd MInf _ = MInf"
| "fadd _ MInf = MInf"

definition fsub :: "pyfloat \<Rightarrow> pyfloat \<Rightarrow> pyfloat" where
  "fsub a b = fadd a (fneg b)"

definition finf :: "rat \<Rightarrow> pyfloat" where
  "finf s = (if 0 < s then PInf else if s < 0 then MInf else NaN)"

fun fmul :: "pyfloat \<Rightarrow> pyfloat \<Rightarrow> pyfloat" where
  "fmul (Fin a) (Fin b) = fround (a * b)"
| "fmul NaN _ = NaN"
| "fmul _ NaN = NaN"
| "fmul PInf PInf = PInf"
| "fmul MInf MInf = PInf"
| "fmul PInf MInf = MInf"
| "fmul MInf PInf = MInf"
| "fmul PInf (Fin b) = finf b"
| "fmul (Fin a) PInf = finf a"
| "fmul MInf (Fin b) = finf (- b)"
| "fmul (Fin a) MInf = finf (- a)"

text \<open>Python's \<open>/\<close> on floats raises for a zero divisor.\<close>

fun fdiv :: "pyfloat \<Rightarrow> pyfloat \<Rightarrow> pyfloat res" where
  "fdiv a (Fin b) =
     (if b = 0 then Inl ZeroDivisionError
      else case a of
             Fin x \<Rightarrow> Inr (fround (x / b))
           | PInf \<Rightarrow> Inr (finf b)
           | MInf \<Rightarrow> Inr (finf (- b))
           | NaN \<Rightarrow> Inr NaN)"
| "fdiv (Fin a) PInf = Inr (Fin 0)"
| "fdiv (Fin a) MInf = Inr (Fin 0)"
| "fdiv _ _ = Inr NaN"

fun is_finite :: "pyfloat \<Rightarrow> bool" where
  "is_finite (Fin _) = True"
| "is_finite _ = False"

text \<open>\<open>float(n)\<close> and the implicit conversion of an int operand; \<open>int(x)\<close> truncates towards zero.\<close>

definition float_of_int :: "int \<Rightarrow> pyfloat res" where
  "float_of_int n = (case fround (of_int n) of Fin r \<Rightarrow> Inr (Fin r) | _ \<Rightarrow> Inl OverflowError)"

fun int_of_float :: "pyfloat \<Rightarrow> int res" where
  "int_of_float (Fin r) = Inr (if 0 \<le> r then \<lfloor>r\<rfloor> else \<lceil>r\<rceil>)"
| "int_of_float NaN = Inl (ValueError ''cannot convert float NaN to integer'')"
| "int_of_float _ = Inl OverflowError"

text \<open>\<open>round(x)\<close> with one argument: the nearest integer, ties to even.\<close>

fun round_of_float :: "pyfloat \<Rightarrow> int res" where
  "round_of_float (Fin r) = Inr (round_half_even r)"
| "round_of_float NaN = Inl (ValueError ''cannot convert float NaN to integer'')"
| "round_of_float _ = Inl OverflowError"

lemma rnd53_fmax: "rnd53 fmax = fmax"
proof -
  have "rnd53_pos fmax = fmax"
  proof (rule rnd53_pos_exact[of _ "2 ^ 53 - 1" 971])
    show "fmax = of_int (2 ^ 53 - 1) * 2 powi 971" by (simp add: fmax_def)
    have "fmax < 2 powi 1024" by (simp add: fmax_def power_int_def)
    then have "ilog2 fmax < 1024" by (intro ilog2_less) (auto simp: fmax_def)
    then show "ulp_exp fmax \<le> 971" by (simp add: ulp_exp_def)
  qed
  then show ?thesis by (simp add: rnd53_def fmax_def)
qed

lemma fround_fin: "\<bar>x\<bar> \<le> fmax \<Longrightarrow> fround x = Fin (rnd53 x)"
  using binary64.le_exact[OF rnd53_fmax, of x] binary64.exact_le[of "- fmax" x]
  by (auto simp: fround_def Let_def rnd53_uminus rnd53_fmax abs_le_iff)

lemma fround_eq_Fin: "fround x = Fin r \<Longrightarrow> r = rnd53 x \<and> \<bar>r\<bar> \<le> fmax"
  by (auto simp: fround_def Let_def split: if_splits)

lemma fround_int: "\<bar>n\<bar> < 2 ^ 53 \<Longrightarrow> fround (of_int n) = Fin (of_int n)"
proof -
  assume a: "\<bar>n\<bar> < 2 ^ 53"
  then have "\<bar>of_int n :: rat\<bar> \<le> of_int (2 ^ 53)" by (metis less_imp_le of_int_le_iff of_int_abs)
  also have "\<dots> \<le> fmax" by (simp add: fmax_def)
  finally show ?thesis using a by (simp add: fround_fin rnd53_int)
qed

lemma float_of_int_small [simp]: "\<bar>n\<bar> < 2 ^ 53 \<Longrightarrow> float_of_int n = Inr (Fin (of_int n))"
  by (simp add: float_of_int_def fround_int)

lemma fle_simps [simp]:
  "fle (Fin a) (Fin b) \<longleftrightarrow> a \<le> b" "fle MInf PInf" "fle (Fin a) PInf" "fle MInf (Fin b)"
  "fle PInf PInf" "fle MInf MInf"
  by (auto simp: fle_def)

lemma fround_mono: "x \<le> y \<Longrightarrow> fle (fround x) (fround y)"
  using rnd53_mono[of x y] by (auto simp: fround_def Let_def fmax_def)

lemma fround_0 [simp]: "fround 0 = Fin 0"
  using fround_int[of 0] by simp

section \<open>Evaluating the rounding\<close>

text \<open>
  An equation for \<open>fround\<close> on the numerator and denominator, with integer operations only: small
  integers are exact, other numbers take one division. \<open>ilogn\<close> counts the bits in large steps.
\<close>

function ilogn :: "int \<Rightarrow> int" where
  "ilogn n =
     (if 18446744073709551616 \<le> n then 64 + ilogn (n div 18446744073709551616)
      else if 65536 \<le> n then 16 + ilogn (n div 65536)
      else if 16 \<le> n then 4 + ilogn (n div 16)
      else if 2 \<le> n then 1 + ilogn (n div 2)
      else 0)"
  by pat_completeness auto
termination by (relation "measure nat") (auto simp: nat_less_eq_zless)

declare ilogn.simps [simp del]

lemma ilogn_shift:
  assumes "0 < (n :: int) div 2 ^ k" "0 \<le> l" "2 ^ nat l \<le> n div 2 ^ k" "n div 2 ^ k < 2 ^ nat (l + 1)"
  shows "2 ^ nat (int k + l) \<le> n \<and> n < 2 ^ nat (int k + l + 1)"
proof -
  have e: "nat (int k + l) = k + nat l" "nat (int k + l + 1) = k + nat (l + 1)" using assms(2) by auto
  have "2 ^ k * 2 ^ nat l \<le> 2 ^ k * (n div 2 ^ k)" using assms(3) by (intro mult_left_mono) auto
  also have "\<dots> \<le> n"
  proof -
    have "0 \<le> n mod 2 ^ k" by simp
    with mult_div_mod_eq[of "2 ^ k" n] show ?thesis by linarith
  qed
  finally have lo: "2 ^ nat (int k + l) \<le> n" by (simp add: e power_add)
  have "n < 2 ^ k * (n div 2 ^ k + 1)"
  proof -
    have "n mod 2 ^ k < 2 ^ k" by simp
    with mult_div_mod_eq[of "2 ^ k" n] show ?thesis unfolding distrib_left by linarith
  qed
  also have "\<dots> \<le> 2 ^ k * 2 ^ nat (l + 1)" using assms(4) by (intro mult_left_mono) auto
  finally have "n < 2 ^ nat (int k + l + 1)" by (simp only: e power_add)
  with lo show ?thesis by blast
qed

lemma ilogn_bounds: "0 < n \<Longrightarrow> 0 \<le> ilogn n \<and> 2 ^ nat (ilogn n) \<le> n \<and> n < 2 ^ nat (ilogn n + 1)"
proof (induction n rule: ilogn.induct)
  case (1 n)
  have step: ?case if "k \<noteq> 0" "2 ^ k \<le> n" "ilogn n = int k + ilogn (n div 2 ^ k)"
    and IH: "0 < n div 2 ^ k \<Longrightarrow> 0 \<le> ilogn (n div 2 ^ k) \<and> 2 ^ nat (ilogn (n div 2 ^ k)) \<le> n div 2 ^ k \<and>
      n div 2 ^ k < 2 ^ nat (ilogn (n div 2 ^ k) + 1)" for k
  proof -
    have p: "0 < n div 2 ^ k" using that(2) by (simp add: pos_imp_zdiv_pos_iff)
    then show ?thesis using ilogn_shift[OF p, of "ilogn (n div 2 ^ k)"] IH[OF p] that(3) by simp
  qed
  consider "18446744073709551616 \<le> n" | "65536 \<le> n" "\<not> 18446744073709551616 \<le> n"
    | "16 \<le> n" "\<not> 65536 \<le> n" | "2 \<le> n" "\<not> 16 \<le> n" | "n = 1" using "1.prems" by linarith
  then show ?case
  proof cases
    case 1
    with "1.IH"(1) show ?thesis by (intro step[of 64]) (simp_all add: ilogn.simps[of n])
  next
    case 2
    with "1.IH"(2) show ?thesis by (intro step[of 16]) (simp_all add: ilogn.simps[of n])
  next
    case 3
    with "1.IH"(3) show ?thesis by (intro step[of 4]) (simp_all add: ilogn.simps[of n])
  next
    case 4
    with "1.IH"(4) show ?thesis by (intro step[of 1]) (simp_all add: ilogn.simps[of n])
  qed (simp add: ilogn.simps)
qed

lemma ilog2_unique: "0 < x \<Longrightarrow> 2 powi k \<le> x \<Longrightarrow> x < 2 powi (k + 1) \<Longrightarrow> ilog2 x = k"
  using ilog2_ge[of x k] ilog2_less[of x "k + 1"] by simp

definition ilog_frac :: "int \<Rightarrow> int \<Rightarrow> int" where
  "ilog_frac p q =
     (let k = ilogn p - ilogn q
      in if (if 0 \<le> k then q * 2 ^ nat k \<le> p else q \<le> p * 2 ^ nat (- k)) then k else k - 1)"

lemma ilog_frac: 
  assumes "0 < p" "0 < q" shows "ilog2 (of_int p / of_int q) = ilog_frac p q"
proof -
  define k where "k = ilogn p - ilogn q"
  have P: "0 \<le> ilogn p" "(2::rat) powi ilogn p \<le> of_int p" "of_int p < (2::rat) powi (ilogn p + 1)"
    and Q: "0 \<le> ilogn q" "(2::rat) powi ilogn q \<le> of_int q" "of_int q < (2::rat) powi (ilogn q + 1)"
    using ilogn_bounds[OF assms(1)] ilogn_bounds[OF assms(2)]
    by (simp_all only: powi_int of_int_le_iff of_int_less_iff, simp_all add: powi_int del: of_int_power)
  let ?x = "of_int p / of_int q :: rat"
  have x: "0 < ?x" using assms by simp
  have up: "?x < 2 powi (k + 1)"
  proof -
    have "of_int p < (2::rat) powi (k + 1) * 2 powi ilogn q"
      using P(3) by (simp add: k_def power_int_add[symmetric])
    also have "\<dots> \<le> 2 powi (k + 1) * of_int q" using Q(2) by (intro mult_left_mono) auto
    finally show ?thesis using assms by (simp add: pos_divide_less_eq)
  qed
  have lo: "2 powi (k - 1) \<le> ?x"
  proof -
    have "(2::rat) powi (k - 1) * of_int q \<le> 2 powi (k - 1) * 2 powi (ilogn q + 1)"
      using Q(3) by (intro mult_left_mono) auto
    also have "\<dots> = 2 powi ilogn p" by (simp add: k_def power_int_add[symmetric])
    finally show ?thesis using P(2) assms by (simp add: pos_le_divide_eq)
  qed
  have cmp: "(if 0 \<le> k then q * 2 ^ nat k \<le> p else q \<le> p * 2 ^ nat (- k)) \<longleftrightarrow> 2 powi k \<le> ?x"
  proof (cases "0 \<le> k")
    case True
    have "2 powi k \<le> ?x \<longleftrightarrow> of_int (q * 2 ^ nat k) \<le> (of_int p :: rat)"
      using True assms by (simp add: pos_le_divide_eq powi_int mult.commute)
    then show ?thesis using True by (simp only: of_int_le_iff if_True)
  next
    case False
    have "(2::rat) powi k = 1 / of_int (2 ^ nat (- k))"
      using False by (simp add: power_int_def inverse_eq_divide power_one_over)
    then have "2 powi k \<le> ?x \<longleftrightarrow> 1 / 2 ^ nat (- k) \<le> of_int p / (of_int q :: rat)" by simp
    also have "\<dots> \<longleftrightarrow> (of_int q :: rat) \<le> of_int (p * 2 ^ nat (- k))"
      using assms by (simp add: pos_le_divide_eq pos_divide_le_eq)
    finally have "2 powi k \<le> ?x \<longleftrightarrow> (of_int q :: rat) \<le> of_int (p * 2 ^ nat (- k))" .
    then show ?thesis using False by (simp only: of_int_le_iff if_False)
  qed
  show ?thesis
  proof (cases "2 powi k \<le> ?x")
    case True
    then show ?thesis using ilog2_unique[OF x True up] cmp by (simp only: ilog_frac_def Let_def k_def[symmetric] if_True)
  next
    case False
    then show ?thesis using ilog2_unique[OF x lo] cmp by (simp add: ilog_frac_def Let_def k_def[symmetric])
  qed
qed

text \<open>A dyadic fraction with small numerator and denominator.\<close>

function dyadic :: "int \<Rightarrow> nat \<Rightarrow> rat" where
  "dyadic m k =
     (if 16 \<le> k \<and> m mod 65536 = 0 then dyadic (m div 65536) (k - 16)
      else if 4 \<le> k \<and> m mod 16 = 0 then dyadic (m div 16) (k - 4)
      else if 1 \<le> k \<and> m mod 2 = 0 then dyadic (m div 2) (k - 1)
      else Rat.Fract m (2 ^ k))"
  by pat_completeness auto
termination by (relation "measure (\<lambda>(m, k). k)") auto

declare dyadic.simps [simp del]

lemma dyadic_shift: "j \<le> k \<Longrightarrow> m mod 2 ^ j = 0 \<Longrightarrow> (of_int (m div 2 ^ j) / 2 ^ (k - j) :: rat) = of_int m / 2 ^ k"
proof -
  assume j: "j \<le> k" and m: "m mod 2 ^ j = 0"
  have "(of_int m :: rat) = of_int (m div 2 ^ j) * 2 ^ j"
    using m by (metis div_mult_mod_eq add.right_neutral of_int_mult of_int_numeral of_int_power)
  moreover have "(2 :: rat) ^ k = 2 ^ (k - j) * 2 ^ j" using j by (simp add: power_add[symmetric])
  ultimately show ?thesis by simp
qed

lemma dyadic: "dyadic m k = of_int m / 2 ^ k"
proof (induction m k rule: dyadic.induct)
  case (1 m k)
  show ?case
    using 1 dyadic_shift[of 16 k m] dyadic_shift[of 4 k m] dyadic_shift[of 1 k m]
    by (subst dyadic.simps) (simp add: Fract_of_int_quotient)
qed

definition fround_frac :: "int \<Rightarrow> int \<Rightarrow> pyfloat" where
  "fround_frac p q =
     (let e = max (ilog_frac p q - 52) (- 1074)
      in if 0 \<le> e then
           let n = round_div p (q * 2 ^ nat e) * 2 ^ nat e
           in if (2 ^ 53 - 1) * 2 ^ 971 < n then PInf else Fin (of_int n)
         else Fin (dyadic (round_div (p * 2 ^ nat (- e)) q) (nat (- e))))"

lemma fround_frac:
  assumes "0 < p" "0 < q"
  shows "fround (of_int p / of_int q) = fround_frac p q"
proof -
  let ?x = "of_int p / of_int q :: rat"
  define e where "e = max (ilog_frac p q - 52) (- 1074)"
  have x: "0 < ?x" and e: "ulp_exp ?x = e" using assms by (simp_all add: ulp_exp_def e_def ilog_frac)
  have r: "rnd53 ?x = of_int (round_half_even (?x / 2 powi e)) * 2 powi e"
    using x by (simp add: rnd53_def rnd53_pos_def e)
  have pos: "0 \<le> rnd53 ?x" using x by (intro binary64.nonneg) simp
  show ?thesis
  proof (cases "0 \<le> e")
    case True
    have "?x / 2 powi e = of_int p / of_int (q * 2 ^ nat e)" using True by (simp add: power_int_def)
    then have rr: "rnd53 ?x = of_int (round_div p (q * 2 ^ nat e) * 2 ^ nat e)"
      unfolding r using assms True by (simp only:) (subst round_div, simp_all add: powi_int)
    have fm: "fmax = of_int ((2 ^ 53 - 1) * 2 ^ 971)" by (simp add: fmax_def)
    have "fmax < rnd53 ?x \<longleftrightarrow> (2 ^ 53 - 1) * 2 ^ 971 < round_div p (q * 2 ^ nat e) * 2 ^ nat e"
      unfolding rr fm by (rule of_int_less_iff)
    moreover have "\<not> rnd53 ?x < - fmax" using pos by (simp add: fmax_def)
    ultimately show ?thesis
      using True by (simp only: fround_def fround_frac_def Let_def e_def[symmetric] if_True if_False rr[symmetric])
  next
    case False
    have "?x / 2 powi e = of_int (p * 2 ^ nat (- e)) / of_int q"
      using False by (simp add: power_int_def field_simps)
    then have rr: "rnd53 ?x = dyadic (round_div (p * 2 ^ nat (- e)) q) (nat (- e))"
      unfolding r using assms False
      by (simp only:) (subst round_div, simp_all add: dyadic power_int_def field_simps)
    have "ilog_frac p q < 52" using False by (simp add: e_def)
    then have "?x < 2 powi 52" using ilog2_bounds(2)[OF x] powi_le_iff[of "ilog_frac p q + 1" 52] assms
      by (simp add: ilog_frac)
    then have "\<bar>?x\<bar> \<le> fmax" using x by (simp add: fmax_code)
    then show ?thesis using False rr by (simp only: fround_fin fround_frac_def Let_def e_def[symmetric] if_False)
  qed
qed

lemma fround_uminus: "fround (- x) = fneg (fround x)"
  by (auto simp: fround_def Let_def rnd53_uminus fmax_def)

lemma fround_code [code]:
  "fround x =
     (case quotient_of x of (p, q) \<Rightarrow>
        if q = 1 \<and> \<bar>p\<bar> < 9007199254740992 then Fin (of_int p)
        else if 0 < p then fround_frac p q else fneg (fround_frac (- p) q))"
proof -
  obtain p q where pq: "quotient_of x = (p, q)" by (cases "quotient_of x")
  then have q: "0 < q" and x: "x = of_int p / of_int q"
    by (auto intro: quotient_of_denom_pos quotient_of_div)
  have zero: "q = 1" if "p = 0"
    using pq that x by (metis div_0 of_int_0 prod.inject rat_zero_code quotient_of_number(1))
  consider "q = 1 \<and> \<bar>p\<bar> < 9007199254740992" | "\<not> (q = 1 \<and> \<bar>p\<bar> < 9007199254740992)" "0 < p"
    | "\<not> (q = 1 \<and> \<bar>p\<bar> < 9007199254740992)" "0 < - p"
    using zero by force
  then show ?thesis
  proof cases
    case 1
    then show ?thesis using fround_int[of p] x by (simp add: pq)
  next
    case 2
    then show ?thesis unfolding pq prod.case using fround_frac[OF 2(2) q] x by auto
  next
    case 3
    have "fround x = fneg (fround (of_int (- p) / of_int q))"
      using fround_uminus[of "of_int (- p) / of_int q"] x by simp
    then show ?thesis unfolding pq prod.case using 3 fround_frac[OF 3(2) q] by auto
  qed
qed

section \<open>Decimal strings\<close>

definition count_digits :: "string \<Rightarrow> nat" where
  "count_digits s = length (filter is_digit s)"

definition digits_or_empty :: "string \<Rightarrow> nat option" where
  "digits_or_empty s = (if s = [] then Some 0 else parse_digits False 0 s)"

definition parse_exponent :: "string \<Rightarrow> int option" where
  "parse_exponent s =
     (case s of
        [] \<Rightarrow> None
      | c # cs \<Rightarrow>
          if c = CHR ''-'' then map_option (\<lambda>n. - int n) (parse_digits False 0 cs)
          else if c = CHR ''+'' then map_option int (parse_digits False 0 cs)
          else map_option int (parse_digits False 0 s))"

definition parse_mantissa :: "string \<Rightarrow> rat option" where
  "parse_mantissa s =
     (case split_char (CHR ''.'') s of
        [ip] \<Rightarrow> map_option of_nat (parse_digits False 0 ip)
      | [ip, fp] \<Rightarrow>
          (if ip = [] \<and> fp = [] then None
           else case digits_or_empty ip of
                  None \<Rightarrow> None
                | Some a \<Rightarrow> map_option (\<lambda>b. of_nat a + of_nat b / 10 ^ count_digits fp) (digits_or_empty fp))
      | _ \<Rightarrow> None)"

definition parse_unsigned :: "string \<Rightarrow> rat option" where
  "parse_unsigned s =
     (let m = takeWhile (\<lambda>c. c \<noteq> CHR ''e'' \<and> c \<noteq> CHR ''E'') s; r = drop (length m) s
      in case r of
           [] \<Rightarrow> parse_mantissa m
         | _ # ex \<Rightarrow>
             (case parse_mantissa m of
                None \<Rightarrow> None
              | Some q \<Rightarrow> map_option (\<lambda>k. q * 10 powi k) (parse_exponent ex)))"

definition to_lower :: "char \<Rightarrow> char" where
  "to_lower c =
     (let n = (of_char c :: nat) in if 65 \<le> n \<and> n \<le> 90 then char_of (n + 32) else c)"

text \<open>\<open>float(s)\<close>; \<open>None\<close> is the \<open>ValueError\<close> of a malformed literal.\<close>

definition py_float :: "string \<Rightarrow> pyfloat option" where
  "py_float s =
     (let t = py_strip s;
          neg = (case t of c # _ \<Rightarrow> c = CHR ''-'' | [] \<Rightarrow> False);
          u = (case t of c # cs \<Rightarrow> if c = CHR ''-'' \<or> c = CHR ''+'' then cs else t | [] \<Rightarrow> t);
          low = map to_lower u
      in if low = ''inf'' \<or> low = ''infinity'' then Some (if neg then MInf else PInf)
         else if low = ''nan'' then Some NaN
         else map_option (\<lambda>q. fround (if neg then - q else q)) (parse_unsigned u))"

definition pad_zeros :: "nat \<Rightarrow> string \<Rightarrow> string" where
  "pad_zeros k s = replicate (k - length s) (CHR ''0'') @ s"

text \<open>\<open>"%.kf" % x\<close>: the exact value rounded to \<open>k\<close> decimals, ties to even.\<close>

definition fmt_decimal :: "nat \<Rightarrow> nat \<Rightarrow> string" where
  "fmt_decimal k n =
     show_nat (n div 10 ^ k) @ (if k = 0 then [] else CHR ''.'' # pad_zeros k (show_nat (n mod 10 ^ k)))"

fun fmt_fixed :: "nat \<Rightarrow> pyfloat \<Rightarrow> string" where
  "fmt_fixed k (Fin x) =
     (if x < 0 then ''-'' else []) @ fmt_decimal k (nat (round_half_even (\<bar>x\<bar> * 10 ^ k)))"
| "fmt_fixed k PInf = ''inf''"
| "fmt_fixed k MInf = ''-inf''"
| "fmt_fixed k NaN = ''nan''"

text \<open>\<open>str(x)\<close>: the shortest decimal that reads back as \<open>x\<close>.\<close>

definition ilog10 :: "rat \<Rightarrow> int" where
  "ilog10 x =
     (if 1 \<le> x then int (length (show_nat (nat \<lfloor>x\<rfloor>))) - 1
      else let k = int (length (show_nat (nat \<lfloor>1 / x\<rfloor>))) - 1
           in if 10 powi k = 1 / x then - k else - k - 1)"

definition shortest_digits :: "rat \<Rightarrow> nat \<times> int" where
  "shortest_digits x =
     (let e = ilog10 x;
          try = (\<lambda>n. let sc = 10 powi (int n - 1 - e); m = round_half_even (x * sc);
                          m' = (if of_int m < x * sc then m + 1 else m - 1)
                      in if rnd53 (of_int m / sc) = x then Some (nat m, int n - 1 - e)
                         else if rnd53 (of_int m' / sc) = x then Some (nat m', int n - 1 - e)
                         else None)
      in case List.find (\<lambda>n. try n \<noteq> None) [1..<18] of
           Some n \<Rightarrow> the (try n)
         | None \<Rightarrow> (nat (round_half_even (x * 10 powi (16 - e))), 16 - e))"

definition repr_pos :: "rat \<Rightarrow> string" where
  "repr_pos x =
     (case shortest_digits x of (m, sc) \<Rightarrow>
        let ds = show_nat m; e = int (length ds) - 1 - sc
        in if - 4 \<le> e \<and> e < 16 then
             (if 0 \<le> e then
                let k = nat e + 1; ip = take k (ds @ replicate (k - length ds) (CHR ''0'')); fp = drop k ds
                in ip @ CHR ''.'' # (if fp = [] then ''0'' else fp)
              else ''0.'' @ replicate (nat (- e) - 1) (CHR ''0'') @ ds)
           else take 1 ds @ (if length ds = 1 then [] else CHR ''.'' # drop 1 ds) @
                ''e'' @ (if e < 0 then ''-'' else ''+'') @ pad_zeros 2 (show_nat (nat \<bar>e\<bar>)))"

fun repr_float :: "pyfloat \<Rightarrow> string" where
  "repr_float (Fin x) = (if x = 0 then ''0.0'' else if x < 0 then CHR ''-'' # repr_pos (- x) else repr_pos x)"
| "repr_float PInf = ''inf''"
| "repr_float MInf = ''-inf''"
| "repr_float NaN = ''nan''"

lemma pad_zeros_digit: "\<forall>c \<in> set s. is_digit c \<Longrightarrow> c \<in> set (pad_zeros k s) \<Longrightarrow> is_digit c"
  by (auto simp: pad_zeros_def is_digit_def)

lemma is_digit_not:
  "is_digit c \<Longrightarrow> c \<noteq> CHR ''.'' \<and> c \<noteq> CHR ''e'' \<and> c \<noteq> CHR ''E'' \<and> c \<noteq> CHR ''-'' \<and> c \<noteq> CHR ''+''
     \<and> \<not> is_ws c \<and> c \<noteq> CHR ''i'' \<and> c \<noteq> CHR ''I'' \<and> c \<noteq> CHR ''n'' \<and> c \<noteq> CHR ''N''"
  by (auto simp: is_digit_def is_ws_def Let_def)

lemma foldl_zeros:
  "foldl (\<lambda>a c. 10 * a + digit_val c) 0 (replicate k (CHR ''0'')) = (0::nat)"
  by (induction k) (auto simp: digit_val_def)

lemma length_show_nat: "0 < k \<Longrightarrow> n < 10 ^ k \<Longrightarrow> length (show_nat n) \<le> k"
proof (induction n arbitrary: k rule: show_nat.induct)
  case (1 n)
  show ?case
  proof (cases "n < 10")
    case True
    then show ?thesis using "1.prems" by (subst show_nat.simps) simp
  next
    case False
    then have "k \<noteq> 1" using "1.prems" by auto
    then obtain j where k: "k = Suc j" "0 < j"
      using "1.prems" by (cases k) auto
    then have "n div 10 < 10 ^ j" using "1.prems" by (simp add: less_mult_imp_div_less mult.commute)
    then show ?thesis using "1.IH"[OF False k(2)] False k by (subst show_nat.simps) simp
  qed
qed

lemma parse_pad_zeros:
  assumes "0 < k" shows "parse_digits False 0 (pad_zeros k (show_nat n)) = Some n"
proof -
  have "\<forall>c \<in> set (pad_zeros k (show_nat n)). is_digit c"
    using pad_zeros_digit[of "show_nat n"] show_nat_is_digit by blast
  then show ?thesis
    using parse_digits_append[of "pad_zeros k (show_nat n)" False 0 "[]"]
    by (simp add: pad_zeros_def foldl_zeros foldl_show_nat)
qed

lemma parse_unsigned_plain:
  "\<forall>c \<in> set s. c \<noteq> CHR ''e'' \<and> c \<noteq> CHR ''E'' \<Longrightarrow> parse_unsigned s = parse_mantissa s"
  by (simp add: parse_unsigned_def Let_def takeWhile_eq_all_conv[THEN iffD2] del: takeWhile_eq_all_conv)

lemma digits_no_e: "\<forall>c \<in> set s. is_digit c \<or> c = CHR ''.'' \<Longrightarrow> \<forall>c \<in> set s. c \<noteq> CHR ''e'' \<and> c \<noteq> CHR ''E''"
  using is_digit_not by fastforce

lemma parse_mantissa_decimal:
  assumes "\<forall>c \<in> set ip. is_digit c" "\<forall>c \<in> set fp. is_digit c" "ip \<noteq> []" "fp \<noteq> []"
    and "parse_digits False 0 ip = Some a" "parse_digits False 0 fp = Some b"
  shows "parse_mantissa (ip @ CHR ''.'' # fp) = Some (of_nat a + of_nat b / 10 ^ length fp)"
proof -
  have "CHR ''.'' \<notin> set ip" "CHR ''.'' \<notin> set fp" using assms(1,2) is_digit_not by blast+
  then have "split_char (CHR ''.'') (ip @ CHR ''.'' # fp) = [ip, fp]"
    by (simp add: split_char_append split_char_no)
  moreover have "count_digits fp = length fp" using assms(2) by (simp add: count_digits_def)
  ultimately show ?thesis using assms(3-6) by (simp add: parse_mantissa_def digits_or_empty_def)
qed

lemma div_mod_fraction: "of_nat (n div 10 ^ k) + of_nat (n mod 10 ^ k) / 10 ^ k = (of_nat n / 10 ^ k :: rat)"
proof -
  have "(of_nat n :: rat) = of_nat (n div 10 ^ k) * 10 ^ k + of_nat (n mod 10 ^ k)"
    using arg_cong[OF div_mult_mod_eq[of n "10 ^ k"], of "of_nat :: nat \<Rightarrow> rat"]
    by (simp only: of_nat_add of_nat_mult of_nat_power of_nat_numeral)
  then show ?thesis by (simp add: field_simps)
qed

lemma fmt_decimal_parse: "parse_unsigned (fmt_decimal k n) = Some (of_nat n / 10 ^ k)"
proof (cases "k = 0")
  case True
  then have fd: "fmt_decimal k n = show_nat n" by (simp add: fmt_decimal_def)
  have dig: "\<forall>c \<in> set (show_nat n). is_digit c" by (simp add: show_nat_is_digit)
  then have "CHR ''.'' \<notin> set (show_nat n)" using is_digit_not by blast
  then have "parse_mantissa (show_nat n) = Some (of_nat n)"
    by (simp add: parse_mantissa_def split_char_no parse_show_nat)
  moreover have "parse_unsigned (show_nat n) = parse_mantissa (show_nat n)"
    using dig digits_no_e by (intro parse_unsigned_plain) blast
  ultimately show ?thesis unfolding fd using True by simp
next
  case False
  define ip where "ip = show_nat (n div 10 ^ k)"
  define fp where "fp = pad_zeros k (show_nat (n mod 10 ^ k))"
  have fd: "fmt_decimal k n = ip @ CHR ''.'' # fp" using False by (simp add: fmt_decimal_def ip_def fp_def)
  have ipd: "\<forall>c \<in> set ip. is_digit c" by (simp add: ip_def show_nat_is_digit)
  have fpd: "\<forall>c \<in> set fp. is_digit c"
    using pad_zeros_digit[of "show_nat (n mod 10 ^ k)" _ k] show_nat_is_digit by (auto simp: fp_def)
  have len: "length fp = k"
    using length_show_nat[of k "n mod 10 ^ k"] False by (simp add: fp_def pad_zeros_def)
  have "parse_mantissa (ip @ CHR ''.'' # fp)
      = Some (of_nat (n div 10 ^ k) + of_nat (n mod 10 ^ k) / 10 ^ length fp)"
    using ipd fpd len False
    by (intro parse_mantissa_decimal) (auto simp: ip_def fp_def parse_show_nat parse_pad_zeros)
  then have "parse_mantissa (ip @ CHR ''.'' # fp) = Some (of_nat n / 10 ^ k)"
    by (simp only: len div_mod_fraction)
  moreover have "parse_unsigned (ip @ CHR ''.'' # fp) = parse_mantissa (ip @ CHR ''.'' # fp)"
    using ipd fpd digits_no_e[of "ip @ CHR ''.'' # fp"] by (intro parse_unsigned_plain) auto
  ultimately show ?thesis by (simp add: fd)
qed

lemma fmt_decimal_head: "\<exists>c cs. fmt_decimal k n = c # cs \<and> is_digit c"
proof -
  obtain c cs where "show_nat (n div 10 ^ k) = c # cs" by (meson neq_Nil_conv show_nat_ne)
  then show ?thesis
    using show_nat_is_digit[of c "n div 10 ^ k"] by (auto simp: fmt_decimal_def)
qed

lemma fmt_decimal_clean: "c \<in> set (fmt_decimal k n) \<Longrightarrow> \<not> is_ws c"
  using pad_zeros_digit[of "show_nat (n mod 10 ^ k)" c k]
  by (auto simp: fmt_decimal_def is_ws_def[of "CHR ''.''"] dest: is_digit_not show_nat_is_digit split: if_splits)

lemma fmt_fixed_clean: "c \<in> set (fmt_fixed k (Fin x)) \<Longrightarrow> \<not> is_ws c"
  using fmt_decimal_clean[of c k] by (auto split: if_splits)

lemma to_lower_digit: "is_digit c \<Longrightarrow> to_lower c = c"
  by (auto simp: is_digit_def to_lower_def Let_def)

lemma py_float_fmt_decimal:
  "py_float (fmt_decimal k n) = Some (fround (of_nat n / 10 ^ k))"
proof -
  obtain c cs where c: "fmt_decimal k n = c # cs" "is_digit c" using fmt_decimal_head by blast
  have st: "py_strip (fmt_decimal k n) = fmt_decimal k n"
    by (rule py_strip_clean) (simp add: fmt_decimal_clean)
  show ?thesis
    using st c fmt_decimal_parse[of k n] is_digit_not[OF c(2)] to_lower_digit[OF c(2)]
    by (simp add: py_float_def Let_def)
qed

lemma py_float_fmt_fixed:
  assumes "0 \<le> x"
  shows "py_float (fmt_fixed k (Fin x)) = Some (fround (of_int (round_half_even (x * 10 ^ k)) / 10 ^ k))"
proof -
  have "0 \<le> round_half_even (x * 10 ^ k)" using assms by (intro round_half_even_nonneg) simp
  then show ?thesis using assms by (simp add: py_float_fmt_decimal of_nat_nat)
qed

end
