(* ===== verification/CustomRand.thy ===== *)
theory CustomRand
  imports PyFloat
begin

text \<open>
  \<open>traffic_gen/custom_rand.py\<close>: the sampler of the flow sizes. A distribution is a list of knots
  \<open>(x, y)\<close>, \<open>y\<close> the percentage of the values that are at most \<open>x\<close>; \<open>testCdf\<close> validates it,
  \<open>getValueFromPercentile\<close> inverts it by linear interpolation and \<open>getAvg\<close> is its mean. All
  arithmetic is binary64 (\<open>PyFloat\<close>), in the order of the source.

  The object is a record with the attribute \<open>cdf\<close>, absent until \<open>setCdf\<close> has accepted one. A method
  that falls off the end of its loop returns \<open>None\<close>, the value \<open>Inr None\<close> of the model.
\<close>

type_synonym knot = "pyfloat \<times> pyfloat"
type_synonym cdf = "knot list"

record custom_rand =
  cdf_attr :: "cdf option"

definition CustomRand_init :: custom_rand where
  "CustomRand_init = \<lparr>cdf_attr = None\<rparr>"

text \<open>The loop of \<open>testCdf\<close> over the pairs of neighbours.\<close>

fun cdf_steps :: "cdf \<Rightarrow> bool" where
  "cdf_steps (p # q # ps) =
     (if fle (snd q) (snd p) \<or> fle (fst q) (fst p) then False else cdf_steps (q # ps))"
| "cdf_steps _ = True"

definition testCdf :: "cdf \<Rightarrow> bool res" where
  "testCdf c =
     bindE (py_index c 0) (\<lambda>p.
     if \<not> feq (snd p) (Fin 0) then Inr False
     else bindE (py_index c (- 1)) (\<lambda>q.
     if \<not> feq (snd q) (Fin 100) then Inr False
     else Inr (cdf_steps c)))"

definition setCdf :: "custom_rand \<Rightarrow> cdf \<Rightarrow> (bool \<times> custom_rand) res" where
  "setCdf self c =
     bindE (testCdf c) (\<lambda>ok.
     if \<not> ok then Inr (False, self) else Inr (True, self\<lparr>cdf_attr := Some c\<rparr>))"

definition self_cdf :: "custom_rand \<Rightarrow> cdf res" where
  "self_cdf self = of_option (AttributeError ''cdf'') (cdf_attr self)"

fun avg_loop :: "cdf \<Rightarrow> pyfloat \<Rightarrow> pyfloat \<Rightarrow> pyfloat \<Rightarrow> pyfloat res" where
  "avg_loop [] last_x last_y s = Inr s"
| "avg_loop ((x, y) # cs) last_x last_y s =
     bindE (fdiv (fadd x last_x) (Fin 2)) (\<lambda>h.
     avg_loop cs x y (fadd s (fmul h (fsub y last_y))))"

definition getAvg :: "custom_rand \<Rightarrow> pyfloat res" where
  "getAvg self =
     bindE (self_cdf self) (\<lambda>c.
     bindE (py_index c 0) (\<lambda>p.
     bindE (avg_loop (tl c) (fst p) (snd p) (Fin 0)) (\<lambda>s. fdiv s (Fin 100))))"

text \<open>The interpolation \<open>a + (b1 - b0) / (c1 - c0) * (z - c0)\<close> that the methods share.\<close>

definition chord :: "pyfloat \<Rightarrow> pyfloat \<Rightarrow> pyfloat \<Rightarrow> pyfloat \<Rightarrow> pyfloat \<Rightarrow> pyfloat res" where
  "chord b0 b1 c0 c1 z =
     bindE (fdiv (fsub b1 b0) (fsub c1 c0)) (\<lambda>k. Inr (fadd b0 (fmul k (fsub z c0))))"

fun percentile_loop :: "cdf \<Rightarrow> pyfloat \<Rightarrow> pyfloat option res" where
  "percentile_loop ((x0, y0) # (x1, y1) # ps) x =
     (if fle x x1 then bindE (chord y0 y1 x0 x1 x) (\<lambda>v. Inr (Some v))
      else percentile_loop ((x1, y1) # ps) x)"
| "percentile_loop _ x = Inr None"

definition getPercentileFromValue :: "custom_rand \<Rightarrow> pyfloat \<Rightarrow> pyfloat option res" where
  "getPercentileFromValue self x =
     (if flt x (Fin 0) then Inr (Some (Fin (- 1)))
      else bindE (self_cdf self) (\<lambda>c.
           bindE (py_index c (- 1)) (\<lambda>p.
           if flt (fst p) x then Inr (Some (Fin (- 1))) else percentile_loop c x)))"

fun value_loop :: "cdf \<Rightarrow> pyfloat \<Rightarrow> pyfloat option res" where
  "value_loop ((x0, y0) # (x1, y1) # ps) y =
     (if fle y y1 then bindE (chord x0 x1 y0 y1 y) (\<lambda>v. Inr (Some v))
      else value_loop ((x1, y1) # ps) y)"
| "value_loop _ y = Inr None"

definition getValueFromPercentile :: "custom_rand \<Rightarrow> pyfloat \<Rightarrow> pyfloat option res" where
  "getValueFromPercentile self y = bindE (self_cdf self) (\<lambda>c. value_loop c y)"

text \<open>\<open>rand\<close>, with \<open>u\<close> the number that \<open>random.random()\<close> returned.\<close>

definition rand_value :: "custom_rand \<Rightarrow> pyfloat \<Rightarrow> pyfloat option res" where
  "rand_value self u = getValueFromPercentile self (fmul u (Fin 100))"

fun integral_loop :: "cdf \<Rightarrow> pyfloat \<Rightarrow> pyfloat \<Rightarrow> pyfloat res" where
  "integral_loop ((x0, y0) # (x1, y1) # ps) y s =
     (if fle y y1 then
        bindE (fdiv (fsub x1 x0) (fsub y1 y0)) (\<lambda>k.
        bindE (fdiv (fmul (fmul (Fin (1 / 2)) (fadd (fadd x0 x0) (fmul k (fsub y y0)))) (fsub y y0)) (Fin 100))
          (\<lambda>d. Inr (fadd s d)))
      else
        bindE (fdiv (fmul (fmul (Fin (1 / 2)) (fadd x1 x0)) (fsub y1 y0)) (Fin 100)) (\<lambda>d.
        integral_loop ((x1, y1) # ps) y (fadd s d)))"
| "integral_loop _ y s = Inr s"

definition getIntegralY :: "custom_rand \<Rightarrow> pyfloat \<Rightarrow> pyfloat res" where
  "getIntegralY self y = bindE (self_cdf self) (\<lambda>c. integral_loop c y (Fin 0))"

section \<open>What an accepted distribution looks like\<close>

definition knots :: "(rat \<times> rat) list \<Rightarrow> cdf" where
  "knots ps = map (\<lambda>(x, y). (Fin x, Fin y)) ps"

definition below :: "rat \<times> rat \<Rightarrow> rat \<times> rat \<Rightarrow> bool" where
  "below p q \<longleftrightarrow> fst p < fst q \<and> snd p < snd q"

lemma knots_simps [simp]:
  "knots [] = []" "knots (p # ps) = (Fin (fst p), Fin (snd p)) # knots ps"
  "knots ps = [] \<longleftrightarrow> ps = []" "length (knots ps) = length ps"
  by (auto simp: knots_def split: prod.splits)

lemma last_knots: "ps \<noteq> [] \<Longrightarrow> last (knots ps) = (Fin (fst (last ps)), Fin (snd (last ps)))"
  by (simp add: knots_def last_map split: prod.split)

lemma transp_below: "transp below"
  by (auto simp: below_def intro!: transpI)

lemma cdf_steps_knots: "cdf_steps (knots ps) \<longleftrightarrow> successively below ps"
  by (induction ps rule: induct_list012) (auto simp: below_def)

lemma feq_Fin [simp]: "feq (Fin a) (Fin b) \<longleftrightarrow> a = b"
  by simp

lemma testCdf_shape:
  "(testCdf (knots ps) = Inr True \<longleftrightarrow>
      ps \<noteq> [] \<and> snd (hd ps) = 0 \<and> snd (last ps) = 100 \<and>
      sorted_wrt (\<lambda>p q. fst p < fst q \<and> snd p < snd q) ps) \<and>
   (testCdf (knots ps) = Inl IndexError \<longleftrightarrow> ps = [])"
proof (cases ps)
  case Nil
  then show ?thesis by (simp add: testCdf_def)
next
  case (Cons p qs)
  have "cdf_steps (knots ps) \<longleftrightarrow> sorted_wrt below ps"
    by (simp add: cdf_steps_knots successively_conv_sorted_wrt[OF transp_below])
  moreover have "below = (\<lambda>p q. fst p < fst q \<and> snd p < snd q)"
    by (auto simp: below_def fun_eq_iff)
  moreover have "py_index (knots ps) 0 = Inr (Fin (fst p), Fin (snd p))"
    using py_index_nat[of 0 "knots ps"] Cons by simp
  moreover have "py_index (knots ps) (- 1) = Inr (last (knots ps))" using Cons by simp
  ultimately show ?thesis
    using Cons last_knots[of ps] by (auto simp add: testCdf_def simp del: knots_simps(2))
qed

text \<open>
  C18. \<open>testCdf\<close> compares neighbours only, and that is enough: on finite knots it returns \<open>True\<close>
  exactly when the list is not empty, starts at percentage 0, ends at percentage 100, and both
  coordinates increase strictly between any two knots, adjacent or not. On the empty list it raises.
\<close>

theorem testCdf_accepts:
  "(testCdf (knots ps) = Inr True \<longleftrightarrow>
      ps \<noteq> [] \<and> snd (hd ps) = 0 \<and> snd (last ps) = 100 \<and>
      sorted_wrt (\<lambda>p q. fst p < fst q \<and> snd p < snd q) ps) \<and>
   (testCdf (knots ps) = Inl IndexError \<longleftrightarrow> ps = [])"
  by (fact testCdf_shape)

section \<open>Sampling from an accepted distribution\<close>

text \<open>
  Rounding cannot be ignored where a percentage step is tiny (the quotient overflows) or the sizes
  are huge: the bounds below are far beyond those of the shipped distributions.
\<close>

definition sane_cdf :: "(rat \<times> rat) list \<Rightarrow> bool" where
  "sane_cdf ps \<longleftrightarrow>
     testCdf (knots ps) = Inr True \<and>
     list_all (\<lambda>(x, y). rnd53 x = x \<and> rnd53 y = y \<and> 0 \<le> x \<and> x \<le> 2 ^ 60) ps \<and>
     successively (\<lambda>p q. 1 / 2 ^ 60 \<le> snd q - snd p) ps"

lemma rnd53_bound: "\<bar>x\<bar> \<le> 2 ^ k \<Longrightarrow> \<bar>rnd53 x\<bar> \<le> 2 ^ k"
proof -
  have p: "rnd53 (2 ^ k) = 2 ^ k" using rnd53_powi[of "int k"] by simp
  have n: "rnd53 (- (2 ^ k)) = - (2 ^ k)" by (simp add: rnd53_uminus p)
  assume "\<bar>x\<bar> \<le> 2 ^ k"
  then show "\<bar>rnd53 x\<bar> \<le> 2 ^ k"
    using binary64.le_exact[OF p, of x] binary64.exact_le[OF n, of x] by (auto simp: abs_le_iff)
qed

lemma fround_small: "\<bar>x\<bar> \<le> 2 ^ k \<Longrightarrow> k \<le> 1000 \<Longrightarrow> fround x = Fin (rnd53 x)"
proof (rule fround_fin)
  assume "\<bar>x\<bar> \<le> 2 ^ k" "k \<le> 1000"
  then have "\<bar>x\<bar> \<le> 2 ^ 1000" by (meson order_trans one_le_numeral power_increasing)
  also have "\<dots> \<le> fmax" by (simp add: fmax_code)
  finally show "\<bar>x\<bar> \<le> fmax" .
qed

lemma chord_finite:
  assumes b: "0 \<le> b0" "b0 \<le> b1" "b1 \<le> 2 ^ 60" "rnd53 b0 = b0"
    and c: "0 \<le> c0" "1 / 2 ^ 60 \<le> c1 - c0" "c1 \<le> 100" "c0 \<le> z" "z \<le> 100"
  shows "\<exists>v. chord (Fin b0) (Fin b1) (Fin c0) (Fin c1) (Fin z) = Inr (Fin v) \<and> b0 \<le> v \<and> v \<le> 2 ^ 129"
proof -
  define dx dc t where "dx = rnd53 (b1 - b0)" and "dc = rnd53 (c1 - c0)" and "t = rnd53 (z - c0)"
  define k where "k = rnd53 (dx / dc)"
  have i: "\<bar>b1 - b0\<bar> \<le> 2 ^ 60" "\<bar>c1 - c0\<bar> \<le> 2 ^ 7" "\<bar>z - c0\<bar> \<le> 2 ^ 7"
  proof -
    have "(0 :: rat) \<le> 1 / 2 ^ 60" by simp
    then have "c0 \<le> c1" using c(2) by linarith
    then show "\<bar>c1 - c0\<bar> \<le> 2 ^ 7" using c by (simp add: abs_le_iff)
  qed (use b c in \<open>simp_all add: abs_le_iff\<close>)
  note r = i[THEN rnd53_bound, folded dx_def dc_def t_def]
  note f = i(1)[THEN fround_small] i(2)[THEN fround_small] i(3)[THEN fround_small]
  have dx: "0 \<le> dx" and t: "0 \<le> t"
    using b c unfolding dx_def t_def by (simp_all add: binary64.nonneg)
  have pc: "rnd53 (1 / 2 ^ 60) = 1 / 2 ^ 60"
    using rnd53_powi[of "- 60"] by (simp add: power_int_minus inverse_eq_divide)
  have dc: "1 / 2 ^ 60 \<le> dc" unfolding dc_def by (rule binary64.exact_le[OF pc c(2)])
  have dc0: "0 < dc" using dc by (rule less_le_trans[rotated]) simp
  have "dx / dc \<le> 2 ^ 60 / (1 / 2 ^ 60)"
    using dx dc r(1) by (intro frac_le) (simp_all add: abs_le_iff)
  then have q: "\<bar>dx / dc\<bar> \<le> 2 ^ 120" using dx dc0 by (simp add: abs_le_iff)
  have k: "0 \<le> k" "\<bar>k\<bar> \<le> 2 ^ 120"
    using dx dc0 rnd53_bound[OF q] unfolding k_def by (simp_all add: binary64.nonneg)
  have kt: "\<bar>k * t\<bar> \<le> 2 ^ 127"
    using mult_mono[OF k(2) r(3)] by (simp add: abs_mult)
  have kt': "0 \<le> rnd53 (k * t)" "\<bar>rnd53 (k * t)\<bar> \<le> 2 ^ 127"
    using kt k t rnd53_bound[OF kt] by (simp_all add: binary64.nonneg)
  have s: "\<bar>b0 + rnd53 (k * t)\<bar> \<le> 2 ^ 128" using kt' b(1-3) by (simp add: abs_le_iff)
  have "chord (Fin b0) (Fin b1) (Fin c0) (Fin c1) (Fin z) = Inr (Fin (rnd53 (b0 + rnd53 (k * t))))"
    using f dc0 fround_small[OF q] fround_small[OF kt] fround_small[OF s]
    by (simp add: chord_def fsub_def k_def[symmetric] dx_def[symmetric] dc_def[symmetric] t_def[symmetric])
  moreover have "b0 \<le> rnd53 (b0 + rnd53 (k * t))" using binary64.add_ge[OF b(4) kt'(1)] .
  moreover have "rnd53 (b0 + rnd53 (k * t)) \<le> 2 ^ 129"
    using rnd53_bound[OF s] by (simp add: abs_le_iff)
  ultimately show ?thesis by blast
qed

lemma value_loop_total:
  assumes "list_all (\<lambda>(x, y). rnd53 x = x \<and> 0 \<le> x \<and> x \<le> 2 ^ 60) ps" "successively below ps"
    and "successively (\<lambda>p q. 1 / 2 ^ 60 \<le> snd q - snd p) ps"
    and "ps \<noteq> []" "0 \<le> snd (hd ps)" "snd (hd ps) \<le> z" "z \<le> snd (last ps)" "snd (last ps) \<le> 100"
    and "2 \<le> length ps"
  shows "\<exists>v. value_loop (knots ps) (Fin z) = Inr (Some (Fin v)) \<and> fst (hd ps) \<le> v \<and> v \<le> 2 ^ 129"
  using assms
proof (induction ps rule: induct_list012)
  case (3 p q ps)
  obtain x0 y0 x1 y1 where pq: "p = (x0, y0)" "q = (x1, y1)" by (cases p; cases q)
  have st: "x0 < x1" "y0 < y1" using "3.prems"(2) by (simp_all add: below_def pq)
  show ?case
  proof (cases "z \<le> y1")
    case True
    have y1: "y1 \<le> 100"
    proof -
      have "sorted_wrt below (q # ps)"
        using "3.prems"(2) by (simp add: successively_conv_sorted_wrt[OF transp_below])
      then have "y1 \<le> snd (last (q # ps))" by (cases ps) (auto simp: below_def pq less_imp_le)
      then show ?thesis using "3.prems" by simp
    qed
    have "\<exists>v. chord (Fin x0) (Fin x1) (Fin y0) (Fin y1) (Fin z) = Inr (Fin v) \<and> x0 \<le> v \<and> v \<le> 2 ^ 129"
      using "3.prems" st True y1 by (intro chord_finite) (auto simp: pq)
    then show ?thesis using True by (auto simp: pq)
  next
    case False
    have ne: "ps \<noteq> []" using "3.prems"(7) False by (auto simp: pq)
    have "\<exists>v. value_loop (knots (q # ps)) (Fin z) = Inr (Some (Fin v)) \<and> fst (hd (q # ps)) \<le> v \<and> v \<le> 2 ^ 129"
    proof (rule "3.IH"(2))
      show "2 \<le> length (q # ps)" using ne by (cases ps) auto
    qed (use "3.prems" False st in \<open>auto simp: pq\<close>)
    then show ?thesis using False st by (auto simp: pq)
  qed
qed auto

text \<open>
  C8. Sampling never fails: once \<open>setCdf\<close> has accepted a sane distribution, the value of every
  percentage between 0 and 100 is a finite number (no exception, no \<open>None\<close>, no overflow), at least the
  smallest size of the distribution and at most \<open>2 ^ 129\<close>.
\<close>

theorem getValueFromPercentile_total:
  assumes "sane_cdf ps" and "setCdf self (knots ps) = Inr (True, self')" and "0 \<le> y" and "y \<le> 100"
  shows "\<exists>v. getValueFromPercentile self' (Fin y) = Inr (Some (Fin v)) \<and> fst (hd ps) \<le> v \<and> v \<le> 2 ^ 129"
proof -
  have acc: "testCdf (knots ps) = Inr True" using assms(1) by (simp add: sane_cdf_def)
  then have shape: "ps \<noteq> []" "snd (hd ps) = 0" "snd (last ps) = 100"
      "sorted_wrt (\<lambda>p q. fst p < fst q \<and> snd p < snd q) ps"
    using testCdf_shape[of ps] by auto
  have "2 \<le> length ps" using shape(1-3) by (cases ps rule: remdups_adj.cases) auto
  moreover have "sorted_wrt below ps" using shape(4) by (simp add: below_def[abs_def])
  then have "successively below ps"
    by (simp add: successively_conv_sorted_wrt[OF transp_below])
  moreover have "list_all (\<lambda>(x, y). rnd53 x = x \<and> 0 \<le> x \<and> x \<le> 2 ^ 60) ps"
    using assms(1) by (auto simp: sane_cdf_def list_all_iff)
  ultimately have "\<exists>v. value_loop (knots ps) (Fin y) = Inr (Some (Fin v)) \<and> fst (hd ps) \<le> v \<and> v \<le> 2 ^ 129"
    using assms shape by (intro value_loop_total) (auto simp: sane_cdf_def)
  moreover have "cdf_attr self' = Some (knots ps)"
    using assms(2) acc by (auto simp: setCdf_def)
  ultimately show ?thesis by (simp add: getValueFromPercentile_def self_cdf_def)
qed

theorem getValueFromPercentile_total_witness:
  "\<exists>v. getValueFromPercentile \<lparr>cdf_attr = Some (knots [(0, 0), (4096, 30), (16384, 100)])\<rparr> (Fin 99)
     = Inr (Some (Fin v)) \<and> 0 \<le> v \<and> v \<le> 2 ^ 129"
proof -
  have acc: "testCdf (knots [(0, 0), (4096, 30), (16384, 100)]) = Inr True" by code_simp
  have "sane_cdf [(0, 0), (4096, 30), (16384, 100)]"
    using acc rnd53_int[of 0] rnd53_int[of 4096] rnd53_int[of 30] rnd53_int[of 16384] rnd53_int[of 100]
    by (simp add: sane_cdf_def del: knots_simps)
  moreover have "setCdf CustomRand_init (knots [(0, 0), (4096, 30), (16384, 100)])
      = Inr (True, \<lparr>cdf_attr = Some (knots [(0, 0), (4096, 30), (16384, 100)])\<rparr>)"
    using acc by (simp add: setCdf_def CustomRand_init_def del: knots_simps)
  ultimately show ?thesis
    using getValueFromPercentile_total[of "[(0, 0), (4096, 30), (16384, 100)]" CustomRand_init _ 99]
    by (simp del: knots_simps)
qed

text \<open>
  A \<open>NaN\<close> knot passes: both comparisons of the loop are false on it. Every sample of the two segments
  that touch it is then \<open>NaN\<close>.
\<close>

lemma testCdf_accepts_nan:
  "testCdf [(Fin 0, Fin 0), (NaN, Fin 50), (Fin 10, Fin 100)] = Inr True"
  "value_loop [(Fin 0, Fin 0), (NaN, Fin 50), (Fin 10, Fin 100)] (Fin 20) = Inr (Some NaN)"
  by code_simp+

end
