(* ===== verification/TrafficGen.thy ===== *)
theory TrafficGen
  imports CustomRand "HOL-Library.Product_Lexorder" "HOL-Library.Multiset" "HOL-Library.Monad_Syntax"
begin

text \<open>
  \<open>traffic_gen/traffic_gen.py\<close>: an open-loop Poisson traffic generator. Every host has one pending
  arrival in a heap ordered by time; the loop takes the earliest, draws the time to the host's next
  arrival and a destination, and either retires the host (the next arrival is after the end of the
  run) or writes a flow line and reinserts the host.

  The random number generator is a parameter: a record of functions over a state of any type (the
  methods of \<open>random\<close> the script calls), with \<open>math.log\<close> beside them. What the theorems rely on is
  \<open>rng_ok\<close>, which states the documented ranges. The destination loop and the main loop may run
  forever, so they are \<open>partial_function (option)\<close>: not returning is \<open>None\<close>. The heap is a sorted
  list behind the contract of the locale \<open>pending_queue\<close>.
\<close>

section \<open>The heap of pending arrivals\<close>

text \<open>
  What the loop relies on: \<open>heap[0]\<close> is a smallest element, \<open>heappop\<close> removes it and \<open>heapreplace\<close>
  exchanges it for another.
\<close>

locale pending_queue =
  fixes heapify :: "'a::linorder list \<Rightarrow> 'q"
    and peek :: "'q \<Rightarrow> 'a"
    and pop :: "'q \<Rightarrow> 'q"
    and repl :: "'q \<Rightarrow> 'a \<Rightarrow> 'q"
    and elems :: "'q \<Rightarrow> 'a multiset"
    and wf :: "'q \<Rightarrow> bool"
  assumes wf_heapify: "wf (heapify xs)" and elems_heapify: "elems (heapify xs) = mset xs"
    and peek_in: "wf q \<Longrightarrow> elems q \<noteq> {#} \<Longrightarrow> peek q \<in># elems q"
    and peek_least: "wf q \<Longrightarrow> x \<in># elems q \<Longrightarrow> peek q \<le> x"
    and wf_pop: "wf q \<Longrightarrow> elems q \<noteq> {#} \<Longrightarrow> wf (pop q)"
    and elems_pop: "wf q \<Longrightarrow> elems q \<noteq> {#} \<Longrightarrow> elems (pop q) = elems q - {#peek q#}"
    and wf_repl: "wf q \<Longrightarrow> elems q \<noteq> {#} \<Longrightarrow> wf (repl q x)"
    and elems_repl: "wf q \<Longrightarrow> elems q \<noteq> {#} \<Longrightarrow> elems (repl q x) = add_mset x (elems q - {#peek q#})"
begin

lemma pop_later:
  assumes "wf q" "elems q \<noteq> {#}" "x \<in># elems (pop q)" shows "peek q \<le> x"
  using assms by (auto simp: elems_pop intro: peek_least dest: in_diffD)

lemma repl_later:
  assumes "wf q" "elems q \<noteq> {#}" "peek q \<le> y" "x \<in># elems (repl q y)" shows "peek q \<le> x"
  using assms by (auto simp: elems_repl intro: peek_least dest: in_diffD)

lemma pop_smaller: "wf q \<Longrightarrow> elems q \<noteq> {#} \<Longrightarrow> size (elems (pop q)) < size (elems q)"
  by (simp add: elems_pop peek_in size_Diff1_less)

end

definition heapify :: "'a::linorder list \<Rightarrow> 'a list" where
  "heapify xs = sort xs"

definition heappop :: "'a::linorder list \<Rightarrow> 'a list" where
  "heappop q = tl q"

definition heapreplace :: "'a::linorder list \<Rightarrow> 'a \<Rightarrow> 'a list" where
  "heapreplace q x = insort x (tl q)"

interpretation hq: pending_queue heapify hd heappop heapreplace mset sorted
proof unfold_locales
  show "hd q \<le> x" if "sorted q" "x \<in># mset q" for q and x :: 'a
    using that by (cases q) auto
qed (auto simp: heapify_def heappop_def heapreplace_def sorted_insort neq_Nil_conv sorted_tl)

section \<open>Flows and units\<close>

record flow =
  fl_src :: int
  fl_dst :: int
  fl_size :: int
  fl_t :: pyfloat

definition flow_str :: "flow \<Rightarrow> string" where
  "flow_str f =
     show_int (fl_src f) @ '' '' @ show_int (fl_dst f) @ '' 3 '' @ show_int (fl_size f) @ '' '' @
     fmt_fixed 9 (fl_t f)"

definition to_float :: "string \<Rightarrow> pyfloat res" where
  "to_float s = of_option (ValueError ''could not convert string to float'') (py_float s)"

definition to_int :: "string \<Rightarrow> int res" where
  "to_int s = of_option (ValueError ''invalid literal for int() with base 10'') (py_int s)"

definition translate_bandwidth :: "string option \<Rightarrow> pyfloat option res" where
  "translate_bandwidth b =
     (case b of
        None \<Rightarrow> Inr None
      | Some s \<Rightarrow>
          bindE (py_index s (- 1)) (\<lambda>c.
          if c = CHR ''G'' then bindE (to_float (butlast s)) (\<lambda>x. Inr (Some (fmul x (Fin 1000000000))))
          else if c = CHR ''M'' then bindE (to_float (butlast s)) (\<lambda>x. Inr (Some (fmul x (Fin 1000000))))
          else if c = CHR ''K'' then bindE (to_float (butlast s)) (\<lambda>x. Inr (Some (fmul x (Fin 1000))))
          else bindE (to_float s) (\<lambda>x. Inr (Some x))))"

section \<open>Random draws\<close>

record 'g rng =
  seeded :: "int \<Rightarrow> 'g"
  random01 :: "'g \<Rightarrow> pyfloat \<times> 'g"
  randint :: "int \<Rightarrow> int \<Rightarrow> 'g \<Rightarrow> int \<times> 'g"
  mlog :: "pyfloat \<Rightarrow> pyfloat res"

definition poisson :: "'g rng \<Rightarrow> pyfloat \<Rightarrow> 'g \<Rightarrow> (pyfloat \<times> 'g) res" where
  "poisson G lam g =
     (case random01 G g of (u, g') \<Rightarrow>
        bindE (mlog G (fsub (Fin 1) u)) (\<lambda>l. Inr (fmul (fneg l) lam, g')))"

definition int_poisson :: "'g rng \<Rightarrow> pyfloat \<Rightarrow> 'g \<Rightarrow> (int \<times> 'g) res" where
  "int_poisson G lam g = bindE (poisson G lam g) (\<lambda>(x, g'). bindE (int_of_float x) (\<lambda>n. Inr (n, g')))"

text \<open>\<open>while (dst == src): dst = random.randint(0, nhost-1)\<close>.\<close>

partial_function (option) redraw :: "'g rng \<Rightarrow> int \<Rightarrow> int \<Rightarrow> int \<Rightarrow> 'g \<Rightarrow> (int \<times> 'g) option" where
  "redraw G nhost src dst g =
     (if dst = src then case randint G 0 (nhost - 1) g of (dst', g') \<Rightarrow> redraw G nhost src dst' g'
      else Some (dst, g))"

text \<open>\<open>size = int(customRand.rand())\<close> and the clamp to 1.\<close>

definition draw_size :: "'g rng \<Rightarrow> custom_rand \<Rightarrow> 'g \<Rightarrow> (int \<times> 'g) res" where
  "draw_size G customRand g =
     (case random01 G g of (u, g') \<Rightarrow>
        bindE (rand_value customRand u) (\<lambda>v.
        bindE (of_option TypeError v) (\<lambda>x.
        bindE (int_of_float x) (\<lambda>size. Inr (if size \<le> 0 then 1 else size, g')))))"

section \<open>The main loop\<close>

record gen_env =
  nhost :: int
  avg_inter_arrival :: pyfloat
  end_time :: pyfloat
  sampler :: custom_rand

record 'g gen_state =
  host_list :: "(int \<times> int) list"
  n_flow :: nat
  flows :: "flow list"
  rng_state :: 'g

definition base_t :: int where
  "base_t = 2000000000"

definition nano :: pyfloat where
  "nano = fround (1 / 1000000000)"

definition gen_step :: "'g rng \<Rightarrow> gen_env \<Rightarrow> 'g gen_state \<Rightarrow> 'g gen_state res option" where
  "gen_step G env s =
     (case hd (host_list s) of (t, src) \<Rightarrow>
      case int_poisson G (avg_inter_arrival env) (rng_state s) of
        Inl e \<Rightarrow> Some (Inl e)
      | Inr (inter_t, g1) \<Rightarrow>
          (case randint G 0 (nhost env - 1) g1 of (dst0, g2) \<Rightarrow>
           case redraw G (nhost env) src dst0 g2 of
             None \<Rightarrow> None
           | Some (dst, g3) \<Rightarrow>
               if flt (end_time env) (Fin (of_int (t + inter_t))) then
                 Some (Inr (s\<lparr>host_list := heappop (host_list s), rng_state := g3\<rparr>))
               else
                 Some (bindE (draw_size G (sampler env) g3) (\<lambda>(size, g4).
                       bindE (float_of_int t) (\<lambda>ft.
                       Inr (s\<lparr>host_list := heapreplace (host_list s) (t + inter_t, src),
                             n_flow := n_flow s + 1,
                             flows := flows s @ [\<lparr>fl_src = src, fl_dst = dst, fl_size = size,
                                                 fl_t = fmul ft nano\<rparr>],
                             rng_state := g4\<rparr>))))))"

partial_function (option) gen_loop :: "'g rng \<Rightarrow> gen_env \<Rightarrow> 'g gen_state \<Rightarrow> 'g gen_state res option" where
  "gen_loop G env s =
     (if host_list s = [] then Some (Inr s)
      else case gen_step G env s of
             None \<Rightarrow> None
           | Some (Inl e) \<Rightarrow> Some (Inl e)
           | Some (Inr s') \<Rightarrow> gen_loop G env s')"

section \<open>The script\<close>

record gen_options =
  o_nhost :: "string option"
  o_load :: string
  o_bandwidth :: "string option"
  o_time :: string
  o_seed :: "string option"

definition read_knot :: "string \<Rightarrow> knot res" where
  "read_knot line =
     bindE (mapE to_float (take 3 (split_char (CHR '' '') (py_strip line)))) (\<lambda>vs.
     case vs of
       [x, y] \<Rightarrow> Inr (x, y)
     | [_, _, _] \<Rightarrow> Inl (ValueError ''too many values to unpack (expected 2)'')
     | _ \<Rightarrow> Inl (ValueError ''not enough values to unpack (expected 2)''))"

fun first_arrivals :: "'g rng \<Rightarrow> pyfloat \<Rightarrow> int list \<Rightarrow> 'g \<Rightarrow> ((int \<times> int) list \<times> 'g) res" where
  "first_arrivals G avg [] g = Inr ([], g)"
| "first_arrivals G avg (i # is) g =
     bindE (int_poisson G avg g) (\<lambda>(d, g1).
     bindE (first_arrivals G avg is g1) (\<lambda>(hs, g2). Inr ((base_t + d, i) # hs, g2)))"

text \<open>\<open>seek(0)\<close> and a write: the text replaces the beginning of the file.\<close>

definition overwrite :: "string \<Rightarrow> string \<Rightarrow> string" where
  "overwrite file new = new @ drop (length new) file"

definition traffic_text :: "int \<Rightarrow> flow list \<Rightarrow> nat \<Rightarrow> string" where
  "traffic_text n_flow_estimate fs n =
     overwrite (show_int n_flow_estimate @ '' '' @ nl @ concat (map (\<lambda>f. flow_str f @ nl) fs)) (show_nat n)"

text \<open>\<open>avg_inter_arrival\<close> in nanoseconds, and the estimate of the number of flows.\<close>

definition inter_arrival :: "pyfloat \<Rightarrow> pyfloat \<Rightarrow> custom_rand \<Rightarrow> pyfloat res" where
  "inter_arrival load bandwidth customRand =
     bindE (getAvg customRand) (\<lambda>avg.
     bindE (fdiv (fmul bandwidth load) (Fin 8)) (\<lambda>r1.
     bindE (fdiv r1 avg) (\<lambda>r2.
     bindE (fdiv (Fin 1) r2) (\<lambda>r3. Inr (fmul r3 (Fin 1000000000))))))"

definition flow_estimate :: "pyfloat \<Rightarrow> pyfloat \<Rightarrow> int \<Rightarrow> int res" where
  "flow_estimate time avg_inter n =
     bindE (fdiv time avg_inter) (\<lambda>q. bindE (float_of_int n) (\<lambda>fn. int_of_float (fmul q fn)))"

text \<open>The generator after the options have been read: the text of the output file.\<close>

definition generate ::
  "'g rng \<Rightarrow> int \<Rightarrow> pyfloat \<Rightarrow> pyfloat \<Rightarrow> pyfloat \<Rightarrow> custom_rand \<Rightarrow> 'g \<Rightarrow> string res option" where
  "generate G n load bandwidth time customRand g =
     (case bindE (inter_arrival load bandwidth customRand) (\<lambda>avg_inter.
           bindE (flow_estimate time avg_inter n) (\<lambda>estimate.
           bindE (first_arrivals G avg_inter [0..n - 1] g) (\<lambda>(hs, g').
           Inr (avg_inter, estimate, hs, g')))) of
        Inl e \<Rightarrow> Some (Inl e)
      | Inr (avg_inter, estimate, hs, g') \<Rightarrow>
          (case gen_loop G \<lparr>nhost = n, avg_inter_arrival = avg_inter,
                            end_time = fadd time (Fin (of_int base_t)), sampler = customRand\<rparr>
                  \<lparr>host_list = heapify hs, n_flow = 0, flows = [], rng_state = g'\<rparr> of
             None \<Rightarrow> None
           | Some (Inl e) \<Rightarrow> Some (Inl e)
           | Some (Inr s) \<Rightarrow> Some (Inr (traffic_text estimate (flows s) (n_flow s)))))"

definition traffic_gen :: "'g rng \<Rightarrow> gen_options \<Rightarrow> string \<Rightarrow> 'g \<Rightarrow> string res option" where
  "traffic_gen G opts cdf_text g0 =
     (case bindE (case o_seed opts of None \<Rightarrow> Inr g0 | Some s \<Rightarrow> bindE (to_int s) (\<lambda>n. Inr (seeded G n))) (\<lambda>g.
           bindE (case o_nhost opts of
                    None \<Rightarrow> Inl (SystemExit 0)
                  | Some s \<Rightarrow> if s = [] then Inl (SystemExit 0) else to_int s) (\<lambda>n.
           bindE (to_float (o_load opts)) (\<lambda>load.
           bindE (translate_bandwidth (o_bandwidth opts)) (\<lambda>bandwidth.
           bindE (to_float (o_time opts)) (\<lambda>time_s.
           bindE (of_option (SystemExit 0) bandwidth) (\<lambda>bw.
           bindE (mapE read_knot (py_lines cdf_text)) (\<lambda>cdf.
           bindE (setCdf CustomRand_init cdf) (\<lambda>(ok, customRand).
           if \<not> ok then Inl (SystemExit 0)
           else Inr (g, n, load, bw, fmul time_s (Fin 1000000000), customRand))))))))) of
        Inl e \<Rightarrow> Some (Inl e)
      | Inr (g, n, load, bw, time, customRand) \<Rightarrow> generate G n load bw time customRand g)"

section \<open>What is relied on of the generator of random numbers\<close>

text \<open>
  \<open>random()\<close> returns a multiple of \<open>2 ^ -53\<close> in \<open>[0, 1)\<close>, \<open>randint(a, b)\<close> an integer of
  \<open>[a, b]\<close>, and the logarithm of a number of \<open>(0, 1]\<close> is finite and not positive.
\<close>

definition rng_ok :: "'g rng \<Rightarrow> bool" where
  "rng_ok G \<longleftrightarrow>
     (\<forall>g. \<exists>k. 0 \<le> k \<and> k < 2 ^ 53 \<and> fst (random01 G g) = Fin (of_int k / 2 ^ 53)) \<and>
     (\<forall>a b g. a \<le> b \<longrightarrow> a \<le> fst (randint G a b g) \<and> fst (randint G a b g) \<le> b) \<and>
     (\<forall>x. 0 < x \<and> x \<le> 1 \<longrightarrow> (\<exists>l. mlog G (Fin x) = Inr (Fin l) \<and> l \<le> 0))"

abbreviation nonneg :: "pyfloat \<Rightarrow> bool" where
  "nonneg x \<equiv> \<not> flt x (Fin 0)"

lemma nonneg_fround: "0 \<le> x \<Longrightarrow> nonneg (fround x)"
  using binary64.nonneg[of x] by (auto simp: fround_def Let_def fmax_def)

lemma nonneg_ops:
  "nonneg a \<Longrightarrow> nonneg b \<Longrightarrow> nonneg (fmul a b)"
  "nonneg a \<Longrightarrow> nonneg b \<Longrightarrow> nonneg (fadd a b)"
  "nonneg a \<Longrightarrow> nonneg b \<Longrightarrow> fdiv a b = Inr c \<Longrightarrow> nonneg c"
  by (cases a; cases b; auto simp: nonneg_fround finf_def split: if_splits)+

lemma nonneg_int_of_float: "nonneg x \<Longrightarrow> int_of_float x = Inr n \<Longrightarrow> 0 \<le> n"
  by (cases x) auto

lemma rng_unit:
  assumes "rng_ok G"
  obtains u where "fst (random01 G g) = Fin u" "0 \<le> u" "u < 1" "0 < 1 - u" "rnd53 (1 - u) = 1 - u"
proof -
  obtain k where k: "0 \<le> k" "k < 2 ^ 53" "fst (random01 G g) = Fin (of_int k / 2 ^ 53)"
    using assms unfolding rng_ok_def by blast
  have "(of_int k :: rat) < of_int (2 ^ 53)" using k(2) by (simp only: of_int_less_iff)
  then have u: "0 \<le> (of_int k / 2 ^ 53 :: rat)" "of_int k / 2 ^ 53 < (1 :: rat)"
    using k(1) by simp_all
  have x: "1 - of_int k / 2 ^ 53 = of_int (2 ^ 53 - k) * (2 :: rat) powi (- 53)"
    by (simp add: power_int_minus field_simps)
  have "ulp_exp (1 - of_int k / 2 ^ 53) \<le> - 53 \<or> k = 0"
  proof (cases "k = 0")
    case False
    then have "1 - of_int k / 2 ^ 53 < (2 :: rat) powi 0" using k(1) by simp
    then have "ilog2 (1 - of_int k / 2 ^ 53) < 0" using u by (intro ilog2_less) auto
    then show ?thesis by (simp add: ulp_exp_def)
  qed simp
  then have "rnd53 (1 - of_int k / 2 ^ 53) = 1 - of_int k / 2 ^ 53"
  proof
    assume "ulp_exp (1 - of_int k / 2 ^ 53) \<le> - 53"
    then have "rnd53_pos (1 - of_int k / 2 ^ 53) = 1 - of_int k / 2 ^ 53"
      using x by (intro rnd53_pos_exact[of _ "2 ^ 53 - k" "- 53"])
    then show ?thesis using u by (simp add: rnd53_def)
  next
    assume "k = 0" then show ?thesis using rnd53_int[of 1] by simp
  qed
  then show thesis using u k(3) by (intro that) auto
qed

lemma poisson_nonneg:
  assumes "rng_ok G" "nonneg lam" "poisson G lam g = Inr (x, g')" shows "nonneg x"
proof -
  obtain u where u: "fst (random01 G g) = Fin u" "0 \<le> u" "u < 1" "0 < 1 - u" "rnd53 (1 - u) = 1 - u"
    by (rule rng_unit[OF assms(1)])
  obtain g1 where r: "random01 G g = (Fin u, g1)" using u(1) by (cases "random01 G g") auto
  have "fround (1 - u) = Fin (1 - u)"
    using u by (subst fround_fin) (simp_all add: fmax_def abs_le_iff)
  then have f: "fsub (Fin 1) (Fin u) = Fin (1 - u)" by (simp add: fsub_def)
  obtain l where "mlog G (Fin (1 - u)) = Inr (Fin l)" "l \<le> 0"
    using assms(1) u unfolding rng_ok_def by (metis diff_ge_0_iff_ge diff_left_mono diff_zero)
  then have "x = fmul (Fin (- l)) lam" "0 \<le> - l"
    using assms(3) by (auto simp: poisson_def r f)
  then show ?thesis using assms(2) nonneg_ops(1)[of "Fin (- l)" lam] by simp
qed

lemma int_poisson_nonneg:
  "rng_ok G \<Longrightarrow> nonneg lam \<Longrightarrow> int_poisson G lam g = Inr (n, g') \<Longrightarrow> 0 \<le> n"
  by (auto simp: int_poisson_def res_simps split: prod.splits dest!: poisson_nonneg intro: nonneg_int_of_float)

section \<open>The destination loop\<close>

section \<open>The loops\<close>


lemma gen_loop_invariant:
  assumes "gen_loop G env s = Some (Inr s')" and "P s"
    and "\<And>s s1. P s \<Longrightarrow> host_list s \<noteq> [] \<Longrightarrow> gen_step G env s = Some (Inr s1) \<Longrightarrow> P s1"
  shows "P s' \<and> host_list s' = []"
proof -
  have "\<forall>s'. r = Inr s' \<longrightarrow> P s \<longrightarrow>
      (\<forall>s s1. P s \<longrightarrow> host_list s \<noteq> [] \<longrightarrow> gen_step G env s = Some (Inr s1) \<longrightarrow> P s1) \<longrightarrow>
      P s' \<and> host_list s' = []" if "gen_loop G env s = Some r" for r
  proof (rule gen_loop.raw_induct[OF _ that], goal_cases)
    case (1 loop G env s y)
    show ?case
      using 1(2) by (auto split: if_splits option.splits sum.splits dest!: 1(1))
  qed
  then show ?thesis using assms by blast
qed

lemma redraw_result:
  assumes "redraw G n src dst g = Some (d, g')" "rng_ok G" "0 \<le> dst" "dst < n"
  shows "d \<noteq> src \<and> 0 \<le> d \<and> d < n"
proof -
  have "0 \<le> dst \<longrightarrow> dst < n \<longrightarrow> rng_ok G \<longrightarrow> fst r \<noteq> src \<and> 0 \<le> fst r \<and> fst r < n"
    if "redraw G n src dst g = Some r" for r
  proof (rule redraw.raw_induct[OF _ that], goal_cases)
    case (1 redraw G n src dst g y)
    show ?case
    proof (intro impI)
      assume a: "0 \<le> dst" "dst < n" "rng_ok G"
      obtain d1 g1 where d1: "randint G 0 (n - 1) g = (d1, g1)" by (cases "randint G 0 (n - 1) g")
      have "0 \<le> d1" "d1 < n" using a d1 unfolding rng_ok_def
        by (metis fst_conv zle_diff1_eq order_le_less_trans)+
      then show "fst y \<noteq> src \<and> 0 \<le> fst y \<and> fst y < n"
        using 1(2) a d1 by (auto split: if_splits dest!: 1(1))
    qed
  qed
  then show ?thesis using assms by fastforce
qed

text \<open>With one host the only destination is the source itself.\<close>

lemma redraw_single_host:
  assumes "rng_ok (G :: 'g rng)" shows "redraw G 1 0 0 g = None"
proof -
  have "\<not> (rng_ok G \<and> n = 1 \<and> src = 0 \<and> dst = 0)" if "redraw G n src dst g = Some r" for G :: "'g rng" and n src dst g r
  proof (rule redraw.raw_induct[OF _ that], goal_cases)
    case (1 redraw G n src dst g y)
    have "fst (randint G 0 0 g) = 0" if "rng_ok G"
      using that unfolding rng_ok_def by (metis order_antisym order_refl)
    then show ?case using 1(2) 1(1)[of G 1 0 0] by (cases y; cases "randint G 0 0 g") (auto split: if_splits)
  qed
  then show ?thesis using assms by (metis option.exhaust)
qed

lemma redraw_hit: "dst \<noteq> src \<Longrightarrow> redraw G n src dst g = Some (dst, g)"
  by (subst redraw.simps) simp

lemma redraw_miss:
  "redraw G n src src g = redraw G n src (fst (randint G 0 (n - 1) g)) (snd (randint G 0 (n - 1) g))"
  by (subst redraw.simps) (simp split: prod.splits)

definition next_draw :: "'g rng \<Rightarrow> int \<Rightarrow> 'g \<Rightarrow> 'g" where
  "next_draw G n g = snd (randint G 0 (n - 1) g)"

lemma redraw_returns:
  assumes "fst (randint G 0 (n - 1) ((next_draw G n ^^ k) g)) \<noteq> src"
  shows "redraw G n src src g \<noteq> None"
  using assms
proof (induction k arbitrary: g)
  case 0
  then show ?case by (simp add: redraw_miss redraw_hit)
next
  case (Suc k)
  then have "redraw G n src src (next_draw G n g) \<noteq> None"
    by (simp add: funpow_swap1 del: not_None_eq)
  then show ?case
    by (cases "fst (randint G 0 (n - 1) g) = src") (simp_all add: redraw_miss[of _ _ _ g] redraw_hit next_draw_def)
qed

lemma redraw_forever:
  assumes "redraw G n src dst g = Some r" "dst = src"
  shows "\<exists>k. fst (randint G 0 (n - 1) ((next_draw G n ^^ k) g)) \<noteq> src"
proof -
  have "dst = src \<longrightarrow> (\<exists>k. fst (randint G 0 (n - 1) ((next_draw G n ^^ k) g)) \<noteq> src)"
  proof (rule redraw.raw_induct[OF _ assms(1)], goal_cases)
    case (1 loop G n src dst g r)
    show ?case
    proof (cases "dst = src \<and> fst (randint G 0 (n - 1) g) = src")
      case True
      then have "loop G n src src (next_draw G n g) = Some r"
        using 1(2) by (simp add: next_draw_def split: prod.splits)
      from 1(1)[OF this] obtain k where "fst (randint G 0 (n - 1) ((next_draw G n ^^ k) (next_draw G n g))) \<noteq> src"
        by blast
      then have "fst (randint G 0 (n - 1) ((next_draw G n ^^ Suc k) g)) \<noteq> src" by (simp add: funpow_swap1)
      then show ?thesis by blast
    qed (auto intro: exI[of _ 0])
  qed
  then show ?thesis using assms(2) by blast
qed

lemma redraw_None:
  "redraw G n src src g = None \<longleftrightarrow> (\<forall>k. fst (randint G 0 (n - 1) ((next_draw G n ^^ k) g)) = src)"
  using redraw_returns[of G n _ g src] redraw_forever[of G n src src g] by (metis option.exhaust)

section \<open>The invariant of the main loop\<close>

text \<open>The start time that is written for an arrival at \<open>t\<close> nanoseconds.\<close>

definition seconds :: "int \<Rightarrow> rat" where
  "seconds t = rnd53 (rnd53 (of_int t) * rnd53 (1 / 1000000000))"

lemma nano_pos: "0 < rnd53 (1 / 1000000000)" "rnd53 (1 / 1000000000) \<le> 1"
  "nano = Fin (rnd53 (1 / 1000000000))"
proof -
  have n: "nano = Fin (4835703278458517 / 4835703278458516698824704)" by code_simp
  have "fround (1 / 1000000000) = Fin (rnd53 (1 / 1000000000))"
    by (rule fround_fin) (simp add: fmax_code)
  then have r: "rnd53 (1 / 1000000000) = 4835703278458517 / 4835703278458516698824704"
    using n by (simp add: nano_def)
  then show "0 < rnd53 (1 / 1000000000)" "rnd53 (1 / 1000000000) \<le> 1"
    "nano = Fin (rnd53 (1 / 1000000000))" unfolding n by simp_all
qed

lemma seconds_mono: "t \<le> t' \<Longrightarrow> seconds t \<le> seconds t'"
  unfolding seconds_def using nano_pos
  by (intro rnd53_mono mult_right_mono) simp_all

lemma seconds_float:
  assumes "float_of_int t = Inr ft" shows "fmul ft nano = Fin (seconds t)"
proof -
  have ft: "ft = Fin (rnd53 (of_int t))" "\<bar>rnd53 (of_int t)\<bar> \<le> fmax"
    using assms fround_eq_Fin[of "of_int t"]
    by (auto simp: float_of_int_def split: pyfloat.splits)
  have "\<bar>rnd53 (of_int t) * rnd53 (1 / 1000000000)\<bar> \<le> fmax * 1"
    unfolding abs_mult using ft(2) nano_pos by (intro mult_mono) simp_all
  then show ?thesis by (simp add: ft(1) nano_pos(3) seconds_def fround_fin)
qed

text \<open>The flow lines a run may contain, in order: \<open>ts\<close> are their arrival times.\<close>

definition flow_ok :: "int \<Rightarrow> flow \<Rightarrow> int \<Rightarrow> bool" where
  "flow_ok n f t \<longleftrightarrow>
     0 \<le> fl_src f \<and> fl_src f < n \<and> 0 \<le> fl_dst f \<and> fl_dst f < n \<and> fl_src f \<noteq> fl_dst f \<and>
     1 \<le> fl_size f \<and> fl_t f = Fin (seconds t)"

definition trace_ok :: "int \<Rightarrow> pyfloat \<Rightarrow> flow list \<Rightarrow> int list \<Rightarrow> bool" where
  "trace_ok n until fs ts \<longleftrightarrow>
     list_all2 (flow_ok n) fs ts \<and> sorted (base_t # ts) \<and>
     list_all (\<lambda>t. \<not> flt until (Fin (of_int t))) ts"

definition loop_inv :: "gen_env \<Rightarrow> int list \<Rightarrow> 'g gen_state \<Rightarrow> bool" where
  "loop_inv env ts s \<longleftrightarrow>
     trace_ok (nhost env) (end_time env) (flows s) ts \<and> n_flow s = length (flows s) \<and>
     sorted (host_list s) \<and>
     (\<forall>(t, i) \<in> set (host_list s). 0 \<le> i \<and> i < nhost env \<and> (\<forall>t' \<in> set (base_t # ts). t' \<le> t))"

lemma draw_size_pos: "draw_size G c g = Inr (k, g') \<Longrightarrow> 1 \<le> k"
  by (auto simp: draw_size_def res_simps split: prod.splits if_splits)

lemma flt_int_mono: "flt x (Fin a) \<Longrightarrow> a \<le> b \<Longrightarrow> flt x (Fin b)"
  by (cases x) auto

lemma gen_step_cases:
  assumes "gen_step G env s = Some (Inr s')" "host_list s = (t, src) # hs"
  obtains inter_t dst g3 where "0 \<le> inter_t \<or> \<not> (rng_ok G \<and> nonneg (avg_inter_arrival env))"
    and "\<exists>g. int_poisson G (avg_inter_arrival env) (rng_state s) = Inr (inter_t, g)"
    and "rng_ok G \<Longrightarrow> 0 \<le> src \<Longrightarrow> src < nhost env \<Longrightarrow> dst \<noteq> src \<and> 0 \<le> dst \<and> dst < nhost env"
    and "flt (end_time env) (Fin (of_int (t + inter_t))) \<and> s' = s\<lparr>host_list := hs, rng_state := g3\<rparr> \<or>
      \<not> flt (end_time env) (Fin (of_int (t + inter_t))) \<and>
      (\<exists>size. 1 \<le> size \<and> s' = s\<lparr>host_list := insort (t + inter_t, src) hs, n_flow := n_flow s + 1,
        flows := flows s @ [\<lparr>fl_src = src, fl_dst = dst, fl_size = size, fl_t = Fin (seconds t)\<rparr>],
        rng_state := g3\<rparr>)"
proof -
  obtain inter_t g1 where it: "int_poisson G (avg_inter_arrival env) (rng_state s) = Inr (inter_t, g1)"
    using assms by (auto simp: gen_step_def split: sum.splits)
  obtain dst0 g2 where d0: "randint G 0 (nhost env - 1) g1 = (dst0, g2)" by (cases "randint G 0 (nhost env - 1) g1")
  obtain dst g3 where d: "redraw G (nhost env) src dst0 g2 = Some (dst, g3)"
    using assms it d0 by (auto simp: gen_step_def split: option.splits)
  have dst: "dst \<noteq> src \<and> 0 \<le> dst \<and> dst < nhost env" if "rng_ok G" "0 \<le> src" "src < nhost env"
  proof (rule redraw_result[OF d that(1)])
    have "0 \<le> nhost env - 1" using that by simp
    then have "0 \<le> dst0 \<and> dst0 \<le> nhost env - 1"
      using that(1) d0 unfolding rng_ok_def by (metis fst_conv)
    then show "0 \<le> dst0" "dst0 < nhost env" by simp_all
  qed
  have nn: "0 \<le> inter_t \<or> \<not> (rng_ok G \<and> nonneg (avg_inter_arrival env))"
    using int_poisson_nonneg[OF _ _ it] by blast
  show thesis
  proof (cases "flt (end_time env) (Fin (of_int (t + inter_t)))")
    case True
    then have "s' = s\<lparr>host_list := hs, rng_state := g3\<rparr>"
      using assms it d0 d by (simp add: gen_step_def heappop_def)
    then show thesis using True it nn dst by (intro that[of inter_t dst g3]) auto
  next
    case False
    then obtain size g4 ft where "draw_size G (sampler env) g3 = Inr (size, g4)" "float_of_int t = Inr ft"
      and "s' = s\<lparr>host_list := insort (t + inter_t, src) hs, n_flow := n_flow s + 1,
        flows := flows s @ [\<lparr>fl_src = src, fl_dst = dst, fl_size = size, fl_t = fmul ft nano\<rparr>],
        rng_state := g4\<rparr>"
      using assms it d0 d by (auto simp: gen_step_def heapreplace_def res_simps split: prod.splits)
    then show thesis using False it nn dst
      by (intro that[of inter_t dst g4]) (auto simp: seconds_float dest: draw_size_pos)
  qed
qed

lemma gen_step_inv:
  assumes "rng_ok G" "nonneg (avg_inter_arrival env)"
    and "\<exists>ts. loop_inv env ts s" "host_list s \<noteq> []" "gen_step G env s = Some (Inr s')"
  shows "\<exists>ts. loop_inv env ts s'"
proof -
  obtain ts where inv: "loop_inv env ts s" using assms(3) by blast
  obtain t src hs where h: "host_list s = (t, src) # hs"
    using assms(4) by (metis neq_Nil_conv surj_pair)
  have src: "0 \<le> src" "src < nhost env" and early: "\<forall>t' \<in> set (base_t # ts). t' \<le> t"
    and sh: "sorted hs" and later: "\<forall>(t', i) \<in> set hs. t \<le> t'"
    using inv h by (auto simp: loop_inv_def split: prod.splits dest!: bspec)
  obtain inter_t dst g3 where nn: "0 \<le> inter_t" and dst: "dst \<noteq> src" "0 \<le> dst" "dst < nhost env"
    and st: "flt (end_time env) (Fin (of_int (t + inter_t))) \<and> s' = s\<lparr>host_list := hs, rng_state := g3\<rparr> \<or>
      \<not> flt (end_time env) (Fin (of_int (t + inter_t))) \<and>
      (\<exists>size. 1 \<le> size \<and> s' = s\<lparr>host_list := insort (t + inter_t, src) hs, n_flow := n_flow s + 1,
        flows := flows s @ [\<lparr>fl_src = src, fl_dst = dst, fl_size = size, fl_t = Fin (seconds t)\<rparr>],
        rng_state := g3\<rparr>)"
    by (rule gen_step_cases[OF assms(5) h]) (use assms(1,2) src in auto)
  from st show ?thesis
  proof (elim disjE conjE exE)
    assume "s' = s\<lparr>host_list := hs, rng_state := g3\<rparr>"
    then have "loop_inv env ts s'" using inv h by (auto simp: loop_inv_def)
    then show ?thesis by blast
  next
    fix size
    assume *: "\<not> flt (end_time env) (Fin (of_int (t + inter_t)))" "1 \<le> size"
      "s' = s\<lparr>host_list := insort (t + inter_t, src) hs, n_flow := n_flow s + 1,
        flows := flows s @ [\<lparr>fl_src = src, fl_dst = dst, fl_size = size, fl_t = Fin (seconds t)\<rparr>],
        rng_state := g3\<rparr>"
    have "\<not> flt (end_time env) (Fin (of_int t))" using *(1) nn flt_int_mono by fastforce
    moreover have "flow_ok (nhost env) \<lparr>fl_src = src, fl_dst = dst, fl_size = size, fl_t = Fin (seconds t)\<rparr> t"
      using src dst *(2) by (auto simp: flow_ok_def)
    moreover have "sorted (base_t # ts @ [t])"
      using inv early by (auto simp: loop_inv_def trace_ok_def sorted_append)
    ultimately have "trace_ok (nhost env) (end_time env) (flows s') (ts @ [t])"
      using inv *(3) by (auto simp: loop_inv_def trace_ok_def intro: list_all2_appendI)
    then have "loop_inv env (ts @ [t]) s'"
      using inv *(3) src early later nn sh h by (auto simp: loop_inv_def sorted_insort set_insort_key)
    then show ?thesis by blast
  qed
qed

section \<open>Whole runs\<close>


lemma avg_loop_nonneg:
  assumes "successively (\<lambda>p q. fst p < fst q \<and> snd p < snd q) ((lx, ly) # ps)" "0 \<le> lx" "nonneg s"
    and "avg_loop (knots ps) (Fin lx) (Fin ly) s = Inr r"
  shows "nonneg r"
  using assms
proof (induction ps arbitrary: lx ly s)
  case (Cons p ps)
  obtain x y where p: "p = (x, y)" by (cases p)
  have xy: "lx < x" "ly < y" using Cons.prems(1) by (auto simp: p)
  obtain h where h: "fdiv (fadd (Fin x) (Fin lx)) (Fin 2) = Inr h"
    and r: "avg_loop (knots ps) (Fin x) (Fin y) (fadd s (fmul h (fsub (Fin y) (Fin ly)))) = Inr r"
    using Cons.prems(4) by (auto simp: p res_simps)
  have "nonneg h"
    using nonneg_ops(2)[of "Fin x" "Fin lx"] xy Cons.prems(2) by (intro nonneg_ops(3)[OF _ _ h]) auto
  moreover have "nonneg (fsub (Fin y) (Fin ly))"
    using xy by (simp add: fsub_def nonneg_fround)
  ultimately have "nonneg (fadd s (fmul h (fsub (Fin y) (Fin ly))))"
    using Cons.prems(3) by (intro nonneg_ops(1,2))
  moreover have "successively (\<lambda>p q. fst p < fst q \<and> snd p < snd q) ((x, y) # ps)"
    using Cons.prems(1) by (simp add: p)
  moreover have "0 \<le> x" using xy Cons.prems(2) by simp
  ultimately show ?case using r Cons.IH by blast
qed simp

lemma getAvg_nonneg:
  assumes "testCdf (knots ps) = Inr True" "0 \<le> fst (hd ps)" "cdf_attr cr = Some (knots ps)" "getAvg cr = Inr a"
  shows "nonneg a"
proof -
  have sh: "ps \<noteq> []" "sorted_wrt (\<lambda>p q. fst p < fst q \<and> snd p < snd q) ps"
    using assms(1) testCdf_shape[of ps] by auto
  obtain lx ly qs where ps: "ps = (lx, ly) # qs" using sh(1) by (cases ps) auto
  have "transp (\<lambda>p q :: rat \<times> rat. fst p < fst q \<and> snd p < snd q)" by (auto intro!: transpI)
  then have suc: "successively (\<lambda>p q. fst p < fst q \<and> snd p < snd q) ((lx, ly) # qs)"
    using sh(2) ps successively_conv_sorted_wrt by blast
  have i0: "py_index (knots ps) 0 = Inr (Fin lx, Fin ly)"
    using py_index_nat[of 0 "knots ps"] ps by simp
  obtain s where s: "avg_loop (knots qs) (Fin lx) (Fin ly) (Fin 0) = Inr s" "fdiv s (Fin 100) = Inr a"
    using assms(3,4) i0 by (auto simp: getAvg_def self_cdf_def bindE_Inr_iff of_option_def ps)
  have "nonneg s" by (rule avg_loop_nonneg[OF suc _ _ s(1)]) (use assms(2) ps in simp_all)
  then show ?thesis by (rule nonneg_ops(3)[OF _ _ s(2)]) simp
qed

lemma first_arrivals_later:
  assumes "first_arrivals G avg is g = Inr (hs, g')" "rng_ok G" "nonneg avg"
  shows "\<forall>(t, i) \<in> set hs. base_t \<le> t \<and> i \<in> set is"
  using assms(1)
proof (induction "is" arbitrary: g hs g')
  case (Cons i "is")
  obtain d g1 hs1 where *: "int_poisson G avg g = Inr (d, g1)" "first_arrivals G avg is g1 = Inr (hs1, g')"
    "hs = (base_t + d, i) # hs1" using Cons.prems by (auto simp: res_simps split: prod.splits)
  then show ?case using Cons.IH[OF *(2)] int_poisson_nonneg[OF assms(2,3) *(1)] by auto
qed simp

text \<open>
  C1. Every trace the generator writes is sound, for any random number generator that keeps its
  documented ranges: the rows have distinct endpoints among the hosts and a positive size, they are
  ordered by arrival, no arrival is before the start of the simulation or after the requested end,
  and the text consists of these rows after a first line in which their number is written over the
  digits of the estimate \<open>int(time / avg_inter_arrival * nhost)\<close>.
\<close>

theorem generate_sound:
  assumes "rng_ok G" and "setCdf cr0 (knots ps) = Inr (True, cr)" and "0 \<le> fst (hd ps)"
    and "\<not> flt load (Fin 0)" and "\<not> flt bandwidth (Fin 0)"
    and "generate G n load bandwidth time cr g = Some (Inr text)"
  shows "\<exists>avg estimate fs ts.
           inter_arrival load bandwidth cr = Inr avg \<and> flow_estimate time avg n = Inr estimate \<and>
           text = traffic_text estimate fs (length fs) \<and>
           trace_ok n (fadd time (Fin (of_int base_t))) fs ts"
proof -
  obtain a0 avg r1 r2 r3 estimate hs g' where
      a0: "inter_arrival load bandwidth cr = Inr a0" "a0 = fmul r3 (Fin 1000000000)"
        "flow_estimate time a0 n = Inr estimate" and
      avg: "getAvg cr = Inr avg" and r1: "fdiv (fmul bandwidth load) (Fin 8) = Inr r1"
      and r2: "fdiv r1 avg = Inr r2" and r3: "fdiv (Fin 1) r2 = Inr r3"
      and hs: "first_arrivals G (fmul r3 (Fin 1000000000)) [0..n - 1] g = Inr (hs, g')"
      and run: "(case gen_loop G \<lparr>nhost = n, avg_inter_arrival = fmul r3 (Fin 1000000000),
                            end_time = fadd time (Fin (of_int base_t)), sampler = cr\<rparr>
                  \<lparr>host_list = heapify hs, n_flow = 0, flows = [], rng_state = g'\<rparr> of
             None \<Rightarrow> None
           | Some (Inl e) \<Rightarrow> Some (Inl e)
           | Some (Inr s) \<Rightarrow> Some (Inr (traffic_text estimate (flows s) (n_flow s)))) = Some (Inr text)"
    using assms(6) by (auto simp: generate_def inter_arrival_def res_simps split: sum.splits)
  define env where "env = \<lparr>nhost = n, avg_inter_arrival = fmul r3 (Fin 1000000000),
                            end_time = fadd time (Fin (of_int base_t)), sampler = cr\<rparr>"
  have cr: "testCdf (knots ps) = Inr True" "cdf_attr cr = Some (knots ps)"
    using assms(2) by (auto simp: setCdf_def bindE_Inr_iff split: if_splits)
  have "nonneg avg" by (rule getAvg_nonneg[OF cr(1) assms(3) cr(2) avg])
  then have nn: "nonneg (fmul r3 (Fin 1000000000))"
    using nonneg_ops(3)[OF _ _ r3] nonneg_ops(3)[OF _ _ r2] nonneg_ops(3)[OF _ _ r1]
      nonneg_ops(1)[of bandwidth load] nonneg_ops(1)[of r3 "Fin 1000000000"] assms(4,5)
    by simp
  obtain s where s: "gen_loop G env \<lparr>host_list = heapify hs, n_flow = 0, flows = [], rng_state = g'\<rparr> = Some (Inr s)"
      "text = traffic_text estimate (flows s) (n_flow s)"
    using run by (auto simp: env_def split: option.splits sum.splits)
  have "loop_inv env [] \<lparr>host_list = heapify hs, n_flow = 0, flows = [], rng_state = g'\<rparr>"
    using first_arrivals_later[OF hs assms(1) nn] hq.wf_heapify[of hs]
    by (auto simp: loop_inv_def trace_ok_def env_def heapify_def)
  then have init: "\<exists>ts. loop_inv env ts \<lparr>host_list = heapify hs, n_flow = 0, flows = [], rng_state = g'\<rparr>" ..
  have nn': "nonneg (avg_inter_arrival env)" using nn by (simp add: env_def)
  have "(\<exists>ts. loop_inv env ts s) \<and> host_list s = []"
    by (rule gen_loop_invariant[OF s(1), where P = "\<lambda>s. \<exists>ts. loop_inv env ts s", OF init])
      (rule gen_step_inv[OF assms(1) nn'])
  then obtain ts where "loop_inv env ts s" by blast
  then have "text = traffic_text estimate (flows s) (length (flows s)) \<and>
      trace_ok n (fadd time (Fin (of_int base_t))) (flows s) ts"
    using s(2) by (simp add: loop_inv_def env_def)
  then show ?thesis using a0 by blast
qed

text \<open>A small deterministic generator of random numbers, for the examples.\<close>

definition counter_rng :: "nat rng" where
  "counter_rng =
     \<lparr>seeded = nat, random01 = (\<lambda>g. (Fin (1 / 2), g + 1)),
      randint = (\<lambda>a b g. (if a \<le> b then a + int g mod (b - a + 1) else a, g + 1)),
      mlog = (\<lambda>x. Inr (if x = Fin 1 then Fin 0 else Fin (- 1)))\<rparr>"

lemma counter_rng_ok: "rng_ok counter_rng"
proof -
  have "a \<le> b \<Longrightarrow> int g mod (b - a + 1) \<le> b - a" for a b :: int and g
    using pos_mod_bound[of "b - a + 1" "int g"] by linarith
  then show ?thesis
    by (auto simp: rng_ok_def counter_rng_def algebra_simps intro: exI[of _ "2 ^ 52"])
qed

declare redraw.simps [code] gen_loop.simps [code]

theorem generate_sound_witness:
  "\<exists>out avg estimate fs ts.
     generate counter_rng 3 (Fin (1 / 2)) (Fin 8000) (Fin 2000000000)
       \<lparr>cdf_attr = Some (knots [(0, 0), (1000, 100)])\<rparr> 0 = Some (Inr out) \<and>
     inter_arrival (Fin (1 / 2)) (Fin 8000) \<lparr>cdf_attr = Some (knots [(0, 0), (1000, 100)])\<rparr> = Inr avg \<and>
     flow_estimate (Fin 2000000000) avg 3 = Inr estimate \<and> out = traffic_text estimate fs (length fs) \<and>
     trace_ok 3 (fadd (Fin 2000000000) (Fin (of_int base_t))) fs ts"
proof -
  have "case generate counter_rng 3 (Fin (1 / 2)) (Fin 8000) (Fin 2000000000)
       \<lparr>cdf_attr = Some (knots [(0, 0), (1000, 100)])\<rparr> 0 of Some (Inr out) \<Rightarrow> True | _ \<Rightarrow> False"
    by code_simp
  then obtain out where out: "generate counter_rng 3 (Fin (1 / 2)) (Fin 8000) (Fin 2000000000)
       \<lparr>cdf_attr = Some (knots [(0, 0), (1000, 100)])\<rparr> 0 = Some (Inr out)"
    by (auto split: option.splits sum.splits)
  have "setCdf CustomRand_init (knots [(0, 0), (1000, 100)])
      = Inr (True, \<lparr>cdf_attr = Some (knots [(0, 0), (1000, 100)])\<rparr>)"
    by code_simp
  then show ?thesis
    using generate_sound[OF counter_rng_ok _ _ _ _ out, of CustomRand_init "[(0, 0), (1000, 100)]"] out
    by simp
qed

section \<open>Termination\<close>

definition loop_weight :: "int \<Rightarrow> (int \<times> int) list \<Rightarrow> nat" where
  "loop_weight e hs = sum_list (map (\<lambda>(t, i). 1 + nat (e + 1 - t)) hs)"

lemma loop_weight_insort: "loop_weight e (insort x hs) = loop_weight e (x # hs)"
  unfolding loop_weight_def by (induction hs) (auto split: prod.splits)

lemma loop_weight_Cons: "loop_weight e ((t, i) # hs) = 1 + nat (e + 1 - t) + loop_weight e hs"
  by (simp add: loop_weight_def)

text \<open>The state before round \<open>k\<close> of the loop, if the loop gets there.\<close>

primrec rounds :: "'g rng \<Rightarrow> gen_env \<Rightarrow> 'g gen_state \<Rightarrow> nat \<Rightarrow> 'g gen_state option" where
  "rounds G env s 0 = Some s"
| "rounds G env s (Suc k) =
     (case rounds G env s k of
        None \<Rightarrow> None
      | Some s' \<Rightarrow>
          if host_list s' = [] then None
          else case gen_step G env s' of Some (Inr s'') \<Rightarrow> Some s'' | _ \<Rightarrow> None)"

text \<open>All destinations that are drawn in this round are the source.\<close>

definition stuck_round :: "'g rng \<Rightarrow> gen_env \<Rightarrow> 'g gen_state \<Rightarrow> bool" where
  "stuck_round G env s \<longleftrightarrow> host_list s \<noteq> [] \<and>
     (\<exists>d g. int_poisson G (avg_inter_arrival env) (rng_state s) = Inr (d, g) \<and>
        (\<forall>k. fst (randint G 0 (nhost env - 1) ((next_draw G (nhost env) ^^ k) g)) = snd (hd (host_list s))))"

text \<open>The inter-arrival time of this round is \<open>0\<close>.\<close>

definition idle_round :: "'g rng \<Rightarrow> gen_env \<Rightarrow> 'g gen_state \<Rightarrow> bool" where
  "idle_round G env s \<longleftrightarrow> host_list s \<noteq> [] \<and>
     (\<exists>g. int_poisson G (avg_inter_arrival env) (rng_state s) = Inr (0, g))"

lemma gen_step_stuck:
  assumes "host_list s \<noteq> []" shows "gen_step G env s = None \<longleftrightarrow> stuck_round G env s"
proof -
  obtain t src hs where h: "host_list s = (t, src) # hs" using assms by (metis neq_Nil_conv surj_pair)
  show ?thesis
  proof (cases "int_poisson G (avg_inter_arrival env) (rng_state s)")
    case (Inr r)
    obtain d g where r: "r = (d, g)" by (cases r)
    obtain d0 g0 where d0: "randint G 0 (nhost env - 1) g = (d0, g0)" by (cases "randint G 0 (nhost env - 1) g")
    have "gen_step G env s = None \<longleftrightarrow> redraw G (nhost env) src src g = None"
      using h d0 unfolding redraw_miss [of G "nhost env" src g]
      by (auto simp: gen_step_def Inr r split: option.splits prod.splits)
    then show ?thesis using h by (simp add: stuck_round_def redraw_None Inr r)
  qed (use h in \<open>simp add: gen_step_def stuck_round_def\<close>)
qed

lemma gen_loop_round:
  assumes "rounds G env s k = Some s'" shows "gen_loop G env s = gen_loop G env s'"
  using assms
proof (induction k arbitrary: s')
  case (Suc k)
  then obtain s1 where s1: "rounds G env s k = Some s1" "host_list s1 \<noteq> []" "gen_step G env s1 = Some (Inr s')"
    by (auto split: option.splits sum.splits if_splits)
  then have "gen_loop G env s1 = gen_loop G env s'" by (subst gen_loop.simps) simp
  then show ?case using Suc.IH [OF s1(1)] by simp
qed simp

lemma rounds_shift:
  "host_list s \<noteq> [] \<Longrightarrow> gen_step G env s = Some (Inr s') \<Longrightarrow> rounds G env s (Suc k) = rounds G env s' k"
  by (induction k) (simp_all split: option.splits)

text \<open>A loop that returns has a last round.\<close>

lemma gen_loop_last_round:
  assumes "gen_loop G env s = Some r" shows "\<exists>k. rounds G env s k = None"
proof (rule gen_loop.raw_induct [OF _ assms], goal_cases)
  case (1 loop G env s r)
  consider "host_list s = []" | e where "gen_step G env s = Some (Inl e)" |
    s' where "host_list s \<noteq> []" "gen_step G env s = Some (Inr s')" "loop G env s' = Some r"
    using 1(2) by (auto split: if_splits option.splits sum.splits)
  then show ?case
  proof cases
    case (3 s')
    then show ?thesis using 1(1) [OF 3(3)] rounds_shift [OF 3(1,2)] by metis
  qed (auto intro: exI [of _ 1])
qed

lemma gen_loop_all_rounds:
  assumes "gen_loop G env s = None" "\<forall>k s'. rounds G env s k = Some s' \<longrightarrow> \<not> stuck_round G env s'"
  shows "\<exists>s'. rounds G env s k = Some s' \<and> host_list s' \<noteq> [] \<and>
    (\<exists>s''. gen_step G env s' = Some (Inr s'') \<and> rounds G env s (Suc k) = Some s'')"
proof (induction k)
  have step: "\<exists>s''. host_list s' \<noteq> [] \<and> gen_step G env s' = Some (Inr s'') \<and> rounds G env s (Suc k) = Some s''"
    if r: "rounds G env s k = Some s'" for k s'
  proof -
    have n: "gen_loop G env s' = None" using gen_loop_round [OF r] assms(1) by simp
    then have h: "host_list s' \<noteq> []" by (auto simp: gen_loop.simps [of G env s'])
    then have "gen_step G env s' \<noteq> None" using assms(2) r gen_step_stuck by blast
    then obtain s'' where "gen_step G env s' = Some (Inr s'')"
      using n h by (auto simp: gen_loop.simps [of G env s'] split: sum.splits)
    then show ?thesis using h r by simp
  qed
  case 0
  show ?case using step [of 0 s] by (simp del: rounds.simps(2))
  case (Suc k)
  then show ?case using step by blast
qed

lemma gen_step_weight:
  assumes "rng_ok G" "nonneg (avg_inter_arrival env)" "end_time env = Fin e"
    and "host_list s \<noteq> []" "gen_step G env s = Some (Inr s')"
  shows "loop_weight \<lfloor>e\<rfloor> (host_list s') \<le> loop_weight \<lfloor>e\<rfloor> (host_list s) \<and>
    (loop_weight \<lfloor>e\<rfloor> (host_list s') = loop_weight \<lfloor>e\<rfloor> (host_list s) \<longrightarrow> idle_round G env s)"
proof -
  obtain t src hs where h: "host_list s = (t, src) # hs" using assms(4) by (metis neq_Nil_conv surj_pair)
  obtain inter_t dst g3 g where d: "int_poisson G (avg_inter_arrival env) (rng_state s) = Inr (inter_t, g)"
      and nn: "0 \<le> inter_t"
      and st: "flt (end_time env) (Fin (of_int (t + inter_t))) \<and> s' = s\<lparr>host_list := hs, rng_state := g3\<rparr> \<or>
        \<not> flt (end_time env) (Fin (of_int (t + inter_t))) \<and>
        (\<exists>size. 1 \<le> size \<and> s' = s\<lparr>host_list := insort (t + inter_t, src) hs, n_flow := n_flow s + 1,
          flows := flows s @ [\<lparr>fl_src = src, fl_dst = dst, fl_size = size, fl_t = Fin (seconds t)\<rparr>],
          rng_state := g3\<rparr>)"
    by (rule gen_step_cases [OF assms(5) h]) (use assms(1,2) in blast)
  have "t + inter_t \<le> \<lfloor>e\<rfloor>" if "\<not> flt (end_time env) (Fin (of_int (t + inter_t)))"
    using that by (simp add: assms(3) le_floor_iff)
  moreover have "idle_round G env s" if "inter_t = 0" using that d h by (auto simp: idle_round_def)
  ultimately show ?thesis
    using st nn by (cases "inter_t = 0") (auto simp: h loop_weight_insort loop_weight_Cons)
qed

lemma nat_settles:
  fixes f :: "nat \<Rightarrow> nat" assumes "\<And>k. f (Suc k) \<le> f k" shows "\<exists>m. \<forall>k \<ge> m. f (Suc k) = f k"
proof -
  have "decseq f" using assms by (simp add: decseq_Suc_iff)
  obtain m where m: "\<And>k. f m \<le> f k" using exists_least_iff [of "\<lambda>n. \<exists>k. f k = n"] by (metis not_le)
  then have "f k = f m" if "m \<le> k" for k using \<open>decseq f\<close> that by (simp add: antisym decseqD)
  then show ?thesis by (metis le_Suc_eq)
qed

text \<open>
  C4. With a generator of random numbers that keeps its documented ranges the main loop fails to
  return for two reasons only: in some round the source is drawn as the destination for ever, or from
  some round on all inter-arrival times are \<open>0\<close>.  Both are possible for a generator of random numbers
  (\<open>int(-log(1 - 0.0) * avg)\<close> is \<open>0\<close>), and each of them makes the loop run for ever.
\<close>

theorem gen_loop_returns:
  assumes "rng_ok G" and "nonneg (avg_inter_arrival env)" and "end_time env = Fin e"
  shows "gen_loop G env s = None \<longleftrightarrow>
    (\<exists>k s'. rounds G env s k = Some s' \<and> stuck_round G env s') \<or>
    (\<exists>m. \<forall>k \<ge> m. \<exists>s'. rounds G env s k = Some s' \<and> idle_round G env s')"
proof (intro iffI)
  assume *: "gen_loop G env s = None"
  show "(\<exists>k s'. rounds G env s k = Some s' \<and> stuck_round G env s') \<or>
    (\<exists>m. \<forall>k \<ge> m. \<exists>s'. rounds G env s k = Some s' \<and> idle_round G env s')"
  proof (intro disjCI)
    assume "\<not> (\<exists>m. \<forall>k \<ge> m. \<exists>s'. rounds G env s k = Some s' \<and> idle_round G env s')"
    moreover have "\<exists>m. \<forall>k \<ge> m. \<exists>s'. rounds G env s k = Some s' \<and> idle_round G env s'"
      if ns: "\<forall>k s'. rounds G env s k = Some s' \<longrightarrow> \<not> stuck_round G env s'"
    proof -
      note all = gen_loop_all_rounds [OF * ns]
      define w where "w k = loop_weight \<lfloor>e\<rfloor> (host_list (the (rounds G env s k)))" for k
      have w: "w (Suc k) \<le> w k \<and> (w (Suc k) = w k \<longrightarrow> (\<exists>s'. rounds G env s k = Some s' \<and> idle_round G env s'))" for k
        using all [of k] gen_step_weight [OF assms] by (auto simp: w_def simp del: rounds.simps)
      then show ?thesis using nat_settles [of w] by blast
    qed
    ultimately show "\<exists>k s'. rounds G env s k = Some s' \<and> stuck_round G env s'" by blast
  qed
next
  assume "(\<exists>k s'. rounds G env s k = Some s' \<and> stuck_round G env s') \<or>
    (\<exists>m. \<forall>k \<ge> m. \<exists>s'. rounds G env s k = Some s' \<and> idle_round G env s')"
  then show "gen_loop G env s = None"
  proof (elim disjE exE conjE)
    fix k s' assume s': "rounds G env s k = Some s'" "stuck_round G env s'"
    then have h: "host_list s' \<noteq> []" by (simp add: stuck_round_def)
    then have "gen_loop G env s' = None"
      using gen_step_stuck [OF h, THEN iffD2, OF s'(2)] by (subst gen_loop.simps) simp
    then show ?thesis using gen_loop_round [OF s'(1)] by simp
  next
    fix m assume m: "\<forall>k \<ge> m. \<exists>s'. rounds G env s k = Some s' \<and> idle_round G env s'"
    have none: "rounds G env s (k + j) = None" if "rounds G env s k = None" for k j
      using that by (induction j) simp_all
    show ?thesis
    proof (rule ccontr)
      assume "gen_loop G env s \<noteq> None"
      then obtain k where "rounds G env s k = None" using gen_loop_last_round by blast
      then have "rounds G env s (k + m) = None" by (rule none)
      then show False using m [rule_format, of "k + m"] by simp
    qed
  qed
qed

lemma counter_poisson: "int_poisson counter_rng (Fin 1000) g = Inr (1000, g + 1)"
proof -
  have "fsub (Fin 1) (Fin (1 / 2)) = Fin (1 / 2)" "fmul (Fin 1) (Fin 1000) = Fin 1000" by code_simp+
  then show ?thesis by (simp add: int_poisson_def poisson_def counter_rng_def)
qed

text \<open>A generator of random numbers whose \<open>random()\<close> is always \<open>0\<close>.\<close>

definition zero_rng :: "nat rng" where
  "zero_rng = counter_rng\<lparr>random01 := \<lambda>g. (Fin 0, g + 1)\<rparr>"

lemma zero_rng_ok: "rng_ok zero_rng"
  using counter_rng_ok by (auto simp: rng_ok_def zero_rng_def intro: exI [of _ 0])

definition small_env :: "int \<Rightarrow> gen_env" where
  "small_env n = \<lparr>nhost = n, avg_inter_arrival = Fin 1000, end_time = Fin 2000005000,
     sampler = \<lparr>cdf_attr = Some (knots [(0, 0), (1000, 100)])\<rparr>\<rparr>"

definition small_state :: "(int \<times> int) list \<Rightarrow> nat gen_state" where
  "small_state hs = \<lparr>host_list = hs, n_flow = 0, flows = [], rng_state = 0\<rparr>"

lemma zero_round:
  assumes "host_list s = [(2000000000, 0)]"
  shows "idle_round zero_rng (small_env 2) s \<and>
    (\<exists>s'. gen_step zero_rng (small_env 2) s = Some (Inr s') \<and> host_list s' = [(2000000000, 0)])"
proof -
  have "fsub (Fin 1) (Fin 0) = Fin 1" "fmul (Fin 0) (Fin 1000) = Fin 0" by code_simp+
  then have p: "int_poisson zero_rng (Fin 1000) g = Inr (0, g + 1)" for g
    by (simp add: int_poisson_def poisson_def zero_rng_def counter_rng_def)
  have "rand_value (sampler (small_env 2)) (Fin 0) = Inr (Some (Fin 0))" by code_simp
  then have sz: "draw_size zero_rng (sampler (small_env 2)) g = Inr (1, g + 1)" for g
    by (simp add: draw_size_def zero_rng_def of_option_def)
  have ft: "float_of_int 2000000000 = Inr (Fin 2000000000)" by code_simp
  have ri: "randint zero_rng 0 1 g = (int g mod 2, g + 1)" for g
    by (simp add: zero_rng_def counter_rng_def)
  have rd: "redraw zero_rng 2 0 0 g \<noteq> None" for g
  proof (cases "int g mod 2 = 0")
    case True
    then have "int (Suc g) mod 2 \<noteq> 0" by presburger
    then show ?thesis using True by (simp add: redraw_miss ri redraw_hit)
  qed (simp add: redraw_miss ri redraw_hit)
  have "redraw zero_rng 2 0 d g \<noteq> None" for d g using rd by (cases "d = 0") (simp_all add: redraw_hit)
  then obtain d g where "redraw zero_rng 2 0 (int (rng_state s + 1) mod 2) (rng_state s + 2) = Some (d, g)" by fastforce
  then show ?thesis
    using assms by (simp add: idle_round_def gen_step_def p ri sz ft small_env_def heapreplace_def sz [unfolded small_env_def, simplified])
qed

text \<open>A run with steady arrivals returns; with a generator of zeros the loop does not.\<close>

theorem gen_loop_returns_witness:
  "gen_loop counter_rng (small_env 3) (small_state [(2000000100, 0), (2000000200, 1), (2000000300, 2)]) \<noteq> None \<and>
   gen_loop zero_rng (small_env 2) (small_state [(2000000000, 0)]) = None"
proof (intro conjI)
  let ?s = "small_state [(2000000100, 0), (2000000200, 1), (2000000300, 2)]"
  have "\<not> idle_round counter_rng (small_env 3) s" for s
    by (simp add: idle_round_def small_env_def counter_poisson)
  moreover have "\<not> stuck_round counter_rng (small_env 3) s" for s
  proof -
    have "\<not> (\<forall>k. fst (randint counter_rng 0 2 ((next_draw counter_rng 3 ^^ k) g)) = i)" for g and i :: int
    proof
      assume a: "\<forall>k. fst (randint counter_rng 0 2 ((next_draw counter_rng 3 ^^ k) g)) = i"
      show False
        using a [rule_format, of 0] a [rule_format, of 1] by (simp add: counter_rng_def next_draw_def) presburger
    qed
    then show ?thesis by (simp add: stuck_round_def small_env_def)
  qed
  ultimately show "gen_loop counter_rng (small_env 3) ?s \<noteq> None"
    using gen_loop_returns [OF counter_rng_ok, of "small_env 3" 2000005000 ?s] by (simp add: small_env_def) blast
  have "\<exists>s'. rounds zero_rng (small_env 2) (small_state [(2000000000, 0)]) k = Some s' \<and>
      host_list s' = [(2000000000, 0)]" for k
  proof (induction k)
    case (Suc k)
    then show ?case using zero_round by fastforce
  qed (simp add: small_state_def)
  then show "gen_loop zero_rng (small_env 2) (small_state [(2000000000, 0)]) = None"
    using gen_loop_returns [OF zero_rng_ok, of "small_env 2" 2000005000] zero_round
    by (simp add: small_env_def) blast
qed

text \<open>
  With a single host the generator never returns: the only destination \<open>randint(0, 0)\<close> can draw
  is the source, so the loop that redraws it runs forever as soon as one arrival is pending.
\<close>

theorem single_host_diverges:
  assumes "rng_ok G" and "nhost env = 1" and "host_list s = [(t, 0)]"
    and "int_poisson G (avg_inter_arrival env) (rng_state s) = Inr (d, g)"
  shows "gen_loop G env s = None"
proof -
  obtain d0 g2 where "randint G 0 0 g = (d0, g2)" by (cases "randint G 0 0 g")
  moreover from this have "d0 = 0"
    using assms(1) unfolding rng_ok_def by (metis fst_conv order_antisym order_refl)
  ultimately have "gen_step G env s = None"
    using assms redraw_single_host[OF assms(1)] by (simp add: gen_step_def)
  then show ?thesis using assms(3) by (subst gen_loop.simps) simp
qed

theorem single_host_diverges_witness:
  "gen_loop counter_rng \<lparr>nhost = 1, avg_inter_arrival = Fin 1000, end_time = Fin 3000000000,
      sampler = \<lparr>cdf_attr = Some (knots [(0, 0), (1000, 100)])\<rparr>\<rparr>
     \<lparr>host_list = [(2000001000, 0)], n_flow = 0, flows = [], rng_state = 0\<rparr> = None"
  by (rule single_host_diverges[OF counter_rng_ok]) (simp_all add: counter_poisson)

section \<open>The header that is overwritten\<close>

definition header_count :: "string \<Rightarrow> int option" where
  "header_count file = py_int (takeWhile (\<lambda>c. c \<noteq> CHR 0x0A) file)"

lemma py_strip_trailing:
  assumes "ds \<noteq> []" "\<forall>c \<in> set ds. \<not> is_ws c" shows "py_strip (ds @ '' '') = ds"
proof -
  have "dropWhile is_ws (ds @ '' '') = ds @ '' ''" using assms by (cases ds) auto
  moreover have "is_ws (CHR '' '')" by (simp add: is_ws_def)
  moreover have "dropWhile is_ws (rev ds) = rev ds" using assms by (intro dropWhile_ws_clean) simp
  ultimately show ?thesis by (simp add: py_strip_def py_rstrip_def)
qed

lemma foldl_digits_ge:
  "foldl (\<lambda>a c. 10 * a + digit_val c) n ds \<ge> n * 10 ^ length ds"
proof (induction ds arbitrary: n)
  case (Cons d ds)
  have "n * 10 ^ length (d # ds) \<le> (10 * n + digit_val d) * 10 ^ length ds" by (simp add: algebra_simps)
  also have "\<dots> \<le> foldl (\<lambda>a c. 10 * a + digit_val c) (10 * n + digit_val d) ds" by (rule Cons.IH)
  finally show ?case by simp
qed simp

lemma py_int_digits:
  assumes "ds \<noteq> []" "\<forall>c \<in> set ds. is_digit c" "py_strip s = ds"
  shows "py_int s = Some (int (foldl (\<lambda>a c. 10 * a + digit_val c) 0 ds))"
proof -
  obtain c cs where ds: "ds = c # cs" using assms(1) by (cases ds) auto
  have "parse_digits False 0 (ds @ []) = Some (foldl (\<lambda>a c. 10 * a + digit_val c) 0 ds)"
    using parse_digits_append[OF assms(2), of False 0 "[]"] assms(1) by simp
  moreover have "is_digit c" using assms(2) ds by simp
  ultimately show ?thesis using assms(3) is_digit_not[of c] by (simp add: py_int_def ds)
qed

lemma takeWhile_line: "\<forall>c \<in> set w. c \<noteq> CHR 0x0A \<Longrightarrow> takeWhile (\<lambda>c. c \<noteq> CHR 0x0A) (w @ nl @ r) = w"
  by (simp add: nl_def takeWhile_append2)

lemma digits_clean:
  "\<forall>c \<in> set ds. is_digit c \<Longrightarrow> (\<forall>c \<in> set ds. \<not> is_ws c) \<and> (\<forall>c \<in> set ds. c \<noteq> CHR 0x0A)"
  by (auto simp: is_digit_def is_ws_def Let_def)

lemma parse_digits_ws: "c \<in> set s \<Longrightarrow> is_ws c \<Longrightarrow> parse_digits ok acc s = None"
proof (induction s arbitrary: ok acc)
  case (Cons d s)
  have "\<not> is_digit c" "c \<noteq> CHR ''_''" using Cons.prems(2) by (auto simp: is_digit_def is_ws_def Let_def)
  then show ?case using Cons by auto
qed simp

lemma py_int_inner_space:
  assumes "\<not> is_ws h" "v \<noteq> []" "\<forall>c \<in> set v. \<not> is_ws c"
  shows "py_int (h # u @ CHR '' '' # v) = None"
proof -
  have ws: "is_ws (CHR '' '')" by (simp add: is_ws_def)
  obtain w l where v: "v = w @ [l]" "\<not> is_ws l" using assms(2,3) by (cases v rule: rev_cases) auto
  have s: "py_strip (h # u @ CHR '' '' # v) = h # u @ CHR '' '' # v"
    using assms(1) v(2) by (simp add: py_strip_def py_rstrip_def v(1))
  have none: "parse_digits ok acc s = None" if "CHR '' '' \<in> set s" for ok acc s
    using parse_digits_ws [OF that ws] .
  show ?thesis using none by (auto simp: py_int_def s)
qed

lemma fmt_fixed_word: "fmt_fixed 9 x \<noteq> [] \<and> (\<forall>c \<in> set (fmt_fixed 9 x). \<not> is_ws c)"
proof (cases x)
  case (Fin q)
  have "fmt_fixed 9 (Fin q) \<noteq> []"
    using fmt_decimal_head[of 9] by (metis append_is_Nil_conv fmt_fixed.simps(1) list.distinct(1))
  then show ?thesis using fmt_fixed_clean [of _ 9 q] Fin by blast
qed (simp_all add: is_ws_def)

text \<open>A row is a part of at least seven characters, a space and the time; it has no line break.\<close>

lemma flow_str_parts:
  obtains p where "flow_str f = p @ CHR '' '' # fmt_fixed 9 (fl_t f)" "7 \<le> length p"
    "\<forall>c \<in> set (flow_str f). c \<noteq> CHR 0x0A"
proof
  let ?p = "show_int (fl_src f) @ '' '' @ show_int (fl_dst f) @ '' 3 '' @ show_int (fl_size f)"
  show "flow_str f = ?p @ CHR '' '' # fmt_fixed 9 (fl_t f)" by (simp add: flow_str_def)
  have "1 \<le> length (show_int n)" for n by (simp add: Suc_le_eq)
  from this [of "fl_src f"] this [of "fl_dst f"] this [of "fl_size f"] show "7 \<le> length ?p" by simp
  have ws: "is_ws (CHR 0x0A)" by (simp add: is_ws_def)
  then show "\<forall>c \<in> set (flow_str f). c \<noteq> CHR 0x0A"
    using fmt_fixed_word [of "fl_t f"] show_int_no_ws [of "CHR 0x0A"] by (auto simp: flow_str_def)
qed

lemma length_show_nat_le: "n < 10 ^ k \<Longrightarrow> 1 \<le> k \<Longrightarrow> length (show_nat n) \<le> k"
proof (induction k arbitrary: n)
  case (Suc k)
  show ?case
  proof (cases "n < 10")
    case False
    then have "n div 10 < 10 ^ k" "1 \<le> k" using Suc.prems(1) by (cases k; auto simp: less_mult_imp_div_less)+
    then show ?thesis using Suc.IH [of "n div 10"] by (subst show_nat.simps) simp
  qed (subst show_nat.simps, simp)
qed simp

lemma foldl_digits_0:
  "\<forall>c \<in> set ds. is_digit c \<Longrightarrow>
    foldl (\<lambda>a c. 10 * a + digit_val c) 0 ds = 0 \<longleftrightarrow> set ds \<subseteq> {CHR ''0''}"
proof (induction ds)
  case (Cons d ds)
  show ?case
  proof (cases "digit_val d = 0")
    case True
    then have "of_char d = (48 :: nat)" using Cons.prems by (auto simp: is_digit_def digit_val_def Let_def)
    then have "of_char d = (of_char (CHR ''0'') :: nat)" by simp
    then have "d = CHR ''0''" by (simp only: of_char_eq_iff)
    then show ?thesis using Cons by (simp add: digit_val_def)
  next
    case False
    then have "0 < digit_val d * 10 ^ length ds" by simp
    then have "0 < foldl (\<lambda>a c. 10 * a + digit_val c) (digit_val d) ds"
      using foldl_digits_ge [of "digit_val d" ds] by (rule less_le_trans)
    moreover have "d \<noteq> CHR ''0''" using False by (auto simp: digit_val_def)
    ultimately show ?thesis by simp
  qed
qed simp

text \<open>
  C6. The number of rows is written over the digits of the estimate.  If there are rows (fewer than
  \<open>10 ^ 10\<close> of them), the first line is read back as their number exactly if the number has as many
  digits as the estimate or one more: with fewer digits the tail of the estimate stays behind it, with
  more digits the number overwrites the line break.  Without rows the first line is read back as \<open>0\<close>
  exactly if all digits of the estimate after the first are \<open>0\<close>.
\<close>

theorem overwritten_header:
  assumes "0 \<le> estimate" and "length fs < 10 ^ 10"
  shows "header_count (traffic_text estimate fs (length fs)) = Some (int (length fs)) \<longleftrightarrow>
    (if fs = [] then set (tl (show_int estimate)) \<subseteq> {CHR ''0''}
     else length (show_int estimate) \<le> length (show_nat (length fs)) \<and>
       length (show_nat (length fs)) \<le> length (show_int estimate) + 1)"
proof -
  define n where "n = length fs"
  define e where "e = show_nat (nat estimate)"
  have e: "show_int estimate = e" using assms(1) by (simp add: show_int_def e_def)
  have ed: "\<forall>c \<in> set e. is_digit c" and nd: "\<forall>c \<in> set (show_nat n). is_digit c"
    by (auto simp: e_def intro: show_nat_is_digit)
  have ene: "e \<noteq> []" by (simp add: e_def)
  let ?rows = "concat (map (\<lambda>f. flow_str f @ nl) fs)"
  consider "length (show_nat n) = length e + 1" | "length (show_nat n) \<le> length e" | "length e + 2 \<le> length (show_nat n)"
    by linarith
  then show ?thesis
  proof cases
    case 1
    then have "traffic_text estimate fs n = show_nat n @ nl @ ?rows"
      by (simp add: traffic_text_def overwrite_def e)
    moreover have "py_int (show_nat n) = Some (int n)"
      using py_int_digits[OF _ nd py_strip_clean] digits_clean[OF nd] by (simp add: foldl_show_nat)
    ultimately have "header_count (traffic_text estimate fs n) = Some (int n)"
      using takeWhile_line digits_clean[OF nd] by (simp add: header_count_def)
    moreover have "fs \<noteq> []" using 1 ene by (auto simp: n_def show_nat.simps [of 0])
    ultimately show ?thesis using 1 e by (simp add: n_def)
  next
    case 2
    define r where "r = drop (length (show_nat n)) e"
    have rd: "\<forall>c \<in> set (show_nat n @ r). is_digit c" using nd ed by (auto simp: r_def dest: in_set_dropD)
    have "traffic_text estimate fs n = ((show_nat n @ r) @ '' '') @ nl @ ?rows"
      using 2 by (simp add: traffic_text_def overwrite_def e r_def)
    moreover have "\<forall>c \<in> set ((show_nat n @ r) @ '' ''). c \<noteq> CHR 0x0A"
      using digits_clean[OF rd] by auto
    ultimately have "takeWhile (\<lambda>c. c \<noteq> CHR 0x0A) (traffic_text estimate fs n) = (show_nat n @ r) @ '' ''"
      using takeWhile_line by metis
    moreover have "py_strip ((show_nat n @ r) @ '' '') = show_nat n @ r"
      using digits_clean[OF rd] by (intro py_strip_trailing) auto
    ultimately have h: "header_count (traffic_text estimate fs n)
        = Some (int (foldl (\<lambda>a c. 10 * a + digit_val c) n r))"
      using py_int_digits[of "show_nat n @ r"] rd by (simp add: header_count_def foldl_show_nat)
    consider "n = 0" | "0 < n" "length e \<le> length (show_nat n)" | "0 < n" "length (show_nat n) < length e" by linarith
    then show ?thesis
    proof cases
      case 1
      then have "r = tl e" "fs = []" using 2 by (auto simp: r_def n_def show_nat.simps [of 0] drop_Suc)
      moreover have "\<forall>c \<in> set r. is_digit c" using rd by simp
      ultimately show ?thesis using h e foldl_digits_0 [of r] 1 by (simp add: n_def)
    next
      case 2
      then show ?thesis using 2 \<open>length (show_nat n) \<le> length e\<close> h e by (auto simp: r_def n_def)
    next
      case 3
      then have "(10::nat) ^ 1 \<le> 10 ^ length r" by (intro power_increasing) (auto simp: r_def)
      then have "n * 10 \<le> n * 10 ^ length r" by simp
      then have "n < foldl (\<lambda>a c. 10 * a + digit_val c) n r"
        using foldl_digits_ge[of n r] 3 by linarith
      then show ?thesis using 3 h e by (auto simp: n_def)
    qed
  next
    case 3
    have "length (show_nat n) \<le> 10" using assms(2) by (intro length_show_nat_le) (simp_all add: n_def)
    then have k: "length (show_nat n) - length e - 2 \<le> 7" using ene by (cases e) auto
    obtain f fs' where fs: "fs = f # fs'" using 3 by (cases fs) (auto simp: n_def show_nat.simps [of 0])
    obtain p where p: "flow_str f = p @ CHR '' '' # fmt_fixed 9 (fl_t f)" "7 \<le> length p"
      "\<forall>c \<in> set (flow_str f). c \<noteq> CHR 0x0A" by (rule flow_str_parts)
    define u where "u = drop (length (show_nat n) - length e - 2) p"
    have "drop (length (show_nat n)) (e @ '' '' @ nl @ ?rows) = drop (length (show_nat n) - length e - 2) ?rows"
      using 3 by (simp add: nl_def drop_Cons' numeral_2_eq_2)
    also have "\<dots> = (u @ CHR '' '' # fmt_fixed 9 (fl_t f)) @ nl @ concat (map (\<lambda>f. flow_str f @ nl) fs')"
      using k p(2) by (simp add: fs p(1) u_def)
    finally have "traffic_text estimate fs n
        = (show_nat n @ u @ CHR '' '' # fmt_fixed 9 (fl_t f)) @ nl @ concat (map (\<lambda>f. flow_str f @ nl) fs')"
      by (simp add: traffic_text_def overwrite_def e)
    moreover have "\<forall>c \<in> set (show_nat n @ u @ CHR '' '' # fmt_fixed 9 (fl_t f)). c \<noteq> CHR 0x0A"
      using digits_clean [OF nd] p(1,3) by (auto simp: u_def dest: in_set_dropD)
    ultimately have "header_count (traffic_text estimate fs n)
        = py_int (show_nat n @ u @ CHR '' '' # fmt_fixed 9 (fl_t f))"
      using takeWhile_line by (metis header_count_def)
    also obtain h t where ht: "show_nat n = h # t" by (cases "show_nat n") simp_all
    then have "\<not> is_ws h" using digits_clean [OF nd] by simp
    then have "py_int (show_nat n @ u @ CHR '' '' # fmt_fixed 9 (fl_t f)) = None"
      using py_int_inner_space [of h "fmt_fixed 9 (fl_t f)" "t @ u"] fmt_fixed_word by (simp add: ht)
    finally show ?thesis using 3 e by (simp add: n_def fs)
  qed
qed

theorem overwritten_header_witness:
  "header_count (traffic_text 10 [\<lparr>fl_src = 0, fl_dst = 1, fl_size = 5, fl_t = Fin 2\<rparr>] 1) \<noteq> Some 1 \<and>
   header_count (traffic_text 7 [\<lparr>fl_src = 0, fl_dst = 1, fl_size = 5, fl_t = Fin 2\<rparr>] 1) = Some 1 \<and>
   header_count (traffic_text 1000 [] 0) = Some 0 \<and> header_count (traffic_text 1010 [] 0) \<noteq> Some 0"
  using overwritten_header [of 10 "[\<lparr>fl_src = 0, fl_dst = 1, fl_size = 5, fl_t = Fin 2\<rparr>]"]
    overwritten_header [of 7 "[\<lparr>fl_src = 0, fl_dst = 1, fl_size = 5, fl_t = Fin 2\<rparr>]"]
    overwritten_header [of 1000 "[]"] overwritten_header [of 1010 "[]"]
  by (simp add: show_int_def show_nat.simps digit_char_def)

text \<open>With 987 rows over an estimate of 1000 the first line reads 9870.\<close>

lemma header_987: "header_count (traffic_text 1000 [] 987) = Some 9870"
  by code_simp

end
