(* ===== verification/RunArgs.thy ===== *)
theory RunArgs
  imports TrafficGen
begin

text \<open>
  The command line of \<open>run.py\<close>: the options with their defaults, the tables of modes, and the checks
  that \<open>main\<close> makes before it touches a file. The namespace \<open>args\<close> is a record of six records, in
  the groups of the source. A run of checks is a list of pairs (exception, condition that must
  hold); \<open>require_all\<close> raises the first whose condition fails, as the sequence of \<open>if ... raise\<close> does.
\<close>

section \<open>Options and defaults\<close>

record core_args =
  cc :: string
  lb :: string
  pfc :: int
  irn :: int
  simul_time :: string
  buffer_mb :: string
  netload :: int
  bw :: string
  topo :: string
  cdf_name :: string
  job_file :: "string option"
  flow_file :: "string option"
  enforce_win :: int
  sw_monitoring_interval :: int
  seed :: int
  run_id :: "string option"

record degrade_args =
  degrade_link :: "string option"
  degrade_frac :: pyfloat
  degrade_direction :: string
  degrade_mode :: string
  degrade_start_us :: int
  flap_period_us :: int
  flap_frac_hi :: pyfloat

record sflowlet_args =
  letflow_flowlet_timeout_us :: int
  sflowlet_weight_mode :: string
  sflowlet_est_time_us :: int
  sflowlet_ewma_beta :: pyfloat
  sflowlet_persist_windows :: int
  sflowlet_degrade_ratio :: pyfloat
  sflowlet_backlog_thresh_bytes :: int
  sflowlet_flowlet_timeout_us :: int
  sflowlet_switch_log :: int
  sflowlet_ooo_log :: int

record v5_args =
  v5_nsub :: int
  v5_chunk_bytes :: int
  v5_size_gate_bytes :: int
  v5_oracle_policy :: string
  v5_policy :: "string option"
  v5_oracle_bad_spine :: int
  v5_chunk_commit_rate_gbps :: pyfloat
  v5_chunk_log :: int
  v5_qp_pool :: int
  v5_qp_pool_size :: int
  v5_wqe_log :: int
  v5_qp_state_log :: int
  v5_estimator_enable :: int
  v5_estimator_log :: int
  v5_estimator_stale_periods :: int
  v5_probe_period_us :: int
  v5_probe_bytes :: int
  v5_binary_hold_us :: int
  v5_seqbalance_phi_us :: int

record host_args =
  host_sensing_enable :: int
  host_sensing_app_lanes :: string
  host_sensing_target_app_id :: int
  host_sensing_target_source :: int
  host_sensing_target_destination :: int
  host_sensing_target_pg :: int
  host_sensing_target_lane :: int
  host_sensing_truth_link :: string
  host_sensing_nominal_rate_gbps :: pyfloat
  host_sensing_delivery_window_us :: int
  host_sensing_ewma_beta :: pyfloat
  host_sensing_probe_bytes :: int
  host_sensing_probe_period_us :: int
  host_sensing_probe_timeout_us :: int
  host_sensing_warmup_us :: int
  host_sensing_min_baseline_samples :: int

record diag_args =
  native_qp_mechanism_log :: int
  conweave_causal_trace :: int
  native_resource_log :: int
  monitor_until_complete :: int
  native_diag_log :: int
  native_diag_interval_ns :: int

record run_args =
  core :: core_args
  degr :: degrade_args
  sfl :: sflowlet_args
  v5 :: v5_args
  host :: host_args
  diag :: diag_args

text \<open>A float literal of the source.\<close>

definition lit :: "rat \<Rightarrow> pyfloat" where
  "lit x = fround x"

definition core_defaults :: core_args where
  "core_defaults =
     \<lparr>cc = ''dcqcn'', lb = ''fecmp'', pfc = 1, irn = 0, simul_time = ''0.1'', buffer_mb = ''9'',
      netload = 40, bw = ''100'', topo = ''leaf_spine_128_100G'', cdf_name = ''AliStorage2019'',
      job_file = None, flow_file = None, enforce_win = 0, sw_monitoring_interval = 10000, seed = 1,
      run_id = None\<rparr>"

definition degrade_defaults :: degrade_args where
  "degrade_defaults =
     \<lparr>degrade_link = None, degrade_frac = lit (6 / 10), degrade_direction = ''both'',
      degrade_mode = ''static'', degrade_start_us = 5000, flap_period_us = 20000, flap_frac_hi = Fin 1\<rparr>"

definition sflowlet_defaults :: sflowlet_args where
  "sflowlet_defaults =
     \<lparr>letflow_flowlet_timeout_us = 100, sflowlet_weight_mode = ''weighted'', sflowlet_est_time_us = 200,
      sflowlet_ewma_beta = Fin (1 / 64), sflowlet_persist_windows = 3,
      sflowlet_degrade_ratio = lit (85 / 100), sflowlet_backlog_thresh_bytes = 0,
      sflowlet_flowlet_timeout_us = 100, sflowlet_switch_log = 0, sflowlet_ooo_log = 0\<rparr>"

definition v5_defaults :: v5_args where
  "v5_defaults =
     \<lparr>v5_nsub = 1, v5_chunk_bytes = 0, v5_size_gate_bytes = 104000, v5_oracle_policy = ''uniform'',
      v5_policy = None, v5_oracle_bad_spine = 0, v5_chunk_commit_rate_gbps = Fin 100, v5_chunk_log = 0,
      v5_qp_pool = 0, v5_qp_pool_size = 4, v5_wqe_log = 0, v5_qp_state_log = 0, v5_estimator_enable = 0,
      v5_estimator_log = 0, v5_estimator_stale_periods = 5, v5_probe_period_us = 0, v5_probe_bytes = 0,
      v5_binary_hold_us = 0, v5_seqbalance_phi_us = 32\<rparr>"

definition host_defaults :: host_args where
  "host_defaults =
     \<lparr>host_sensing_enable = 0, host_sensing_app_lanes = [], host_sensing_target_app_id = 0,
      host_sensing_target_source = 0, host_sensing_target_destination = 8, host_sensing_target_pg = 3,
      host_sensing_target_lane = 0, host_sensing_truth_link = ''16,18'',
      host_sensing_nominal_rate_gbps = Fin 100, host_sensing_delivery_window_us = 200,
      host_sensing_ewma_beta = Fin (1 / 4), host_sensing_probe_bytes = 4096,
      host_sensing_probe_period_us = 200, host_sensing_probe_timeout_us = 1000,
      host_sensing_warmup_us = 5000, host_sensing_min_baseline_samples = 20\<rparr>"

definition diag_defaults :: diag_args where
  "diag_defaults =
     \<lparr>native_qp_mechanism_log = 0, conweave_causal_trace = 0, native_resource_log = 0,
      monitor_until_complete = 0, native_diag_log = 0, native_diag_interval_ns = 10000\<rparr>"

definition default_args :: run_args where
  "default_args =
     \<lparr>core = core_defaults, degr = degrade_defaults, sfl = sflowlet_defaults, v5 = v5_defaults,
      host = host_defaults, diag = diag_defaults\<rparr>"

section \<open>Tables\<close>

definition cc_modes :: "string \<Rightarrow> int option" where
  "cc_modes = map_of [(''dcqcn'', 1), (''hpcc'', 3), (''timely'', 7), (''dctcp'', 8)]"

definition lb_modes :: "string \<Rightarrow> int option" where
  "lb_modes = map_of
     [(''fecmp'', 0), (''drill'', 2), (''conga'', 3), (''letflow'', 6), (''conweave'', 9), (''sflowlet'', 11)]"

definition topo2bdp :: "string \<Rightarrow> int option" where
  "topo2bdp = map_of
     [(''leaf_spine_128_100G_OS2'', 104000), (''leaf_spine_16_100G_OS2'', 104000),
      (''fat_k8_100G_OS2'', 156000)]"

definition lookup_key :: "(string \<Rightarrow> 'a option) \<Rightarrow> string \<Rightarrow> 'a res" where
  "lookup_key d k = of_option (KeyError k) (d k)"

section \<open>Sequences of checks\<close>

fun require_all :: "(exn \<times> bool) list \<Rightarrow> unit res" where
  "require_all [] = Inr ()"
| "require_all ((e, ok) # cs) = (if ok then require_all cs else Inl e)"

lemma require_all_Inr_iff: "require_all cs = Inr u \<longleftrightarrow> list_all snd cs"
  by (induction cs rule: require_all.induct) auto

lemma require_all_Inl: "require_all cs = Inl e \<Longrightarrow> \<exists>us vs. cs = us @ (e, False) # vs \<and> list_all snd us"
proof (induction cs rule: require_all.induct)
  case (2 e' ok cs)
  show ?case
  proof (cases ok)
    case True
    then obtain us vs where "cs = us @ (e, False) # vs" "list_all snd us" using 2 by auto
    then have "(e', ok) # cs = ((e', ok) # us) @ (e, False) # vs \<and> list_all snd ((e', ok) # us)"
      using True by simp
    then show ?thesis by blast
  next
    case False
    then have "(e', ok) # cs = [] @ (e, False) # cs \<and> list_all snd []" using 2 by simp
    then show ?thesis by blast
  qed
qed simp

definition cfg :: "string \<Rightarrow> exn" where
  "cfg msg = Exception (''CONFIG ERROR : '' @ msg)"

definition truthy :: "string option \<Rightarrow> bool" where
  "truthy s = (case s of None \<Rightarrow> False | Some t \<Rightarrow> t \<noteq> [])"

text \<open>\<open>0.0 < x <= 1.0\<close>\<close>

definition in_unit :: "pyfloat \<Rightarrow> bool" where
  "in_unit x \<longleftrightarrow> flt (Fin 0) x \<and> fle x (Fin 1)"

section \<open>Link degradation\<close>

type_synonym degrade_event = "int \<times> int \<times> int \<times> pyfloat"

text \<open>\<open>while t < simul_us\<close>: the loop of \<open>--degrade_mode flap\<close>, with the events appended so far.\<close>

partial_function (option) flap_loop ::
  "int \<Rightarrow> int \<Rightarrow> int \<Rightarrow> int \<Rightarrow> pyfloat \<Rightarrow> pyfloat \<Rightarrow> int \<Rightarrow> bool \<Rightarrow> degrade_event list \<Rightarrow> degrade_event list option" where
  "flap_loop simul_us period A B lo_frac hi_frac t lo evs =
     (if t < simul_us
      then flap_loop simul_us period A B lo_frac hi_frac (t + period) (\<not> lo)
             (evs @ [(t, A, B, if lo then lo_frac else hi_frac)])
      else Some evs)"

declare flap_loop.simps [code]

definition degrade_events :: "degrade_args \<Rightarrow> int \<Rightarrow> int \<Rightarrow> int \<Rightarrow> degrade_event list res option" where
  "degrade_events a simul_us A B =
     (if degrade_mode a = ''static'' then Some (Inr [(degrade_start_us a, A, B, degrade_frac a)])
      else if degrade_mode a = ''once-recovery'' then
        (let recovery_time = degrade_start_us a + flap_period_us a in
         if simul_us \<le> recovery_time
         then Some (Inl (Exception ''CONFIG ERROR: once-recovery event is outside simulation horizon''))
         else Some (Inr [(degrade_start_us a, A, B, degrade_frac a), (recovery_time, A, B, flap_frac_hi a)]))
      else if degrade_mode a = ''flap'' then
        map_option Inr
          (flap_loop simul_us (flap_period_us a) A B (degrade_frac a) (flap_frac_hi a)
             (degrade_start_us a) True [])
      else Some (Inl (cfg (''unknown --degrade_mode '' @ degrade_mode a))))"

definition event_str :: "degrade_event \<Rightarrow> string" where
  "event_str e = (case e of (t, a, b, f) \<Rightarrow>
     show_int t @ '' '' @ show_int a @ '' '' @ show_int b @ '' '' @ repr_float f)"

definition link_degrade_str :: "degrade_event list \<Rightarrow> string" where
  "link_degrade_str events =
     show_int (int (length events)) @ '' '' @ py_join '' '' (map event_str events)"

definition int_pair :: "string list \<Rightarrow> (int \<times> int) res" where
  "int_pair ws =
     bindE (mapE to_int ws) (\<lambda>ns.
     case ns of [a, b] \<Rightarrow> Inr (a, b)
     | [] \<Rightarrow> Inl (ValueError ''not enough values to unpack'')
     | [_] \<Rightarrow> Inl (ValueError ''not enough values to unpack'')
     | _ \<Rightarrow> Inl (ValueError ''too many values to unpack''))"

text \<open>The events and the \<open>LINK_DEGRADE\<close> value; no events unless \<open>--degrade_link\<close> is given.\<close>

definition link_degrade :: "run_args \<Rightarrow> (degrade_event list \<times> string) res option" where
  "link_degrade args =
     (case degrade_link (degr args) of
        None \<Rightarrow> Some (Inr ([], ''0''))
      | Some s \<Rightarrow>
          if s = [] then Some (Inr ([], ''0''))
          else
            (case bindE (int_pair (split_char (CHR '','') s)) (\<lambda>(A, B).
                  bindE (to_float (simul_time (core args))) (\<lambda>x.
                  bindE (int_of_float (fmul x (Fin 1000000))) (\<lambda>simul_us. Inr (A, B, simul_us)))) of
               Inl e \<Rightarrow> Some (Inl e)
             | Inr (A, B, simul_us) \<Rightarrow>
                 (case degrade_events (degr args) simul_us A B of
                    None \<Rightarrow> None
                  | Some r \<Rightarrow> Some (bindE r (\<lambda>events. Inr (events, link_degrade_str events))))))"

section \<open>The flapping schedule\<close>

lemma flap_loop_step:
  "t < simul \<Longrightarrow> flap_loop simul p A B f h t lo evs
     = flap_loop simul p A B f h (t + p) (\<not> lo) (evs @ [(t, A, B, if lo then f else h)])"
  by (subst flap_loop.simps) simp

lemma flap_loop_stop: "\<not> t < simul \<Longrightarrow> flap_loop simul p A B f h t lo evs = Some evs"
  by (subst flap_loop.simps) simp

lemma flap_loop_diverges:
  assumes "p \<le> 0" "t < simul" shows "flap_loop simul p A B f h t lo evs = None"
proof -
  have "\<not> (p \<le> 0 \<and> t < simul)" if "flap_loop simul p A B f h t lo evs = Some r" for simul p A B f h t lo evs r
  proof (rule flap_loop.raw_induct[OF _ that], goal_cases)
    case (1 loop simul p A B f h t lo evs y)
    show ?case using 1(2) by (auto split: if_splits dest!: 1(1))
  qed
  then show ?thesis using assms by (metis option.exhaust)
qed

lemma le_zdiv_iff:
  assumes "0 < (q :: int)" shows "m \<le> n div q \<longleftrightarrow> m * q \<le> n"
proof
  assume "m \<le> n div q"
  then have "m * q \<le> n div q * q" using assms by (intro mult_right_mono) auto
  also have "\<dots> \<le> n" using div_mult_mod_eq[of n q] pos_mod_sign[OF assms, of n] by linarith
  finally show "m * q \<le> n" .
next
  assume "m * q \<le> n"
  then have "m * q div q \<le> n div q" using assms by (intro zdiv_mono1)
  then show "m \<le> n div q" using assms by simp
qed

text \<open>
  The flapping schedule in closed form: for a positive half-period the loop returns, and the
  events are at \<open>start + k * period\<close> for every \<open>k\<close> with that time before the end of the simulation,
  alternating between the degraded fraction (even \<open>k\<close>) and the recovered one (odd \<open>k\<close>).
\<close>

theorem flap_schedule:
  assumes "0 < period"
  shows "flap_loop simul_us period A B lo_frac hi_frac start True [] =
    Some (map (\<lambda>k. (start + int k * period, A, B, if even k then lo_frac else hi_frac))
           [0..<nat ((simul_us - start + period - 1) div period)])"
proof -
  have gen: "flap_loop simul_us period A B lo_frac hi_frac (start + int k * period) (even k) evs =
      Some (evs @ map (\<lambda>k. (start + int k * period, A, B, if even k then lo_frac else hi_frac))
           [k..<nat ((simul_us - start + period - 1) div period)])" for k evs
  proof (induction "nat (simul_us - (start + int k * period))" arbitrary: k evs rule: less_induct)
    case less
    let ?n = "(simul_us - start + period - 1) div period"
    have key: "start + int k * period < simul_us \<longleftrightarrow> int k < ?n"
    proof -
      have "int k < ?n \<longleftrightarrow> int k + 1 \<le> ?n" by (simp only: add1_zle_eq)
      also have "\<dots> \<longleftrightarrow> (int k + 1) * period \<le> simul_us - start + period - 1"
        by (rule le_zdiv_iff[OF assms])
      also have "\<dots> \<longleftrightarrow> start + int k * period < simul_us" by (auto simp: algebra_simps)
      finally show ?thesis by simp
    qed
    show ?case
    proof (cases "start + int k * period < simul_us")
      case True
      have k: "k < nat ?n" using True key by simp
      have nx: "start + int k * period + period = start + int (Suc k) * period" by (simp add: algebra_simps)
      have "flap_loop simul_us period A B lo_frac hi_frac (start + int k * period) (even k) evs
        = flap_loop simul_us period A B lo_frac hi_frac (start + int (Suc k) * period) (even (Suc k))
            (evs @ [(start + int k * period, A, B, if even k then lo_frac else hi_frac)])"
        unfolding flap_loop_step[OF True] nx by simp
      also have "\<dots> = Some ((evs @ [(start + int k * period, A, B, if even k then lo_frac else hi_frac)]) @
           map (\<lambda>k. (start + int k * period, A, B, if even k then lo_frac else hi_frac)) [Suc k..<nat ?n])"
        using True assms by (intro less) (simp add: algebra_simps)
      finally show ?thesis using k by (simp add: upt_conv_Cons)
    next
      case False
      then show ?thesis using key by (simp add: flap_loop_stop)
    qed
  qed
  from gen[of 0 "[]"] show ?thesis by simp
qed

theorem flap_schedule_witness:
  "flap_loop 50000 20000 128 136 (Fin (1 / 2)) (Fin 1) 5000 True [] =
    Some [(5000, 128, 136, Fin (1 / 2)), (25000, 128, 136, Fin 1), (45000, 128, 136, Fin (1 / 2))]"
  using flap_schedule[of 20000 50000 128 136 "Fin (1 / 2)" "Fin 1" 5000]
  by (simp add: upt_rec numeral_3_eq_3)

text \<open>
  A half-period of zero or less is not rejected, and the flapping loop then never ends when the
  degradation starts before the end of the simulation: \<open>main\<close> does not return.
\<close>

theorem flap_period_diverges:
  assumes "degrade_link (degr args) = Some s" and "s \<noteq> []" and "degrade_mode (degr args) = ''flap''"
    and "int_pair (split_char (CHR '','') s) = Inr (A, B)"
    and "to_float (simul_time (core args)) = Inr x" and "int_of_float (fmul x (Fin 1000000)) = Inr simul_us"
    and "flap_period_us (degr args) \<le> 0" and "degrade_start_us (degr args) < simul_us"
  shows "link_degrade args = None"
  using assms by (simp add: link_degrade_def degrade_events_def flap_loop_diverges)

theorem flap_period_diverges_witness:
  "link_degrade (default_args\<lparr>degr := degrade_defaults\<lparr>degrade_link := Some ''128,136'',
     degrade_mode := ''flap'', flap_period_us := 0\<rparr>\<rparr>) = None"
proof (rule flap_period_diverges[where s = "''128,136''" and A = 128 and B = 136
      and x = "lit (1 / 10)" and simul_us = 100000])
  show "int_pair (split_char (CHR '','') ''128,136'') = Inr (128, 136)" by code_simp
  show "to_float (simul_time (core (default_args\<lparr>degr := degrade_defaults\<lparr>degrade_link := Some ''128,136'',
     degrade_mode := ''flap'', flap_period_us := 0\<rparr>\<rparr>))) = Inr (lit (1 / 10))" by code_simp
  show "int_of_float (fmul (lit (1 / 10)) (Fin 1000000)) = Inr 100000" by code_simp
qed (simp_all add: degrade_defaults_def)

end
