(* ===== verification/RunChecks.thy ===== *)
theory RunChecks
  imports RunArgs
begin

text \<open>
  The validation of \<open>run.py\<close>'s options in \<open>main\<close>, in the order of the source: the sflowlet, v5 and
  native-diagnostics checks, the host-sensing lanes, and the sanity checks on the transport and the
  load. Everything here runs before any file is written.
\<close>

section \<open>The policy and the estimator checks\<close>

definition sflowlet_weight_modes :: "string \<Rightarrow> int option" where
  "sflowlet_weight_modes = map_of [(''random'', 0), (''weighted'', 1), (''wcmp'', 2)]"

definition legacy_policy_map :: "string \<Rightarrow> string option" where
  "legacy_policy_map = map_of
     [(''uniform'', ''uniform''), (''proportional'', ''oracle-proportional''), (''avoid'', ''oracle-avoid'')]"

text \<open>\<open>args.v5_policy or legacy_policy_map[args.v5_oracle_policy]\<close>\<close>

definition effective_policy :: "v5_args \<Rightarrow> string res" where
  "effective_policy a =
     (if truthy (v5_policy a) then Inr (the (v5_policy a))
      else lookup_key legacy_policy_map (v5_oracle_policy a))"

definition v5_policies :: "string list" where
  "v5_policies = [''uniform'', ''oracle-proportional'', ''oracle-avoid'', ''online-proportional'',
     ''queue-ecn-binary'', ''seqbalance-style'']"

definition native_lbs :: "string list" where
  "native_lbs = [''fecmp'', ''conga'', ''letflow'', ''conweave'']"

definition native_one_qp :: "run_args \<Rightarrow> bool" where
  "native_one_qp args \<longleftrightarrow> v5_qp_pool (v5 args) = 0 \<and> v5_nsub (v5 args) = 1 \<and> v5_chunk_bytes (v5 args) = 0"

definition flag :: "int \<Rightarrow> bool" where
  "flag n \<longleftrightarrow> n = 0 \<or> n = 1"

definition estimator_checks :: "run_args \<Rightarrow> string \<Rightarrow> (exn \<times> bool) list" where
  "estimator_checks args policy =
     (let s = sfl args; v = v5 args in
      [(cfg (''unknown --v5_policy '' @ policy), policy \<in> set v5_policies),
       (cfg ''--sflowlet_est_time_us must be > 0'', 0 < sflowlet_est_time_us s),
       (cfg ''--sflowlet_ewma_beta must be in (0,1]'', in_unit (sflowlet_ewma_beta s)),
       (cfg ''--sflowlet_persist_windows must be >= 1'', 1 \<le> sflowlet_persist_windows s),
       (cfg ''--sflowlet_degrade_ratio must be in (0,1]'', in_unit (sflowlet_degrade_ratio s)),
       (cfg ''--sflowlet_backlog_thresh_bytes must be >= 0'', 0 \<le> sflowlet_backlog_thresh_bytes s),
       (cfg ''estimator enable/log must be 0 or 1'', flag (v5_estimator_enable v) \<and> flag (v5_estimator_log v)),
       (cfg ''--v5_estimator_stale_periods must be >= 1'', 1 \<le> v5_estimator_stale_periods v),
       (cfg ''S4 probe period/bytes must be >= 0'', 0 \<le> v5_probe_period_us v \<and> 0 \<le> v5_probe_bytes v),
       (cfg ''--v5_probe_period_us and --v5_probe_bytes must both be zero or both be positive'',
          v5_probe_period_us v = 0 \<longleftrightarrow> v5_probe_bytes v = 0),
       (cfg ''S4 recovery probe parameters require --v5_estimator_enable 1'',
          v5_probe_period_us v \<noteq> 0 \<longrightarrow> v5_estimator_enable v \<noteq> 0),
       (cfg ''--v5_binary_hold_us must be >= 0'', 0 \<le> v5_binary_hold_us v),
       (cfg ''queue-ecn-binary requires --v5_binary_hold_us > 0'',
          policy = ''queue-ecn-binary'' \<longrightarrow> v5_binary_hold_us v \<noteq> 0),
       (cfg ''--v5_seqbalance_phi_us must be > 0'', 0 < v5_seqbalance_phi_us v)])"

definition native_checks :: "run_args \<Rightarrow> (exn \<times> bool) list" where
  "native_checks args =
     (let d = diag args; l = lb (core args) in
      [(cfg ''--native_diag_log must be 0 or 1'', flag (native_diag_log d)),
       (cfg ''--native_diag_interval_ns must be > 0'', 0 < native_diag_interval_ns d),
       (cfg ''native diagnostics require fecmp, conga, letflow, or conweave'',
          native_diag_log d \<noteq> 0 \<longrightarrow> l \<in> set native_lbs),
       (ValueError ''native QP mechanism logging requires --native_resource_log 1'',
          native_qp_mechanism_log d \<noteq> 0 \<longrightarrow> native_resource_log d \<noteq> 0),
       (ValueError ''ConWeave causal trace requires native ConWeave without v5 pool/chunks'',
          conweave_causal_trace d \<noteq> 0 \<longrightarrow> l = ''conweave'' \<and> native_one_qp args),
       (ValueError ''native resources require one native QP per input row, without v5 pool/chunks'',
          native_resource_log d \<noteq> 0 \<longrightarrow> l \<in> set native_lbs \<and> native_one_qp args),
       (cfg ''native diagnostics require the native non-v5 substrate'',
          native_diag_log d \<noteq> 0 \<longrightarrow> v5_qp_pool (v5 args) = 0)])"

definition pool_checks :: "run_args \<Rightarrow> string \<Rightarrow> (exn \<times> bool) list" where
  "pool_checks args policy =
     (let v = v5 args in
      [(cfg ''online-proportional and queue-ecn-binary require --v5_estimator_enable 1'',
          policy \<in> {''online-proportional'', ''queue-ecn-binary''} \<longrightarrow> v5_estimator_enable v \<noteq> 0),
       (cfg ''--v5_estimator_log 1 requires --v5_estimator_enable 1'',
          v5_estimator_log v \<noteq> 0 \<longrightarrow> v5_estimator_enable v \<noteq> 0),
       (cfg ''--v5_chunk_bytes must be >= 0'', 0 \<le> v5_chunk_bytes v),
       (cfg ''--v5_size_gate_bytes must be >= 0'', 0 \<le> v5_size_gate_bytes v),
       (cfg ''--v5_chunk_commit_rate_gbps must be > 0'', \<not> fle (v5_chunk_commit_rate_gbps v) (Fin 0)),
       (cfg ''--v5_qp_pool must be 0 or 1'', flag (v5_qp_pool v)),
       (cfg ''--v5_qp_pool_size must be >= 1'', 1 \<le> v5_qp_pool_size v),
       (cfg ''persistent pool currently requires --v5_qp_pool_size == --v5_nsub'',
          v5_qp_pool v \<noteq> 0 \<longrightarrow> v5_qp_pool_size v = v5_nsub v),
       (cfg ''online/binary policies require --lb letflow, --v5_qp_pool 1, and --v5_chunk_bytes > 0'',
          policy \<in> {''online-proportional'', ''queue-ecn-binary'', ''seqbalance-style''} \<longrightarrow>
            lb (core args) = ''letflow'' \<and> v5_qp_pool v \<noteq> 0 \<and> 0 < v5_chunk_bytes v),
       (cfg ''--v5_wqe_log and --v5_qp_state_log must be 0 or 1'', flag (v5_wqe_log v) \<and> flag (v5_qp_state_log v)),
       (cfg ''S2 WQE/QP logs require --v5_qp_pool 1'',
          v5_wqe_log v \<noteq> 0 \<or> v5_qp_state_log v \<noteq> 0 \<longrightarrow> v5_qp_pool v \<noteq> 0)])"

text \<open>The weight mode and the policy, when all of these checks pass.\<close>

definition policy_checks :: "run_args \<Rightarrow> (int \<times> string) res" where
  "policy_checks args =
     bindE (of_option (cfg (''unknown --sflowlet_weight_mode '' @ sflowlet_weight_mode (sfl args)))
              (sflowlet_weight_modes (sflowlet_weight_mode (sfl args)))) (\<lambda>weight_mode.
     bindE (guardE (cfg (''unknown --v5_oracle_policy '' @ v5_oracle_policy (v5 args)))
              (v5_oracle_policy (v5 args) \<in> {''uniform'', ''proportional'', ''avoid''})) (\<lambda>_.
     bindE (effective_policy (v5 args)) (\<lambda>policy.
     bindE (require_all (estimator_checks args policy @ native_checks args @ pool_checks args policy)) (\<lambda>_.
     Inr (weight_mode, policy)))))"

section \<open>Host sensing\<close>

definition parse_lane :: "int \<Rightarrow> string \<Rightarrow> (int \<times> int) res" where
  "parse_lane pool_size pair =
     (let fs = split_char (CHR '':'') pair in
      if length fs \<noteq> 2 then Inl (Exception ''CONFIG ERROR: malformed host app:lane pair'')
      else bindE (int_pair fs) (\<lambda>(app_id, lane).
           if app_id < 0 \<or> lane < 0 \<or> pool_size \<le> lane
           then Inl (Exception ''CONFIG ERROR: invalid host app:lane pair'')
           else Inr (app_id, lane)))"

definition app_lane_pairs :: "run_args \<Rightarrow> (int \<times> int) list res" where
  "app_lane_pairs args =
     bindE (guardE (Exception ''CONFIG ERROR: --host_sensing_enable must be 0 or 1'')
              (flag (host_sensing_enable (host args)))) (\<lambda>_.
     bindE (if host_sensing_app_lanes (host args) = [] then Inr []
            else mapE (parse_lane (v5_qp_pool_size (v5 args)))
                   (split_char (CHR '','') (host_sensing_app_lanes (host args)))) (\<lambda>pairs.
     if length (remdups (map fst pairs)) \<noteq> length pairs
     then Inl (Exception ''CONFIG ERROR: duplicate app in --host_sensing_app_lanes'')
     else Inr pairs))"

definition host_sensing_checks :: "run_args \<Rightarrow> (int \<times> int) list \<Rightarrow> unit res" where
  "host_sensing_checks args pairs =
     (let h = host args; v = v5 args in
      if host_sensing_enable h = 0 then Inr ()
      else require_all
        [(Exception ''CONFIG ERROR: host sensing requires LetFlow and a four-lane v5 QP pool with 65536-byte WQEs'',
            lb (core args) = ''letflow'' \<and> v5_qp_pool v \<noteq> 0 \<and> v5_qp_pool_size v = 4 \<and> v5_nsub v = 4 \<and>
            v5_chunk_bytes v = 65536),
         (Exception ''CONFIG ERROR: host sensing requires WQE, QP-state, and OoO event logs'',
            v5_wqe_log v \<noteq> 0 \<and> v5_qp_state_log v \<noteq> 0 \<and> sflowlet_ooo_log (sfl args) \<noteq> 0),
         (Exception ''CONFIG ERROR: host sensing requires fixed app:lane mappings'', pairs \<noteq> []),
         (Exception ''CONFIG ERROR: target app mapping must equal target lane'',
            map_of (rev pairs) (host_sensing_target_app_id h) = Some (host_sensing_target_lane h)),
         (Exception ''CONFIG ERROR: invalid host sensing estimator/probe parameter'',
            0 < host_sensing_delivery_window_us h \<and> in_unit (host_sensing_ewma_beta h) \<and>
            0 < host_sensing_probe_bytes h \<and> 0 < host_sensing_probe_period_us h \<and>
            0 < host_sensing_probe_timeout_us h \<and> 0 < host_sensing_warmup_us h \<and>
            0 < host_sensing_min_baseline_samples h \<and>
            \<not> fle (host_sensing_nominal_rate_gbps h) (Fin 0))])"

record host_sensing_config =
  hs_app_lanes :: "(int \<times> int) list"
  hs_app_lanes_str :: string
  hs_truth_node_a :: int
  hs_truth_node_b :: int
  hs_nominal_rate_bps :: int

definition host_sensing :: "run_args \<Rightarrow> host_sensing_config res" where
  "host_sensing args =
     bindE (app_lane_pairs args) (\<lambda>pairs.
     bindE (host_sensing_checks args pairs) (\<lambda>_.
     let lanes = show_int (int (length pairs)) @
           (if pairs = [] then []
            else '' '' @ py_join '' '' (map (\<lambda>(app_id, lane). show_int app_id @ '' '' @ show_int lane) pairs));
         truth = split_char (CHR '','') (host_sensing_truth_link (host args))
     in bindE (guardE (Exception ''CONFIG ERROR: --host_sensing_truth_link must be A,B'') (length truth = 2)) (\<lambda>_.
        bindE (int_pair truth) (\<lambda>(a, b).
        bindE (round_of_float (fmul (host_sensing_nominal_rate_gbps (host args)) (Fin 1000000000))) (\<lambda>rate.
        Inr \<lparr>hs_app_lanes = pairs, hs_app_lanes_str = lanes, hs_truth_node_a = a, hs_truth_node_b = b,
             hs_nominal_rate_bps = rate\<rparr>)))))"

section \<open>Load and sanity checks\<close>

text \<open>The over-subscription ratio in the name of the topology, after the last \<open>OS\<close>.\<close>

definition oversub :: "string \<Rightarrow> int res" where
  "oversub topo_name =
     to_int (py_replace ''.txt'' [] (last (split_str ''OS'' (py_replace nl [] topo_name))))"

text \<open>\<open>a / b\<close> on integers: the correctly rounded quotient.\<close>

definition int_true_div :: "int \<Rightarrow> int \<Rightarrow> pyfloat res" where
  "int_true_div a b =
     (if b = 0 then Inl ZeroDivisionError
      else case fround (of_int a / of_int b) of Fin h \<Rightarrow> Inr (Fin h) | _ \<Rightarrow> Inl OverflowError)"

definition hostload :: "int \<Rightarrow> int \<Rightarrow> pyfloat res" where
  "hostload load over =
     (if over = 0 then Inl ZeroDivisionError
      else bindE (guardE AssertionError (load mod over = 0)) (\<lambda>_.
           bindE (int_true_div load over) (\<lambda>h.
           bindE (guardE AssertionError (flt (Fin 0) h)) (\<lambda>_. Inr h))))"

definition sanity_checks :: "run_args \<Rightarrow> unit res" where
  "sanity_checks args =
     (let c = core args in
      bindE (require_all
        [(cfg ''ConWeave currently does not support RTT-based protocols. Plz modify its logic accordingly.'',
            \<not> ((cc c = ''timely'' \<or> cc c = ''hpcc'') \<and> lb c = ''conweave'')),
         (cfg ''If IRN is turn-on, then you should turn off PFC (for better perforamnce).'',
            \<not> (irn c = 1 \<and> pfc c = 1)),
         (cfg ''Either IRN or PFC should be true (at least one).'', \<not> (irn c = 0 \<and> pfc c = 0))]) (\<lambda>_.
      bindE (to_float (simul_time c)) (\<lambda>t.
      guardE (cfg ''Runtime must be larger than 5ms (= warmup interval).'') (\<not> flt t (lit (5 / 1000))))))"

section \<open>All checks in the order of main\<close>

record checked =
  ck_cc_mode :: int
  ck_lb_mode :: int
  ck_bw :: int
  ck_stop_time :: pyfloat
  ck_events :: "degrade_event list"
  ck_link_degrade :: string
  ck_weight_mode :: int
  ck_policy :: string
  ck_host :: host_sensing_config
  ck_hostload :: pyfloat

definition flowgen_start_time :: pyfloat where
  "flowgen_start_time = Fin 2"

definition checks_before :: "run_args \<Rightarrow> (int \<times> int \<times> int \<times> pyfloat) res" where
  "checks_before args =
     bindE (guardE (ValueError ''--job-file requires explicit --flow-file'')
              (truthy (job_file (core args)) \<longrightarrow> truthy (flow_file (core args)))) (\<lambda>_.
     bindE (lookup_key cc_modes (cc (core args))) (\<lambda>cc_mode.
     bindE (lookup_key lb_modes (lb (core args))) (\<lambda>lb_mode.
     bindE (to_int (bw (core args))) (\<lambda>b.
     bindE (to_float (simul_time (core args))) (\<lambda>t.
     Inr (cc_mode, lb_mode, b, fadd flowgen_start_time t))))))"

definition checks_after :: "run_args \<Rightarrow> ((int \<times> string) \<times> host_sensing_config \<times> pyfloat) res" where
  "checks_after args =
     bindE (policy_checks args) (\<lambda>policy.
     bindE (host_sensing args) (\<lambda>hs.
     bindE (oversub (topo (core args))) (\<lambda>over.
     bindE (hostload (netload (core args)) over) (\<lambda>load.
     bindE (sanity_checks args) (\<lambda>_. Inr (policy, hs, load))))))"

definition check_args :: "run_args \<Rightarrow> checked res option" where
  "check_args args =
     (case checks_before args of
        Inl e \<Rightarrow> Some (Inl e)
      | Inr (cc_mode, lb_mode, b, stop) \<Rightarrow>
          (case link_degrade args of
             None \<Rightarrow> None
           | Some r \<Rightarrow>
               Some (bindE r (\<lambda>(events, s).
                     bindE (checks_after args) (\<lambda>((weight_mode, policy), hs, load).
                     Inr \<lparr>ck_cc_mode = cc_mode, ck_lb_mode = lb_mode, ck_bw = b, ck_stop_time = stop,
                          ck_events = events, ck_link_degrade = s, ck_weight_mode = weight_mode,
                          ck_policy = policy, ck_host = hs, ck_hostload = load\<rparr>)))))"

section \<open>What accepted options satisfy\<close>

lemma check_args_Inr:
  assumes "check_args args = Some (Inr k)"
  shows "\<exists>events s t. checks_before args = Inr (ck_cc_mode k, ck_lb_mode k, ck_bw k, t) \<and>
      link_degrade args = Some (Inr (events, s)) \<and>
      checks_after args = Inr ((ck_weight_mode k, ck_policy k), ck_host k, ck_hostload k)"
  using assms by (auto simp: check_args_def bindE_Inr_iff split: sum.splits option.splits)

lemma checks_before_Inr:
  "checks_before args = Inr (c, l, b, t) \<Longrightarrow> cc_modes (cc (core args)) = Some c \<and> lb_modes (lb (core args)) = Some l"
  by (auto simp: checks_before_def bindE_Inr_iff lookup_key_def)

lemma checks_after_Inr:
  "checks_after args = Inr (p, h, l) \<Longrightarrow>
     policy_checks args = Inr p \<and> host_sensing args = Inr h \<and> sanity_checks args = Inr ()"
  by (auto simp: checks_after_def bindE_Inr_iff)

lemma host_sensing_Inr:
  "host_sensing args = Inr h \<Longrightarrow>
     \<exists>pairs. app_lane_pairs args = Inr pairs \<and> host_sensing_checks args pairs = Inr () \<and> hs_app_lanes h = pairs"
  by (auto simp: host_sensing_def bindE_Inr_iff Let_def)

lemma policy_checks_Inr:
  "policy_checks args = Inr (w, p) \<Longrightarrow>
     list_all snd (estimator_checks args p) \<and> list_all snd (native_checks args) \<and> list_all snd (pool_checks args p)"
  by (auto simp: policy_checks_def bindE_Inr_iff require_all_Inr_iff)

text \<open>
  C14. Options that pass the checks of \<open>run.py\<close> and select an adaptive policy: LetFlow routing, a
  persistent pool with one queue pair per sub-flow, chunking on; the estimator on for the two policies
  that read it, and also whenever recovery probes are on or its log is; probes with both a period and a
  size or with neither; a positive hold time for \<open>queue-ecn-binary\<close>; the parameters of estimator,
  probes and policies in their ranges; all native one-queue-pair-per-flow logs off.  (What the simulator
  asserts while it runs depends on the topology and is not part of the checks.)
\<close>

theorem adaptive_policy_requirements:
  assumes "check_args args = Some (Inr k)"
    and "ck_policy k \<in> {''online-proportional'', ''queue-ecn-binary'', ''seqbalance-style''}"
  shows "lb (core args) = ''letflow'' \<and> ck_lb_mode k = 6 \<and> v5_qp_pool (v5 args) = 1 \<and>
    v5_qp_pool_size (v5 args) = v5_nsub (v5 args) \<and> 1 \<le> v5_nsub (v5 args) \<and> 0 < v5_chunk_bytes (v5 args) \<and>
    (ck_policy k = ''seqbalance-style'' \<or> v5_estimator_enable (v5 args) = 1) \<and>
    v5_estimator_enable (v5 args) \<in> {0, 1} \<and> v5_estimator_log (v5 args) \<in> {0, v5_estimator_enable (v5 args)} \<and>
    (v5_probe_period_us (v5 args) = 0 \<and> v5_probe_bytes (v5 args) = 0 \<or>
     0 < v5_probe_period_us (v5 args) \<and> 0 < v5_probe_bytes (v5 args) \<and> v5_estimator_enable (v5 args) = 1) \<and>
    (if ck_policy k = ''queue-ecn-binary'' then 0 < v5_binary_hold_us (v5 args) else 0 \<le> v5_binary_hold_us (v5 args)) \<and>
    0 < v5_seqbalance_phi_us (v5 args) \<and> 1 \<le> v5_estimator_stale_periods (v5 args) \<and>
    0 < sflowlet_est_time_us (sfl args) \<and> in_unit (sflowlet_ewma_beta (sfl args)) \<and>
    1 \<le> sflowlet_persist_windows (sfl args) \<and> in_unit (sflowlet_degrade_ratio (sfl args)) \<and>
    0 \<le> sflowlet_backlog_thresh_bytes (sfl args) \<and> 0 \<le> v5_size_gate_bytes (v5 args) \<and>
    \<not> fle (v5_chunk_commit_rate_gbps (v5 args)) (Fin 0) \<and>
    v5_wqe_log (v5 args) \<in> {0, 1} \<and> v5_qp_state_log (v5 args) \<in> {0, 1} \<and>
    native_resource_log (diag args) = 0 \<and> native_qp_mechanism_log (diag args) = 0 \<and>
    native_diag_log (diag args) = 0 \<and> conweave_causal_trace (diag args) = 0"
proof -
  obtain t where before: "checks_before args = Inr (ck_cc_mode k, ck_lb_mode k, ck_bw k, t)"
    and after: "checks_after args = Inr ((ck_weight_mode k, ck_policy k), ck_host k, ck_hostload k)"
    using check_args_Inr[OF assms(1)] by blast
  have est: "list_all snd (estimator_checks args (ck_policy k))" and nat: "list_all snd (native_checks args)"
    and pool: "list_all snd (pool_checks args (ck_policy k))"
    using checks_after_Inr[OF after] policy_checks_Inr by blast+
  note pool' = pool[unfolded pool_checks_def Let_def list.pred_inject snd_conv]
  note est' = est[unfolded estimator_checks_def Let_def list.pred_inject snd_conv]
  have q: "lb (core args) = ''letflow'' \<and> v5_qp_pool (v5 args) \<noteq> 0 \<and> 0 < v5_chunk_bytes (v5 args)"
    using pool' assms(2) by blast
  have p: "lb (core args) = ''letflow''" "v5_qp_pool (v5 args) = 1" "v5_qp_pool_size (v5 args) = v5_nsub (v5 args)"
    "1 \<le> v5_nsub (v5 args)" "0 < v5_chunk_bytes (v5 args)"
    using pool' q unfolding flag_def by auto
  have pf: "0 \<le> v5_size_gate_bytes (v5 args)" "\<not> fle (v5_chunk_commit_rate_gbps (v5 args)) (Fin 0)"
    "flag (v5_wqe_log (v5 args))" "flag (v5_qp_state_log (v5 args))"
    using pool' by - (elim conjE, assumption)+
  then have w: "v5_wqe_log (v5 args) \<in> {0, 1}" "v5_qp_state_log (v5 args) \<in> {0, 1}" by (auto simp: flag_def)
  have ec: "flag (v5_estimator_enable (v5 args))" "flag (v5_estimator_log (v5 args))"
    "0 \<le> v5_probe_period_us (v5 args)" "0 \<le> v5_probe_bytes (v5 args)"
    "v5_probe_period_us (v5 args) = 0 \<longleftrightarrow> v5_probe_bytes (v5 args) = 0"
    "v5_probe_period_us (v5 args) \<noteq> 0 \<longrightarrow> v5_estimator_enable (v5 args) \<noteq> 0"
    "0 \<le> v5_binary_hold_us (v5 args)"
    "ck_policy k = ''queue-ecn-binary'' \<longrightarrow> v5_binary_hold_us (v5 args) \<noteq> 0"
    using est' by - (elim conjE, assumption)+
  have pc: "ck_policy k \<in> {''online-proportional'', ''queue-ecn-binary''} \<longrightarrow> v5_estimator_enable (v5 args) \<noteq> 0"
    "v5_estimator_log (v5 args) \<noteq> 0 \<longrightarrow> v5_estimator_enable (v5 args) \<noteq> 0"
    using pool' by - (elim conjE, assumption)+
  have e: "ck_policy k = ''seqbalance-style'' \<or> v5_estimator_enable (v5 args) = 1"
    "v5_estimator_enable (v5 args) \<in> {0, 1}" "v5_estimator_log (v5 args) \<in> {0, v5_estimator_enable (v5 args)}"
    using ec(1,2) pc assms(2) by (auto simp: flag_def)
  have r: "v5_probe_period_us (v5 args) = 0 \<and> v5_probe_bytes (v5 args) = 0 \<or>
     0 < v5_probe_period_us (v5 args) \<and> 0 < v5_probe_bytes (v5 args) \<and> v5_estimator_enable (v5 args) = 1"
    using ec(3-6) e(2) by (cases "v5_probe_period_us (v5 args) = 0") auto
  have h: "if ck_policy k = ''queue-ecn-binary'' then 0 < v5_binary_hold_us (v5 args) else 0 \<le> v5_binary_hold_us (v5 args)"
    using ec(7,8) by (cases "ck_policy k = ''queue-ecn-binary''") simp_all
  have s: "0 < v5_seqbalance_phi_us (v5 args)" "1 \<le> v5_estimator_stale_periods (v5 args)"
    "0 < sflowlet_est_time_us (sfl args)" "in_unit (sflowlet_ewma_beta (sfl args))"
    "1 \<le> sflowlet_persist_windows (sfl args)" "in_unit (sflowlet_degrade_ratio (sfl args))"
    "0 \<le> sflowlet_backlog_thresh_bytes (sfl args)"
    using est' by - (elim conjE, assumption)+
  have n: "native_resource_log (diag args) = 0" "native_qp_mechanism_log (diag args) = 0"
    "native_diag_log (diag args) = 0" "conweave_causal_trace (diag args) = 0"
    using nat p(2) by (auto simp: native_checks_def Let_def native_one_qp_def)
  have "ck_lb_mode k = 6" using checks_before_Inr[OF before] p(1) by (simp add: lb_modes_def)
  then show ?thesis using p pf(1,2) w e r h s n by (intro conjI) assumption+
qed

definition online_args :: run_args where
  "online_args = default_args
     \<lparr>core := core_defaults\<lparr>lb := ''letflow'', topo := ''leaf_spine_16_100G_OS2''\<rparr>,
      sfl := sflowlet_defaults\<lparr>sflowlet_ooo_log := 1\<rparr>,
      v5 := v5_defaults\<lparr>v5_policy := Some ''online-proportional'', v5_nsub := 4, v5_qp_pool := 1,
        v5_chunk_bytes := 65536, v5_estimator_enable := 1, v5_wqe_log := 1, v5_qp_state_log := 1\<rparr>,
      host := host_defaults\<lparr>host_sensing_enable := 1, host_sensing_app_lanes := ''0:0,1:1,2:2,3:3''\<rparr>\<rparr>"

definition online_checked :: checked where
  "online_checked = \<lparr>ck_cc_mode = 1, ck_lb_mode = 6, ck_bw = 100, ck_stop_time = fadd (Fin 2) (lit (1 / 10)),
     ck_events = [], ck_link_degrade = ''0'', ck_weight_mode = 1, ck_policy = ''online-proportional'',
     ck_host = \<lparr>hs_app_lanes = [(0, 0), (1, 1), (2, 2), (3, 3)], hs_app_lanes_str = ''4 0 0 1 1 2 2 3 3'',
       hs_truth_node_a = 16, hs_truth_node_b = 18, hs_nominal_rate_bps = 100000000000\<rparr>,
     ck_hostload = Fin 20\<rparr>"

lemma online_accepted: "check_args online_args = Some (Inr online_checked)"
  by code_simp

theorem adaptive_policy_requirements_witness:
  "lb (core online_args) = ''letflow'' \<and> ck_lb_mode online_checked = 6 \<and> v5_qp_pool (v5 online_args) = 1 \<and>
   native_diag_log (diag online_args) = 0"
proof -
  have "ck_policy online_checked \<in> {''online-proportional'', ''queue-ecn-binary'', ''seqbalance-style''}"
    by (simp add: online_checked_def)
  from adaptive_policy_requirements[OF online_accepted this] show ?thesis by simp
qed

text \<open>
  C15. With host sensing enabled, accepted options assign lanes injectively by application: no
  application has two lanes, every lane is one of the four of the pool, the target application has
  the target lane, and the four-lane pool with 65536-byte chunks and the three event logs are on.
\<close>

theorem host_sensing_lanes:
  assumes "check_args args = Some (Inr k)" and "host_sensing_enable (host args) \<noteq> 0"
  shows "distinct (map fst (hs_app_lanes (ck_host k))) \<and>
    (\<forall>(app, lane) \<in> set (hs_app_lanes (ck_host k)). 0 \<le> app \<and> 0 \<le> lane \<and> lane < 4) \<and>
    (host_sensing_target_app_id (host args), host_sensing_target_lane (host args)) \<in> set (hs_app_lanes (ck_host k)) \<and>
    v5_qp_pool_size (v5 args) = 4 \<and> v5_nsub (v5 args) = 4 \<and> v5_chunk_bytes (v5 args) = 65536 \<and>
    v5_wqe_log (v5 args) \<noteq> 0 \<and> v5_qp_state_log (v5 args) \<noteq> 0 \<and> sflowlet_ooo_log (sfl args) \<noteq> 0"
proof -
  obtain pairs where pairs: "app_lane_pairs args = Inr pairs" "host_sensing_checks args pairs = Inr ()"
    "hs_app_lanes (ck_host k) = pairs"
    using check_args_Inr[OF assms(1)] checks_after_Inr host_sensing_Inr by metis
  have ck: "v5_qp_pool_size (v5 args) = 4 \<and> v5_nsub (v5 args) = 4 \<and> v5_chunk_bytes (v5 args) = 65536"
    "v5_wqe_log (v5 args) \<noteq> 0 \<and> v5_qp_state_log (v5 args) \<noteq> 0 \<and> sflowlet_ooo_log (sfl args) \<noteq> 0"
    "map_of (rev pairs) (host_sensing_target_app_id (host args)) = Some (host_sensing_target_lane (host args))"
    using pairs(2) assms(2)
    unfolding host_sensing_checks_def Let_def if_not_P[OF assms(2)] require_all_Inr_iff list.pred_inject snd_conv
    by blast+
  have "length (remdups (map fst pairs)) = length (map fst pairs)"
    using pairs(1) by (auto simp: app_lane_pairs_def bindE_Inr_iff split: if_splits)
  then have d: "distinct (map fst pairs)" by (metis length_remdups_card_conv card_distinct)
  have "0 \<le> app \<and> 0 \<le> lane \<and> lane < v5_qp_pool_size (v5 args)" if al: "(app, lane) \<in> set pairs" for app lane
  proof -
    obtain w where "parse_lane (v5_qp_pool_size (v5 args)) w = Inr (app, lane)"
      using pairs(1) al
      by (auto simp: app_lane_pairs_def bindE_Inr_iff mapE_Inr_iff list_all2_conv_all_nth in_set_conv_nth split: if_splits)
    then show ?thesis by (auto simp: parse_lane_def Let_def bindE_Inr_iff split: if_splits)
  qed
  moreover have "(host_sensing_target_app_id (host args), host_sensing_target_lane (host args)) \<in> set pairs"
    using map_of_SomeD[OF ck(3)] by simp
  ultimately show ?thesis using ck d pairs(3) by auto
qed

theorem host_sensing_lanes_witness:
  "distinct (map fst (hs_app_lanes (ck_host online_checked))) \<and>
   (0, 0) \<in> set (hs_app_lanes (ck_host online_checked)) \<and> v5_nsub (v5 online_args) = 4"
proof -
  have "host_sensing_enable (host online_args) \<noteq> 0" by (simp add: online_args_def)
  from host_sensing_lanes[OF online_accepted this] show ?thesis
    by (simp add: online_args_def host_defaults_def)
qed

text \<open>
  The documented default does not run: with every option at its default the checks end in a
  \<open>ValueError\<close>, because the default topology name carries no over-subscription suffix to convert;
  with the name the help text announces, the same options are accepted.
\<close>

theorem default_topology_rejected:
  "check_args default_args = Some (Inl (ValueError ''invalid literal for int() with base 10'')) \<and>
   (case check_args (default_args\<lparr>core := core_defaults\<lparr>topo := ''leaf_spine_128_100G_OS2''\<rparr>\<rparr>) of
      Some (Inr k) \<Rightarrow> ck_hostload k = Fin 20 \<and> ck_link_degrade k = ''0'' \<and> ck_policy k = ''uniform''
    | _ \<Rightarrow> False)"
  by code_simp

end
