(* ===== verification/RunConfig.thy ===== *)
theory RunConfig
  imports RunChecks
begin

text \<open>
  The simulator configuration that \<open>run.py\<close> writes: the template of lines 28-168 with its
  placeholders, \<open>str.format\<close> on it, and the values \<open>main\<close> computes for them (the ConWeave timers, the
  window flags, the DCQCN constants, the ECN threshold maps).

  \<open>py_format\<close> is \<open>str.format\<close> with plain \<open>{name}\<close> fields, the only ones the template has; the values
  are the strings that \<open>format\<close> makes of them (\<open>show_int\<close>, \<open>repr_float\<close>).
\<close>

section \<open>The template\<close>

definition config_template :: "string list" where
  "config_template =
    [''TOPOLOGY_FILE config/{topo}.txt'',
     ''FLOW_FILE {flow_file}'',
     [],
     ''FLOW_INPUT_FILE mix/output/{id}/{id}_in.txt'',
     ''CNP_OUTPUT_FILE mix/output/{id}/{id}_out_cnp.txt'',
     ''FCT_OUTPUT_FILE mix/output/{id}/{id}_out_fct.txt'',
     ''PFC_OUTPUT_FILE mix/output/{id}/{id}_out_pfc.txt'',
     ''QLEN_MON_FILE mix/output/{id}/{id}_out_qlen.txt'',
     ''VOQ_MON_FILE mix/output/{id}/{id}_out_voq.txt'',
     ''VOQ_MON_DETAIL_FILE mix/output/{id}/{id}_out_voq_per_dst.txt'',
     ''UPLINK_MON_FILE mix/output/{id}/{id}_out_uplink.txt'',
     ''CONN_MON_FILE mix/output/{id}/{id}_out_conn.txt'',
     ''PATH_DELAY_MON_FILE mix/output/{id}/{id}_out_path_delay.txt'',
     ''EST_ERROR_MON_FILE mix/output/{id}/{id}_out_est_error.txt'',
     [],
     ''QLEN_MON_START {qlen_mon_start}'',
     ''QLEN_MON_END {qlen_mon_end}'',
     ''SW_MONITORING_INTERVAL {sw_monitoring_interval}'',
     [],
     ''FLOWGEN_START_TIME {flowgen_start_time}'',
     ''FLOWGEN_STOP_TIME {flowgen_stop_time}'',
     ''BUFFER_SIZE {buffer_size}'',
     [],
     ''CC_MODE {cc_mode}'',
     ''LB_MODE {lb_mode}'',
     ''ENABLE_PFC {enabled_pfc}'',
     ''ENABLE_IRN {enabled_irn}'',
     [],
     ''CONWEAVE_TX_EXPIRY_TIME {cwh_tx_expiry_time}'',
     ''CONWEAVE_REPLY_TIMEOUT_EXTRA {cwh_extra_reply_deadline}'',
     ''CONWEAVE_PATH_PAUSE_TIME {cwh_path_pause_time}'',
     ''CONWEAVE_EXTRA_VOQ_FLUSH_TIME {cwh_extra_voq_flush_time}'',
     ''CONWEAVE_DEFAULT_VOQ_WAITING_TIME {cwh_default_voq_waiting_time}'',
     [],
     ''LETFLOW_FLOWLET_TIMEOUT_US {letflow_flowlet_timeout_us}'',
     [],
     ''SFLOWLET_WEIGHT_MODE {sflowlet_weight_mode}'',
     ''SFLOWLET_EST_TIME_US {sflowlet_est_time_us}'',
     ''SFLOWLET_EWMA_BETA {sflowlet_ewma_beta}'',
     ''SFLOWLET_PERSIST_WINDOWS {sflowlet_persist_windows}'',
     ''SFLOWLET_DEGRADE_RATIO {sflowlet_degrade_ratio}'',
     ''SFLOWLET_BACKLOG_THRESH_BYTES {sflowlet_backlog_thresh_bytes}'',
     ''SFLOWLET_FLOWLET_TIMEOUT_US {sflowlet_flowlet_timeout_us}'',
     ''SFLOWLET_SWITCH_LOG {sflowlet_switch_log}'',
     ''SFLOWLET_OOO_LOG {sflowlet_ooo_log}'',
     ''V5_NSUB {v5_nsub}'',
     ''V5_CHUNK_BYTES {v5_chunk_bytes}'',
     ''V5_SIZE_GATE_BYTES {v5_size_gate_bytes}'',
     ''V5_ORACLE_POLICY {v5_oracle_policy}'',
     ''V5_POLICY {v5_policy}'',
     ''V5_ORACLE_BAD_SPINE {v5_oracle_bad_spine}'',
     ''V5_CHUNK_COMMIT_RATE_GBPS {v5_chunk_commit_rate_gbps}'',
     ''V5_CHUNK_LOG {v5_chunk_log}'',
     ''V5_QP_POOL {v5_qp_pool}'',
     ''V5_QP_POOL_SIZE {v5_qp_pool_size}'',
     ''V5_WQE_LOG {v5_wqe_log}'',
     ''V5_QP_STATE_LOG {v5_qp_state_log}'',
     ''V5_ESTIMATOR_ENABLE {v5_estimator_enable}'',
     ''V5_ESTIMATOR_LOG {v5_estimator_log}'',
     ''V5_ESTIMATOR_STALE_PERIODS {v5_estimator_stale_periods}'',
     ''V5_PROBE_PERIOD_US {v5_probe_period_us}'',
     ''V5_PROBE_BYTES {v5_probe_bytes}'',
     ''V5_BINARY_HOLD_US {v5_binary_hold_us}'',
     ''V5_SEQBALANCE_PHI_US {v5_seqbalance_phi_us}'',
     ''HOST_SENSING_ENABLE {host_sensing_enable}'',
     ''HOST_SENSING_APP_LANES {host_sensing_app_lanes}'',
     ''HOST_SENSING_TARGET {host_sensing_target_app_id} {host_sensing_target_source} {host_sensing_target_destination} {host_sensing_target_pg} {host_sensing_target_lane}'',
     ''HOST_SENSING_TRUTH_LINK {host_sensing_truth_node_a} {host_sensing_truth_node_b}'',
     ''HOST_SENSING_NOMINAL_RATE_BPS {host_sensing_nominal_rate_bps}'',
     ''HOST_SENSING_DELIVERY_WINDOW_US {host_sensing_delivery_window_us}'',
     ''HOST_SENSING_EWMA_BETA {host_sensing_ewma_beta}'',
     ''HOST_SENSING_PROBE_BYTES {host_sensing_probe_bytes}'',
     ''HOST_SENSING_PROBE_PERIOD_US {host_sensing_probe_period_us}'',
     ''HOST_SENSING_PROBE_TIMEOUT_US {host_sensing_probe_timeout_us}'',
     ''HOST_SENSING_WARMUP_US {host_sensing_warmup_us}'',
     ''HOST_SENSING_MIN_BASELINE_SAMPLES {host_sensing_min_baseline_samples}'',
     ''NATIVE_RESOURCE_LOG {native_resource_log}'',
     ''NATIVE_QP_MECHANISM_LOG {native_qp_mechanism_log}'',
     ''CONWEAVE_CAUSAL_TRACE {conweave_causal_trace}'',
     ''CONWEAVE_CAUSAL_TRACE_OUTPUT_FILE mix/output/{id}/{id}_out_conweave_causal_trace.csv'',
     ''MONITOR_UNTIL_COMPLETE {monitor_until_complete}'',
     ''NATIVE_RESOURCE_OUTPUT_FILE mix/output/{id}/{id}_out_native_resources.csv'',
     ''NATIVE_QP_OUTPUT_FILE mix/output/{id}/{id}_out_native_qp.csv'',
     ''NATIVE_PFC_OUTPUT_FILE mix/output/{id}/{id}_out_native_pfc.csv'',
     ''NATIVE_PATH_MAP_OUTPUT_FILE mix/output/{id}/{id}_out_native_path_map.csv'',
     ''NATIVE_DIAG_LOG {native_diag_log}'',
     ''NATIVE_DIAG_INTERVAL_NS {native_diag_interval_ns}'',
     ''NATIVE_PATH_COUNTER_OUTPUT_FILE mix/output/{id}/{id}_out_native_path_counter.csv'',
     ''NATIVE_EVENT_OUTPUT_FILE mix/output/{id}/{id}_out_native_events.csv'',
     ''FLOWLET_SWITCH_OUTPUT_FILE mix/output/{id}/{id}_out_flowlet_switch.txt'',
     ''OOO_EVENT_OUTPUT_FILE mix/output/{id}/{id}_out_ooo_events.txt'',
     ''V5_CHUNK_OUTPUT_FILE mix/output/{id}/{id}_out_v5_chunk.txt'',
     ''V5_WQE_OUTPUT_FILE mix/output/{id}/{id}_out_v5_wqe.csv'',
     ''V5_QP_STATE_OUTPUT_FILE mix/output/{id}/{id}_out_v5_qp_state.csv'',
     ''V5_ESTIMATOR_OUTPUT_FILE mix/output/{id}/{id}_out_v5_estimator.csv'',
     ''HOST_SENSING_OUTPUT_FILE mix/output/{id}/{id}_out_host_sensing.csv'',
     ''HOST_PROBE_OUTPUT_FILE mix/output/{id}/{id}_out_host_probe.csv'',
     ''HOST_PATH_TRUTH_OUTPUT_FILE mix/output/{id}/{id}_out_host_path_truth.csv'',
     ''HOST_PROBE_TRUTH_OUTPUT_FILE mix/output/{id}/{id}_out_host_probe_truth.csv'',
     [],
     ''ALPHA_RESUME_INTERVAL 1'',
     ''RATE_DECREASE_INTERVAL 4'',
     ''CLAMP_TARGET_RATE 0'',
     ''RP_TIMER 300 '',
     ''FAST_RECOVERY_TIMES 1'',
     ''EWMA_GAIN {ewma_gain}'',
     ''RATE_AI {ai}Mb/s'',
     ''RATE_HAI {hai}Mb/s'',
     ''MIN_RATE 100Mb/s'',
     ''DCTCP_RATE_AI {dctcp_ai}Mb/s'',
     [],
     ''ERROR_RATE_PER_LINK 0.0000'',
     ''L2_CHUNK_SIZE 4000'',
     ''L2_ACK_INTERVAL 1'',
     ''L2_BACK_TO_ZERO 0'',
     [],
     ''RATE_BOUND 1'',
     ''HAS_WIN {has_win}'',
     ''VAR_WIN {var_win}'',
     ''FAST_REACT {fast_react}'',
     ''MI_THRESH {mi}'',
     ''INT_MULTI {int_multi}'',
     ''GLOBAL_T 1'',
     ''U_TARGET 0.95'',
     ''MULTI_RATE 0'',
     ''SAMPLE_FEEDBACK 0'',
     [],
     ''ENABLE_QCN 1'',
     ''USE_DYNAMIC_PFC_THRESHOLD 1'',
     ''PACKET_PAYLOAD_SIZE 1000'',
     [],
     [],
     ''LINK_DOWN 0 0 0'',
     ''LINK_DEGRADE_DIRECTION {link_degrade_direction}'',
     ''LINK_DEGRADE {link_degrade}'',
     ''KMAX_MAP {kmax_map}'',
     ''KMIN_MAP {kmin_map}'',
     ''PMAX_MAP {pmax_map}'',
     ''LOAD {load}'',
     ''RANDOM_SEED {random_seed}'']"

text \<open>\<open>str.format(**env)\<close>: literal braces are not used by the template.\<close>

function py_format :: "(string \<times> string) list \<Rightarrow> string \<Rightarrow> string res" where
  "py_format env [] = Inr []"
| "py_format env (c # cs) =
     (if c = CHR 0x7B then
        (let name = takeWhile (\<lambda>x. x \<noteq> CHR 0x7D) cs; r = dropWhile (\<lambda>x. x \<noteq> CHR 0x7D) cs
         in case r of
              [] \<Rightarrow> Inl (ValueError ''expected a closing brace before end of string'')
            | _ # r' \<Rightarrow>
                bindE (lookup_key (map_of env) name) (\<lambda>v.
                bindE (py_format env r') (\<lambda>t. Inr (v @ t))))
      else if c = CHR 0x7D then Inl (ValueError ''Single closing brace encountered in format string'')
      else bindE (py_format env cs) (\<lambda>t. Inr (c # t)))"
  by pat_completeness auto
termination
proof (relation "measure (\<lambda>(env, s). length s)", goal_cases)
  case (2 env c cs name r b r' a)
  then have "length (b # r') \<le> length cs" by (metis length_dropWhile_le)
  then show ?case by simp
qed simp_all

section \<open>The values\<close>

record cwh_params =
  cwh_extra_reply_deadline :: int
  cwh_path_pause_time :: int
  cwh_extra_voq_flush_time :: int
  cwh_default_voq_waiting_time :: int
  cwh_tx_expiry_time :: int

definition cwh_setup :: "int \<Rightarrow> string \<Rightarrow> int \<Rightarrow> int \<Rightarrow> cwh_params res" where
  "cwh_setup lb_mode topo_name enabled_pfc enabled_irn =
     (if lb_mode = 9 then
        (if has_infix ''leaf_spine'' topo_name then
           Inr \<lparr>cwh_extra_reply_deadline = 4, cwh_path_pause_time = 16, cwh_extra_voq_flush_time = 16,
                cwh_default_voq_waiting_time = 200, cwh_tx_expiry_time = 300\<rparr>
         else if has_infix ''fat'' topo_name \<and> enabled_pfc = 0 \<and> enabled_irn = 1 then
           Inr \<lparr>cwh_extra_reply_deadline = 4, cwh_path_pause_time = 16, cwh_extra_voq_flush_time = 16,
                cwh_default_voq_waiting_time = 300, cwh_tx_expiry_time = 1000\<rparr>
         else if has_infix ''fat'' topo_name \<and> enabled_pfc = 1 \<and> enabled_irn = 0 then
           Inr \<lparr>cwh_extra_reply_deadline = 4, cwh_path_pause_time = 16, cwh_extra_voq_flush_time = 64,
                cwh_default_voq_waiting_time = 600, cwh_tx_expiry_time = 1000\<rparr>
         else Inl (Exception ''Unsupported ConWeave Parameter Setup''))
      else
        Inr \<lparr>cwh_extra_reply_deadline = 4, cwh_path_pause_time = 16, cwh_extra_voq_flush_time = 64,
             cwh_default_voq_waiting_time = 400, cwh_tx_expiry_time = 1000\<rparr>)"

text \<open>\<open>has_win\<close> and \<open>var_win\<close>, which are always equal.\<close>

definition window_flags :: "int \<Rightarrow> int \<Rightarrow> int \<times> int" where
  "window_flags cc_mode enforce =
     (if cc_mode = 3 \<or> cc_mode = 8 \<or> enforce = 1 then (1, 1) else (0, 0))"

definition link_rates :: "int \<Rightarrow> int list" where
  "link_rates b = [b * 200000000, b * 500000000, b * 1000000000, b * 2 * 1000000000, b * 2500000000,
     b * 4 * 1000000000]"

definition k_map :: "int \<Rightarrow> int \<Rightarrow> string" where
  "k_map b k = ''6 '' @ py_join '' '' (map (\<lambda>r. show_int r @ '' '' @ show_int k) (link_rates b))"

definition kmax_map :: "int \<Rightarrow> string" where
  "kmax_map b = k_map b 400"

definition kmin_map :: "int \<Rightarrow> string" where
  "kmin_map b = k_map b 100"

text \<open>The first two probabilities are printed with \<open>%d\<close>, which truncates 0.2 to 0.\<close>

definition pmax_map :: "int \<Rightarrow> string res" where
  "pmax_map b =
     bindE (int_of_float (lit (1 / 5))) (\<lambda>p.
     Inr (''6 '' @ py_join '' ''
        (map (\<lambda>r. show_int r @ '' '' @ show_int p) (take 2 (link_rates b)) @
         map (\<lambda>r. show_int r @ '' '' @ fmt_fixed 2 (lit (1 / 5))) (drop 2 (link_rates b)))))"

definition upper_char :: "char \<Rightarrow> char" where
  "upper_char c = (let n = (of_char c :: nat) in if 97 \<le> n \<and> n \<le> 122 then char_of (n - 32) else c)"

definition link_degrade_direction :: "run_args \<Rightarrow> string" where
  "link_degrade_direction args = py_replace ''-'' ''_'' (map upper_char (degrade_direction (degr args)))"

definition config_env ::
  "run_args \<Rightarrow> checked \<Rightarrow> cwh_params \<Rightarrow> string \<Rightarrow> string \<Rightarrow> pyfloat \<Rightarrow> pyfloat \<Rightarrow> string \<Rightarrow> (string \<times> string) list" where
  "config_env args k cwh config_ID flow_path ai hai pmax =
     (let c = core args; s = sfl args; v = v5 args; h = host args; d = diag args; hs = ck_host k in
      [(''id'', config_ID), (''topo'', topo c), (''flow_file'', flow_path),
       (''qlen_mon_start'', repr_float flowgen_start_time), (''qlen_mon_end'', repr_float (ck_stop_time k)),
       (''flowgen_start_time'', repr_float flowgen_start_time),
       (''flowgen_stop_time'', repr_float (ck_stop_time k)),
       (''sw_monitoring_interval'', show_int (sw_monitoring_interval c)), (''load'', show_int (netload c)),
       (''buffer_size'', buffer_mb c), (''lb_mode'', show_int (ck_lb_mode k)),
       (''cwh_tx_expiry_time'', show_int (cwh_tx_expiry_time cwh)),
       (''cwh_extra_reply_deadline'', show_int (cwh_extra_reply_deadline cwh)),
       (''cwh_default_voq_waiting_time'', show_int (cwh_default_voq_waiting_time cwh)),
       (''cwh_path_pause_time'', show_int (cwh_path_pause_time cwh)),
       (''cwh_extra_voq_flush_time'', show_int (cwh_extra_voq_flush_time cwh)),
       (''enabled_pfc'', show_int (pfc c)), (''enabled_irn'', show_int (irn c)),
       (''cc_mode'', show_int (ck_cc_mode k)), (''ai'', repr_float ai), (''hai'', repr_float hai),
       (''dctcp_ai'', show_int 1000),
       (''has_win'', show_int (fst (window_flags (ck_cc_mode k) (enforce_win c)))),
       (''var_win'', show_int (snd (window_flags (ck_cc_mode k) (enforce_win c)))),
       (''fast_react'', show_int 0), (''mi'', show_int 0), (''int_multi'', show_int 1),
       (''ewma_gain'', repr_float (Fin (1 / 256))), (''kmax_map'', kmax_map (ck_bw k)),
       (''kmin_map'', kmin_map (ck_bw k)), (''pmax_map'', pmax), (''link_degrade'', ck_link_degrade k),
       (''link_degrade_direction'', link_degrade_direction args),
       (''letflow_flowlet_timeout_us'', show_int (letflow_flowlet_timeout_us s)),
       (''sflowlet_weight_mode'', show_int (ck_weight_mode k)),
       (''sflowlet_est_time_us'', show_int (sflowlet_est_time_us s)),
       (''sflowlet_ewma_beta'', repr_float (sflowlet_ewma_beta s)),
       (''sflowlet_persist_windows'', show_int (sflowlet_persist_windows s)),
       (''sflowlet_degrade_ratio'', repr_float (sflowlet_degrade_ratio s)),
       (''sflowlet_backlog_thresh_bytes'', show_int (sflowlet_backlog_thresh_bytes s)),
       (''sflowlet_flowlet_timeout_us'', show_int (sflowlet_flowlet_timeout_us s)),
       (''sflowlet_switch_log'', show_int (sflowlet_switch_log s)),
       (''sflowlet_ooo_log'', show_int (sflowlet_ooo_log s)), (''v5_nsub'', show_int (v5_nsub v)),
       (''v5_chunk_bytes'', show_int (v5_chunk_bytes v)),
       (''v5_size_gate_bytes'', show_int (v5_size_gate_bytes v)),
       (''v5_oracle_policy'', v5_oracle_policy v), (''v5_policy'', ck_policy k),
       (''v5_oracle_bad_spine'', show_int (v5_oracle_bad_spine v)),
       (''v5_chunk_commit_rate_gbps'', repr_float (v5_chunk_commit_rate_gbps v)),
       (''v5_chunk_log'', show_int (v5_chunk_log v)), (''v5_qp_pool'', show_int (v5_qp_pool v)),
       (''v5_qp_pool_size'', show_int (v5_qp_pool_size v)), (''v5_wqe_log'', show_int (v5_wqe_log v)),
       (''v5_qp_state_log'', show_int (v5_qp_state_log v)),
       (''v5_estimator_enable'', show_int (v5_estimator_enable v)),
       (''v5_estimator_log'', show_int (v5_estimator_log v)),
       (''v5_estimator_stale_periods'', show_int (v5_estimator_stale_periods v)),
       (''v5_probe_period_us'', show_int (v5_probe_period_us v)),
       (''v5_probe_bytes'', show_int (v5_probe_bytes v)),
       (''v5_binary_hold_us'', show_int (v5_binary_hold_us v)),
       (''v5_seqbalance_phi_us'', show_int (v5_seqbalance_phi_us v)),
       (''host_sensing_enable'', show_int (host_sensing_enable h)),
       (''host_sensing_app_lanes'', hs_app_lanes_str hs),
       (''host_sensing_target_app_id'', show_int (host_sensing_target_app_id h)),
       (''host_sensing_target_source'', show_int (host_sensing_target_source h)),
       (''host_sensing_target_destination'', show_int (host_sensing_target_destination h)),
       (''host_sensing_target_pg'', show_int (host_sensing_target_pg h)),
       (''host_sensing_target_lane'', show_int (host_sensing_target_lane h)),
       (''host_sensing_truth_node_a'', show_int (hs_truth_node_a hs)),
       (''host_sensing_truth_node_b'', show_int (hs_truth_node_b hs)),
       (''host_sensing_nominal_rate_bps'', show_int (hs_nominal_rate_bps hs)),
       (''host_sensing_delivery_window_us'', show_int (host_sensing_delivery_window_us h)),
       (''host_sensing_ewma_beta'', repr_float (host_sensing_ewma_beta h)),
       (''host_sensing_probe_bytes'', show_int (host_sensing_probe_bytes h)),
       (''host_sensing_probe_period_us'', show_int (host_sensing_probe_period_us h)),
       (''host_sensing_probe_timeout_us'', show_int (host_sensing_probe_timeout_us h)),
       (''host_sensing_warmup_us'', show_int (host_sensing_warmup_us h)),
       (''host_sensing_min_baseline_samples'', show_int (host_sensing_min_baseline_samples h)),
       (''native_resource_log'', show_int (native_resource_log d)),
       (''native_qp_mechanism_log'', show_int (native_qp_mechanism_log d)),
       (''conweave_causal_trace'', show_int (conweave_causal_trace d)),
       (''monitor_until_complete'', show_int (monitor_until_complete d)),
       (''native_diag_log'', show_int (native_diag_log d)),
       (''native_diag_interval_ns'', show_int (native_diag_interval_ns d)),
       (''random_seed'', show_int (seed c))])"

text \<open>
  \<open>config\<close> is assigned in the DCQCN branch only; the other branch prints a message, and the write that
  follows reads an unbound variable.
\<close>

definition config_text ::
  "run_args \<Rightarrow> checked \<Rightarrow> cwh_params \<Rightarrow> string \<Rightarrow> string \<Rightarrow> string res" where
  "config_text args k cwh config_ID flow_path =
     bindE (pmax_map (ck_bw k)) (\<lambda>pmax.
     if ck_cc_mode k = 1 then
       bindE (int_true_div (10 * ck_bw k) 25) (\<lambda>ai.
       bindE (int_true_div (25 * ck_bw k) 25) (\<lambda>hai.
       py_format (config_env args k cwh config_ID flow_path ai hai pmax)
         (concat (map (\<lambda>l. l @ nl) config_template))))
     else Inl (UnboundLocalError ''config''))"

section \<open>Formatting line by line\<close>

lemma py_format_append:
  "py_format env a = Inr x \<Longrightarrow> py_format env (a @ b) = bindE (py_format env b) (\<lambda>t. Inr (x @ t))"
proof (induction env a arbitrary: x rule: py_format.induct)
  case (1 env)
  then show ?case by (simp add: bindE_def split: sum.splits)
next
  case (2 env c cs)
  show ?case
  proof (cases "c = CHR 0x7B")
    case True
    have "dropWhile (\<lambda>x. x \<noteq> CHR 0x7D) cs \<noteq> []"
    proof
      assume e: "dropWhile (\<lambda>x. x \<noteq> CHR 0x7D) cs = []"
      show False using "2.prems" by (simp add: True e Let_def del: dropWhile_eq_Nil_conv)
    qed
    then obtain d r' where r: "dropWhile (\<lambda>x. x \<noteq> CHR 0x7D) cs = d # r'"
      by (meson neq_Nil_conv)
    have m: "CHR 0x7D \<in> set cs"
    proof (rule ccontr)
      assume n: "CHR 0x7D \<notin> set cs"
      have "\<forall>x \<in> set cs. x \<noteq> CHR 0x7D" using n by metis
      then have e: "dropWhile (\<lambda>x. x \<noteq> CHR 0x7D) cs = []" by (simp only: dropWhile_eq_Nil_conv simp_thms)
      show False using r unfolding e by simp
    qed
    have ap: "takeWhile (\<lambda>x. x \<noteq> CHR 0x7D) (cs @ b) = takeWhile (\<lambda>x. x \<noteq> CHR 0x7D) cs"
      by (rule takeWhile_append1[OF m]) simp
    have ap': "dropWhile (\<lambda>x. x \<noteq> CHR 0x7D) (cs @ b) = d # (r' @ b)"
      by (subst dropWhile_append1[OF m]) (simp_all only: r append_Cons simp_thms not_True_eq_False)
    obtain v t where v: "lookup_key (map_of env) (takeWhile (\<lambda>x. x \<noteq> CHR 0x7D) cs) = Inr v"
      and t: "py_format env r' = Inr t" "x = v @ t"
      using "2.prems" True r by (auto simp: Let_def bindE_Inr_iff)
    have "py_format env (r' @ b) = bindE (py_format env b) (\<lambda>u. Inr (t @ u))"
      using "2.IH"(1)[OF True refl refl r v] t(1) by blast
    then show ?thesis using True ap ap' v t(2)
      by (cases "py_format env b") (simp_all add: Let_def)
  next
    case False
    then obtain t where t: "c \<noteq> CHR 0x7D" "py_format env cs = Inr t" "x = c # t"
      using "2.prems" by (auto simp: bindE_Inr_iff split: if_splits)
    then have "py_format env (cs @ b) = bindE (py_format env b) (\<lambda>u. Inr (t @ u))"
      using "2.IH"(2)[OF False t(1)] by blast
    then show ?thesis using False t by (cases "py_format env b") simp_all
  qed
qed

lemma py_format_literal:
  "\<forall>c \<in> set s. c \<noteq> CHR 0x7B \<and> c \<noteq> CHR 0x7D \<Longrightarrow> py_format env s = Inr s"
  by (induction s) auto

lemma py_format_lines:
  assumes "\<And>l. l \<in> set ls \<Longrightarrow> py_format env l = Inr (f l)"
  shows "py_format env (concat (map (\<lambda>l. l @ nl) ls)) = Inr (concat (map (\<lambda>l. f l @ nl) ls))"
  using assms
proof (induction ls)
  case (Cons l ls)
  have n: "py_format env nl = Inr nl" by (rule py_format_literal) (simp add: nl_def)
  have "py_format env (l @ nl) = Inr (f l @ nl)"
    using py_format_append[of env l "f l" nl] Cons.prems n by simp
  then show ?case using py_format_append[of env "l @ nl" "f l @ nl"] Cons by simp
qed simp

text \<open>The names a format string asks for, when its braces are balanced.\<close>

function holes :: "string \<Rightarrow> string list option" where
  "holes [] = Some []"
| "holes (c # cs) =
     (if c = CHR 0x7B then
        (case dropWhile (\<lambda>x. x \<noteq> CHR 0x7D) cs of
           [] \<Rightarrow> None
         | _ # r \<Rightarrow> map_option (Cons (takeWhile (\<lambda>x. x \<noteq> CHR 0x7D) cs)) (holes r))
      else if c = CHR 0x7D then None else holes cs)"
  by pat_completeness auto
termination
proof (relation "measure length", goal_cases)
  case (2 c cs b r)
  then have "length (b # r) \<le> length cs" by (metis length_dropWhile_le)
  then show ?case by simp
qed simp_all

lemma py_format_total:
  "holes s = Some ns \<Longrightarrow> set ns \<subseteq> set (map fst env) \<Longrightarrow> \<exists>t. py_format env s = Inr t"
proof (induction s arbitrary: ns rule: holes.induct)
  case (2 c cs)
  show ?case
  proof (cases "c = CHR 0x7B")
    case True
    obtain d r ms where r: "dropWhile (\<lambda>x. x \<noteq> CHR 0x7D) cs = d # r" "holes r = Some ms"
      "ns = takeWhile (\<lambda>x. x \<noteq> CHR 0x7D) cs # ms"
      using "2.prems"(1) True by (auto split: list.splits)
    have "takeWhile (\<lambda>x. x \<noteq> CHR 0x7D) cs \<in> fst ` set env" using "2.prems"(2) r(3) by simp
    then obtain v where "map_of env (takeWhile (\<lambda>x. x \<noteq> CHR 0x7D) cs) = Some v"
      by (metis dom_map_of_conv_image_fst domIff not_None_eq)
    moreover obtain t where "py_format env r = Inr t"
      using "2.IH"(1)[OF True r(1) r(2)] "2.prems"(2) r(3) by auto
    ultimately show ?thesis using True r(1) by (simp add: Let_def lookup_key_def)
  next
    case False
    then have "c \<noteq> CHR 0x7D" "holes cs = Some ns" using "2.prems"(1) by (auto split: if_splits)
    then obtain t where "py_format env cs = Inr t" using "2.IH"(2) False "2.prems"(2) by blast
    then show ?thesis using False \<open>c \<noteq> CHR 0x7D\<close> by simp
  qed
qed simp

definition template_names :: "string list" where
  "template_names = concat (map (\<lambda>l. case holes l of Some ns \<Rightarrow> ns | None \<Rightarrow> []) config_template)"

lemma template_balanced: "list_all (\<lambda>l. holes l \<noteq> None) config_template"
  by code_simp

text \<open>The names that \<open>main\<close> passes to \<open>format\<close>.\<close>

definition config_names :: "string list" where
  "config_names = [
     ''id'', ''topo'', ''flow_file'', ''qlen_mon_start'', ''qlen_mon_end'', ''flowgen_start_time'',
     ''flowgen_stop_time'', ''sw_monitoring_interval'', ''load'', ''buffer_size'', ''lb_mode'',
     ''cwh_tx_expiry_time'', ''cwh_extra_reply_deadline'', ''cwh_default_voq_waiting_time'',
     ''cwh_path_pause_time'', ''cwh_extra_voq_flush_time'', ''enabled_pfc'', ''enabled_irn'',
     ''cc_mode'', ''ai'', ''hai'', ''dctcp_ai'', ''has_win'', ''var_win'', ''fast_react'', ''mi'',
     ''int_multi'', ''ewma_gain'', ''kmax_map'', ''kmin_map'', ''pmax_map'', ''link_degrade'',
     ''link_degrade_direction'', ''letflow_flowlet_timeout_us'', ''sflowlet_weight_mode'',
     ''sflowlet_est_time_us'', ''sflowlet_ewma_beta'', ''sflowlet_persist_windows'',
     ''sflowlet_degrade_ratio'', ''sflowlet_backlog_thresh_bytes'', ''sflowlet_flowlet_timeout_us'',
     ''sflowlet_switch_log'', ''sflowlet_ooo_log'', ''v5_nsub'', ''v5_chunk_bytes'',
     ''v5_size_gate_bytes'', ''v5_oracle_policy'', ''v5_policy'', ''v5_oracle_bad_spine'',
     ''v5_chunk_commit_rate_gbps'', ''v5_chunk_log'', ''v5_qp_pool'', ''v5_qp_pool_size'',
     ''v5_wqe_log'', ''v5_qp_state_log'', ''v5_estimator_enable'', ''v5_estimator_log'',
     ''v5_estimator_stale_periods'', ''v5_probe_period_us'', ''v5_probe_bytes'', ''v5_binary_hold_us'',
     ''v5_seqbalance_phi_us'', ''host_sensing_enable'', ''host_sensing_app_lanes'',
     ''host_sensing_target_app_id'', ''host_sensing_target_source'',
     ''host_sensing_target_destination'', ''host_sensing_target_pg'', ''host_sensing_target_lane'',
     ''host_sensing_truth_node_a'', ''host_sensing_truth_node_b'', ''host_sensing_nominal_rate_bps'',
     ''host_sensing_delivery_window_us'', ''host_sensing_ewma_beta'', ''host_sensing_probe_bytes'',
     ''host_sensing_probe_period_us'', ''host_sensing_probe_timeout_us'', ''host_sensing_warmup_us'',
     ''host_sensing_min_baseline_samples'', ''native_resource_log'', ''native_qp_mechanism_log'',
     ''conweave_causal_trace'', ''monitor_until_complete'', ''native_diag_log'',
     ''native_diag_interval_ns'', ''random_seed'']"

lemma config_env_names: "map fst (config_env args k cwh i f ai hai p) = config_names"
  by (simp only: config_env_def config_names_def Let_def list.map fst_conv)

text \<open>
  The names of the template are names of \<open>config_names\<close>: the positions below show where each is.
\<close>

lemma template_names_at:
  "template_names = map (nth config_names)
    [
     1, 2, 0, 0, 0, 0, 0, 0, 0, 0, 0, 0, 0, 0, 0, 0, 0, 0, 0, 0, 0, 0, 0, 0, 3, 4, 7, 5, 6, 9,
     18, 10, 16, 17, 11, 12, 14, 15, 13, 33, 34, 35, 36, 37, 38, 39, 40, 41, 42, 43, 44, 45,
     46, 47, 48, 49, 50, 51, 52, 53, 54, 55, 56, 57, 58, 59, 60, 61, 62, 63, 64, 65, 66, 67,
     68, 69, 70, 71, 72, 73, 74, 75, 76, 77, 78, 79, 80, 81, 0, 0, 82, 0, 0, 0, 0, 0, 0, 0, 0,
     83, 84, 0, 0, 0, 0, 0, 0, 0, 0, 0, 0, 0, 0, 0, 0, 0, 0, 0, 0, 0, 0, 0, 0, 0, 0, 27, 19,
     20, 21, 22, 23, 24, 25, 26, 32, 31, 28, 29, 30, 8, 85]"
  by code_simp

lemma nth_map_subset: "xs = map (nth ys) is \<Longrightarrow> list_all (\<lambda>i. i < length ys) is \<Longrightarrow> set xs \<subseteq> set ys"
  by (auto simp: list_all_iff)

lemma template_names_bound: "set template_names \<subseteq> set config_names"
  by (rule nth_map_subset[OF template_names_at]) code_simp

lemma config_complete:
  assumes "\<bar>ck_bw k\<bar> \<le> 10 ^ 12"
  shows "(if ck_cc_mode k = 1 then \<exists>txt. config_text args k cwh config_ID flow_path = Inr txt
          else config_text args k cwh config_ID flow_path = Inl (UnboundLocalError ''config''))"
proof -
  obtain pmax where p: "pmax_map (ck_bw k) = Inr pmax"
  proof -
    have "int_of_float (lit (1 / 5)) = Inr 0" by code_simp
    then show thesis using that by (simp add: pmax_map_def)
  qed
  have q: "\<exists>x. int_true_div (c * ck_bw k) 25 = Inr x" if "\<bar>c\<bar> \<le> 25" for c
  proof -
    have "\<bar>c * ck_bw k\<bar> \<le> 25 * 10 ^ 12" unfolding abs_mult using assms that by (intro mult_mono) auto
    then have "\<bar>of_int (c * ck_bw k) :: rat\<bar> \<le> of_int (25 * 10 ^ 12)"
      by (metis of_int_abs of_int_le_iff)
    then have "\<bar>of_int (c * ck_bw k) / 25 :: rat\<bar> \<le> 2 ^ 50" by (simp add: abs_le_iff)
    then have "fround (of_int (c * ck_bw k) / 25) = Fin (rnd53 (of_int (c * ck_bw k) / 25))"
      by (rule fround_small) simp
    then show ?thesis by (simp add: int_true_div_def)
  qed
  obtain ai hai where ai: "int_true_div (10 * ck_bw k) 25 = Inr ai" "int_true_div (25 * ck_bw k) 25 = Inr hai"
    using q[of 10] q[of 25] by auto
  define env where "env = config_env args k cwh config_ID flow_path ai hai pmax"
  have "\<exists>t. py_format env l = Inr t" if l: "l \<in> set config_template" for l
  proof -
    obtain ns where ns: "holes l = Some ns" using template_balanced l by (auto simp: list_all_iff)
    have "set ns \<subseteq> set template_names" using l ns by (auto simp: template_names_def intro!: bexI[of _ l])
    then have "set ns \<subseteq> set (map fst env)" using template_names_bound unfolding env_def config_env_names by blast
    then show ?thesis using py_format_total[OF ns] by blast
  qed
  then obtain f where "\<And>l. l \<in> set config_template \<Longrightarrow> py_format env l = Inr (f l)" by metis
  then have "py_format env (concat (map (\<lambda>l. l @ nl) config_template))
      = Inr (concat (map (\<lambda>l. f l @ nl) config_template))" by (rule py_format_lines)
  then show ?thesis using p ai by (simp add: config_text_def env_def)
qed

section \<open>Reading the configuration back\<close>

text \<open>The values of a key: what follows \<open>KEY \<close> on the lines that start with it.\<close>

definition config_values :: "string \<Rightarrow> string \<Rightarrow> string list" where
  "config_values txt key =
     map (drop (length key + 1)) (filter (has_prefix (key @ '' '')) (split_char (CHR 0x0A) txt))"

definition key_of :: "string \<Rightarrow> string" where
  "key_of l = takeWhile (\<lambda>c. c \<noteq> CHR '' '') l"

definition plain_key :: "string \<Rightarrow> bool" where
  "plain_key l \<longleftrightarrow> l = [] \<or>
     (list_all (\<lambda>c. c \<noteq> CHR 0x7B \<and> c \<noteq> CHR 0x7D) (key_of l) \<and> drop (length (key_of l)) l \<noteq> [] \<and>
      hd (drop (length (key_of l)) l) = CHR '' '')"

lemma template_plain: "list_all plain_key config_template"
  by code_simp

lemma format_plain:
  assumes "plain_key l" "l \<noteq> []" "py_format env l = Inr t"
  shows "\<exists>r. t = key_of l @ CHR '' '' # r"
proof -
  obtain r0 where l: "l = key_of l @ '' '' @ r0"
    using assms(1,2) unfolding plain_key_def key_of_def
    by (metis append_Cons append_Nil append_take_drop_id hd_Cons_tl takeWhile_eq_take)
  have "py_format env (key_of l @ '' '') = Inr (key_of l @ '' '')"
    using assms(1,2) by (intro py_format_literal) (auto simp: plain_key_def list_all_iff)
  then have "py_format env ((key_of l @ '' '') @ r0) = bindE (py_format env r0) (\<lambda>t. Inr ((key_of l @ '' '') @ t))"
    by (rule py_format_append)
  then have "bindE (py_format env r0) (\<lambda>t. Inr ((key_of l @ '' '') @ t)) = Inr t"
    using assms(3) l by (metis append_assoc)
  then show ?thesis by (auto simp: bindE_Inr_iff)
qed

lemma key_no_space: "CHR '' '' \<notin> set (key_of l)"
  by (auto simp: key_of_def dest: set_takeWhileD)

lemma has_prefix_key:
  assumes "CHR '' '' \<notin> set key" "CHR '' '' \<notin> set w"
  shows "has_prefix (key @ '' '') (w @ CHR '' '' # r) \<longleftrightarrow> key = w"
proof
  assume "has_prefix (key @ '' '') (w @ CHR '' '' # r)"
  then obtain u where "w @ CHR '' '' # r = key @ CHR '' '' # u" by (auto simp: has_prefix_iff)
  then have "takeWhile (\<lambda>c. c \<noteq> CHR '' '') (w @ CHR '' '' # r) = takeWhile (\<lambda>c. c \<noteq> CHR '' '') (key @ CHR '' '' # u)"
    by simp
  moreover have "takeWhile (\<lambda>c. c \<noteq> CHR '' '') (x @ CHR '' '' # y) = x" if "CHR '' '' \<notin> set x" for x y
    using that by (simp add: takeWhile_tail) (metis (mono_tags, lifting) takeWhile_eq_all_conv)
  ultimately show "key = w" using assms by metis
qed (simp add: has_prefix_iff)

lemma split_char_lines:
  "\<forall>w \<in> set ws. CHR 0x0A \<notin> set w \<Longrightarrow> split_char (CHR 0x0A) (concat (map (\<lambda>w. w @ nl) ws)) = ws @ [[]]"
proof (induction ws)
  case (Cons w ws)
  then show ?case using split_char_append[of "CHR 0x0A" w] by (simp add: nl_def)
qed simp

lemma config_values_lines:
  assumes "\<And>l. l \<in> set ls \<Longrightarrow> py_format env l = Inr (f l)" and "\<And>l. l \<in> set ls \<Longrightarrow> CHR 0x0A \<notin> set (f l)"
    and "list_all plain_key ls" and "key \<noteq> []" and "CHR '' '' \<notin> set key"
  shows "config_values (concat (map (\<lambda>l. f l @ nl) ls)) key
    = map (\<lambda>l. drop (length key + 1) (f l)) (filter (\<lambda>l. key_of l = key) ls)"
proof -
  have sp: "split_char (CHR 0x0A) (concat (map (\<lambda>l. f l @ nl) ls)) = map f ls @ [[]]"
    using split_char_lines[of "map f ls"] assms(2) by (auto simp: comp_def)
  have hp: "has_prefix (key @ '' '') (f l) \<longleftrightarrow> key_of l = key" if l: "l \<in> set ls" for l
  proof (cases "l = []")
    case True
    then show ?thesis using assms(1)[OF l] assms(4) by (auto simp: has_prefix_def key_of_def)
  next
    case False
    then obtain r where "f l = key_of l @ CHR '' '' # r"
      using format_plain[OF _ False assms(1)[OF l]] assms(3) l by (auto simp: list_all_iff)
    then show ?thesis using has_prefix_key[OF assms(5) key_no_space] by metis
  qed
  have "filter (has_prefix (key @ '' '')) (map f ls @ [[]]) = map f (filter (\<lambda>l. key_of l = key) ls)"
    using hp assms(4) by (simp add: filter_map comp_def has_prefix_def cong: filter_cong)
  then show ?thesis by (simp add: config_values_def sp)
qed

text \<open>The strings of a format without newlines are free of newlines.\<close>

lemma py_format_no_nl:
  assumes "py_format env s = Inr t" "CHR 0x0A \<notin> set s" "\<forall>(n, v) \<in> set env. CHR 0x0A \<notin> set v"
  shows "CHR 0x0A \<notin> set t"
  using assms
proof (induction env s arbitrary: t rule: py_format.induct)
  case (2 env c cs)
  show ?case
  proof (cases "c = CHR 0x7B")
    case True
    define n where "n = takeWhile (\<lambda>x. x \<noteq> CHR 0x7D) cs"
    show ?thesis
    proof (cases "dropWhile (\<lambda>x. x \<noteq> CHR 0x7D) cs")
      case Nil
      then show ?thesis using "2.prems"(1) True by (simp add: Let_def del: dropWhile_eq_Nil_conv)
    next
      case (Cons d r)
      obtain v u where v: "lookup_key (map_of env) n = Inr v" and u: "py_format env r = Inr u" "t = v @ u"
        using "2.prems"(1) True Cons by (auto simp: Let_def bindE_Inr_iff n_def)
      have "CHR 0x0A \<notin> set r"
        using "2.prems"(2) Cons by (metis dropWhile_eq_drop in_set_dropD list.set_intros(2))
      then have "CHR 0x0A \<notin> set u" using "2.IH"(1)[OF True refl refl Cons v[unfolded n_def] u(1)] "2.prems"(3) by blast
      moreover have "CHR 0x0A \<notin> set v"
        using v "2.prems"(3) by (auto simp: lookup_key_def dest!: map_of_SomeD)
      ultimately show ?thesis using u(2) by simp
    qed
  next
    case False
    then obtain u where u: "c \<noteq> CHR 0x7D" "py_format env cs = Inr u" "t = c # u"
      using "2.prems"(1) by (auto simp: bindE_Inr_iff split: if_splits)
    then have "CHR 0x0A \<notin> set u" using "2.IH"(2)[OF False u(1) u(2)] "2.prems"(2,3) by auto
    then show ?thesis using u(3) "2.prems"(2) by auto
  qed
qed simp

lemma digits_no_nl: "\<forall>c \<in> set s. is_digit c \<Longrightarrow> CHR 0x0A \<notin> set s"
  by (auto simp: is_digit_def)

lemma show_nat_no_nl [simp]: "CHR 0x0A \<notin> set (show_nat n)"
  by (rule digits_no_nl) (auto intro: show_nat_is_digit)

lemma show_int_no_nl [simp]: "CHR 0x0A \<notin> set (show_int n)"
  by (simp add: show_int_def)

lemma repr_pos_no_nl: "CHR 0x0A \<notin> set (repr_pos x)"
proof -
  have "CHR 0x0A \<notin> set (take n (show_nat m))" "CHR 0x0A \<notin> set (drop n (show_nat m))" for n m
    using show_nat_no_nl by (metis in_set_takeD, metis in_set_dropD)
  then show ?thesis by (auto simp: repr_pos_def Let_def pad_zeros_def split: prod.splits)
qed

lemma repr_float_no_nl [simp]: "CHR 0x0A \<notin> set (repr_float x)"
  using repr_pos_no_nl by (cases x) auto

lemma py_join_no_nl: "CHR 0x0A \<notin> set sep \<Longrightarrow> \<forall>w \<in> set ws. CHR 0x0A \<notin> set w \<Longrightarrow> CHR 0x0A \<notin> set (py_join sep ws)"
  by (induction sep ws rule: py_join.induct) auto

lemma fmt_fixed_no_nl: "CHR 0x0A \<notin> set (fmt_fixed k x)"
proof (cases x)
  case (Fin r)
  then show ?thesis using fmt_fixed_clean[of "CHR 0x0A" k r] by (auto simp: is_ws_def simp del: fmt_fixed.simps)
qed auto

lemma k_map_no_nl [simp]: "CHR 0x0A \<notin> set (k_map b k)"
proof -
  have "CHR 0x0A \<notin> set (py_join '' '' (map (\<lambda>r. show_int r @ '' '' @ show_int k) (link_rates b)))"
    by (rule py_join_no_nl) auto
  then show ?thesis by (simp add: k_map_def)
qed

lemma pmax_no_nl: "pmax_map b = Inr s \<Longrightarrow> CHR 0x0A \<notin> set s"
  by (auto simp: pmax_map_def bindE_Inr_iff link_rates_def fmt_fixed_no_nl intro!: py_join_no_nl
      simp del: fmt_fixed.simps)

definition text_values :: "run_args \<Rightarrow> checked \<Rightarrow> string \<Rightarrow> string \<Rightarrow> string list" where
  "text_values args k config_ID flow_path =
     [config_ID, flow_path, topo (core args), buffer_mb (core args), v5_oracle_policy (v5 args), ck_policy k,
      ck_link_degrade k, hs_app_lanes_str (ck_host k), link_degrade_direction args]"

lemma config_env_no_nl:
  assumes "list_all (\<lambda>s. CHR 0x0A \<notin> set s) (text_values args k i f)" "CHR 0x0A \<notin> set p"
  shows "\<forall>(n, v) \<in> set (config_env args k cwh i f ai hai p). CHR 0x0A \<notin> set v"
proof -
  have "list_all (\<lambda>v. CHR 0x0A \<notin> set v) (map snd (config_env args k cwh i f ai hai p))"
    using assms
    by (simp only: config_env_def Let_def list.map snd_conv list.pred_inject text_values_def
        show_int_no_nl repr_float_no_nl k_map_no_nl kmax_map_def kmin_map_def simp_thms)
  then show ?thesis by (auto simp: list_all_iff)
qed

lemma template_keys:
  "filter (\<lambda>l. key_of l = ''CC_MODE'') config_template = [''CC_MODE {cc_mode}'']"
  "filter (\<lambda>l. key_of l = ''LB_MODE'') config_template = [''LB_MODE {lb_mode}'']"
  "filter (\<lambda>l. key_of l = ''ENABLE_PFC'') config_template = [''ENABLE_PFC {enabled_pfc}'']"
  "filter (\<lambda>l. key_of l = ''ENABLE_IRN'') config_template = [''ENABLE_IRN {enabled_irn}'']"
  "filter (\<lambda>l. key_of l = ''TOPOLOGY_FILE'') config_template = [''TOPOLOGY_FILE config/{topo}.txt'']"
  "filter (\<lambda>l. key_of l = ''FLOW_FILE'') config_template = [''FLOW_FILE {flow_file}'']"
  "filter (\<lambda>l. key_of l = ''RANDOM_SEED'') config_template = [''RANDOM_SEED {random_seed}'']"
  "filter (\<lambda>l. key_of l = ''V5_POLICY'') config_template = [''V5_POLICY {v5_policy}'']"
  "filter (\<lambda>l. key_of l = ''LINK_DEGRADE'') config_template = [''LINK_DEGRADE {link_degrade}'']"
  "filter (\<lambda>l. key_of l = ''HOST_SENSING_APP_LANES'') config_template
     = [''HOST_SENSING_APP_LANES {host_sensing_app_lanes}'']"
  by code_simp+

lemma template_no_nl: "list_all (\<lambda>l. \<not> List.member l (CHR 0x0A)) config_template"
  by code_simp

text \<open>
  C16. What the simulator reads is what the options said: in the text that \<open>config_text\<close> produces,
  each of these keys is on exactly one line, with the value of the option (no string option
  containing a newline).
\<close>

theorem config_readback:
  assumes "config_text args k cwh config_ID flow_path = Inr txt"
    and "list_all (\<lambda>s. CHR 0x0A \<notin> set s) (text_values args k config_ID flow_path)"
  shows "config_values txt ''CC_MODE'' = [show_int (ck_cc_mode k)] \<and>
    config_values txt ''LB_MODE'' = [show_int (ck_lb_mode k)] \<and>
    config_values txt ''ENABLE_PFC'' = [show_int (pfc (core args))] \<and>
    config_values txt ''ENABLE_IRN'' = [show_int (irn (core args))] \<and>
    config_values txt ''TOPOLOGY_FILE'' = [''config/'' @ topo (core args) @ ''.txt''] \<and>
    config_values txt ''FLOW_FILE'' = [flow_path] \<and>
    config_values txt ''RANDOM_SEED'' = [show_int (seed (core args))] \<and>
    config_values txt ''V5_POLICY'' = [ck_policy k] \<and>
    config_values txt ''LINK_DEGRADE'' = [ck_link_degrade k] \<and>
    config_values txt ''HOST_SENSING_APP_LANES'' = [hs_app_lanes_str (ck_host k)]"
proof -
  obtain pmax ai hai where p: "pmax_map (ck_bw k) = Inr pmax"
    and run: "py_format (config_env args k cwh config_ID flow_path ai hai pmax)
      (concat (map (\<lambda>l. l @ nl) config_template)) = Inr txt"
    using assms(1) by (auto simp: config_text_def bindE_Inr_iff split: if_splits)
  define env where "env = config_env args k cwh config_ID flow_path ai hai pmax"
  have nn: "\<forall>(n, v) \<in> set env. CHR 0x0A \<notin> set v"
    unfolding env_def by (rule config_env_no_nl[OF assms(2) pmax_no_nl[OF p]])
  have tot: "\<exists>t. py_format env l = Inr t" if l: "l \<in> set config_template" for l
  proof -
    obtain ns where ns: "holes l = Some ns" using template_balanced l by (auto simp: list_all_iff)
    have "set ns \<subseteq> set template_names" using l ns by (auto simp: template_names_def intro!: bexI[of _ l])
    then have "set ns \<subseteq> set (map fst env)" using template_names_bound unfolding env_def config_env_names by blast
    then show ?thesis using py_format_total[OF ns] by blast
  qed
  then obtain f where f: "\<And>l. l \<in> set config_template \<Longrightarrow> py_format env l = Inr (f l)" by metis
  have out: "txt = concat (map (\<lambda>l. f l @ nl) config_template)"
    using run py_format_lines[OF f] by (simp add: env_def)
  have fn: "CHR 0x0A \<notin> set (f l)" if l: "l \<in> set config_template" for l
    using template_no_nl l by (intro py_format_no_nl[OF f[OF l] _ nn]) (auto simp: list_all_iff)
  have val: "config_values txt key = [drop (length key + 1) t]"
    if "filter (\<lambda>l. key_of l = key) config_template = [l]" "py_format env l = Inr t" "key \<noteq> []"
      "CHR '' '' \<notin> set key" for key l t
  proof -
    have "l \<in> set config_template" using that(1) by (metis filter_is_subset list.set_intros(1) subset_iff)
    then have "f l = t" using f that(2) by force
    then show ?thesis
      unfolding out using config_values_lines[OF f fn template_plain that(3,4)] that(1) by simp
  qed
  note keys = template_keys[THEN val]
  have lk: "map_of env ''cc_mode'' = Some (show_int (ck_cc_mode k))"
    "map_of env ''lb_mode'' = Some (show_int (ck_lb_mode k))"
    "map_of env ''enabled_pfc'' = Some (show_int (pfc (core args)))"
    "map_of env ''enabled_irn'' = Some (show_int (irn (core args)))"
    "map_of env ''topo'' = Some (topo (core args))" "map_of env ''flow_file'' = Some flow_path"
    "map_of env ''random_seed'' = Some (show_int (seed (core args)))"
    "map_of env ''v5_policy'' = Some (ck_policy k)" "map_of env ''link_degrade'' = Some (ck_link_degrade k)"
    "map_of env ''host_sensing_app_lanes'' = Some (hs_app_lanes_str (ck_host k))"
    by (simp_all add: env_def config_env_def Let_def)
  show ?thesis
    by (intro conjI; subst keys; (simp add: lk Let_def lookup_key_def)?) simp_all
qed


theorem config_readback_witness:
  "\<exists>txt. config_text online_args online_checked
      \<lparr>cwh_extra_reply_deadline = 4, cwh_path_pause_time = 16, cwh_extra_voq_flush_time = 64,
       cwh_default_voq_waiting_time = 400, cwh_tx_expiry_time = 1000\<rparr> ''7'' ''f.txt'' = Inr txt \<and>
     config_values txt ''LB_MODE'' = [''6''] \<and> config_values txt ''FLOW_FILE'' = [''f.txt''] \<and>
     config_values txt ''V5_POLICY'' = [''online-proportional'']"
proof -
  let ?cwh = "\<lparr>cwh_extra_reply_deadline = 4, cwh_path_pause_time = 16, cwh_extra_voq_flush_time = 64,
       cwh_default_voq_waiting_time = 400, cwh_tx_expiry_time = 1000\<rparr>"
  obtain out where out: "config_text online_args online_checked ?cwh ''7'' ''f.txt'' = Inr out"
    using config_complete[of online_checked online_args ?cwh "''7''" "''f.txt''"]
    by (auto simp: online_checked_def)
  have "list_all (\<lambda>s. CHR 0x0A \<notin> set s) (text_values online_args online_checked ''7'' ''f.txt'')"
  proof -
    have "link_degrade_direction online_args = ''BOTH''" by code_simp
    then show ?thesis
      by (simp add: text_values_def online_args_def online_checked_def core_defaults_def v5_defaults_def)
  qed
  from config_readback[OF out this] out show ?thesis
    by (simp add: online_checked_def show_int_def show_nat.simps digit_char_def)
qed

end
