(* ===== verification/FlowFile.thy ===== *)
theory FlowFile
  imports TrafficGen
begin

text \<open>
  \<open>validate_flow_file\<close> of \<open>run.py\<close>: the check every traffic trace goes through before a simulation.
  The text of the file is an argument; its digest and absolute path, which only go into the returned
  metadata, are computed by parameters. Each \<open>raise\<close> is a constructor of \<open>flow_error\<close>, with the line
  number it reports.
\<close>

datatype flow_error =
    HeaderFields
  | HeaderNumber
  | NegativeCount
  | FieldCount nat nat
  | BadNumber nat
  | BadEndpoints nat int int
  | BadPgOrSize nat
  | OutsideWindow nat pyfloat
  | NotOrdered nat pyfloat pyfloat
  | CountMismatch int nat

record trace_metadata =
  absolute_path :: string
  flow_count :: nat
  sha256 :: string

record flow_row =
  row_src :: int
  row_dst :: int
  row_pg :: int
  row_size :: int
  row_start :: pyfloat

text \<open>\<open>src, dst, pg, size = map(int, fields[:4])\<close> and \<open>flow_start = float(fields[4])\<close>.\<close>

definition parse_fields :: "string list \<Rightarrow> flow_row option" where
  "parse_fields flds =
     (case flds of
        [a, b, c, d, e] \<Rightarrow>
          (case (py_int a, py_int b, py_int c, py_int d, py_float e) of
             (Some src, Some dst, Some pg, Some sz, Some t) \<Rightarrow>
               Some \<lparr>row_src = src, row_dst = dst, row_pg = pg, row_size = sz, row_start = t\<rparr>
           | _ \<Rightarrow> None)
      | _ \<Rightarrow> None)"

text \<open>The body of the loop: the checks of one row, in order; \<open>previous_start\<close> is \<open>None\<close> at first.\<close>

definition check_row ::
  "int \<Rightarrow> pyfloat \<Rightarrow> pyfloat \<Rightarrow> nat \<Rightarrow> pyfloat option \<Rightarrow> string \<Rightarrow> flow_error + pyfloat" where
  "check_row n_host start_time stop_time line_number previous_start line =
     (let flds = split_ws line in
      if length flds \<noteq> 5 then Inl (FieldCount line_number (length flds))
      else case parse_fields flds of
        None \<Rightarrow> Inl (BadNumber line_number)
      | Some r \<Rightarrow>
          if \<not> (0 \<le> row_src r \<and> row_src r < n_host \<and> 0 \<le> row_dst r \<and> row_dst r < n_host \<and>
                 row_src r \<noteq> row_dst r)
          then Inl (BadEndpoints line_number (row_src r) (row_dst r))
          else if row_pg r < 0 \<or> row_size r \<le> 0 then Inl (BadPgOrSize line_number)
          else if \<not> is_finite (row_start r) \<or>
                  \<not> (fle start_time (row_start r) \<and> fle (row_start r) stop_time)
          then Inl (OutsideWindow line_number (row_start r))
          else case previous_start of
                 Some p \<Rightarrow> if flt (row_start r) p then Inl (NotOrdered line_number (row_start r) p)
                           else Inr (row_start r)
               | None \<Rightarrow> Inr (row_start r))"

fun check_rows ::
  "int \<Rightarrow> pyfloat \<Rightarrow> pyfloat \<Rightarrow> nat \<Rightarrow> pyfloat option \<Rightarrow> nat \<Rightarrow> string list \<Rightarrow> flow_error + nat" where
  "check_rows n_host start_time stop_time line_number previous_start row_count [] = Inr row_count"
| "check_rows n_host start_time stop_time line_number previous_start row_count (line # lines) =
     (case check_row n_host start_time stop_time line_number previous_start line of
        Inl e \<Rightarrow> Inl e
      | Inr t \<Rightarrow> check_rows n_host start_time stop_time (line_number + 1) (Some t) (row_count + 1) lines)"

definition validate_flow_file ::
  "(string \<Rightarrow> string) \<Rightarrow> (string \<Rightarrow> string) \<Rightarrow> string \<Rightarrow> string \<Rightarrow> int \<Rightarrow> pyfloat \<Rightarrow> pyfloat \<Rightarrow>
     flow_error + trace_metadata" where
  "validate_flow_file digest abspath path contents n_host start_time stop_time =
     (let header = (case py_lines contents of [] \<Rightarrow> [] | l # ls \<Rightarrow> l);
          rest = tl (py_lines contents)
      in case split_ws header of
           [field] \<Rightarrow>
             (case py_int field of
                None \<Rightarrow> Inl HeaderNumber
              | Some declared_count \<Rightarrow>
                  if declared_count < 0 then Inl NegativeCount
                  else case check_rows n_host start_time stop_time 2 None 0 rest of
                         Inl e \<Rightarrow> Inl e
                       | Inr row_count \<Rightarrow>
                           if int row_count \<noteq> declared_count then Inl (CountMismatch declared_count row_count)
                           else Inr \<lparr>absolute_path = abspath path, flow_count = row_count,
                                      sha256 = digest contents\<rparr>)
         | _ \<Rightarrow> Inl HeaderFields)"

section \<open>Which files are accepted\<close>

definition row_ok :: "int \<Rightarrow> pyfloat \<Rightarrow> pyfloat \<Rightarrow> flow_row \<Rightarrow> bool" where
  "row_ok n start stop r \<longleftrightarrow>
     0 \<le> row_src r \<and> row_src r < n \<and> 0 \<le> row_dst r \<and> row_dst r < n \<and> row_src r \<noteq> row_dst r \<and>
     0 \<le> row_pg r \<and> 0 < row_size r \<and> is_finite (row_start r) \<and>
     fle start (row_start r) \<and> fle (row_start r) stop"

definition read_row :: "string \<Rightarrow> flow_row option" where
  "read_row line = parse_fields (split_ws line)"

text \<open>The starts are ordered: no start is below its predecessor.\<close>

definition starts_ordered :: "pyfloat option \<Rightarrow> flow_row list \<Rightarrow> bool" where
  "starts_ordered prev rs \<longleftrightarrow>
     successively (\<lambda>p q. \<not> flt q p) ((case prev of None \<Rightarrow> [] | Some p \<Rightarrow> [p]) @ map row_start rs)"

lemma parse_fields_5: "parse_fields fs = Some r \<Longrightarrow> length fs = 5"
  by (auto simp: parse_fields_def split: list.splits)

lemma check_row_Inr_iff:
  "check_row n start stop k prev line = Inr t \<longleftrightarrow>
     (\<exists>r. read_row line = Some r \<and> row_ok n start stop r \<and> t = row_start r \<and>
          (case prev of None \<Rightarrow> True | Some p \<Rightarrow> \<not> flt (row_start r) p))"
  by (auto simp: check_row_def read_row_def row_ok_def Let_def not_le not_less
      split: option.splits if_splits dest: parse_fields_5)

lemma starts_ordered_Cons:
  "starts_ordered prev (r # rs) \<longleftrightarrow>
     (case prev of None \<Rightarrow> True | Some p \<Rightarrow> \<not> flt (row_start r) p) \<and> starts_ordered (Some (row_start r)) rs"
  by (cases prev) (simp_all add: starts_ordered_def)

lemma check_rows_Inr_iff:
  "check_rows n start stop k prev c lines = Inr m \<longleftrightarrow>
     (\<exists>rs. list_all2 (\<lambda>l r. read_row l = Some r) lines rs \<and> list_all (row_ok n start stop) rs \<and>
           starts_ordered prev rs \<and> m = c + length lines)"
proof (induction lines arbitrary: k prev c)
  case Nil
  show ?case by (auto simp: starts_ordered_def split: option.splits)
next
  case (Cons l ls)
  have "check_rows n start stop k prev c (l # ls) = Inr m \<longleftrightarrow>
      (\<exists>t. check_row n start stop k prev l = Inr t \<and> check_rows n start stop (k + 1) (Some t) (c + 1) ls = Inr m)"
    by (auto split: sum.splits)
  also have "\<dots> \<longleftrightarrow> (\<exists>r rs. read_row l = Some r \<and> list_all2 (\<lambda>l r. read_row l = Some r) ls rs \<and>
      list_all (row_ok n start stop) (r # rs) \<and> starts_ordered prev (r # rs) \<and> m = c + length (l # ls))"
    by (auto simp: Cons.IH check_row_Inr_iff starts_ordered_Cons)
  also have "\<dots> \<longleftrightarrow> (\<exists>rs. list_all2 (\<lambda>l r. read_row l = Some r) (l # ls) rs \<and>
      list_all (row_ok n start stop) rs \<and> starts_ordered prev rs \<and> m = c + length (l # ls))"
    unfolding list_all2_Cons1 by blast
  finally show ?case .
qed

text \<open>
  C2. \<open>validate_flow_file\<close> accepts exactly the well-formed traces: the first line is one
  non-negative integer, every other line has five numeric fields that make an admissible flow (two
  different hosts of the topology, a priority group that is not negative, a positive size, a finite
  start inside the window), the starts never decrease, and the integer is the number of these lines.
\<close>

theorem validate_accepts_iff:
  "(\<exists>meta. validate_flow_file digest abspath path contents n start stop = Inr meta \<and> flow_count meta = m) \<longleftrightarrow>
   (\<exists>header lines field rs.
      py_lines contents = header # lines \<and> split_ws header = [field] \<and> py_int field = Some (int m) \<and>
      list_all2 (\<lambda>l r. read_row l = Some r) lines rs \<and> list_all (row_ok n start stop) rs \<and>
      starts_ordered None rs \<and> length rs = m)"
proof -
  have "(\<exists>meta. validate_flow_file digest abspath path contents n start stop = Inr meta \<and> flow_count meta = m) \<longleftrightarrow>
    (\<exists>header lines field. py_lines contents = header # lines \<and> split_ws header = [field] \<and>
       py_int field = Some (int m) \<and> check_rows n start stop 2 None 0 lines = Inr m)"
  proof (cases "py_lines contents")
    case Nil
    then show ?thesis by (simp add: validate_flow_file_def)
  next
    case (Cons header lines)
    show ?thesis
      by (auto simp: validate_flow_file_def Let_def Cons split: list.splits option.splits sum.splits)
  qed
  also have "\<dots> \<longleftrightarrow> (\<exists>header lines field rs.
      py_lines contents = header # lines \<and> split_ws header = [field] \<and> py_int field = Some (int m) \<and>
      list_all2 (\<lambda>l r. read_row l = Some r) lines rs \<and> list_all (row_ok n start stop) rs \<and>
      starts_ordered None rs \<and> length rs = m)"
    unfolding check_rows_Inr_iff by (metis (no_types, lifting) add_0 list_all2_lengthD)
  finally show ?thesis .
qed

section \<open>The line a rejection names\<close>

fun error_line :: "flow_error \<Rightarrow> nat option" where
  "error_line (FieldCount k _) = Some k"
| "error_line (BadNumber k) = Some k"
| "error_line (BadEndpoints k _ _) = Some k"
| "error_line (BadPgOrSize k) = Some k"
| "error_line (OutsideWindow k _) = Some k"
| "error_line (NotOrdered k _ _) = Some k"
| "error_line _ = None"

lemma check_row_error: "check_row n start stop k prev line = Inl e \<Longrightarrow> error_line e = Some k"
  by (auto simp: check_row_def Let_def split: if_splits option.splits)

text \<open>
  A rejected row is reported with its own line number, and it is the first bad one: when the
  loop over the rows (lines 2, 3, ...) raises, the error carries the number \<open>2 + i\<close> of a line \<open>i\<close>
  such that the rows before it are accepted and the rows up to and including it are not.
\<close>

theorem first_bad_line:
  assumes "check_rows n start stop 2 None 0 lines = Inl e"
  shows "\<exists>i < length lines. error_line e = Some (2 + i) \<and>
           check_rows n start stop 2 None 0 (take i lines) = Inr i \<and>
           check_rows n start stop 2 None 0 (take (Suc i) lines) = Inl e"
proof -
  have "\<exists>i < length lines. error_line e = Some (k + i) \<and>
           check_rows n start stop k prev c (take i lines) = Inr (c + i) \<and>
           check_rows n start stop k prev c (take (Suc i) lines) = Inl e"
    if "check_rows n start stop k prev c lines = Inl e" for k prev c
    using that
  proof (induction lines arbitrary: k prev c)
    case (Cons l ls)
    show ?case
    proof (cases "check_row n start stop k prev l")
      case (Inl e')
      then show ?thesis using Cons.prems check_row_error[OF Inl] by (intro exI[of _ 0]) auto
    next
      case (Inr t)
      then obtain i where "i < length ls" "error_line e = Some (k + 1 + i)"
        "check_rows n start stop (k + 1) (Some t) (c + 1) (take i ls) = Inr (c + 1 + i)"
        "check_rows n start stop (k + 1) (Some t) (c + 1) (take (Suc i) ls) = Inl e"
        using Cons.prems Cons.IH[of "k + 1" "Some t" "c + 1"] by auto
      then show ?thesis using Inr by (intro exI[of _ "Suc i"]) auto
    qed
  qed simp
  from this[OF assms] show ?thesis by simp
qed

theorem first_bad_line_witness:
  "\<exists>i < 2. error_line (BadEndpoints 3 5 5) = Some (2 + i) \<and>
     check_rows 16 (Fin 2) (Fin 3) 2 None 0 (take i [''0 1 3 100 2.5'', ''5 5 3 1 2.5'']) = Inr i \<and>
     check_rows 16 (Fin 2) (Fin 3) 2 None 0 (take (Suc i) [''0 1 3 100 2.5'', ''5 5 3 1 2.5''])
       = Inl (BadEndpoints 3 5 5)"
proof -
  have "check_rows 16 (Fin 2) (Fin 3) 2 None 0 [''0 1 3 100 2.5'', ''5 5 3 1 2.5''] = Inl (BadEndpoints 3 5 5)"
    by code_simp
  from first_bad_line[OF this] show ?thesis by (simp add: numeral_2_eq_2)
qed

section \<open>The traces of the generator\<close>

lemma fle_trans: "fle a b \<Longrightarrow> fle b c \<Longrightarrow> fle a c"
  by (cases a; cases b; cases c) (auto simp: fle_def)

lemma fle_not_flt: "fle a b \<Longrightarrow> \<not> flt b a"
  by (cases a; cases b) (auto simp: fle_def)

text \<open>What is read back of a start time printed with nine decimals.\<close>

definition printed_start :: "rat \<Rightarrow> pyfloat" where
  "printed_start x = fround (of_int (round_half_even (x * 10 ^ 9)) / 10 ^ 9)"

lemma printed_start_mono: "x \<le> y \<Longrightarrow> fle (printed_start x) (printed_start y)"
  unfolding printed_start_def
  by (intro fround_mono divide_right_mono) (simp_all add: round_half_even_mono)

lemma split_ws_flow:
  assumes "fl_t f = Fin x"
  shows "split_ws (flow_str f @ nl)
    = [show_int (fl_src f), show_int (fl_dst f), ''3'', show_int (fl_size f), fmt_fixed 9 (Fin x)]"
proof -
  have ne: "fmt_fixed 9 (Fin x) \<noteq> []"
    using fmt_decimal_head[of 9] by (metis append_is_Nil_conv fmt_fixed.simps(1) list.distinct(1))
  have sp: "is_ws (CHR '' '')" "is_ws (CHR 0x0A)" "\<not> is_ws (CHR ''3'')" by (simp_all add: is_ws_def)
  have last: "split_ws (fmt_fixed 9 (Fin x) @ CHR 0x0A # []) = fmt_fixed 9 (Fin x) # split_ws []"
    by (rule split_ws_word) (use ne sp fmt_fixed_clean in blast)+
  have w: "split_ws (show_int i @ CHR '' '' # s) = show_int i # split_ws s" for i s
    by (rule split_ws_word) (use sp in simp_all)
  have three: "split_ws (''3'' @ CHR '' '' # s) = ''3'' # split_ws s" for s
    by (rule split_ws_word) (use sp in simp_all)
  show ?thesis
    using w three last by (simp add: flow_str_def assms nl_def del: fmt_fixed.simps)
qed

lemma read_row_flow:
  assumes "fl_t f = Fin x" "0 \<le> x"
  shows "read_row (flow_str f @ nl) =
    Some \<lparr>row_src = fl_src f, row_dst = fl_dst f, row_pg = 3, row_size = fl_size f, row_start = printed_start x\<rparr>"
proof -
  have "py_int ''3'' = Some 3" using py_int_show_int[of 3] by (simp add: show_int_def show_nat.simps digit_char_def)
  then show ?thesis
    using py_float_fmt_fixed[OF assms(2), of 9]
    by (simp add: read_row_def split_ws_flow[OF assms(1)] parse_fields_def printed_start_def
        py_int_show_int del: fmt_fixed.simps)
qed

lemma flow_str_line: "fl_t f = Fin x \<Longrightarrow> CHR 0x0A \<notin> set (flow_str f)"
proof -
  assume a: "fl_t f = Fin x"
  have ws: "is_ws (CHR 0x0A)" by (simp add: is_ws_def)
  show ?thesis
    using ws fmt_fixed_clean[of "CHR 0x0A" 9 x] show_int_no_ws[of "CHR 0x0A"]
    by (auto simp: flow_str_def a simp del: fmt_fixed.simps)
qed

lemma traffic_header:
  assumes "0 \<le> estimate" "length (show_int estimate) \<le> length (show_nat n)"
    and "length (show_nat n) \<le> length (show_int estimate) + 1"
  obtains h where "traffic_text estimate fs n = concat (map (\<lambda>l. l @ nl) (h # map flow_str fs))"
    and "split_ws (h @ nl) = [show_nat n]" and "CHR 0x0A \<notin> set h"
proof -
  define h where "h = show_nat n @ (if length (show_nat n) = length (show_int estimate) then '' '' else [])"
  have ws: "is_ws (CHR '' '')" "is_ws (CHR 0x0A)" by (simp_all add: is_ws_def)
  have "traffic_text estimate fs n = concat (map (\<lambda>l. l @ nl) (h # map flow_str fs))"
  proof (cases "length (show_nat n) = length (show_int estimate)")
    case True
    then show ?thesis by (simp add: traffic_text_def overwrite_def h_def comp_def)
  next
    case False
    then have "length (show_nat n) = length (show_int estimate) + 1" using assms by simp
    then show ?thesis by (simp add: traffic_text_def overwrite_def h_def comp_def)
  qed
  moreover have "split_ws (h @ nl) = [show_nat n]"
  proof -
    have w: "split_ws (show_nat n @ d # s) = show_nat n # split_ws s" if "is_ws d" for d s
      using that by (intro split_ws_word) simp_all
    show ?thesis using ws by (simp add: h_def nl_def w split_ws_skip)
  qed
  moreover have "CHR 0x0A \<notin> set h" using ws show_nat_no_ws by (auto simp: h_def)
  ultimately show thesis by (rule that)
qed

lemma seconds_base: "seconds base_t = 2"
proof -
  have "fmul (Fin 2000000000) nano = Fin 2" by code_simp
  moreover have "float_of_int base_t = Inr (Fin 2000000000)"
    using float_of_int_small[of 2000000000] by (simp add: base_t_def)
  ultimately show ?thesis using seconds_float[of base_t "Fin 2000000000"] by simp
qed

text \<open>
  C3. The generator and the validator agree: a sound trace for \<open>n\<close> hosts whose header was
  overwritten completely is accepted by \<open>validate_flow_file\<close> for \<open>n\<close> hosts and the window from 2.0
  seconds to any finite \<open>stop\<close> not before the printed end time, and the validator counts its rows.
\<close>

theorem generated_trace_validates:
  assumes "trace_ok n (Fin e) fs ts" and "0 \<le> estimate"
    and "length (show_int estimate) \<le> length (show_nat (length fs))"
    and "length (show_nat (length fs)) \<le> length (show_int estimate) + 1"
    and "fle (printed_start (seconds \<lfloor>e\<rfloor>)) (Fin stop)"
  shows "validate_flow_file digest abspath path (traffic_text estimate fs (length fs)) n (Fin 2) (Fin stop)
    = Inr \<lparr>absolute_path = abspath path, flow_count = length fs,
           sha256 = digest (traffic_text estimate fs (length fs))\<rparr>"
proof -
  let ?text = "traffic_text estimate fs (length fs)"
  let ?row = "\<lambda>f t. \<lparr>row_src = fl_src f, row_dst = fl_dst f, row_pg = 3, row_size = fl_size f,
                    row_start = printed_start (seconds t)\<rparr>"
  define rs where "rs = map2 ?row fs ts"
  have fs: "list_all2 (flow_ok n) fs ts" and srt: "sorted (base_t # ts)" and upto: "\<forall>t \<in> set ts. of_int t \<le> e"
    using assms(1) by (auto simp: trace_ok_def list_all_iff not_less)
  have pos: "0 \<le> seconds t" if "base_t \<le> t" for t
    using seconds_mono[OF that] seconds_base by simp
  have lo: "fle (Fin 2) (printed_start (seconds t))" if "base_t \<le> t" for t
  proof -
    have "printed_start 2 = Fin 2"
      using round_half_even_of_int[of 2000000000] fround_int[of 2] by (simp add: printed_start_def)
    then show ?thesis using printed_start_mono[OF seconds_mono[OF that]] seconds_base by simp
  qed
  have hi: "fle (printed_start (seconds t)) (Fin stop)" if "of_int t \<le> e" for t
    by (rule fle_trans[OF printed_start_mono[OF seconds_mono] assms(5)]) (simp add: that le_floor_iff)
  have len: "length fs = length ts" using fs by (rule list_all2_lengthD)
  have nth: "flow_ok n (fs ! i) (ts ! i)" "base_t \<le> ts ! i" "of_int (ts ! i) \<le> e" if "i < length ts" for i
    using that fs srt upto by (auto simp: list_all2_conv_all_nth)
  have rows: "list_all2 (\<lambda>l r. read_row l = Some r) (map (\<lambda>f. flow_str f @ nl) fs) rs"
    unfolding list_all2_conv_all_nth rs_def
    using len nth by (auto simp: flow_ok_def intro!: read_row_flow pos)
  have ok: "list_all (row_ok n (Fin 2) (Fin stop)) rs"
    unfolding list_all_length rs_def
  proof (intro allI impI)
    fix i assume "i < length (map2 ?row fs ts)"
    then have i: "i < length ts" by simp
    obtain x where "printed_start (seconds (ts ! i)) = Fin x"
      using lo[OF nth(2)[OF i]] hi[OF nth(3)[OF i]]
      by (cases "printed_start (seconds (ts ! i))") (auto simp: fle_def)
    then show "row_ok n (Fin 2) (Fin stop) (map2 ?row fs ts ! i)"
      using nth[OF i] lo[OF nth(2)[OF i]] hi[OF nth(3)[OF i]] len i by (auto simp: row_ok_def flow_ok_def)
  qed
  have "map row_start rs = map (\<lambda>t. printed_start (seconds t)) ts"
    using len by (intro nth_equalityI) (auto simp: rs_def)
  moreover have "successively (\<lambda>p q. \<not> flt q p) (map (\<lambda>t. printed_start (seconds t)) ts)"
  proof -
    have later: "\<not> flt (printed_start (seconds u)) (printed_start (seconds t))" if "t \<le> u" for t u
      by (rule fle_not_flt[OF printed_start_mono[OF seconds_mono[OF that]]])
    have "sorted_wrt (\<le>) ts" using srt by simp
    then have "sorted_wrt (\<lambda>t u. \<not> flt (printed_start (seconds u)) (printed_start (seconds t))) ts"
      by (rule sorted_wrt_mono_rel[rotated]) (rule later)
    then show ?thesis by (simp add: successively_map successively_if_sorted_wrt)
  qed
  ultimately have ordered: "starts_ordered None rs" by (simp add: starts_ordered_def)
  obtain h where h: "?text = concat (map (\<lambda>l. l @ nl) (h # map flow_str fs))"
    "split_ws (h @ nl) = [show_nat (length fs)]" "CHR 0x0A \<notin> set h"
    by (rule traffic_header[OF assms(2-4)])
  have "CHR 0x0A \<notin> set (flow_str f)" if f: "f \<in> set fs" for f
  proof -
    obtain i where "i < length ts" "f = fs ! i" using f len by (auto simp: in_set_conv_nth)
    then show ?thesis using nth(1)[of i] by (intro flow_str_line[of _ "seconds (ts ! i)"]) (simp add: flow_ok_def)
  qed
  then have lines: "py_lines ?text = (h @ nl) # map (\<lambda>f. flow_str f @ nl) fs"
    unfolding h(1) using h(3) by (subst py_lines_concat) auto
  have "py_int (show_nat (length fs)) = Some (int (length fs))"
    using py_int_show_int[of "int (length fs)"] by (simp add: show_int_def)
  moreover have "check_rows n (Fin 2) (Fin stop) 2 None 0 (map (\<lambda>f. flow_str f @ nl) fs) = Inr (length fs)"
    unfolding check_rows_Inr_iff using rows ok ordered by auto
  ultimately show ?thesis
    using lines h(2) by (simp add: validate_flow_file_def)
qed

theorem generated_trace_validates_witness:
  "validate_flow_file rev rev ''f.txt''
     (traffic_text 9 [\<lparr>fl_src = 4, fl_dst = 2, fl_size = 500, fl_t = Fin (seconds 2000000100)\<rparr>] 1)
     8 (Fin 2) (Fin 3)
   = Inr \<lparr>absolute_path = rev ''f.txt'', flow_count = 1,
          sha256 = rev (traffic_text 9
            [\<lparr>fl_src = 4, fl_dst = 2, fl_size = 500, fl_t = Fin (seconds 2000000100)\<rparr>] 1)\<rparr>"
proof -
  let ?fs = "[\<lparr>fl_src = 4, fl_dst = 2, fl_size = 500, fl_t = Fin (seconds 2000000100)\<rparr>]"
  have "float_of_int 3000000000 = Inr (Fin 3000000000)" using float_of_int_small[of 3000000000] by simp
  moreover have "fmul (Fin 3000000000) nano = Fin 3" by code_simp
  ultimately have "seconds 3000000000 = 3" using seconds_float[of 3000000000 "Fin 3000000000"] by simp
  moreover have "printed_start 3 = Fin 3"
    using round_half_even_of_int[of 3000000000] fround_int[of 3] by (simp add: printed_start_def)
  ultimately have "fle (printed_start (seconds \<lfloor>3000000000 :: rat\<rfloor>)) (Fin 3)" by simp
  then show ?thesis
    using generated_trace_validates[of 8 3000000000 ?fs "[2000000100]" 9 3 rev rev "''f.txt''"]
    by (simp add: trace_ok_def flow_ok_def base_t_def show_int_def show_nat.simps)
qed

end
