(* ===== verification/RunMain.thy ===== *)
theory RunMain
  imports RunConfig FlowFile "HOL-Library.Char_ord" "HOL-Library.List_Lexorder"
begin

text \<open>
  The rest of \<open>main\<close> in \<open>run.py\<close>: what it reads from the topology file, the traffic file it needs, the
  output directory it reserves, the manifest it writes before and after the simulation, the counts
  it takes from the outputs and the commands it starts.

  The file system is a record of maps from paths to contents and a set of directories. Digests, the
  clock, the working directory, \<open>git\<close> and \<open>ldd\<close> are parameters or arguments.
\<close>

section \<open>The topology file\<close>

text \<open>\<open>f.readline().split(" ")\<close> of the first line.\<close>

definition first_fields :: "string \<Rightarrow> string list" where
  "first_fields contents = split_char (CHR '' '') (case py_lines contents of [] \<Rightarrow> [] | l # _ \<Rightarrow> l)"

definition field_int :: "string list \<Rightarrow> nat \<Rightarrow> int res" where
  "field_int ws i = bindE (py_index ws (int i)) to_int"

definition sniff_hosts :: "string \<Rightarrow> int res" where
  "sniff_hosts contents =
     (let line = first_fields contents in
      bindE (field_int line 0) (\<lambda>a. bindE (field_int line 1) (\<lambda>b. Inr (a - b))))"

text \<open>One link line of the bandwidth check: links of hosts must have the rate of \<open>--bw\<close>.\<close>

definition check_link :: "int \<Rightarrow> int \<Rightarrow> string \<Rightarrow> unit res" where
  "check_link n_host b line =
     (let parsed = split_char (CHR '' '') line in
      if length parsed \<le> 2 then Inr ()
      else bindE (field_int parsed 0) (\<lambda>u.
           bindE (if u < n_host then Inr True else bindE (field_int parsed 1) (\<lambda>v. Inr (v < n_host))) (\<lambda>nic.
           if \<not> nic then Inr ()
           else bindE (to_int (py_replace ''Gbps'' [] (parsed ! 2))) (\<lambda>rate.
                guardE AssertionError (rate = b)))))"

fun check_links :: "int \<Rightarrow> int \<Rightarrow> int \<Rightarrow> int \<Rightarrow> string list \<Rightarrow> unit res" where
  "check_links n_host b n_link i [] = Inr ()"
| "check_links n_host b n_link i (line # lines) =
     (if n_link < i + 1 then Inr ()
      else bindE (check_link n_host b line) (\<lambda>_. check_links n_host b n_link (i + 1) lines))"

definition check_bandwidth :: "string \<Rightarrow> int \<Rightarrow> unit res" where
  "check_bandwidth contents b =
     (let first_line = first_fields contents in
      bindE (field_int first_line 0) (\<lambda>a.
      bindE (field_int first_line 1) (\<lambda>s.
      bindE (field_int first_line 2) (\<lambda>n_link.
      check_links (a - s) b n_link 0 (drop 2 (py_lines contents))))))"

section \<open>The traffic file\<close>

definition flow_name :: "run_args \<Rightarrow> pyfloat \<Rightarrow> int \<Rightarrow> int \<Rightarrow> string res" where
  "flow_name args load n_host b =
     bindE (to_float (simul_time (core args))) (\<lambda>t.
     bindE (int_of_float (fmul t (Fin 1000))) (\<lambda>ms.
     Inr (''L_'' @ fmt_fixed 2 load @ ''_CDF_'' @ cdf_name (core args) @ ''_N_'' @ show_int n_host @
          ''_T_'' @ show_int ms @ ''ms_B_'' @ show_int b @ ''_flow'')))"

definition generator_command :: "run_args \<Rightarrow> string \<Rightarrow> pyfloat \<Rightarrow> int \<Rightarrow> string \<Rightarrow> string res" where
  "generator_command args cwd load n_host path =
     bindE (fdiv load (Fin 100)) (\<lambda>l.
     Inr (''python ./traffic_gen/traffic_gen.py -c '' @ cwd @ ''/traffic_gen/'' @ cdf_name (core args) @
          ''.txt -n '' @ show_int n_host @ '' -l '' @ repr_float l @ '' -b '' @ bw (core args) @ ''G -t '' @
          simul_time (core args) @ '' -o '' @ cwd @ ''/'' @ path))"

text \<open>The options with which that command runs \<open>traffic_gen.py\<close>.\<close>

definition generator_options :: "run_args \<Rightarrow> pyfloat \<Rightarrow> int \<Rightarrow> gen_options res" where
  "generator_options args load n_host =
     bindE (fdiv load (Fin 100)) (\<lambda>l.
     Inr \<lparr>o_nhost = Some (show_int n_host), o_load = repr_float l, o_bandwidth = Some (bw (core args) @ ''G''),
          o_time = simul_time (core args), o_seed = None\<rparr>)"

section \<open>The output directory\<close>

record fs =
  files :: "string \<Rightarrow> string option"
  dirs :: "string set"

definition run_id_chars :: string where
  "run_id_chars = ''abcdefghijklmnopqrstuvwxyzABCDEFGHIJKLMNOPQRSTUVWXYZ0123456789_.-''"

definition run_id_message :: string where
  "run_id_message = ''--run-id may contain only letters, digits, '' @
     [CHR 0x27, CHR ''.'', CHR 0x27] @ '', '' @ [CHR 0x27, CHR ''_'', CHR 0x27] @ '', and '' @
     [CHR 0x27, CHR ''-'', CHR 0x27]"

text \<open>\<open>os.makedirs(output_dir)\<close>: raises when the path exists.\<close>

definition makedirs :: "fs \<Rightarrow> string \<Rightarrow> fs res" where
  "makedirs w d = (if d \<in> dirs w \<or> files w d \<noteq> None then Inl (FileExistsError d) else Inr (w\<lparr>dirs := insert d (dirs w)\<rparr>))"

definition path_join :: "string \<Rightarrow> string \<Rightarrow> string" where
  "path_join a b = a @ ''/'' @ b"

text \<open>A requested id is a path component of its own; \<open>.\<close> and \<open>..\<close> name directories that exist.\<close>

definition make_requested :: "fs \<Rightarrow> string \<Rightarrow> string \<Rightarrow> fs res" where
  "make_requested w out_root rid =
     (if rid = ''.'' \<or> rid = ''..'' then Inl (FileExistsError (path_join out_root rid))
      else makedirs w (path_join out_root rid))"

text \<open>The loop over random ids: \<open>draw\<close> is \<open>random.randrange(MAX_RAND_RANGE)\<close> on the generator's state.\<close>

partial_function (option) reserve_loop ::
  "('g \<Rightarrow> int \<times> 'g) \<Rightarrow> string \<Rightarrow> fs \<Rightarrow> 'g \<Rightarrow> (string \<times> string \<times> fs \<times> 'g) option" where
  "reserve_loop draw out_root w g =
     (case draw g of (n, g') \<Rightarrow>
        (case makedirs w (path_join out_root (show_int n)) of
           Inr w' \<Rightarrow> Some (show_int n, path_join out_root (show_int n), w', g')
         | Inl _ \<Rightarrow> reserve_loop draw out_root w g'))"

definition reserve_output_dir ::
  "('g \<Rightarrow> int \<times> 'g) \<Rightarrow> string \<Rightarrow> string option \<Rightarrow> fs \<Rightarrow> 'g \<Rightarrow> (string \<times> string \<times> fs \<times> 'g) res option" where
  "reserve_output_dir draw out_root requested w g =
     (case requested of
        Some rid \<Rightarrow>
          Some (if rid = [] \<or> \<not> list_all (\<lambda>c. c \<in> set run_id_chars) rid
                then Inl (ValueError run_id_message)
                else bindE (make_requested w out_root rid) (\<lambda>w'. Inr (rid, path_join out_root rid, w', g)))
      | None \<Rightarrow> map_option Inr (reserve_loop draw out_root w g))"

section \<open>The environment of the simulator\<close>

definition lib_path_var :: "string \<Rightarrow> string" where
  "lib_path_var platform =
     (if platform = ''darwin'' then ''DYLD_LIBRARY_PATH''
      else if platform = ''win32'' \<or> platform = ''cygwin'' then ''PATH''
      else ''LD_LIBRARY_PATH'')"

definition direct_run_env ::
  "string \<Rightarrow> string \<Rightarrow> string \<Rightarrow> (string \<Rightarrow> string option) \<Rightarrow> (string \<Rightarrow> string option) \<times> string \<times> string" where
  "direct_run_env platform pathsep lib_dir environ =
     (let path_var = lib_path_var platform;
          current = environ path_var;
          parts = (if truthy current then [lib_dir, the current] else [lib_dir])
      in (environ(path_var \<mapsto> py_join pathsep parts), path_var, lib_dir))"

section \<open>JSON\<close>

datatype json =
    JNull
  | JBool bool
  | JInt int
  | JFloat pyfloat
  | JStr string
  | JList "json list"
  | JObj "(string \<times> json) list"

text \<open>\<open>write_json\<close>: the serialised payload goes to a temporary file that then replaces the target.\<close>

datatype fs_op =
    OpenTrunc string
  | Append string string
  | Replace string string

fun fs_step :: "fs_op \<Rightarrow> fs \<Rightarrow> fs res" where
  "fs_step (OpenTrunc p) w = Inr (w\<lparr>files := (files w)(p \<mapsto> [])\<rparr>)"
| "fs_step (Append p s) w =
     (case files w p of
        None \<Rightarrow> Inl (FileNotFoundError p)
      | Some t \<Rightarrow> Inr (w\<lparr>files := (files w)(p \<mapsto> t @ s)\<rparr>))"
| "fs_step (Replace a b) w =
     (case files w a of
        None \<Rightarrow> Inl (FileNotFoundError a)
      | Some t \<Rightarrow> Inr (w\<lparr>files := (files w)(b \<mapsto> t, a := None)\<rparr>))"

fun fs_run :: "fs_op list \<Rightarrow> fs \<Rightarrow> fs res" where
  "fs_run [] w = Inr w"
| "fs_run (op # ops) w = bindE (fs_step op w) (fs_run ops)"

text \<open>\<open>dump\<close> yields the chunks that \<open>json.dump\<close> writes one after the other.\<close>

definition write_json_ops :: "(json \<Rightarrow> string list) \<Rightarrow> string \<Rightarrow> json \<Rightarrow> fs_op list" where
  "write_json_ops dump path payload =
     (let temporary = path @ ''.tmp'' in
      OpenTrunc temporary # map (Append temporary) (dump payload) @ [Append temporary nl, Replace temporary path])"

definition write_json :: "(json \<Rightarrow> string list) \<Rightarrow> string \<Rightarrow> json \<Rightarrow> fs \<Rightarrow> fs res" where
  "write_json dump path payload w = fs_run (write_json_ops dump path payload) w"

section \<open>Counting completions\<close>

text \<open>The last value of the completion marker in the log, if the log exists.\<close>

fun target_loop :: "string list \<Rightarrow> int option \<Rightarrow> int option res" where
  "target_loop [] target = Inr target"
| "target_loop (line # lines) target =
     (if has_prefix ''V5_TARGET_COMPLETION_COUNT'' line
      then bindE (py_index (split_ws line) (- 1)) (\<lambda>w. bindE (to_int w) (\<lambda>n. target_loop lines (Some n)))
      else target_loop lines target)"

fun finished_loop :: "string list \<Rightarrow> nat \<Rightarrow> int list \<Rightarrow> (nat \<times> int list) res" where
  "finished_loop [] finished_qp finished_apps = Inr (finished_qp, finished_apps)"
| "finished_loop (line # lines) finished_qp finished_apps =
     (let ws = split_ws line in
      if length ws < 9 then finished_loop lines finished_qp finished_apps
      else bindE (to_int (ws ! 8)) (\<lambda>app. finished_loop lines (finished_qp + 1) (List.insert app finished_apps)))"

record completion =
  target_qp :: "int option"
  finished_qp :: nat
  finished_apps :: nat

definition parse_completion_counts :: "fs \<Rightarrow> string \<Rightarrow> string \<Rightarrow> completion res" where
  "parse_completion_counts w output_log fct_output =
     bindE (case files w output_log of None \<Rightarrow> Inr None | Some t \<Rightarrow> target_loop (py_lines t) None) (\<lambda>target.
     bindE (case files w fct_output of None \<Rightarrow> Inr (0, []) | Some t \<Rightarrow> finished_loop (py_lines t) 0 []) (\<lambda>(n, apps).
     Inr \<lparr>target_qp = target, finished_qp = n, finished_apps = length apps\<rparr>))"

section \<open>The history and the run manifest\<close>

definition history_line :: "run_args \<Rightarrow> checked \<Rightarrow> cwh_params \<Rightarrow> string \<Rightarrow> string \<Rightarrow> string" where
  "history_line args k cwh simulday config_ID =
     py_join '',''
       [simulday, config_ID, show_int (ck_cc_mode k), show_int (ck_lb_mode k),
        show_int (cwh_tx_expiry_time cwh), show_int (cwh_extra_reply_deadline cwh),
        show_int (cwh_path_pause_time cwh), show_int (cwh_extra_voq_flush_time cwh),
        show_int (cwh_default_voq_waiting_time cwh), show_int (pfc (core args)), show_int (irn (core args)),
        show_int (fst (window_flags (ck_cc_mode k) (enforce_win (core args)))),
        show_int (snd (window_flags (ck_cc_mode k) (enforce_win (core args)))),
        topo (core args), show_int (ck_bw k), cdf_name (core args), show_int (netload (core args)),
        simul_time (core args)] @ nl"

definition event_json :: "degrade_event \<Rightarrow> json" where
  "event_json e = (case e of (t, a, b, f) \<Rightarrow>
     JObj [(''time_us'', JInt t), (''node_a'', JInt a), (''node_b'', JInt b), (''fraction'', JFloat f)])"

definition v5_json :: "v5_args \<Rightarrow> string \<Rightarrow> (string \<times> json) list" where
  "v5_json v policy =
     [(''v5_nsub'', JInt (v5_nsub v)), (''v5_chunk_bytes'', JInt (v5_chunk_bytes v)),
      (''v5_size_gate_bytes'', JInt (v5_size_gate_bytes v)), (''v5_oracle_policy'', JStr (v5_oracle_policy v)),
      (''v5_policy'', JStr policy), (''v5_oracle_bad_spine'', JInt (v5_oracle_bad_spine v)),
      (''v5_chunk_commit_rate_gbps'', JFloat (v5_chunk_commit_rate_gbps v)),
      (''v5_chunk_log'', JInt (v5_chunk_log v)), (''v5_qp_pool'', JInt (v5_qp_pool v)),
      (''v5_qp_pool_size'', JInt (v5_qp_pool_size v)), (''v5_wqe_log'', JInt (v5_wqe_log v)),
      (''v5_qp_state_log'', JInt (v5_qp_state_log v)), (''v5_estimator_enable'', JInt (v5_estimator_enable v)),
      (''v5_estimator_log'', JInt (v5_estimator_log v))]"

definition v5_json_tail :: "v5_args \<Rightarrow> (string \<times> json) list" where
  "v5_json_tail v =
     [(''v5_estimator_stale_periods'', JInt (v5_estimator_stale_periods v)),
      (''v5_probe_period_us'', JInt (v5_probe_period_us v)), (''v5_probe_bytes'', JInt (v5_probe_bytes v)),
      (''v5_binary_hold_us'', JInt (v5_binary_hold_us v)),
      (''v5_seqbalance_phi_us'', JInt (v5_seqbalance_phi_us v))]"

definition host_json :: "host_args \<Rightarrow> host_sensing_config \<Rightarrow> (string \<times> json) list" where
  "host_json h hs =
     [(''host_sensing_enable'', JInt (host_sensing_enable h)),
      (''host_sensing_app_lanes'', JList (map (\<lambda>(app_id, lane).
         JObj [(''app_id'', JInt app_id), (''lane'', JInt lane)]) (hs_app_lanes hs))),
      (''host_sensing_target_app_id'', JInt (host_sensing_target_app_id h)),
      (''host_sensing_target_source'', JInt (host_sensing_target_source h)),
      (''host_sensing_target_destination'', JInt (host_sensing_target_destination h)),
      (''host_sensing_target_pg'', JInt (host_sensing_target_pg h)),
      (''host_sensing_target_lane'', JInt (host_sensing_target_lane h)),
      (''host_sensing_truth_link'', JList [JInt (hs_truth_node_a hs), JInt (hs_truth_node_b hs)]),
      (''host_sensing_nominal_rate_bps'', JInt (hs_nominal_rate_bps hs)),
      (''host_sensing_delivery_window_us'', JInt (host_sensing_delivery_window_us h)),
      (''host_sensing_ewma_beta'', JFloat (host_sensing_ewma_beta h)),
      (''host_sensing_probe_bytes'', JInt (host_sensing_probe_bytes h)),
      (''host_sensing_probe_period_us'', JInt (host_sensing_probe_period_us h)),
      (''host_sensing_probe_timeout_us'', JInt (host_sensing_probe_timeout_us h)),
      (''host_sensing_warmup_us'', JInt (host_sensing_warmup_us h)),
      (''host_sensing_min_baseline_samples'', JInt (host_sensing_min_baseline_samples h))]"

definition diag_json :: "run_args \<Rightarrow> checked \<Rightarrow> (string \<times> json) list" where
  "diag_json args k =
     (let d = diag args; g = degr args in
      [(''native_resource_log'', JInt (native_resource_log d)),
       (''native_qp_mechanism_log'', JInt (native_qp_mechanism_log d)),
       (''conweave_causal_trace'', JInt (conweave_causal_trace d)),
       (''monitor_until_complete'', JInt (monitor_until_complete d)),
       (''sw_monitoring_interval_ns'', JInt (sw_monitoring_interval (core args))),
       (''native_diag_log'', JInt (native_diag_log d)),
       (''native_diag_interval_ns'', JInt (native_diag_interval_ns d)),
       (''degrade_direction'', JStr (degrade_direction g)), (''degrade_mode'', JStr (degrade_mode g)),
       (''degrade_start_us'', JInt (degrade_start_us g)), (''flap_period_us'', JInt (flap_period_us g)),
       (''flap_frac_hi'', JFloat (flap_frac_hi g)), (''link_degrade'', JStr (ck_link_degrade k)),
       (''link_degrade_events'', JList (map event_json (ck_events k)))])"

text \<open>\<open>"config"\<close> of the manifest; \<open>config_sha\<close> is the digest of the configuration file.\<close>

definition config_json :: "run_args \<Rightarrow> checked \<Rightarrow> string \<Rightarrow> pyfloat \<Rightarrow> json" where
  "config_json args k config_sha simul_time_s =
     (let c = core args; s = sfl args in
      JObj ([(''sha256'', JStr config_sha), (''topology'', JStr (topo c)), (''cc'', JStr (cc c)),
             (''lb'', JStr (lb c)), (''pfc'', JInt (pfc c)), (''irn'', JInt (irn c)),
             (''load'', JInt (netload c)), (''seed'', JInt (seed c)), (''simul_time_s'', JFloat simul_time_s)]
            @ v5_json (v5 args) (ck_policy k)
            @ [(''sflowlet_est_time_us'', JInt (sflowlet_est_time_us s)),
               (''sflowlet_ewma_beta'', JFloat (sflowlet_ewma_beta s)),
               (''sflowlet_persist_windows'', JInt (sflowlet_persist_windows s)),
               (''sflowlet_degrade_ratio'', JFloat (sflowlet_degrade_ratio s)),
               (''sflowlet_backlog_thresh_bytes'', JInt (sflowlet_backlog_thresh_bytes s))]
            @ v5_json_tail (v5 args) @ host_json (host args) (ck_host k) @ diag_json args k))"

text \<open>\<open>git_metadata\<close>: the outputs of the two commands, or \<open>None\<close> when one of them failed.\<close>

definition git_metadata :: "(string \<times> string) option \<Rightarrow> json" where
  "git_metadata outputs =
     (case outputs of
        Some (rev_parse, status) \<Rightarrow>
          JObj [(''commit'', JStr (py_strip rev_parse)), (''dirty'', JBool (py_strip status \<noteq> []))]
      | None \<Rightarrow> JObj [(''commit'', JStr ''unknown''), (''dirty'', JNull)])"

text \<open>
  \<open>runtime_binary_metadata\<close>: the binary and the shared libraries below the build directory that
  \<open>ldd\<close> lists, each with its digest, and the digest of these digests. \<open>abspath\<close>, \<open>basename\<close> and
  the digests are parameters; \<open>ldd\<close> is the output of the command.
\<close>

definition ldd_candidate :: "string \<Rightarrow> string option" where
  "ldd_candidate line =
     (let ws = split_ws (py_strip line) in
      if 3 \<le> length ws \<and> ws ! 1 = ''=>'' \<and> has_prefix ''/'' (ws ! 2) then Some (ws ! 2)
      else if ws \<noteq> [] \<and> has_prefix ''/'' (ws ! 0) then Some (ws ! 0)
      else None)"

definition inside :: "string \<Rightarrow> string \<Rightarrow> bool" where
  "inside root_dir p \<longleftrightarrow> p = root_dir \<or> has_prefix (root_dir @ ''/'') p"

definition runtime_artifacts ::
  "(string \<Rightarrow> string) \<Rightarrow> string \<Rightarrow> string \<Rightarrow> string option \<Rightarrow> string list" where
  "runtime_artifacts abspath build_root absolute_binary ldd =
     (case ldd of
        None \<Rightarrow> [absolute_binary]
      | Some output \<Rightarrow>
          foldl (\<lambda>artifacts line.
              case ldd_candidate line of
                None \<Rightarrow> artifacts
              | Some c \<Rightarrow> if c \<noteq> [] \<and> inside build_root (abspath c) then List.insert (abspath c) artifacts
                         else artifacts)
            [absolute_binary] (py_lines output))"

definition runtime_binary_metadata ::
  "(string \<Rightarrow> string) \<Rightarrow> (string \<Rightarrow> string) \<Rightarrow> (string \<Rightarrow> string) \<Rightarrow> (string \<Rightarrow> string) \<Rightarrow>
   string \<Rightarrow> string \<Rightarrow> string option \<Rightarrow> json" where
  "runtime_binary_metadata abspath basename sha256_file sha256_text path build_dir ldd =
     (let absolute_binary = abspath path;
          artifacts = sort (runtime_artifacts abspath (abspath build_dir) absolute_binary ldd)
      in JObj [(''absolute_path'', JStr absolute_binary), (''sha256'', JStr (sha256_file absolute_binary)),
               (''runtime_sha256'', JStr (sha256_text (concat (map (\<lambda>a.
                   basename a @ [CHR 0x00] @ sha256_file a @ nl) artifacts)))),
               (''runtime_artifacts'', JList (map (\<lambda>a.
                   JObj [(''absolute_path'', JStr a), (''sha256'', JStr (sha256_file a))]) artifacts))])"

text \<open>The whole manifest as it is first written; the second write adds the completion.\<close>

record manifest_env =
  m_created :: string
  m_git :: json
  m_parent_git :: json
  m_job :: json
  m_argv :: "string list"
  m_binary :: json
  m_config_sha :: string

definition trace_json :: "trace_metadata \<Rightarrow> json" where
  "trace_json t =
     JObj [(''absolute_path'', JStr (absolute_path t)), (''flow_count'', JInt (int (flow_count t))),
           (''sha256'', JStr (sha256 t))]"

definition run_manifest ::
  "manifest_env \<Rightarrow> run_args \<Rightarrow> checked \<Rightarrow> string \<Rightarrow> trace_metadata \<Rightarrow> pyfloat \<Rightarrow> (string \<times> json) list" where
  "run_manifest e args k config_ID trace simul_time_s =
     [(''schema_version'', JInt 2), (''run_id'', JStr config_ID), (''status'', JStr ''prepared''),
      (''created_at'', JStr (m_created e)), (''git'', m_git e), (''parent_git'', m_parent_git e),
      (''job_trace'', m_job e), (''command'', JList (map JStr (m_argv e))), (''binary'', m_binary e),
      (''trace'', trace_json trace), (''config'', config_json args k (m_config_sha e) simul_time_s)]"

definition completion_json :: "completion \<Rightarrow> bool \<Rightarrow> json" where
  "completion_json c has_jobs =
     JObj [(''target_qp_or_chunk'', case target_qp c of None \<Rightarrow> JNull | Some n \<Rightarrow> JInt n),
           (''finished_qp_or_chunk'', JInt (int (finished_qp c))),
           (''finished_apps'', JInt (int (finished_apps c))),
           (''job_membership_available'', JBool has_jobs)]"

text \<open>A Python dictionary keeps the position of a key that is assigned again.\<close>

fun dict_set :: "'k \<Rightarrow> 'v \<Rightarrow> ('k \<times> 'v) list \<Rightarrow> ('k \<times> 'v) list" where
  "dict_set k v [] = [(k, v)]"
| "dict_set k v ((k', v') # kvs) = (if k = k' then (k, v) # kvs else (k', v') # dict_set k v kvs)"

definition completed_manifest ::
  "(string \<times> json) list \<Rightarrow> string \<Rightarrow> completion \<Rightarrow> bool \<Rightarrow> (string \<times> json) list" where
  "completed_manifest manifest now c has_jobs =
     dict_set ''completion'' (completion_json c has_jobs)
       (dict_set ''completed_at'' (JStr now)
         (dict_set ''status'' (JStr ''simulation_complete'') manifest))"

section \<open>The analysis commands\<close>

text \<open>\<open>int(start * 1e9) + int(0.005 * 1e9)\<close> and the two end times.\<close>

definition analysis_begin :: "pyfloat \<Rightarrow> int res" where
  "analysis_begin start =
     bindE (int_of_float (fmul start (Fin 1000000000))) (\<lambda>a.
     bindE (int_of_float (fmul (lit (5 / 1000)) (Fin 1000000000))) (\<lambda>b. Inr (a + b)))"

definition fct_analysis_end :: "pyfloat \<Rightarrow> int res" where
  "fct_analysis_end stop =
     bindE (int_of_float (fmul stop (Fin 1000000000))) (\<lambda>a.
     bindE (int_of_float (fmul (lit (5 / 100)) (Fin 1000000000))) (\<lambda>b. Inr (a + b)))"

definition queue_analysis_end :: "pyfloat \<Rightarrow> int res" where
  "queue_analysis_end stop = int_of_float (fmul stop (Fin 1000000000))"

definition fct_command :: "string \<Rightarrow> string \<Rightarrow> string \<Rightarrow> int \<Rightarrow> pyfloat \<Rightarrow> pyfloat \<Rightarrow> string list res" where
  "fct_command python config_ID cwd bdp start stop =
     bindE (analysis_begin start) (\<lambda>a.
     bindE (fct_analysis_end stop) (\<lambda>b.
     Inr [python, ''fctAnalysis.py'', ''-id'', config_ID, ''-dir'', cwd, ''-bdp'', show_int bdp,
          ''-sT'', show_int a, ''-fT'', show_int b]))"

definition queue_command :: "string \<Rightarrow> string \<Rightarrow> string \<Rightarrow> pyfloat \<Rightarrow> pyfloat \<Rightarrow> string list res" where
  "queue_command python config_ID cwd start stop =
     bindE (analysis_begin start) (\<lambda>a.
     bindE (queue_analysis_end stop) (\<lambda>b.
     Inr [python, ''queueAnalysis.py'', ''-id'', config_ID, ''-dir'', cwd,
          ''-sT'', show_int a, ''-fT'', show_int b]))"

section \<open>The manifest on disk\<close>

lemma fs_run_append: "fs_run (ops @ ops') w = bindE (fs_run ops w) (fs_run ops')"
  by (induction ops arbitrary: w) (auto simp: bindE_def split: sum.splits)

lemma fs_run_appends:
  assumes "files w p = Some t"
  shows "fs_run (map (Append p) cs) w = Inr (w\<lparr>files := (files w)(p \<mapsto> t @ concat cs)\<rparr>)"
  using assms
proof (induction cs arbitrary: w t)
  case Nil
  then show ?case by (simp add: fun_upd_idem)
next
  case (Cons c cs)
  let ?w = "w\<lparr>files := (files w)(p \<mapsto> t @ c)\<rparr>"
  have "fs_run (map (Append p) cs) ?w = Inr (?w\<lparr>files := (files ?w)(p \<mapsto> (t @ c) @ concat cs)\<rparr>)"
    by (rule Cons.IH) simp
  then show ?case using Cons.prems by (simp add: bindE_def del: fun_upd_apply)
qed

text \<open>The steps up to the final rename touch the temporary file only.\<close>

lemma write_json_prefix:
  assumes "n \<le> length (dump payload) + 2"
    and "fs_run (take n (write_json_ops dump path payload)) w = Inr w'"
  shows "files w' path = files w path"
proof -
  have keep: "files w' q = files w q" if "fs_run ops w = Inr w'" "q \<noteq> p"
    "\<forall>op \<in> set ops. op = OpenTrunc p \<or> (\<exists>s. op = Append p s)" for ops p q w w'
    using that
  proof (induction ops arbitrary: w)
    case (Cons op ops)
    then obtain w1 where w1: "fs_step op w = Inr w1" "fs_run ops w1 = Inr w'" by (auto simp: bindE_Inr_iff)
    have "files w1 q = files w q"
      using w1(1) Cons.prems(2,3) by (auto split: option.splits)
    then show ?case using Cons.IH[OF w1(2) Cons.prems(2)] Cons.prems(3) by simp
  qed simp
  have "\<forall>op \<in> set (take n (write_json_ops dump path payload)).
      op = OpenTrunc (path @ ''.tmp'') \<or> (\<exists>s. op = Append (path @ ''.tmp'') s)"
  proof
    fix op assume "op \<in> set (take n (write_json_ops dump path payload))"
    then have "op \<in> set (take (length (dump payload) + 2) (write_json_ops dump path payload))"
      using assms(1) by (meson set_take_subset_set_take subsetD)
    then show "op = OpenTrunc (path @ ''.tmp'') \<or> (\<exists>s. op = Append (path @ ''.tmp'') s)"
      by (auto simp: write_json_ops_def Let_def)
  qed
  then show ?thesis by (rule keep[OF assms(2), rotated]) simp
qed

lemma write_json_target:
  fixes path :: string and m :: "string \<Rightarrow> string option"
  shows "(m(path @ ''.tmp'' \<mapsto> t))(path \<mapsto> t, path @ ''.tmp'' := None) = m(path \<mapsto> t, path @ ''.tmp'' := None)"
  by (auto simp: fun_eq_iff)

text \<open>
  C10. \<open>write_json\<close> replaces the manifest atomically: after any number of its file-system steps the
  target holds either exactly what it held before or the complete new text; when all steps have run
  it holds the new text and the temporary file is gone. A crash in between never leaves half a
  manifest.
\<close>

theorem write_json_atomic:
  "write_json dump path payload w =
     Inr (w\<lparr>files := (files w)(path \<mapsto> concat (dump payload) @ nl, path @ ''.tmp'' := None)\<rparr>) \<and>
   (case fs_run (take n (write_json_ops dump path payload)) w of
      Inl _ \<Rightarrow> False
    | Inr w' \<Rightarrow> files w' path \<in> {files w path, Some (concat (dump payload) @ nl)})"
proof -
  let ?tmp = "path @ ''.tmp''" and ?ops = "write_json_ops dump path payload"
  let ?w1 = "w\<lparr>files := (files w)(?tmp \<mapsto> concat (dump payload) @ nl)\<rparr>"
  have body: "fs_run (OpenTrunc ?tmp # map (Append ?tmp) (dump payload @ [nl])) w = Inr ?w1"
    using fs_run_appends[of "w\<lparr>files := (files w)(?tmp \<mapsto> [])\<rparr>" ?tmp "[]" "dump payload @ [nl]"] by simp
  have ops: "?ops = (OpenTrunc ?tmp # map (Append ?tmp) (dump payload @ [nl])) @ [Replace ?tmp path]"
    by (simp add: write_json_ops_def Let_def)
  have all: "fs_run ?ops w = Inr (w\<lparr>files := (files w)(path \<mapsto> concat (dump payload) @ nl, ?tmp := None)\<rparr>)"
    unfolding ops fs_run_append body using write_json_target[where m = "files w"] by (simp add: bindE_def)
  have "\<exists>w'. fs_run (take n ?ops) w = Inr w'"
    using all fs_run_append[of "take n ?ops" "drop n ?ops" w]
    by (cases "fs_run (take n ?ops) w") (auto simp: bindE_def)
  then obtain w' where w': "fs_run (take n ?ops) w = Inr w'" by blast
  have "files w' path \<in> {files w path, Some (concat (dump payload) @ nl)}"
  proof (cases "n \<le> length (dump payload) + 2")
    case True
    then show ?thesis using write_json_prefix[OF True w'] by simp
  next
    case False
    then have "take n ?ops = ?ops" by (simp add: write_json_ops_def Let_def)
    then show ?thesis using w' all by auto
  qed
  then show ?thesis using all w' by (simp add: write_json_def)
qed

section \<open>The output directory\<close>

lemma reserve_loop_fresh:
  assumes "reserve_loop draw d w g = Some (cid, dir, w', g')"
  shows "dir = path_join d cid \<and> dir \<notin> dirs w \<and> w' = w\<lparr>dirs := insert dir (dirs w)\<rparr> \<and> (\<exists>n. cid = show_int n)"
proof -
  have "\<forall>cid dir w' g'. r = (cid, dir, w', g') \<longrightarrow>
      dir = path_join d cid \<and> dir \<notin> dirs w \<and> w' = w\<lparr>dirs := insert dir (dirs w)\<rparr> \<and> (\<exists>n. cid = show_int n)"
    if "reserve_loop draw d w g = Some r" for r
  proof (rule reserve_loop.raw_induct[OF _ that], goal_cases)
    case (1 loop draw d w g y)
    obtain n g1 where n: "draw g = (n, g1)" by (cases "draw g")
    show ?case
      using 1(2) n by (auto simp: makedirs_def split: if_splits dest!: 1(1))
  qed
  then show ?thesis using assms by blast
qed

text \<open>
  C12. A run never shares its directory: the reserved directory did not exist before, exists
  afterwards, is a direct child of the output root (its name has no slash), and nothing else
  changes; a requested id that is malformed or taken is refused with the file system untouched.
\<close>

theorem reserve_output_dir_fresh:
  assumes "reserve_output_dir draw out_root requested w g = Some (Inr (cid, dir, w', g'))"
  shows "dir = out_root @ ''/'' @ cid \<and> CHR ''/'' \<notin> set cid \<and> cid \<noteq> [] \<and>
    dir \<notin> dirs w \<and> dirs w' = insert dir (dirs w) \<and> files w' = files w \<and>
    (case requested of None \<Rightarrow> True | Some rid \<Rightarrow> cid = rid)"
proof (cases requested)
  case None
  then have "reserve_loop draw out_root w g = Some (cid, dir, w', g')"
    using assms by (auto simp: reserve_output_dir_def)
  from reserve_loop_fresh[OF this] obtain n where n: "cid = show_int n" and
    rest: "dir = path_join out_root cid" "dir \<notin> dirs w" "w' = w\<lparr>dirs := insert dir (dirs w)\<rparr>" by blast
  have ne: "digit_char d \<noteq> CHR ''/''" if "d < 10" for d
    using digit_char_props(1)[OF that] by (auto simp: is_digit_def Let_def)
  have "CHR ''/'' \<notin> set (show_int n)"
    using ne show_int_chars[of "CHR ''/''" n] by (auto dest: sym)
  then show ?thesis using None n rest by (simp add: path_join_def)
next
  case (Some rid)
  have ok: "rid \<noteq> []" "list_all (\<lambda>c. c \<in> set run_id_chars) rid"
    and mk: "bindE (make_requested w out_root rid) (\<lambda>w'. Inr (rid, path_join out_root rid, w', g))
      = Inr (cid, dir, w', g')"
    using assms Some by (auto simp: reserve_output_dir_def split: if_splits)
  have "CHR ''/'' \<notin> set rid"
  proof
    assume "CHR ''/'' \<in> set rid"
    then have "CHR ''/'' \<in> set run_id_chars" using ok(2) by (auto simp: list_all_iff)
    then show False by (simp add: run_id_chars_def)
  qed
  then show ?thesis using Some ok mk
    by (auto simp: bindE_Inr_iff make_requested_def makedirs_def path_join_def split: if_splits)
qed

theorem reserve_output_dir_fresh_witness:
  "\<exists>w'. reserve_output_dir (\<lambda>g. (g, g + 1)) ''out'' (Some ''run-7'') \<lparr>files = (\<lambda>_. None), dirs = {''out''}\<rparr> (0::int)
       = Some (Inr (''run-7'', ''out/run-7'', w', 0)) \<and>
     dirs w' = {''out/run-7'', ''out''} \<and> files w' = (\<lambda>_. None)"
proof -
  obtain w' where r: "reserve_output_dir (\<lambda>g. (g, g + 1)) ''out'' (Some ''run-7'') \<lparr>files = (\<lambda>_. None), dirs = {''out''}\<rparr> (0::int)
    = Some (Inr (''run-7'', ''out/run-7'', w', 0))"
    by (simp add: reserve_output_dir_def run_id_chars_def make_requested_def makedirs_def path_join_def)
  from reserve_output_dir_fresh[OF r] r show ?thesis by simp
qed

section \<open>Completion counts\<close>

lemma finished_loop_counts:
  assumes "finished_loop ls n apps = Inr (n', apps')" "distinct apps" "length apps \<le> n"
  shows "distinct apps' \<and> length apps' \<le> n' \<and> n' = n + length (filter (\<lambda>l. 9 \<le> length (split_ws l)) ls) \<and>
    set (map Some apps') = set (map Some apps) \<union> (\<lambda>l. py_int (split_ws l ! 8)) ` {l \<in> set ls. 9 \<le> length (split_ws l)}"
  using assms
proof (induction ls arbitrary: n apps)
  case (Cons l ls)
  show ?case
  proof (cases "length (split_ws l) < 9")
    case True
    then show ?thesis using Cons by (auto simp: Let_def)
  next
    case False
    then obtain a where a: "py_int (split_ws l ! 8) = Some a" "finished_loop ls (n + 1) (List.insert a apps) = Inr (n', apps')"
      using Cons.prems(1) by (auto simp: Let_def bindE_Inr_iff to_int_def)
    have "length (List.insert a apps) \<le> n + 1" using Cons.prems(3) by (simp add: List.insert_def)
    moreover have "{la \<in> set (l # ls). 9 \<le> length (split_ws la)} = insert l {la \<in> set ls. 9 \<le> length (split_ws la)}"
      using False by auto
    ultimately show ?thesis
      using Cons.IH[OF a(2)] Cons.prems(2) False a(1) by (simp add: distinct_insert not_less)
  qed
qed auto

text \<open>
  The completion counts: the number of finished queue pairs is the number of rows of the FCT
  output with at least nine fields, and the number of finished applications is the number of
  different values of the ninth field among them; so there are at most as many applications as rows.
\<close>

theorem completion_counts:
  assumes "parse_completion_counts w out_log fct = Inr c" and "files w fct = Some contents"
  shows "finished_qp c = length (filter (\<lambda>l. 9 \<le> length (split_ws l)) (py_lines contents)) \<and>
    finished_apps c = card ((\<lambda>l. py_int (split_ws l ! 8)) ` {l \<in> set (py_lines contents). 9 \<le> length (split_ws l)}) \<and>
    finished_apps c \<le> finished_qp c"
proof -
  obtain n apps where f: "finished_loop (py_lines contents) 0 [] = Inr (n, apps)"
    and c: "finished_qp c = n" "finished_apps c = length apps"
    using assms by (auto simp: parse_completion_counts_def bindE_Inr_iff)
  from finished_loop_counts[OF f] have d: "distinct apps" "length apps \<le> n"
    "n = length (filter (\<lambda>l. 9 \<le> length (split_ws l)) (py_lines contents))"
    "set (map Some apps) = (\<lambda>l. py_int (split_ws l ! 8)) ` {l \<in> set (py_lines contents). 9 \<le> length (split_ws l)}"
    by auto
  have "length apps = card (set (map Some apps))"
    using d(1) by (metis card_image distinct_card inj_Some length_map list.set_map inj_on_subset subset_UNIV)
  then show ?thesis using c d by simp
qed

theorem completion_counts_witness:
  "finished_apps \<lparr>target_qp = None, finished_qp = 2, finished_apps = 1\<rparr> \<le> (2 :: nat)"
proof -
  let ?w = "\<lparr>files = [''f'' \<mapsto> ''1 2 3 4 5 6 7 8 70'' @ nl @ ''x y'' @ nl @ ''1 2 3 4 5 6 7 8 70 9'' @ nl], dirs = {}\<rparr>"
  have "parse_completion_counts ?w ''log'' ''f'' = Inr \<lparr>target_qp = None, finished_qp = 2, finished_apps = 1\<rparr>"
    by code_simp
  from completion_counts[OF this] show ?thesis by simp
qed

end
