(* ===== verification/RunDriver.thy ===== *)
theory RunDriver
  imports RunMain
begin

text \<open>
  The course of \<open>main\<close> in \<open>run.py\<close> once the options are parsed: inputs, reservation of the output
  directory, configuration and manifest, the simulation, the completed manifest and the analysis
  commands. A step returns its result or the exception together with the file system at that point,
  so that what a failed run leaves behind is part of the model.

  The processes that \<open>main\<close> starts and what it reads from the environment are the record \<open>ext\<close>. Paths
  below the working directory are used as written (the script mixes relative paths and paths below
  \<open>os.getcwd()\<close>, which name the same files). The analysis scripts run on the outputs when everything
  modelled here has happened; only their command lines are results.
\<close>

section \<open>Results with the file system\<close>

type_synonym 'a act = "'a res \<times> fs"

definition bindF :: "'a act \<Rightarrow> ('a \<Rightarrow> fs \<Rightarrow> 'b act) \<Rightarrow> 'b act" where
  "bindF m f = (case m of (Inl e, w) \<Rightarrow> (Inl e, w) | (Inr a, w) \<Rightarrow> f a w)"

lemma bindF_simps [simp]: "bindF (Inl e, w) f = (Inl e, w)" "bindF (Inr a, w) f = f a w"
  by (simp_all add: bindF_def)

lemma bindF_Inr: "bindF m f = (Inr b, w') \<longleftrightarrow> (\<exists>a w. m = (Inr a, w) \<and> f a w = (Inr b, w'))"
  by (auto simp: bindF_def split: prod.splits sum.splits)

section \<open>The environment\<close>

record ext =
  x_cwd :: string
  x_python :: string
  x_argv :: "string list"
  x_digest :: "string \<Rightarrow> string"
  x_abspath :: "string \<Rightarrow> string"
  x_dump :: "json \<Rightarrow> string list"
  x_read_inputs :: "string \<Rightarrow> string \<Rightarrow> json res"
  x_shell :: "string \<Rightarrow> fs \<Rightarrow> fs"
  x_simulator :: "string \<Rightarrow> string \<Rightarrow> fs \<Rightarrow> fs \<times> bool"
  x_binary :: "json option"
  x_git :: json
  x_parent_git :: json
  x_day :: string
  x_created :: string
  x_completed :: string
  x_lib_path_var :: string
  x_lib_dir :: string

definition sim_binary_path :: string where
  "sim_binary_path = ''build/scratch/network-load-balance/network-load-balance''"

definition history_path :: string where
  "history_path = ''./mix/.history''"

definition append_file :: "string \<Rightarrow> string \<Rightarrow> fs \<Rightarrow> fs" where
  "append_file p s w = w\<lparr>files := (files w)(p \<mapsto> (case files w p of None \<Rightarrow> s | Some t \<Rightarrow> t @ s))\<rparr>"

definition dirname :: "string \<Rightarrow> string" where
  "dirname p = rev (drop 1 (dropWhile (\<lambda>c. c \<noteq> CHR ''/'') (rev p)))"

text \<open>\<open>open(path, "w")\<close> followed by one \<open>write\<close>.\<close>

definition write_file :: "string \<Rightarrow> string \<Rightarrow> fs \<Rightarrow> unit act" where
  "write_file p s w =
     (if dirname p \<in> dirs w then (Inr (), w\<lparr>files := (files w)(p \<mapsto> s)\<rparr>)
      else (Inl (FileNotFoundError p), w))"

definition read_file :: "string \<Rightarrow> fs \<Rightarrow> string act" where
  "read_file p w = (of_option (FileNotFoundError p) (files w p), w)"

section \<open>The inputs\<close>

record run_inputs =
  in_flow_file :: string
  in_trace :: trace_metadata
  in_job :: "json option"
  in_cwh :: cwh_params

text \<open>The exception that each \<open>raise\<close> of \<open>validate_flow_file\<close> builds.\<close>

definition flow_error_exn :: "int \<Rightarrow> pyfloat \<Rightarrow> pyfloat \<Rightarrow> string \<Rightarrow> flow_error \<Rightarrow> exn" where
  "flow_error_exn n_host start stop path e =
     (let line = (\<lambda>n msg. ValueError (''FLOW_FILE line '' @ show_nat n @ msg @ '': '' @ path)) in
      case e of
        HeaderFields \<Rightarrow> line 1 '' must contain exactly one flow count''
      | HeaderNumber \<Rightarrow> line 1 '' has an invalid flow count''
      | NegativeCount \<Rightarrow> ValueError (''FLOW_FILE flow count must be non-negative: '' @ path)
      | FieldCount n m \<Rightarrow> line n ('' must contain exactly 5 fields, found '' @ show_nat m)
      | BadNumber n \<Rightarrow> line n '' contains an invalid numeric field''
      | BadEndpoints n s d \<Rightarrow> line n ('' has invalid endpoints src='' @ show_int s @ '', dst='' @ show_int d @
            '' for '' @ show_int n_host @ '' hosts'')
      | BadPgOrSize n \<Rightarrow> line n '' requires pg >= 0 and size > 0''
      | OutsideWindow n t \<Rightarrow> line n ('' has start time '' @ repr_float t @ '' outside ['' @ repr_float start @
            '', '' @ repr_float stop @ '']'')
      | NotOrdered n t p \<Rightarrow> line n ('' is not ordered by start time ('' @ repr_float t @ '' < '' @ repr_float p @ '')'')
      | CountMismatch m n \<Rightarrow> ValueError (''FLOW_FILE declares '' @ show_int m @ '' flows but contains '' @
            show_nat n @ '' rows: '' @ path))"

definition locate_flow_file :: "ext \<Rightarrow> run_args \<Rightarrow> checked \<Rightarrow> int \<Rightarrow> fs \<Rightarrow> string act" where
  "locate_flow_file x args k n_host w =
     (if truthy (flow_file (core args)) then
        (let f = x_abspath x (the (flow_file (core args))) in
         if files w f = None then (Inl (FileNotFoundError f), w) else (Inr f, w))
      else
        bindF (flow_name args (ck_hostload k) n_host (ck_bw k), w) (\<lambda>name w.
        let f = ''config/'' @ name @ ''.txt'' in
        if files w f \<noteq> None then (Inr f, w)
        else bindF (generator_command args (x_cwd x) (ck_hostload k) n_host f, w) (\<lambda>command w.
             (Inr f, x_shell x command w))))"

definition gather_inputs :: "ext \<Rightarrow> run_args \<Rightarrow> checked \<Rightarrow> fs \<Rightarrow> run_inputs act" where
  "gather_inputs x args k w =
     bindF (read_file (''config/'' @ topo (core args) @ ''.txt'') w) (\<lambda>topology w.
     bindF (sniff_hosts topology, w) (\<lambda>n_host w.
     bindF (guardE AssertionError (fle (Fin 0) (ck_hostload k) \<and> flt (ck_hostload k) (Fin 100)), w) (\<lambda>_ w.
     bindF (locate_flow_file x args k n_host w) (\<lambda>f w.
     bindF (read_file f w) (\<lambda>contents w.
     bindF ((case validate_flow_file (x_digest x) (x_abspath x) f contents n_host flowgen_start_time
                    (ck_stop_time k) of Inl e \<Rightarrow> Inl (flow_error_exn n_host flowgen_start_time (ck_stop_time k) f e) | Inr t \<Rightarrow> Inr t), w) (\<lambda>trace w.
     bindF ((if truthy (job_file (core args))
             then bindE (x_read_inputs x f (the (job_file (core args)))) (\<lambda>j. Inr (Some j))
             else Inr None), w) (\<lambda>job w.
     bindF (read_file (''config/'' @ topo (core args) @ ''.txt'') w) (\<lambda>topology w.
     bindF (check_bandwidth topology (ck_bw k), w) (\<lambda>_ w.
     bindF (cwh_setup (ck_lb_mode k) (topo (core args)) (pfc (core args)) (irn (core args)), w) (\<lambda>cwh w.
     (Inr \<lparr>in_flow_file = f, in_trace = trace, in_job = job, in_cwh = cwh\<rparr>, w)))))))))))"

section \<open>Directory, configuration, manifest\<close>

datatype prepared =
    Unregistered
  | Prepared string string int "(string \<times> json) list"

definition lift_res :: "fs \<Rightarrow> fs res \<Rightarrow> unit act" where
  "lift_res w r = (case r of Inl e \<Rightarrow> (Inl e, w) | Inr w' \<Rightarrow> (Inr (), w'))"

definition missing_binary :: "ext \<Rightarrow> json" where
  "missing_binary x =
     JObj [(''absolute_path'', JStr (x_abspath x sim_binary_path)), (''sha256'', JNull),
           (''runtime_sha256'', JNull), (''runtime_artifacts'', JList [])]"

text \<open>
  An unknown congestion control leaves \<open>config\<close> unbound, which shows only after the file was opened
  for writing; other exceptions come from computing the text.
\<close>

definition write_config :: "string \<Rightarrow> string res \<Rightarrow> fs \<Rightarrow> string act" where
  "write_config path txt w =
     (case txt of
        Inr s \<Rightarrow> bindF (write_file path s w) (\<lambda>_ w. (Inr s, w))
      | Inl (UnboundLocalError v) \<Rightarrow> bindF (write_file path [] w) (\<lambda>_ w. (Inl (UnboundLocalError v), w))
      | Inl e \<Rightarrow> (Inl e, w))"

definition prepared_manifest ::
  "ext \<Rightarrow> run_args \<Rightarrow> checked \<Rightarrow> run_inputs \<Rightarrow> string \<Rightarrow> string \<Rightarrow> pyfloat \<Rightarrow> (string \<times> json) list" where
  "prepared_manifest x args k i config_ID txt t =
     run_manifest
       \<lparr>m_created = x_created x, m_git = x_git x, m_parent_git = x_parent_git x,
        m_job = (case in_job i of None \<Rightarrow> JNull | Some j \<Rightarrow> j), m_argv = x_argv x,
        m_binary = (case x_binary x of None \<Rightarrow> missing_binary x | Some b \<Rightarrow> b),
        m_config_sha = x_digest x txt\<rparr> args k config_ID (in_trace i) t"

definition prepare_config ::
  "ext \<Rightarrow> run_args \<Rightarrow> checked \<Rightarrow> run_inputs \<Rightarrow> string \<Rightarrow> string \<Rightarrow> fs \<Rightarrow> prepared act" where
  "prepare_config x args k i config_ID dir w =
     (let w = append_file history_path (history_line args k (in_cwh i) (x_day x) config_ID) w in
      case topo2bdp (topo (core args)) of
        None \<Rightarrow> (Inr Unregistered, w)
      | Some bdp \<Rightarrow>
          bindF (write_config (path_join dir ''config.txt'')
                   (config_text args k (in_cwh i) config_ID (in_flow_file i)) w) (\<lambda>txt w.
          bindF (to_float (simul_time (core args)), w) (\<lambda>t w.
          let manifest = prepared_manifest x args k i config_ID txt t
          in bindF (lift_res w (write_json (x_dump x) (path_join dir ''run_manifest.json'') (JObj manifest) w))
               (\<lambda>_ w. (Inr (Prepared config_ID dir bdp manifest), w)))))"

section \<open>The simulation\<close>

definition run_prefix :: "ext \<Rightarrow> string" where
  "run_prefix x = x_lib_path_var x @ ''='' @ x_lib_dir x @ '':$'' @ x_lib_path_var x"

definition log_name :: "string \<Rightarrow> string" where
  "log_name config_name = py_replace ''.txt'' ''.log'' config_name"

text \<open>The simulator runs with its output in the log; the counts are read when it succeeded.\<close>

definition simulate ::
  "ext \<Rightarrow> string \<Rightarrow> string \<Rightarrow> (string \<times> json) list \<Rightarrow> bool \<Rightarrow> fs \<Rightarrow> completion act" where
  "simulate x config_ID dir manifest has_jobs w =
     (let config_name = path_join dir ''config.txt''; output_log = log_name config_name in
      case x_simulator x config_name output_log w of
        (w, ok) \<Rightarrow>
          if \<not> ok then (Inl (Exception ''CalledProcessError''), w)
          else
            bindF (parse_completion_counts w output_log (path_join dir (config_ID @ ''_out_fct.txt'')), w) (\<lambda>c w.
            bindF (lift_res w (write_json (x_dump x) (path_join dir ''run_manifest.json'')
                     (JObj (completed_manifest manifest (x_completed x) c has_jobs)) w)) (\<lambda>_ w.
            (Inr c, w))))"

definition run_record :: "ext \<Rightarrow> string \<Rightarrow> string" where
  "run_record x config_name =
     run_prefix x @ '' '' @ x_abspath x sim_binary_path @ '' '' @ config_name @ '' > '' @ log_name config_name @
       '' 2>&1'' @ nl @
     run_prefix x @ '' gdb --args '' @ x_abspath x sim_binary_path @ '' '' @ config_name @ nl @ nl"

definition execute ::
  "ext \<Rightarrow> string \<Rightarrow> string \<Rightarrow> (string \<times> json) list \<Rightarrow> bool \<Rightarrow> fs \<Rightarrow> completion act" where
  "execute x config_ID dir manifest has_jobs w =
     (let config_name = path_join dir ''config.txt'' in
      if x_binary x = None then
        (Inl (FileNotFoundError (sim_binary_path @ '' does not exist. Run '' @ [CHR 0x27] @ ''./waf build'' @
          [CHR 0x27] @ '' once before starting simulations.'')), w)
      else
        bindF (write_file (log_name config_name) [] (append_file history_path (run_record x config_name) w))
          (\<lambda>_. simulate x config_ID dir manifest has_jobs))"

section \<open>main\<close>

datatype ending =
    Finished "string list list"
  | NotRegistered
  | Raised exn

text \<open>The commands of the two analysis scripts.\<close>

definition analysis_commands :: "ext \<Rightarrow> checked \<Rightarrow> string \<Rightarrow> int \<Rightarrow> string list list res" where
  "analysis_commands x k config_ID bdp =
     bindE (fct_command (x_python x) config_ID (x_cwd x) bdp flowgen_start_time (ck_stop_time k)) (\<lambda>fct.
     if ck_lb_mode k = 9
     then bindE (queue_command (x_python x) config_ID (x_cwd x) flowgen_start_time (ck_stop_time k)) (\<lambda>queue.
          Inr [fct, queue])
     else Inr [fct])"

definition ending_of :: "string list list act \<Rightarrow> ending \<times> fs" where
  "ending_of m = (case m of (Inl e, w) \<Rightarrow> (Raised e, w) | (Inr cs, w) \<Rightarrow> (Finished cs, w))"

definition after_prepare :: "ext \<Rightarrow> checked \<Rightarrow> bool \<Rightarrow> prepared act \<Rightarrow> ending \<times> fs" where
  "after_prepare x k has_jobs m =
     (case m of
        (Inl e, w) \<Rightarrow> (Raised e, w)
      | (Inr Unregistered, w) \<Rightarrow> (NotRegistered, w)
      | (Inr (Prepared config_ID dir bdp manifest), w) \<Rightarrow>
          ending_of (bindF (execute x config_ID dir manifest has_jobs w) (\<lambda>_ w.
                     (analysis_commands x k config_ID bdp, w))))"

definition ensure_root :: "ext \<Rightarrow> fs \<Rightarrow> fs" where
  "ensure_root x w =
     (let out_root = path_join (path_join (x_cwd x) ''mix'') ''output''
      in if out_root \<in> dirs w then w else w\<lparr>dirs := insert out_root (dirs w)\<rparr>)"

definition main ::
  "('g \<Rightarrow> int \<times> 'g) \<Rightarrow> ext \<Rightarrow> run_args \<Rightarrow> fs \<Rightarrow> 'g \<Rightarrow> (ending \<times> fs) option" where
  "main draw x args w g =
     (let out_root = path_join (path_join (x_cwd x) ''mix'') ''output'';
          w = ensure_root x w
      in case check_args args of
           None \<Rightarrow> None
         | Some (Inl e) \<Rightarrow> Some (Raised e, w)
         | Some (Inr k) \<Rightarrow>
             (case gather_inputs x args k w of
                (Inl e, w) \<Rightarrow> Some (Raised e, w)
              | (Inr i, w) \<Rightarrow>
                  (case reserve_output_dir draw out_root (run_id (core args)) w g of
                     None \<Rightarrow> None
                   | Some (Inl e) \<Rightarrow> Some (Raised e, w)
                   | Some (Inr (config_ID, dir, w, g)) \<Rightarrow>
                       Some (after_prepare x k (in_job i \<noteq> None)
                         (prepare_config x args k i config_ID dir w)))))"

section \<open>What is on disk after a run\<close>

lemma append_file_simps [simp]:
  "dirs (append_file p s w) = dirs w" "q \<noteq> p \<Longrightarrow> files (append_file p s w) q = files w q"
  by (simp_all add: append_file_def)

lemma write_file_Inr: "write_file p s w = (Inr u, w') \<longleftrightarrow> dirname p \<in> dirs w \<and> w' = w\<lparr>files := (files w)(p \<mapsto> s)\<rparr>"
  by (auto simp: write_file_def)

lemma write_file_frame: "q \<noteq> p \<Longrightarrow> files (snd (write_file p s w)) q = files w q"
  by (simp add: write_file_def)

lemma write_json_result:
  "write_json dump path payload w =
     Inr (w\<lparr>files := (files w)(path \<mapsto> concat (dump payload) @ nl, path @ ''.tmp'' := None)\<rparr>)"
proof -
  let ?tmp = "path @ ''.tmp''"
  let ?w1 = "w\<lparr>files := (files w)(?tmp \<mapsto> concat (dump payload) @ nl)\<rparr>"
  have body: "fs_run (OpenTrunc ?tmp # map (Append ?tmp) (dump payload @ [nl])) w = Inr ?w1"
    using fs_run_appends[of "w\<lparr>files := (files w)(?tmp \<mapsto> [])\<rparr>" ?tmp "[]" "dump payload @ [nl]"] by simp
  have ops: "write_json_ops dump path payload
      = (OpenTrunc ?tmp # map (Append ?tmp) (dump payload @ [nl])) @ [Replace ?tmp path]"
    by (simp add: write_json_ops_def Let_def)
  show ?thesis
    unfolding write_json_def ops fs_run_append body using write_json_target[where m = "files w"] by (simp add: bindE_def)
qed

lemma lift_write_json:
  "lift_res v (write_json dump path payload w) =
     (Inr (), w\<lparr>files := (files w)(path \<mapsto> concat (dump payload) @ nl, path @ ''.tmp'' := None)\<rparr>)"
  by (simp add: lift_res_def write_json_result)

text \<open>Names: the manifest is neither the history nor the log.\<close>

lemma manifest_not_history: "path_join dir ''run_manifest.json'' \<noteq> history_path"
proof -
  have "last (path_join dir ''run_manifest.json'') \<noteq> last history_path"
    by (simp add: path_join_def history_path_def)
  then show ?thesis by metis
qed

lemma split_str_single: "split_str sep s = [w] \<Longrightarrow> w = s"
proof (induction sep s arbitrary: w rule: split_str.induct)
  case (2 sep c cs)
  then show ?case by (auto split: if_splits list.splits)
qed simp

lemma last_split_str: "last (split_str sep s) = [] \<or> (s \<noteq> [] \<and> last (last (split_str sep s)) = last s)"
proof (induction sep s rule: split_str.induct)
  case (2 sep c cs)
  show ?case
  proof (cases "sep \<noteq> [] \<and> has_prefix sep (c # cs)")
    case True
    let ?d = "drop (length sep) (c # cs)"
    have eq: "split_str sep (c # cs) = [] # split_str sep ?d" using True by simp
    show ?thesis
    proof (cases "?d = []")
      case True
      then show ?thesis by (simp only: eq) simp
    next
      case False
      then have "last ?d = last (c # cs)" by (metis append_take_drop_id last_appendR)
      then show ?thesis using 2(1)[OF True] by (simp only: eq last_ConsR[OF split_str_ne]) auto
    qed
  next
    case False
    obtain w ws where w: "split_str sep cs = w # ws" by (meson neq_Nil_conv split_str_ne)
    show ?thesis
    proof (cases ws)
      case Nil
      then have "split_str sep (c # cs) = [c # cs]" using False w split_str_single[of sep cs w] by simp
      then show ?thesis by (simp only:) simp
    next
      case (Cons v vs)
      then have "split_str sep (c # cs) = (c # w) # v # vs" "split_str sep cs = w # v # vs" using False w by simp_all
      then show ?thesis using 2(2)[OF False] by (cases cs) (simp_all only:, simp_all)
    qed
  qed
qed simp

lemma last_py_join: "ws \<noteq> [] \<Longrightarrow> last ws \<noteq> [] \<Longrightarrow> py_join sep ws \<noteq> [] \<and> last (py_join sep ws) = last (last ws)"
  by (induction sep ws rule: py_join.induct) (auto simp: last_append)

lemma last_py_join_Nil: "tl ws \<noteq> [] \<Longrightarrow> last ws = [] \<Longrightarrow> sep \<noteq> [] \<Longrightarrow> py_join sep ws \<noteq> [] \<and> last (py_join sep ws) = last sep"
proof (induction sep ws rule: py_join.induct)
  case (3 sep w v ws)
  then show ?case by (cases ws) (auto simp: last_append)
qed auto

lemma last_py_replace:
  assumes "s \<noteq> []" "new \<noteq> []"
  shows "py_replace old new s \<noteq> [] \<and> last (py_replace old new s) \<in> {last s, last new}"
proof (cases "last (split_str old s) = []")
  case True
  have "tl (split_str old s) \<noteq> []"
  proof
    assume "tl (split_str old s) = []"
    then obtain w where w: "split_str old s = [w]" by (metis list.collapse split_str_ne)
    then show False using True assms(1) split_str_single[OF w] by simp
  qed
  then show ?thesis using last_py_join_Nil[OF _ True assms(2)] by (simp add: py_replace_def)
next
  case False
  then show ?thesis
    using last_split_str[of old s] last_py_join[OF split_str_ne False] by (simp add: py_replace_def)
qed

lemma manifest_not_log: "path_join dir ''run_manifest.json'' \<noteq> log_name (path_join d ''config.txt'')"
proof -
  have "last (log_name (path_join d ''config.txt'')) \<in> {CHR ''t'', CHR ''g''}"
    using last_py_replace[of "path_join d ''config.txt''" "''.log''" "''.txt''"] by (simp add: log_name_def path_join_def)
  moreover have "last (path_join dir ''run_manifest.json'') = CHR ''n''" by (simp add: path_join_def)
  ultimately show ?thesis by auto
qed

lemma map_of_dict_set: "map_of (dict_set k v d) = (map_of d)(k \<mapsto> v)"
  by (induction k v d rule: dict_set.induct) (auto simp: fun_eq_iff)

lemma completed_status: "map_of (completed_manifest m t c b) ''status'' = Some (JStr ''simulation_complete'')"
  by (simp add: completed_manifest_def map_of_dict_set)

lemma simulate_manifest:
  assumes "files w (path_join dir ''run_manifest.json'') = Some prepared_text"
    and "\<forall>v. files (fst (x_simulator x (path_join dir ''config.txt'') (log_name (path_join dir ''config.txt'')) v))
             (path_join dir ''run_manifest.json'') = files v (path_join dir ''run_manifest.json'')"
  shows "case simulate x config_ID dir manifest has_jobs w of
      (Inl e, w') \<Rightarrow> files w' (path_join dir ''run_manifest.json'') = Some prepared_text
    | (Inr c, w') \<Rightarrow> files w' (path_join dir ''run_manifest.json'') =
        Some (concat (x_dump x (JObj (completed_manifest manifest (x_completed x) c has_jobs))) @ nl) \<and>
        map_of (completed_manifest manifest (x_completed x) c has_jobs) ''status'' = Some (JStr ''simulation_complete'')"
proof -
  let ?m = "path_join dir ''run_manifest.json''" and ?cfg = "path_join dir ''config.txt''"
  obtain w3 ok where w3: "x_simulator x ?cfg (log_name ?cfg) w = (w3, ok)" by fastforce
  moreover have "files w3 ?m = Some prepared_text" using spec[OF assms(2), of w] assms(1) w3 by simp
  ultimately show ?thesis
    using completed_status
    by (cases ok; cases "parse_completion_counts w3 (log_name ?cfg) (path_join dir (config_ID @ ''_out_fct.txt''))")
       (simp_all add: simulate_def Let_def lift_write_json)
qed

text \<open>
  A failed simulation is never reported as complete: when the execution step raises (the binary
  is missing, the log cannot be opened, the simulator exits with an error, its outputs are
  malformed), the manifest on disk is still the one written before the simulation; and when it
  succeeds the manifest has been replaced by the completed one with the counts of the outputs.
\<close>

theorem execute_manifest:
  assumes "files w (path_join dir ''run_manifest.json'') = Some prepared_text"
    and "\<forall>v. files (fst (x_simulator x (path_join dir ''config.txt'') (log_name (path_join dir ''config.txt'')) v))
             (path_join dir ''run_manifest.json'') = files v (path_join dir ''run_manifest.json'')"
  shows "case execute x config_ID dir manifest has_jobs w of
      (Inl e, w') \<Rightarrow> files w' (path_join dir ''run_manifest.json'') = Some prepared_text
    | (Inr c, w') \<Rightarrow> files w' (path_join dir ''run_manifest.json'') =
        Some (concat (x_dump x (JObj (completed_manifest manifest (x_completed x) c has_jobs))) @ nl) \<and>
        map_of (completed_manifest manifest (x_completed x) c has_jobs) ''status'' = Some (JStr ''simulation_complete'')"
proof (cases "x_binary x")
  case None
  then show ?thesis using assms(1) by (simp add: execute_def Let_def)
next
  case (Some b)
  let ?m = "path_join dir ''run_manifest.json''" and ?cfg = "path_join dir ''config.txt''"
  define w1 where "w1 = append_file history_path (run_record x ?cfg) w"
  have w1: "files w1 ?m = Some prepared_text"
    using assms(1) manifest_not_history by (simp add: w1_def)
  have "files (snd (write_file (log_name ?cfg) [] w1)) ?m = Some prepared_text"
    using w1 write_file_frame manifest_not_log by metis
  then obtain r w2 where w2: "write_file (log_name ?cfg) [] w1 = (r, w2)" "files w2 ?m = Some prepared_text"
    by (metis prod.collapse)
  have "execute x config_ID dir manifest has_jobs w =
      bindF (r, w2) (\<lambda>_. simulate x config_ID dir manifest has_jobs)"
    using Some w2(1) by (simp add: execute_def Let_def w1_def)
  then show ?thesis
    using w2(2) simulate_manifest[OF w2(2) assms(2)] by (cases r) simp_all
qed

definition failing_ext :: ext where
  "failing_ext =
     \<lparr>x_cwd = ''/r'', x_python = ''python3'', x_argv = [''run.py''], x_digest = (\<lambda>s. ''d''), x_abspath = (\<lambda>s. ''/r/'' @ s),
      x_dump = (\<lambda>j. [''{}'']), x_read_inputs = (\<lambda>f j. Inr JNull), x_shell = (\<lambda>c w. w),
      x_simulator = (\<lambda>cfg out_log w. (w, False)), x_binary = Some JNull, x_git = JNull, x_parent_git = JNull,
      x_day = ''01/01/26'', x_created = ''t0'', x_completed = ''t1'', x_lib_path_var = ''LD_LIBRARY_PATH'',
      x_lib_dir = ''/r/build''\<rparr>"

theorem execute_manifest_witness:
  "case execute failing_ext ''7'' ''o/7'' [] False
      \<lparr>files = [''o/7/run_manifest.json'' \<mapsto> ''{}''], dirs = {''o/7''}\<rparr> of
     (Inl e, w') \<Rightarrow> e = Exception ''CalledProcessError'' \<and> files w' ''o/7/run_manifest.json'' = Some ''{}''
   | (Inr c, w') \<Rightarrow> False"
proof -
  let ?w = "\<lparr>files = [''o/7/run_manifest.json'' \<mapsto> ''{}''], dirs = {''o/7''}\<rparr>"
  have "fst (execute failing_ext ''7'' ''o/7'' [] False ?w) = Inl (Exception ''CalledProcessError'')"
    by code_simp
  moreover have "case execute failing_ext ''7'' ''o/7'' [] False ?w of
      (Inl e, w') \<Rightarrow> files w' (path_join ''o/7'' ''run_manifest.json'') = Some ''{}''
    | (Inr c, w') \<Rightarrow> files w' (path_join ''o/7'' ''run_manifest.json'') =
        Some (concat (x_dump failing_ext (JObj (completed_manifest [] (x_completed failing_ext) c False))) @ nl) \<and>
        map_of (completed_manifest [] (x_completed failing_ext) c False) ''status'' = Some (JStr ''simulation_complete'')"
    by (rule execute_manifest) (simp_all add: failing_ext_def path_join_def)
  ultimately show ?thesis by (auto simp: path_join_def split: prod.splits sum.splits)
qed

lemma write_config_Inr:
  "write_config p txt w = (Inr s, w') \<longleftrightarrow> txt = Inr s \<and> dirname p \<in> dirs w \<and> w' = w\<lparr>files := (files w)(p \<mapsto> s)\<rparr>"
  by (auto simp: write_config_def bindF_Inr write_file_Inr split: sum.splits exn.splits)

lemma config_text_dcqcn: "config_text args k cwh cid f = Inr txt \<Longrightarrow> ck_cc_mode k = 1"
  by (auto simp: config_text_def bindE_Inr_iff split: if_splits)

lemma log_name_last: "last (log_name (path_join d ''config.txt'')) = CHR ''g''"
proof -
  have "last (split_str ''.txt'' (p @ ''.txt'')) = [] \<and> tl (split_str ''.txt'' (p @ ''.txt'')) \<noteq> []" for p
  proof (induction "length p" arbitrary: p rule: less_induct)
    case less
    show ?case
    proof (cases p)
      case Nil
      then show ?thesis by (simp only: append.simps) code_simp
    next
      case (Cons c q)
      show ?thesis
      proof (cases "has_prefix ''.txt'' (p @ ''.txt'')")
        case True
        have q: "\<exists>r. p = ''.txt'' @ r"
          using True Cons by (cases q; cases "tl q"; cases "tl (tl q)")
            (auto simp: has_prefix_def neq_Nil_conv split: if_splits)
        then obtain r where r: "p = ''.txt'' @ r" by blast
        then have "split_str ''.txt'' (p @ ''.txt'') = [] # split_str ''.txt'' (r @ ''.txt'')"
          by (simp add: has_prefix_def)
        then show ?thesis using less [of r] r by simp
      next
        case False
        obtain w ws where w: "split_str ''.txt'' (q @ ''.txt'') = w # ws" by (meson neq_Nil_conv split_str_ne)
        then have "split_str ''.txt'' (p @ ''.txt'') = (c # w) # ws" using False by (simp add: Cons)
        moreover have "last (split_str ''.txt'' (q @ ''.txt'')) = [] \<and> tl (split_str ''.txt'' (q @ ''.txt'')) \<noteq> []"
          by (rule less) (simp add: Cons)
        then have "last ws = [] \<and> ws \<noteq> []" unfolding w by (cases ws) simp_all
        ultimately show ?thesis by simp
      qed
    qed
  qed
  from this [of "d @ ''/config''"] show ?thesis
    using last_py_join_Nil [of "split_str ''.txt'' (path_join d ''config.txt'')" "''.log''"]
    by (simp add: log_name_def py_replace_def path_join_def)
qed

lemma config_not_others:
  "path_join d ''config.txt'' \<noteq> history_path" "path_join d ''config.txt'' \<noteq> path_join d' ''run_manifest.json''"
  "path_join d ''config.txt'' \<noteq> path_join d' ''run_manifest.json'' @ ''.tmp''"
  "path_join d ''config.txt'' \<noteq> log_name (path_join d ''config.txt'')"
proof -
  have l: "last (path_join d ''config.txt'') = CHR ''t''" by (simp add: path_join_def)
  have n: "s \<noteq> path_join d ''config.txt''" if "last s \<noteq> CHR ''t''" for s using that l by metis
  show "path_join d ''config.txt'' \<noteq> history_path" "path_join d ''config.txt'' \<noteq> path_join d' ''run_manifest.json''"
    "path_join d ''config.txt'' \<noteq> path_join d' ''run_manifest.json'' @ ''.tmp''"
    "path_join d ''config.txt'' \<noteq> log_name (path_join d ''config.txt'')"
    using n [of history_path] n [of "path_join d' ''run_manifest.json''"] n [of "log_name (path_join d ''config.txt'')"]
      n [of "path_join d' ''run_manifest.json'' @ ''.tmp''"] log_name_last [of d]
    by (auto simp: history_path_def path_join_def)
qed

lemma prepare_config_Inr:
  assumes "prepare_config x args k i config_ID dir w = (Inr (Prepared cid d bdp manifest), w')"
  shows "cid = config_ID \<and> d = dir \<and> topo2bdp (topo (core args)) = Some bdp \<and> ck_cc_mode k = 1 \<and>
    (\<exists>txt t. config_text args k (in_cwh i) config_ID (in_flow_file i) = Inr txt \<and>
      to_float (simul_time (core args)) = Inr t \<and> manifest = prepared_manifest x args k i config_ID txt t \<and>
      files w' (path_join dir ''config.txt'') = Some txt)"
  using assms
  by (auto simp: prepare_config_def Let_def bindF_Inr write_config_Inr lift_write_json config_not_others
      split: option.splits dest: config_text_dcqcn)

lemma gather_inputs_dirs:
  assumes "\<forall>c v. dirs v \<subseteq> dirs (x_shell x c v)" "gather_inputs x args k w = (Inr i, w')"
  shows "dirs w \<subseteq> dirs w'"
proof -
  have loc: "dirs w1 \<subseteq> dirs w2" if "locate_flow_file x args k n w1 = (Inr f, w2)" for n w1 f w2
    using that assms(1) by (auto simp: locate_flow_file_def Let_def bindF_Inr split: if_splits)
  show ?thesis
    using assms(2) by (auto simp: gather_inputs_def bindF_Inr read_file_def dest!: loc)
qed

text \<open>The two command lines; the analysis starts 5 ms after the first flows.\<close>

lemma analysis_commands_Inr:
  assumes "analysis_commands x k cid bdp = Inr cmds"
  shows "\<exists>stop. int_of_float (fmul (ck_stop_time k) (Fin 1000000000)) = Inr stop \<and>
    cmds = [x_python x, ''fctAnalysis.py'', ''-id'', cid, ''-dir'', x_cwd x, ''-bdp'', show_int bdp,
            ''-sT'', ''2005000000'', ''-fT'', show_int (stop + 50000000)] #
      (if ck_lb_mode k = 9
       then [[x_python x, ''queueAnalysis.py'', ''-id'', cid, ''-dir'', x_cwd x,
              ''-sT'', ''2005000000'', ''-fT'', show_int stop]] else [])"
proof -
  have "analysis_begin flowgen_start_time = Inr 2005000000" "show_int 2005000000 = ''2005000000''"
    "int_of_float (fmul (lit (5 / 100)) (Fin 1000000000)) = Inr 50000000"
    by code_simp+
  then show ?thesis
    using assms
    by (auto simp: analysis_commands_def fct_command_def queue_command_def fct_analysis_end_def
        queue_analysis_end_def bindE_Inr_iff split: if_splits)
qed

text \<open>A successful execution: the simulator got the configuration, and its outputs are counted.\<close>

lemma execute_Inr:
  assumes "execute x config_ID dir manifest has_jobs w = (Inr c, w')"
  shows "\<exists>v v'. files v (path_join dir ''config.txt'') = files w (path_join dir ''config.txt'') \<and>
    x_simulator x (path_join dir ''config.txt'') (log_name (path_join dir ''config.txt'')) v = (v', True) \<and>
    parse_completion_counts v' (log_name (path_join dir ''config.txt'')) (path_join dir (config_ID @ ''_out_fct.txt'')) = Inr c \<and>
    files w' (path_join dir ''run_manifest.json'') =
      Some (concat (x_dump x (JObj (completed_manifest manifest (x_completed x) c has_jobs))) @ nl)"
proof -
  let ?cfg = "path_join dir ''config.txt''"
  obtain v where v: "write_file (log_name ?cfg) [] (append_file history_path (run_record x ?cfg) w) = (Inr (), v)"
      "simulate x config_ID dir manifest has_jobs v = (Inr c, w')"
    using assms by (auto simp: execute_def Let_def bindF_Inr split: if_splits)
  then have "files v ?cfg = files w ?cfg"
    using config_not_others(1,4) by (auto simp: write_file_Inr)
  moreover obtain v' ok where "x_simulator x ?cfg (log_name ?cfg) v = (v', ok)" by fastforce
  ultimately show ?thesis
    using v(2) by (intro exI [of _ v] exI [of _ v']) (auto simp: simulate_def Let_def bindF_Inr lift_write_json split: if_splits)
qed

lemma reserve_output_dir_Inr:
  assumes "reserve_output_dir draw out_root requested w g = Some (Inr (cid, dir, w', g'))"
  shows "dir = path_join out_root cid \<and> dir \<notin> dirs w \<and> dir \<in> dirs w' \<and> (case requested of None \<Rightarrow> True | Some rid \<Rightarrow> cid = rid)"
  using assms reserve_loop_fresh
  by (fastforce simp: reserve_output_dir_def make_requested_def makedirs_def bindE_Inr_iff split: option.splits if_splits)

text \<open>
  C9. What a finished run guarantees, provided that the command that generates a traffic file removes
  no directories.  If \<open>main\<close> returns after the analyses, its options passed the checks with a congestion
  control whose configuration exists (DCQCN) and a registered topology; its output directory did not
  exist when the run started; the simulator was started on the configuration text of these options and
  succeeded; the manifest on disk is the one of this run, completed with the counts of the outputs that
  the simulator left; and the commands started afterwards are \<open>fctAnalysis.py\<close> and, for ConWeave,
  \<open>queueAnalysis.py\<close>, with the id, directory, bandwidth-delay product and time limits of this run.
\<close>

theorem main_finished:
  assumes "main draw x args w g = Some (Finished cmds, w')"
    and "\<forall>c v. dirs v \<subseteq> dirs (x_shell x c v)"
  shows "\<exists>k i w1 config_ID dir bdp txt t v v' c stop.
     check_args args = Some (Inr k) \<and> ck_cc_mode k = 1 \<and> topo2bdp (topo (core args)) = Some bdp \<and>
     gather_inputs x args k (ensure_root x w) = (Inr i, w1) \<and>
     dir = x_cwd x @ ''/mix/output/'' @ config_ID \<and> dir \<notin> dirs w \<and>
     (case run_id (core args) of None \<Rightarrow> True | Some rid \<Rightarrow> config_ID = rid) \<and>
     config_text args k (in_cwh i) config_ID (in_flow_file i) = Inr txt \<and>
     to_float (simul_time (core args)) = Inr t \<and>
     files v (dir @ ''/config.txt'') = Some txt \<and>
     x_simulator x (dir @ ''/config.txt'') (log_name (dir @ ''/config.txt'')) v = (v', True) \<and>
     parse_completion_counts v' (log_name (dir @ ''/config.txt'')) (dir @ ''/'' @ config_ID @ ''_out_fct.txt'') = Inr c \<and>
     files w' (dir @ ''/run_manifest.json'') =
       Some (concat (x_dump x (JObj (completed_manifest (prepared_manifest x args k i config_ID txt t)
               (x_completed x) c (in_job i \<noteq> None)))) @ nl) \<and>
     int_of_float (fmul (ck_stop_time k) (Fin 1000000000)) = Inr stop \<and>
     cmds = [x_python x, ''fctAnalysis.py'', ''-id'', config_ID, ''-dir'', x_cwd x, ''-bdp'', show_int bdp,
             ''-sT'', ''2005000000'', ''-fT'', show_int (stop + 50000000)] #
       (if ck_lb_mode k = 9
        then [[x_python x, ''queueAnalysis.py'', ''-id'', config_ID, ''-dir'', x_cwd x,
               ''-sT'', ''2005000000'', ''-fT'', show_int stop]] else [])"
proof -
  define out_root where "out_root = path_join (path_join (x_cwd x) ''mix'') ''output''"
  have w0: "dirs w \<subseteq> dirs (ensure_root x w)" by (auto simp: ensure_root_def Let_def)
  obtain k where k: "check_args args = Some (Inr k)"
    using assms(1) by (auto simp: main_def Let_def split: option.splits sum.splits)
  obtain i w1 where i: "gather_inputs x args k (ensure_root x w) = (Inr i, w1)"
    using assms(1) k by (auto simp: main_def Let_def split: prod.splits sum.splits)
  obtain cid dir w2 g2 where r: "reserve_output_dir draw out_root (run_id (core args)) w1 g = Some (Inr (cid, dir, w2, g2))"
    using assms(1) k i unfolding main_def Let_def out_root_def[symmetric] by (auto split: option.splits sum.splits)
  have after: "after_prepare x k (in_job i \<noteq> None) (prepare_config x args k i cid dir w2) = (Finished cmds, w')"
    using assms(1) k i r unfolding main_def Let_def out_root_def[symmetric] by simp
  then obtain cid' d bdp manifest w3 where p: "prepare_config x args k i cid dir w2 = (Inr (Prepared cid' d bdp manifest), w3)"
    by (auto simp: after_prepare_def split: prod.splits sum.splits prepared.splits)
  from prepare_config_Inr[OF p] obtain "txt" t where pc: "cid' = cid" "d = dir" "topo2bdp (topo (core args)) = Some bdp"
      "ck_cc_mode k = 1" "config_text args k (in_cwh i) cid (in_flow_file i) = Inr txt"
      "to_float (simul_time (core args)) = Inr t" "manifest = prepared_manifest x args k i cid txt t"
      "files w3 (path_join dir ''config.txt'') = Some txt" by blast
  have "ending_of (bindF (execute x cid dir manifest (in_job i \<noteq> None) w3) (\<lambda>_ v. (analysis_commands x k cid bdp, v)))
      = (Finished cmds, w')"
    using after p pc(1,2) by (simp add: after_prepare_def)
  then obtain c where e: "execute x cid dir manifest (in_job i \<noteq> None) w3 = (Inr c, w')" "analysis_commands x k cid bdp = Inr cmds"
    by (auto simp: ending_of_def bindF_def split: prod.splits sum.splits)
  have dir: "dir = x_cwd x @ ''/mix/output/'' @ cid" "dir \<notin> dirs w1"
    "case run_id (core args) of None \<Rightarrow> True | Some rid \<Rightarrow> cid = rid"
    using reserve_output_dir_Inr[OF r] by (auto simp: out_root_def path_join_def)
  have new: "dir \<notin> dirs w" using dir(2) w0 gather_inputs_dirs[OF assms(2) i] by blast
  obtain v v' where v: "files v (dir @ ''/config.txt'') = Some txt"
      "x_simulator x (dir @ ''/config.txt'') (log_name (dir @ ''/config.txt'')) v = (v', True)"
      "parse_completion_counts v' (log_name (dir @ ''/config.txt'')) (dir @ ''/'' @ cid @ ''_out_fct.txt'') = Inr c"
      "files w' (dir @ ''/run_manifest.json'') =
        Some (concat (x_dump x (JObj (completed_manifest manifest (x_completed x) c (in_job i \<noteq> None)))) @ nl)"
    using execute_Inr[OF e(1)] pc(8) by (auto simp: path_join_def)
  obtain stop where stop: "int_of_float (fmul (ck_stop_time k) (Fin 1000000000)) = Inr stop"
      "cmds = [x_python x, ''fctAnalysis.py'', ''-id'', cid, ''-dir'', x_cwd x, ''-bdp'', show_int bdp,
             ''-sT'', ''2005000000'', ''-fT'', show_int (stop + 50000000)] #
       (if ck_lb_mode k = 9
        then [[x_python x, ''queueAnalysis.py'', ''-id'', cid, ''-dir'', x_cwd x,
               ''-sT'', ''2005000000'', ''-fT'', show_int stop]] else [])"
    using analysis_commands_Inr[OF e(2)] by blast
  have "check_args args = Some (Inr k) \<and> ck_cc_mode k = 1 \<and> topo2bdp (topo (core args)) = Some bdp \<and>
     gather_inputs x args k (ensure_root x w) = (Inr i, w1)" using k pc i by simp
  then show ?thesis using dir(1,3) new pc(5,6,7) v stop by blast
qed

section \<open>An example run\<close>

definition example_args :: run_args where
  "example_args = default_args\<lparr>core := core_defaults\<lparr>topo := ''leaf_spine_16_100G_OS2'',
     flow_file := Some ''f.txt'', run_id := Some ''a''\<rparr>\<rparr>"

definition example_checked :: checked where
  "example_checked = \<lparr>ck_cc_mode = 1, ck_lb_mode = 0, ck_bw = 100, ck_stop_time = fadd (Fin 2) (lit (1 / 10)),
     ck_events = [], ck_link_degrade = ''0'', ck_weight_mode = 1, ck_policy = ''uniform'',
     ck_host = \<lparr>hs_app_lanes = [], hs_app_lanes_str = ''0'',
       hs_truth_node_a = 16, hs_truth_node_b = 18, hs_nominal_rate_bps = 100000000000\<rparr>,
     ck_hostload = Fin 20\<rparr>"

lemma example_accepted: "check_args example_args = Some (Inr example_checked)"
  by code_simp

definition example_ext :: ext where
  "example_ext = failing_ext\<lparr>x_abspath := (\<lambda>s. s), x_simulator := (\<lambda>cfg out_log w. (w, True))\<rparr>"

definition example_topology :: string where
  "example_topology = ''3 1 2'' @ nl @ ''2'' @ nl @ ''0 2 100Gbps 1000ns 0'' @ nl @ ''1 2 100Gbps 1000ns 0'' @ nl"

definition example_flows :: string where
  "example_flows = ''1'' @ nl @ ''0 1 3 100 2.0625'' @ nl"

definition example_fs :: fs where
  "example_fs = \<lparr>files = [''config/leaf_spine_16_100G_OS2.txt'' \<mapsto> example_topology, ''f.txt'' \<mapsto> example_flows],
     dirs = {''/r/mix/output''}\<rparr>"

definition example_inputs :: run_inputs where
  "example_inputs = \<lparr>in_flow_file = ''f.txt'',
     in_trace = \<lparr>absolute_path = ''f.txt'', flow_count = 1, sha256 = ''d''\<rparr>, in_job = None,
     in_cwh = \<lparr>cwh_extra_reply_deadline = 4, cwh_path_pause_time = 16, cwh_extra_voq_flush_time = 64,
               cwh_default_voq_waiting_time = 400, cwh_tx_expiry_time = 1000\<rparr>\<rparr>"

lemma example_sniff: "sniff_hosts example_topology = Inr 2"
  by code_simp

lemma example_bandwidth: "check_bandwidth example_topology 100 = Inr ()"
  by code_simp

lemma example_validate: "validate_flow_file (\<lambda>s. ''d'') (\<lambda>s. s) ''f.txt'' example_flows 2 flowgen_start_time
    (fadd (Fin 2) (lit (1 / 10))) = Inr \<lparr>absolute_path = ''f.txt'', flow_count = 1, sha256 = ''d''\<rparr>"
  by code_simp

lemma example_gather: "gather_inputs example_ext example_args example_checked example_fs = (Inr example_inputs, example_fs)"
proof -
  have "read_file ''config/leaf_spine_16_100G_OS2.txt'' example_fs = (Inr example_topology, example_fs)"
    "read_file ''f.txt'' example_fs = (Inr example_flows, example_fs)"
    "files example_fs ''f.txt'' = Some example_flows"
    by (simp_all add: read_file_def example_fs_def)
  then show ?thesis
    using example_sniff example_bandwidth example_validate
    by (simp add: gather_inputs_def example_args_def example_checked_def locate_flow_file_def truthy_def
        core_defaults_def default_args_def example_ext_def failing_ext_def example_inputs_def cwh_setup_def)
qed

lemma example_commands: "\<exists>cmds. analysis_commands example_ext example_checked ''a'' 104000 = Inr cmds"
proof -
  have "(case analysis_commands example_ext example_checked ''a'' 104000 of Inr _ \<Rightarrow> True | Inl _ \<Rightarrow> False)"
    by code_simp
  then show ?thesis by (auto split: sum.splits)
qed

lemma example_main: "\<exists>cmds w'. main (\<lambda>g. (g, g)) example_ext example_args example_fs (0 :: int) = Some (Finished cmds, w')"
proof -
  obtain s where s: "config_text example_args example_checked (in_cwh example_inputs) ''a'' ''f.txt'' = Inr s"
    using config_complete[of example_checked example_args "in_cwh example_inputs" "''a''" "''f.txt''"]
    by (auto simp: example_checked_def)
  obtain cmds where cmds: "analysis_commands example_ext example_checked ''a'' 104000 = Inr cmds"
    using example_commands by blast
  let ?w = "example_fs\<lparr>dirs := insert ''/r/mix/output/a'' (dirs example_fs)\<rparr>"
  have root: "path_join (path_join (x_cwd example_ext) ''mix'') ''output'' = ''/r/mix/output''"
    by (simp add: example_ext_def failing_ext_def path_join_def)
  have res: "reserve_output_dir (\<lambda>g. (g, g)) ''/r/mix/output'' (run_id (core example_args)) example_fs (0 :: int)
      = Some (Inr (''a'', ''/r/mix/output/a'', ?w, 0))"
    by (simp add: reserve_output_dir_def example_args_def run_id_chars_def make_requested_def makedirs_def path_join_def example_fs_def)
  have "dirname (path_join ''/r/mix/output/a'' ''config.txt'') = ''/r/mix/output/a''"
    "log_name (path_join ''/r/mix/output/a'' ''config.txt'') = ''/r/mix/output/a/config.log''"
    "dirname ''/r/mix/output/a/config.log'' = ''/r/mix/output/a''"
    by code_simp+
  note paths = this
  have float: "to_float (simul_time (core example_args)) = Inr (lit (1 / 10))" by code_simp
  have "\<exists>manifest w1. prepare_config example_ext example_args example_checked example_inputs ''a'' ''/r/mix/output/a'' ?w
      = (Inr (Prepared ''a'' ''/r/mix/output/a'' 104000 manifest), w1) \<and> dirs w1 = insert ''/r/mix/output/a'' (dirs example_fs) \<and>
      files w1 ''/r/mix/output/a/a_out_fct.txt'' = None"
    using s float paths
    by (simp add: prepare_config_def Let_def topo2bdp_def example_args_def core_defaults_def write_config_def write_file_def
        lift_write_json example_inputs_def) (simp add: history_path_def path_join_def example_fs_def)
  then obtain manifest w1 where prep: "prepare_config example_ext example_args example_checked example_inputs ''a'' ''/r/mix/output/a'' ?w
      = (Inr (Prepared ''a'' ''/r/mix/output/a'' 104000 manifest), w1)" and w1: "dirs w1 = insert ''/r/mix/output/a'' (dirs example_fs)"
      "files w1 ''/r/mix/output/a/a_out_fct.txt'' = None" by blast
  have "\<exists>c w'. execute example_ext ''a'' ''/r/mix/output/a'' manifest False w1 = (Inr c, w')"
    using w1 paths
    by (simp add: execute_def Let_def write_file_def simulate_def example_ext_def failing_ext_def lift_write_json
        parse_completion_counts_def bindE_def)
       (simp add: path_join_def history_path_def append_file_def)
  then obtain c w' where ex: "execute example_ext ''a'' ''/r/mix/output/a'' manifest False w1 = (Inr c, w')" by blast
  have jobs: "in_job example_inputs = None" by (simp add: example_inputs_def)
  have "main (\<lambda>g. (g, g)) example_ext example_args example_fs (0 :: int) = Some (Finished cmds, w')"
    unfolding main_def Let_def root
    using example_accepted example_gather res prep ex cmds jobs
    by (simp add: after_prepare_def ending_of_def ensure_root_def Let_def root example_fs_def)
  then show ?thesis by blast
qed

theorem main_finished_witness:
  "\<exists>w' m c. main (\<lambda>g. (g, g)) example_ext example_args example_fs (0 :: int) =
       Some (Finished [[''python3'', ''fctAnalysis.py'', ''-id'', ''a'', ''-dir'', ''/r'', ''-bdp'', ''104000'',
         ''-sT'', ''2005000000'', ''-fT'', ''2150000000'']], w') \<and>
     files w' ''/r/mix/output/a/run_manifest.json'' = Some (''{}'' @ nl) \<and>
     map_of (completed_manifest m ''t1'' c False) ''run_id'' = Some (JStr ''a'')"
proof -
  obtain cmds w' where m: "main (\<lambda>g. (g, g)) example_ext example_args example_fs (0 :: int) = Some (Finished cmds, w')"
    using example_main by blast
  have d: "\<forall>c v. dirs v \<subseteq> dirs (x_shell example_ext c v)" by (simp add: example_ext_def failing_ext_def)
  have s: "int_of_float (fmul (ck_stop_time example_checked) (Fin 1000000000)) = Inr 2100000000" by code_simp
  have sh: "show_int 104000 = ''104000''" "show_int 2150000000 = ''2150000000''" by code_simp+
  have b: "topo2bdp (topo (core example_args)) = Some 104000" "run_id (core example_args) = Some ''a''"
    by (simp_all add: topo2bdp_def example_args_def core_defaults_def)
  have x: "x_python example_ext = ''python3''" "x_cwd example_ext = ''/r''" "x_dump example_ext = (\<lambda>j. [''{}''])"
    "x_completed example_ext = ''t1''" by (simp_all add: example_ext_def failing_ext_def)
  from main_finished[OF m d] obtain i "txt" t c where
      "files w' ''/r/mix/output/a/run_manifest.json'' = Some (''{}'' @ nl)"
      "cmds = [[''python3'', ''fctAnalysis.py'', ''-id'', ''a'', ''-dir'', ''/r'', ''-bdp'', ''104000'',
         ''-sT'', ''2005000000'', ''-fT'', ''2150000000'']]"
    using s by (auto simp: example_accepted b x sh) (simp add: example_checked_def sh)
  moreover have "\<exists>m c. map_of (completed_manifest m ''t1'' c False) ''run_id'' = Some (JStr ''a'')"
    by (intro exI [of _ "[(''run_id'', JStr ''a'')]"]) (simp add: completed_manifest_def map_of_dict_set)
  ultimately show ?thesis using m by blast
qed

section \<open>Congestion controls without a configuration\<close>

lemma dirname_join: "dirname (path_join d ''config.txt'') = d"
  by (simp add: dirname_def path_join_def)

text \<open>
  C17. When the checks have passed, the inputs are read, the output directory is reserved and the
  topology is registered (and the bandwidth is at most \<open>10 ^ 12\<close>): for DCQCN the configuration text is
  produced and written completely, and \<open>main\<close> goes on to the simulation; for the three other congestion
  controls that \<open>--cc\<close> announces, \<open>main\<close> raises an \<open>UnboundLocalError\<close>, which leaves an empty
  configuration file and no manifest in the directory.
\<close>

theorem config_only_for_dcqcn:
  assumes "check_args args = Some (Inr k)" and "\<bar>ck_bw k\<bar> \<le> 10 ^ 12"
    and "gather_inputs x args k (ensure_root x w) = (Inr i, w1)"
    and "reserve_output_dir draw (x_cwd x @ ''/mix/output'') (run_id (core args)) w1 g = Some (Inr (cid, dir, w2, g2))"
    and "topo2bdp (topo (core args)) = Some bdp"
  shows "if cc (core args) = ''dcqcn''
    then \<exists>txt manifest w3. config_text args k (in_cwh i) cid (in_flow_file i) = Inr txt \<and>
      files w3 (dir @ ''/config.txt'') = Some txt \<and>
      main draw x args w g =
        Some (after_prepare x k (in_job i \<noteq> None) (Inr (Prepared cid dir bdp manifest), w3))
    else cc (core args) \<in> {''hpcc'', ''timely'', ''dctcp''} \<and>
      (\<exists>w3. main draw x args w g = Some (Raised (UnboundLocalError ''config''), w3) \<and>
        files w3 (dir @ ''/config.txt'') = Some [] \<and>
        files w3 (dir @ ''/run_manifest.json'') = files w2 (dir @ ''/run_manifest.json''))"
proof -
  have cc: "cc_modes (cc (core args)) = Some (ck_cc_mode k)" and "\<exists>t. to_float (simul_time (core args)) = Inr t"
    using check_args_Inr[OF assms(1)] checks_before_Inr by (auto simp: checks_before_def bindE_Inr_iff)
  then obtain t where t: "to_float (simul_time (core args)) = Inr t" by blast
  have modes: "cc (core args) \<in> {''dcqcn'', ''hpcc'', ''timely'', ''dctcp''}" "ck_cc_mode k = 1 \<longleftrightarrow> cc (core args) = ''dcqcn''"
    using cc by (auto simp: cc_modes_def split: if_splits)
  have out: "path_join (path_join (x_cwd x) ''mix'') ''output'' = x_cwd x @ ''/mix/output''" by (simp add: path_join_def)
  have m: "main draw x args w g = Some (after_prepare x k (in_job i \<noteq> None) (prepare_config x args k i cid dir w2))"
    using assms(1,3,4) unfolding main_def Let_def out by simp
  have dir: "dirname (path_join dir ''config.txt'') \<in> dirs w2"
    unfolding dirname_join using reserve_output_dir_Inr[OF assms(4)] by blast
  have cfg: "dir @ ''/config.txt'' = path_join dir ''config.txt''" "dir @ ''/run_manifest.json'' = path_join dir ''run_manifest.json''"
    by (simp_all add: path_join_def)
  show ?thesis
  proof (cases "ck_cc_mode k = 1")
    case True
    then obtain s where s: "config_text args k (in_cwh i) cid (in_flow_file i) = Inr s"
      using config_complete[OF assms(2)] by metis
    then obtain manifest w3 where p: "prepare_config x args k i cid dir w2 = (Inr (Prepared cid dir bdp manifest), w3)"
        "files w3 (path_join dir ''config.txt'') = Some s"
      using dir t assms(5) by (simp add: prepare_config_def Let_def write_config_def write_file_def lift_write_json config_not_others)
    have "main draw x args w g =
        Some (after_prepare x k (in_job i \<noteq> None) (Inr (Prepared cid dir bdp manifest), w3))"
      using m unfolding p(1) .
    moreover have d: "cc (core args) = ''dcqcn''" using True modes(2) by blast
    ultimately show ?thesis using s p(2) unfolding cfg if_P[OF d] by blast
  next
    case False
    then have "config_text args k (in_cwh i) cid (in_flow_file i) = Inl (UnboundLocalError ''config'')"
      using config_complete[OF assms(2)] by metis
    then have "\<exists>w3. prepare_config x args k i cid dir w2 = (Inl (UnboundLocalError ''config''), w3) \<and>
        files w3 (path_join dir ''config.txt'') = Some [] \<and>
        files w3 (path_join dir ''run_manifest.json'') = files w2 (path_join dir ''run_manifest.json'')"
      using dir assms(5) manifest_not_history config_not_others(2)[of dir dir]
      by (simp add: prepare_config_def Let_def write_config_def write_file_def)
    then show ?thesis using m modes False cfg by (auto simp: after_prepare_def)
  qed
qed

definition dctcp_args :: run_args where
  "dctcp_args = example_args\<lparr>core := (core example_args)\<lparr>cc := ''dctcp''\<rparr>\<rparr>"

lemma dctcp_accepted: "check_args dctcp_args = Some (Inr (example_checked\<lparr>ck_cc_mode := 8\<rparr>))"
  by code_simp

lemma dctcp_gather:
  "gather_inputs example_ext dctcp_args (example_checked\<lparr>ck_cc_mode := 8\<rparr>) example_fs = (Inr example_inputs, example_fs)"
proof -
  have "read_file ''config/leaf_spine_16_100G_OS2.txt'' example_fs = (Inr example_topology, example_fs)"
    "read_file ''f.txt'' example_fs = (Inr example_flows, example_fs)"
    "files example_fs ''f.txt'' = Some example_flows"
    by (simp_all add: read_file_def example_fs_def)
  then show ?thesis
    using example_sniff example_bandwidth example_validate
    by (simp add: gather_inputs_def dctcp_args_def example_args_def example_checked_def locate_flow_file_def truthy_def
        core_defaults_def default_args_def example_ext_def failing_ext_def example_inputs_def cwh_setup_def)
qed

theorem config_only_for_dcqcn_witness:
  "\<exists>w3. main (\<lambda>g. (g, g)) example_ext dctcp_args example_fs (0 :: int) = Some (Raised (UnboundLocalError ''config''), w3) \<and>
     files w3 ''/r/mix/output/a/config.txt'' = Some [] \<and> files w3 ''/r/mix/output/a/run_manifest.json'' = None"
proof -
  let ?w = "example_fs\<lparr>dirs := insert ''/r/mix/output/a'' (dirs example_fs)\<rparr>"
  have root: "x_cwd example_ext @ ''/mix/output'' = ''/r/mix/output''" "ensure_root example_ext example_fs = example_fs"
    by (simp_all add: example_ext_def failing_ext_def ensure_root_def path_join_def example_fs_def)
  have a: "core dctcp_args = (core example_args)\<lparr>cc := ''dctcp''\<rparr>" "topo2bdp (topo (core example_args)) = Some 104000"
    by (simp_all add: dctcp_args_def topo2bdp_def example_args_def core_defaults_def)
  have res: "reserve_output_dir (\<lambda>g. (g, g)) ''/r/mix/output'' (run_id (core dctcp_args)) example_fs (0 :: int)
      = Some (Inr (''a'', ''/r/mix/output/a'', ?w, 0))"
    by (simp add: reserve_output_dir_def dctcp_args_def example_args_def run_id_chars_def make_requested_def makedirs_def
        path_join_def example_fs_def)
  have none: "files ?w ''/r/mix/output/a/run_manifest.json'' = None" by (simp add: example_fs_def)
  show ?thesis
    using config_only_for_dcqcn[OF dctcp_accepted _ _ res[folded root(1)], where bdp = 104000 and w = example_fs, unfolded root(2), OF _ dctcp_gather] none
    by (simp add: a example_checked_def)
qed

text \<open>
  A run id may contain dots. With \<open>.txt\<close> inside it the log is looked for in another directory, because
  \<open>config_name.replace\<close> replaces every occurrence, and the run dies on it after the manifest is written.
\<close>

lemma txt_run_id_fails:
  assumes "x_binary x \<noteq> None" and "''o/a.log'' \<notin> dirs w"
  shows "fst (execute x ''a.txt'' ''o/a.txt'' manifest has_jobs w) = Inl (FileNotFoundError ''o/a.log/config.log'')"
proof -
  have "log_name (path_join ''o/a.txt'' ''config.txt'') = ''o/a.log/config.log''" "dirname ''o/a.log/config.log'' = ''o/a.log''"
    by code_simp+
  then show ?thesis using assms by (simp add: execute_def Let_def write_file_def)
qed

end
