(* ===== verification/Stats.thy ===== *)
theory Stats
  imports RunChecks "HOL-Library.Multiset"
begin

text \<open>
  The statistics that the analysis scripts share: the bucketed distribution function (the same code
  is \<open>getCdfFromArray\<close> in \<open>fctAnalysis.py\<close> and \<open>analysis/plot_uplink.py\<close> and \<open>get_cdf\<close> in
  \<open>queueAnalysis.py\<close>), the quantile by index \<open>get_pctl\<close>, and the table of flow size classes.
\<close>

section \<open>The order in which numpy sorts floats\<close>

text \<open>Infinities at the ends, NaN after everything. No analysed value is NaN.\<close>

instantiation pyfloat :: linorder
begin

fun less_eq_pyfloat :: "pyfloat \<Rightarrow> pyfloat \<Rightarrow> bool" where
  "less_eq_pyfloat _ NaN = True"
| "less_eq_pyfloat NaN _ = False"
| "less_eq_pyfloat _ PInf = True"
| "less_eq_pyfloat PInf _ = False"
| "less_eq_pyfloat MInf _ = True"
| "less_eq_pyfloat _ MInf = False"
| "less_eq_pyfloat (Fin a) (Fin b) = (a \<le> b)"

definition less_pyfloat :: "pyfloat \<Rightarrow> pyfloat \<Rightarrow> bool" where
  "less_pyfloat a b \<longleftrightarrow> a \<le> b \<and> \<not> b \<le> a"

instance
proof
  fix x y z :: pyfloat
  show "x < y \<longleftrightarrow> x \<le> y \<and> \<not> y \<le> x" by (simp add: less_pyfloat_def)
  show "x \<le> x" by (cases x) simp_all
  show "x \<le> y \<Longrightarrow> y \<le> z \<Longrightarrow> x \<le> z" by (cases x; cases y; cases z) auto
  show "x \<le> y \<Longrightarrow> y \<le> x \<Longrightarrow> x = y" by (cases x; cases y) auto
  show "x \<le> y \<or> y \<le> x" by (cases x; cases y) auto
qed

end

instantiation pyfloat :: zero
begin

definition zero_pyfloat :: pyfloat where
  "zero_pyfloat = Fin 0"

instance ..

end

lemma fle_iff_le: "x \<noteq> NaN \<Longrightarrow> y \<noteq> NaN \<Longrightarrow> fle x y \<longleftrightarrow> x \<le> y"
  by (cases x; cases y) (auto simp: fle_def)

section \<open>The bucketed distribution function\<close>

text \<open>A bucket: the value, how often it occurs, the count up to it, and the position of the last one.\<close>

type_synonym 'a bucket = "'a \<times> nat \<times> nat \<times> pyfloat"

text \<open>\<open>1. * np.arange(n) / (n - 1)\<close>; numpy divides by zero without raising, \<open>0. / 0\<close> is NaN.\<close>

definition cdf_position :: "nat \<Rightarrow> nat \<Rightarrow> pyfloat" where
  "cdf_position n i = (if n = 1 then NaN else fround (of_nat i / (of_nat n - 1)))"

fun bucket_loop ::
  "(nat \<Rightarrow> pyfloat) \<Rightarrow> nat \<Rightarrow> 'a list \<Rightarrow> 'a bucket \<Rightarrow> 'a bucket list \<Rightarrow> 'a bucket \<times> 'a bucket list" where
  "bucket_loop p i [] bkt od = (bkt, od)"
| "bucket_loop p i (key # ks) bkt od =
     (let n_accum = i + 1 in
      if fst bkt = key
      then bucket_loop p (i + 1) ks (key, fst (snd bkt) + 1, n_accum, p i) od
      else bucket_loop p (i + 1) ks (key, 1, n_accum, p i) (od @ [bkt]))"

definition getCdfFromArray :: "'a::{linorder, zero} list \<Rightarrow> 'a bucket list res" where
  "getCdfFromArray data_arr =
     (case bucket_loop (cdf_position (length data_arr)) 0 (sort data_arr) (0, 0, 0, Fin 0) [] of
        (bkt, od) \<Rightarrow>
          bindE (py_index od (- 1)) (\<lambda>final.
          Inr (tl (if fst final \<noteq> fst bkt then od @ [bkt] else od))))"

text \<open>One line of the output files.\<close>

definition bucket_line :: "('a \<Rightarrow> string) \<Rightarrow> 'a bucket \<Rightarrow> string" where
  "bucket_line str b =
     (case b of (key, n, acc, pos) \<Rightarrow>
        str key @ '' '' @ show_nat n @ '' '' @ show_nat acc @ '' '' @ repr_float pos @ nl)"

definition cdf_text :: "('a::{linorder, zero} \<Rightarrow> string) \<Rightarrow> 'a list \<Rightarrow> string res" where
  "cdf_text str data_arr = bindE (getCdfFromArray data_arr) (\<lambda>od. Inr (concat (map (bucket_line str) od)))"

section \<open>Quantiles by index\<close>

definition get_pctl :: "'a list \<Rightarrow> pyfloat \<Rightarrow> 'a res" where
  "get_pctl a p =
     bindE (float_of_int (int (length a))) (\<lambda>n.
     bindE (int_of_float (fmul n p)) (\<lambda>i. py_index a i))"

text \<open>\<open>sum(xs) / len(xs)\<close>: the sum from the left, starting from the integer 0.\<close>

definition float_sum :: "pyfloat list \<Rightarrow> pyfloat" where
  "float_sum xs = foldl fadd (Fin 0) xs"

definition float_avg :: "pyfloat list \<Rightarrow> pyfloat res" where
  "float_avg xs = bindE (float_of_int (int (length xs))) (\<lambda>n. fdiv (float_sum xs) n)"

section \<open>The table of flow size classes\<close>

text \<open>A row of the sorted listing: the value and the flow size.\<close>

definition point_val :: "string \<Rightarrow> pyfloat res" where
  "point_val x = bindE (py_index (split_char (CHR '' '') x) 0) to_float"

definition point_size :: "string \<Rightarrow> int res" where
  "point_size x = bindE (py_index (split_char (CHR '' '') x) 1) to_int"

definition point :: "string \<Rightarrow> (pyfloat \<times> int) res" where
  "point x = bindE (point_val x) (\<lambda>v. bindE (point_size x) (\<lambda>s. Inr (v, s)))"

text \<open>\<open>output.split('\n')[:-2]\<close>\<close>

definition data_rows :: "string \<Rightarrow> string list" where
  "data_rows output = (let ls = split_char (CHR 0x0A) output in take (length ls - 2) ls)"

record decile =
  d_frac :: pyfloat
  d_size :: int
  d_avg :: pyfloat
  d_p50 :: pyfloat
  d_p95 :: pyfloat
  d_p99 :: pyfloat
  d_p999 :: pyfloat

definition cut :: "nat \<Rightarrow> int \<Rightarrow> int res" where
  "cut nn i = bindE (int_true_div (i * int nn) 100) int_of_float"

definition decile_rows :: "string list \<Rightarrow> int \<Rightarrow> int \<Rightarrow> string list res" where
  "decile_rows aa step i =
     bindE (cut (length aa) i) (\<lambda>l. bindE (cut (length aa) (i + step)) (\<lambda>r. Inr (py_slice aa l r)))"

definition decile_of :: "string list \<Rightarrow> int \<Rightarrow> int \<Rightarrow> decile res" where
  "decile_of aa step i =
     bindE (int_true_div i 100) (\<lambda>frac100.
     bindE (decile_rows aa step i) (\<lambda>rows.
     bindE (mapE point rows) (\<lambda>fct_size.
     let fct = sort (map fst fct_size) in
     bindE (py_index fct_size (- 1)) (\<lambda>final.
     bindE (float_avg fct) (\<lambda>avg.
     bindE (get_pctl fct (lit (1 / 2))) (\<lambda>p50.
     bindE (get_pctl fct (lit (95 / 100))) (\<lambda>p95.
     bindE (get_pctl fct (lit (99 / 100))) (\<lambda>p99.
     bindE (get_pctl fct (lit (999 / 1000))) (\<lambda>p999.
     Inr \<lparr>d_frac = frac100, d_size = snd final, d_avg = avg, d_p50 = p50, d_p95 = p95, d_p99 = p99,
          d_p999 = p999\<rparr>)))))))))"

text \<open>\<open>for i in range(0, 100, step)\<close>\<close>

definition deciles :: "string list \<Rightarrow> nat \<Rightarrow> decile list res" where
  "deciles aa step = mapE (decile_of aa (int step)) (map (\<lambda>k. int (k * step)) [0..<(100 + step - 1) div step])"

section \<open>What the buckets are\<close>

text \<open>Over a sorted list \<open>v\<close>: one bucket for each different value, in increasing order.\<close>

definition bucket_at :: "(nat \<Rightarrow> pyfloat) \<Rightarrow> 'a::linorder list \<Rightarrow> 'a \<Rightarrow> 'a bucket" where
  "bucket_at p v k =
     (let acc = length (filter (\<lambda>x. x \<le> k) v) in (k, count_list v k, acc, p (acc - 1)))"

definition cdf_spec :: "(nat \<Rightarrow> pyfloat) \<Rightarrow> 'a::linorder list \<Rightarrow> 'a bucket list" where
  "cdf_spec p v = map (bucket_at p v) (remdups_adj v)"

text \<open>The buckets in order, the last one (which the loop returns separately) included.\<close>

fun groups :: "(nat \<Rightarrow> pyfloat) \<Rightarrow> nat \<Rightarrow> 'a list \<Rightarrow> 'a bucket \<Rightarrow> 'a bucket list" where
  "groups p i [] bkt = [bkt]"
| "groups p i (key # ks) bkt =
     (if fst bkt = key then groups p (i + 1) ks (key, fst (snd bkt) + 1, i + 1, p i)
      else bkt # groups p (i + 1) ks (key, 1, i + 1, p i))"

lemma groups_ne [simp]: "groups p i ks bkt \<noteq> []"
  by (induction p i ks bkt rule: groups.induct) auto

lemma bucket_loop_groups:
  "bucket_loop p i ks bkt od = (last (groups p i ks bkt), od @ butlast (groups p i ks bkt))"
  by (induction p i ks bkt od rule: bucket_loop.induct) (auto simp: Let_def)

lemma fst_last_groups: "fst (last (groups p i ks bkt)) = last (fst bkt # ks)"
  by (induction p i ks bkt rule: groups.induct) auto

lemma bucket_at_first:
  assumes "\<forall>x \<in> set ks. k < x" "\<forall>x \<in> set pre. x \<le> k"
  shows "bucket_at p (pre @ ks) k = (k, count_list pre k, length pre, p (length pre - 1))"
proof -
  have "filter (\<lambda>x. x \<le> k) ks = []" "filter (\<lambda>x. x \<le> k) pre = pre" "count_list ks k = 0"
    using assms by (auto simp: filter_empty_conv not_le filter_id_conv count_list_0_iff)
  then show ?thesis by (simp add: bucket_at_def Let_def)
qed

lemma groups_spec:
  assumes "sorted (k # ks)" "\<forall>x \<in> set pre. x \<le> k" "i = length pre"
  shows "groups p i ks (k, count_list pre k, i, p (i - 1)) = map (bucket_at p (pre @ ks)) (remdups_adj (k # ks))"
  using assms
proof (induction ks arbitrary: k pre i)
  case Nil
  then show ?case using bucket_at_first[of "[]" k pre p] by simp
next
  case (Cons x ks)
  show ?case
  proof (cases "x = k")
    case True
    then show ?thesis using Cons.IH[of k "pre @ [k]" "i + 1"] Cons.prems by simp
  next
    case False
    then have less: "\<forall>y \<in> set (x # ks). k < y" using Cons.prems(1) by fastforce
    have cnt: "count_list (pre @ [x]) x = 1"
      using Cons.prems(2) less by (auto simp: count_list_0_iff)
    have "groups p (i + 1) ks (x, 1, i + 1, p i) = map (bucket_at p ((pre @ [x]) @ ks)) (remdups_adj (x # ks))"
      using Cons.IH[of x "pre @ [x]" "i + 1"] Cons.prems less cnt by fastforce
    then show ?thesis
      using bucket_at_first[OF less Cons.prems(2), of p] False Cons.prems(3) by simp
  qed
qed

lemma cdf_spec_Cons: "sorted (x # xs) \<Longrightarrow> groups p 1 xs (x, 1, 1, p 0) = cdf_spec p (x # xs)"
  using groups_spec[of x xs "[x]" 1 p] by (simp add: cdf_spec_def)

lemma groups_hd: "fst (hd (groups p i ks bkt)) = fst bkt"
  by (induction p i ks bkt rule: groups.induct) auto

lemma distinct_adj_groups: "distinct_adj (map fst (groups p i ks bkt))"
proof (induction p i ks bkt rule: groups.induct)
  case (2 p i key ks bkt)
  obtain b bs where b: "groups p (i + 1) ks (key, 1, i + 1, p i) = b # bs" by (meson groups_ne neq_Nil_conv)
  have "fst b = key" using groups_hd[of p "i + 1" ks "(key, 1, i + 1, p i)"] b by simp
  then show ?case using 2 b by auto
qed simp

lemma groups_single: "butlast (groups p i ks bkt) = [] \<longleftrightarrow> (\<forall>x \<in> set ks. x = fst bkt)"
  by (induction p i ks bkt rule: groups.induct) auto

lemma distinct_adj_last:
  assumes "distinct_adj ws" "butlast ws \<noteq> []" shows "last (butlast ws) \<noteq> last ws"
proof -
  obtain us b where ws: "ws = us @ [b]" using assms(2) by (cases ws rule: rev_cases) auto
  then obtain vs a where "us = vs @ [a]" using assms(2) by (cases us rule: rev_cases) auto
  then show ?thesis using assms(1) ws by (simp add: distinct_adj_append_iff butlast_append)
qed

lemma getCdf_result:
  "getCdfFromArray data_arr =
     (if \<forall>x \<in> set data_arr. x = 0 then Inl IndexError
      else let v = sort data_arr; bs = cdf_spec (cdf_position (length data_arr)) v
           in Inr (if hd v = 0 then tl bs else bs))"
proof -
  define p where "p = cdf_position (length data_arr)"
  define v where "v = sort data_arr"
  let ?g = "groups p 0 v (0, 0, 0, Fin 0)"
  have sv: "sorted v" "set v = set data_arr" by (simp_all add: v_def)
  have run: "getCdfFromArray data_arr =
     bindE (py_index (butlast ?g) (- 1)) (\<lambda>final. Inr (tl (if fst final \<noteq> fst (last ?g) then ?g else butlast ?g)))"
    by (simp add: getCdfFromArray_def bucket_loop_groups p_def[symmetric] v_def[symmetric] append_butlast_last_id cong: if_cong)
  show ?thesis
  proof (cases "\<forall>x \<in> set data_arr. x = 0")
    case True
    then have "butlast ?g = []" using sv(2) by (simp add: groups_single)
    then show ?thesis using True run by simp
  next
    case False
    then have ne: "butlast ?g \<noteq> []" using sv(2) by (auto simp: groups_single)
    have "last (butlast (map fst ?g)) \<noteq> last (map fst ?g)"
      using distinct_adj_last[OF distinct_adj_groups] ne by (simp add: map_butlast[symmetric])
    then have "fst (last (butlast ?g)) \<noteq> fst (last ?g)" using ne by (simp add: map_butlast[symmetric] last_map)
    then have eq: "getCdfFromArray data_arr = Inr (tl ?g)" using run ne by simp
    obtain x xs where v: "v = x # xs" using False sv by (cases v) auto
    have "tl ?g = (if hd v = 0 then tl (cdf_spec p v) else cdf_spec p v)"
      using cdf_spec_Cons[of x xs p] sv(1) v by (cases "x = 0") simp_all
    then show ?thesis using eq False by (simp add: p_def v_def Let_def)
  qed
qed

text \<open>
  C35. The distribution function of a sample: for every value in increasing order one bucket with its
  multiplicity, the number of elements up to it and the position of the last of them; except that
  the bucket of the value 0 is missing when 0 is the smallest value, and that a sample without any
  other value (the empty one included) raises an \<open>IndexError\<close>.
\<close>

theorem getCdfFromArray_spec:
  "getCdfFromArray data_arr =
     (if \<forall>x \<in> set data_arr. x = 0 then Inl IndexError
      else let v = sort data_arr; bs = cdf_spec (cdf_position (length data_arr)) v
           in Inr (if hd v = 0 then tl bs else bs))"
  by (rule getCdf_result)

lemma getCdfFromArray_spec_witness:
  "getCdfFromArray [Fin 0, Fin 0] = Inl IndexError \<and>
   getCdfFromArray [Fin 3, Fin 0] = Inr (tl (cdf_spec (cdf_position 2) [Fin 0, Fin 3]))"
proof -
  have "sort [Fin 3, Fin 0] = [Fin 0, Fin 3]" by code_simp
  then show ?thesis
    using getCdfFromArray_spec [of "[Fin 0, Fin 0]"] getCdfFromArray_spec [of "[Fin 3, Fin 0]"]
    by (simp add: zero_pyfloat_def Let_def numeral_2_eq_2)
qed

section \<open>Indices\<close>

lemma rnd53_dyadic:
  assumes "0 < m" "m < 2 ^ 53" "k \<le> 1000"
  shows "rnd53 (of_int m / 2 ^ k) = of_int m / 2 ^ k"
proof -
  have "(of_int m :: rat) / 2 ^ k = of_int m * 2 powi (- int k)" by (simp add: power_int_minus divide_inverse)
  moreover have "ulp_exp (of_int m / 2 ^ k) \<le> - int k"
  proof -
    have "(of_int m :: rat) < 2 ^ 53" using assms(2) by (metis of_int_less_numeral_power_cancel_iff)
    then have "(of_int m :: rat) / 2 ^ k < 2 powi (53 - int k)"
      by (simp add: power_int_diff divide_strict_right_mono)
    then have "ilog2 (of_int m / 2 ^ k) < 53 - int k" using assms by (intro ilog2_less) auto
    then show ?thesis using assms(3) by (simp add: ulp_exp_def)
  qed
  ultimately have "rnd53_pos (of_int m / 2 ^ k) = of_int m / 2 ^ k" by (intro rnd53_pos_exact)
  then show ?thesis using assms by (simp add: rnd53_def)
qed

lemma rnd53_floor:
  assumes "0 \<le> q" "of_int q \<le> x" "x \<le> of_int q + 1023 / 1024" "q < 2 ^ 42"
  shows "\<lfloor>rnd53 x\<rfloor> = q \<and> \<bar>rnd53 x\<bar> < 2 ^ 43"
proof -
  have lo: "of_int q \<le> rnd53 x"
    using rnd53_mono[OF assms(2)] rnd53_int[of q] assms by simp
  have e: "(of_int q + 1023 / 1024 :: rat) = of_int (1024 * q + 1023) / 2 ^ 10" by (simp add: field_simps)
  have "rnd53 (of_int q + 1023 / 1024) = of_int q + 1023 / 1024"
    unfolding e using assms by (intro rnd53_dyadic) auto
  then have hi: "rnd53 x \<le> of_int q + 1023 / 1024" using rnd53_mono[OF assms(3)] by simp
  have "(of_int q :: rat) < 2 ^ 42" using assms(4) by (metis of_int_less_numeral_power_cancel_iff)
  then show ?thesis using lo hi assms(1) by (auto simp: floor_eq_iff)
qed

lemma fround_floor:
  assumes "0 \<le> q" "of_int q \<le> x" "x \<le> of_int q + 1023 / 1024" "q < 2 ^ 42"
  shows "fround x = Fin (rnd53 x) \<and> int_of_float (fround x) = Inr q"
proof -
  have "(of_int q :: rat) < 2 ^ 42" using assms(4) by (metis of_int_less_numeral_power_cancel_iff)
  then have "\<bar>x\<bar> \<le> 2 ^ 43" using assms by simp
  also have "(2 :: rat) ^ 43 \<le> fmax" by (simp add: fmax_def)
  finally have "fround x = Fin (rnd53 x)" by (rule fround_fin)
  moreover have "0 \<le> rnd53 x" using rnd53_floor[OF assms] assms(1) by linarith
  ultimately show ?thesis using rnd53_floor[OF assms] by simp
qed

lemma cut_div:
  assumes "0 \<le> i" "i * int nn < 2 ^ 42"
  shows "cut nn i = Inr (i * int nn div 100)"
proof -
  define m where "m = i * int nn"
  have m: "0 \<le> m" "m < 2 ^ 42" using assms by (simp_all add: m_def)
  have d: "100 * (m div 100) + m mod 100 = m" "0 \<le> m mod 100" "m mod 100 \<le> 99" by auto
  have q: "(of_int m :: rat) / 100 = of_int (m div 100) + of_int (m mod 100) / 100"
  proof -
    have "(of_int m :: rat) = of_int (100 * (m div 100) + m mod 100)" by (simp only: d(1))
    also have "\<dots> = 100 * of_int (m div 100) + of_int (m mod 100)" by (simp only: of_int_add of_int_mult of_int_numeral)
    finally show ?thesis by (simp add: add_divide_distrib)
  qed
  have "(of_int (m mod 100) :: rat) \<le> 99" "(0 :: rat) \<le> of_int (m mod 100)"
    using d by (metis of_int_le_numeral_iff, simp)
  then have "of_int (m div 100) \<le> (of_int m :: rat) / 100" "(of_int m :: rat) / 100 \<le> of_int (m div 100) + 1023 / 1024"
    using q by simp_all
  moreover have "0 \<le> m div 100" "m div 100 < 2 ^ 42" using m by simp_all
  ultimately have f: "fround (of_int m / 100) = Fin (rnd53 (of_int m / 100))"
    "int_of_float (fround (of_int m / 100)) = Inr (m div 100)"
    using fround_floor[of "m div 100" "of_int m / 100"] by blast+
  show ?thesis
    unfolding cut_def int_true_div_def m_def[symmetric]
    using f f(2)[unfolded f(1)] by (simp del: int_of_float.simps)
qed

lemma get_pctl_bounds:
  assumes "a \<noteq> []" and "length a < 2 ^ 42" and "0 \<le> p" and "p \<le> 1023 / 1024"
  shows "\<exists>i. get_pctl a (Fin p) = Inr (a ! i) \<and> i < length a \<and>
    \<lfloor>of_nat (length a) * p\<rfloor> \<le> int i \<and> int i \<le> \<lceil>of_nat (length a) * p\<rceil>"
proof -
  let ?n = "length a"
  define x where "x = of_nat ?n * p"
  have n: "1 \<le> ?n" "(of_nat ?n :: rat) < 2 ^ 42"
    using assms(1,2) by (simp add: Suc_le_eq, metis of_nat_less_numeral_power_cancel_iff)
  have e: "(of_nat ?n * (1023 / 1024) :: rat) = of_int (int ?n * 1023) / 2 ^ 10" by simp
  have top: "rnd53 (of_nat ?n * (1023 / 1024)) = of_nat ?n * (1023 / 1024)"
    unfolding e using assms(1,2) by (intro rnd53_dyadic) auto
  have x: "0 \<le> x" "x \<le> of_nat ?n * (1023 / 1024)"
    using assms(3) mult_left_mono[OF assms(4), of "of_nat ?n"] by (simp_all add: x_def)
  have hi: "rnd53 x \<le> of_nat ?n * (1023 / 1024)" using rnd53_mono[OF x(2)] top by simp
  have "\<lceil>x\<rceil> \<le> int ?n" "0 \<le> \<lfloor>x\<rfloor>" using x n by (auto simp: ceiling_le_iff)
  moreover have "rnd53 (of_int q) = of_int q" if "0 \<le> q" "q \<le> int ?n" for q
    using that assms(2) by (intro rnd53_int) simp
  ultimately have ints: "rnd53 (of_int \<lfloor>x\<rfloor>) = of_int \<lfloor>x\<rfloor>" "rnd53 (of_int \<lceil>x\<rceil>) = of_int \<lceil>x\<rceil>"
    using floor_le_ceiling[of x] order_trans by blast+
  have bounds: "of_int \<lfloor>x\<rfloor> \<le> rnd53 x" "rnd53 x \<le> of_int \<lceil>x\<rceil>"
    using rnd53_mono[of "of_int \<lfloor>x\<rfloor>" x] rnd53_mono[of x "of_int \<lceil>x\<rceil>"] ints by simp_all
  have nonneg: "0 \<le> rnd53 x" using rnd53_mono[OF x(1)] by (simp add: rnd53_def)
  have "\<bar>x\<bar> \<le> 2 ^ 42" using x n by simp
  also have "(2 :: rat) ^ 42 \<le> fmax" by (simp add: fmax_def)
  finally have "fround x = Fin (rnd53 x)" by (rule fround_fin)
  then have "get_pctl a (Fin p) = py_index a \<lfloor>rnd53 x\<rfloor>"
    using assms(2) nonneg by (simp add: get_pctl_def x_def)
  moreover have r: "0 \<le> \<lfloor>rnd53 x\<rfloor>" "\<lfloor>rnd53 x\<rfloor> < int ?n" "\<lfloor>x\<rfloor> \<le> \<lfloor>rnd53 x\<rfloor>" "\<lfloor>rnd53 x\<rfloor> \<le> \<lceil>x\<rceil>"
    using nonneg hi n bounds by (auto simp: floor_less_iff le_floor_iff floor_le_iff)
  ultimately have "get_pctl a (Fin p) = Inr (a ! nat \<lfloor>rnd53 x\<rfloor>)"
    using py_index_nat[of "nat \<lfloor>rnd53 x\<rfloor>" a] by (simp add: nat_less_iff)
  then show ?thesis using r unfolding x_def[symmetric] by (intro exI[of _ "nat \<lfloor>rnd53 x\<rfloor>"]) (auto simp: nat_less_iff)
qed

text \<open>
  \<open>get_pctl\<close> stays in the list: for a float \<open>p\<close> up to 1023/1024 (all quantiles the scripts ask for)
  and a non-empty list the index \<open>int(len(a) * p)\<close> is in range, and in spite of the rounding it lies
  between the floor and the ceiling of the exact product.
\<close>

theorem get_pctl_total:
  assumes "a \<noteq> []" and "length a < 2 ^ 42" and "0 \<le> p" and "p \<le> 1023 / 1024"
  shows "\<exists>i. get_pctl a (Fin p) = Inr (a ! i) \<and> i < length a \<and>
    \<lfloor>of_nat (length a) * p\<rfloor> \<le> int i \<and> int i \<le> \<lceil>of_nat (length a) * p\<rceil>"
  by (rule get_pctl_bounds[OF assms])

theorem get_pctl_total_witness:
  "\<exists>i. get_pctl [10, 20, 30, 40 :: int] (Fin (1 / 2)) = Inr ([10, 20, 30, 40] ! i) \<and> i = 2"
  using get_pctl_total[of "[10, 20, 30, 40 :: int]" "1 / 2"] by auto

section \<open>Size classes\<close>

lemma data_rows_lines: "\<forall>w \<in> set ws. CHR 0x0A \<notin> set w \<Longrightarrow> data_rows (concat (map (\<lambda>w. w @ nl) ws)) = butlast ws"
proof -
  assume a: "\<forall>w \<in> set ws. CHR 0x0A \<notin> set w"
  then have "split_char (CHR 0x0A) (concat (map (\<lambda>w. w @ nl) ws)) = ws @ [[]]"
    by (induction ws) (auto simp: nl_def split_char_append)
  then show ?thesis by (simp add: data_rows_def butlast_conv_take Let_def)
qed

definition class_rows :: "string list \<Rightarrow> nat \<Rightarrow> string list" where
  "class_rows aa k =
     (let c = (\<lambda>k. k * length aa div 20) in take (c (k + 1) - c k) (drop (c k) aa))"

lemma decile_rows_class:
  assumes "length aa < 2 ^ 35" "k < 20"
  shows "decile_rows aa 5 (int (k * 5)) = Inr (class_rows aa k)"
proof -
  have c: "cut (length aa) (5 * int j) = Inr (int (j * length aa div 20))" if "j \<le> 20" for j
  proof -
    have "j * length aa \<le> 20 * length aa" using that by (rule mult_le_mono1)
    moreover have "length aa < 34359738368" using assms(1) by simp
    ultimately have "5 * (j * length aa) < 4398046511104" by linarith
    then have "5 * (j * length aa) < 2 ^ 42" by simp
    then have "int (5 * (j * length aa)) < int (2 ^ 42)" by (simp only: of_nat_less_iff)
    then have "cut (length aa) (5 * int j) = Inr (5 * int j * int (length aa) div 100)"
      by (intro cut_div) (simp_all add: mult.assoc)
    moreover have "5 * int j * int (length aa) div 100 = int (j * length aa div 20)"
    proof -
      have "5 * int j * int (length aa) div 100 = (5 * (int j * int (length aa))) div (5 * 20)" by (simp add: mult.assoc)
      also have "\<dots> = int j * int (length aa) div 20" by (rule div_mult_mult1) simp
      finally show ?thesis by (simp add: zdiv_int)
    qed
    ultimately show ?thesis by simp
  qed
  have "int (k * 5) = 5 * int k" "int (k * 5) + 5 = 5 * int (k + 1)" by simp_all
  then show ?thesis
    using c[of k] c[of "k + 1"] assms(2)
    by (simp only: decile_rows_def bindE_simps class_rows_def Let_def) (simp add: py_slice_nat del: of_nat_add)
qed

lemma concat_slices:
  assumes "mono c" "c 0 = 0"
  shows "concat (map (\<lambda>k. take (c (k + 1) - c k) (drop (c k) aa)) [0..<n]) = take (c n) aa"
proof (induction n)
  case (Suc n)
  have "c n \<le> c (Suc n)" using assms(1) by (simp add: monoD)
  then have "c (Suc n) = c n + (c (Suc n) - c n)" by simp
  then show ?case using Suc take_add[of "c n" "c (Suc n) - c n" aa] by simp
qed (simp add: assms(2))

lemma classes_partition: "concat (map (class_rows aa) [0..<20]) = aa"
proof -
  have "mono (\<lambda>k. k * length aa div 20)" by (intro monoI div_le_mono) simp
  from concat_slices[OF this, of aa 20] show ?thesis by (simp add: class_rows_def[abs_def] Let_def)
qed

lemma class_rows_ne:
  assumes "20 \<le> length aa" "k < 20" shows "class_rows aa k \<noteq> []"
proof -
  let ?n = "length aa"
  have "(k * ?n + 20) div 20 \<le> (k + 1) * ?n div 20" using assms(1) by (intro div_le_mono) simp
  then have "k * ?n div 20 < (k + 1) * ?n div 20" by simp
  moreover have "(k + 1) * ?n div 20 \<le> 20 * ?n div 20" using assms(2) by (intro div_le_mono mult_le_mono1) simp
  ultimately show ?thesis by (simp add: class_rows_def Let_def)
qed

lemma set_class_rows: "set (class_rows aa k) \<subseteq> set aa"
  by (auto simp: class_rows_def Let_def dest!: in_set_takeD in_set_dropD)

text \<open>
  The size classes of the FCT tables: the slices that the loop over \<open>range(0, 100, 5)\<close> takes from
  the listing are 20 consecutive pieces that together are the whole listing, in order and without
  overlap, and no piece is empty exactly when the listing has at least 20 rows.
\<close>

theorem size_classes_partition:
  assumes "length aa < 2 ^ 35"
  shows "\<exists>rows. mapE (decile_rows aa 5) (map (\<lambda>k. int (k * 5)) [0..<20]) = Inr rows \<and> length rows = 20 \<and>
    concat rows = aa \<and> ([] \<notin> set rows \<longleftrightarrow> 20 \<le> length aa)"
proof -
  have rows: "mapE (decile_rows aa 5) (map (\<lambda>k. int (k * 5)) [0..<20]) = Inr (map (class_rows aa) [0..<20])"
    unfolding mapE_Inr_iff list_all2_map1 list_all2_map2
    using decile_rows_class[OF assms] by (simp add: list_all2_same)
  have "[] \<in> set (map (class_rows aa) [0..<20])" if "length aa < 20"
  proof -
    have "class_rows aa 0 = []" using that by (simp add: class_rows_def)
    then have "[] = class_rows aa 0" by simp
    then show ?thesis unfolding set_map by (rule image_eqI) simp
  qed
  moreover have "[] \<notin> set (map (class_rows aa) [0..<20])" if "20 \<le> length aa"
    using class_rows_ne[OF that] by (force simp del: upt.simps)
  ultimately have "[] \<notin> set (map (class_rows aa) [0..<20]) \<longleftrightarrow> 20 \<le> length aa" using not_le by blast
  then show ?thesis using rows classes_partition[of aa] by (intro exI[of _ "map (class_rows aa) [0..<20]"]) simp
qed

theorem size_classes_partition_witness:
  "\<exists>rows. mapE (decile_rows (replicate 21 ''1 5'') 5) (map (\<lambda>k. int (k * 5)) [0..<20]) = Inr rows \<and>
     concat rows = replicate 21 ''1 5'' \<and> [] \<notin> set rows"
  using size_classes_partition[of "replicate 21 ''1 5''"] by auto

text \<open>Where each row of the table succeeds.\<close>

lemma float_avg_ok:
  assumes "xs \<noteq> []" "length xs < 2 ^ 42" shows "\<exists>y. float_avg xs = Inr y"
proof -
  have "float_of_int (int (length xs)) = Inr (Fin (of_nat (length xs)))"
    using assms(2) float_of_int_small[of "int (length xs)"] by simp
  then show ?thesis using assms(1) by (cases "float_sum xs") (simp_all add: float_avg_def)
qed

lemma lit_quantiles:
  "\<exists>q. lit (1 / 2) = Fin q \<and> 0 \<le> q \<and> q \<le> 1023 / 1024" "\<exists>q. lit (95 / 100) = Fin q \<and> 0 \<le> q \<and> q \<le> 1023 / 1024"
  "\<exists>q. lit (99 / 100) = Fin q \<and> 0 \<le> q \<and> q \<le> 1023 / 1024" "\<exists>q. lit (999 / 1000) = Fin q \<and> 0 \<le> q \<and> q \<le> 1023 / 1024"
proof -
  have "\<exists>q. lit x = Fin q \<and> 0 \<le> q \<and> q \<le> 1023 / 1024" if "0 \<le> x" "x \<le> 1023 / 1024" for x
  proof -
    have "\<bar>x\<bar> \<le> fmax" using that by (simp add: fmax_def)
    moreover have "rnd53 (1023 / 1024) = 1023 / 1024" using rnd53_dyadic[of 1023 10] by simp
    ultimately show ?thesis
      using rnd53_mono[OF that(2)] rnd53_mono[OF that(1)] by (simp add: lit_def fround_fin) (simp add: rnd53_def)
  qed
  from this[of "1 / 2"] this[of "95 / 100"] this[of "99 / 100"] this[of "999 / 1000"] show
    "\<exists>q. lit (1 / 2) = Fin q \<and> 0 \<le> q \<and> q \<le> 1023 / 1024" "\<exists>q. lit (95 / 100) = Fin q \<and> 0 \<le> q \<and> q \<le> 1023 / 1024"
    "\<exists>q. lit (99 / 100) = Fin q \<and> 0 \<le> q \<and> q \<le> 1023 / 1024" "\<exists>q. lit (999 / 1000) = Fin q \<and> 0 \<le> q \<and> q \<le> 1023 / 1024"
    by simp_all
qed

lemma get_pctl_lits:
  assumes "a \<noteq> []" "length a < 2 ^ 42"
    and "x = 1 / 2 \<or> x = 95 / 100 \<or> x = 99 / 100 \<or> x = 999 / 1000"
  shows "\<exists>y. get_pctl a (lit x) = Inr y"
proof -
  obtain q where "lit x = Fin q" "0 \<le> q" "q \<le> 1023 / 1024" using assms(3) lit_quantiles by blast
  then show ?thesis using get_pctl_bounds[OF assms(1,2)] by metis
qed

lemma true_div_100: "\<bar>i\<bar> \<le> 10 ^ 6 \<Longrightarrow> \<exists>h. int_true_div i 100 = Inr h"
proof -
  assume i: "\<bar>i\<bar> \<le> 10 ^ 6"
  then have "\<bar>of_int i :: rat\<bar> \<le> 10 ^ 6" by (metis of_int_abs of_int_le_iff of_int_numeral of_int_power)
  then have "\<bar>of_int i / 100 :: rat\<bar> \<le> fmax" by (simp add: fmax_def)
  then show ?thesis by (simp add: int_true_div_def fround_fin)
qed

lemma decile_of_class:
  assumes "length aa < 2 ^ 35" "k < 20" "\<forall>x \<in> set aa. \<exists>pt. point x = Inr pt"
  shows "class_rows aa k = [] \<Longrightarrow> decile_of aa 5 (int (k * 5)) = Inl IndexError"
    and "class_rows aa k \<noteq> [] \<Longrightarrow> \<exists>d. decile_of aa 5 (int (k * 5)) = Inr d"
proof -
  obtain h where h: "int_true_div (int (k * 5)) 100 = Inr h" using true_div_100[of "int (k * 5)"] assms(2) by auto
  have p: "mapE point (class_rows aa k) = Inr (map (\<lambda>x. projr (point x)) (class_rows aa k))"
    using assms(3) set_class_rows[of aa k] by (intro mapE_total) (metis subsetD sum.sel(2))
  let ?fs = "map (\<lambda>x. projr (point x)) (class_rows aa k)"
  let ?fct = "sort (map fst ?fs)"
  have unfold: "decile_of aa 5 (int (k * 5)) =
     bindE (py_index ?fs (- 1)) (\<lambda>final.
     bindE (float_avg ?fct) (\<lambda>avg.
     bindE (get_pctl ?fct (lit (1 / 2))) (\<lambda>p50.
     bindE (get_pctl ?fct (lit (95 / 100))) (\<lambda>p95.
     bindE (get_pctl ?fct (lit (99 / 100))) (\<lambda>p99.
     bindE (get_pctl ?fct (lit (999 / 1000))) (\<lambda>p999.
     Inr \<lparr>d_frac = h, d_size = snd final, d_avg = avg, d_p50 = p50, d_p95 = p95, d_p99 = p99, d_p999 = p999\<rparr>))))))"
    unfolding decile_of_def h decile_rows_class[OF assms(1,2)] bindE_simps p Let_def ..
  show "class_rows aa k = [] \<Longrightarrow> decile_of aa 5 (int (k * 5)) = Inl IndexError"
    unfolding unfold by simp
  assume ne: "class_rows aa k \<noteq> []"
  have len: "length (class_rows aa k) \<le> length aa" by (simp add: class_rows_def Let_def)
  have fct: "?fct \<noteq> []" "length ?fct < 2 ^ 42"
    using ne len assms(1) by (simp_all flip: length_greater_0_conv)
  obtain y y1 y2 y3 y4 where "float_avg ?fct = Inr y" "get_pctl ?fct (lit (1 / 2)) = Inr y1"
    "get_pctl ?fct (lit (95 / 100)) = Inr y2" "get_pctl ?fct (lit (99 / 100)) = Inr y3" "get_pctl ?fct (lit (999 / 1000)) = Inr y4"
    using float_avg_ok[OF fct] get_pctl_lits[OF fct] by metis
  then show "\<exists>d. decile_of aa 5 (int (k * 5)) = Inr d"
    unfolding unfold using ne by (simp add: last_map)
qed

lemma deciles_result:
  assumes "length aa < 2 ^ 35" "\<forall>x \<in> set aa. \<exists>pt. point x = Inr pt"
  shows "if 20 \<le> length aa then \<exists>ds. deciles aa 5 = Inr ds \<and> length ds = 20 else deciles aa 5 = Inl IndexError"
proof (cases "20 \<le> length aa")
  case True
  let ?is = "map (\<lambda>k. int (k * 5)) [0..<20]"
  have "\<exists>d. decile_of aa 5 i = Inr d" if "i \<in> set ?is" for i
    using that decile_of_class(2)[OF assms(1) _ assms(2)] class_rows_ne[OF True] by auto
  then have "mapE (decile_of aa 5) ?is = Inr (map (\<lambda>i. projr (decile_of aa 5 i)) ?is)"
    by (intro mapE_total) (metis sum.sel(2))
  then show ?thesis using True by (simp add: deciles_def)
next
  case False
  then have "decile_of aa 5 (int (0 * 5)) = Inl IndexError"
    by (intro decile_of_class(1)[OF assms(1) _ assms(2)]) (simp_all add: class_rows_def)
  then show ?thesis using False by (simp add: deciles_def upt_rec)
qed

end
