(* ===== verification/FctAnalysis.thy ===== *)
theory FctAnalysis
  imports Stats
begin

text \<open>
  \<open>fctAnalysis.py\<close>: the flow completion times of a run, selected by two shell pipelines, become a
  summary (averages and percentiles of the flows below and above one bandwidth-delay product, and
  the table of size classes) and six distribution files.

  The output of the pipelines (\<open>awk\<close> and \<open>sort\<close> on the trace) and numpy's \<open>average\<close> and \<open>percentile\<close> are
  parameters. The files are the result; what an exception leaves half written is not modelled.
\<close>

record fct_args =
  f_id :: string
  f_dir :: string
  f_fdir :: string
  f_bdp :: string
  f_begin :: int
  f_end :: int

record fct_tools =
  average :: "pyfloat list \<Rightarrow> pyfloat res"
  percentile :: "pyfloat list \<Rightarrow> pyfloat \<Rightarrow> pyfloat res"
  check_output :: "string \<Rightarrow> string res"

definition quote :: string where
  "quote = [CHR 0x27]"

definition tab :: string where
  "tab = [CHR 0x09]"

section \<open>Paths and pipelines\<close>

definition output_base :: "string \<Rightarrow> string \<Rightarrow> int \<Rightarrow> string" where
  "output_base dir fdir config_ID =
     dir @ ''/'' @ fdir @ ''/output/'' @ show_int config_ID @ ''/'' @ show_int config_ID @ ''_out_fct''"

definition selection :: "string \<Rightarrow> int \<Rightarrow> int \<Rightarrow> string" where
  "selection path start stop =
     ''cat '' @ path @ '' | awk '' @ quote @ ''{if ($6>'' @ show_int start @ '' && $6+$7<'' @ show_int stop @ '') ''"

definition cmd_absolute :: "string \<Rightarrow> int \<Rightarrow> int \<Rightarrow> string" where
  "cmd_absolute path start stop =
     selection path start stop @ ''{print $7/1000, $5} }'' @ quote @ '' | sort -n -k 2''"

definition cmd_slowdown :: "string \<Rightarrow> int \<Rightarrow> int \<Rightarrow> string" where
  "cmd_slowdown path start stop =
     selection path start stop @ ''{print $7/$8<1?1:$7/$8, $5} }'' @ quote @ '' | sort -n -k 2''"

section \<open>The flows below and above one BDP\<close>

fun split_bdp :: "int \<Rightarrow> string list \<Rightarrow> (pyfloat list \<times> pyfloat list) res" where
  "split_bdp OneBDP [] = Inr ([], [])"
| "split_bdp OneBDP (x # xs) =
     bindE (point_size x) (\<lambda>i.
     bindE (point_val x) (\<lambda>val.
     bindE (split_bdp OneBDP xs) (\<lambda>(fct_bdp, fct_over_bdp).
     Inr (if i < OneBDP then (val # fct_bdp, fct_over_bdp) else (fct_bdp, val # fct_over_bdp)))))"

definition pad_right :: "nat \<Rightarrow> string \<Rightarrow> string" where
  "pad_right k s = s @ replicate (k - length s) (CHR '' '')"

definition pad_left :: "nat \<Rightarrow> string \<Rightarrow> string" where
  "pad_left k s = replicate (k - length s) (CHR '' '') @ s"

definition brief_line :: "fct_tools \<Rightarrow> string \<Rightarrow> pyfloat list \<Rightarrow> string res" where
  "brief_line tools label fct =
     bindE (average tools fct) (\<lambda>a.
     bindE (percentile tools fct (Fin 50)) (\<lambda>p50.
     bindE (percentile tools fct (Fin 95)) (\<lambda>p95.
     bindE (percentile tools fct (Fin 99)) (\<lambda>p99.
     bindE (percentile tools fct (lit (999 / 10))) (\<lambda>p999.
     Inr (pad_right 5 label @ '','' @ py_join '','' (map (fmt_fixed 3) [a, p50, p95, p99, p999]) @ nl))))))"

definition brief :: "fct_tools \<Rightarrow> int \<Rightarrow> string list \<Rightarrow> string res" where
  "brief tools OneBDP rows =
     bindE (split_bdp OneBDP rows) (\<lambda>(fct_bdp, fct_over_bdp).
     bindE (brief_line tools ''<1BDP'' fct_bdp) (\<lambda>small.
     bindE (brief_line tools ''>1BDP'' fct_over_bdp) (\<lambda>large.
     Inr (''#1BDP='' @ show_int OneBDP @ ''Bytes'' @ nl @
          ''#'' @ pad_right 5 ''Category'' @ '','' @ pad_right 5 ''Avg'' @ '','' @ pad_right 5 ''50%'' @ '','' @
          pad_right 6 ''95%'' @ '','' @ pad_right 6 ''99%'' @ '','' @ pad_right 6 ''99.9%'' @ nl @
          small @ large @ concat (replicate 5 (''#'' @ nl))))))"

section \<open>The summary\<close>

definition decile_line :: "decile \<Rightarrow> string" where
  "decile_line d =
     ''#'' @ fmt_fixed 3 (fadd (d_frac d) (lit (5 / 100))) @ '' '' @ pad_left 3 (show_int (d_size d)) @ tab @
     py_join '' '' (map (fmt_fixed 3) [d_avg d, d_p50 d, d_p95 d, d_p99 d, d_p999 d]) @ nl"

definition slowdown_header :: string where
  "slowdown_header =
     ''#'' @ pad_right 5 ''CDF'' @ '' '' @ pad_right 3 ''Size'' @ tab @ pad_right 5 ''Avg'' @ '' '' @
     pad_right 5 ''50%'' @ '' '' @ pad_right 6 ''95%'' @ '' '' @ pad_right 6 ''99%'' @ '' '' @
     pad_right 6 ''99.9%'' @ nl"

definition absolute_header :: string where
  "absolute_header =
     ''#'' @ pad_right 5 ''CDF'' @ '','' @ pad_right 6 ''Size'' @ '','' @ pad_right 6 ''Avg'' @ '','' @
     pad_right 6 ''50%'' @ '','' @ pad_right 7 ''95%'' @ '','' @ pad_right 7 ''99%'' @ '','' @
     pad_right 7 ''99.9%'' @ '' >> scale: us-scale'' @ nl"

definition part :: "fct_tools \<Rightarrow> string \<Rightarrow> string \<Rightarrow> int \<Rightarrow> string list \<Rightarrow> string res" where
  "part tools title header OneBDP rows =
     bindE (brief tools OneBDP rows) (\<lambda>b.
     bindE (deciles rows 5) (\<lambda>ds.
     Inr (title @ b @ header @ concat (map decile_line ds))))"

definition slowdown_part :: "fct_tools \<Rightarrow> int \<Rightarrow> string list \<Rightarrow> string res" where
  "slowdown_part tools OneBDP aa = part tools ''SLOWDOWN'' slowdown_header OneBDP aa"

definition absolute_part :: "fct_tools \<Rightarrow> int \<Rightarrow> string list \<Rightarrow> string res" where
  "absolute_part tools OneBDP a = part tools ''ABSOLUTE'' absolute_header OneBDP a"

definition summary_text :: "fct_tools \<Rightarrow> int \<Rightarrow> string list \<Rightarrow> string list \<Rightarrow> string res" where
  "summary_text tools OneBDP slow_rows abs_rows =
     bindE (slowdown_part tools OneBDP slow_rows) (\<lambda>s.
     bindE (absolute_part tools OneBDP abs_rows) (\<lambda>a.
     Inr (s @ concat (replicate 5 (''#'' @ nl)) @ a @ ''#'' @ nl @ ''#EOF'')))"

section \<open>The distribution files\<close>

definition cdf_all :: "string list \<Rightarrow> string res" where
  "cdf_all rows = bindE (mapE point_val rows) (\<lambda>fct_arr. cdf_text repr_float fct_arr)"

definition cdf_small :: "int \<Rightarrow> string list \<Rightarrow> string res" where
  "cdf_small OneBDP rows = bindE (split_bdp OneBDP rows) (\<lambda>(fct_arr, _). cdf_text repr_float fct_arr)"

definition cdf_large :: "int \<Rightarrow> string list \<Rightarrow> string res" where
  "cdf_large OneBDP rows = bindE (split_bdp OneBDP rows) (\<lambda>(_, fct_arr). cdf_text repr_float fct_arr)"

definition slowdown_cdfs :: "string \<Rightarrow> int \<Rightarrow> string list \<Rightarrow> (string \<times> string) list res" where
  "slowdown_cdfs base OneBDP aa =
     bindE (cdf_all aa) (\<lambda>all.
     bindE (cdf_small OneBDP aa) (\<lambda>small.
     bindE (cdf_large OneBDP aa) (\<lambda>large.
     Inr [(base @ ''_all_slowdown_cdf.txt'', all), (base @ ''_small_slowdown_cdf.txt'', small),
          (base @ ''_large_slowdown_cdf.txt'', large)])))"

definition absolute_cdfs :: "string \<Rightarrow> int \<Rightarrow> string list \<Rightarrow> (string \<times> string) list res" where
  "absolute_cdfs base OneBDP a =
     bindE (cdf_all a) (\<lambda>all.
     bindE (cdf_small OneBDP a) (\<lambda>small.
     bindE (cdf_large OneBDP a) (\<lambda>large.
     Inr [(base @ ''_all_absolute_cdf.txt'', all), (base @ ''_small_absolute_cdf.txt'', small),
          (base @ ''_large_absolute_cdf.txt'', large)])))"

text \<open>The script: the seven files in the order in which they are written.\<close>

definition fct_analysis :: "fct_tools \<Rightarrow> fct_args \<Rightarrow> (string \<times> string) list res" where
  "fct_analysis tools args =
     bindE (to_int (f_id args)) (\<lambda>config_ID.
     bindE (to_int (f_bdp args)) (\<lambda>OneBDP.
     let base = output_base (f_dir args) (f_fdir args) config_ID in
     bindE (check_output tools (cmd_absolute (base @ ''.txt'') (f_begin args) (f_end args))) (\<lambda>output_absolute.
     bindE (check_output tools (cmd_slowdown (base @ ''.txt'') (f_begin args) (f_end args))) (\<lambda>output_slowdown.
     let aa = data_rows output_slowdown; a = data_rows output_absolute in
     bindE (summary_text tools OneBDP aa a) (\<lambda>summary.
     bindE (slowdown_cdfs base OneBDP aa) (\<lambda>slow_files.
     bindE (absolute_cdfs base OneBDP a) (\<lambda>abs_files.
     Inr ((base @ ''_summary.txt'', summary) # slow_files @ abs_files))))))))"

section \<open>When the analysis completes\<close>

definition usable :: "int \<Rightarrow> string list \<Rightarrow> bool" where
  "usable OneBDP rows \<longleftrightarrow>
     20 \<le> length rows \<and> (\<exists>x \<in> set rows. \<exists>i. point_size x = Inr i \<and> i < OneBDP) \<and>
     (\<exists>x \<in> set rows. \<exists>i. point_size x = Inr i \<and> OneBDP \<le> i)"

text \<open>A listing the pipelines print: every row is a positive number and a size.\<close>

definition listing :: "string list \<Rightarrow> bool" where
  "listing rows \<longleftrightarrow> length rows < 2 ^ 35 \<and>
     (\<forall>x \<in> set rows. \<exists>v i. point_val x = Inr (Fin v) \<and> 0 < v \<and> point_size x = Inr i)"

lemma listing_point: "listing rows \<Longrightarrow> \<forall>x \<in> set rows. \<exists>pt. point x = Inr pt"
  by (force simp: listing_def point_def)

lemma split_bdp_listing:
  assumes "\<forall>x \<in> set rows. \<exists>v i. point_val x = Inr (Fin v) \<and> 0 < v \<and> point_size x = Inr i"
  shows "\<exists>s l. split_bdp B rows = Inr (s, l) \<and> (\<forall>y \<in> set s \<union> set l. y \<noteq> 0) \<and>
    (s \<noteq> [] \<longleftrightarrow> (\<exists>x \<in> set rows. \<exists>i. point_size x = Inr i \<and> i < B)) \<and>
    (l \<noteq> [] \<longleftrightarrow> (\<exists>x \<in> set rows. \<exists>i. point_size x = Inr i \<and> B \<le> i))"
  using assms
proof (induction rows)
  case (Cons x xs)
  then obtain v i where x: "point_val x = Inr (Fin v)" "0 < v" "point_size x = Inr i" by auto
  obtain s l where IH: "split_bdp B xs = Inr (s, l)" "\<forall>y \<in> set s \<union> set l. y \<noteq> 0"
    "s \<noteq> [] \<longleftrightarrow> (\<exists>x \<in> set xs. \<exists>i. point_size x = Inr i \<and> i < B)"
    "l \<noteq> [] \<longleftrightarrow> (\<exists>x \<in> set xs. \<exists>i. point_size x = Inr i \<and> B \<le> i)" using Cons by auto
  show ?case using x IH by (cases "i < B") (auto simp: zero_pyfloat_def)
qed simp

lemma cdf_text_iff:
  assumes "\<forall>y \<in> set ys. y \<noteq> 0" shows "(\<exists>t. cdf_text str ys = Inr t) \<longleftrightarrow> ys \<noteq> []"
proof -
  have "(\<forall>x \<in> set ys. x = 0) \<longleftrightarrow> ys = []" using assms by (cases ys) auto
  then show ?thesis by (auto simp: cdf_text_def getCdf_result Let_def)
qed

lemma cdf_listing:
  assumes "listing rows"
  shows "(\<exists>t. cdf_small B rows = Inr t) \<longleftrightarrow> (\<exists>x \<in> set rows. \<exists>i. point_size x = Inr i \<and> i < B)"
    and "(\<exists>t. cdf_large B rows = Inr t) \<longleftrightarrow> (\<exists>x \<in> set rows. \<exists>i. point_size x = Inr i \<and> B \<le> i)"
    and "rows \<noteq> [] \<Longrightarrow> \<exists>t. cdf_all rows = Inr t"
proof -
  have pts: "\<forall>x \<in> set rows. \<exists>v i. point_val x = Inr (Fin v) \<and> 0 < v \<and> point_size x = Inr i"
    using assms by (simp add: listing_def)
  obtain s l where sl: "split_bdp B rows = Inr (s, l)" "\<forall>y \<in> set s \<union> set l. y \<noteq> 0"
    "s \<noteq> [] \<longleftrightarrow> (\<exists>x \<in> set rows. \<exists>i. point_size x = Inr i \<and> i < B)"
    "l \<noteq> [] \<longleftrightarrow> (\<exists>x \<in> set rows. \<exists>i. point_size x = Inr i \<and> B \<le> i)"
    using split_bdp_listing[OF pts] by metis
  show "(\<exists>t. cdf_small B rows = Inr t) \<longleftrightarrow> (\<exists>x \<in> set rows. \<exists>i. point_size x = Inr i \<and> i < B)"
    using sl cdf_text_iff[of s repr_float] by (simp add: cdf_small_def)
  show "(\<exists>t. cdf_large B rows = Inr t) \<longleftrightarrow> (\<exists>x \<in> set rows. \<exists>i. point_size x = Inr i \<and> B \<le> i)"
    using sl cdf_text_iff[of l repr_float] by (simp add: cdf_large_def)
  assume "rows \<noteq> []"
  let ?v = "\<lambda>x. projr (point_val x)"
  have "mapE point_val rows = Inr (map ?v rows)" using pts by (intro mapE_total) (metis sum.sel(2))
  moreover have "\<forall>y \<in> set (map ?v rows). y \<noteq> 0" using pts by (force simp: zero_pyfloat_def)
  ultimately show "\<exists>t. cdf_all rows = Inr t"
    using cdf_text_iff[of "map ?v rows" repr_float] \<open>rows \<noteq> []\<close> by (simp add: cdf_all_def)
qed

lemma part_ok:
  assumes "listing rows" "usable B rows"
    and "\<forall>xs. xs \<noteq> [] \<longrightarrow> (\<exists>y. average tools xs = Inr y)"
    and "\<forall>xs p. xs \<noteq> [] \<longrightarrow> (\<exists>y. percentile tools xs p = Inr y)"
  shows "\<exists>t. part tools title header B rows = Inr t"
proof -
  have pts: "\<forall>x \<in> set rows. \<exists>v i. point_val x = Inr (Fin v) \<and> 0 < v \<and> point_size x = Inr i" "length rows < 2 ^ 35"
    using assms(1) by (simp_all add: listing_def)
  obtain s l where sl: "split_bdp B rows = Inr (s, l)" "s \<noteq> []" "l \<noteq> []"
    using split_bdp_listing[OF pts(1), of B] assms(2) unfolding usable_def by blast
  have line: "\<exists>t. brief_line tools label xs = Inr t" if ne: "xs \<noteq> []" for label xs
  proof -
    obtain a where "average tools xs = Inr a" using assms(3)[rule_format, OF ne] by blast
    moreover have "\<forall>p. \<exists>y. percentile tools xs p = Inr y" using assms(4) ne by simp
    from choice[OF this] obtain f where "\<forall>p. percentile tools xs p = Inr (f p)" by blast
    ultimately show ?thesis by (simp add: brief_line_def)
  qed
  obtain t1 t2 where "brief_line tools ''<1BDP'' s = Inr t1" "brief_line tools ''>1BDP'' l = Inr t2"
    using line[OF sl(2)] line[OF sl(3)] by blast
  moreover obtain ds where "deciles rows 5 = Inr ds"
    using deciles_result[OF pts(2) listing_point[OF assms(1)]] assms(2) by (auto simp: usable_def)
  ultimately show ?thesis using sl by (simp add: part_def brief_def)
qed

lemma part_needs: "listing rows \<Longrightarrow> part tools title header B rows = Inr t \<Longrightarrow> 20 \<le> length rows"
  using deciles_result[OF _ listing_point, of rows] by (auto simp: part_def listing_def bindE_Inr_iff split: if_splits)

text \<open>
  C34. When the analysis of a run completes. With numpy's statistics defined on non-empty lists and
  pipelines that print positive values, the seven files are written if and only if, in both listings
  without their last row, there are at least 20 flows, one of them below and one of them not below
  the bandwidth-delay product; otherwise the script raises.
\<close>

theorem fct_analysis_completes_iff:
  assumes "\<forall>xs. xs \<noteq> [] \<longrightarrow> (\<exists>y. average tools xs = Inr y)"
    and "\<forall>xs p. xs \<noteq> [] \<longrightarrow> (\<exists>y. percentile tools xs p = Inr y)"
    and "py_int (f_id args) = Some config_ID" and "py_int (f_bdp args) = Some OneBDP"
    and "path = output_base (f_dir args) (f_fdir args) config_ID @ ''.txt''"
    and "check_output tools (cmd_absolute path (f_begin args) (f_end args)) = Inr out_abs"
    and "check_output tools (cmd_slowdown path (f_begin args) (f_end args)) = Inr out_slow"
    and "listing (data_rows out_abs)" and "listing (data_rows out_slow)"
  shows "(\<exists>outputs. fct_analysis tools args = Inr outputs \<and> length outputs = 7) \<longleftrightarrow>
    usable OneBDP (data_rows out_abs) \<and> usable OneBDP (data_rows out_slow)"
proof
  let ?a = "data_rows out_abs" and ?s = "data_rows out_slow"
  note ids = assms(3,4) assms(6,7)[unfolded assms(5)]
  assume "\<exists>outputs. fct_analysis tools args = Inr outputs \<and> length outputs = 7"
  then obtain t u v w x y where p: "summary_text tools OneBDP ?s ?a = Inr t" "cdf_small OneBDP ?s = Inr u"
    "cdf_large OneBDP ?s = Inr v" "cdf_small OneBDP ?a = Inr w" "cdf_large OneBDP ?a = Inr x"
    using ids by (auto simp: fct_analysis_def slowdown_cdfs_def absolute_cdfs_def to_int_def bindE_Inr_iff Let_def)
  have "20 \<le> length ?a" "20 \<le> length ?s"
    using p(1) part_needs[OF assms(8)] part_needs[OF assms(9)] by (auto simp: summary_text_def slowdown_part_def absolute_part_def bindE_Inr_iff)
  then show "usable OneBDP ?a \<and> usable OneBDP ?s"
    using p cdf_listing(1,2)[OF assms(8), of OneBDP] cdf_listing(1,2)[OF assms(9), of OneBDP]
    unfolding usable_def by blast
next
  let ?a = "data_rows out_abs" and ?s = "data_rows out_slow"
  note ids = assms(3,4) assms(6,7)[unfolded assms(5)]
  assume u: "usable OneBDP ?a \<and> usable OneBDP ?s"
  then have ne: "?a \<noteq> []" "?s \<noteq> []" by (auto simp: usable_def)
  obtain t1 where t1: "part tools ''SLOWDOWN'' slowdown_header OneBDP ?s = Inr t1"
    using part_ok[OF assms(9) _ assms(1,2)] u by blast
  obtain t2 where t2: "part tools ''ABSOLUTE'' absolute_header OneBDP ?a = Inr t2"
    using part_ok[OF assms(8) _ assms(1,2)] u by blast
  obtain a1 a2 a3 where a: "cdf_all ?a = Inr a1" "cdf_small OneBDP ?a = Inr a2" "cdf_large OneBDP ?a = Inr a3"
    using cdf_listing(1,2)[OF assms(8), of OneBDP] cdf_listing(3)[OF assms(8)] u ne unfolding usable_def by blast
  obtain s1 s2 s3 where s: "cdf_all ?s = Inr s1" "cdf_small OneBDP ?s = Inr s2" "cdf_large OneBDP ?s = Inr s3"
    using cdf_listing(1,2)[OF assms(9), of OneBDP] cdf_listing(3)[OF assms(9)] u ne unfolding usable_def by blast
  show "\<exists>outputs. fct_analysis tools args = Inr outputs \<and> length outputs = 7"
    using ids t1 t2 a s by (simp add: fct_analysis_def slowdown_cdfs_def absolute_cdfs_def to_int_def Let_def summary_text_def
        slowdown_part_def absolute_part_def)
qed

definition example_tools :: fct_tools where
  "example_tools = \<lparr>average = (\<lambda>xs. Inr (Fin 1)), percentile = (\<lambda>xs p. if xs = [] then Inl IndexError else Inr (Fin 1)),
     check_output = (\<lambda>cmd. Inr (concat (replicate 12 (''1 500'' @ nl)) @ concat (replicate 12 (''2 900000'' @ nl))))\<rparr>"

theorem fct_analysis_completes_iff_witness:
  "\<exists>outputs. fct_analysis example_tools
      \<lparr>f_id = ''7'', f_dir = ''.'', f_fdir = ''mix'', f_bdp = ''104000'', f_begin = 0, f_end = 9\<rparr> = Inr outputs \<and>
     length outputs = 7"
proof -
  let ?args = "\<lparr>f_id = ''7'', f_dir = ''.'', f_fdir = ''mix'', f_bdp = ''104000'', f_begin = 0, f_end = 9\<rparr>"
  let ?out = "concat (replicate 12 (''1 500'' @ nl)) @ concat (replicate 12 (''2 900000'' @ nl))"
  have rows: "data_rows ?out = replicate 12 ''1 500'' @ replicate 11 ''2 900000''" by code_simp
  have pts: "point_val ''1 500'' = Inr (Fin 1)" "point_size ''1 500'' = Inr 500"
    "point_val ''2 900000'' = Inr (Fin 2)" "point_size ''2 900000'' = Inr 900000" by code_simp+
  have l: "listing (data_rows ?out)" using pts unfolding rows by (auto simp: listing_def)
  have u: "usable 104000 (data_rows ?out)" using pts unfolding rows by (auto simp: usable_def)
  have i: "py_int ''7'' = Some 7" "py_int ''104000'' = Some 104000" by code_simp+
  show ?thesis
    using fct_analysis_completes_iff[where tools = example_tools and args = ?args and config_ID = 7 and OneBDP = 104000
      and out_abs = ?out and out_slow = ?out, OF _ _ _ _ refl] i l u
    by (simp add: example_tools_def)
qed

end
