(* ===== verification/QueueAnalysis.thy ===== *)
theory QueueAnalysis
  imports Stats
begin

text \<open>
  \<open>queueAnalysis.py\<close>: the use of ConWeave's reordering queues, sampled per switch and per destination
  in two files of the run. Rows inside the time window count; the samples that the simulator did not
  print are the empty ones, so the list is filled up with zeros to the expected number of samples.

  Files are a map from paths to texts and numpy's \<open>percentile\<close> is a parameter; the script's tables of
  modes are not used by it.
\<close>

type_synonym store = "string \<Rightarrow> string option"

type_synonym int_percentile = "int list \<Rightarrow> pyfloat \<Rightarrow> pyfloat res"

definition open_read :: "store \<Rightarrow> string \<Rightarrow> string res" where
  "open_read st path = of_option (FileNotFoundError path) (st path)"

definition get_cdf :: "int list \<Rightarrow> string res" where
  "get_cdf v = cdf_text show_int v"

section \<open>Samples in the window\<close>

definition csv :: "string \<Rightarrow> string list" where
  "csv line = split_char (CHR '','') (py_replace nl [] line)"

definition csv_int :: "string list \<Rightarrow> int \<Rightarrow> int res" where
  "csv_int parsed i = bindE (py_index parsed i) to_int"

fun switch_ids :: "string list \<Rightarrow> int list \<Rightarrow> int list res" where
  "switch_ids [] set_switch = Inr set_switch"
| "switch_ids (line # lines) set_switch =
     (if length (csv line) \<noteq> 4 then switch_ids lines set_switch
      else bindE (csv_int (csv line) 1) (\<lambda>s. switch_ids lines (List.insert s set_switch)))"

text \<open>
  The loop over the rows; only the per-switch version skips lines that do not have four fields.
\<close>

fun window_samples :: "bool \<Rightarrow> int \<Rightarrow> int \<Rightarrow> string list \<Rightarrow> (int \<times> int) list res" where
  "window_samples skip start stop [] = Inr []"
| "window_samples skip start stop (line # lines) =
     (let parsed = csv line in
      if skip \<and> length parsed \<noteq> 4 then window_samples skip start stop lines
      else bindE (csv_int parsed 0) (\<lambda>timestamp.
           if timestamp < start \<or> stop < timestamp then window_samples skip start stop lines
           else bindE (csv_int parsed 2) (\<lambda>nQueue.
                bindE (csv_int parsed 3) (\<lambda>nPkt.
                bindE (window_samples skip start stop lines) (\<lambda>rest. Inr ((nQueue, nPkt) # rest))))))"

definition fill_up :: "int \<Rightarrow> int list \<Rightarrow> int list" where
  "fill_up nSample xs = xs @ replicate (nat (nSample - int (length xs))) 0"

record queue_stat =
  qs_avg :: pyfloat
  qs_p50 :: int
  qs_p95 :: int
  qs_p99 :: int
  qs_p999 :: int
  qs_p9999 :: int
  qs_max :: int

definition pctl_int :: "int_percentile \<Rightarrow> int list \<Rightarrow> pyfloat \<Rightarrow> int res" where
  "pctl_int percentile xs p = bindE (percentile xs p) int_of_float"

definition queue_stat_of :: "int_percentile \<Rightarrow> int list \<Rightarrow> queue_stat res" where
  "queue_stat_of percentile xs =
     bindE (int_true_div (sum_list xs) (int (length xs))) (\<lambda>avg.
     bindE (pctl_int percentile xs (Fin 50)) (\<lambda>p50.
     bindE (pctl_int percentile xs (Fin 95)) (\<lambda>p95.
     bindE (pctl_int percentile xs (Fin 99)) (\<lambda>p99.
     bindE (pctl_int percentile xs (lit (999 / 10))) (\<lambda>p999.
     bindE (pctl_int percentile xs (lit (9999 / 100))) (\<lambda>p9999.
     Inr \<lparr>qs_avg = avg, qs_p50 = p50, qs_p95 = p95, qs_p99 = p99, qs_p999 = p999, qs_p9999 = p9999,
          qs_max = Max (set xs)\<rparr>))))))"

record queue_result =
  qr_nQueue :: "int list"
  qr_nPkt :: "int list"
  qr_nSample :: int
  qr_stat_nQueue :: queue_stat
  qr_stat_nPkt :: queue_stat
  qr_cdf_file :: "(string \<times> string) option"

text \<open>From the rows on, both functions do the same, but for the list behind the distribution file.\<close>

definition summarize ::
  "int_percentile \<Rightarrow> string \<Rightarrow> bool \<Rightarrow> (int list \<times> int list \<Rightarrow> int list) \<Rightarrow> int \<Rightarrow> (int \<times> int) list \<Rightarrow>
   queue_result res" where
  "summarize percentile filename cdf_flag pick nSample samples =
     (let nQueue = fill_up nSample (map fst samples); nPkt = fill_up nSample (map snd samples) in
      bindE (guardE AssertionError (length nQueue = length nPkt)) (\<lambda>_.
      bindE (queue_stat_of percentile nQueue) (\<lambda>q.
      bindE (queue_stat_of percentile nPkt) (\<lambda>p.
      bindE (if cdf_flag
             then bindE (get_cdf (pick (nQueue, nPkt))) (\<lambda>t.
                  Inr (Some (py_replace ''.txt'' [] filename @ ''_cdf.txt'', t)))
             else Inr None) (\<lambda>f.
      Inr \<lparr>qr_nQueue = nQueue, qr_nPkt = nPkt, qr_nSample = nSample, qr_stat_nQueue = q,
           qr_stat_nPkt = p, qr_cdf_file = f\<rparr>)))))"

section \<open>Per switch\<close>

definition samples_per_switch :: "int \<Rightarrow> int \<Rightarrow> int \<Rightarrow> int \<Rightarrow> int res" where
  "samples_per_switch start stop interval num_switch =
     bindE (float_of_int stop) (\<lambda>b.
     bindE (float_of_int start) (\<lambda>a.
     bindE (float_of_int interval) (\<lambda>m.
     bindE (fdiv (fsub b a) m) (\<lambda>q.
     bindE (float_of_int num_switch) (\<lambda>n. int_of_float (fmul q n))))))"

definition get_queue_per_switch_info_from_raw ::
  "int_percentile \<Rightarrow> store \<Rightarrow> string \<Rightarrow> int \<Rightarrow> int \<Rightarrow> int \<Rightarrow> bool \<Rightarrow> queue_result res" where
  "get_queue_per_switch_info_from_raw percentile st filename start stop interval cdf_flag =
     bindE (open_read st filename) (\<lambda>contents.
     bindE (switch_ids (py_lines contents) []) (\<lambda>set_switch.
     bindE (guardE AssertionError (length set_switch \<noteq> 0)) (\<lambda>_.
     bindE (samples_per_switch start stop interval (int (length set_switch))) (\<lambda>nSample.
     bindE (window_samples True start stop (py_lines contents)) (\<lambda>samples.
     summarize percentile filename cdf_flag snd nSample samples)))))"

section \<open>Per destination\<close>

definition topology_of_config :: "string \<Rightarrow> string" where
  "topology_of_config contents =
     foldl (\<lambda>t line. if has_infix ''TOPOLOGY_FILE'' line
                      then last (split_char (CHR '' '') (py_replace nl [] line)) else t) [] (py_lines contents)"

definition hosts_of_topology :: "string \<Rightarrow> int res" where
  "hosts_of_topology contents =
     (let line = (case py_lines contents of [] \<Rightarrow> [] | l # _ \<Rightarrow> l);
          parsed = split_char (CHR '' '') (py_replace nl [] line) in
      bindE (csv_int parsed 0) (\<lambda>a. bindE (csv_int parsed 1) (\<lambda>b. Inr (a - b))))"

definition config_path :: "string \<Rightarrow> string" where
  "config_path filename = py_join ''/'' (butlast (split_char (CHR ''/'') filename) @ [''config.txt''])"

definition samples_per_dst :: "int \<Rightarrow> int \<Rightarrow> int \<Rightarrow> int \<Rightarrow> int res" where
  "samples_per_dst start stop interval nHost =
     bindE (int_true_div (stop - start) interval) (\<lambda>q.
     bindE (float_of_int nHost) (\<lambda>n. int_of_float (fmul q n)))"

definition get_queue_per_dst_info_from_raw ::
  "int_percentile \<Rightarrow> store \<Rightarrow> string \<Rightarrow> int \<Rightarrow> int \<Rightarrow> int \<Rightarrow> bool \<Rightarrow> queue_result res" where
  "get_queue_per_dst_info_from_raw percentile st filename start stop interval cdf_flag =
     bindE (open_read st (config_path filename)) (\<lambda>config.
     bindE (open_read st (topology_of_config config)) (\<lambda>topology.
     bindE (hosts_of_topology topology) (\<lambda>nHost.
     bindE (guardE AssertionError (nHost \<noteq> 0)) (\<lambda>_.
     bindE (samples_per_dst start stop interval nHost) (\<lambda>nSample.
     bindE (open_read st filename) (\<lambda>contents.
     bindE (window_samples False start stop (py_lines contents)) (\<lambda>samples.
     summarize percentile filename cdf_flag fst nSample samples)))))))"

section \<open>The script\<close>

record queue_args =
  qa_id :: string
  qa_dir :: string
  qa_fdir :: string
  qa_begin :: int
  qa_end :: int
  qa_interval :: int

definition queue_output :: "queue_args \<Rightarrow> int \<Rightarrow> string" where
  "queue_output args config_ID =
     qa_dir args @ ''/'' @ qa_fdir args @ ''/output/'' @ show_int config_ID @ ''/'' @ show_int config_ID"

definition queue_analysis :: "int_percentile \<Rightarrow> store \<Rightarrow> queue_args \<Rightarrow> (queue_result \<times> queue_result) res" where
  "queue_analysis percentile st args =
     bindE (to_int (qa_id args)) (\<lambda>config_ID.
     bindE (get_queue_per_switch_info_from_raw percentile st (queue_output args config_ID @ ''_out_voq.txt'')
              (qa_begin args) (qa_end args) (qa_interval args) True) (\<lambda>total.
     bindE (get_queue_per_dst_info_from_raw percentile st (queue_output args config_ID @ ''_out_voq_per_dst.txt'')
              (qa_begin args) (qa_end args) (qa_interval args) True) (\<lambda>per_dst.
     Inr (total, per_dst))))"

section \<open>Which samples are counted\<close>

lemma split_str_char: "split_str [d] s = split_char d s"
  by (induction s) (auto simp: has_prefix_def)

lemma py_replace_nl: "CHR 0x0A \<notin> set w \<Longrightarrow> py_replace nl [] (w @ nl) = w \<and> py_replace nl [] w = w"
  by (simp add: py_replace_def nl_def split_str_char split_char_append split_char_no)

text \<open>A row of the monitoring output: time, switch, queues in use, packets held.\<close>

type_synonym voq_row = "int \<times> int \<times> int \<times> int"

definition voq_line :: "voq_row \<Rightarrow> string" where
  "voq_line r = (case r of (t, s, q, p) \<Rightarrow>
     show_int t @ '','' @ show_int s @ '','' @ show_int q @ '','' @ show_int p @ nl)"

lemma show_int_avoids [simp]: "CHR '','' \<notin> set (show_int i)" "CHR 0x0A \<notin> set (show_int i)"
proof -
  have d: "is_digit (digit_char d)" if "d < 10" for d using digit_char_props(1)[OF that] .
  have "\<not> is_digit (CHR '','')" "\<not> is_digit (CHR 0x0A)" by (simp_all add: is_digit_def)
  then have "digit_char d \<noteq> CHR '',''" "digit_char d \<noteq> CHR 0x0A" if "d < 10" for d using d[OF that] by metis+
  then show "CHR '','' \<notin> set (show_int i)" "CHR 0x0A \<notin> set (show_int i)"
    using show_int_chars[of "CHR '',''" i] show_int_chars[of "CHR 0x0A" i] by (auto dest: sym)
qed

lemma csv_voq_line: "csv (voq_line (t, s, q, p)) = [show_int t, show_int s, show_int q, show_int p]"
proof -
  let ?w = "show_int t @ CHR '','' # (show_int s @ CHR '','' # (show_int q @ CHR '','' # show_int p))"
  have "voq_line (t, s, q, p) = ?w @ nl" "CHR 0x0A \<notin> set ?w" by (simp_all add: voq_line_def)
  then have "py_replace nl [] (voq_line (t, s, q, p)) = ?w" using py_replace_nl[of ?w] by simp
  then show ?thesis by (simp add: csv_def split_char_append split_char_no)
qed

lemma py_lines_voq: "py_lines (concat (map voq_line rows)) = map voq_line rows"
proof -
  let ?w = "\<lambda>(t, s, q, p). show_int t @ '','' @ show_int s @ '','' @ show_int q @ '','' @ show_int p"
  have w: "voq_line r = ?w r @ nl" for r by (cases r) (simp add: voq_line_def)
  have "\<forall>x \<in> set (map ?w rows). CHR 0x0A \<notin> set x" by auto
  from py_lines_concat[OF this] show ?thesis unfolding map_map comp_def w[symmetric] .
qed

lemma csv_int_simps [simp]:
  "csv_int (w # ws) 0 = to_int w" "csv_int (w # v # ws) 1 = to_int v" "csv_int (w # v # u # ws) 2 = to_int u"
  "csv_int (w # v # u # x # ws) 3 = to_int x"
  by (simp_all add: csv_int_def py_index_def)

lemma to_int_show [simp]: "to_int (show_int i) = Inr i"
  by (simp add: to_int_def)

definition in_window :: "int \<Rightarrow> int \<Rightarrow> voq_row \<Rightarrow> bool" where
  "in_window start stop r \<longleftrightarrow> start \<le> fst r \<and> fst r \<le> stop"

lemma window_samples_voq:
  "window_samples skip start stop (map voq_line rows) = Inr (map (snd \<circ> snd) (filter (in_window start stop) rows))"
proof (induction rows)
  case (Cons r rows)
  obtain t s q p where "r = (t, s, q, p)" by (cases r)
  then show ?case using Cons by (auto simp: Let_def csv_voq_line in_window_def)
qed simp

lemma switch_ids_voq:
  "distinct acc \<Longrightarrow> \<exists>ids. switch_ids (map voq_line rows) acc = Inr ids \<and> distinct ids \<and> set ids = set acc \<union> (fst \<circ> snd) ` set rows"
proof (induction rows arbitrary: acc)
  case (Cons r rows)
  obtain t s q p where r: "r = (t, s, q, p)" by (cases r)
  then show ?case using Cons.IH[of "List.insert s acc"] Cons.prems by (simp add: csv_voq_line distinct_insert)
qed simp

lemma samples_per_switch_exact:
  assumes "interval \<noteq> 0" "interval dvd stop - start" "\<bar>start\<bar> < 2 ^ 53" "\<bar>stop\<bar> < 2 ^ 53" "\<bar>interval\<bar> < 2 ^ 53"
    and "\<bar>stop - start\<bar> < 2 ^ 53" "\<bar>(stop - start) div interval * n\<bar> < 2 ^ 53" "\<bar>n\<bar> < 2 ^ 53"
  shows "samples_per_switch start stop interval n = Inr ((stop - start) div interval * n)"
proof -
  obtain q where q: "stop - start = interval * q" using assms(2) by (rule dvdE)
  have "\<bar>q\<bar> \<le> \<bar>interval * q\<bar>" using assms(1) mult_right_mono[of 1 "\<bar>interval\<bar>" "\<bar>q\<bar>"] by (simp add: abs_mult)
  then have qs: "\<bar>q\<bar> < 2 ^ 53" using assms(6) q by linarith
  have div: "(stop - start) div interval = q" using q assms(1) by simp
  have sub: "fsub (Fin (of_int stop)) (Fin (of_int start)) = Fin (of_int (stop - start))"
    using fround_int[OF assms(6)] by (simp add: fsub_def)
  have "(of_int (stop - start) :: rat) / of_int interval = of_int q" using q assms(1) by simp
  then have dv: "fdiv (Fin (of_int (stop - start))) (Fin (of_int interval)) = Inr (Fin (of_int q))"
    using fround_int[OF qs] assms(1) by simp
  have mul: "fmul (Fin (of_int q)) (Fin (of_int n)) = Fin (of_int (q * n))"
    using fround_int[of "q * n"] assms(7) div by simp
  have int: "int_of_float (Fin (of_int (q * n))) = Inr (q * n)"
    by (simp only: int_of_float.simps floor_of_int ceiling_of_int if_cancel)
  show ?thesis
    unfolding samples_per_switch_def div
    by (simp only: float_of_int_small[OF assms(3)] float_of_int_small[OF assms(4)] float_of_int_small[OF assms(5)]
        float_of_int_small[OF assms(8)] bindE_simps sub dv mul int)
qed

lemma summarize_Inr:
  "summarize percentile filename cdf_flag pick nSample samples = Inr r \<Longrightarrow>
     qr_nQueue r = fill_up nSample (map fst samples) \<and> qr_nPkt r = fill_up nSample (map snd samples) \<and>
     qr_nSample r = nSample"
  by (auto simp: summarize_def Let_def bindE_Inr_iff)

text \<open>What the statistics of a list of samples are: mean, five percentiles cut to integers, and maximum.\<close>

definition stat_over :: "int_percentile \<Rightarrow> int list \<Rightarrow> queue_stat \<Rightarrow> bool" where
  "stat_over percentile xs s \<longleftrightarrow>
     int_true_div (sum_list xs) (int (length xs)) = Inr (qs_avg s) \<and>
     (\<forall>(p, q) \<in> set [(Fin 50, qs_p50 s), (Fin 95, qs_p95 s), (Fin 99, qs_p99 s), (lit (999 / 10), qs_p999 s),
         (lit (9999 / 100), qs_p9999 s)]. \<exists>x. percentile xs p = Inr x \<and> int_of_float x = Inr q) \<and>
     qs_max s \<in> set xs \<and> (\<forall>x \<in> set xs. x \<le> qs_max s)"

lemma queue_stat_over: "queue_stat_of percentile xs = Inr s \<Longrightarrow> stat_over percentile xs s"
  by (cases "xs = []")
    (auto simp: queue_stat_of_def stat_over_def pctl_int_def bindE_Inr_iff int_true_div_def)

lemma summarize_stats:
  assumes "summarize percentile filename cdf_flag pick nSample samples = Inr r"
  shows "stat_over percentile (qr_nQueue r) (qr_stat_nQueue r) \<and> stat_over percentile (qr_nPkt r) (qr_stat_nPkt r) \<and>
    (if cdf_flag then \<exists>t. get_cdf (pick (qr_nQueue r, qr_nPkt r)) = Inr t \<and>
         qr_cdf_file r = Some (py_replace ''.txt'' [] filename @ ''_cdf.txt'', t)
     else qr_cdf_file r = None)"
  using assms by (auto simp: summarize_def Let_def bindE_Inr_iff dest: queue_stat_over split: if_splits)

text \<open>
  C38. The result of a switch file whose interval divides the time window (all times, and the number of
  samples, below \<open>2 ^ 53\<close>).  The two lists of samples are those of the rows inside the window, in order,
  filled up with zeros to (window / interval) samples for each switch that appears anywhere in the file.
  The statistics of queues and of packets are mean, percentiles and maximum of the list of queues and of
  the list of packets; the distribution that is written, if it is asked for, is that of the packets.  A
  file without any row is refused.
\<close>

theorem per_switch_samples:
  assumes "st filename = Some (concat (map voq_line rows))"
    and "get_queue_per_switch_info_from_raw percentile st filename start stop interval cdf_flag = Inr r"
    and "interval \<noteq> 0" "interval dvd stop - start" "\<bar>start\<bar> < 2 ^ 53" "\<bar>stop\<bar> < 2 ^ 53" "\<bar>interval\<bar> < 2 ^ 53"
    and "\<bar>stop - start\<bar> < 2 ^ 53" "\<bar>(stop - start) div interval * int (card ((fst \<circ> snd) ` set rows))\<bar> < 2 ^ 53"
    and "card ((fst \<circ> snd) ` set rows) < 2 ^ 53"
  shows "rows \<noteq> [] \<and> qr_nSample r = (stop - start) div interval * int (card ((fst \<circ> snd) ` set rows)) \<and>
    qr_nQueue r = fill_up (qr_nSample r) (map (fst \<circ> snd \<circ> snd) (filter (in_window start stop) rows)) \<and>
    qr_nPkt r = fill_up (qr_nSample r) (map (snd \<circ> snd \<circ> snd) (filter (in_window start stop) rows)) \<and>
    length (qr_nPkt r) = max (nat (qr_nSample r)) (length (filter (in_window start stop) rows)) \<and>
    stat_over percentile (qr_nQueue r) (qr_stat_nQueue r) \<and> stat_over percentile (qr_nPkt r) (qr_stat_nPkt r) \<and>
    (if cdf_flag then \<exists>t. get_cdf (qr_nPkt r) = Inr t \<and> qr_cdf_file r = Some (py_replace ''.txt'' [] filename @ ''_cdf.txt'', t)
     else qr_cdf_file r = None)"
proof -
  obtain ids where ids: "switch_ids (map voq_line rows) [] = Inr ids" "distinct ids" "set ids = (fst \<circ> snd) ` set rows"
    using switch_ids_voq[of "[]" rows] by auto
  have len: "length ids = card ((fst \<circ> snd) ` set rows)" using ids distinct_card by metis
  have n: "samples_per_switch start stop interval (int (length ids)) = Inr ((stop - start) div interval * int (length ids))"
    using assms(3-10) len by (intro samples_per_switch_exact) simp_all
  have ne: "length ids \<noteq> 0" and s: "summarize percentile filename cdf_flag snd ((stop - start) div interval * int (length ids))
      (map (snd \<circ> snd) (filter (in_window start stop) rows)) = Inr r"
    using assms(1,2) ids(1) n
    by (auto simp: get_queue_per_switch_info_from_raw_def open_read_def py_lines_voq window_samples_voq bindE_Inr_iff)
  have "rows \<noteq> []" using ne ids(3) by auto
  then have "rows \<noteq> [] \<and> qr_nSample r = (stop - start) div interval * int (card ((fst \<circ> snd) ` set rows)) \<and>
    qr_nQueue r = fill_up (qr_nSample r) (map (fst \<circ> snd \<circ> snd) (filter (in_window start stop) rows)) \<and>
    qr_nPkt r = fill_up (qr_nSample r) (map (snd \<circ> snd \<circ> snd) (filter (in_window start stop) rows)) \<and>
    length (qr_nPkt r) = max (nat (qr_nSample r)) (length (filter (in_window start stop) rows))"
    using summarize_Inr[OF s] len by (simp add: fill_up_def comp_assoc)
  then show ?thesis using summarize_stats[OF s] unfolding snd_conv by blast
qed

theorem per_switch_samples_witness:
  "\<exists>r. get_queue_per_switch_info_from_raw (\<lambda>xs p. Inr (Fin 0))
      [''v.txt'' \<mapsto> concat (map voq_line [(90, 4, 1, 1), (100, 1, 2, 30), (250, 4, 1, 7)])] ''v.txt'' 100 300 50 False = Inr r \<and>
     qr_nSample r = 8 \<and> qr_nPkt r = [30, 7, 0, 0, 0, 0, 0, 0] \<and> qs_max (qr_stat_nPkt r) = 30"
proof -
  let ?rows = "[(90, 4, 1, 1), (100, 1, 2, 30), (250, 4, 1, 7)] :: voq_row list"
  let ?run = "get_queue_per_switch_info_from_raw (\<lambda>xs p. Inr (Fin 0)) [''v.txt'' \<mapsto> concat (map voq_line ?rows)] ''v.txt'' 100 300 50 False"
  have "(case ?run of Inr _ \<Rightarrow> True | Inl _ \<Rightarrow> False)" by code_simp
  then obtain r where r: "?run = Inr r" by (auto split: sum.splits)
  have card: "card ((fst \<circ> snd) ` set ?rows) = 2" by (simp add: card_insert_if)
  have "?rows \<noteq> [] \<and> qr_nSample r = (300 - 100) div 50 * int (card ((fst \<circ> snd) ` set ?rows)) \<and>
    qr_nQueue r = fill_up (qr_nSample r) (map (fst \<circ> snd \<circ> snd) (filter (in_window 100 300) ?rows)) \<and>
    qr_nPkt r = fill_up (qr_nSample r) (map (snd \<circ> snd \<circ> snd) (filter (in_window 100 300) ?rows)) \<and>
    length (qr_nPkt r) = max (nat (qr_nSample r)) (length (filter (in_window 100 300) ?rows)) \<and>
    stat_over (\<lambda>xs p. Inr (Fin 0)) (qr_nQueue r) (qr_stat_nQueue r) \<and>
    stat_over (\<lambda>xs p. Inr (Fin 0)) (qr_nPkt r) (qr_stat_nPkt r) \<and>
    (if False then \<exists>t. get_cdf (qr_nPkt r) = Inr t \<and> qr_cdf_file r = Some (py_replace ''.txt'' [] ''v.txt'' @ ''_cdf.txt'', t)
     else qr_cdf_file r = None)"
    by (rule per_switch_samples[OF _ r]) (simp_all only: card, simp_all)
  note all = this
  have "qr_nSample r = 8" using conjunct1[OF conjunct2[OF all]] unfolding card by simp
  moreover have "stat_over (\<lambda>xs p. Inr (Fin 0)) (qr_nPkt r) (qr_stat_nPkt r)"
    "qr_nPkt r = fill_up (qr_nSample r) (map (snd \<circ> snd \<circ> snd) (filter (in_window 100 300) ?rows))"
    using all by blast+
  ultimately have n: "qr_nSample r = 8" "stat_over (\<lambda>xs p. Inr (Fin 0)) (qr_nPkt r) (qr_stat_nPkt r)" "qr_nPkt r = fill_up 8 [30, 7]"
    by (simp_all add: in_window_def)
  moreover have "fill_up 8 [30, 7] = [30, 7, 0, 0, 0, 0, 0, 0]" by code_simp
  ultimately have x: "qr_nPkt r = [30, 7, 0, 0, 0, 0, 0, 0]" by simp
  then have "qs_max (qr_stat_nPkt r) = 30" using n(2) unfolding x stat_over_def by auto
  then show ?thesis using r n(1) x by blast
qed

text \<open>An output without a packet in the window has no distribution: the script stops there.\<close>

lemma empty_window_fails:
  assumes "fill_up n (map snd samples) = replicate m 0"
  shows "\<exists>e. summarize percentile filename True snd n samples = Inl e"
proof -
  have "get_cdf (fill_up n (map snd samples)) = Inl IndexError"
    using assms by (simp add: get_cdf_def cdf_text_def getCdf_result)
  then show ?thesis
    by (cases "queue_stat_of percentile (fill_up n (map fst samples))";
        cases "queue_stat_of percentile (fill_up n (map snd samples))") (simp_all add: summarize_def Let_def fill_up_def)
qed

end
