(* ===== verification/PlotData.thy ===== *)
theory PlotData
  imports RunDriver FctAnalysis QueueAnalysis
begin

text \<open>
  The data behind the figures of \<open>analysis/plot_fct.py\<close>, \<open>plot_queue.py\<close> and \<open>plot_uplink.py\<close>: the runs
  they find in the history that \<open>run.py\<close> appends to, grouped by topology, load and flow control, and
  the curves computed from the outputs of these runs. Drawing (matplotlib, cycler) is not modelled.

  A dictionary whose order matters is an association list in insertion order.
\<close>

section \<open>Tables\<close>

definition plot_cc_modes :: "int \<Rightarrow> string option" where
  "plot_cc_modes = map_of [(1, ''dcqcn''), (3, ''hp''), (7, ''timely''), (8, ''dctcp'')]"

definition plot_lb_modes :: "int \<Rightarrow> string option" where
  "plot_lb_modes = map_of [(0, ''fecmp''), (2, ''drill''), (3, ''conga''), (6, ''letflow''), (9, ''conweave'')]"

definition plot_topologies :: "string list" where
  "plot_topologies = [''leaf_spine_128_100G_OS2'', ''fat_k4_100G_OS2'']"

definition lookup_mode :: "(int \<Rightarrow> string option) \<Rightarrow> int \<Rightarrow> string res" where
  "lookup_mode d k = of_option (KeyError (show_int k)) (d k)"

section \<open>Reading the history\<close>

type_synonym run_key = "string \<times> string \<times> string"

type_synonym run_map = "(run_key \<times> (string \<times> string) list) list"

fun add_run :: "run_key \<Rightarrow> string \<times> string \<Rightarrow> run_map \<Rightarrow> run_map" where
  "add_run k r [] = [(k, [r])]"
| "add_run k r ((k', rs) # m) = (if k = k' then (k', rs @ [r]) # m else (k', rs) # add_run k r m)"

definition flow_control :: "int \<Rightarrow> int \<Rightarrow> string option" where
  "flow_control p i =
     (if (p, i) = (0, 1) then Some ''IRN'' else if (p, i) = (1, 0) then Some ''Lossless'' else None)"

text \<open>The body for a line that names a topology; \<open>keep\<close> is the filter that only \<open>plot_queue.py\<close> has.\<close>

definition history_entry :: "(string \<Rightarrow> bool) \<Rightarrow> string \<Rightarrow> run_map \<Rightarrow> run_map res" where
  "history_entry keep line m =
     (let parsed_line = csv line in
      bindE (py_index parsed_line 1) (\<lambda>config_id.
      bindE (bindE (csv_int parsed_line 2) (lookup_mode plot_cc_modes)) (\<lambda>cc_mode.
      bindE (bindE (csv_int parsed_line 3) (lookup_mode plot_lb_modes)) (\<lambda>lb_mode.
      if \<not> keep lb_mode then Inr m
      else
        bindE (csv_int parsed_line 9) (\<lambda>p.
        bindE (csv_int parsed_line 10) (\<lambda>i.
        case flow_control p i of
          None \<Rightarrow> Inr m
        | Some fc \<Rightarrow>
            bindE (py_index parsed_line 13) (\<lambda>topo_name.
            bindE (py_index parsed_line 16) (\<lambda>load.
            Inr (add_run (topo_name, load, fc) (config_id, lb_mode) m)))))))))"

fun history_topos :: "(string \<Rightarrow> bool) \<Rightarrow> string \<Rightarrow> string list \<Rightarrow> run_map \<Rightarrow> run_map res" where
  "history_topos keep line [] m = Inr m"
| "history_topos keep line (t # ts) m =
     (if has_infix t line
      then bindE (history_entry keep line m) (history_topos keep line ts)
      else history_topos keep line ts m)"

fun read_history :: "(string \<Rightarrow> bool) \<Rightarrow> string list \<Rightarrow> run_map \<Rightarrow> run_map res" where
  "read_history keep [] m = Inr m"
| "read_history keep (line # lines) m =
     bindE (history_topos keep line plot_topologies m) (read_history keep lines)"

definition fct_history :: "string \<Rightarrow> run_map res" where
  "fct_history contents = read_history (\<lambda>_. True) (py_lines contents) []"

definition queue_history :: "string \<Rightarrow> run_map res" where
  "queue_history contents = read_history (\<lambda>lb. lb = ''conweave'') (py_lines contents) []"

section \<open>Completion times by flow size\<close>

definition size_label :: "int \<Rightarrow> string res" where
  "size_label step =
     (if step < 10000 then bindE (int_true_div step 1000) (\<lambda>x. Inr (fmt_fixed 1 x @ ''K''))
      else if step < 1000000 then bindE (int_true_div step 1000) (\<lambda>x. Inr (fmt_fixed 0 x @ ''K''))
      else bindE (int_true_div step 1000000) (\<lambda>x. Inr (fmt_fixed 1 x @ ''M'')))"

definition size2str :: "int list \<Rightarrow> string list res" where
  "size2str steps = mapE size_label steps"

record steps_result =
  st_avg :: "pyfloat list"
  st_p99 :: "pyfloat list"
  st_size :: "int list"

definition steps_command :: "string \<Rightarrow> int \<Rightarrow> int \<Rightarrow> string" where
  "steps_command filename start stop =
     ''cat '' @ filename @ '' | awk '' @ quote @ ''{ if ($6>'' @ show_int start @ '' && $6+$7<'' @ show_int stop @
     '') { slow=$7/$8; print slow<1?1:slow, $5} }'' @ quote @ '' | sort -n -k 2''"

definition get_steps_from_raw :: "(string \<Rightarrow> string res) \<Rightarrow> string \<Rightarrow> int \<Rightarrow> int \<Rightarrow> nat \<Rightarrow> steps_result res" where
  "get_steps_from_raw check filename start stop step =
     bindE (check (steps_command filename start stop)) (\<lambda>output_slowdown.
     bindE (deciles (data_rows output_slowdown) step) (\<lambda>ds.
     Inr \<lparr>st_avg = map d_avg ds, st_p99 = map d_p99 ds, st_size = map d_size ds\<rparr>))"

definition lbmode_order :: "string list" where
  "lbmode_order = [''fecmp'', ''conga'', ''letflow'', ''conweave'']"

definition fct_file :: "string \<Rightarrow> string \<Rightarrow> string" where
  "fct_file output_dir config_id = output_dir @ ''/'' @ config_id @ ''/'' @ config_id @ ''_out_fct.txt''"

text \<open>The curves of one figure, in drawing order: the runs of each load balancer of the list.\<close>

definition figure_runs :: "(string \<times> string) list \<Rightarrow> (string \<times> string) list" where
  "figure_runs v = concat (map (\<lambda>tgt. filter (\<lambda>vv. snd vv = tgt) v) lbmode_order)"

definition fct_curves ::
  "(string \<Rightarrow> string res) \<Rightarrow> string \<Rightarrow> int \<Rightarrow> int \<Rightarrow> (string \<times> string) list \<Rightarrow> (string \<times> steps_result) list res" where
  "fct_curves check output_dir start stop v =
     mapE (\<lambda>(config_id, lb_mode). bindE (get_steps_from_raw check (fct_file output_dir config_id) start stop 5)
             (\<lambda>r. Inr (lb_mode, r))) (figure_runs v)"

fun every_other :: "'a list \<Rightarrow> 'a list" where
  "every_other [] = []"
| "every_other [x] = [x]"
| "every_other (x # y # xs) = x # every_other xs"

text \<open>
  The labels of the size axis come from the variable \<open>result\<close>, that is from the last run drawn, in an
  earlier figure if this one has none; before the first run it is unbound.
\<close>

definition size_axis :: "steps_result option \<Rightarrow> string list res" where
  "size_axis result =
     (case result of
        None \<Rightarrow> Inl (UnboundLocalError ''result'')
      | Some r \<Rightarrow> bindE (size2str (st_size r)) (\<lambda>ls. Inr (every_other (''0'' # ls))))"

definition last_result :: "steps_result option \<Rightarrow> (string \<times> steps_result) list \<Rightarrow> steps_result option" where
  "last_result result cs = (if cs = [] then result else Some (snd (last cs)))"

record fct_figure =
  fig_name :: string
  fig_curves :: "(string \<times> pyfloat list) list"
  fig_labels :: "string list"

definition figure_name :: "string \<Rightarrow> string \<Rightarrow> run_key \<Rightarrow> string" where
  "figure_name fig_dir prefix k =
     (case k of (t, load, fc) \<Rightarrow>
        fig_dir @ ''/'' @ prefix @ ''_TOPO_'' @ t @ ''_LOAD_'' @ load @ ''_FC_'' @ fc @ ''.pdf'')"

definition fct_figure_of ::
  "(string \<Rightarrow> string res) \<Rightarrow> string \<Rightarrow> string \<Rightarrow> int \<Rightarrow> int \<Rightarrow> string \<Rightarrow> (steps_result \<Rightarrow> pyfloat list) \<Rightarrow>
   run_key \<times> (string \<times> string) list \<Rightarrow> steps_result option \<Rightarrow> (fct_figure \<times> steps_result option) res" where
  "fct_figure_of check output_dir fig_dir start stop prefix pick kv result =
     bindE (fct_curves check output_dir start stop (snd kv)) (\<lambda>cs.
     let result = last_result result cs in
     bindE (size_axis result) (\<lambda>labels.
     Inr (\<lparr>fig_name = figure_name fig_dir prefix (fst kv), fig_curves = map (\<lambda>(l, r). (l, pick r)) cs,
           fig_labels = labels\<rparr>, result)))"

fun fct_figures ::
  "(string \<Rightarrow> string res) \<Rightarrow> string \<Rightarrow> string \<Rightarrow> int \<Rightarrow> int \<Rightarrow> run_map \<Rightarrow> steps_result option \<Rightarrow> fct_figure list res" where
  "fct_figures check output_dir fig_dir start stop [] result = Inr []"
| "fct_figures check output_dir fig_dir start stop (kv # m) result =
     bindE (fct_figure_of check output_dir fig_dir start stop ''AVG'' st_avg kv result) (\<lambda>(avg, result).
     bindE (fct_figure_of check output_dir fig_dir start stop ''P99'' st_p99 kv result) (\<lambda>(p99, result).
     bindE (fct_figures check output_dir fig_dir start stop m result) (\<lambda>figs. Inr (avg # p99 # figs))))"

definition plot_fct ::
  "(string \<Rightarrow> string res) \<Rightarrow> store \<Rightarrow> string \<Rightarrow> int \<Rightarrow> int \<Rightarrow> fct_figure list res" where
  "plot_fct check st file_dir start stop =
     bindE (open_read st (file_dir @ ''/../mix/.history'')) (\<lambda>history.
     bindE (fct_history history) (\<lambda>m.
     fct_figures check (file_dir @ ''/../mix/output'') (file_dir @ ''/figures'') start stop m None))"

section \<open>Memory of the reordering queues\<close>

fun cdf_points :: "string list \<Rightarrow> (pyfloat \<times> pyfloat) list res" where
  "cdf_points [] = Inr []"
| "cdf_points (line # lines) =
     (let parsed_line = split_char (CHR '' '') (py_replace nl [] line) in
      bindE (bindE (py_index parsed_line 0) to_float) (\<lambda>x.
      bindE (bindE (py_index parsed_line 3) to_float) (\<lambda>y.
      bindE (cdf_points lines) (\<lambda>ps. Inr ((x, y) # ps)))))"

definition queue_curve :: "store \<Rightarrow> string \<Rightarrow> string \<times> string \<Rightarrow> (string \<times> (pyfloat \<times> pyfloat) list) res" where
  "queue_curve st output_dir vv =
     bindE (open_read st (output_dir @ ''/'' @ fst vv @ ''/'' @ fst vv @ ''_out_voq_cdf.txt'')) (\<lambda>t.
     bindE (cdf_points (py_lines t)) (\<lambda>ps. Inr (snd vv, ps)))"

definition plot_queue :: "store \<Rightarrow> string \<Rightarrow> (string \<times> (string \<times> (pyfloat \<times> pyfloat) list) list) list res" where
  "plot_queue st file_dir =
     bindE (open_read st (file_dir @ ''/../mix/.history'')) (\<lambda>history.
     bindE (queue_history history) (\<lambda>m.
     mapE (\<lambda>(k, v). bindE (mapE (queue_curve st (file_dir @ ''/../mix/output'')) v) (\<lambda>cs.
             Inr (figure_name (file_dir @ ''/figures'') ''CDF_QUEUE'' k, cs))) m))"

section \<open>Imbalance of the uplinks\<close>

text \<open>
  Counters of the ports of every switch, sampled at least \<open>time_interval\<close> apart: the differences of
  consecutive samples of a port, the ports of a switch side by side, and of each sample the spread
  relative to the average. \<open>average\<close> is numpy's; numpy refuses to build an array from rows of
  different lengths.
\<close>

record uplink_state =
  last_ts :: int
  history_data :: "((int \<times> int) \<times> int) list"
  diff_data :: "((int \<times> int) \<times> int list) list"

definition uplink_init :: uplink_state where
  "uplink_init = \<lparr>last_ts = 0, history_data = [], diff_data = []\<rparr>"

definition time_interval :: int where
  "time_interval = 100000"

text \<open>The new \<open>last_ts\<close>, or \<open>None\<close> where the source continues with the next row.\<close>

definition next_ts :: "int \<Rightarrow> int \<Rightarrow> int option" where
  "next_ts prev now =
     (if prev = 0 then Some now
      else if prev + time_interval \<le> now then Some now
      else if prev = now then Some prev
      else None)"

definition record_value :: "int \<times> int \<Rightarrow> int \<Rightarrow> uplink_state \<Rightarrow> uplink_state" where
  "record_value key now_val s =
     (case map_of (history_data s) key of
        None \<Rightarrow> s\<lparr>history_data := dict_set key now_val (history_data s)\<rparr>
      | Some old \<Rightarrow>
          s\<lparr>diff_data := dict_set key
               ((case map_of (diff_data s) key of None \<Rightarrow> [] | Some ds \<Rightarrow> ds) @ [now_val - old]) (diff_data s),
            history_data := dict_set key now_val (history_data s)\<rparr>)"

definition uplink_row :: "int \<Rightarrow> int \<Rightarrow> string \<Rightarrow> uplink_state \<Rightarrow> uplink_state res" where
  "uplink_row start stop line s =
     (let parsed_line = csv line in
      bindE (csv_int parsed_line 0) (\<lambda>now_ts.
      bindE (csv_int parsed_line 1) (\<lambda>now_swid.
      bindE (csv_int parsed_line 2) (\<lambda>now_portid.
      bindE (csv_int parsed_line 3) (\<lambda>now_val.
      if now_ts < start \<or> stop < now_ts then Inr s
      else case next_ts (last_ts s) now_ts of
             None \<Rightarrow> Inr s
           | Some l \<Rightarrow> Inr (record_value (now_swid, now_portid) now_val (s\<lparr>last_ts := l\<rparr>)))))))"

fun uplink_loop :: "int \<Rightarrow> int \<Rightarrow> string list \<Rightarrow> uplink_state \<Rightarrow> uplink_state res" where
  "uplink_loop start stop [] s = Inr s"
| "uplink_loop start stop (line # lines) s = bindE (uplink_row start stop line s) (uplink_loop start stop lines)"

definition switch_diff_data :: "((int \<times> int) \<times> int list) list \<Rightarrow> (int \<times> int list list) list" where
  "switch_diff_data ds =
     foldl (\<lambda>m ((switch_id, port_id), vvv).
        dict_set switch_id ((case map_of m switch_id of None \<Rightarrow> [] | Some vs \<Rightarrow> vs) @ [vvv]) m) [] ds"

definition columns :: "int list list \<Rightarrow> int list list res" where
  "columns vvvv =
     (if \<exists>v \<in> set vvvv. length v \<noteq> length (hd vvvv) then Inl (ValueError ''inhomogeneous shape'')
      else Inr (transpose vvvv))"

fun imbalances :: "(int list \<Rightarrow> pyfloat) \<Rightarrow> int list list \<Rightarrow> pyfloat list res" where
  "imbalances avg [] = Inr []"
| "imbalances avg (vec # v_t) =
     (if feq (avg vec) (Fin 0) then imbalances avg v_t
      else bindE (float_of_int (Max (set vec) - Min (set vec))) (\<lambda>d.
           bindE (fdiv d (avg vec)) (\<lambda>x.
           bindE (imbalances avg v_t) (\<lambda>vals. Inr (fmul x (Fin 100) # vals)))))"

definition uplink_values :: "(int list \<Rightarrow> pyfloat) \<Rightarrow> ((int \<times> int) \<times> int list) list \<Rightarrow> pyfloat list res" where
  "uplink_values avg ds =
     bindE (mapE (\<lambda>(_, vvvv). bindE (columns vvvv) (imbalances avg)) (switch_diff_data ds)) (\<lambda>xs. Inr (concat xs))"

definition uplink_curve ::
  "(int list \<Rightarrow> pyfloat) \<Rightarrow> store \<Rightarrow> string \<Rightarrow> int \<Rightarrow> int \<Rightarrow> string \<times> string \<Rightarrow> (string \<times> (pyfloat \<times> pyfloat) list) res" where
  "uplink_curve avg st output_dir start stop vv =
     bindE (open_read st (output_dir @ ''/'' @ fst vv @ ''/'' @ fst vv @ ''_out_uplink.txt'')) (\<lambda>t.
     bindE (uplink_loop start stop (py_lines t) uplink_init) (\<lambda>s.
     bindE (uplink_values avg (diff_data s)) (\<lambda>ts_data_arr.
     bindE (getCdfFromArray ts_data_arr) (\<lambda>od.
     Inr (snd vv, map (\<lambda>(x, n, acc, y). (x, y)) od)))))"

definition plot_uplink ::
  "(int list \<Rightarrow> pyfloat) \<Rightarrow> store \<Rightarrow> string \<Rightarrow> int \<Rightarrow> int \<Rightarrow>
   (string \<times> (string \<times> (pyfloat \<times> pyfloat) list) list) list res" where
  "plot_uplink avg st file_dir start stop =
     bindE (open_read st (file_dir @ ''/../mix/.history'')) (\<lambda>history.
     bindE (fct_history history) (\<lambda>m.
     mapE (\<lambda>(k, v). bindE (mapE (uplink_curve avg st (file_dir @ ''/../mix/output'') start stop) (figure_runs v)) (\<lambda>cs.
             Inr (figure_name (file_dir @ ''/figures'') ''CDF_UPLINK'' k, cs))) m))"

section \<open>What the uplink loop computes\<close>

text \<open>Rows are printed like those of the queue monitor: time, switch, port, counter.\<close>

fun sampled :: "int \<Rightarrow> int \<Rightarrow> int \<Rightarrow> voq_row list \<Rightarrow> voq_row list" where
  "sampled start stop prev [] = []"
| "sampled start stop prev (r # rows) =
     (if \<not> in_window start stop r then sampled start stop prev rows
      else case next_ts prev (fst r) of
             None \<Rightarrow> sampled start stop prev rows
           | Some l \<Rightarrow> r # sampled start stop l rows)"

definition port_values :: "voq_row list \<Rightarrow> int \<times> int \<Rightarrow> int list" where
  "port_values rows key = map (\<lambda>(t, s, p, v). v) (filter (\<lambda>(t, s, p, v). (s, p) = key) rows)"

fun differences :: "int list \<Rightarrow> int list" where
  "differences (a # b # vs) = (b - a) # differences (b # vs)"
| "differences _ = []"

definition uplink_inv :: "voq_row list \<Rightarrow> uplink_state \<Rightarrow> bool" where
  "uplink_inv rows s \<longleftrightarrow>
     (\<forall>key. let vs = port_values rows key in
        map_of (history_data s) key = (if vs = [] then None else Some (last vs)) \<and>
        map_of (diff_data s) key = (if length vs < 2 then None else Some (differences vs)))"

lemma differences_snoc: "vs \<noteq> [] \<Longrightarrow> differences (vs @ [v]) = differences vs @ [v - last vs]"
  by (induction vs rule: differences.induct) auto

lemma port_values_snoc:
  "port_values (rows @ [(t, s, p, v)]) key = port_values rows key @ (if (s, p) = key then [v] else [])"
  by (simp add: port_values_def)

lemma record_value_inv:
  assumes "uplink_inv rows s" shows "uplink_inv (rows @ [(t, sw, p, v)]) (record_value (sw, p) v s)"
proof -
  let ?vs = "port_values rows (sw, p)"
  have h: "map_of (history_data s) (sw, p) = (if ?vs = [] then None else Some (last ?vs))"
    and d: "map_of (diff_data s) (sw, p) = (if length ?vs < 2 then None else Some (differences ?vs))"
    using assms by (simp_all add: uplink_inv_def Let_def)
  have short: "differences ?vs = []" if "length ?vs < 2"
    using that by (cases ?vs rule: differences.cases) auto
  have len: "?vs \<noteq> [] \<Longrightarrow> \<not> length ?vs + 1 < 2" by (cases ?vs) auto
  show ?thesis
    using assms h d short len differences_snoc[of ?vs v]
    unfolding uplink_inv_def Let_def port_values_snoc record_value_def
    by (cases "?vs = []") (auto simp: map_of_dict_set split: if_splits)
qed

lemma last_ts_record [simp]: "last_ts (record_value k v s) = last_ts s"
  by (simp add: record_value_def split: option.splits)

lemma uplink_inv_last_ts [simp]: "uplink_inv rows (s\<lparr>last_ts := l\<rparr>) = uplink_inv rows s"
  by (simp add: uplink_inv_def)

lemma uplink_row_voq:
  "uplink_row start stop (voq_line (t, sw, p, v)) s =
     Inr (if \<not> in_window start stop (t, sw, p, v) then s
          else case next_ts (last_ts s) t of None \<Rightarrow> s | Some l \<Rightarrow> record_value (sw, p) v (s\<lparr>last_ts := l\<rparr>))"
  by (auto simp: uplink_row_def csv_voq_line in_window_def split: option.splits)

lemma uplink_loop_inv:
  "uplink_inv pre s \<Longrightarrow> \<exists>s'. uplink_loop start stop (map voq_line rows) s = Inr s' \<and>
     uplink_inv (pre @ sampled start stop (last_ts s) rows) s'"
proof (induction rows arbitrary: pre s)
  case (Cons r rows)
  obtain t sw p v where r: "r = (t, sw, p, v)" by (cases r)
  show ?case
  proof (cases "in_window start stop r")
    case False
    then show ?thesis using Cons r by (simp add: uplink_row_voq)
  next
    case True
    show ?thesis
    proof (cases "next_ts (last_ts s) t")
      case None
      then show ?thesis using Cons True r by (simp add: uplink_row_voq)
    next
      case (Some l)
      have "uplink_inv (pre @ [r]) (record_value (sw, p) v (s\<lparr>last_ts := l\<rparr>))"
        unfolding r by (rule record_value_inv) (simp add: Cons.prems)
      from Cons.IH[OF this] show ?thesis using True Some r by (simp add: uplink_row_voq)
    qed
  qed
qed simp

lemma sampled_gaps:
  assumes "0 < start"
  shows "successively (\<lambda>a b. fst a = fst b \<or> fst a + time_interval \<le> fst b) (sampled start stop l rows) \<and>
    (l \<noteq> 0 \<longrightarrow> (case sampled start stop l rows of [] \<Rightarrow> True | r # _ \<Rightarrow> fst r = l \<or> l + time_interval \<le> fst r))"
proof (induction rows arbitrary: l)
  case (Cons r rows)
  show ?case
  proof (cases "in_window start stop r")
    case False
    then show ?thesis using Cons by simp
  next
    case True
    show ?thesis
    proof (cases "next_ts l (fst r)")
      case None
      then show ?thesis using Cons True by simp
    next
      case (Some m)
      then have m: "m = fst r" "l \<noteq> 0 \<Longrightarrow> fst r = l \<or> l + time_interval \<le> fst r"
        by (auto simp: next_ts_def split: if_splits)
      have IH: "successively (\<lambda>a b. fst a = fst b \<or> fst a + time_interval \<le> fst b) (sampled start stop m rows)"
        "m \<noteq> 0 \<longrightarrow> (case sampled start stop m rows of [] \<Rightarrow> True | r # _ \<Rightarrow> fst r = m \<or> m + time_interval \<le> fst r)"
        using Cons.IH[of m] by blast+
      have "m \<noteq> 0" using assms m(1) True by (simp add: in_window_def)
      then have "successively (\<lambda>a b. fst a = fst b \<or> fst a + time_interval \<le> fst b) (r # sampled start stop m rows)"
        using IH m(1) by (cases "sampled start stop m rows") auto
      then show ?thesis using True Some m by simp
    qed
  qed
qed simp

text \<open>
  The invariant of the uplink loop, at its end: over the rows it samples, the history holds the
  last counter of every port and the differences are those of consecutive counters of the port; and
  the sampled times are equal or at least the interval apart, in whatever order the rows come.
\<close>

theorem uplink_loop_sampled:
  assumes "0 < start"
  shows "\<exists>s. uplink_loop start stop (map voq_line rows) uplink_init = Inr s \<and>
    uplink_inv (sampled start stop 0 rows) s \<and>
    successively (\<lambda>a b. fst a = fst b \<or> fst a + time_interval \<le> fst b) (sampled start stop 0 rows)"
proof -
  have "uplink_inv [] uplink_init" by (simp add: uplink_inv_def uplink_init_def port_values_def)
  from uplink_loop_inv[OF this] show ?thesis
    using sampled_gaps[OF assms, of stop 0 rows] by (auto simp: uplink_init_def)
qed

theorem uplink_loop_sampled_witness:
  "\<exists>s. uplink_loop 10 900000 (map voq_line [(10, 1, 2, 5), (20, 1, 2, 6), (100010, 1, 2, 9), (100010, 1, 3, 4)])
      uplink_init = Inr s \<and> map_of (diff_data s) (1, 2) = Some [4] \<and> map_of (diff_data s) (1, 3) = None"
proof -
  let ?rows = "[(10, 1, 2, 5), (20, 1, 2, 6), (100010, 1, 2, 9), (100010, 1, 3, 4)] :: voq_row list"
  obtain s where s: "uplink_loop 10 900000 (map voq_line ?rows) uplink_init = Inr s" "uplink_inv (sampled 10 900000 0 ?rows) s"
    using uplink_loop_sampled[of 10 900000 ?rows] by auto
  have rows: "sampled 10 900000 0 ?rows = [(10, 1, 2, 5), (100010, 1, 2, 9), (100010, 1, 3, 4)]"
    by (simp add: in_window_def next_ts_def time_interval_def)
  have "map_of (diff_data s) (1, 2) = Some [4] \<and> map_of (diff_data s) (1, 3) = None"
    using s(2) by (simp only: rows uplink_inv_def Let_def) (simp add: port_values_def)
  then show ?thesis using s(1) by blast
qed

section \<open>The history that run.py writes\<close>

lemma split_char_fields:
  "\<forall>w \<in> set ws. CHR '','' \<notin> set w \<and> CHR 0x0A \<notin> set w \<Longrightarrow> ws \<noteq> [] \<Longrightarrow> csv (py_join '','' ws @ nl) = ws"
proof -
  assume a: "\<forall>w \<in> set ws. CHR '','' \<notin> set w \<and> CHR 0x0A \<notin> set w" "ws \<noteq> []"
  have "CHR 0x0A \<notin> set (py_join '','' ws)"
    using a(1) by (induction "'',''" ws rule: py_join.induct) auto
  then show ?thesis using a py_replace_nl[of "py_join '','' ws"] split_char_join[of ws "CHR '',''"]
    by (simp add: csv_def)
qed

definition plain_text :: "string \<Rightarrow> bool" where
  "plain_text s \<longleftrightarrow> CHR '','' \<notin> set s \<and> CHR 0x0A \<notin> set s"

text \<open>
  C24. What the plot scripts find of a run that \<open>run.py\<close> recorded.  If its history line contains neither
  of the two topologies that the scripts know, the line is skipped.  If it contains one of them, the
  line is read as one more run of its topology, load and flow control, provided that exactly one of PFC
  and IRN is on (it is skipped otherwise); but the line of an \<open>sflowlet\<close> run, which \<open>run.py\<close> accepts,
  stops the scripts with a \<open>KeyError\<close>.
\<close>

theorem history_roundtrip:
  assumes "list_all plain_text [day, config_ID, topo (core args), cdf_name (core args), simul_time (core args)]"
    and "ck_cc_mode k \<in> {1, 3, 7, 8}"
    and "length (filter (\<lambda>t. has_infix t (history_line args k cwh day config_ID)) plot_topologies) \<le> 1"
  shows "history_topos (\<lambda>_. True) (history_line args k cwh day config_ID) plot_topologies m =
    (if \<forall>t \<in> set plot_topologies. \<not> has_infix t (history_line args k cwh day config_ID) then Inr m
     else case plot_lb_modes (ck_lb_mode k) of
       None \<Rightarrow> Inl (KeyError (show_int (ck_lb_mode k)))
     | Some l \<Rightarrow>
         (case flow_control (pfc (core args)) (irn (core args)) of
            None \<Rightarrow> Inr m
          | Some fc \<Rightarrow> Inr (add_run (topo (core args), show_int (netload (core args)), fc) (config_ID, l) m)))"
proof -
  let ?line = "history_line args k cwh day config_ID"
  have topos: "history_topos keep line ts m = (case filter (\<lambda>t. has_infix t line) ts of [] \<Rightarrow> Inr m
      | [t] \<Rightarrow> history_entry keep line m | _ \<Rightarrow> history_topos keep line ts m)" for keep line ts m
  proof (induction ts)
    case (Cons t ts)
    have "history_topos keep line ts m' = Inr m'" if "filter (\<lambda>t. has_infix t line) ts = []" for m'
      using that by (induction ts) (auto split: if_splits)
    then show ?case using Cons by (auto simp: bindE_def split: list.splits sum.splits)
  qed simp
  let ?ws = "[day, config_ID, show_int (ck_cc_mode k), show_int (ck_lb_mode k),
        show_int (cwh_tx_expiry_time cwh), show_int (cwh_extra_reply_deadline cwh),
        show_int (cwh_path_pause_time cwh), show_int (cwh_extra_voq_flush_time cwh),
        show_int (cwh_default_voq_waiting_time cwh), show_int (pfc (core args)), show_int (irn (core args)),
        show_int (fst (window_flags (ck_cc_mode k) (enforce_win (core args)))),
        show_int (snd (window_flags (ck_cc_mode k) (enforce_win (core args)))),
        topo (core args), show_int (ck_bw k), cdf_name (core args), show_int (netload (core args)),
        simul_time (core args)]"
  have csv: "csv ?line = ?ws"
    unfolding history_line_def using assms(1) by (intro split_char_fields) (auto simp: plain_text_def)
  obtain c where c: "plot_cc_modes (ck_cc_mode k) = Some c" using assms(2) by (auto simp: plot_cc_modes_def)
  have entry: "history_entry (\<lambda>_. True) ?line m =
      (case plot_lb_modes (ck_lb_mode k) of
         None \<Rightarrow> Inl (KeyError (show_int (ck_lb_mode k)))
       | Some l \<Rightarrow>
           (case flow_control (pfc (core args)) (irn (core args)) of
              None \<Rightarrow> Inr m
            | Some fc \<Rightarrow> Inr (add_run (topo (core args), show_int (netload (core args)), fc) (config_ID, l) m)))"
    using c by (auto simp: history_entry_def csv Let_def py_index_def csv_int_def lookup_mode_def split: option.splits)
  show ?thesis
  proof (cases "\<forall>t \<in> set plot_topologies. \<not> has_infix t ?line")
    case True
    then have "filter (\<lambda>t. has_infix t ?line) plot_topologies = []" by (simp add: filter_empty_conv)
    then show ?thesis using topos[of "\<lambda>_. True" ?line plot_topologies m] True by simp
  next
    case False
    then have "filter (\<lambda>t. has_infix t ?line) plot_topologies \<noteq> []" by (auto simp: filter_empty_conv)
    then obtain t where "filter (\<lambda>t. has_infix t ?line) plot_topologies = [t]"
      using assms(3) by (cases "filter (\<lambda>t. has_infix t ?line) plot_topologies") auto
    then show ?thesis using topos[of "\<lambda>_. True" ?line plot_topologies m] entry unfolding if_not_P[OF False] by simp
  qed
qed

theorem history_roundtrip_witness:
  "history_topos (\<lambda>_. True) (history_line (default_args\<lparr>core := core_defaults\<lparr>topo := ''leaf_spine_128_100G_OS2''\<rparr>\<rparr>)
      online_checked (in_cwh example_inputs) ''01/02/26'' ''7'') plot_topologies []
   = Inr [((''leaf_spine_128_100G_OS2'', ''40'', ''Lossless''), [(''7'', ''letflow'')])] \<and>
   history_topos (\<lambda>_. True) (history_line online_args online_checked (in_cwh example_inputs) ''01/02/26'' ''7'')
     plot_topologies [] = Inr []"
proof
  let ?args = "default_args\<lparr>core := core_defaults\<lparr>topo := ''leaf_spine_128_100G_OS2''\<rparr>\<rparr>"
  have plain: "list_all plain_text [''01/02/26'', ''7'', topo (core ?args), cdf_name (core ?args), simul_time (core ?args)]"
    "list_all plain_text [''01/02/26'', ''7'', topo (core online_args), cdf_name (core online_args), simul_time (core online_args)]"
    by (simp_all add: plain_text_def core_defaults_def online_args_def)
  have topos: "filter (\<lambda>t. has_infix t (history_line ?args online_checked (in_cwh example_inputs) ''01/02/26'' ''7''))
      plot_topologies = [topo (core ?args)]"
    "filter (\<lambda>t. has_infix t (history_line online_args online_checked (in_cwh example_inputs) ''01/02/26'' ''7''))
      plot_topologies = []" by code_simp+
  then have some: "\<not> (\<forall>t \<in> set plot_topologies. \<not> has_infix t (history_line ?args online_checked (in_cwh example_inputs) ''01/02/26'' ''7''))"
    and none: "\<forall>t \<in> set plot_topologies. \<not> has_infix t (history_line online_args online_checked (in_cwh example_inputs) ''01/02/26'' ''7'')"
    by (metis filter_False list.distinct(1), simp add: filter_empty_conv)
  have k: "ck_cc_mode online_checked \<in> {1, 3, 7, 8}" "plot_lb_modes (ck_lb_mode online_checked) = Some ''letflow''"
    "flow_control (pfc (core ?args)) (irn (core ?args)) = Some ''Lossless''" "show_int (netload (core ?args)) = ''40''"
    "topo (core ?args) = ''leaf_spine_128_100G_OS2''" by code_simp+
  have len: "length (filter (\<lambda>t. has_infix t (history_line ?args online_checked (in_cwh example_inputs) ''01/02/26'' ''7''))
      plot_topologies) \<le> 1"
    "length (filter (\<lambda>t. has_infix t (history_line online_args online_checked (in_cwh example_inputs) ''01/02/26'' ''7''))
      plot_topologies) \<le> 1" unfolding topos by simp_all
  show "history_topos (\<lambda>_. True) (history_line ?args online_checked (in_cwh example_inputs) ''01/02/26'' ''7'') plot_topologies []
      = Inr [((''leaf_spine_128_100G_OS2'', ''40'', ''Lossless''), [(''7'', ''letflow'')])]"
    unfolding history_roundtrip[OF plain(1) k(1) len(1)] if_not_P[OF some] using k by (simp only: option.case add_run.simps)
  show "history_topos (\<lambda>_. True) (history_line online_args online_checked (in_cwh example_inputs) ''01/02/26'' ''7'')
      plot_topologies [] = Inr []"
    unfolding history_roundtrip[OF plain(2) k(1) len(2)] using none by simp
qed

end
