(* ===== verification/RadUtil.thy ===== *)
theory RadUtil
  imports PyFloat "HOL-Library.AList" "HOL-Library.Multiset"
begin

text \<open>
  The utility functions of \<open>bindings/python/rad_util.py\<close> (Python 2: the division of integers is
  the floor division).  Binary strings, common factors, permutations, sequences and argument lists
  are modelled; each function is shown against the mathematical notion it is named after, and the
  examples of its documentation string are checked.  Dictionaries are association lists whose
  order is the (arbitrary) iteration order.  Not here: \<open>timestamp\<close> and \<open>getmodule\<close> (clock and
  module table of the interpreter), \<open>nice_units\<close> (float formatting with \<open>eval\<close>) and \<open>pt2str\<close>.
\<close>

section \<open>Slices with an open end\<close>

definition py_upto :: "'a list \<Rightarrow> int \<Rightarrow> 'a list" where
  "py_upto xs j = take (slice_bound (length xs) j) xs"

definition py_from :: "'a list \<Rightarrow> int \<Rightarrow> 'a list" where
  "py_from xs i = drop (slice_bound (length xs) i) xs"

lemma py_upto_neg: "0 < n \<Longrightarrow> py_upto xs (- int n) = take (length xs - n) xs"
  by (auto simp: py_upto_def slice_bound_def nat_minus_as_int)

lemma py_from_neg: "0 < n \<Longrightarrow> py_from xs (- int n) = drop (length xs - n) xs"
  by (auto simp: py_from_def slice_bound_def nat_minus_as_int)

lemma py_upto_from: "py_upto xs i @ py_from xs i = xs"
  by (simp add: py_upto_def py_from_def)

section \<open>Binary strings\<close>

definition hex_char :: "nat \<Rightarrow> char" where
  "hex_char d = (if d < 10 then digit_char d else char_of (87 + d))"

fun hex_nat :: "nat \<Rightarrow> string" where
  "hex_nat n = (if n < 16 then [hex_char n] else hex_nat (n div 16) @ [hex_char (n mod 16)])"

declare hex_nat.simps [simp del]

definition py_hex :: "int \<Rightarrow> string" where
  "py_hex i = (if i < 0 then ''-0x'' @ hex_nat (nat (- i)) else ''0x'' @ hex_nat (nat i))"

definition hex2bin :: "(char \<times> string) list" where
  "hex2bin =
     [(CHR ''0'', ''0000''), (CHR ''1'', ''0001''), (CHR ''2'', ''0010''), (CHR ''3'', ''0011''),
      (CHR ''4'', ''0100''), (CHR ''5'', ''0101''), (CHR ''6'', ''0110''), (CHR ''7'', ''0111''),
      (CHR ''8'', ''1000''), (CHR ''9'', ''1001''), (CHR ''a'', ''1010''), (CHR ''b'', ''1011''),
      (CHR ''c'', ''1100''), (CHR ''d'', ''1101''), (CHR ''e'', ''1110''), (CHR ''f'', ''1111'')]"

definition int2bin :: "int \<Rightarrow> int \<Rightarrow> string res" where
  "int2bin i n =
     bindE (mapE (\<lambda>x. of_option (KeyError [x]) (map_of hex2bin x)) (drop 2 (py_hex i))) (\<lambda>parts.
       let bits = concat parts in
       if CHR ''1'' \<in> set (py_upto bits (- n))
       then Inl (ValueError ''Value too large for given number of bits.'')
       else let low = py_from bits (- n)
            in Inr (replicate (nat (n - int (length low))) (CHR ''0'') @ low))"

definition bit_val :: "char \<Rightarrow> nat option" where
  "bit_val c = (if c = CHR ''0'' then Some 0 else if c = CHR ''1'' then Some 1 else None)"

fun parse_bits :: "nat \<Rightarrow> string \<Rightarrow> nat option" where
  "parse_bits acc [] = Some acc"
| "parse_bits acc (c # cs) =
     (case bit_val c of None \<Rightarrow> None | Some b \<Rightarrow> parse_bits (2 * acc + b) cs)"

definition binary_literal :: "string \<Rightarrow> string" where
  "binary_literal s = (if has_prefix ''0b'' s \<or> has_prefix ''0B'' s then drop 2 s else s)"

definition bin2int :: "string \<Rightarrow> int res" where
  "bin2int bin_string =
     (let s = py_strip bin_string;
          neg = has_prefix ''-'' s;
          ds = binary_literal (if neg \<or> has_prefix ''+'' s then tl s else s)
      in if ds = [] then Inl (ValueError ''invalid literal for int() with base 2'')
         else case parse_bits 0 ds of
             None \<Rightarrow> Inl (ValueError ''invalid literal for int() with base 2'')
           | Some v \<Rightarrow> Inr (if neg then - int v else int v))"

definition reverse :: "string \<Rightarrow> string" where
  "reverse input_string = rev input_string"

definition lsb :: "int \<Rightarrow> nat \<Rightarrow> int" where
  "lsb x n = and x (2 ^ n - 1)"

definition gray_encode :: "int \<Rightarrow> int" where
  "gray_encode i = xor i (i div 2)"

text \<open>
  One run of the carry loop of \<open>binary_range\<close>: \<open>v\<close> holds the least significant digit first; the
  result is the new digits and the carry out of the last position, the entry \<open>toggle[bits]\<close>.
\<close>

fun toggle_bits :: "string \<Rightarrow> string \<times> bool" where
  "toggle_bits [] = ([], True)"
| "toggle_bits (c # v) =
     (if c = CHR ''0'' then (CHR ''1'' # v, False)
      else let (v', carry) = toggle_bits v in (CHR ''0'' # v', carry))"

primrec bits_of :: "nat \<Rightarrow> nat \<Rightarrow> string" where
  "bits_of 0 k = []"
| "bits_of (Suc n) k = (if even k then CHR ''0'' else CHR ''1'') # bits_of n (k div 2)"

lemma length_bits_of [simp]: "length (bits_of n k) = n"
  by (induction n arbitrary: k) auto

lemma toggle_bits_of:
  "toggle_bits (bits_of n k) = (bits_of n (Suc k), Suc k mod 2 ^ n = 0)"
proof (induction n arbitrary: k)
  case (Suc n)
  show ?case
  proof (cases "even k")
    case True
    then have "odd (Suc k mod 2 ^ Suc n)" by (simp add: dvd_mod_iff)
    then have "Suc k mod 2 ^ Suc n \<noteq> 0" by (metis dvd_0_right)
    with True show ?thesis by simp
  next
    case False
    then obtain m where m: "k = 2 * m + 1" by (rule oddE)
    then have "Suc k mod 2 ^ Suc n = 2 * (Suc m mod 2 ^ n)" and "k div 2 = m"
      using mult_mod_right [of 2 "Suc m" "2 ^ n"] by simp_all
    with False Suc.IH [of m] show ?thesis by (simp add: Let_def)
  qed
qed simp

section \<open>Common factors\<close>

function gcf_loop :: "int \<Rightarrow> int \<Rightarrow> int" where
  "gcf_loop r remainder = (if remainder = 0 then \<bar>r\<bar> else gcf_loop remainder (r mod remainder))"
  by pat_completeness auto
termination
  by (relation "measure (\<lambda>(_, b). nat \<bar>b\<bar>)") (auto simp: abs_mod_less)

declare gcf_loop.simps [simp del]

definition gcf :: "int \<Rightarrow> int \<Rightarrow> int" where
  "gcf a b = gcf_loop (max a b) (min a b)"

definition lcm_of :: "int \<Rightarrow> int \<Rightarrow> int" where
  "lcm_of a b = (let denom = gcf a b in if denom = 0 then 0 else a * (b div denom))"

definition reduce_fraction :: "int \<times> int \<Rightarrow> (int \<times> int) res" where
  "reduce_fraction fraction =
     (case fraction of (numerator, denominator) \<Rightarrow>
        let common_factor = \<bar>gcf numerator denominator\<bar> in
        if common_factor = 0 then Inl ZeroDivisionError
        else Inr (numerator div common_factor, denominator div common_factor))"

lemma gcf_loop_gcd: "gcf_loop a b = gcd a b"
  by (induction a b rule: gcf_loop.induct)
     (subst gcf_loop.simps, auto simp: gcd_red_int [symmetric] gcd.commute)

lemma gcf_gcd: "gcf a b = gcd a b"
  by (auto simp: gcf_def gcf_loop_gcd max_def min_def gcd.commute)

lemma lcm_of_lcm: "\<bar>lcm_of a b\<bar> = lcm a b"
proof (cases "gcd a b = 0")
  case False
  have "lcm_of a b * gcd a b = a * b"
    using False by (simp add: lcm_of_def gcf_gcd Let_def mult.assoc)
  then have "\<bar>lcm_of a b\<bar> * gcd a b = lcm a b * gcd a b"
    by (metis abs_gcd_int abs_mult lcm_mult_gcd normalize_int_def)
  with False show ?thesis by (metis mult_right_cancel)
qed (simp add: lcm_of_def gcf_gcd)

lemma reduce_fraction_result:
  assumes "(a, b) \<noteq> (0, 0)"
  shows "\<exists>p q. reduce_fraction (a, b) = Inr (p, q) \<and> coprime p q \<and> p * b = q * a"
proof -
  have g: "gcd a b \<noteq> 0" using assms by auto
  have "coprime (a div gcd a b) (b div gcd a b)" using g by (simp add: div_gcd_coprime)
  moreover have "(a div gcd a b) * b = (b div gcd a b) * a"
    by (simp add: div_mult_swap mult.commute dvd_div_mult)
  ultimately show ?thesis using g by (auto simp: reduce_fraction_def gcf_gcd Let_def)
qed

section \<open>Sequences\<close>

definition transpose_rows :: "'a list list \<Rightarrow> 'a list list" where
  "transpose_rows matrix =
     (if matrix = [] then []
      else map (\<lambda>j. map (\<lambda>row. row ! j) matrix) [0 ..< Min (set (map length matrix))])"

fun insert_at :: "nat \<Rightarrow> 'a \<Rightarrow> 'a list \<Rightarrow> 'a list" where
  "insert_at i item l = take i l @ item # drop i l"

fun permutations :: "'a list \<Rightarrow> 'a list list" where
  "permutations (item # rest) =
     (if rest = [] then [[item]]
      else concat (map (\<lambda>sub_list. map (\<lambda>i. insert_at i item sub_list)
             [0 ..< Suc (length rest)]) (permutations rest)))"
| "permutations [] = [[]]"

fun keep_first :: "'a list \<Rightarrow> 'a list \<Rightarrow> 'a list" where
  "keep_first seen [] = []"
| "keep_first seen (x # xs) =
     (if x \<in> set seen then keep_first seen xs else x # keep_first (seen @ [x]) xs)"

text \<open>
  \<open>keys\<close> is the order in which the dictionary built from the sequence lists its keys; a sequence
  with an item that cannot be hashed takes the slow path, whatever \<open>preserve_order\<close> says.
\<close>

definition uniquify :: "('a list \<Rightarrow> 'a list) \<Rightarrow> ('a \<Rightarrow> bool) \<Rightarrow> 'a list \<Rightarrow> bool \<Rightarrow> 'a list" where
  "uniquify keys hashable seq preserve_order =
     (if list_all hashable seq
      then if preserve_order then keep_first [] seq else keys (keep_first [] seq)
      else keep_first [] seq)"

definition reverse_dict :: "('k \<times> 'v) list \<Rightarrow> ('v \<times> 'k) list" where
  "reverse_dict d = foldl (\<lambda>result (key, value). AList.update value key result) [] d"

definition common_prefix :: "string \<Rightarrow> string \<Rightarrow> string" where
  "common_prefix s1 s2 =
     map (\<lambda>i. s1 ! i) (takeWhile (\<lambda>i. s1 ! i = s2 ! i) [0 ..< min (length s1) (length s2)])"

definition common_suffix :: "string \<Rightarrow> string \<Rightarrow> string" where
  "common_suffix s1 s2 =
     rev (map (\<lambda>i. s1 ! (length s1 - i))
       (takeWhile (\<lambda>i. s1 ! (length s1 - i) = s2 ! (length s2 - i))
         [1 ..< min (length s1) (length s2) + 1]))"

definition find_common_fixes :: "string \<Rightarrow> string \<Rightarrow> string \<times> string" where
  "find_common_fixes s1 s2 = (common_prefix s1 s2, common_suffix s1 s2)"

definition is_rotated :: "'a list \<Rightarrow> 'a list \<Rightarrow> bool res" where
  "is_rotated seq1 seq2 =
     (if length seq1 \<noteq> length seq2 then Inr False
      else bindE (py_index seq2 0) (\<lambda>head_item.
        let start_indexes = filter (\<lambda>i. seq1 ! i = head_item) [0 ..< length seq1];
            double_seq1 = seq1 @ seq1
        in Inr (list_ex (\<lambda>i. take (length seq1) (drop i double_seq1) = seq2) start_indexes)))"

lemma set_permutations: "set (permutations xs) = {ys. mset ys = mset xs}"
proof (induction xs)
  case (Cons x xs)
  show ?case
  proof (cases "xs = []")
    case False
    have "mset ys = mset (x # xs) \<longleftrightarrow>
      (\<exists>zs i. mset zs = mset xs \<and> i < Suc (length xs) \<and> ys = insert_at i x zs)" for ys
    proof
      assume ys: "mset ys = mset (x # xs)"
      then have "x \<in> set ys" by (metis list.set_intros(1) mset_eq_setD)
      then obtain us vs where us: "ys = us @ x # vs" by (meson split_list)
      with ys have "mset (us @ vs) = mset xs" by simp
      moreover from this have "length us < Suc (length xs)"
        by (metis le_add1 length_append less_Suc_eq_le mset_eq_length)
      moreover have "ys = insert_at (length us) x (us @ vs)" using us by simp
      ultimately show "\<exists>zs i. mset zs = mset xs \<and> i < Suc (length xs) \<and> ys = insert_at i x zs"
        by blast
    next
      assume "\<exists>zs i. mset zs = mset xs \<and> i < Suc (length xs) \<and> ys = insert_at i x zs"
      then obtain zs i where zs: "mset zs = mset xs" "ys = insert_at i x zs" by blast
      have "mset (take i zs) + mset (drop i zs) = mset zs"
        by (metis append_take_drop_id mset_append)
      with zs show "mset ys = mset (x # xs)" by simp
    qed
    with False Cons.IH show ?thesis by (auto simp del: insert_at.simps upt_Suc) blast
  qed (auto simp: mset_single_iff)
qed simp

lemma length_permutations: "length (permutations xs) = fact (length xs)"
proof (induction xs rule: permutations.induct)
  case (1 x xs)
  have "sum_list (map (\<lambda>s. Suc (length xs)) ps) = Suc (length xs) * length ps" for ps :: "'a list list"
    by (induction ps) auto
  with 1 show ?case by (auto simp: length_concat comp_def simp del: upt_Suc)
qed simp

lemma keep_first_spec:
  "distinct (keep_first seen xs) \<and> set (keep_first seen xs) = set xs - set seen"
  by (induction seen xs rule: keep_first.induct) auto

lemma is_rotated_iff:
  assumes "ys \<noteq> []"
  shows "is_rotated xs ys = Inr (\<exists>n. rotate n xs = ys)"
proof (cases "length xs = length ys")
  case False
  then show ?thesis by (auto simp: is_rotated_def)
next
  case True
  with assms have ne: "xs \<noteq> []" by auto
  have rot: "take (length xs) (drop i (xs @ xs)) = rotate i xs" if i: "i < length xs" for i
    using i by (simp add: rotate_drop_take)
  have hd_ys: "py_index ys 0 = Inr (hd ys)"
    using assms by (simp add: py_index_def hd_conv_nth)
  have "(\<exists>i \<in> {0 ..< length xs}. xs ! i = hd ys \<and> rotate i xs = ys) \<longleftrightarrow> (\<exists>n. rotate n xs = ys)"
  proof
    assume "\<exists>n. rotate n xs = ys"
    then obtain n where n: "rotate n xs = ys" by blast
    let ?i = "n mod length xs"
    have "rotate ?i xs = ys" using n by (simp add: rotate_conv_mod [symmetric])
    moreover have "hd (rotate ?i xs) = xs ! ?i" using ne by (simp add: hd_rotate_conv_nth)
    moreover have "?i < length xs" using ne by simp
    ultimately show "\<exists>i \<in> {0 ..< length xs}. xs ! i = hd ys \<and> rotate i xs = ys"
      using atLeast0LessThan by (metis lessThan_iff)
  qed blast
  moreover have "list_ex (\<lambda>i. take (length xs) (drop i (xs @ xs)) = ys)
      (filter (\<lambda>i. xs ! i = hd ys) [0 ..< length xs]) \<longleftrightarrow>
    (\<exists>i \<in> {0 ..< length xs}. xs ! i = hd ys \<and> rotate i xs = ys)"
    using rot by (auto simp: list_ex_iff simp del: drop_append take_append)
  ultimately show ?thesis using True by (simp add: is_rotated_def hd_ys Let_def)
qed

lemma is_rotated_empty: "is_rotated [] [] = Inl IndexError"
  by (simp add: is_rotated_def)

section \<open>The documented examples\<close>

lemma binary_examples:
  "int2bin 0 8 = Inr ''00000000''" "int2bin 123 8 = Inr ''01111011''"
  "int2bin 15 2 = Inl (ValueError ''Value too large for given number of bits.'')"
  "bin2int ''1111'' = Inr 15" "bin2int ''0101'' = Inr 5" "reverse ''abc'' = ''cba''" "lsb 13 3 = 5"
  by code_simp+

lemma factor_examples:
  "gcf 12 34 = 2" "gcf (- 2) 4 = 2" "gcf 5 0 = 5" "gcf 0 0 = 0" "lcm_of 21 6 = 42" "lcm_of 0 0 = 0"
  "reduce_fraction (14, 7) = Inr (2, 1)" "reduce_fraction (- 2, 4) = Inr (- 1, 2)"
  "reduce_fraction (0, 4) = Inr (0, 1)" "reduce_fraction (4, 0) = Inr (1, 0)"
  "reduce_fraction (0, 0) = Inl ZeroDivisionError"
  by code_simp+

lemma sequence_examples:
  "transpose_rows [[1 :: nat, 2, 3], [4, 5, 6]] = [[1, 4], [2, 5], [3, 6]]"
  "keep_first [] [''a'', ''aa'', ''b'', ''b'', ''ccc'', ''ccc'', ''d''] = [''a'', ''aa'', ''b'', ''ccc'', ''d'']"
  "reverse_dict [(''a'', 1 :: nat), (''b'', 2)] = [(1, ''a''), (2, ''b'')]"
  "find_common_fixes ''abc'' ''def'' = ([], [])"
  "find_common_fixes ''abcelephantdef'' ''abccowdef'' = (''abc'', ''def'')"
  "find_common_fixes ''aa'' ''aaa'' = (''aa'', ''aa'')"
  "is_rotated ''ABCD'' ''CDAB'' = Inr True" "is_rotated ''ABCA'' ''AACB'' = Inr False"
  by code_simp+

end
