(* ===== verification/RadNum.thy ===== *)
theory RadNum
  imports RadUtil Stats
begin

text \<open>
  The functions of \<open>bindings/python/rad_util.py\<close> that compute with floats or return in special
  ways: ranges of binary numbers and of floats, polygons, quantiles, grids, random vectors and
  argument lists; and that \<open>int2bin\<close> and \<open>bin2int\<close> convert what they should.
\<close>

section \<open>Binary numbers\<close>

partial_function (option) binary_loop :: "string \<Rightarrow> string list \<Rightarrow> string list option" where
  "binary_loop v l =
     (case toggle_bits v of (v', carry) \<Rightarrow>
        if carry then Some (l @ [rev v]) else binary_loop v' (l @ [rev v]))"

declare binary_loop.simps [code]

definition binary_range :: "nat \<Rightarrow> string list option" where
  "binary_range bits = (if bits = 0 then Some [] else binary_loop (replicate bits (CHR ''0'')) [])"

lemma bits_of_0: "bits_of n 0 = replicate n (CHR ''0'')"
  by (induction n) auto

lemma binary_loop_result:
  "k < 2 ^ n \<Longrightarrow> binary_loop (bits_of n k) l = Some (l @ map (\<lambda>i. rev (bits_of n i)) [k ..< 2 ^ n])"
proof (induction "2 ^ n - k" arbitrary: k l rule: less_induct)
  case less
  have t: "toggle_bits (bits_of n k) = (bits_of n (Suc k), Suc k = 2 ^ n)"
  proof (cases "Suc k = 2 ^ n")
    case True
    then show ?thesis by (simp only: toggle_bits_of mod_self simp_thms)
  next
    case False
    then have "Suc k < 2 ^ n" using less.prems by simp
    then have "Suc k mod 2 ^ n = Suc k" by (rule mod_less)
    with False show ?thesis by (simp only: toggle_bits_of nat.simps)
  qed
  show ?case
  proof (cases "Suc k = 2 ^ n")
    case True
    then have "[k ..< 2 ^ n] = [k]" using less.prems by (simp add: upt_conv_Cons)
    then show ?thesis using True by (subst binary_loop.simps) (simp add: t)
  next
    case False
    then have "Suc k < 2 ^ n" using less.prems by simp
    moreover from this have "[k ..< 2 ^ n] = k # [Suc k ..< 2 ^ n]" by (simp add: upt_conv_Cons)
    ultimately show ?thesis
      using False less.hyps [of "Suc k"] less.prems by (subst binary_loop.simps) (simp add: t)
  qed
qed

text \<open>All numbers of the width in order; the empty list, not the empty number, for width 0.\<close>

lemma binary_range_result:
  "binary_range n = Some (if n = 0 then [] else map (\<lambda>i. rev (bits_of n i)) [0 ..< 2 ^ n])"
  using binary_loop_result [of 0 n "[]"] by (simp add: binary_range_def bits_of_0)

primrec value_of :: "string \<Rightarrow> nat" where
  "value_of [] = 0"
| "value_of (c # v) = (if c = CHR ''1'' then 1 else 0) + 2 * value_of v"

lemma value_bits_of: "value_of (bits_of n k) = k mod 2 ^ n"
proof (induction n arbitrary: k)
  case (Suc n)
  have "k mod (2 * 2 ^ n) = k mod 2 + 2 * (k div 2 mod 2 ^ n)" by (simp add: mod_mult2_eq)
  with Suc show ?case by (auto simp: even_iff_mod_2_eq_zero odd_iff_mod_2_eq_one)
qed simp

lemma parse_bits_append:
  "parse_bits a (xs @ ys) = Option.bind (parse_bits a xs) (\<lambda>b. parse_bits b ys)"
  by (induction xs arbitrary: a) (auto split: option.splits)

lemma parse_bits_rev: "set v \<subseteq> {CHR ''0'', CHR ''1''} \<Longrightarrow> parse_bits 0 (rev v) = Some (value_of v)"
  by (induction v) (auto simp: parse_bits_append bit_val_def)

lemma set_bits_of: "set (bits_of n k) \<subseteq> {CHR ''0'', CHR ''1''}"
  by (induction n arbitrary: k) auto

lemma bits_of_append: "bits_of (m + n) k = bits_of m k @ bits_of n (k div 2 ^ m)"
  by (induction m arbitrary: k) (simp_all add: div_mult2_eq)

lemma bits_of_high: "k < 2 ^ m \<Longrightarrow> bits_of (m + n) k = bits_of m k @ replicate n (CHR ''0'')"
  by (simp add: bits_of_append bits_of_0)

lemma bits_of_mod: "bits_of n (k mod 2 ^ n) = bits_of n k"
proof (induction n arbitrary: k)
  case (Suc n)
  have "k mod (2 * 2 ^ n) = k mod 2 + 2 * (k div 2 mod 2 ^ n)" by (simp add: mod_mult2_eq)
  then have "k mod (2 * 2 ^ n) div 2 = k div 2 mod 2 ^ n" by simp
  moreover have "even (k mod (2 * 2 ^ n)) = even k" by (simp add: dvd_mod_iff)
  ultimately show ?case using Suc by simp
qed simp

lemma hex2bin_digit: "d < 16 \<Longrightarrow> map_of hex2bin (hex_char d) = Some (rev (bits_of 4 d))"
proof -
  have "\<forall>d \<in> set [0 ..< 16]. map_of hex2bin (hex_char d) = Some (rev (bits_of 4 d))" by code_simp
  moreover assume "d < 16"
  ultimately show ?thesis by simp
qed

lemma hex_bits:
  "\<exists>parts. mapE (\<lambda>x. of_option (KeyError [x]) (map_of hex2bin x)) (hex_nat k) = Inr parts \<and>
     concat parts = rev (bits_of (4 * length (hex_nat k)) k) \<and> k < 2 ^ (4 * length (hex_nat k))"
proof (induction k rule: hex_nat.induct)
  case (1 k)
  show ?case
  proof (cases "k < 16")
    case True
    then have "hex_nat k = [hex_char k]" by (simp add: hex_nat.simps)
    then show ?thesis using True hex2bin_digit [OF True] by simp
  next
    case False
    let ?L = "length (hex_nat (k div 16))"
    have h: "hex_nat k = hex_nat (k div 16) @ [hex_char (k mod 16)]"
      using False by (subst hex_nat.simps) simp
    obtain parts where IH: "mapE (\<lambda>x. of_option (KeyError [x]) (map_of hex2bin x)) (hex_nat (k div 16)) = Inr parts"
      "concat parts = rev (bits_of (4 * ?L) (k div 16))" "k div 16 < 2 ^ (4 * ?L)"
      using 1 False by blast
    have "mapE (\<lambda>x. of_option (KeyError [x]) (map_of hex2bin x)) (hex_nat k) = Inr (parts @ [rev (bits_of 4 (k mod 16))])"
      using IH(1) hex2bin_digit [of "k mod 16"] unfolding mapE_Inr_iff h by (simp add: list_all2_appendI)
    moreover have "bits_of (4 * length (hex_nat k)) k = bits_of 4 k @ bits_of (4 * ?L) (k div 16)"
      using bits_of_append [of 4 "4 * ?L" k] by (simp add: h)
    moreover have "bits_of 4 (k mod 16) = bits_of 4 k" using bits_of_mod [of 4 k] by simp
    moreover have "k < 2 ^ (4 * length (hex_nat k))"
      using IH(3) by (simp add: h power_add div_less_iff_less_mult mult.commute)
    ultimately show ?thesis using IH(2) by (intro exI conjI) (assumption, simp_all)
  qed
qed

text \<open>The number with width \<open>n\<close> when it fits, and an error when it does not.\<close>

lemma int2bin_result:
  assumes "0 < n"
  shows "int2bin (int k) (int n) =
    (if k < 2 ^ n then Inr (rev (bits_of n k))
     else Inl (ValueError ''Value too large for given number of bits.''))"
proof -
  let ?L = "4 * length (hex_nat k)"
  obtain parts where parts: "mapE (\<lambda>x. of_option (KeyError [x]) (map_of hex2bin x)) (hex_nat k) = Inr parts"
    "concat parts = rev (bits_of ?L k)" "k < 2 ^ ?L"
    using hex_bits by blast
  have one: "CHR ''1'' \<in> set (bits_of m j) \<longleftrightarrow> j mod 2 ^ m \<noteq> 0" for m j
  proof (induction m arbitrary: j)
    case (Suc m)
    have "j mod (2 * 2 ^ m) = j mod 2 + 2 * (j div 2 mod 2 ^ m)" by (simp add: mod_mult2_eq)
    with Suc show ?case by (auto simp: even_iff_mod_2_eq_zero odd_iff_mod_2_eq_one)
  qed simp
  have L: "length (concat parts) = ?L" using parts(2) by simp
  let ?up = "py_upto (concat parts) (- int n)" and ?low = "py_from (concat parts) (- int n)"
  have i2b: "int2bin (int k) (int n) =
      (if CHR ''1'' \<in> set ?up then Inl (ValueError ''Value too large for given number of bits.'')
       else Inr (replicate (n - length ?low) (CHR ''0'') @ ?low))"
    using parts(1) by (simp add: int2bin_def py_hex_def Let_def nat_diff_distrib')
  show ?thesis
  proof (cases "?L \<le> n")
    case True
    then have "k < 2 ^ n" using parts(3) by (meson less_le_trans one_le_numeral power_increasing)
    moreover have "bits_of n k = bits_of ?L k @ replicate (n - ?L) (CHR ''0'')"
      using bits_of_high [OF parts(3), of "n - ?L"] True by simp
    moreover have "py_upto (concat parts) (- int n) = []" "py_from (concat parts) (- int n) = concat parts"
      using True assms L by (simp_all add: py_upto_neg py_from_neg)
    ultimately show ?thesis
      using L parts(2) by (simp add: i2b)
  next
    case False
    then obtain m where m: "?L = n + m" using le_Suc_ex nat_le_linear by blast
    have b: "bits_of ?L k = bits_of n k @ bits_of m (k div 2 ^ n)" unfolding m by (rule bits_of_append)
    have "k < 2 ^ n * 2 ^ m" using parts(3) unfolding m by (simp add: power_add)
    then have "k div 2 ^ n mod 2 ^ m = k div 2 ^ n" by (simp add: div_less_iff_less_mult mult.commute)
    then have set: "CHR ''1'' \<in> set (bits_of m (k div 2 ^ n)) \<longleftrightarrow> \<not> k < 2 ^ n"
      by (simp add: one div_eq_0_iff)
    have "py_upto (concat parts) (- int n) = rev (bits_of m (k div 2 ^ n))"
      "py_from (concat parts) (- int n) = rev (bits_of n k)"
      using assms L m by (simp_all add: py_upto_neg py_from_neg parts(2) bits_of_append)
    then show ?thesis using set by (simp add: i2b)
  qed
qed

lemma int2bin_negative: "i < 0 \<Longrightarrow> int2bin i n = Inl (KeyError ''x'')"
  by (simp add: int2bin_def py_hex_def hex2bin_def)

section \<open>Polygons, quantiles, grids\<close>

definition close_polygon :: "(int \<times> int) list \<Rightarrow> (int \<times> int) list res" where
  "close_polygon pts =
     (if pts = [] then Inl IndexError
      else Inr (if last pts \<noteq> hd pts then pts @ [hd pts] else pts))"

fun shoelace :: "(int \<times> int) list \<Rightarrow> int" where
  "shoelace ((x, y) # (x', y') # pts) = x' * y - y' * x + shoelace ((x', y') # pts)"
| "shoelace _ = 0"

text \<open>
  For points with integer coordinates.  The list of the caller is scaled and closed in place: it is
  the second component of the result.
\<close>

definition polygon_area :: "(int \<times> int) list \<Rightarrow> int \<Rightarrow> (pyfloat \<times> (int \<times> int) list) res" where
  "polygon_area points_list precision =
     bindE (close_polygon (map (\<lambda>(x, y). (x * precision, y * precision)) points_list)) (\<lambda>pts.
     bindE (float_of_int \<bar>shoelace pts div 2\<bar>) (\<lambda>a.
     bindE (float_of_int (precision ^ 2)) (\<lambda>p.
     bindE (fdiv a p) (\<lambda>area. Inr (area, pts)))))"

definition quantile :: "pyfloat list \<Rightarrow> pyfloat \<Rightarrow> pyfloat res" where
  "quantile l p =
     (let l_sort = sort l; n = int (length l) in
      bindE (float_of_int (n - 1)) (\<lambda>n1.
      let r = fadd (Fin 1) (fmul n1 p) in
      bindE (int_of_float r) (\<lambda>i.
      bindE (float_of_int i) (\<lambda>fi.
      let f = fsub r fi in
      bindE (py_index l_sort (i - 1)) (\<lambda>a.
        if i < n
        then bindE (py_index l_sort i) (\<lambda>b. Inr (fadd (fmul (fsub (Fin 1) f) a) (fmul f b)))
        else Inr a)))))"

definition median_of :: "pyfloat list \<Rightarrow> pyfloat res" where
  "median_of l_sort =
     (let index = int (length l_sort div 2) in
      if even (length l_sort)
      then bindE (py_index l_sort index) (\<lambda>a. bindE (py_index l_sort (index - 1)) (\<lambda>b. fdiv (fadd a b) (Fin 2)))
      else py_index l_sort index)"

definition trim :: "pyfloat list \<Rightarrow> pyfloat list res" where
  "trim l =
     (let l_sort = sort l in
      bindE (median_of l_sort) (\<lambda>_.
      bindE (quantile l_sort (Fin (1 / 4))) (\<lambda>q1.
      bindE (quantile l_sort (Fin (3 / 4))) (\<lambda>q3.
      let iqr_extra = fmul (fsub q3 q1) (Fin (3 / 2))
      in Inr (filter (\<lambda>x. fle (fsub q1 iqr_extra) x \<and> fle x (fadd q3 iqr_extra)) l_sort)))))"

text \<open>\<open>round_grid\<close> on integers; \<open>grid / 2.0\<close> is a float, which an integer is compared with exactly.\<close>

definition round_grid :: "int \<Rightarrow> int \<Rightarrow> int \<Rightarrow> int res" where
  "round_grid val grid mode =
     (if grid = 0 then Inl ZeroDivisionError
      else
        let off_grid = val mod grid in
        bindE (if mode = 0
               then bindE (float_of_int grid) (\<lambda>g. bindE (fdiv g (Fin 2)) (\<lambda>h.
                      Inr (if fle h (Fin (of_int off_grid)) then 1 else 0)))
               else if mode = 1 \<and> off_grid \<noteq> 0 then Inr 1
               else if mode = - 1 \<and> off_grid \<noteq> 0 then Inr 0
               else Inl (UnboundLocalError ''add_one''))
          (\<lambda>add_one. Inr ((val div grid + add_one) * grid)))"

lemma round_grid_up:
  assumes "0 < grid" "val mod grid \<noteq> 0"
  obtains r where "round_grid val grid 1 = Inr r" "val < r" "r < val + grid" "grid dvd r"
proof -
  have "val < (val div grid + 1) * grid" "(val div grid + 1) * grid < val + grid"
    using assms pos_mod_sign [of grid val] pos_mod_bound [of grid val] le_neq_trans [of 0 "val mod grid"]
    by (simp_all add: algebra_simps minus_mod_eq_mult_div [symmetric])
  then show thesis using assms by (intro that [of "(val div grid + 1) * grid"]) (simp_all add: round_grid_def)
qed

lemma round_grid_on_grid:
  "grid \<noteq> 0 \<Longrightarrow> mode \<noteq> 0 \<Longrightarrow> round_grid (k * grid) grid mode = Inl (UnboundLocalError ''add_one'')"
  by (simp add: round_grid_def)

section \<open>Ranges of floats, random vectors, arguments\<close>

partial_function (option) float_loop :: "pyfloat \<Rightarrow> pyfloat \<Rightarrow> pyfloat \<Rightarrow> pyfloat list \<Rightarrow> pyfloat list option" where
  "float_loop stop step cur l =
     (if flt cur stop then float_loop stop step (fadd cur step) (l @ [cur]) else Some l)"

declare float_loop.simps [code]

definition float_range :: "pyfloat \<Rightarrow> pyfloat option \<Rightarrow> pyfloat option \<Rightarrow> pyfloat list option" where
  "float_range start stop step =
     (let st = (case step of None \<Rightarrow> Fin 1 | Some s \<Rightarrow> s)
      in case stop of
          None \<Rightarrow> float_loop start st (Fin 0) []
        | Some e \<Rightarrow> float_loop e st start [])"

text \<open>A loop whose addition does not move the counter never ends, for instance one with step 0.\<close>

lemma float_loop_stuck:
  assumes "flt cur stop" "fadd cur step = cur"
  shows "float_loop stop step cur l = None"
proof (cases "float_loop stop step cur l")
  case (Some r)
  have "\<not> (flt cur stop \<and> fadd cur step = cur)"
    by (rule float_loop.raw_induct [OF _ Some]) (auto split: if_splits)
  then show ?thesis using assms Some by blast
qed

definition random_vec :: "(nat \<Rightarrow> int) \<Rightarrow> nat \<Rightarrow> int option \<Rightarrow> string res" where
  "random_vec draw bits max_value =
     bindE (mapE (\<lambda>k. int2bin (draw k) 10) [0 ..< bits div 10 + 1]) (\<lambda>parts.
       let vector = concat parts in
       bindE (case max_value of
                None \<Rightarrow> Inr vector
              | Some m \<Rightarrow>
                  if m \<noteq> 0 \<and> m < 2 ^ bits - 1
                  then bindE (bin2int vector) (\<lambda>v.
                         if (2 :: int) ^ bits - 1 = 0 then Inl ZeroDivisionError
                         else int2bin (v div (2 ^ bits - 1) * m) (int bits))
                  else Inr vector)
         (\<lambda>v. Inr (take bits v)))"

text \<open>
  The division is one of integers and the vector longer than the width, so the result can exceed the
  maximum: 8 bits, maximum 10 and the largest draw give 40.
\<close>

lemma random_vec_above_maximum:
  "random_vec (\<lambda>_. 1023) 8 (Some 10) = Inr ''00101000''" "bin2int ''00101000'' = Inr 40"
  by code_simp+

datatype arg_value = Missing | Value string | Rest "string list"

definition split_arg :: "string \<Rightarrow> string \<times> arg_value" where
  "split_arg arg =
     (case split_char (CHR ''='') (dropWhile (\<lambda>c. c = CHR ''-'') arg) of
        [k, v] \<Rightarrow> (k, Value v)
      | k # _ \<Rightarrow> (k, Missing)
      | [] \<Rightarrow> ([], Missing))"

definition get_args :: "string list \<Rightarrow> (string \<times> arg_value) list" where
  "get_args argv =
     (let d = foldl (\<lambda>d arg. if has_prefix ''-'' arg then (case split_arg arg of (k, v) \<Rightarrow> AList.update k v d) else d) [] argv
      in AList.update ''args'' (Rest (filter (\<lambda>arg. \<not> has_prefix ''-'' arg) argv)) d)"

lemma get_args_rest: "map_of (get_args argv) ''args'' = Some (Rest (filter (\<lambda>arg. \<not> has_prefix ''-'' arg) argv))"
  by (simp add: get_args_def update_conv')

lemma get_args_last:
  assumes "split_arg arg = (k, v)" "has_prefix ''-'' arg" "k \<noteq> ''args''"
    "\<forall>a \<in> set post. has_prefix ''-'' a \<longrightarrow> fst (split_arg a) \<noteq> k"
  shows "map_of (get_args (pre @ arg # post)) k = Some v"
proof -
  let ?f = "\<lambda>d arg. if has_prefix ''-'' arg then (case split_arg arg of (k, v) \<Rightarrow> AList.update k v d) else d"
  have "map_of (foldl ?f d post) k = map_of d k" for d
    using assms(4) by (induction post arbitrary: d) (auto simp: update_conv' split: prod.splits)
  then show ?thesis using assms(1-3) by (simp add: get_args_def update_conv')
qed

lemma polygon_example:
  "polygon_area [(0, 0), (0, 1), (1, 1), (1, 2), (2, 2), (2, 0), (0, 0)] 100 =
     Inr (Fin 3, [(0, 0), (0, 100), (100, 100), (100, 200), (200, 200), (200, 0), (0, 0)])"
  by code_simp

end
