(* ===== verification/Topsort.thy ===== *)
theory Topsort
  imports RadUtil
begin

text \<open>
  \<open>bindings/python/topsort.py\<close>: topological sorting of (parent, child) pairs, the same in levels,
  and the search of the cycles of a graph.

  A dictionary is an association list.  The order in which Python lists the keys of a dictionary is
  arbitrary: \<open>topsort\<close> and \<open>topsort_levels_core\<close> take it as the parameter \<open>keys\<close>, of which the
  theorems only assume that it permutes; \<open>topsort_levels_core\<close> asks for it once per level, so its
  \<open>keys\<close> has the number of the level as argument.  A generator is the list of what it yields together
  with the exception that ends it, if any.
\<close>

section \<open>Sorting\<close>

datatype 'a failure =
    MissingKey 'a
  | CycleError "'a list option" "('a \<times> int) list" "('a \<times> 'a list) list"

type_synonym 'a parents = "('a \<times> int) list"
type_synonym 'a successors = "('a \<times> 'a list) list"

definition set_default :: "'k \<Rightarrow> 'v \<Rightarrow> ('k \<times> 'v) list \<Rightarrow> ('k \<times> 'v) list" where
  "set_default k v d = (if map_of d k = None then AList.update k v d else d)"

definition add_pair :: "'a \<times> 'a \<Rightarrow> 'a parents \<times> 'a successors \<Rightarrow> 'a parents \<times> 'a successors" where
  "add_pair pr st =
     (case (pr, st) of ((parent, child), (num_parents, children)) \<Rightarrow>
        let np1 = set_default parent 0 num_parents;
            np2 = set_default child 0 np1;
            np3 = AList.update child (the (map_of np2 child) + 1) np2;
            succs = (case map_of children parent of None \<Rightarrow> [] | Some l \<Rightarrow> l)
        in (np3, AList.update parent (succs @ [child]) children))"

definition count_parents :: "('a \<times> 'a) list \<Rightarrow> 'a parents \<times> 'a successors" where
  "count_parents pairlist = fold add_pair pairlist ([], [])"

definition without_parent :: "('a list \<Rightarrow> 'a list) \<Rightarrow> 'a parents \<Rightarrow> 'a list" where
  "without_parent keys num_parents = filter (\<lambda>x. map_of num_parents x = Some 0) (keys (map fst num_parents))"

text \<open>The inner loop of \<open>topsort\<close>: the counts of the children go down, and a child whose count
  reaches 0 is appended to the answer.\<close>

fun knock_down :: "'a list \<Rightarrow> 'a parents \<Rightarrow> 'a list \<Rightarrow> 'a failure + 'a parents \<times> 'a list" where
  "knock_down [] num_parents answer = Inr (num_parents, answer)"
| "knock_down (child # cs) num_parents answer =
     (case map_of num_parents child of
        None \<Rightarrow> Inl (MissingKey child)
      | Some n \<Rightarrow> knock_down cs (AList.update child (n - 1) num_parents)
          (if n - 1 = 0 then answer @ [child] else answer))"

lemma knock_down_keys: "knock_down cs np ans = Inr (np', ans') \<Longrightarrow> map fst np' = map fst np"
proof (induction cs np ans rule: knock_down.induct)
  case (2 c cs np ans)
  then obtain n where n: "map_of np c = Some n" by (auto split: option.splits)
  then have "c \<in> set (map fst np)" by (force dest: map_of_SomeD)
  with 2 n show ?case by (simp add: update_keys)
qed simp

lemma knock_down_length: "knock_down cs np ans = Inr (np', ans') \<Longrightarrow> length np' = length np"
  using knock_down_keys by (metis length_map)

lemma length_delete_key: "map_of d k \<noteq> None \<Longrightarrow> length (AList.delete k d) < length d"
  by (induction d) (auto simp: AList.delete_eq less_Suc_eq_le split: if_splits)

function top_loop :: "nat \<Rightarrow> 'a list \<Rightarrow> 'a parents \<Rightarrow> 'a successors \<Rightarrow>
    'a failure + 'a list \<times> 'a parents \<times> 'a successors" where
  "top_loop i answer num_parents children =
     (if i < length answer then
        let parent = answer ! i in
        if map_of num_parents parent = None then Inl (MissingKey parent)
        else
          let np = AList.delete parent num_parents in
          case map_of children parent of
            None \<Rightarrow> top_loop (i + 1) answer np children
          | Some cs \<Rightarrow>
              (case knock_down cs np answer of
                 Inl e \<Rightarrow> Inl e
               | Inr (np', answer') \<Rightarrow> top_loop (i + 1) answer' np' (AList.delete parent children))
      else Inr (answer, num_parents, children))"
  by pat_completeness auto
termination
  by (relation "measure (\<lambda>(_, _, np, _). length np)")
     (auto simp: length_delete_key dest!: knock_down_length)

declare top_loop.simps [simp del]

definition topsort :: "('a list \<Rightarrow> 'a list) \<Rightarrow> ('a \<times> 'a) list \<Rightarrow> 'a failure + 'a list" where
  "topsort keys pairlist =
     (let (num_parents, children) = count_parents pairlist in
      case top_loop 0 (without_parent keys num_parents) num_parents children of
        Inl e \<Rightarrow> Inl e
      | Inr (answer, np, ch) \<Rightarrow> if np \<noteq> [] then Inl (CycleError (Some answer) np ch) else Inr answer)"

section \<open>Levels\<close>

fun decrement :: "'a list \<Rightarrow> 'a parents \<Rightarrow> 'a failure + 'a parents" where
  "decrement [] num_parents = Inr num_parents"
| "decrement (child # cs) num_parents =
     (case map_of num_parents child of
        None \<Rightarrow> Inl (MissingKey child)
      | Some n \<Rightarrow> decrement cs (AList.update child (n - 1) num_parents))"

fun remove_level :: "'a list \<Rightarrow> 'a parents \<Rightarrow> 'a successors \<Rightarrow> 'a failure + 'a parents \<times> 'a successors" where
  "remove_level [] num_parents children = Inr (num_parents, children)"
| "remove_level (p # ps) num_parents children =
     (if map_of num_parents p = None then Inl (MissingKey p)
      else
        let np = AList.delete p num_parents in
        case map_of children p of
          None \<Rightarrow> remove_level ps np children
        | Some cs \<Rightarrow>
            (case decrement cs np of
               Inl e \<Rightarrow> Inl e
             | Inr np' \<Rightarrow> remove_level ps np' (AList.delete p children)))"

lemma decrement_keys: "decrement cs np = Inr np' \<Longrightarrow> map fst np' = map fst np"
proof (induction cs np rule: decrement.induct)
  case (2 c cs np)
  then obtain n where n: "map_of np c = Some n" by (auto split: option.splits)
  then have "c \<in> set (map fst np)" by (force dest: map_of_SomeD)
  with 2 n show ?case by (simp add: update_keys)
qed simp

lemma remove_level_length:
  "remove_level ps np ch = Inr (np', ch') \<Longrightarrow> length np' \<le> length np \<and> (ps \<noteq> [] \<longrightarrow> length np' < length np)"
proof (induction ps np ch rule: remove_level.induct)
  case (2 p ps np ch)
  have del: "length (AList.delete p np) < length np"
    using 2(3) by (auto simp: length_delete_key split: if_splits)
  show ?case
  proof (cases "map_of ch p")
    case None
    with 2 del show ?thesis by (fastforce simp: Let_def split: if_splits)
  next
    case (Some cs)
    with 2(3) obtain np1 where np1: "decrement cs (AList.delete p np) = Inr np1"
      "remove_level ps np1 (AList.delete p ch) = Inr (np', ch')" and p: "map_of np p \<noteq> None"
      by (auto simp: Let_def split: if_splits sum.splits)
    have "length np1 = length (AList.delete p np)" using decrement_keys [OF np1(1)] by (metis length_map)
    with 2(2) [OF p refl Some np1(1) np1(2)] del show ?thesis by auto
  qed
qed simp

lemma remove_level_distinct:
  "remove_level ps np ch = Inr (np', ch') \<Longrightarrow> distinct (map fst np) \<Longrightarrow> distinct (map fst np')"
proof (induction ps np ch rule: remove_level.induct)
  case (2 p ps np ch)
  have del: "distinct (map fst (AList.delete p np))" using 2(4) by (rule distinct_delete)
  show ?case
  proof (cases "map_of ch p")
    case None
    with 2(1,3) del show ?thesis by (auto simp: Let_def split: if_splits)
  next
    case (Some cs)
    with 2(3) obtain np1 where np1: "decrement cs (AList.delete p np) = Inr np1"
      "remove_level ps np1 (AList.delete p ch) = Inr (np', ch')" and p: "map_of np p \<noteq> None"
      by (auto simp: Let_def split: if_splits sum.splits)
    have "distinct (map fst np1)" using decrement_keys [OF np1(1)] del by simp
    with 2(2) [OF p refl Some np1(1) np1(2)] show ?thesis by simp
  qed
qed simp

function topsort_levels_core :: "(nat \<Rightarrow> 'a list \<Rightarrow> 'a list) \<Rightarrow> nat \<Rightarrow> 'a parents \<Rightarrow> 'a successors \<Rightarrow>
    'a list list \<times> 'a failure option" where
  "topsort_levels_core keys k num_parents children =
     (let level_parents = without_parent (keys k) num_parents in
      if level_parents = []
      then ([], if num_parents \<noteq> [] then Some (CycleError None num_parents children) else None)
      else case remove_level level_parents num_parents children of
          Inl e \<Rightarrow> ([level_parents], Some e)
        | Inr (np, ch) \<Rightarrow>
            (case topsort_levels_core keys (k + 1) np ch of
               (levels, e) \<Rightarrow> (level_parents # levels, e)))"
  by pat_completeness auto
termination
  by (relation "measure (\<lambda>(_, _, np, _). length np)") (auto dest: remove_level_length)

declare topsort_levels_core.simps [simp del]

definition topsort_levels :: "(nat \<Rightarrow> 'a list \<Rightarrow> 'a list) \<Rightarrow> ('a \<times> 'a) list \<Rightarrow> 'a list list \<times> 'a failure option" where
  "topsort_levels keys pairlist =
     (let (num_parents, children) = count_parents pairlist
      in topsort_levels_core keys 0 num_parents children)"

section \<open>The state of the loops\<close>

definition waiting :: "('a \<times> 'a) list \<Rightarrow> 'a set \<Rightarrow> 'a \<Rightarrow> nat" where
  "waiting ps D x = length (filter (\<lambda>(p, c). c = x \<and> p \<notin> D) ps)"

definition succs :: "('a \<times> 'a) list \<Rightarrow> 'a \<Rightarrow> 'a list" where
  "succs ps p = map snd (filter (\<lambda>pr. fst pr = p) ps)"

definition parents_view :: "('a \<times> 'a) list \<Rightarrow> 'a set \<Rightarrow> 'a parents \<Rightarrow> bool" where
  "parents_view ps D np \<longleftrightarrow>
     (\<forall>x. map_of np x = (if x \<in> Field (set ps) - D then Some (int (waiting ps D x)) else None))"

definition children_view :: "('a \<times> 'a) list \<Rightarrow> 'a set \<Rightarrow> 'a successors \<Rightarrow> bool" where
  "children_view ps D ch \<longleftrightarrow>
     (\<forall>p. p \<notin> D \<longrightarrow> map_of ch p = (if succs ps p = [] then None else Some (succs ps p)))"

lemma set_succs: "set (succs ps p) = {c. (p, c) \<in> set ps}"
  by (force simp: succs_def)

lemma waiting_0: "waiting ps D x = 0 \<longleftrightarrow> (\<forall>p. (p, x) \<in> set ps \<longrightarrow> p \<in> D)"
  by (auto simp: waiting_def filter_empty_conv)

lemma waiting_insert:
  "p \<notin> D \<Longrightarrow> waiting ps D x = waiting ps (insert p D) x + count_list (succs ps p) x"
  by (induction ps) (auto simp: waiting_def succs_def)

lemma set_default_view: "map_of (set_default k v d) x = (if x = k \<and> map_of d k = None then Some v else map_of d x)"
  by (simp add: set_default_def update_conv')

lemma Field_snoc: "Field (set (ps @ [(p, c)])) = Field (set ps) \<union> {p, c}"
  by (auto simp: Field_def)

lemma count_parents_view:
  "case count_parents ps of (np, ch) \<Rightarrow>
     distinct (map fst np) \<and> parents_view ps {} np \<and> children_view ps {} ch"
proof (induction ps rule: rev_induct)
  case Nil
  then show ?case by (simp add: count_parents_def parents_view_def children_view_def succs_def Field_def)
next
  case (snoc pr ps)
  obtain p c where pr: "pr = (p, c)" by fastforce
  obtain np ch where st: "count_parents ps = (np, ch)" by fastforce
  have np: "map_of np x = (if x \<in> Field (set ps) then Some (int (waiting ps {} x)) else None)" for x
    using snoc st by (simp add: parents_view_def)
  have ch: "map_of ch q = (if succs ps q = [] then None else Some (succs ps q))" for q
    using snoc st by (simp add: children_view_def)
  have none: "x \<notin> Field (set ps) \<Longrightarrow> waiting ps {} x = 0" for x
    by (auto simp: waiting_0 Field_def)
  let ?np1 = "set_default p 0 np"
  let ?np2 = "set_default c 0 ?np1"
  have np2: "map_of ?np2 x = (if x \<in> Field (set ps) \<union> {p, c} then Some (int (waiting ps {} x)) else None)" for x
    using none by (auto simp: set_default_view np)
  have "distinct (map fst np)" using snoc st by simp
  then have "distinct (map fst (AList.update c (the (map_of ?np2 c) + 1) ?np2))"
    by (auto simp: set_default_def distinct_update)
  moreover have "waiting (ps @ [(p, c)]) {} x = waiting ps {} x + (if x = c then 1 else 0)" for x
    by (simp add: waiting_def)
  then have "parents_view (ps @ [(p, c)]) {} (AList.update c (the (map_of ?np2 c) + 1) ?np2)"
    by (auto simp: parents_view_def update_conv' np2 Field_snoc simp del: set_append)
  moreover have "succs (ps @ [(p, c)]) q = succs ps q @ (if q = p then [c] else [])" for q
    by (simp add: succs_def)
  then have "children_view (ps @ [(p, c)]) {}
      (AList.update p ((case map_of ch p of None \<Rightarrow> [] | Some l \<Rightarrow> l) @ [c]) ch)"
    by (auto simp: children_view_def update_conv' ch)
  ultimately show ?case
    using st by (simp add: count_parents_def pr add_pair_def Let_def)
qed

lemma knock_down_spec:
  assumes "\<And>x. map_of np x = (if x \<in> K then Some (int (N x + count_list cs x)) else None)"
    and "set cs \<subseteq> K"
  shows "\<exists>np' new. knock_down cs np ans = Inr (np', ans @ new) \<and>
    (\<forall>x. map_of np' x = (if x \<in> K then Some (int (N x)) else None)) \<and>
    distinct new \<and> set new = {x \<in> set cs. N x = 0}"
  using assms
proof (induction cs arbitrary: np ans)
  case (Cons c cs)
  let ?n = "int (N c + count_list (c # cs) c)"
  have c: "map_of np c = Some ?n" using Cons.prems by simp
  let ?np = "AList.update c (?n - 1) np"
  let ?ans = "if ?n - 1 = 0 then ans @ [c] else ans"
  have "map_of ?np x = (if x \<in> K then Some (int (N x + count_list cs x)) else None)" for x
    using Cons.prems by (simp add: update_conv')
  then obtain np' new where IH: "knock_down cs ?np ?ans = Inr (np', ?ans @ new)"
    "\<forall>x. map_of np' x = (if x \<in> K then Some (int (N x)) else None)"
    "distinct new" "set new = {x \<in> set cs. N x = 0}"
    using Cons.IH [of ?np ?ans] Cons.prems(2) by auto
  have "?n - 1 = int (N c + count_list cs c)" by simp
  then have zero: "?n - 1 = 0 \<longleftrightarrow> N c = 0 \<and> c \<notin> set cs"
    by (simp only: of_nat_eq_0_iff add_is_0 count_list_0_iff)
  let ?new = "(if ?n - 1 = 0 then [c] else []) @ new"
  have "knock_down (c # cs) np ans = Inr (np', ans @ ?new)" using IH(1) c by auto
  moreover have "distinct ?new" "set ?new = {x \<in> set (c # cs). N x = 0}"
    using IH(3,4) zero by auto
  ultimately show ?case using IH(2) by blast
qed simp

lemma decrement_spec:
  assumes "\<And>x. map_of np x = (if x \<in> K then Some (int (N x + count_list cs x)) else None)"
    and "set cs \<subseteq> K"
  shows "\<exists>np'. decrement cs np = Inr np' \<and> (\<forall>x. map_of np' x = (if x \<in> K then Some (int (N x)) else None))"
  using assms
proof (induction cs arbitrary: np)
  case (Cons c cs)
  let ?np = "AList.update c (int (N c + count_list (c # cs) c) - 1) np"
  have "map_of ?np x = (if x \<in> K then Some (int (N x + count_list cs x)) else None)" for x
    using Cons.prems by (simp add: update_conv')
  then show ?case using Cons.IH [of ?np] Cons.prems by auto
qed simp

section \<open>The answer of topsort\<close>

definition top_inv :: "('a \<times> 'a) list \<Rightarrow> nat \<Rightarrow> 'a list \<Rightarrow> 'a parents \<Rightarrow> 'a successors \<Rightarrow> bool" where
  "top_inv ps i ans np ch \<longleftrightarrow>
     (let D = set (take i ans) in
      i \<le> length ans \<and> parents_view ps D np \<and> children_view ps D ch \<and> distinct ans \<and>
      set ans = {x \<in> Field (set ps). waiting ps D x = 0} \<and>
      (\<forall>j < length ans. \<forall>p. (p, ans ! j) \<in> set ps \<longrightarrow> p \<in> set (take j ans)))"

lemma top_inv_step:
  assumes inv: "top_inv ps i ans np ch" and i: "i < length ans"
  defines "p \<equiv> ans ! i"
  obtains np' ans' where "map_of np p \<noteq> None"
    "(case map_of ch p of None \<Rightarrow> np' = AList.delete p np \<and> ans' = ans \<and> top_inv ps (i + 1) ans np' ch
      | Some cs \<Rightarrow> knock_down cs (AList.delete p np) ans = Inr (np', ans') \<and>
          top_inv ps (i + 1) ans' np' (AList.delete p ch))"
proof -
  let ?D = "set (take i ans)" and ?K = "Field (set ps) - insert p (set (take i ans))"
  have np: "map_of np x = (if x \<in> Field (set ps) - ?D then Some (int (waiting ps ?D x)) else None)" for x
    using inv by (simp add: top_inv_def parents_view_def Let_def)
  have ch: "q \<notin> ?D \<Longrightarrow> map_of ch q = (if succs ps q = [] then None else Some (succs ps q))" for q
    using inv by (simp add: top_inv_def children_view_def Let_def)
  have dist: "distinct ans" and ans: "set ans = {x \<in> Field (set ps). waiting ps ?D x = 0}"
    and ord: "\<And>j q. j < length ans \<Longrightarrow> (q, ans ! j) \<in> set ps \<Longrightarrow> q \<in> set (take j ans)"
    using inv by (auto simp: top_inv_def Let_def)
  have pD: "p \<notin> ?D" using dist i by (auto simp: p_def set_conv_nth nth_eq_iff_index_eq)
  have pF: "p \<in> Field (set ps)" using ans i by (auto simp: p_def)
  have D': "set (take (i + 1) ans) = insert p ?D" using i by (simp add: take_Suc_conv_app_nth p_def)
  have split: "waiting ps ?D x = waiting ps (insert p ?D) x + count_list (succs ps p) x" for x
    by (rule waiting_insert [OF pD])
  have kids: "set (succs ps p) \<subseteq> ?K"
  proof
    fix c assume "c \<in> set (succs ps p)"
    then have e: "(p, c) \<in> set ps" by (simp add: set_succs)
    have "c \<notin> set (take (i + 1) ans)"
    proof
      assume "c \<in> set (take (i + 1) ans)"
      then obtain j where j: "j \<le> i" "ans ! j = c" using i by (auto simp: in_set_conv_nth less_Suc_eq_le)
      then have "p \<in> set (take j ans)" using ord [of j p] e i by simp
      then show False using pD set_take_subset_set_take [of j i ans] j by auto
    qed
    then show "c \<in> ?K" using e D' by (auto simp: Field_def)
  qed
  have del: "map_of (AList.delete p np) x =
      (if x \<in> ?K then Some (int (waiting ps (insert p ?D) x + count_list (succs ps p) x)) else None)" for x
    using split [of x] by (simp add: delete_conv' np)
  have "map_of np p \<noteq> None" using np pF pD by simp
  moreover
  consider (leaf) "succs ps p = []" | (inner) "succs ps p \<noteq> []" by blast
  then have "\<exists>np' ans'. case map_of ch p of
      None \<Rightarrow> np' = AList.delete p np \<and> ans' = ans \<and> top_inv ps (i + 1) ans np' ch
    | Some cs \<Rightarrow> knock_down cs (AList.delete p np) ans = Inr (np', ans') \<and>
        top_inv ps (i + 1) ans' np' (AList.delete p ch)"
  proof cases
    case leaf
    have weq: "waiting ps (insert p ?D) x = waiting ps ?D x" for x using split leaf by simp
    have "parents_view ps (insert p ?D) (AList.delete p np)"
      using del leaf by (simp add: parents_view_def)
    moreover have "children_view ps (insert p ?D) ch" using ch by (simp add: children_view_def)
    moreover have "set ans = {x \<in> Field (set ps). waiting ps (insert p ?D) x = 0}"
      using ans weq by simp
    ultimately have "top_inv ps (i + 1) ans (AList.delete p np) ch"
      unfolding top_inv_def Let_def D' using i dist ord by simp
    with leaf ch pD show ?thesis by simp
  next
    case inner
    obtain np' new where kd: "knock_down (succs ps p) (AList.delete p np) ans = Inr (np', ans @ new)"
      "\<forall>x. map_of np' x = (if x \<in> ?K then Some (int (waiting ps (insert p ?D) x)) else None)"
      "distinct new" "set new = {x \<in> set (succs ps p). waiting ps (insert p ?D) x = 0}"
      using knock_down_spec [OF del kids] by blast
    let ?ans = "ans @ new"
    have take: "set (take (i + 1) ?ans) = insert p ?D" using D' i by simp
    have fresh: "set new \<inter> set ans = {}"
      using kd(4) ans split by (auto simp: count_list_0_iff)
    have "set ?ans = {x \<in> Field (set ps). waiting ps (insert p ?D) x = 0}"
      using kd(4) ans split kids by (auto simp: count_list_0_iff)
    moreover have "(q, ?ans ! j) \<in> set ps \<Longrightarrow> q \<in> set (take j ?ans)" if j: "j < length ?ans" for j q
    proof (cases "j < length ans")
      case False
      then have "?ans ! j \<in> set new" using j by (simp add: nth_append)
      then have "(q, ?ans ! j) \<in> set ps \<Longrightarrow> q \<in> insert p ?D" using kd(4) by (simp add: waiting_0)
      moreover have "insert p ?D \<subseteq> set (take j ?ans)"
        using D' False i set_take_subset_set_take [of "i + 1" j ?ans] by auto
      ultimately show "(q, ?ans ! j) \<in> set ps \<Longrightarrow> q \<in> set (take j ?ans)" by blast
    qed (use ord [of j q] in \<open>auto simp: nth_append\<close>)
    moreover have "children_view ps (insert p ?D) (AList.delete p ch)"
      using ch by (auto simp: children_view_def delete_conv')
    moreover have "parents_view ps (insert p ?D) np'" using kd(2) by (simp add: parents_view_def)
    moreover have "distinct ?ans" using kd(3) fresh dist by auto
    ultimately have "top_inv ps (i + 1) ?ans np' (AList.delete p ch)"
      unfolding top_inv_def Let_def take using i by simp
    with inner ch pD kd(1) show ?thesis by auto
  qed
  ultimately show thesis using that by blast
qed

lemma top_loop_inv:
  "top_inv ps i ans np ch \<Longrightarrow>
   \<exists>ans' np' ch'. top_loop i ans np ch = Inr (ans', np', ch') \<and> top_inv ps (length ans') ans' np' ch'"
proof (induction i ans np ch rule: top_loop.induct)
  case (1 i ans np ch)
  show ?case
  proof (cases "i < length ans")
    case False
    then have "i = length ans" using 1(3) by (simp add: top_inv_def Let_def)
    with False 1(3) show ?thesis by (subst top_loop.simps) auto
  next
    case True
    obtain np' ans' where st: "map_of np (ans ! i) \<noteq> None"
      "case map_of ch (ans ! i) of
         None \<Rightarrow> np' = AList.delete (ans ! i) np \<and> ans' = ans \<and> top_inv ps (i + 1) ans np' ch
       | Some cs \<Rightarrow> knock_down cs (AList.delete (ans ! i) np) ans = Inr (np', ans') \<and>
           top_inv ps (i + 1) ans' np' (AList.delete (ans ! i) ch)"
      by (rule top_inv_step [OF 1(3) True])
    show ?thesis
    proof (cases "map_of ch (ans ! i)")
      case None
      with st(2) have inv: "top_inv ps (i + 1) ans (AList.delete (ans ! i) np) ch" by auto
      have "top_loop i ans np ch = top_loop (i + 1) ans (AList.delete (ans ! i) np) ch"
        using None True st(1) by (subst top_loop.simps) (auto simp: Let_def)
      then show ?thesis using 1(1) [OF True refl st(1) refl None inv] by simp
    next
      case (Some cs)
      with st(2) have kd: "knock_down cs (AList.delete (ans ! i) np) ans = Inr (np', ans')"
        and inv: "top_inv ps (i + 1) ans' np' (AList.delete (ans ! i) ch)" by auto
      have "top_loop i ans np ch = top_loop (i + 1) ans' np' (AList.delete (ans ! i) ch)"
        using Some True st(1) kd by (subst top_loop.simps) (auto simp: Let_def)
      then show ?thesis using 1(2) [OF True refl st(1) refl Some kd refl inv] by simp
    qed
  qed
qed

lemma before_ancestors:
  assumes ord: "\<And>j p. j < length ans \<Longrightarrow> (p, ans ! j) \<in> R \<Longrightarrow> p \<in> set (take j ans)"
  shows "i < length ans \<Longrightarrow> (y, ans ! i) \<in> R\<^sup>+ \<Longrightarrow> y \<in> set (take i ans)"
proof (induction i rule: less_induct)
  case (less i)
  from less.prems(2) obtain z where z: "(y, z) \<in> R\<^sup>*" "(z, ans ! i) \<in> R" by (meson tranclD2)
  then have "z \<in> set (take i ans)" using ord less.prems(1) by blast
  then obtain j where j: "j < i" "z = ans ! j" using less.prems(1) by (auto simp: in_set_conv_nth)
  show ?case
  proof (cases "y = z")
    case False
    then have "(y, ans ! j) \<in> R\<^sup>+" using z(1) j by (metis rtranclD)
    then have "y \<in> set (take j ans)" using less.IH j less.prems(1) by simp
    then show ?thesis using set_take_subset_set_take [of j i ans] j by auto
  qed (use \<open>z \<in> set (take i ans)\<close> in simp)
qed

text \<open>The elements reached from a cycle: the ones that no topological order can place.\<close>

definition below_cycle :: "('a \<times> 'a) set \<Rightarrow> 'a set" where
  "below_cycle R = {x. \<exists>y. (y, y) \<in> R\<^sup>+ \<and> (y, x) \<in> R\<^sup>*}"

lemma ordered_not_below_cycle:
  assumes ord: "\<And>j p. j < length ans \<Longrightarrow> (p, ans ! j) \<in> R \<Longrightarrow> p \<in> set (take j ans)"
    and dist: "distinct ans" and x: "x \<in> set ans"
  shows "x \<notin> below_cycle R"
proof
  assume "x \<in> below_cycle R"
  then obtain y where y: "(y, y) \<in> R\<^sup>+" "(y, x) \<in> R\<^sup>*" by (auto simp: below_cycle_def)
  obtain i where i: "i < length ans" "x = ans ! i" using x by (auto simp: in_set_conv_nth)
  have "y \<in> set ans"
  proof (cases "y = x")
    case False
    then have "y \<in> set (take i ans)"
      using before_ancestors [OF ord i(1)] y(2) i(2) by (metis rtranclD)
    then show ?thesis by (rule in_set_takeD)
  qed (use x in simp)
  then obtain j where j: "j < length ans" "y = ans ! j" by (auto simp: in_set_conv_nth)
  then have "ans ! j \<in> set (take j ans)" using before_ancestors [OF ord j(1)] y(1) by simp
  then show False using dist j(1) by (auto simp: in_set_conv_nth nth_eq_iff_index_eq)
qed

lemma orphans_below_cycle:
  assumes fin: "finite R" and S: "\<And>x. x \<in> S \<Longrightarrow> \<exists>p \<in> S. (p, x) \<in> R" and x: "x \<in> S"
  shows "x \<in> below_cycle R"
proof (rule ccontr)
  assume no: "x \<notin> below_cycle R"
  let ?A = "{y \<in> S. (y, x) \<in> R\<^sup>*}"
  let ?r = "R \<inter> ?A \<times> ?A"
  have "acyclic ?r"
  proof (rule acyclicI, intro allI notI)
    fix y assume y: "(y, y) \<in> ?r\<^sup>+"
    then have "(y, y) \<in> R\<^sup>+" by (rule trancl_mono) simp
    moreover from y have "y \<in> ?A" by (auto dest: tranclD)
    ultimately show False using no by (auto simp: below_cycle_def)
  qed
  then have "wf ?r" using fin by (simp add: finite_acyclic_wf)
  moreover have "x \<in> ?A" using x by simp
  ultimately obtain m where m: "m \<in> ?A" "\<And>y. (y, m) \<in> ?r \<Longrightarrow> y \<notin> ?A"
    by (rule wfE_min) blast
  obtain p where p: "p \<in> S" "(p, m) \<in> R" using S m(1) by blast
  then have "p \<in> ?A" using m(1) by (auto intro: converse_rtrancl_into_rtrancl)
  then show False using m p by blast
qed

lemma acyclic_iff_below: "acyclic R \<longleftrightarrow> below_cycle R = {}"
  by (auto simp: acyclic_def below_cycle_def)

lemma below_cycle_Field: "below_cycle R \<subseteq> Field R"
proof
  fix x assume "x \<in> below_cycle R"
  then obtain y where "(y, x) \<in> R\<^sup>+" by (auto simp: below_cycle_def dest: trancl_rtrancl_trancl)
  then have "x \<in> Range R" by (metis Range.intros trancl_range)
  then show "x \<in> Field R" by (simp add: Field_def)
qed

lemma set_without_parent:
  assumes keys: "\<And>l. mset (keys l) = mset l"
  shows "set (without_parent keys np) = {x. map_of np x = Some 0}"
proof -
  have "set (keys l) = set l" for l using keys by (metis mset_eq_setD)
  then show ?thesis
    by (auto simp: without_parent_def intro: rev_image_eqI dest: map_of_SomeD)
qed

lemma distinct_without_parent:
  assumes keys: "\<And>l. mset (keys l) = mset l" and "distinct (map fst np)"
  shows "distinct (without_parent keys np)"
  using assms(2) keys [of "map fst np"]
  by (metis distinct_filter mset_eq_imp_distinct_iff without_parent_def)

lemma topsort_result:
  assumes keys: "\<And>l. mset (keys l) = mset l"
  obtains ans np ch where
    "topsort keys ps = (if np = [] then Inr ans else Inl (CycleError (Some ans) np ch))"
    "np = [] \<longleftrightarrow> acyclic (set ps)" "distinct ans" "set ans = Field (set ps) - below_cycle (set ps)"
    "\<And>j p. j < length ans \<Longrightarrow> (p, ans ! j) \<in> set ps \<Longrightarrow> p \<in> set (take j ans)"
    "\<And>x. map_of np x = (if x \<in> below_cycle (set ps)
        then Some (int (length (filter (\<lambda>(p, c). c = x \<and> p \<in> below_cycle (set ps)) ps))) else None)"
proof -
  obtain np0 ch0 where st: "count_parents ps = (np0, ch0)" by fastforce
  note view = count_parents_view [of ps, unfolded st prod.case]
  let ?ans0 = "without_parent keys np0"
  have view0: "map_of np0 x = (if x \<in> Field (set ps) then Some (int (waiting ps {} x)) else None)" for x
    using view by (simp add: parents_view_def)
  have "distinct ?ans0"
    using view distinct_without_parent [OF keys] by blast
  moreover have "set ?ans0 = {x \<in> Field (set ps). waiting ps {} x = 0}"
    unfolding set_without_parent [OF keys] view0 by auto
  ultimately have "top_inv ps 0 ?ans0 np0 ch0"
    using view by (fastforce simp: top_inv_def Let_def waiting_0)
  then obtain ans np ch where loop: "top_loop 0 ?ans0 np0 ch0 = Inr (ans, np, ch)"
    and inv: "top_inv ps (length ans) ans np ch"
    using top_loop_inv by blast
  from inv have dist: "distinct ans"
    and set_ans: "set ans = {x \<in> Field (set ps). waiting ps (set ans) x = 0}"
    and ord: "\<And>j p. j < length ans \<Longrightarrow> (p, ans ! j) \<in> set ps \<Longrightarrow> p \<in> set (take j ans)"
    and np: "\<And>x. map_of np x = (if x \<in> Field (set ps) - set ans then Some (int (waiting ps (set ans) x)) else None)"
    by (auto simp: top_inv_def Let_def parents_view_def)
  let ?S = "Field (set ps) - set ans"
  have "\<exists>p \<in> ?S. (p, x) \<in> set ps" if "x \<in> ?S" for x
  proof -
    have "waiting ps (set ans) x \<noteq> 0"
      using set_ans that by (metis (mono_tags, lifting) DiffD1 DiffD2 mem_Collect_eq)
    then obtain p where "(p, x) \<in> set ps" "p \<notin> set ans" by (auto simp: waiting_0)
    then show ?thesis by (blast intro: FieldI1)
  qed
  then have "?S \<subseteq> below_cycle (set ps)" using orphans_below_cycle [of "set ps" ?S] by blast
  moreover have "below_cycle (set ps) \<subseteq> ?S"
  proof
    fix x assume x: "x \<in> below_cycle (set ps)"
    have "x \<notin> set ans" using ordered_not_below_cycle [OF ord dist] x by metis
    then show "x \<in> ?S" using below_cycle_Field [of "set ps"] x by blast
  qed
  ultimately have S: "?S = below_cycle (set ps)" by blast
  have wait: "waiting ps (set ans) x = length (filter (\<lambda>(p, c). c = x \<and> p \<in> below_cycle (set ps)) ps)" for x
    unfolding waiting_def
    by (rule arg_cong [where f = length], rule filter_cong) (use S in \<open>auto simp: Field_def\<close>)
  have "dom (map_of np) = below_cycle (set ps)" using np S by (auto split: if_splits)
  then have "np = [] \<longleftrightarrow> acyclic (set ps)" unfolding acyclic_iff_below by (cases np) auto
  moreover have "topsort keys ps = (if np = [] then Inr ans else Inl (CycleError (Some ans) np ch))"
    using loop st by (simp add: topsort_def)
  moreover have "set ans \<subseteq> Field (set ps)"
    using set_ans by (metis (mono_tags, lifting) mem_Collect_eq subsetI)
  then have "set ans = Field (set ps) - below_cycle (set ps)" using S by blast
  moreover have "map_of np x = (if x \<in> below_cycle (set ps)
      then Some (int (length (filter (\<lambda>(p, c). c = x \<and> p \<in> below_cycle (set ps)) ps))) else None)" for x
    using np [of x] unfolding S wait .
  ultimately show thesis using that [OF _ _ dist _ ord] by blast
qed

text \<open>
  C39. Topological sorting, whatever the order of the dictionary: \<open>topsort\<close> returns an answer exactly
  for an acyclic list of pairs, and then lists every element once, after all of its parents.  On a
  cyclic list it raises \<open>CycleError\<close>, never a \<open>KeyError\<close>: the answer so far is an ordered list of the
  elements that are not reached from a cycle, and the counts that are left are those of the
  elements reached from a cycle, with their number of parents among them.
\<close>

theorem topsort_correct:
  assumes "\<And>l. mset (keys l) = mset l"
  shows "\<exists>ans np ch.
    topsort keys ps = (if acyclic (set ps) then Inr ans else Inl (CycleError (Some ans) np ch)) \<and>
    distinct ans \<and> set ans = Field (set ps) - below_cycle (set ps) \<and>
    (\<forall>j < length ans. \<forall>p. (p, ans ! j) \<in> set ps \<longrightarrow> p \<in> set (take j ans)) \<and>
    (\<forall>x. map_of np x = (if x \<in> below_cycle (set ps)
       then Some (int (length (filter (\<lambda>(p, c). c = x \<and> p \<in> below_cycle (set ps)) ps))) else None))"
  using topsort_result [OF assms, of ps] by metis

theorem topsort_correct_witness:
  "topsort rev [(1, 2), (2, 3), (3, 2)] = Inl (CycleError (Some [1 :: nat]) [(2, 1), (3, 1)] [(2, [3]), (3, [2])]) \<and>
   topsort rev [(1 :: nat, 2), (1, 3), (2, 4), (3, 4), (5, 6), (4, 5)] = Inr [1, 2, 3, 4, 5, 6] \<and>
   Field (set [(1 :: nat, 2), (2, 3), (3, 2)]) - below_cycle (set [(1, 2), (2, 3), (3, 2)]) = {1}"
proof -
  have a: "topsort rev [(1, 2), (2, 3), (3, 2)] = Inl (CycleError (Some [1 :: nat]) [(2, 1), (3, 1)] [(2, [3]), (3, [2])])"
    by code_simp
  have b: "topsort rev [(1 :: nat, 2), (1, 3), (2, 4), (3, 4), (5, 6), (4, 5)] = Inr [1, 2, 3, 4, 5, 6]"
    by code_simp
  define ps where "ps = [(1 :: nat, 2), (2, 3), (3, 2 :: nat)]"
  have "\<exists>ans np ch. (topsort rev ps = Inr ans \<or> topsort rev ps = Inl (CycleError (Some ans) np ch)) \<and>
      set ans = Field (set ps) - below_cycle (set ps)"
    using topsort_correct [of rev ps, OF mset_rev] by metis
  then have "Field (set [(1 :: nat, 2), (2, 3), (3, 2)]) - below_cycle (set [(1, 2), (2, 3), (3, 2)]) = set [1]"
    unfolding ps_def a by auto
  then have "Field (set [(1 :: nat, 2), (2, 3), (3, 2)]) - below_cycle (set [(1, 2), (2, 3), (3, 2)]) = {1}"
    by (simp only: list.set)
  with a b show ?thesis by blast
qed

section \<open>The levels\<close>

text \<open>\<open>deep ps k\<close>: the elements with a chain of at least \<open>k\<close> ancestors.\<close>

definition deep :: "('a \<times> 'a) list \<Rightarrow> nat \<Rightarrow> 'a set" where
  "deep ps k = {x \<in> Field (set ps). \<exists>y. (y, x) \<in> set ps ^^ k}"

lemma deep_0: "deep ps 0 = Field (set ps)"
  by (simp add: deep_def)

lemma deep_Suc: "deep ps (Suc k) = {x. \<exists>p \<in> deep ps k. (p, x) \<in> set ps}"
  by (auto simp: deep_def Field_def)

lemma deep_mono: "deep ps (Suc k) \<subseteq> deep ps k"
proof (induction k)
  case (Suc k)
  then show ?case unfolding deep_Suc [of ps "Suc k"] deep_Suc [of ps k] by blast
qed (auto simp: deep_def Field_def)

lemma remove_level_spec:
  assumes "parents_view ps D np" "children_view ps D ch" "distinct lv" "set lv \<inter> D = {}"
    "set lv \<subseteq> Field (set ps)" "\<And>p c. p \<in> set lv \<Longrightarrow> (p, c) \<in> set ps \<Longrightarrow> c \<notin> D \<union> set lv"
  shows "\<exists>np' ch'. remove_level lv np ch = Inr (np', ch') \<and>
    parents_view ps (D \<union> set lv) np' \<and> children_view ps (D \<union> set lv) ch'"
  using assms
proof (induction lv arbitrary: D np ch)
  case (Cons p lv)
  have pD: "p \<notin> D" and pF: "p \<in> Field (set ps)" using Cons.prems(4,5) by auto
  have split: "waiting ps D x = waiting ps (insert p D) x + count_list (succs ps p) x" for x
    by (rule waiting_insert [OF pD])
  let ?K = "Field (set ps) - insert p D"
  have p: "map_of np p \<noteq> None" using Cons.prems(1) pD pF by (simp add: parents_view_def)
  have del: "map_of (AList.delete p np) x =
      (if x \<in> ?K then Some (int (waiting ps (insert p D) x + count_list (succs ps p) x)) else None)" for x
    using Cons.prems(1) split [of x] by (simp add: delete_conv' parents_view_def)
  have ch: "map_of ch p = (if succs ps p = [] then None else Some (succs ps p))"
    using Cons.prems(2) pD by (simp add: children_view_def)
  have kids: "set (succs ps p) \<subseteq> ?K"
    using Cons.prems(6) [of p] by (auto simp: set_succs Field_def)
  obtain np1 where np1: "decrement (succs ps p) (AList.delete p np) = Inr np1"
    "\<forall>x. map_of np1 x = (if x \<in> ?K then Some (int (waiting ps (insert p D) x)) else None)"
    using decrement_spec [OF del kids] by blast
  then have pv: "parents_view ps (insert p D) np1" by (simp add: parents_view_def)
  let ?ch = "if succs ps p = [] then ch else AList.delete p ch"
  have cv: "children_view ps (insert p D) ?ch"
    using Cons.prems(2) by (auto simp: children_view_def delete_conv')
  have step: "remove_level (p # lv) np ch = remove_level lv np1 ?ch"
  proof (cases "succs ps p = []")
    case True
    then show ?thesis using ch p np1(1) by auto
  next
    case False
    then show ?thesis using ch p np1(1) by auto
  qed
  have "\<exists>np' ch'. remove_level lv np1 ?ch = Inr (np', ch') \<and>
      parents_view ps (insert p D \<union> set lv) np' \<and> children_view ps (insert p D \<union> set lv) ch'"
  proof (rule Cons.IH [OF pv cv])
    show "distinct lv" "set lv \<inter> insert p D = {}" "set lv \<subseteq> Field (set ps)"
      using Cons.prems(3,4,5) by auto
    fix q c assume "q \<in> set lv" "(q, c) \<in> set ps"
    then show "c \<notin> insert p D \<union> set lv" using Cons.prems(6) [of q c] by auto
  qed
  then show ?case unfolding step by (simp add: insert_commute)
qed simp

definition levels_from :: "('a \<times> 'a) list \<Rightarrow> nat \<Rightarrow> 'a list list \<Rightarrow> 'a failure option \<Rightarrow> bool" where
  "levels_from ps k ls e \<longleftrightarrow>
     (\<forall>i < length ls. ls ! i \<noteq> [] \<and> distinct (ls ! i) \<and> set (ls ! i) = deep ps (k + i) - deep ps (Suc (k + i))) \<and>
     deep ps (k + length ls) = deep ps (Suc (k + length ls)) \<and>
     (if deep ps (k + length ls) = {} then e = None
      else \<exists>np ch. e = Some (CycleError None np ch) \<and> dom (map_of np) = deep ps (k + length ls))"

lemma topsort_levels_core_levels:
  assumes keys: "\<And>k l. mset (keys k l) = mset l"
  shows "parents_view ps (Field (set ps) - deep ps k) np \<Longrightarrow> distinct (map fst np) \<Longrightarrow>
    children_view ps (Field (set ps) - deep ps k) ch \<Longrightarrow>
    case topsort_levels_core keys k np ch of (ls, e) \<Rightarrow> levels_from ps k ls e"
proof (induction "length np" arbitrary: k np ch rule: less_induct)
  case less
  let ?D = "Field (set ps) - deep ps k" and ?lv = "without_parent (keys k) np"
  have dF: "deep ps k \<subseteq> Field (set ps)" by (auto simp: deep_def)
  have np: "map_of np x = (if x \<in> deep ps k then Some (int (waiting ps ?D x)) else None)" for x
    using less.prems(1) dF by (auto simp: parents_view_def)
  have deep': "deep ps (Suc k) = {x \<in> deep ps k. waiting ps ?D x \<noteq> 0}"
    using deep_mono [of ps k] by (auto simp: waiting_0 deep_Suc) (auto simp: Field_def)
  have lv: "set ?lv = deep ps k - deep ps (Suc k)"
    unfolding set_without_parent [of "keys k", OF keys] deep' by (auto simp: np)
  have dist: "distinct ?lv" by (rule distinct_without_parent [of "keys k", OF keys less.prems(2)])
  show ?case
  proof (cases "?lv = []")
    case True
    then have eq: "deep ps k = deep ps (Suc k)" using lv deep_mono [of ps k] by auto
    have dom: "dom (map_of np) = deep ps k" using np by (auto split: if_splits)
    have "np = [] \<longleftrightarrow> deep ps k = {}" using dom by (cases np) auto
    then show ?thesis
      using True eq dom by (subst topsort_levels_core.simps) (auto simp: levels_from_def)
  next
    case False
    have D': "?D \<union> set ?lv = Field (set ps) - deep ps (Suc k)"
      using lv dF deep_mono [of ps k] by blast
    have "\<exists>np' ch'. remove_level ?lv np ch = Inr (np', ch') \<and>
      parents_view ps (?D \<union> set ?lv) np' \<and> children_view ps (?D \<union> set ?lv) ch'"
    proof (rule remove_level_spec [OF less.prems(1,3) dist])
      show "set ?lv \<inter> ?D = {}" "set ?lv \<subseteq> Field (set ps)" using lv dF by auto
      fix p c assume "p \<in> set ?lv" "(p, c) \<in> set ps"
      then have "c \<in> deep ps (Suc k)" using lv by (auto simp: deep_Suc)
      then show "c \<notin> ?D \<union> set ?lv" unfolding D' by simp
    qed
    then obtain np' ch' where rl: "remove_level ?lv np ch = Inr (np', ch')"
      and views: "parents_view ps (Field (set ps) - deep ps (Suc k)) np'"
        "children_view ps (Field (set ps) - deep ps (Suc k)) ch'"
      unfolding D' by blast
    have shorter: "length np' < length np" using remove_level_length [OF rl] False by simp
    have "distinct (map fst np')" by (rule remove_level_distinct [OF rl less.prems(2)])
    then have IH: "case topsort_levels_core keys (Suc k) np' ch' of (ls, e) \<Rightarrow> levels_from ps (Suc k) ls e"
      by (rule less.hyps [OF shorter views(1) _ views(2)])
    obtain ls e where ls: "topsort_levels_core keys (Suc k) np' ch' = (ls, e)" by fastforce
    then have tail: "levels_from ps (Suc k) ls e" using IH by simp
    have "levels_from ps k (?lv # ls) e"
      unfolding levels_from_def length_Cons
    proof (intro conjI)
      show "\<forall>i < Suc (length ls). (?lv # ls) ! i \<noteq> [] \<and> distinct ((?lv # ls) ! i) \<and>
          set ((?lv # ls) ! i) = deep ps (k + i) - deep ps (Suc (k + i))"
        using tail False dist lv by (auto simp: levels_from_def nth_Cons split: nat.split)
      show "deep ps (k + Suc (length ls)) = deep ps (Suc (k + Suc (length ls)))"
        using tail by (simp add: levels_from_def)
      have "if deep ps (Suc k + length ls) = {} then e = None
        else \<exists>np ch. e = Some (CycleError None np ch) \<and> dom (map_of np) = deep ps (Suc k + length ls)"
        using tail unfolding levels_from_def by blast
      then show "if deep ps (k + Suc (length ls)) = {} then e = None
        else \<exists>np ch. e = Some (CycleError None np ch) \<and> dom (map_of np) = deep ps (k + Suc (length ls))"
        by (simp only: add_Suc add_Suc_right)
    qed
    moreover have "topsort_levels_core keys k np ch = (?lv # ls, e)"
      using False rl ls by (subst topsort_levels_core.simps) (simp add: Let_def)
    ultimately show ?thesis by simp
  qed
qed

lemma below_cycle_parent: "x \<in> below_cycle R \<Longrightarrow> \<exists>p \<in> below_cycle R. (p, x) \<in> R"
proof -
  assume "x \<in> below_cycle R"
  then obtain y where y: "(y, y) \<in> R\<^sup>+" "(y, x) \<in> R\<^sup>+"
    by (auto simp: below_cycle_def dest: trancl_rtrancl_trancl)
  from y(2) obtain z where "(y, z) \<in> R\<^sup>*" "(z, x) \<in> R" by (meson tranclD2)
  with y(1) show ?thesis by (auto simp: below_cycle_def)
qed

lemma below_cycle_deep: "below_cycle (set ps) \<subseteq> deep ps k"
proof (induction k)
  case (Suc k)
  then show ?case unfolding deep_Suc using below_cycle_parent [of _ "set ps"] by blast
qed (simp add: deep_0 below_cycle_Field)

lemma deep_fixed: "deep ps k = deep ps (Suc k) \<Longrightarrow> deep ps k = below_cycle (set ps)"
proof
  assume eq: "deep ps k = deep ps (Suc k)"
  show "deep ps k \<subseteq> below_cycle (set ps)"
  proof
    fix x assume x: "x \<in> deep ps k"
    show "x \<in> below_cycle (set ps)"
    proof (rule orphans_below_cycle [where S = "deep ps k"])
      fix z assume "z \<in> deep ps k"
      then have "z \<in> deep ps (Suc k)" using eq by (rule back_subst [of "\<lambda>S. z \<in> S"])
      then show "\<exists>p \<in> deep ps k. (p, z) \<in> set ps" by (simp add: deep_Suc)
    qed (use x in auto)
  qed
qed (rule below_cycle_deep)

lemma deep_telescope: "(\<Union>i < n. deep ps i - deep ps (Suc i)) = Field (set ps) - deep ps n"
proof (induction n)
  case (Suc n)
  have "deep ps (Suc n) \<subseteq> deep ps n" "deep ps n \<subseteq> Field (set ps)"
    by (rule deep_mono) (auto simp: deep_def)
  with Suc show ?case by (auto simp: lessThan_Suc)
qed (simp add: deep_0)

text \<open>
  Sorting into levels: the level with index \<open>i\<close> is never empty and holds, once each, exactly the elements
  whose longest chain of ancestors has length \<open>i\<close>.  The generator ends normally exactly for an
  acyclic list of pairs; otherwise it yields the levels of all elements that are not reached from
  a cycle and then raises \<open>CycleError\<close> with the counts of the others.
\<close>

theorem topsort_levels_depth:
  assumes "\<And>k l. mset (keys k l) = mset l"
  shows "\<exists>ls e. topsort_levels keys ps = (ls, e) \<and>
    (\<forall>i < length ls. ls ! i \<noteq> [] \<and> distinct (ls ! i) \<and>
       (\<forall>x. x \<in> set (ls ! i) \<longleftrightarrow> x \<in> Field (set ps) \<and>
          (\<exists>y. (y, x) \<in> set ps ^^ i) \<and> \<not> (\<exists>y. (y, x) \<in> set ps ^^ Suc i))) \<and>
    (\<Union>l \<in> set ls. set l) = Field (set ps) - below_cycle (set ps) \<and>
    (if acyclic (set ps) then e = None
     else \<exists>np ch. e = Some (CycleError None np ch) \<and> dom (map_of np) = below_cycle (set ps))"
proof -
  obtain np ch where st: "count_parents ps = (np, ch)" by fastforce
  note view = count_parents_view [of ps, unfolded st prod.case]
  obtain ls e where ls: "topsort_levels_core keys 0 np ch = (ls, e)" by fastforce
  have from0: "levels_from ps 0 ls e"
    using topsort_levels_core_levels [of keys ps 0 np ch, OF assms] view ls by (simp add: deep_0)
  then have lv: "\<And>i. i < length ls \<Longrightarrow> ls ! i \<noteq> [] \<and> distinct (ls ! i) \<and> set (ls ! i) = deep ps i - deep ps (Suc i)"
    unfolding levels_from_def add_0 by blast
  have "deep ps (length ls) = deep ps (Suc (length ls))"
    using from0 unfolding levels_from_def add_0 by blast
  then have last: "deep ps (length ls) = below_cycle (set ps)" by (rule deep_fixed)
  have "set ls = (!) ls ` {..< length ls}" by (auto simp: in_set_conv_nth)
  then have "(\<Union>l \<in> set ls. set l) = (\<Union>i < length ls. set (ls ! i))" by simp
  also have "\<dots> = (\<Union>i < length ls. deep ps i - deep ps (Suc i))"
    using lv by (intro SUP_cong) auto
  finally have "(\<Union>l \<in> set ls. set l) = (\<Union>i < length ls. deep ps i - deep ps (Suc i))" .
  then have "(\<Union>l \<in> set ls. set l) = Field (set ps) - below_cycle (set ps)"
    unfolding deep_telescope last .
  moreover have "if deep ps (length ls) = {} then e = None
     else \<exists>np ch. e = Some (CycleError None np ch) \<and> dom (map_of np) = deep ps (length ls)"
    using from0 unfolding levels_from_def add_0 by blast
  then have "if acyclic (set ps) then e = None
     else \<exists>np ch. e = Some (CycleError None np ch) \<and> dom (map_of np) = below_cycle (set ps)"
    unfolding last acyclic_iff_below .
  moreover have "\<forall>i < length ls. ls ! i \<noteq> [] \<and> distinct (ls ! i) \<and>
       (\<forall>x. x \<in> set (ls ! i) \<longleftrightarrow> x \<in> Field (set ps) \<and>
          (\<exists>y. (y, x) \<in> set ps ^^ i) \<and> \<not> (\<exists>y. (y, x) \<in> set ps ^^ Suc i))"
    using lv by (auto simp: deep_def)
  moreover have "topsort_levels keys ps = (ls, e)" using st ls by (simp add: topsort_levels_def)
  ultimately show ?thesis by blast
qed

theorem topsort_levels_depth_witness:
  "topsort_levels (\<lambda>_. rev) [(1 :: nat, 2), (3, 4), (5, 6), (1, 3), (1, 5), (1, 6), (2, 5)] =
     ([[1], [3, 2], [5, 4], [6]], None) \<and>
   acyclic (set [(1 :: nat, 2), (3, 4), (5, 6), (1, 3), (1, 5), (1, 6), (2, 5)])"
proof -
  let ?ps = "[(1 :: nat, 2), (3, 4), (5, 6), (1, 3), (1, 5), (1, 6), (2, 5 :: nat)]"
  have a: "topsort_levels (\<lambda>_. rev) ?ps = ([[1], [3, 2], [5, 4], [6]], None)" by code_simp
  define ps where "ps = ?ps"
  have "\<exists>ls e. topsort_levels (\<lambda>_. rev) ps = (ls, e) \<and> (e = None \<longrightarrow> acyclic (set ps))"
    using topsort_levels_depth [of "\<lambda>_. rev" ps, OF mset_rev]
    by (elim exE conjE) (intro exI conjI impI, assumption, metis option.distinct(1))
  then have "acyclic (set ?ps)" unfolding ps_def a by simp
  with a show ?thesis by blast
qed

section \<open>The documented examples\<close>

lemma topsort_examples:
  "topsort id [(1 :: nat, 2), (3, 4), (5, 6), (1, 3), (1, 5), (1, 6), (2, 5)] = Inr [1, 2, 3, 5, 4, 6]"
  "topsort id [(1 :: nat, 2), (1, 3), (2, 4), (3, 4), (5, 6), (4, 5)] = Inr [1, 2, 3, 4, 5, 6]"
  by code_simp+

lemma topsort_levels_examples:
  "topsort_levels (\<lambda>_. id) [(1 :: nat, 2), (1, 3), (2, 4), (3, 4), (5, 6), (4, 5)] =
     ([[1], [2, 3], [4], [5], [6]], None)"
  "topsort_levels (\<lambda>_. id) [(1 :: nat, 2), (2, 3), (3, 4), (4, 3)] =
     ([[1], [2]], Some (CycleError None [(3, 1), (4, 1)] [(3, [4]), (4, [3])]))"
  by code_simp+

text \<open>
  The comment before the exception of \<open>topsort\<close> says that every element left over has a child; an
  element below a cycle need not have one (it has a parent).
\<close>

lemma leftover_without_child:
  "topsort id [(1 :: nat, 2), (2, 1), (2, 3)] =
     Inl (CycleError (Some []) [(1, 1), (2, 1), (3, 1)] [(1, [2]), (2, [1, 3])])"
  by code_simp

end
