(* ===== verification/Cycles.thy ===== *)
theory Cycles
  imports RadUtil
begin

text \<open>
  \<open>find_cycles\<close> of \<open>bindings/python/topsort.py\<close>: all cycles of a graph given by the children of its
  nodes.  The graph is a dictionary, an association list in its iteration order.  The stack of
  paths has its top at the head of the list; the generator is the list of the cycles it yields.
  The main theorem is that every elementary cycle is yielded exactly once up to rotation.
\<close>

type_synonym 'a graph = "('a \<times> 'a list) list"

fun dup_cycle :: "'a list list \<Rightarrow> 'a list \<Rightarrow> bool res" where
  "dup_cycle [] cycle = Inr False"
| "dup_cycle (other_cycle # cs) cycle =
     bindE (is_rotated other_cycle cycle) (\<lambda>r. if r then Inr True else dup_cycle cs cycle)"

definition add_cycle :: "'a list list \<Rightarrow> 'a list \<Rightarrow> 'a list list res" where
  "add_cycle cycles cycle =
     bindE (dup_cycle cycles cycle) (\<lambda>is_dup. Inr (if is_dup then cycles else cycles @ [cycle]))"

definition path_from :: "'a \<Rightarrow> 'a list \<Rightarrow> 'a list" where
  "path_from child path = dropWhile (\<lambda>x. x \<noteq> child) path"

fun visit_children :: "'a list \<Rightarrow> 'a list \<Rightarrow> 'a list list \<Rightarrow> 'a list list \<Rightarrow> 'a set \<Rightarrow>
    ('a list list \<times> 'a list list \<times> 'a set) res" where
  "visit_children path [] paths cycles visited = Inr (paths, cycles, visited)"
| "visit_children path (child # cs) paths cycles visited =
     (if child \<in> set path
      then bindE (add_cycle cycles (path_from child path))
             (\<lambda>cycles'. visit_children path cs paths cycles' visited)
      else visit_children path cs ((path @ [child]) # paths) cycles (insert child visited))"

definition all_children :: "'a graph \<Rightarrow> 'a set" where
  "all_children g = set (concat (map snd g))"

definition path_weight :: "'a graph \<Rightarrow> 'a list \<Rightarrow> nat" where
  "path_weight g path =
     Suc (sum_list (map (length \<circ> snd) g)) ^ card (all_children g - set path)"

lemma visit_children_paths:
  "visit_children path cs paths cycles visited = Inr (paths', cycles', visited') \<Longrightarrow>
   paths' = rev (map (\<lambda>c. path @ [c]) (filter (\<lambda>c. c \<notin> set path) cs)) @ paths \<and>
   visited' = visited \<union> (set cs - set path)"
proof (induction path cs paths cycles visited rule: visit_children.induct)
  case (2 path c cs paths cycles visited)
  then show ?case by (cases "c \<in> set path") (auto simp: res_simps)
qed simp

lemma pushed_weight:
  assumes "map_of g x = Some cs"
  shows "sum_list (map (path_weight g) (map (\<lambda>c. path @ [c]) (filter (\<lambda>c. c \<notin> set path) cs)))
    < path_weight g path"
proof -
  let ?d = "sum_list (map (length \<circ> snd) g)" and ?cs = "filter (\<lambda>c. c \<notin> set path) cs"
  let ?m = "card (all_children g - set path)"
  have mem: "(x, cs) \<in> set g" using assms by (rule map_of_SomeD)
  then have "(length \<circ> snd) (x, cs) \<le> ?d" by (intro member_le_sum_list) force+
  then have len: "length ?cs \<le> ?d" by (metis comp_def le_trans length_filter_le snd_conv)
  have w: "path_weight g (path @ [c]) * Suc ?d = path_weight g path" if "c \<in> set ?cs" for c
  proof -
    have c: "c \<in> all_children g - set path" using mem that by (force simp: all_children_def)
    have "all_children g - set (path @ [c]) = (all_children g - set path) - {c}" by auto
    then have "card (all_children g - set (path @ [c])) = ?m - 1" using c by simp
    moreover have "?m > 0" using c by (auto simp: card_gt_0_iff all_children_def)
    ultimately show ?thesis by (simp add: path_weight_def power_eq_if)
  qed
  have pos: "0 < path_weight g path" by (simp add: path_weight_def)
  let ?s = "sum_list (map (path_weight g) (map (\<lambda>c. path @ [c]) ?cs))"
  have "?s * Suc ?d = sum_list (map (\<lambda>c. path_weight g (path @ [c]) * Suc ?d) ?cs)"
    by (simp add: comp_def sum_list_mult_const del: mult_Suc_right)
  also have "\<dots> = sum_list (map (\<lambda>_. path_weight g path) ?cs)"
    by (rule arg_cong [where f = sum_list], rule map_cong [OF refl w])
  also have "\<dots> = length ?cs * path_weight g path"
    by (simp add: sum_list_triv)
  also have "\<dots> \<le> ?d * path_weight g path" using len by (rule mult_le_mono1)
  also have "\<dots> < Suc ?d * path_weight g path" using pos by simp
  finally show ?thesis by (metis mult.commute mult_less_cancel2)
qed

function path_loop :: "'a graph \<Rightarrow> 'a list list \<Rightarrow> 'a list list \<Rightarrow> 'a set \<Rightarrow> ('a list list \<times> 'a set) res" where
  "path_loop g [] cycles visited = Inr (cycles, visited)"
| "path_loop g (path # paths) cycles visited =
     bindE (py_index path (- 1)) (\<lambda>parent.
       case map_of g parent of
         None \<Rightarrow> path_loop g paths cycles visited
       | Some children \<Rightarrow>
           bindE (visit_children path children paths cycles visited) (\<lambda>(paths', cycles', visited').
             path_loop g paths' cycles' visited'))"
  by pat_completeness auto
termination
proof (relation "measure (\<lambda>(g, paths, _, _). sum_list (map (path_weight g) paths))", goal_cases)
  case (2 g path paths cycles visited parent)
  then show ?case by (simp add: path_weight_def)
next
  case (3 g path paths cycles visited parent children st x y xa ya)
  then have "x = rev (map (\<lambda>c. path @ [c]) (filter (\<lambda>c. c \<notin> set path) children)) @ paths"
    using visit_children_paths [of path children paths cycles visited x xa ya] by simp
  then show ?case using pushed_weight [OF 3(2), of path] by (simp add: rev_map [symmetric])
qed simp

fun start_loop :: "'a graph \<Rightarrow> 'a list \<Rightarrow> 'a list list \<Rightarrow> 'a set \<Rightarrow> 'a list list res" where
  "start_loop g [] cycles visited = Inr cycles"
| "start_loop g (parent # parents) cycles visited =
     (if parent \<in> visited then start_loop g parents cycles visited
      else bindE (path_loop g [[parent]] cycles visited)
             (\<lambda>(cycles', visited'). start_loop g parents cycles' visited'))"

definition find_cycles :: "'a graph \<Rightarrow> 'a list list res" where
  "find_cycles parent_children = start_loop parent_children (map fst parent_children) [] {}"

section \<open>Cycles up to rotation\<close>

definition edge :: "'a graph \<Rightarrow> 'a \<Rightarrow> 'a \<Rightarrow> bool" where
  "edge g x y \<longleftrightarrow> (case map_of g x of None \<Rightarrow> False | Some cs \<Rightarrow> y \<in> set cs)"

definition is_path :: "'a graph \<Rightarrow> 'a list \<Rightarrow> bool" where
  "is_path g p \<longleftrightarrow> p \<noteq> [] \<and> distinct p \<and> successively (edge g) p"

definition is_cycle :: "'a graph \<Rightarrow> 'a list \<Rightarrow> bool" where
  "is_cycle g c \<longleftrightarrow> is_path g c \<and> edge g (last c) (hd c)"

definition rotated :: "'a list \<Rightarrow> 'a list \<Rightarrow> bool" where
  "rotated xs ys \<longleftrightarrow> (\<exists>n. rotate n xs = ys)"

definition covers :: "'a list list \<Rightarrow> 'a list \<Rightarrow> bool" where
  "covers cycles c \<longleftrightarrow> (\<exists>c' \<in> set cycles. rotated c' c)"

definition no_rotations :: "'a list list \<Rightarrow> bool" where
  "no_rotations cycles \<longleftrightarrow> (\<forall>j < length cycles. \<forall>i < j. \<not> rotated (cycles ! i) (cycles ! j))"

lemma rotated_refl: "rotated xs xs"
  by (auto simp: rotated_def intro: exI [of _ 0])

lemma rotated_trans: "rotated xs ys \<Longrightarrow> rotated ys zs \<Longrightarrow> rotated xs zs"
  by (auto simp: rotated_def rotate_rotate)

lemma rotated_sym: "rotated xs ys \<Longrightarrow> rotated ys xs"
proof -
  assume "rotated xs ys"
  then obtain n where n: "ys = rotate n xs" by (auto simp: rotated_def)
  have "rotate ((length xs - n mod length xs) + n mod length xs) xs = xs"
    by (cases "xs = []") (simp_all add: mod_le_divisor)
  then have "rotate (length xs - n mod length xs) ys = xs"
    using n rotate_conv_mod [of n xs] by (simp add: rotate_rotate)
  then show ?thesis by (auto simp: rotated_def)
qed

lemma rotated_iff: "rotated xs ys \<Longrightarrow> rotated xs zs \<longleftrightarrow> rotated ys zs"
  by (meson rotated_sym rotated_trans)

lemma dup_cycle_covers:
  "cycle \<noteq> [] \<Longrightarrow> dup_cycle cycles cycle = Inr (covers cycles cycle)"
  by (induction cycles) (auto simp: is_rotated_iff covers_def rotated_def)

lemma add_cycle_result:
  "cycle \<noteq> [] \<Longrightarrow>
   add_cycle cycles cycle = Inr (if covers cycles cycle then cycles else cycles @ [cycle])"
  by (simp add: add_cycle_def dup_cycle_covers)

definition good :: "'a graph \<Rightarrow> 'a list list \<Rightarrow> bool" where
  "good g cycles \<longleftrightarrow> (\<forall>c \<in> set cycles. is_cycle g c) \<and> no_rotations cycles"

lemma add_cycle_good:
  assumes "good g cycles" "is_cycle g c"
  obtains cycles' where "add_cycle cycles c = Inr cycles'" "good g cycles'"
    "set cycles \<subseteq> set cycles'" "covers cycles' c"
proof -
  have "c \<noteq> []" using assms(2) by (simp add: is_cycle_def is_path_def)
  note res = add_cycle_result [OF this, of cycles]
  show thesis
  proof (cases "covers cycles c")
    case True
    with res assms(1) show thesis by (intro that [of cycles]) simp_all
  next
    case False
    then have "no_rotations (cycles @ [c])"
      using assms(1) by (auto simp: good_def no_rotations_def covers_def nth_append less_Suc_eq)
    then have "good g (cycles @ [c])" using assms by (auto simp: good_def)
    with res False show thesis
      by (intro that [of "cycles @ [c]"]) (auto simp: covers_def intro: rotated_refl)
  qed
qed

lemma path_from_split:
  assumes "c \<in> set path"
  obtains us where "path = us @ path_from c path" "hd (path_from c path) = c" "path_from c path \<noteq> []"
proof -
  have "path = takeWhile (\<lambda>x. x \<noteq> c) path @ path_from c path"
    by (simp add: path_from_def)
  moreover have "path_from c path \<noteq> []"
    using assms by (auto simp: path_from_def dropWhile_eq_Nil_conv)
  moreover from this have "hd (path_from c path) = c"
    using hd_dropWhile [of "\<lambda>x. x \<noteq> c" path] by (auto simp: path_from_def)
  ultimately show thesis using that by blast
qed

lemma path_from_cycle:
  assumes "is_path g path" "c \<in> set path" "edge g (last path) c"
  shows "is_cycle g (path_from c path)"
proof -
  obtain us where us: "path = us @ path_from c path" "hd (path_from c path) = c" "path_from c path \<noteq> []"
    using path_from_split [OF assms(2)] .
  have "is_path g (us @ path_from c path)" using assms(1) us(1) by simp
  then have "is_path g (path_from c path)"
    using us(3) by (auto simp: is_path_def successively_append_iff)
  moreover have "last (path_from c path) = last path" using us(1,3) by (metis last_append)
  ultimately show ?thesis using us assms(3) by (simp add: is_cycle_def)
qed

lemma visit_children_good:
  assumes "is_path g path" "good g cycles" "\<forall>c \<in> set cs. edge g (last path) c"
  obtains paths' cycles' visited' where
    "visit_children path cs paths cycles visited = Inr (paths', cycles', visited')"
    "good g cycles'" "set cycles \<subseteq> set cycles'"
    "\<forall>c \<in> set cs \<inter> set path. covers cycles' (path_from c path)"
  using assms(2,3)
proof (induction cs arbitrary: paths cycles visited thesis)
  case (Cons c cs)
  show ?case
  proof (cases "c \<in> set path")
    case True
    have "is_cycle g (path_from c path)"
      using path_from_cycle [OF assms(1) True] Cons.prems(3) by simp
    then obtain cycles1 where c1: "add_cycle cycles (path_from c path) = Inr cycles1" "good g cycles1"
      "set cycles \<subseteq> set cycles1" "covers cycles1 (path_from c path)"
      using add_cycle_good Cons.prems(2) by blast
    obtain paths' cycles' visited' where
      "visit_children path cs paths cycles1 visited = Inr (paths', cycles', visited')"
      "good g cycles'" "set cycles1 \<subseteq> set cycles'"
      "\<forall>c \<in> set cs \<inter> set path. covers cycles' (path_from c path)"
      using Cons.IH [of paths cycles1 visited] c1(2) Cons.prems(3) by auto
    moreover from this(3) c1(4) have "covers cycles' (path_from c path)"
      by (auto simp: covers_def)
    ultimately show ?thesis using c1(1,3) True by (intro Cons.prems(1)) auto
  next
    case False
    obtain paths' cycles' visited' where
      "visit_children path cs ((path @ [c]) # paths) cycles (insert c visited) = Inr (paths', cycles', visited')"
      "good g cycles'" "set cycles \<subseteq> set cycles'"
      "\<forall>c \<in> set cs \<inter> set path. covers cycles' (path_from c path)"
      using Cons.IH [of "(path @ [c]) # paths" cycles "insert c visited"] Cons.prems(2,3) by auto
    with False show ?thesis by (intro Cons.prems(1)) auto
  qed
qed auto

section \<open>Exploration\<close>

text \<open>\<open>explored\<close>: every extension of the path by a simple path has only visited nodes, and all cycles that
  close on it are found.\<close>

definition explored :: "'a graph \<Rightarrow> 'a list list \<Rightarrow> 'a set \<Rightarrow> 'a list \<Rightarrow> bool" where
  "explored g cycles visited p \<longleftrightarrow>
     (\<forall>q. is_path g (p @ q) \<longrightarrow> set q \<subseteq> visited \<and>
        (\<forall>c \<in> set (p @ q). edge g (last (p @ q)) c \<longrightarrow> covers cycles (path_from c (p @ q))))"

definition reaches :: "'a graph \<Rightarrow> 'a set \<Rightarrow> bool" where
  "reaches g R \<longleftrightarrow> (\<forall>x \<in> R. \<forall>y. edge g x y \<longrightarrow> y \<in> R)"

lemma explored_mono:
  "explored g cycles visited p \<Longrightarrow> set cycles \<subseteq> set cycles' \<Longrightarrow> visited \<subseteq> visited' \<Longrightarrow>
   explored g cycles' visited' p"
  unfolding explored_def covers_def by blast

lemma is_path_Cons_edge: "is_path g (p @ c # q) \<Longrightarrow> p \<noteq> [] \<Longrightarrow> edge g (last p) c \<and> c \<notin> set p"
  by (auto simp: is_path_def successively_append_iff)

lemma path_loop_explores:
  assumes "\<forall>p \<in> set paths. is_path g p" "good g cycles"
    "reaches g R" "\<forall>p \<in> set paths. last p \<in> R" "visited \<subseteq> R"
  shows "\<exists>cycles' visited'. path_loop g paths cycles visited = Inr (cycles', visited') \<and>
    good g cycles' \<and> set cycles \<subseteq> set cycles' \<and> visited \<subseteq> visited' \<and> visited' \<subseteq> R \<and>
    (\<forall>p \<in> set paths. explored g cycles' visited' p)"
  using assms
proof (induction g paths cycles visited rule: path_loop.induct)
  case (2 g path paths cycles visited)
  have path: "is_path g path" using "2.prems"(1) by simp
  then have ne: "path \<noteq> []" by (simp add: is_path_def)
  show ?case
  proof (cases "map_of g (last path)")
    case None
    have no_edge: "\<not> edge g (last path) c" for c using None by (simp add: edge_def)
    then have "explored g cycles' visited' path" for cycles' visited'
      unfolding explored_def using is_path_Cons_edge [OF _ ne]
      by (metis (no_types, lifting) append_Nil2 empty_subsetI list.set(1) neq_Nil_conv)
    with None ne "2.IH"(1) [of "last path"] "2.prems" show ?thesis by auto
  next
    case (Some cs)
    have edges: "edge g (last path) c \<longleftrightarrow> c \<in> set cs" for c using Some by (simp add: edge_def)
    obtain paths1 cycles1 visited1 where v:
      "visit_children path cs paths cycles visited = Inr (paths1, cycles1, visited1)"
      "good g cycles1" "set cycles \<subseteq> set cycles1"
      "\<forall>c \<in> set cs \<inter> set path. covers cycles1 (path_from c path)"
      using visit_children_good [OF path "2.prems"(2), of cs paths visited] edges by auto
    note new = visit_children_paths [OF v(1)]
    have paths1: "is_path g p \<and> last p \<in> R" if "p \<in> set paths1" for p
    proof (cases "p \<in> set paths")
      case False
      then obtain c where c: "c \<in> set cs" "c \<notin> set path" "p = path @ [c]" using new \<open>p \<in> set paths1\<close> by auto
      then have "is_path g p"
        using path ne edges by (auto simp: is_path_def successively_append_iff)
      moreover have "c \<in> R" using "2.prems"(3,4) edges c(1) by (auto simp: reaches_def)
      ultimately show ?thesis using c(3) by simp
    qed (use "2.prems"(1,4) in auto)
    have vis1: "visited1 \<subseteq> R" using new "2.prems"(3-5) edges by (auto simp: reaches_def)
    obtain cycles' visited' where IH: "path_loop g paths1 cycles1 visited1 = Inr (cycles', visited')"
      "good g cycles'" "set cycles1 \<subseteq> set cycles'" "visited1 \<subseteq> visited'" "visited' \<subseteq> R"
      "\<forall>p \<in> set paths1. explored g cycles' visited' p"
      using "2.IH"(2) [of "last path" cs "(paths1, cycles1, visited1)" paths1 "(cycles1, visited1)" cycles1 visited1]
        ne Some v(1,2) paths1 "2.prems"(3) vis1 by auto
    have "explored g cycles' visited' path"
      unfolding explored_def
    proof (intro allI impI)
      fix q assume q: "is_path g (path @ q)"
      show "set q \<subseteq> visited' \<and> (\<forall>c \<in> set (path @ q). edge g (last (path @ q)) c \<longrightarrow>
          covers cycles' (path_from c (path @ q)))"
      proof (cases q)
        case Nil
        have "covers cycles1 c \<Longrightarrow> covers cycles' c" for c using IH(3) by (auto simp: covers_def)
        then show ?thesis using v(4) edges Nil by auto
      next
        case (Cons c q')
        then have c: "edge g (last path) c" "c \<notin> set path" using is_path_Cons_edge q ne by metis+
        then have "path @ [c] \<in> set paths1" "c \<in> visited1" using new edges by auto
        then show ?thesis using IH(4,6) q Cons by (fastforce simp: explored_def)
      qed
    qed
    moreover have "set paths \<subseteq> set paths1" "visited \<subseteq> visited1" using new by auto
    moreover have "path_loop g (path # paths) cycles visited = Inr (cycles', visited')"
      using ne Some v(1) IH(1) by simp
    ultimately show ?thesis using IH v(3) by auto
  qed
qed auto

lemma start_loop_explores:
  assumes "good g cycles" "reaches g (visited \<union> {y. \<exists>s \<in> E. (edge g)\<^sup>*\<^sup>* s y})"
    "visited \<subseteq> {y. \<exists>s \<in> E. (edge g)\<^sup>*\<^sup>* s y}" "\<forall>s \<in> E. explored g cycles visited [s]"
  shows "\<exists>cycles' E'. start_loop g parents cycles visited = Inr cycles' \<and> good g cycles' \<and>
    set parents \<subseteq> {y. \<exists>s \<in> E'. (edge g)\<^sup>*\<^sup>* s y} \<and> E \<subseteq> E' \<and> (\<forall>s \<in> E'. explored g cycles' UNIV [s])"
  using assms
proof (induction parents arbitrary: cycles visited E)
  case Nil
  then show ?case by (fastforce intro: explored_mono)
next
  case (Cons parent parents)
  show ?case
  proof (cases "parent \<in> visited")
    case True
    obtain cycles' E' where IH: "start_loop g parents cycles visited = Inr cycles'" "good g cycles'"
      "set parents \<subseteq> {y. \<exists>s \<in> E'. (edge g)\<^sup>*\<^sup>* s y}" "E \<subseteq> E'" "\<forall>s \<in> E'. explored g cycles' UNIV [s]"
      using Cons.IH [OF Cons.prems] by blast
    have "parent \<in> {y. \<exists>s \<in> E'. (edge g)\<^sup>*\<^sup>* s y}" using True Cons.prems(3) IH(4) by blast
    with True IH show ?thesis by auto
  next
    case False
    let ?E = "insert parent E"
    let ?R = "{y. \<exists>s \<in> ?E. (edge g)\<^sup>*\<^sup>* s y}"
    have R: "reaches g ?R" unfolding reaches_def by (blast intro: rtranclp.rtrancl_into_rtrancl)
    have "visited \<subseteq> ?R" using Cons.prems(3) by blast
    then obtain cycles1 visited1 where p: "path_loop g [[parent]] cycles visited = Inr (cycles1, visited1)"
      "good g cycles1" "set cycles \<subseteq> set cycles1" "visited \<subseteq> visited1" "visited1 \<subseteq> ?R"
      "explored g cycles1 visited1 [parent]"
      using path_loop_explores [OF _ Cons.prems(1) R, of "[[parent]]" visited] by (auto simp: is_path_def)
    have "\<forall>s \<in> ?E. explored g cycles1 visited1 [s]"
      using p(3,4,6) Cons.prems(4) by (auto intro: explored_mono)
    moreover have "visited1 \<union> ?R = ?R" using p(5) by blast
    ultimately obtain cycles' E' where IH: "start_loop g parents cycles1 visited1 = Inr cycles'" "good g cycles'"
      "set parents \<subseteq> {y. \<exists>s \<in> E'. (edge g)\<^sup>*\<^sup>* s y}" "?E \<subseteq> E'" "\<forall>s \<in> E'. explored g cycles' UNIV [s]"
      using Cons.IH [OF p(2) _ p(5)] R by auto
    have "parent \<in> {y. \<exists>s \<in> E'. (edge g)\<^sup>*\<^sup>* s y}" using IH(4) by auto
    with False IH p(1) show ?thesis by auto
  qed
qed

lemma simple_path_to:
  assumes "(edge g)\<^sup>*\<^sup>* s x" "x \<in> C"
  shows "\<exists>p y. is_path g (p @ [y]) \<and> hd (p @ [y]) = s \<and> y \<in> C \<and> set p \<inter> C = {}"
  using assms
proof (induction rule: converse_rtranclp_induct)
  case base
  then show ?case by (intro exI [of _ "[]"] exI [of _ x]) (simp add: is_path_def)
next
  case (step s t)
  then obtain p y where p: "is_path g (p @ [y])" "hd (p @ [y]) = t" "y \<in> C" "set p \<inter> C = {}" by blast
  consider (target) "s \<in> C" | (loop) "s \<in> set p" "s \<notin> C" | (new) "s \<notin> set p" "s \<notin> C" by blast
  then show ?case
  proof cases
    case target
    then show ?thesis by (intro exI [of _ "[]"] exI [of _ s]) (simp add: is_path_def)
  next
    case loop
    obtain us where us: "p = us @ path_from s p" "hd (path_from s p) = s" "path_from s p \<noteq> []"
      using path_from_split [OF loop(1)] .
    have "is_path g (us @ path_from s p @ [y])" using p(1) us(1) by (metis append.assoc)
    then have "is_path g (path_from s p @ [y])"
      using us(3) by (auto simp: is_path_def successively_append_iff)
    moreover have "set (path_from s p) \<inter> C = {}"
      using p(4) us(1) by (metis Un_Int_eq(4) disjoint_iff set_append UnCI)
    moreover have "hd (path_from s p @ [y]) = s" using us(2,3) by simp
    ultimately show ?thesis using p(3) by blast
  next
    case new
    then have "s \<noteq> y" using p(3) by blast
    then have "is_path g ((s # p) @ [y])"
      using p(1,2) new step.hyps(1) by (cases p) (auto simp: is_path_def)
    with p(3,4) new show ?thesis by (intro exI [of _ "s # p"] exI [of _ y]) simp
  qed
qed

lemma cycle_from:
  assumes "is_cycle g c" "y \<in> set c"
  obtains q where "is_path g (y # q)" "edge g (last (y # q)) y" "rotated (y # q) c"
proof -
  obtain us vs where c: "c = us @ y # vs" using assms(2) by (meson split_list)
  have "rotated c (y # vs @ us)"
    unfolding rotated_def c by (rule exI [of _ "length us"]) (simp add: rotate_append)
  then have "rotated (y # vs @ us) c" by (rule rotated_sym)
  moreover have "is_path g (y # vs @ us)" "edge g (last (y # vs @ us)) y"
    using assms(1) unfolding c is_cycle_def is_path_def
    by (cases "us = []"; auto simp: successively_append_iff successively_Cons hd_append split: if_splits)+
  ultimately show thesis using that by blast
qed

lemma find_cycles_result:
  "\<exists>cycles. find_cycles g = Inr cycles \<and> good g cycles \<and> (\<forall>c. is_cycle g c \<longrightarrow> covers cycles c)"
proof -
  have "good g []" by (simp add: good_def no_rotations_def)
  then obtain cycles E where st: "start_loop g (map fst g) [] {} = Inr cycles" "good g cycles"
    "set (map fst g) \<subseteq> {y. \<exists>s \<in> E. (edge g)\<^sup>*\<^sup>* s y}" "\<forall>s \<in> E. explored g cycles UNIV [s]"
    using start_loop_explores [of g "[]" "{}" "{}" "map fst g"] by (auto simp: reaches_def)
  have "covers cycles c" if c: "is_cycle g c" for c
  proof -
    have ne: "c \<noteq> []" using c by (simp add: is_cycle_def is_path_def)
    have "edge g (last c) (hd c)" using c by (simp add: is_cycle_def)
    then have "last c \<in> set (map fst g)"
      by (force simp: edge_def dest: map_of_SomeD split: option.splits)
    then obtain s where s: "s \<in> E" "(edge g)\<^sup>*\<^sup>* s (last c)" using st(3) by blast
    obtain p y where p: "is_path g (p @ [y])" "hd (p @ [y]) = s" "y \<in> set c" "set p \<inter> set c = {}"
      using simple_path_to [OF s(2), of "set c"] ne by auto
    obtain q where q: "is_path g (y # q)" "edge g (last (y # q)) y" "rotated (y # q) c"
      by (rule cycle_from [OF c p(3)])
    have "set (y # q) = set c" using q(3) unfolding rotated_def by (metis set_rotate)
    then have "is_path g (p @ y # q)"
      using p(1,4) q(1) unfolding is_path_def by (auto simp: successively_append_iff)
    moreover obtain r where r: "p @ y # q = [s] @ r"
      using p(2) by (cases p) auto
    ultimately have "\<forall>c \<in> set ([s] @ r). edge g (last ([s] @ r)) c \<longrightarrow> covers cycles (path_from c ([s] @ r))"
      using st(4) s(1) unfolding explored_def by fastforce
    then have "covers cycles (path_from y (p @ y # q))"
      unfolding r [symmetric] using q(2) by simp
    moreover have "path_from y (p @ y # q) = y # q"
      using p(3,4) unfolding path_from_def by (subst dropWhile_append2) auto
    ultimately show "covers cycles c" using q(3) unfolding covers_def by (auto intro: rotated_trans)
  qed
  then show ?thesis using st(1,2) by (auto simp: find_cycles_def)
qed

text \<open>
  C19. The search of cycles is complete and without repetition, although it only starts from nodes
  that were not visited before: \<open>find_cycles\<close> returns, everything it yields is a cycle of the graph
  (different nodes, each the parent of the next and the last the parent of the first), and every
  cycle is yielded exactly once up to rotation.
\<close>

theorem find_cycles_complete:
  "\<exists>cycles. find_cycles g = Inr cycles \<and> (\<forall>c \<in> set cycles. is_cycle g c) \<and>
     (\<forall>c. is_cycle g c \<longrightarrow> (\<exists>!i. i < length cycles \<and> (\<exists>n. rotate n (cycles ! i) = c)))"
proof -
  obtain cycles where f: "find_cycles g = Inr cycles" "good g cycles" "\<forall>c. is_cycle g c \<longrightarrow> covers cycles c"
    using find_cycles_result by blast
  have "\<exists>!i. i < length cycles \<and> rotated (cycles ! i) c" if c: "is_cycle g c" for c
  proof (rule ex_ex1I)
    show "\<exists>i. i < length cycles \<and> rotated (cycles ! i) c"
      using f(3) c unfolding covers_def by (metis in_set_conv_nth)
  next
    fix i j assume ij: "i < length cycles \<and> rotated (cycles ! i) c" "j < length cycles \<and> rotated (cycles ! j) c"
    then have "rotated (cycles ! i) (cycles ! j)" "rotated (cycles ! j) (cycles ! i)"
      by (blast intro: rotated_sym rotated_trans)+
    then show "i = j" using f(2) ij by (meson good_def linorder_neqE_nat no_rotations_def)
  qed
  with f(1,2) show ?thesis unfolding good_def rotated_def by blast
qed

definition diamond :: "nat graph" where
  "diamond = [(0, [1, 2]), (1, [3]), (2, [3]), (3, [0, 1])]"

lemma diamond_cycles: "find_cycles diamond = Inr [[0, 2, 3], [3, 1], [0, 1, 3]]"
  by code_simp

lemma find_cycles_complete_witness:
  "find_cycles diamond = Inr [[0, 2, 3], [3, 1], [0, 1, 3]] \<and> is_cycle diamond [2, 3, 0] \<and>
   (\<exists>!i. i < 3 \<and> (\<exists>n. rotate n ([[0, 2, 3], [3, 1], [0, 1, 3]] ! i) = [2, 3, 0 :: nat]))"
proof -
  have c: "is_cycle diamond [2, 3, 0]" by code_simp
  obtain cycles where f: "find_cycles diamond = Inr cycles"
    "\<exists>!i. i < length cycles \<and> (\<exists>n. rotate n (cycles ! i) = [2, 3, 0])"
    using find_cycles_complete [of diamond] c by blast
  have cs: "cycles = [[0, 2, 3], [3, 1], [0, 1, 3]]" using f(1) diamond_cycles by simp
  then have len: "length cycles = 3" by simp
  show ?thesis using f(2) c diamond_cycles unfolding len unfolding cs by simp
qed

section \<open>The documented examples\<close>

lemma find_cycles_examples:
  "find_cycles [(''A'', [''B'']), (''B'', [''C'']), (''C'', [''B'', ''D'']), (''D'', [])] = Inr [[''B'', ''C'']]"
  "find_cycles [(''A'', [''B'']), (''B'', [''A'']), (''C'', [''D''])] = Inr [[''A'', ''B'']]"
  "find_cycles [(''A'', [''B1'', ''B2'']), (''B1'', [''C'']), (''B2'', [''C'']), (''C'', [''A'', ''B1''])] =
     Inr [[''A'', ''B2'', ''C''], [''C'', ''B1''], [''A'', ''B1'', ''C'']]"
  "find_cycles [(''TD'', [''DD'']), (''TC'', [''DC'']), (''DC'', [''DQ'']), (''C'', [''DQ'']),
     (''DQ'', [''IA'', ''TO'']), (''IA'', [''A'']), (''A'', [''B'', ''C''])] = Inr [[''DQ'', ''IA'', ''A'', ''C'']]"
  by code_simp+

end
