(* ===== verification/ShellCmd.thy ===== *)
theory ShellCmd
  imports PyBase "HOL-Library.AList" "HOL-Library.Multiset"
begin

text \<open>
  \<open>waf-tools/shellcmd.py\<close>: the command lines of the regression tests, run without a shell.

  \<open>shlex_split\<close> is the part of the standard library that the parser uses (\<open>shlex.split\<close> in POSIX
  mode without comments).  \<open>parse\<close> is the state machine over the tokens; its \<open>assert\<close>s are
  \<open>AssertionError\<close>s.  \<open>run\<close> produces the list of its actions on the operating system together with
  the exit code or the exception.  The operating system is a parameter: \<open>code\<close> gives the exit code
  of the process with a number, \<open>fails\<close> the exception of an action that fails.
\<close>

section \<open>Splitting into tokens\<close>

datatype lex_state = Blank | Word | Quoted char | Escaped lex_state

definition is_blank :: "char \<Rightarrow> bool" where
  "is_blank c \<longleftrightarrow> c \<in> {CHR '' '', CHR 0x09, CHR 0x0D, CHR 0x0A}"

definition is_quote :: "char \<Rightarrow> bool" where
  "is_quote c \<longleftrightarrow> c = CHR 0x27 \<or> c = CHR 0x22"

definition backslash :: char where
  "backslash = CHR 0x5C"

text \<open>\<open>emit\<close>: a token ends; an empty one counts only when it was quoted.\<close>

definition emit :: "bool \<Rightarrow> string \<Rightarrow> string list \<Rightarrow> string list" where
  "emit quoted token rest = (if token = [] \<and> \<not> quoted then rest else token # rest)"

fun lex :: "lex_state \<Rightarrow> bool \<Rightarrow> string \<Rightarrow> string \<Rightarrow> string list res" where
  "lex Blank quoted token [] = Inr (emit quoted token [])"
| "lex Word quoted token [] = Inr (emit quoted token [])"
| "lex (Quoted q) quoted token [] = Inl (ValueError ''No closing quotation'')"
| "lex (Escaped st) quoted token [] = Inl (ValueError ''No escaped character'')"
| "lex Blank quoted token (c # cs) =
     (if is_blank c
      then bindE (lex Blank False [] cs) (\<lambda>ts. Inr (emit quoted token ts))
      else if c = backslash then lex (Escaped Word) quoted token cs
      else if is_quote c then lex (Quoted c) True token cs
      else lex Word quoted [c] cs)"
| "lex Word quoted token (c # cs) =
     (if is_blank c
      then bindE (lex Blank False [] cs) (\<lambda>ts. Inr (emit quoted token ts))
      else if is_quote c then lex (Quoted c) True token cs
      else if c = backslash then lex (Escaped Word) quoted token cs
      else lex Word quoted (token @ [c]) cs)"
| "lex (Quoted q) quoted token (c # cs) =
     (if c = q then lex Word True token cs
      else if c = backslash \<and> q = CHR 0x22 then lex (Escaped (Quoted q)) True token cs
      else lex (Quoted q) True (token @ [c]) cs)"
| "lex (Escaped st) quoted token (c # cs) =
     (let kept = (case st of Quoted q \<Rightarrow> c \<noteq> backslash \<and> c \<noteq> q | _ \<Rightarrow> False)
      in lex st quoted (token @ (if kept then [backslash, c] else [c])) cs)"

definition shlex_split :: "string \<Rightarrow> string list res" where
  "shlex_split command = lex Blank False [] command"

section \<open>The pipeline\<close>

datatype target = To_Pipe | To_Stdout | To_File string

record command =
  name :: string
  argv :: "string list"
  stdin :: "string option"
  stdout :: "target option"
  stderr :: "target option"
  env_vars :: "(string \<times> string) list option"

datatype node = Command command | Chdir "string option" | Pipe | And | Or

definition new_command :: "string \<Rightarrow> command" where
  "new_command n =
     \<lparr>name = n, argv = [n], stdin = None, stdout = None, stderr = None, env_vars = None\<rparr>"

definition abbreviated_node :: "node \<Rightarrow> string list" where
  "abbreviated_node nd =
     (case nd of
        Command c \<Rightarrow> [name c]
      | Chdir d \<Rightarrow> [''cd '' @ (case d of None \<Rightarrow> ''None'' | Some s \<Rightarrow> s)]
      | Pipe \<Rightarrow> [''|''] | And \<Rightarrow> [''&&''] | Or \<Rightarrow> [])"

definition get_abbreviated_command :: "node list \<Rightarrow> string" where
  "get_abbreviated_command pipeline = py_join '' '' (concat (map abbreviated_node pipeline))"

definition env_char :: "char \<Rightarrow> bool" where
  "env_char c \<longleftrightarrow> c \<in> set ''abcdefghijklmnopqrstuvwxyzABCDEFGHIJKLMNOPQRSTUVWXYZ0123456789_''"

definition re_space :: "char \<Rightarrow> bool" where
  "re_space c \<longleftrightarrow> c = CHR '' '' \<or> (9 \<le> (of_char c :: nat) \<and> (of_char c :: nat) \<le> 13)"

text \<open>\<open>^([a-zA-Z0-9_]+)=(\S+)$\<close>, where \<open>$\<close> also matches before a final newline.\<close>

definition env_var_match :: "string \<Rightarrow> (string \<times> string) option" where
  "env_var_match token =
     (let key = takeWhile env_char token in
      case dropWhile env_char token of
        [] \<Rightarrow> None
      | c # rest \<Rightarrow>
          let val = (if rest \<noteq> [] \<and> last rest = CHR 0x0A then butlast rest else rest)
          in if key \<noteq> [] \<and> c = CHR ''='' \<and> val \<noteq> [] \<and> list_all (\<lambda>x. \<not> re_space x) val
             then Some (key, val) else None)"

datatype parse_mode = BEGIN | COMMAND | CHDIR | STDERR | STDOUT | STDIN

record parser =
  mode :: parse_mode
  current :: "node option"
  env :: "(string \<times> string) list"
  pipeline :: "node list"

definition commit_command :: "parser \<Rightarrow> parser res" where
  "commit_command p =
     (case current p of
        None \<Rightarrow> Inl AssertionError
      | Some nd \<Rightarrow> Inr (p\<lparr>pipeline := pipeline p @ [nd], current := None\<rparr>))"

definition operator :: "node \<Rightarrow> parser \<Rightarrow> parser res" where
  "operator op p =
     bindE (commit_command p) (\<lambda>p'. Inr (p'\<lparr>pipeline := pipeline p' @ [op], mode := BEGIN\<rparr>))"

text \<open>\<open>with_command\<close>: an update of the current command, which the modes after \<open>BEGIN\<close> have.\<close>

definition with_command :: "parser \<Rightarrow> (command \<Rightarrow> command res) \<Rightarrow> parser res" where
  "with_command p f =
     (case current p of
        Some (Command c) \<Rightarrow> bindE (f c) (\<lambda>c'. Inr (p\<lparr>current := Some (Command c')\<rparr>))
      | _ \<Rightarrow> Inl (AttributeError ''current_command''))"

definition begin_token :: "string \<Rightarrow> parser \<Rightarrow> parser res" where
  "begin_token token p =
     (case env_var_match token of
        Some (k, v) \<Rightarrow> Inr (p\<lparr>env := AList.update k v (env p)\<rparr>)
      | None \<Rightarrow>
          bindE (guardE AssertionError (current p = None)) (\<lambda>_.
            if token = ''cd''
            then bindE (guardE AssertionError (env p = []))
                   (\<lambda>_. Inr (p\<lparr>current := Some (Chdir None), mode := CHDIR\<rparr>))
            else let c = new_command token;
                     c' = (if env p \<noteq> [] then c\<lparr>env_vars := Some (env p)\<rparr> else c)
                 in Inr (p\<lparr>current := Some (Command c'), env := [], mode := COMMAND\<rparr>)))"

definition command_token :: "string \<Rightarrow> parser \<Rightarrow> parser res" where
  "command_token token p =
     (if token = ''>'' then Inr (p\<lparr>mode := STDOUT\<rparr>)
      else if token = ''2>'' then Inr (p\<lparr>mode := STDERR\<rparr>)
      else if token = ''2>&1'' then
        with_command p (\<lambda>c. bindE (guardE AssertionError (stderr c = None))
          (\<lambda>_. Inr (c\<lparr>stderr := Some To_Stdout\<rparr>)))
      else if token = ''<'' then Inr (p\<lparr>mode := STDIN\<rparr>)
      else if token = ''|'' then
        bindE (with_command p (\<lambda>c. bindE (guardE AssertionError (stdout c = None))
          (\<lambda>_. Inr (c\<lparr>stdout := Some To_Pipe\<rparr>)))) (operator Pipe)
      else if token = ''&&'' then operator And p
      else if token = ''||'' then operator Or p
      else with_command p (\<lambda>c. Inr (c\<lparr>argv := argv c @ [token]\<rparr>)))"

definition chdir_token :: "string \<Rightarrow> parser \<Rightarrow> parser res" where
  "chdir_token token p =
     (if token = ''&&'' then operator And p
      else case current p of
          Some (Chdir d) \<Rightarrow> bindE (guardE AssertionError (d = None))
            (\<lambda>_. Inr (p\<lparr>current := Some (Chdir (Some token))\<rparr>))
        | _ \<Rightarrow> Inl (AttributeError ''current_command''))"

definition parse_token :: "string \<Rightarrow> parser \<Rightarrow> parser res" where
  "parse_token token p =
     (case mode p of
        BEGIN \<Rightarrow> begin_token token p
      | COMMAND \<Rightarrow> command_token token p
      | CHDIR \<Rightarrow> chdir_token token p
      | STDOUT \<Rightarrow>
          bindE (with_command p (\<lambda>c. bindE (guardE AssertionError (stdout c = None))
            (\<lambda>_. Inr (c\<lparr>stdout := Some (To_File token)\<rparr>)))) (\<lambda>p'. Inr (p'\<lparr>mode := COMMAND\<rparr>))
      | STDERR \<Rightarrow>
          bindE (with_command p (\<lambda>c. bindE (guardE AssertionError (stderr c = None))
            (\<lambda>_. Inr (c\<lparr>stderr := Some (To_File token)\<rparr>)))) (\<lambda>p'. Inr (p'\<lparr>mode := COMMAND\<rparr>))
      | STDIN \<Rightarrow>
          bindE (with_command p (\<lambda>c. bindE (guardE AssertionError (stdin c = None))
            (\<lambda>_. Inr (c\<lparr>stdin := Some token\<rparr>)))) (\<lambda>p'. Inr (p'\<lparr>mode := COMMAND\<rparr>)))"

fun parse_tokens :: "string list \<Rightarrow> parser \<Rightarrow> parser res" where
  "parse_tokens [] p = Inr p"
| "parse_tokens (token # ts) p = bindE (parse_token token p) (parse_tokens ts)"

definition new_parser :: parser where
  "new_parser = \<lparr>mode = BEGIN, current = None, env = [], pipeline = []\<rparr>"

definition parse_list :: "string list \<Rightarrow> node list res" where
  "parse_list tokens =
     bindE (bindE (parse_tokens tokens new_parser) commit_command) (\<lambda>p. Inr (pipeline p))"

definition parse :: "string \<Rightarrow> node list res" where
  "parse line = bindE (shlex_split line) parse_list"

section \<open>Running a pipeline\<close>

datatype input = Inherit_in | From_Process nat | From_File string
datatype sink = Inherit_out | New_Pipe | Same_as_stdout | Into_File string

record process =
  p_argv :: "string list"
  p_stdin :: input
  p_stdout :: sink
  p_stderr :: sink
  p_env :: "(string \<times> string) list option"
  p_cwd :: "string option"

datatype event =
    OpenRead string
  | OpenWrite string
  | Popen process
  | Wait nat
  | CloseFile event
  | Print string

type_synonym 'a io = "event list \<times> 'a res"

definition bindI :: "'a io \<Rightarrow> ('a \<Rightarrow> 'b io) \<Rightarrow> 'b io" where
  "bindI m f = (case m of (es, Inl e) \<Rightarrow> (es, Inl e)
     | (es, Inr a) \<Rightarrow> (case f a of (es', r) \<Rightarrow> (es @ es', r)))"

definition returnI :: "'a \<Rightarrow> 'a io" where
  "returnI a = ([], Inr a)"

definition raiseI :: "exn \<Rightarrow> 'a io" where
  "raiseI e = ([], Inl e)"

definition act :: "(event \<Rightarrow> exn option) \<Rightarrow> event \<Rightarrow> unit io" where
  "act fails ev = (case fails ev of None \<Rightarrow> ([ev], Inr ()) | Some e \<Rightarrow> ([], Inl e))"

lemma bindI_simps [simp]:
  "bindI (es, Inl e) f = (es, Inl e)"
  "bindI (es, Inr a) f = (es @ fst (f a), snd (f a))"
  by (simp_all add: bindI_def split: prod.splits)

lemma bindI_returnI [simp]: "bindI (returnI a) f = f a"
  by (simp add: returnI_def)

lemma bindI_raiseI [simp]: "bindI (raiseI e) f = raiseI e"
  by (simp add: raiseI_def)

lemma bindI_cong [fundef_cong]:
  "m = m' \<Longrightarrow> (\<And>a. snd m' = Inr a \<Longrightarrow> f a = g a) \<Longrightarrow> bindI m f = bindI m' g"
  by (cases m'; cases "snd m'") auto

text \<open>
  \<open>piped\<close> holds the numbers of the processes of the current group, \<open>open_files\<close> the open files that are
  not the null device, \<open>started\<close> the number of processes so far.
\<close>

record runner =
  piped :: "nat list"
  display :: "string list"
  open_files :: "event list"
  piping :: bool
  run_cwd :: string
  started :: nat

definition os_path_join :: "string \<Rightarrow> string \<Rightarrow> string" where
  "os_path_join a b =
     (if has_prefix ''/'' b then b
      else if a = [] \<or> last a = CHR ''/'' then a @ b
      else a @ ''/'' @ b)"

definition new_runner :: runner where
  "new_runner = \<lparr>piped = [], display = [], open_files = [], piping = False, run_cwd = ''.'', started = 0\<rparr>"

definition say :: "bool \<Rightarrow> string \<Rightarrow> runner \<Rightarrow> runner" where
  "say verbose s r = (if verbose then r\<lparr>display := display r @ [s]\<rparr> else r)"

definition open_out_file :: "(event \<Rightarrow> exn option) \<Rightarrow> string \<Rightarrow> runner \<Rightarrow> runner io" where
  "open_out_file fails filename r =
     (if filename = ''NUL:'' \<or> filename = ''/dev/null'' then returnI r
      else bindI (act fails (OpenWrite filename))
             (\<lambda>_. returnI (r\<lparr>open_files := open_files r @ [OpenWrite filename]\<rparr>)))"

definition command_text :: "command \<Rightarrow> string" where
  "command_text c =
     (let args = py_join '' '' (argv c) in
      case env_vars c of
        None \<Rightarrow> args
      | Some vars \<Rightarrow>
          if vars = [] then args
          else py_join '' '' (map (\<lambda>(k, v). k @ ''='' @ v) vars) @ '' '' @ args)"

definition stdin_of :: "(event \<Rightarrow> exn option) \<Rightarrow> bool \<Rightarrow> command \<Rightarrow> runner \<Rightarrow> (input \<times> runner) io" where
  "stdin_of fails verbose c r =
     (if piping r
      then (if piped r = [] then raiseI IndexError else returnI (From_Process (last (piped r)), r))
      else case stdin c of
          None \<Rightarrow> returnI (Inherit_in, r)
        | Some f \<Rightarrow> bindI (act fails (OpenRead f)) (\<lambda>_.
            returnI (From_File f, (say verbose (''< '' @ f) r)\<lparr>open_files := open_files r @ [OpenRead f]\<rparr>)))"

definition stdout_of :: "(event \<Rightarrow> exn option) \<Rightarrow> bool \<Rightarrow> command \<Rightarrow> runner \<Rightarrow> (sink \<times> runner) io" where
  "stdout_of fails verbose c r =
     (case stdout c of
        None \<Rightarrow> returnI (Inherit_out, r)
      | Some To_Pipe \<Rightarrow> returnI (New_Pipe, r)
      | Some To_Stdout \<Rightarrow> raiseI TypeError
      | Some (To_File f) \<Rightarrow> bindI (open_out_file fails f r)
          (\<lambda>r'. returnI (Into_File f, say verbose (''> '' @ f) r')))"

definition stderr_of :: "(event \<Rightarrow> exn option) \<Rightarrow> bool \<Rightarrow> command \<Rightarrow> runner \<Rightarrow> (sink \<times> runner) io" where
  "stderr_of fails verbose c r =
     (case stderr c of
        None \<Rightarrow> returnI (Inherit_out, r)
      | Some To_Pipe \<Rightarrow> returnI (New_Pipe, r)
      | Some To_Stdout \<Rightarrow> returnI (Same_as_stdout, say verbose ''2>&1'' r)
      | Some (To_File f) \<Rightarrow> bindI (open_out_file fails f r)
          (\<lambda>r'. returnI (Into_File f, say verbose (''2> '' @ f) r')))"

text \<open>\<open>start_command\<close>: everything from a command to the process in the list of the group.\<close>

definition start_command :: "(event \<Rightarrow> exn option) \<Rightarrow> bool \<Rightarrow> command \<Rightarrow> runner \<Rightarrow> runner io" where
  "start_command fails verbose c r =
     bindI (stdin_of fails verbose c (say verbose (command_text c) r)) (\<lambda>(i, r1).
     bindI (stdout_of fails verbose c r1) (\<lambda>(out, r2).
     bindI (stderr_of fails verbose c r2) (\<lambda>(err, r3).
       let vars = (case env_vars c of None \<Rightarrow> None | Some vs \<Rightarrow> if vs = [] then None else Some vs);
           dir = (if run_cwd r3 = ''.'' then None else Some (run_cwd r3));
           p = \<lparr>p_argv = argv c, p_stdin = i, p_stdout = out, p_stderr = err, p_env = vars, p_cwd = dir\<rparr>
       in bindI (act fails (Popen p)) (\<lambda>_.
            returnI (r3\<lparr>piped := piped r3 @ [started r3], started := started r3 + 1\<rparr>)))))"

definition exec_piped_commands :: "(nat \<Rightarrow> int) \<Rightarrow> nat list \<Rightarrow> event list \<times> int" where
  "exec_piped_commands code commands =
     (let retvals = map code commands
      in (map Wait commands, if \<exists>r \<in> set retvals. r \<noteq> 0 then last retvals else 0))"

definition finish_group :: "(nat \<Rightarrow> int) \<Rightarrow> runner \<Rightarrow> event list \<times> int" where
  "finish_group code r =
     (case exec_piped_commands code (piped r) of (es, v) \<Rightarrow> (es @ map CloseFile (open_files r), v))"

definition exit_line :: "runner \<Rightarrow> int \<Rightarrow> string" where
  "exit_line r v = py_join '' '' (display r) @ '': exit code '' @ show_int v"

definition next_group :: "runner \<Rightarrow> runner" where
  "next_group r = r\<lparr>piped := [], display := [], open_files := [], piping := False\<rparr>"

function run_loop :: "(nat \<Rightarrow> int) \<Rightarrow> (event \<Rightarrow> exn option) \<Rightarrow> bool \<Rightarrow> node list \<Rightarrow> runner \<Rightarrow> int option io" where
  "run_loop code fails verbose [] r = returnI None"
| "run_loop code fails verbose (Chdir d # rest) r =
     (case rest of
        [] \<Rightarrow> raiseI IndexError
      | op # rest' \<Rightarrow>
          if op \<noteq> And then raiseI AssertionError
          else case d of
              None \<Rightarrow> raiseI (AttributeError ''startswith'')
            | Some s \<Rightarrow> run_loop code fails verbose rest'
                ((say verbose (''cd '' @ s @ '' &&'') r)\<lparr>run_cwd := os_path_join (run_cwd r) s\<rparr>))"
| "run_loop code fails verbose (Command c # rest) r =
     bindI (start_command fails verbose c r) (\<lambda>r1.
       case rest of
         [] \<Rightarrow>
           (case exec_piped_commands code (piped r1) of (es, v) \<Rightarrow>
              (es @ (if verbose then [Print (exit_line r1 v)] else []) @ map CloseFile (open_files r1), Inr (Some v)))
       | Pipe # rest' \<Rightarrow>
           run_loop code fails verbose rest' (r1\<lparr>piping := True, display := display r1 @ [''|'']\<rparr>)
       | Or # rest' \<Rightarrow>
           (case finish_group code r1 of (es, v) \<Rightarrow>
              if verbose then (es, Inl (UnboundLocalError ''retval''))
              else if v = 0 then (es, Inr (Some v))
              else bindI (es, Inr ()) (\<lambda>_. run_loop code fails verbose rest' (next_group r1)))
       | And # rest' \<Rightarrow>
           (case finish_group code r1 of (es, v) \<Rightarrow>
              if verbose then (es, Inl (UnboundLocalError ''retval''))
              else if v \<noteq> 0 then (es, Inr (Some v))
              else bindI (es, Inr ()) (\<lambda>_. run_loop code fails verbose rest' (next_group r1)))
       | _ # rest' \<Rightarrow> run_loop code fails verbose rest' r1)"
| "run_loop code fails verbose (Pipe # rest) r = raiseI AssertionError"
| "run_loop code fails verbose (And # rest) r = raiseI AssertionError"
| "run_loop code fails verbose (Or # rest) r = raiseI AssertionError"
  by pat_completeness auto
termination
  by (relation "measure (\<lambda>(_, _, _, pl, _). length pl)") auto

definition run :: "(nat \<Rightarrow> int) \<Rightarrow> (event \<Rightarrow> exn option) \<Rightarrow> bool \<Rightarrow> node list \<Rightarrow> int option io" where
  "run code fails verbose pl = run_loop code fails verbose pl new_runner"

section \<open>Parsed pipelines are well formed\<close>

definition command_ok :: "bool \<Rightarrow> command \<Rightarrow> bool" where
  "command_ok to_pipe c \<longleftrightarrow>
     argv c \<noteq> [] \<and> hd (argv c) = name c \<and> env_vars c \<noteq> Some [] \<and> stderr c \<noteq> Some To_Pipe \<and>
     (if to_pipe then stdout c = Some To_Pipe else stdout c \<noteq> Some To_Pipe \<and> stdout c \<noteq> Some To_Stdout)"

text \<open>\<open>segment\<close>: a command or directory change with the operator after it, or without one at the end.\<close>

fun segment :: "node \<Rightarrow> node option \<Rightarrow> bool" where
  "segment (Command c) op = (op \<in> {None, Some Pipe, Some And, Some Or} \<and> command_ok (op = Some Pipe) c)"
| "segment (Chdir d) op = (op \<in> {None, Some And})"
| "segment _ op = False"

fun wf_prefix :: "node list \<Rightarrow> bool" where
  "wf_prefix [] = True"
| "wf_prefix (nd # op # rest) = (segment nd (Some op) \<and> wf_prefix rest)"
| "wf_prefix [nd] = False"

fun wf_pipeline :: "node list \<Rightarrow> bool" where
  "wf_pipeline [] = False"
| "wf_pipeline [nd] = segment nd None"
| "wf_pipeline (nd # op # rest) = (segment nd (Some op) \<and> wf_pipeline rest)"

lemma wf_prefix_snoc: "wf_prefix xs \<Longrightarrow> segment nd (Some op) \<Longrightarrow> wf_prefix (xs @ [nd, op])"
  by (induction xs rule: wf_prefix.induct) auto

lemma wf_pipeline_snoc: "wf_prefix xs \<Longrightarrow> segment nd None \<Longrightarrow> wf_pipeline (xs @ [nd])"
  by (induction xs rule: wf_prefix.induct) auto

definition parser_inv :: "parser \<Rightarrow> bool" where
  "parser_inv p \<longleftrightarrow> wf_prefix (pipeline p) \<and>
     (case mode p of
        BEGIN \<Rightarrow> current p = None
      | CHDIR \<Rightarrow> (\<exists>d. current p = Some (Chdir d)) \<and> env p = []
      | _ \<Rightarrow> (\<exists>c. current p = Some (Command c) \<and> command_ok False c) \<and> env p = [])"

definition token_result :: "parser res \<Rightarrow> bool" where
  "token_result r \<longleftrightarrow> (case r of Inl e \<Rightarrow> e = AssertionError | Inr p \<Rightarrow> parser_inv p)"

lemma new_command_ok [simp]: "command_ok False (new_command token)"
  by (simp add: command_ok_def new_command_def)

lemma begin_token_inv: "parser_inv p \<Longrightarrow> mode p = BEGIN \<Longrightarrow> token_result (begin_token token p)"
  by (auto simp: parser_inv_def token_result_def begin_token_def guardE_def Let_def command_ok_def
      new_command_def split: option.splits)

lemma operator_inv:
  assumes "wf_prefix (pipeline p)" "current p = Some nd" "segment nd (Some op)"
  shows "token_result (operator op p)"
  using assms wf_prefix_snoc [OF assms(1,3)]
  by (simp add: token_result_def operator_def commit_command_def parser_inv_def)

lemma chdir_token_inv: "parser_inv p \<Longrightarrow> mode p = CHDIR \<Longrightarrow> token_result (chdir_token token p)"
  by (auto simp: chdir_token_def parser_inv_def intro!: operator_inv)
     (auto simp: token_result_def parser_inv_def guardE_def)

lemma if_cases: "(b \<Longrightarrow> P x) \<Longrightarrow> (\<not> b \<Longrightarrow> P y) \<Longrightarrow> P (if b then x else y)"
  by simp

lemma command_token_inv:
  assumes p: "parser_inv p" "mode p = COMMAND"
  shows "token_result (command_token token p)"
proof -
  obtain c where c: "current p = Some (Command c)" "command_ok False c" "wf_prefix (pipeline p)" "env p = []"
    using p by (auto simp: parser_inv_def)
  have ops: "token_result (operator And p)" "token_result (operator Or p)"
    using c by (auto intro!: operator_inv)
  have redirect: "token_result (Inr (p\<lparr>mode := m\<rparr>))" if "m \<in> {STDIN, STDOUT, STDERR}" for m
    using c that by (auto simp: token_result_def parser_inv_def)
  have "token_result (operator Pipe (p\<lparr>current := Some (Command (c\<lparr>stdout := Some To_Pipe\<rparr>))\<rparr>))"
    using c by (intro operator_inv) (auto simp: command_ok_def)
  then have pipe: "token_result (bindE (with_command p (\<lambda>c. bindE (guardE AssertionError (stdout c = None))
      (\<lambda>_. Inr (c\<lparr>stdout := Some To_Pipe\<rparr>)))) (operator Pipe))"
    using c(1) by (cases "stdout c = None") (simp_all add: with_command_def guardE_def token_result_def)
  have update: "token_result (with_command p f)"
    if "case f c of Inl e \<Rightarrow> e = AssertionError | Inr c' \<Rightarrow> command_ok False c'" for f
    using that c p(2) by (cases "f c") (simp_all add: with_command_def token_result_def parser_inv_def)
  have merge: "token_result (with_command p (\<lambda>c. bindE (guardE AssertionError (stderr c = None))
      (\<lambda>_. Inr (c\<lparr>stderr := Some To_Stdout\<rparr>))))"
    by (rule update) (use c(2) in \<open>simp add: guardE_def command_ok_def\<close>)
  have argument: "token_result (with_command p (\<lambda>c. Inr (c\<lparr>argv := argv c @ [token]\<rparr>)))"
    by (rule update) (use c(2) in \<open>simp add: command_ok_def\<close>)
  show ?thesis
    unfolding command_token_def
    by (intro if_cases [where P = token_result]) (use ops pipe merge argument redirect in simp_all)
qed

lemma parse_token_inv: "parser_inv p \<Longrightarrow> token_result (parse_token token p)"
  by (cases "mode p")
     (auto simp: parse_token_def begin_token_inv command_token_inv chdir_token_inv,
      auto simp: token_result_def parser_inv_def with_command_def guardE_def command_ok_def)

lemma parse_tokens_inv: "parser_inv p \<Longrightarrow> token_result (parse_tokens tokens p)"
proof (induction tokens arbitrary: p)
  case (Cons token ts)
  with parse_token_inv [of p token] show ?case
    by (cases "parse_token token p") (auto simp: token_result_def)
qed (simp add: token_result_def)

lemma parse_list_wf: "case parse_list tokens of Inl e \<Rightarrow> e = AssertionError | Inr pl \<Rightarrow> wf_pipeline pl"
proof -
  have "parser_inv new_parser" by (simp add: parser_inv_def new_parser_def)
  then have res: "token_result (parse_tokens tokens new_parser)" by (rule parse_tokens_inv)
  show ?thesis
  proof (cases "parse_tokens tokens new_parser")
    case (Inl e)
    with res show ?thesis by (simp add: parse_list_def token_result_def)
  next
    case (Inr p)
    with res have inv: "parser_inv p" by (simp add: token_result_def)
    show ?thesis
    proof (cases "current p")
      case None
      with Inr show ?thesis by (simp add: parse_list_def commit_command_def)
    next
      case (Some nd)
      with inv have "segment nd None" "wf_prefix (pipeline p)"
        by (auto simp: parser_inv_def split: parse_mode.splits)
      then have "wf_pipeline (pipeline p @ [nd])" by (intro wf_pipeline_snoc)
      with Inr Some show ?thesis by (simp add: parse_list_def commit_command_def)
    qed
  qed
qed

lemma lex_errors:
  "lex st quoted token s = Inl e \<Longrightarrow>
   e = ValueError ''No closing quotation'' \<or> e = ValueError ''No escaped character''"
  by (induction st quoted token s rule: lex.induct) (auto simp: res_simps Let_def split: if_splits)

text \<open>
  C20. What the parser accepts is a well-formed pipeline: commands and directory changes alternate with
  operators and end with one of them, every command has its name as first argument and no empty
  environment, its standard output is a pipe exactly when a \<open>|\<close> follows, and only a \<open>&&\<close> can
  follow a directory change.  Anything else raises \<open>AssertionError\<close>, or \<open>ValueError\<close> when the quotes do
  not match: the state machine never reads a command that is not there.
\<close>

theorem parse_well_formed:
  "case parse line of
     Inr pl \<Rightarrow> wf_pipeline pl
   | Inl e \<Rightarrow> e \<in> {AssertionError, ValueError ''No closing quotation'', ValueError ''No escaped character''}"
proof (cases "shlex_split line")
  case (Inl e)
  then show ?thesis using lex_errors by (auto simp: parse_def shlex_split_def)
next
  case (Inr tokens)
  then show ?thesis
    using parse_list_wf [of tokens] by (auto simp: parse_def split: sum.splits)
qed

section \<open>What a run does\<close>

text \<open>
  The abstract meaning of a pipeline: the exit code of the command before an operator decides
  whether the rest is executed at all.  The second component is the number of processes started.
\<close>

fun evaluate :: "(nat \<Rightarrow> int) \<Rightarrow> nat \<Rightarrow> node list \<Rightarrow> int \<times> nat" where
  "evaluate code n (Command c # Pipe # rest) = evaluate code (n + 1) rest"
| "evaluate code n (Command c # And # rest) =
     (if code n = 0 then evaluate code (n + 1) rest else (code n, n + 1))"
| "evaluate code n (Command c # Or # rest) =
     (if code n = 0 then (0, n + 1) else evaluate code (n + 1) rest)"
| "evaluate code n (Command c # rest) = (code n, n + 1)"
| "evaluate code n (Chdir d # op # rest) = evaluate code n rest"
| "evaluate code n pl = (0, n)"

fun runnable :: "node list \<Rightarrow> bool" where
  "runnable [] = False"
| "runnable [nd] = (case nd of Command c \<Rightarrow> True | _ \<Rightarrow> False)"
| "runnable (nd # op # rest) = ((case nd of Chdir d \<Rightarrow> d \<noteq> None | _ \<Rightarrow> True) \<and> runnable rest)"

definition waits :: "event list \<Rightarrow> nat list" where
  "waits es = List.map_filter (\<lambda>e. case e of Wait i \<Rightarrow> Some i | _ \<Rightarrow> None) es"

definition popens :: "event list \<Rightarrow> process list" where
  "popens es = List.map_filter (\<lambda>e. case e of Popen p \<Rightarrow> Some p | _ \<Rightarrow> None) es"

definition opened_files :: "event list \<Rightarrow> event list" where
  "opened_files es = filter (\<lambda>e. case e of OpenRead f \<Rightarrow> True | OpenWrite f \<Rightarrow> True | _ \<Rightarrow> False) es"

definition closed_files :: "event list \<Rightarrow> event list" where
  "closed_files es = List.map_filter (\<lambda>e. case e of CloseFile f \<Rightarrow> Some f | _ \<Rightarrow> None) es"

definition argvs :: "node list \<Rightarrow> string list list" where
  "argvs pl = List.map_filter (\<lambda>nd. case nd of Command c \<Rightarrow> Some (argv c) | _ \<Rightarrow> None) pl"

lemma map_filter_append: "List.map_filter f (xs @ ys) = List.map_filter f xs @ List.map_filter f ys"
  by (induction xs) (auto simp: map_filter_simps split: option.splits)

lemma map_filter_None: "(\<And>x. f (g x) = None) \<Longrightarrow> List.map_filter f (map g xs) = []"
  by (induction xs) (auto simp: map_filter_simps)

lemma map_filter_Some: "(\<And>x. f (g x) = Some x) \<Longrightarrow> List.map_filter f (map g xs) = xs"
  by (induction xs) (auto simp: map_filter_simps)

lemmas observations = waits_def popens_def opened_files_def closed_files_def map_filter_append map_filter_simps

lemma observe_append [simp]:
  "waits (es @ es') = waits es @ waits es'" "popens (es @ es') = popens es @ popens es'"
  "opened_files (es @ es') = opened_files es @ opened_files es'" "closed_files (es @ es') = closed_files es @ closed_files es'"
  by (simp_all add: observations)

lemma observe_Nil [simp]: "waits [] = []" "popens [] = []" "opened_files [] = []" "closed_files [] = []"
  by (simp_all add: observations)

lemma observe_waits [simp]:
  "waits (map Wait is) = is" "popens (map Wait is) = []" "opened_files (map Wait is) = []" "closed_files (map Wait is) = []"
  by (simp_all add: observations map_filter_Some map_filter_None filter_empty_conv)

lemma observe_closes [simp]:
  "waits (map CloseFile fs) = []" "popens (map CloseFile fs) = []"
  "opened_files (map CloseFile fs) = []" "closed_files (map CloseFile fs) = fs"
  by (simp_all add: observations map_filter_Some map_filter_None filter_empty_conv)

lemma observe_Wait [simp]:
  "waits (Wait i # es) = i # waits es" "popens (Wait i # es) = popens es"
  "opened_files (Wait i # es) = opened_files es" "closed_files (Wait i # es) = closed_files es"
  by (simp_all add: observations)

lemma exec_piped_last:
  "is \<noteq> [] \<Longrightarrow> exec_piped_commands code is = (map Wait is, code (last is))"
  by (cases "is" rule: rev_cases) (auto simp: exec_piped_commands_def Let_def)

lemma finish_group_last:
  "piped r \<noteq> [] \<Longrightarrow>
   finish_group code r = (map Wait (piped r) @ map CloseFile (open_files r), code (last (piped r)))"
  by (simp add: finish_group_def exec_piped_last)

abbreviation no_failure :: "event \<Rightarrow> exn option" where
  "no_failure \<equiv> \<lambda>_. None"

lemma act_ok [simp]: "act no_failure ev = ([ev], Inr ())"
  by (simp add: act_def)

lemma start_command_ok:
  assumes "command_ok b c" "piping r \<longleftrightarrow> piped r \<noteq> []"
  obtains es r' p where "start_command no_failure False c r = (es, Inr r')"
    "piped r' = piped r @ [started r]" "started r' = started r + 1" "piping r' = piping r" "run_cwd r' = run_cwd r"
    "open_files r' = open_files r @ opened_files es" "popens es = [p]" "waits es = []" "closed_files es = []"
    "p_argv p = argv c" "piping r \<longrightarrow> p_stdin p = From_Process (last (piped r))"
proof -
  obtain es1 i r1 where s1: "stdin_of no_failure False c r = (es1, Inr (i, r1))"
    "piped r1 = piped r" "started r1 = started r" "piping r1 = piping r" "run_cwd r1 = run_cwd r"
    "open_files r1 = open_files r @ opened_files es1" "popens es1 = []" "waits es1 = []" "closed_files es1 = []"
    "piping r \<longrightarrow> i = From_Process (last (piped r))"
    using assms(2)
    by (cases "piping r"; cases "stdin c") (auto simp: stdin_of_def returnI_def say_def observations)
  have out: "\<exists>es2 r2. open_out_file no_failure f q = (es2, Inr r2) \<and>
    piped r2 = piped q \<and> started r2 = started q \<and> piping r2 = piping q \<and> run_cwd r2 = run_cwd q \<and>
    open_files r2 = open_files q @ opened_files es2 \<and> popens es2 = [] \<and> waits es2 = [] \<and> closed_files es2 = []" for f q
    by (auto simp: open_out_file_def returnI_def observations)
  obtain es2 so r2 where s2: "stdout_of no_failure False c r1 = (es2, Inr (so, r2))"
    "piped r2 = piped r1" "started r2 = started r1" "piping r2 = piping r1" "run_cwd r2 = run_cwd r1"
    "open_files r2 = open_files r1 @ opened_files es2" "popens es2 = []" "waits es2 = []" "closed_files es2 = []"
  proof (cases "\<exists>f. stdout c = Some (To_File f)")
    case True
    then obtain f where "stdout c = Some (To_File f)" by blast
    with out [of f r1] show thesis by (auto simp: stdout_of_def returnI_def say_def intro: that)
  next
    case False
    with assms(1) show thesis
      by (auto simp: stdout_of_def returnI_def command_ok_def intro: that split: option.splits target.splits if_splits)
  qed
  obtain es3 se r3 where s3: "stderr_of no_failure False c r2 = (es3, Inr (se, r3))"
    "piped r3 = piped r2" "started r3 = started r2" "piping r3 = piping r2" "run_cwd r3 = run_cwd r2"
    "open_files r3 = open_files r2 @ opened_files es3" "popens es3 = []" "waits es3 = []" "closed_files es3 = []"
  proof (cases "\<exists>f. stderr c = Some (To_File f)")
    case True
    then obtain f where "stderr c = Some (To_File f)" by blast
    with out [of f r2] show thesis by (auto simp: stderr_of_def returnI_def say_def intro: that)
  next
    case False
    then show thesis
      by (cases "stderr c"; cases "the (stderr c)") (auto simp: stderr_of_def returnI_def say_def intro: that)
  qed
  have ev: "popens [Popen p] = [p]" "waits [Popen p] = []" "closed_files [Popen p] = []" "opened_files [Popen p] = []" for p
    by (simp_all add: observations)
  let ?p = "\<lparr>p_argv = argv c, p_stdin = i, p_stdout = so, p_stderr = se,
    p_env = (case env_vars c of None \<Rightarrow> None | Some vs \<Rightarrow> if vs = [] then None else Some vs),
    p_cwd = (if run_cwd r3 = ''.'' then None else Some (run_cwd r3))\<rparr>"
  let ?r = "r3\<lparr>piped := piped r3 @ [started r3], started := started r3 + 1\<rparr>"
  have "start_command no_failure False c r = (es1 @ es2 @ es3 @ [Popen ?p], Inr ?r)"
    using s1(1) s2(1) s3(1) by (simp add: start_command_def Let_def returnI_def say_def)
  then show thesis
    by (rule that [where p = ?p]) (use s1 s2 s3 in \<open>simp_all add: ev process.simps\<close>)
qed

lemma argvs_simps [simp]:
  "argvs [] = []" "argvs (Command c # pl) = argv c # argvs pl" "argvs (Chdir d # pl) = argvs pl"
  "argvs (Pipe # pl) = argvs pl" "argvs (And # pl) = argvs pl" "argvs (Or # pl) = argvs pl"
  by (simp_all add: argvs_def map_filter_simps)

definition run_result :: "(nat \<Rightarrow> int) \<Rightarrow> node list \<Rightarrow> runner \<Rightarrow> int option io \<Rightarrow> bool" where
  "run_result code pl r m \<longleftrightarrow>
     (case evaluate code (started r) pl of (v, n) \<Rightarrow>
        snd m = Inr (Some v) \<and> started r < n \<and> waits (fst m) = piped r @ [started r ..< n] \<and>
        map p_argv (popens (fst m)) = take (n - started r) (argvs pl) \<and>
        mset (closed_files (fst m)) = mset (open_files r) + mset (opened_files (fst m)))"

lemma run_loop_ok:
  "wf_pipeline pl \<Longrightarrow> runnable pl \<Longrightarrow> piping r \<longleftrightarrow> piped r \<noteq> [] \<Longrightarrow>
   run_result code pl r (run_loop code no_failure False pl r)"
proof (induction pl arbitrary: r rule: wf_pipeline.induct)
  case (2 nd)
  then obtain c where c: "nd = Command c" "command_ok False c" by (cases nd) auto
  obtain es r' p where st: "start_command no_failure False c r = (es, Inr r')"
    "piped r' = piped r @ [started r]" "open_files r' = open_files r @ opened_files es" "popens es = [p]" "waits es = []"
    "closed_files es = []" "p_argv p = argv c"
    using start_command_ok [OF c(2) 2(3)] by metis
  show ?case using st c(1) by (simp add: run_result_def exec_piped_last)
next
  case (3 nd op rest)
  have rest: "wf_pipeline rest" "runnable rest" using 3(2,3) by auto
  show ?case
  proof (cases nd)
    case (Chdir d)
    then obtain s where s: "d = Some s" "op = And" using 3(2,3) by auto
    let ?r = "r\<lparr>run_cwd := os_path_join (run_cwd r) s\<rparr>"
    have "run_result code rest ?r (run_loop code no_failure False rest ?r)"
      using 3 rest by simp
    then show ?thesis using Chdir s by (simp add: run_result_def say_def)
  next
    case (Command c)
    then have c: "command_ok (op = Pipe) c" and op: "op = Pipe \<or> op = And \<or> op = Or" using 3(2) by auto
    obtain es r' p where st: "start_command no_failure False c r = (es, Inr r')"
      "piped r' = piped r @ [started r]" "started r' = started r + 1"
      "open_files r' = open_files r @ opened_files es" "popens es = [p]" "waits es = []" "closed_files es = []" "p_argv p = argv c"
      using start_command_ok [OF c 3(4)] by metis
    have upt: "started r # [Suc (started r) ..< n] = [started r ..< n]" if "Suc (started r) < n" for n
      using that by (simp add: upt_conv_Cons)
    have take: "argv c # take (n - Suc (started r)) l = take (n - started r) (argv c # l)"
      if "Suc (started r) < n" for n l
    proof -
      have "n - started r = Suc (n - Suc (started r))" using that by simp
      then show ?thesis by (simp only: take_Suc_Cons)
    qed
    show ?thesis
    proof (cases "op = Pipe")
      case True
      let ?r = "r'\<lparr>piping := True, display := display r' @ [''|'']\<rparr>"
      have "run_result code rest ?r (run_loop code no_failure False rest ?r)"
        using 3(1) rest st(2) by simp
      then show ?thesis
        using Command True st by (auto simp: run_result_def upt take split: prod.splits)
    next
      case False
      have fin: "finish_group code r' = (map Wait (piped r') @ map CloseFile (open_files r'), code (started r))"
        using st(2) by (simp add: finish_group_last)
      have IH: "run_result code rest (next_group r') (run_loop code no_failure False rest (next_group r'))"
        using 3(1) rest by (simp add: next_group_def)
      show ?thesis
        using IH Command False op st fin
        by (auto simp: run_result_def next_group_def upt take split: prod.splits)
    qed
  qed (use 3(2) in simp_all)
qed simp

text \<open>
  C21. Running a parsed pipeline in which every \<open>cd\<close> has a directory and is followed by a command, on an
  operating system where no action fails: the exit code is the one of the abstract evaluation, the
  processes started are its commands in order, each of them is waited for exactly once and in
  order, and every file that was opened is closed again.
\<close>

theorem run_refines_evaluate:
  assumes "parse line = Inr pl" "runnable pl"
  shows "\<exists>es. run code no_failure False pl = (es, Inr (Some (fst (evaluate code 0 pl)))) \<and>
    map p_argv (popens es) = take (snd (evaluate code 0 pl)) (argvs pl) \<and>
    waits es = [0 ..< snd (evaluate code 0 pl)] \<and> mset (closed_files es) = mset (opened_files es)"
proof -
  obtain tokens where "parse_list tokens = Inr pl" using assms(1) by (auto simp: parse_def res_simps)
  then have "wf_pipeline pl" using parse_list_wf [of tokens] by simp
  then have "run_result code pl new_runner (run_loop code no_failure False pl new_runner)"
    using assms(2) by (intro run_loop_ok) (simp_all add: new_runner_def)
  then show ?thesis
    by (cases "run_loop code no_failure False pl new_runner"; cases "evaluate code 0 pl")
       (simp add: run_def run_result_def new_runner_def)
qed

definition main_line :: string where
  "main_line = ''./foo.py 2>&1 < xxx | cat && ls''"

definition main_pipeline :: "node list" where
  "main_pipeline =
     [Command ((new_command ''./foo.py'')
        \<lparr>stdin := Some ''xxx'', stdout := Some To_Pipe, stderr := Some To_Stdout\<rparr>), Pipe,
      Command (new_command ''cat''), And, Command (new_command ''ls'')]"

lemma parse_main_line: "parse main_line = Inr main_pipeline"
  by code_simp

lemma parse_well_formed_witness:
  "parse main_line = Inr main_pipeline \<and> wf_pipeline main_pipeline \<and>
   parse ''ls |'' = Inl AssertionError"
proof -
  have "parse ''ls |'' = Inl AssertionError" by code_simp
  then show ?thesis using parse_well_formed [of main_line] parse_main_line by simp
qed

lemma run_refines_evaluate_witness:
  "parse main_line = Inr main_pipeline \<and> runnable main_pipeline \<and>
   (\<exists>es. run (\<lambda>i. if i = 0 then 2 else 0) no_failure False main_pipeline = (es, Inr (Some 0)) \<and>
      map p_argv (popens es) = [[''./foo.py''], [''cat''], [''ls'']] \<and> waits es = [0, 1, 2])"
proof -
  have r: "runnable main_pipeline" by (simp add: main_pipeline_def)
  have e: "evaluate (\<lambda>i. if i = 0 then 2 else 0) 0 main_pipeline = (0, 3)"
    by (simp add: main_pipeline_def)
  have a: "argvs main_pipeline = [[''./foo.py''], [''cat''], [''ls'']]"
    by (simp add: main_pipeline_def new_command_def)
  have u: "[0 ..< 3] = [0, 1, 2]" by (simp add: upt_conv_Cons)
  show ?thesis
    using run_refines_evaluate [OF parse_main_line r, of "\<lambda>i. if i = 0 then 2 else 0"] parse_main_line r
    unfolding e fst_conv snd_conv a u by auto
qed

text \<open>Unlike a shell, the first operator that is not satisfied ends the whole line.\<close>

lemma short_circuit_ends_line:
  "code n \<noteq> 0 \<Longrightarrow> evaluate code n (Command c # And # rest) = (code n, n + 1)"
  "code n = 0 \<Longrightarrow> evaluate code n (Command c # Or # rest) = (0, n + 1)"
  by simp_all

lemma and_or_skips_alternative:
  "parse ''false && true || echo x'' = Inr [Command (new_command ''false''), And,
     Command (new_command ''true''), Or, Command ((new_command ''echo'')\<lparr>argv := [''echo'', ''x'']\<rparr>)]"
  "evaluate (\<lambda>i. if i = 0 then 1 else 0) 0 [Command (new_command ''false''), And,
     Command (new_command ''true''), Or, Command ((new_command ''echo'')\<lparr>argv := [''echo'', ''x'']\<rparr>)] = (1, 1)"
  by code_simp simp

text \<open>A redirection without a file name is accepted and dropped.\<close>

lemma redirection_without_file: "parse ''ls >'' = Inr [Command (new_command ''ls'')]"
  by code_simp

text \<open>With \<open>verbose\<close> every \<open>&&\<close> and \<open>||\<close> raises: the variable that is printed has no value yet.\<close>

lemma verbose_operator_fails:
  assumes "op = And \<or> op = Or" "stdout c = None" "stderr c = None" "stdin c = None"
  shows "snd (run code no_failure True (Command c # op # rest)) = Inl (UnboundLocalError ''retval'')"
  using assms
  by (auto simp: run_def new_runner_def start_command_def stdin_of_def stdout_of_def stderr_of_def
      returnI_def say_def Let_def finish_group_def exec_piped_commands_def)

end
