(* ===== verification/CheckStyle.thy ===== *)
theory CheckStyle
  imports PyBase
begin

text \<open>
  \<open>utils/check-style.py\<close>: the style check of the C++ sources.  It formats a file with \<open>uncrustify\<close>,
  reads the unified diff of the two texts back into patches, takes changes of trailing blanks out,
  applies the rest with \<open>patch\<close> and compares.

  The external programs and \<open>difflib.unified_diff\<close> are the parameters of \<open>indent\<close>.  The file system is
  a map from names to contents; temporary files are represented by their contents alone.  The
  debugging output is left out, its effect on the iterators is not.
\<close>

section \<open>The configuration of uncrustify\<close>

definition level2 :: "string list" where
  "level2 =
     [''nl_collapse_empty_body=False'', ''nl_if_brace=Add'', ''nl_brace_else=Add'',
      ''nl_elseif_brace=Add'', ''nl_else_brace=Add'', ''nl_while_brace=Add'',
      ''nl_do_brace=Add'', ''nl_for_brace=Add'', ''nl_brace_while=Add'',
      ''nl_switch_brace=Add'', ''nl_after_case=True'', ''nl_namespace_brace=Remove'',
      ''nl_after_brace_open=True'', ''nl_class_leave_one_liners=False'',
      ''nl_enum_leave_one_liners=False'', ''nl_func_leave_one_liners=False'',
      ''nl_if_leave_one_liners=False'', ''nl_class_colon=Ignore'',
      ''nl_after_access_spec=1'', ''nl_after_semicolon=True'', ''pos_class_colon=Lead'',
      ''pos_class_comma=Trail'', ''pos_bool=Lead'', ''nl_class_init_args=Add'',
      ''nl_template_class=Add'', ''nl_class_brace=Add'', ''# does not work very well'',
      ''nl_func_type_name=Ignore'', ''nl_func_scope_name=Ignore'',
      ''nl_func_type_name_class=Ignore'', ''nl_func_proto_type_name=Ignore'',
      ''# function'' @ [CHR 0x5C] @ ''n('', ''nl_func_paren=Remove'', ''nl_fdef_brace=Add'',
      ''nl_struct_brace=Add'', ''nl_enum_brace=Add'', ''nl_union_brace=Add'',
      ''mod_full_brace_do=Add'', ''mod_full_brace_for=Add'', ''mod_full_brace_if=Add'',
      ''mod_full_brace_while=Add'', ''mod_full_brace_for=Add'',
      ''mod_remove_extra_semicolon=True'', ''# max code width'', ''#code_width=128'',
      ''#ls_for_split_full=True'', ''#ls_func_split_full=True'']"

definition level1 :: "string list" where
  "level1 =
     [''# extra spaces here and there'', ''sp_brace_typedef=Add'', ''sp_enum_assign=Add'',
      ''sp_before_sparen=Add'', ''sp_after_semi_for=Add'', ''sp_arith=Add'',
      ''sp_assign=Add'', ''sp_compare=Add'', ''sp_func_class_paren=Add'',
      ''sp_after_type=Add'', ''sp_type_func=Add'', ''sp_angle_paren=Add'']"

definition level0 :: "string list" where
  "level0 =
     [''sp_func_proto_paren=Add'', ''sp_func_def_paren=Add'', ''sp_func_call_paren=Add'',
      ''sp_after_semi_for=Ignore'', ''sp_before_sparen=Ignore'', ''sp_type_func=Ignore'',
      ''sp_after_type=Ignore'', ''nl_class_leave_one_liners=True'',
      ''nl_enum_leave_one_liners=True'', ''nl_func_leave_one_liners=True'',
      ''nl_assign_leave_one_liners=True'', ''#nl_collapse_empty_body=False'',
      ''nl_getset_leave_one_liners=True'', ''nl_if_leave_one_liners=True'',
      ''nl_fdef_brace=Ignore'', ''# finally, indentation configuration'',
      ''indent_with_tabs=0'', ''indent_namespace=false'', ''indent_columns=2'',
      ''indent_brace=2'', ''indent_case_brace=2'', ''indent_class=true'',
      ''indent_class_colon=True'', ''# alignment'', ''indent_align_assign=False'',
      ''align_left_shift=True'', ''# comment reformating disabled'',
      ''cmt_reflow_mode=1 # do not touch comments at all'',
      ''cmt_indent_multi=False # really, do not touch them'']"

definition literal :: "string list \<Rightarrow> string" where
  "literal ls = nl @ concat (map (\<lambda>l. l @ nl) ls)"

definition uncrustify_config_file :: "int \<Rightarrow> string" where
  "uncrustify_config_file level =
     literal level0 @ (if level \<ge> 1 then literal level1 else [])
       @ (if level \<ge> 2 then literal level2 else [])"

section \<open>Patches\<close>

datatype line_type = Untyped | SRC | DST | BOTH

record patch_line =
  l_type :: line_type
  l_text :: string

definition is_src :: "patch_line \<Rightarrow> bool" where
  "is_src l \<longleftrightarrow> l_type l = SRC \<or> l_type l = BOTH"

definition is_dst :: "patch_line \<Rightarrow> bool" where
  "is_dst l \<longleftrightarrow> l_type l = DST \<or> l_type l = BOTH"

definition append_to_line :: "string \<Rightarrow> patch_line \<Rightarrow> patch_line" where
  "append_to_line s l = l\<lparr>l_text := l_text l @ s\<rparr>"

definition write_line :: "patch_line \<Rightarrow> string res" where
  "write_line l =
     (case l_type l of
        SRC \<Rightarrow> Inr (''-'' @ l_text l @ nl)
      | DST \<Rightarrow> Inr (''+'' @ l_text l @ nl)
      | BOTH \<Rightarrow> Inr ('' '' @ l_text l @ nl)
      | Untyped \<Rightarrow> Inl (Exception ''invalid patch''))"

record chunk =
  c_lines :: "patch_line list"
  src_pos :: int
  dst_pos :: int

text \<open>
  \<open>src\<close> and \<open>dst\<close> of a chunk return the line objects themselves, so that a change through one list is
  seen in the other: here they are the positions in the list of lines.
\<close>

definition src_ids :: "chunk \<Rightarrow> nat list" where
  "src_ids c = filter (\<lambda>i. is_src (c_lines c ! i)) [0 ..< length (c_lines c)]"

definition dst_ids :: "chunk \<Rightarrow> nat list" where
  "dst_ids c = filter (\<lambda>i. is_dst (c_lines c ! i)) [0 ..< length (c_lines c)]"

definition chunk_header :: "chunk \<Rightarrow> string" where
  "chunk_header c =
     ''@@ -'' @ show_int (src_pos c) @ '','' @ show_nat (length (src_ids c)) @ '' +''
       @ show_int (dst_pos c) @ '','' @ show_nat (length (dst_ids c)) @ '' @@'' @ nl"

definition write_chunk :: "chunk \<Rightarrow> string res" where
  "write_chunk c =
     bindE (mapE write_line (c_lines c)) (\<lambda>ls. Inr (chunk_header c @ concat ls))"

record patch =
  p_src :: string
  p_dst :: string
  p_chunks :: "chunk list"

definition write_patch :: "patch \<Rightarrow> string res" where
  "write_patch p =
     bindE (mapE write_chunk (p_chunks p)) (\<lambda>cs.
       Inr (''--- '' @ p_src p @ nl @ ''+++ '' @ p_dst p @ nl @ concat cs))"

section \<open>Reading patches\<close>

text \<open>\<open>after prefix line\<close>: the group of the regular expression \<open>^prefix(.*)$\<close>.\<close>

definition after :: "string \<Rightarrow> string \<Rightarrow> string option" where
  "after prefix line =
     (if has_prefix prefix line then
        let rest = drop (length prefix) line;
            body = (if rest \<noteq> [] \<and> last rest = CHR 0x0A then butlast rest else rest)
        in if CHR 0x0A \<in> set body then None else Some body
      else None)"

definition expect :: "string \<Rightarrow> string \<Rightarrow> string option" where
  "expect p s = (if has_prefix p s then Some (drop (length p) s) else None)"

definition read_number :: "string \<Rightarrow> (nat \<times> string) option" where
  "read_number s =
     (case takeWhile is_digit s of
        [] \<Rightarrow> None
      | d # ds \<Rightarrow> (case parse_digits False 0 (d # ds) of
            None \<Rightarrow> None | Some n \<Rightarrow> Some (n, dropWhile is_digit s)))"

definition chunk_start :: "string \<Rightarrow> (nat \<times> nat) option" where
  "chunk_start line =
     Option.bind (expect ''@@ -'' line) (\<lambda>s1.
     Option.bind (read_number s1) (\<lambda>(a, s2).
     Option.bind (expect '','' s2) (\<lambda>s3.
     Option.bind (read_number s3) (\<lambda>(_, s4).
     Option.bind (expect '' +'' s4) (\<lambda>s5.
     Option.bind (read_number s5) (\<lambda>(b, s6).
     Option.bind (expect '','' s6) (\<lambda>s7.
     Option.bind (read_number s7) (\<lambda>(_, s8).
     Option.bind (expect '' @@'' s8) (\<lambda>_. Some (a, b))))))))))"

text \<open>
  \<open>current_patch\<close> is the last patch of the list, if there is one; \<open>current_chunk\<close>, unbound at first,
  is the chunk created last, given by the position of its patch and its position there: after the
  header of a new patch it is still the chunk of an earlier one.
\<close>

record reader =
  patchset :: "patch list"
  current_chunk :: "(nat \<times> nat) option"

definition on_patch :: "exn \<Rightarrow> (patch \<Rightarrow> patch) \<Rightarrow> reader \<Rightarrow> reader res" where
  "on_patch e f r =
     (if patchset r = [] then Inl e
      else Inr (r\<lparr>patchset := (patchset r)[length (patchset r) - 1 := f (last (patchset r))]\<rparr>))"

definition add_chunk :: "chunk \<Rightarrow> reader \<Rightarrow> reader res" where
  "add_chunk c r =
     bindE (on_patch (AttributeError ''add_chunk'') (\<lambda>p. p\<lparr>p_chunks := p_chunks p @ [c]\<rparr>) r) (\<lambda>r'.
       Inr (r'\<lparr>current_chunk :=
         Some (length (patchset r') - 1, length (p_chunks (last (patchset r'))) - 1)\<rparr>))"

definition add_line :: "patch_line \<Rightarrow> reader \<Rightarrow> reader res" where
  "add_line l r =
     (case current_chunk r of
        None \<Rightarrow> Inl (UnboundLocalError ''current_chunk'')
      | Some (i, j) \<Rightarrow>
          let p = patchset r ! i; c = p_chunks p ! j;
              c' = c\<lparr>c_lines := c_lines c @ [l]\<rparr>
          in Inr (r\<lparr>patchset := (patchset r)[i := p\<lparr>p_chunks := (p_chunks p)[j := c']\<rparr>]\<rparr>))"

definition read_line :: "string \<Rightarrow> reader \<Rightarrow> reader res" where
  "read_line line r =
     (case after ''--- '' line of
        Some s \<Rightarrow> Inr (r\<lparr>patchset := patchset r @ [\<lparr>p_src = s, p_dst = [], p_chunks = []\<rparr>]\<rparr>)
      | None \<Rightarrow> case after ''+++ '' line of
        Some s \<Rightarrow> on_patch (AttributeError ''set_dst'') (\<lambda>p. p\<lparr>p_dst := s\<rparr>) r
      | None \<Rightarrow> case chunk_start line of
        Some (a, b) \<Rightarrow> add_chunk \<lparr>c_lines = [], src_pos = int a, dst_pos = int b\<rparr> r
      | None \<Rightarrow> case after ''-'' line of
        Some s \<Rightarrow> add_line \<lparr>l_type = SRC, l_text = s\<rparr> r
      | None \<Rightarrow> case after ''+'' line of
        Some s \<Rightarrow> add_line \<lparr>l_type = DST, l_text = s\<rparr> r
      | None \<Rightarrow> case after '' '' line of
        Some s \<Rightarrow> add_line \<lparr>l_type = BOTH, l_text = s\<rparr> r
      | None \<Rightarrow> Inl (Exception []))"

fun read_lines :: "string list \<Rightarrow> reader \<Rightarrow> reader res" where
  "read_lines [] r = Inr r"
| "read_lines (line # ls) r = bindE (read_line line r) (read_lines ls)"

definition parse_patchset :: "string list \<Rightarrow> patch list res" where
  "parse_patchset generator =
     bindE (read_lines generator \<lparr>patchset = [], current_chunk = None\<rparr>) (\<lambda>r. Inr (patchset r))"

section \<open>Changes of trailing blanks\<close>

text \<open>The groups of \<open>^(.*)([ \t]+)$\<close> on a line: the first group is greedy, so the second is one character.\<close>

definition trailing_blank :: "string \<Rightarrow> (string \<times> string) option" where
  "trailing_blank s =
     (if s \<noteq> [] \<and> (last s = CHR '' '' \<or> last s = CHR 0x09) \<and> CHR 0x0A \<notin> set s
      then Some (butlast s, [last s]) else None)"

text \<open>The loop over the lines of a chunk; the second component tells whether \<open>dst[i]\<close> raised.\<close>

fun undo_blanks :: "nat list \<Rightarrow> nat list \<Rightarrow> patch_line list \<Rightarrow> patch_line list \<times> bool" where
  "undo_blanks [] ds ls = (ls, False)"
| "undo_blanks (s # ss) [] ls = (ls, True)"
| "undo_blanks (s # ss) (d # ds) ls =
     (case trailing_blank (l_text (ls ! s)) of
        Some (front, blank) \<Rightarrow>
          undo_blanks ss ds (if front = l_text (ls ! d) then ls[d := append_to_line blank (ls ! d)] else ls)
      | None \<Rightarrow> undo_blanks ss ds ls)"

fun undo_chunks :: "chunk list \<Rightarrow> chunk list \<times> bool" where
  "undo_chunks [] = ([], False)"
| "undo_chunks (c # cs) =
     (case undo_blanks (src_ids c) (dst_ids c) (c_lines c) of
        (ls, True) \<Rightarrow> (c\<lparr>c_lines := ls\<rparr> # cs, True)
      | (ls, False) \<Rightarrow> (case undo_chunks cs of (cs', stop) \<Rightarrow> (c\<lparr>c_lines := ls\<rparr> # cs', stop)))"

fun undo_patches :: "patch list \<Rightarrow> patch list" where
  "undo_patches [] = []"
| "undo_patches (p # ps) =
     (case undo_chunks (p_chunks p) of
        (cs, stop) \<Rightarrow> p\<lparr>p_chunks := cs\<rparr> # (if stop then ps else undo_patches ps))"

definition remove_trailing_whitespace_changes :: "string list \<Rightarrow> patch list res" where
  "remove_trailing_whitespace_changes generator =
     bindE (parse_patchset generator) (\<lambda>ps. Inr (undo_patches ps))"

section \<open>Checking files\<close>

type_synonym files = "string \<Rightarrow> string option"

record tools =
  uncrustify :: "string \<Rightarrow> string option \<Rightarrow> string option"
  unified_diff :: "string list \<Rightarrow> string list \<Rightarrow> string \<Rightarrow> string \<Rightarrow> string list"
  apply_patch :: "string \<Rightarrow> string \<Rightarrow> string"
  temp_name :: "string \<Rightarrow> string"

text \<open>
  \<open>uncrustify config content\<close> is the formatted text (\<open>None\<close> when the program cannot be started), and
  \<open>apply_patch diff text\<close> the text after \<open>patch\<close>.  The result of \<open>indent\<close> is the content of its output
  file.  The diff is a generator: with \<open>debug\<close> it is written to a file first, and nothing is left.
\<close>

definition indent :: "tools \<Rightarrow> files \<Rightarrow> string \<Rightarrow> bool \<Rightarrow> int \<Rightarrow> string res" where
  "indent t fs source debug level =
     (case uncrustify t (uncrustify_config_file level) (fs source) of
        None \<Rightarrow> Inl (Exception ''uncrustify not installed'')
      | Some formatted \<Rightarrow>
          bindE (of_option (FileNotFoundError source) (fs source)) (\<lambda>text.
            let diff = unified_diff t (py_lines text) (py_lines formatted) source (temp_name t source);
                remaining = (if debug then [] else diff)
            in bindE (if level < 3
                 then bindE (remove_trailing_whitespace_changes remaining)
                        (\<lambda>ps. if ps \<noteq> [] then write_patch (hd ps) else Inr [])
                 else Inr (concat remaining)) (\<lambda>final_diff.
                 Inr (apply_patch t final_diff text))))"

definition report :: "tools \<Rightarrow> files \<Rightarrow> bool \<Rightarrow> (string \<times> string) list \<Rightarrow> string" where
  "report t fs diff failed =
     (if \<not> diff
      then ''Found '' @ show_nat (length failed) @ '' badly indented files:'' @ nl
             @ concat (map (\<lambda>(src, _). ''  '' @ src @ nl) failed)
      else concat (map (\<lambda>(src, dst).
             concat (unified_diff t (py_lines (the (fs src))) (py_lines dst) src (temp_name t src))) failed))"

definition indent_files :: "tools \<Rightarrow> files \<Rightarrow> string list \<Rightarrow> bool \<Rightarrow> bool \<Rightarrow> int \<Rightarrow> bool \<Rightarrow>
    (bool \<times> files \<times> string) res" where
  "indent_files t fs names diff debug level inplace =
     bindE (mapE (\<lambda>f. bindE (indent t fs f debug level) (\<lambda>dst. Inr (f, dst))) names) (\<lambda>outputs.
       if inplace then Inr (True, foldl (\<lambda>m (src, dst). m(src \<mapsto> dst)) fs outputs, [])
       else
         let failed = filter (\<lambda>(src, dst). fs src \<noteq> Some dst) outputs
         in if failed \<noteq> [] then Inr (False, fs, report t fs diff failed) else Inr (True, fs, []))"

definition is_space :: "char \<Rightarrow> bool" where
  "is_space c \<longleftrightarrow> c = CHR '' '' \<or> (9 \<le> (of_char c :: nat) \<and> (of_char c :: nat) \<le> 13)"

definition strip :: "string \<Rightarrow> string" where
  "strip s = rev (dropWhile is_space (rev (dropWhile is_space s)))"

definition hg_modified_files :: "string \<Rightarrow> string list" where
  "hg_modified_files status = map strip (py_lines status)"

text \<open>The mercurial hook returns true to reject the transaction.\<close>

definition run_as_hg_hook :: "tools \<Rightarrow> files \<Rightarrow> string \<Rightarrow> bool res" where
  "run_as_hg_hook t fs status =
     bindE (indent_files t fs (hg_modified_files status) False False 0 False)
       (\<lambda>(ok, _, _). Inr (\<not> ok))"

record options =
  o_debug :: bool
  o_level :: int
  o_hg_hook :: bool
  o_hg :: bool
  o_file :: string
  o_diff :: bool
  o_in_place :: bool

definition run_as_main :: "tools \<Rightarrow> files \<Rightarrow> string \<Rightarrow> options \<Rightarrow> (int \<times> files \<times> string) res" where
  "run_as_main t fs status opts =
     (let check = (\<lambda>names. bindE (indent_files t fs names (o_diff opts) (o_debug opts) (o_level opts)
            (o_in_place opts)) (\<lambda>(_, fs', out). Inr (0, fs', out)))
      in if o_hg_hook opts then
           bindE (indent_files t fs (hg_modified_files status) False (o_debug opts) (o_level opts) False)
             (\<lambda>(ok, fs', out). Inr (if ok then 0 else 1, fs', out))
         else if o_hg opts then check (hg_modified_files status)
         else if o_file opts \<noteq> [] then
           (if fs (o_file opts) = None
            then Inr (1, fs, ''file '' @ o_file opts @ '' does not exist'' @ nl)
            else check [o_file opts])
         else Inr (0, fs, []))"

section \<open>What is checked\<close>

lemma write_patch_empty: "write_patch p = Inr s \<Longrightarrow> s \<noteq> []"
  by (auto simp: write_patch_def res_simps)

text \<open>With \<open>debug\<close> no difference is ever found: the patch is empty, whatever the formatter says.\<close>

lemma debug_keeps_text:
  assumes "\<And>text. apply_patch t [] text = text" "uncrustify t (uncrustify_config_file level) (fs f) \<noteq> None"
    "fs f = Some text"
  shows "indent t fs f True level = Inr text"
  using assms by (auto simp: indent_def remove_trailing_whitespace_changes_def parse_patchset_def)

lemma debug_reports_nothing:
  assumes "\<And>text. apply_patch t [] text = text"
    "\<forall>f \<in> set names. fs f \<noteq> None \<and> uncrustify t (uncrustify_config_file level) (fs f) \<noteq> None"
  shows "indent_files t fs names diff True level False = Inr (True, fs, [])"
proof -
  let ?g = "\<lambda>f. (f, the (fs f))"
  have "mapE (\<lambda>f. bindE (indent t fs f True level) (\<lambda>dst. Inr (f, dst))) names = Inr (map ?g names)"
  proof (rule mapE_total)
    fix f assume "f \<in> set names"
    then obtain body where "fs f = Some body"
      "uncrustify t (uncrustify_config_file level) (fs f) \<noteq> None" using assms(2) by auto
    then show "bindE (indent t fs f True level) (\<lambda>dst. Inr (f, dst)) = Inr (?g f)"
      using debug_keeps_text [of t level fs f body] assms(1) by simp
  qed
  moreover have "filter (\<lambda>(src, dst). fs src \<noteq> Some dst) (map ?g names) = []"
    using assms(2) by (auto simp: filter_empty_conv)
  ultimately show ?thesis by (simp add: indent_files_def)
qed

text \<open>Only the hook mode reports badly indented files by its exit code.\<close>

lemma file_check_exits_0:
  "\<not> o_hg_hook opts \<Longrightarrow> fs (o_file opts) \<noteq> None \<Longrightarrow> o_file opts \<noteq> [] \<or> o_hg opts \<Longrightarrow>
   run_as_main t fs status opts = Inr (c, fs', out) \<Longrightarrow> c = 0"
  by (auto simp: run_as_main_def res_simps Let_def split: if_splits)

text \<open>A blank more or less is undone, two are not: the group of blanks only ever has one character.\<close>

lemma blanks_undone:
  "undo_blanks [0] [1] [\<lparr>l_type = SRC, l_text = ''x ''\<rparr>, \<lparr>l_type = DST, l_text = ''x''\<rparr>] =
     ([\<lparr>l_type = SRC, l_text = ''x ''\<rparr>, \<lparr>l_type = DST, l_text = ''x ''\<rparr>], False)"
  "undo_blanks [0] [1] [\<lparr>l_type = SRC, l_text = ''x  ''\<rparr>, \<lparr>l_type = DST, l_text = ''x''\<rparr>] =
     ([\<lparr>l_type = SRC, l_text = ''x  ''\<rparr>, \<lparr>l_type = DST, l_text = ''x''\<rparr>], False)"
  by code_simp+

text \<open>
  The lines of the two sides are paired by position.  A removed line can meet a context line, which
  then gets the blank on both sides: the patch no longer fits the source.
\<close>

lemma context_line_changed:
  "remove_trailing_whitespace_changes
     [''--- a'' @ nl, ''+++ b'' @ nl, ''@@ -1,2 +1,1 @@'' @ nl, ''-x '' @ nl, '' x'' @ nl] =
   Inr [\<lparr>p_src = ''a'', p_dst = ''b'', p_chunks = [\<lparr>c_lines =
     [\<lparr>l_type = SRC, l_text = ''x ''\<rparr>, \<lparr>l_type = BOTH, l_text = ''x ''\<rparr>], src_pos = 1, dst_pos = 1\<rparr>]\<rparr>]"
  by code_simp

text \<open>A removed line that starts with \<open>-- \<close> is taken for the header of another patch, and the range of
  a single line without its count, as newer versions of \<open>difflib\<close> print it, for an error.\<close>

lemma removed_line_as_header:
  "parse_patchset [''--- a'' @ nl, ''+++ b'' @ nl, ''@@ -1,1 +1,0 @@'' @ nl, ''--- x'' @ nl] =
   Inr [\<lparr>p_src = ''a'', p_dst = ''b'', p_chunks = [\<lparr>c_lines = [], src_pos = 1, dst_pos = 1\<rparr>]\<rparr>,
        \<lparr>p_src = ''x'', p_dst = [], p_chunks = []\<rparr>]"
  by code_simp

lemma single_line_range:
  "parse_patchset [''--- a'' @ nl, ''+++ b'' @ nl, ''@@ -1 +1 @@'' @ nl, ''-x'' @ nl, ''+y'' @ nl] = Inl (Exception [])"
  by code_simp

section \<open>Writing and reading patches\<close>

definition line_ok :: "patch_line \<Rightarrow> bool" where
  "line_ok l \<longleftrightarrow> CHR 0x0A \<notin> set (l_text l) \<and>
     (case l_type l of
        SRC \<Rightarrow> \<not> has_prefix ''-- '' (l_text l)
      | DST \<Rightarrow> \<not> has_prefix ''++ '' (l_text l)
      | BOTH \<Rightarrow> True
      | Untyped \<Rightarrow> False)"

definition chunk_ok :: "chunk \<Rightarrow> bool" where
  "chunk_ok c \<longleftrightarrow> 0 \<le> src_pos c \<and> 0 \<le> dst_pos c \<and> (\<forall>l \<in> set (c_lines c). line_ok l)"

definition patch_ok :: "patch \<Rightarrow> bool" where
  "patch_ok p \<longleftrightarrow> CHR 0x0A \<notin> set (p_src p) \<and> CHR 0x0A \<notin> set (p_dst p) \<and> (\<forall>c \<in> set (p_chunks p). chunk_ok c)"

definition line_text :: "patch_line \<Rightarrow> string" where
  "line_text l = (case l_type l of SRC \<Rightarrow> ''-'' | DST \<Rightarrow> ''+'' | _ \<Rightarrow> '' '') @ l_text l"

definition chunk_texts :: "chunk \<Rightarrow> string list" where
  "chunk_texts c = butlast (chunk_header c) # map line_text (c_lines c)"

definition patch_texts :: "patch \<Rightarrow> string list" where
  "patch_texts p = (''--- '' @ p_src p) # (''+++ '' @ p_dst p) # concat (map chunk_texts (p_chunks p))"

lemma after_line: "CHR 0x0A \<notin> set s \<Longrightarrow> after pre (pre @ s @ nl) = Some s"
  by (simp add: after_def nl_def Let_def)

lemma has_prefix_nl: "CHR 0x0A \<notin> set p \<Longrightarrow> has_prefix p (s @ nl) \<longleftrightarrow> has_prefix p s"
proof (induction p arbitrary: s)
  case (Cons c p)
  then show ?case by (cases s) (auto simp: has_prefix_def nl_def)
qed (simp add: has_prefix_def)

lemma after_other: "\<not> has_prefix pre line \<Longrightarrow> after pre line = None"
  by (simp add: after_def)

lemma has_prefix_Cons [simp]: "has_prefix (c # p) (d # s) \<longleftrightarrow> c = d \<and> has_prefix p s"
  by (auto simp: has_prefix_def)

lemma has_prefix_Nil [simp]: "has_prefix [] s"
  by (simp add: has_prefix_def)

lemma chunk_start_other: "hd line \<noteq> CHR ''@'' \<Longrightarrow> line \<noteq> [] \<Longrightarrow> chunk_start line = None"
  by (cases line) (simp_all add: chunk_start_def expect_def)

lemma read_number_show:
  assumes "rest = [] \<or> \<not> is_digit (hd rest)"
  shows "read_number (show_nat n @ rest) = Some (n, rest)"
proof -
  have all: "\<forall>c \<in> set (show_nat n). is_digit c" by (simp add: show_nat_is_digit)
  then have tw: "takeWhile is_digit (show_nat n @ rest) = show_nat n"
    using assms by (cases rest) auto
  moreover have "dropWhile is_digit (show_nat n @ rest) = rest"
    using all assms by (cases rest) auto
  ultimately show ?thesis
    using parse_show_nat [of n] by (auto simp: read_number_def split: list.splits)
qed

lemma expect_simps [simp]:
  "expect [] s = Some s" "expect (c # p) (d # s) = (if c = d then expect p s else None)"
  by (simp_all add: expect_def)

lemma chunk_start_header:
  assumes "0 \<le> src_pos c" "0 \<le> dst_pos c"
  shows "chunk_start (chunk_header c) = Some (nat (src_pos c), nat (dst_pos c))"
  using assms
  by (simp add: chunk_start_def chunk_header_def show_int_def read_number_show is_digit_def)

lemma concat_map_concat: "concat (map f (concat (map g xs))) = concat (map (\<lambda>x. concat (map f (g x))) xs)"
  by (induction xs) auto

lemma write_line_text: "line_ok l \<Longrightarrow> write_line l = Inr (line_text l @ nl)"
  by (auto simp: line_ok_def write_line_def line_text_def split: line_type.splits)

lemma write_chunk_text: "chunk_ok c \<Longrightarrow> write_chunk c = Inr (concat (map (\<lambda>s. s @ nl) (chunk_texts c)))"
  using mapE_total [of "c_lines c" write_line "\<lambda>l. line_text l @ nl"]
  by (simp add: chunk_ok_def write_chunk_def chunk_texts_def write_line_text chunk_header_def
      butlast_append nl_def comp_def)

lemma write_patch_text: "patch_ok p \<Longrightarrow> write_patch p = Inr (concat (map (\<lambda>s. s @ nl) (patch_texts p)))"
  using mapE_total [of "p_chunks p" write_chunk "\<lambda>c. concat (map (\<lambda>s. s @ nl) (chunk_texts c))"]
  by (simp add: patch_ok_def write_patch_def patch_texts_def write_chunk_text concat_map_concat)

lemma read_lines_append: "read_lines (xs @ ys) r = bindE (read_lines xs r) (read_lines ys)"
  by (induction xs arbitrary: r) (auto simp: bindE_def split: sum.splits)

lemma read_body_line:
  assumes "line_ok l" "current_chunk r = Some (length ps, length cs)"
    "patchset r = ps @ [p\<lparr>p_chunks := cs @ [c]\<rparr>]"
  shows "read_line (line_text l @ nl) r =
    Inr (r\<lparr>patchset := ps @ [p\<lparr>p_chunks := cs @ [c\<lparr>c_lines := c_lines c @ [l]\<rparr>]\<rparr>]\<rparr>)"
proof -
  have plain: "CHR 0x0A \<notin> set (l_text l)" using assms(1) by (simp add: line_ok_def)
  have add: "add_line l r =
      Inr (r\<lparr>patchset := ps @ [p\<lparr>p_chunks := cs @ [c\<lparr>c_lines := c_lines c @ [l]\<rparr>]\<rparr>]\<rparr>)"
    using assms(2,3) by (simp add: add_line_def Let_def)
  have one: "after [x] (x # l_text l @ nl) = Some (l_text l)" for x
    using after_line [OF plain, of "[x]"] by simp
  note no_match = after_other chunk_start_other has_prefix_nl
  show ?thesis
  proof (cases "l_type l")
    case SRC
    then have "l = \<lparr>l_type = SRC, l_text = l_text l\<rparr>" by simp
    moreover have "read_line (line_text l @ nl) r = add_line \<lparr>l_type = SRC, l_text = l_text l\<rparr> r"
      using SRC assms(1) by (simp add: read_line_def line_text_def one no_match line_ok_def)
    ultimately show ?thesis using add by simp
  next
    case DST
    then have "l = \<lparr>l_type = DST, l_text = l_text l\<rparr>" by simp
    moreover have "read_line (line_text l @ nl) r = add_line \<lparr>l_type = DST, l_text = l_text l\<rparr> r"
      using DST assms(1) by (simp add: read_line_def line_text_def one no_match line_ok_def)
    ultimately show ?thesis using add by simp
  next
    case BOTH
    then have "l = \<lparr>l_type = BOTH, l_text = l_text l\<rparr>" by simp
    moreover have "read_line (line_text l @ nl) r = add_line \<lparr>l_type = BOTH, l_text = l_text l\<rparr> r"
      using BOTH assms(1) by (simp add: read_line_def line_text_def one no_match line_ok_def)
    ultimately show ?thesis using add by simp
  qed (use assms(1) in \<open>simp add: line_ok_def\<close>)
qed

lemma read_body:
  assumes "\<forall>l \<in> set ls. line_ok l" "current_chunk r = Some (length ps, length cs)"
    "patchset r = ps @ [p\<lparr>p_chunks := cs @ [c]\<rparr>]"
  shows "read_lines (map (\<lambda>s. s @ nl) (map line_text ls)) r =
    Inr (r\<lparr>patchset := ps @ [p\<lparr>p_chunks := cs @ [c\<lparr>c_lines := c_lines c @ ls\<rparr>]\<rparr>]\<rparr>)"
  using assms
proof (induction ls arbitrary: r c)
  case (Cons l ls)
  let ?r = "r\<lparr>patchset := ps @ [p\<lparr>p_chunks := cs @ [c\<lparr>c_lines := c_lines c @ [l]\<rparr>]\<rparr>]\<rparr>"
  show ?case
    using read_body_line [where l = l and r = r and ps = ps and cs = cs and p = p and c = c] Cons.IH [where r = ?r and c = "c\<lparr>c_lines := c_lines c @ [l]\<rparr>"] Cons.prems by simp
qed simp

lemma read_chunk:
  assumes "chunk_ok c" "patchset r = ps @ [p]"
  shows "\<exists>cur. read_lines (map (\<lambda>s. s @ nl) (chunk_texts c)) r =
    Inr \<lparr>patchset = ps @ [p\<lparr>p_chunks := p_chunks p @ [c]\<rparr>], current_chunk = cur\<rparr>"
proof -
  let ?c = "\<lparr>c_lines = [], src_pos = src_pos c, dst_pos = dst_pos c\<rparr>"
  let ?r = "\<lparr>patchset = ps @ [p\<lparr>p_chunks := p_chunks p @ [?c]\<rparr>],
    current_chunk = Some (length ps, length (p_chunks p))\<rparr>"
  have head: "butlast (chunk_header c) @ nl = chunk_header c"
    by (simp add: chunk_header_def butlast_append nl_def)
  have at: "\<not> has_prefix (x # pre) (chunk_header c)" if "x \<noteq> CHR ''@''" for x pre
    using that by (simp add: chunk_header_def)
  have "read_line (chunk_header c) r = Inr ?r"
    using assms by (simp add: read_line_def after_other at chunk_start_header chunk_ok_def add_chunk_def on_patch_def)
  moreover have "read_lines (map (\<lambda>s. s @ nl) (map line_text (c_lines c))) ?r =
      Inr (?r\<lparr>patchset := ps @ [p\<lparr>p_chunks := p_chunks p @ [?c\<lparr>c_lines := [] @ c_lines c\<rparr>]\<rparr>]\<rparr>)"
    using assms(1) read_body [where ls = "c_lines c" and r = ?r and ps = ps and cs = "p_chunks p" and p = p and c = ?c] by (simp add: chunk_ok_def)
  ultimately show ?thesis by (simp add: chunk_texts_def head)
qed

lemma read_chunks:
  "\<forall>c \<in> set cs. chunk_ok c \<Longrightarrow> patchset r = ps @ [p] \<Longrightarrow>
   \<exists>cur. read_lines (map (\<lambda>s. s @ nl) (concat (map chunk_texts cs))) r =
     Inr \<lparr>patchset = ps @ [p\<lparr>p_chunks := p_chunks p @ cs\<rparr>], current_chunk = cur\<rparr>"
proof (induction cs arbitrary: r p)
  case Nil
  then show ?case by (cases r) auto
next
  case (Cons c cs)
  then obtain cur where c: "read_lines (map (\<lambda>s. s @ nl) (chunk_texts c)) r =
      Inr \<lparr>patchset = ps @ [p\<lparr>p_chunks := p_chunks p @ [c]\<rparr>], current_chunk = cur\<rparr>"
    using read_chunk by (metis list.set_intros(1))
  show ?case
    using Cons.IH [of "\<lparr>patchset = ps @ [p\<lparr>p_chunks := p_chunks p @ [c]\<rparr>], current_chunk = cur\<rparr>"
        "p\<lparr>p_chunks := p_chunks p @ [c]\<rparr>"] Cons.prems(1) c
    by (simp add: read_lines_append)
qed

lemma read_patch:
  assumes "patch_ok p"
  shows "\<exists>cur. read_lines (map (\<lambda>s. s @ nl) (patch_texts p)) r =
    Inr \<lparr>patchset = patchset r @ [p], current_chunk = cur\<rparr>"
proof -
  have plain: "CHR 0x0A \<notin> set (p_src p)" "CHR 0x0A \<notin> set (p_dst p)" using assms by (simp_all add: patch_ok_def)
  let ?r1 = "r\<lparr>patchset := patchset r @ [\<lparr>p_src = p_src p, p_dst = [], p_chunks = []\<rparr>]\<rparr>"
  let ?r2 = "r\<lparr>patchset := patchset r @ [\<lparr>p_src = p_src p, p_dst = p_dst p, p_chunks = []\<rparr>]\<rparr>"
  have "read_line (''--- '' @ p_src p @ nl) r = Inr ?r1"
    using after_line [OF plain(1), of "''--- ''"] by (simp add: read_line_def)
  moreover have "read_line (''+++ '' @ p_dst p @ nl) ?r1 = Inr ?r2"
    using after_line [OF plain(2), of "''+++ ''"] by (simp add: read_line_def after_other on_patch_def)
  moreover have "\<exists>cur. read_lines (map (\<lambda>s. s @ nl) (concat (map chunk_texts (p_chunks p)))) ?r2 =
      Inr \<lparr>patchset = patchset r @ [p], current_chunk = cur\<rparr>"
  proof -
    have eta: "\<lparr>p_src = p_src p, p_dst = p_dst p, p_chunks = p_chunks p\<rparr> = p" by simp
    show ?thesis
      using read_chunks [of "p_chunks p" ?r2 "patchset r"] assms unfolding patch_ok_def by (simp add: eta)
  qed
  ultimately show ?thesis by (simp add: patch_texts_def)
qed

lemma read_patches:
  "\<forall>p \<in> set ps. patch_ok p \<Longrightarrow>
   \<exists>cur. read_lines (map (\<lambda>s. s @ nl) (concat (map patch_texts ps))) r =
     Inr \<lparr>patchset = patchset r @ ps, current_chunk = cur\<rparr>"
proof (induction ps arbitrary: r)
  case Nil
  then show ?case by (cases r) auto
next
  case (Cons p ps)
  then obtain cur where p: "read_lines (map (\<lambda>s. s @ nl) (patch_texts p)) r =
      Inr \<lparr>patchset = patchset r @ [p], current_chunk = cur\<rparr>"
    using read_patch by (metis list.set_intros(1))
  show ?case
    using Cons.IH [of "\<lparr>patchset = patchset r @ [p], current_chunk = cur\<rparr>"] Cons.prems p
    by (simp add: read_lines_append)
qed

lemma patch_texts_plain:
  assumes "patch_ok p" "s \<in> set (patch_texts p)"
  shows "CHR 0x0A \<notin> set s"
proof -
  have head: "CHR 0x0A \<notin> set (butlast (chunk_header c))" if "0 \<le> src_pos c" "0 \<le> dst_pos c" for c
    using that by (auto simp: chunk_header_def show_int_def butlast_append nl_def dest: show_nat_no_ws [simplified is_ws_def])
  have body: "CHR 0x0A \<notin> set (line_text l)" if "line_ok l" for l
    using that by (auto simp: line_ok_def line_text_def split: line_type.splits)
  show ?thesis
    using assms head body unfolding patch_texts_def chunk_texts_def patch_ok_def chunk_ok_def by auto
qed

text \<open>
  C40. Patches are read back as they were written: any list of patches with names and lines without
  newline, positions that are not negative and typed lines, in which no removed line starts with
  \<open>-- \<close> and no added line with \<open>++ \<close>.
\<close>

theorem patch_roundtrip:
  assumes "\<forall>p \<in> set ps. patch_ok p"
  shows "\<exists>texts. mapE write_patch ps = Inr texts \<and> parse_patchset (py_lines (concat texts)) = Inr ps"
proof -
  let ?w = "\<lambda>p. concat (map (\<lambda>s. s @ nl) (patch_texts p))"
  have "mapE write_patch ps = Inr (map ?w ps)"
    using assms by (intro mapE_total write_patch_text) simp
  moreover have "concat (map ?w ps) = concat (map (\<lambda>s. s @ nl) (concat (map patch_texts ps)))"
    by (simp add: concat_map_concat)
  moreover have "py_lines \<dots> = map (\<lambda>s. s @ nl) (concat (map patch_texts ps))"
    using assms patch_texts_plain by (intro py_lines_concat) auto
  ultimately show ?thesis
    using read_patches [OF assms, of "\<lparr>patchset = [], current_chunk = None\<rparr>"]
    by (auto simp: parse_patchset_def)
qed

definition example_patch :: patch where
  "example_patch = \<lparr>p_src = ''a.cc'', p_dst = ''/tmp/b'', p_chunks =
     [\<lparr>c_lines = [\<lparr>l_type = BOTH, l_text = ''{''\<rparr>, \<lparr>l_type = SRC, l_text = ''x++ ;''\<rparr>,
        \<lparr>l_type = DST, l_text = ''  x++;''\<rparr>], src_pos = 1, dst_pos = 1\<rparr>]\<rparr>"

lemma patch_roundtrip_witness:
  "patch_ok example_patch \<and>
   (\<exists>texts. mapE write_patch [example_patch] = Inr texts \<and>
      parse_patchset (py_lines (concat texts)) = Inr [example_patch])"
proof -
  have ok: "patch_ok example_patch" by code_simp
  then show ?thesis using patch_roundtrip [of "[example_patch]"] by simp
qed

end
