(* ===== verification/ConfigFiles.thy ===== *)
theory ConfigFiles
  imports PyBase
begin

text \<open>
  \<open>utils.py\<close>: reading lists and switches out of Python-like settings files, and the \<open>.ns3rc\<close> file.

  A file system is a map from paths to texts.  \<open>eval\<close>, the Python evaluator applied to the text
  right of the equals sign, is a parameter; its values are \<open>pyval\<close>s and it may raise.
\<close>

section \<open>Values and lines\<close>

datatype pyval = PyBool bool | PyStr string | PyTuple "pyval list" | PyList "pyval list"

fun truth_value :: "pyval \<Rightarrow> bool" where
  "truth_value (PyBool b) = b"
| "truth_value (PyStr s) = (s \<noteq> [])"
| "truth_value (PyTuple vs) = (vs \<noteq> [])"
| "truth_value (PyList vs) = (vs \<noteq> [])"

text \<open>\<open>line.split('#', 1)[0]\<close>; the line end goes with the comment.\<close>

definition uncomment :: "string \<Rightarrow> string" where
  "uncomment line = takeWhile (\<lambda>c. c \<noteq> CHR ''#'') line"

text \<open>\<open>s.split('=', 1)[1]\<close>\<close>

definition right_of_equals :: "string \<Rightarrow> string res" where
  "right_of_equals s =
     (case dropWhile (\<lambda>c. c \<noteq> CHR ''='') s of [] \<Rightarrow> Inl IndexError | _ # value \<Rightarrow> Inr value)"

definition eval_right :: "(string \<Rightarrow> pyval res) \<Rightarrow> string \<Rightarrow> pyval res" where
  "eval_right eval s = bindE (right_of_equals s) (\<lambda>value. eval (py_strip value))"

section \<open>Lists\<close>

fun list_loop :: "(string \<Rightarrow> pyval res) \<Rightarrow> string \<Rightarrow> string \<Rightarrow> bool \<Rightarrow> string list \<Rightarrow> pyval res" where
  "list_loop eval list_name list_string multiline [] = Inr (PyList [])"
| "list_loop eval list_name list_string multiline (l # ls) =
     (let line = uncomment l in
      if has_infix list_name line \<or> multiline
      then let text = list_string @ line in
           if CHR '']'' \<notin> set text then list_loop eval list_name text True ls
           else eval_right eval text
      else list_loop eval list_name list_string multiline ls)"

definition get_list_from_file ::
  "(string \<Rightarrow> pyval res) \<Rightarrow> (string \<rightharpoonup> string) \<Rightarrow> string \<Rightarrow> string \<Rightarrow> pyval res" where
  "get_list_from_file eval files file_path list_name =
     (case files file_path of
        None \<Rightarrow> Inr (PyList [])
      | Some text \<Rightarrow> list_loop eval list_name [] False (py_lines text))"

section \<open>Switches\<close>

fun bool_loop :: "(string \<Rightarrow> pyval res) \<Rightarrow> string \<Rightarrow> string list \<Rightarrow> pyval option res" where
  "bool_loop eval bool_name [] = Inr None"
| "bool_loop eval bool_name (l # ls) =
     (let line = uncomment l in
      if has_infix bool_name line then bindE (eval_right eval line) (\<lambda>v. Inr (Some v))
      else bool_loop eval bool_name ls)"

text \<open>\<open>bool_found\<close> is only bound when the file exists.\<close>

definition get_bool_from_file ::
  "(string \<Rightarrow> pyval res) \<Rightarrow> (string \<rightharpoonup> string) \<Rightarrow> string \<Rightarrow> string \<Rightarrow> pyval \<Rightarrow> pyval res" where
  "get_bool_from_file eval files file_path bool_name value_if_missing =
     (case files file_path of
        None \<Rightarrow> Inl (UnboundLocalError ''bool_found'')
      | Some text \<Rightarrow>
          bindE (bool_loop eval bool_name (py_lines text))
            (\<lambda>found. Inr (case found of None \<Rightarrow> value_if_missing | Some v \<Rightarrow> v)))"

section \<open>The settings file .ns3rc\<close>

record ns3rc =
  config_file_exists :: bool
  modules_enabled :: pyval
  examples_enabled :: pyval
  tests_enabled :: pyval

definition all_modules :: pyval where
  "all_modules = PyList [PyStr ''all_modules'']"

text \<open>\<open>home\<close> is \<open>os.path.expanduser('~/')\<close>.\<close>

definition ns3rc_path :: "(string \<rightharpoonup> string) \<Rightarrow> string \<Rightarrow> string option" where
  "ns3rc_path files home =
     (if files ''.ns3rc'' \<noteq> None then Some ''.ns3rc''
      else if files (home @ ''.ns3rc'') \<noteq> None then Some (home @ ''.ns3rc'') else None)"

definition read_config_file ::
  "(string \<Rightarrow> pyval res) \<Rightarrow> (string \<rightharpoonup> string) \<Rightarrow> string \<Rightarrow> ns3rc res" where
  "read_config_file eval files home =
     (case ns3rc_path files home of
        None \<Rightarrow>
          Inr \<lparr>config_file_exists = False, modules_enabled = all_modules,
               examples_enabled = PyBool False, tests_enabled = PyBool False\<rparr>
      | Some path \<Rightarrow>
          bindE (get_list_from_file eval files path ''modules_enabled'') (\<lambda>modules.
          bindE (get_bool_from_file eval files path ''examples_enabled'' (PyBool False)) (\<lambda>examples.
          bindE (get_bool_from_file eval files path ''tests_enabled'' (PyBool False)) (\<lambda>tests.
            Inr \<lparr>config_file_exists = True,
                 modules_enabled = (if truth_value modules then modules else all_modules),
                 examples_enabled = examples, tests_enabled = tests\<rparr>))))"

section \<open>What is found\<close>

lemma uncomment_clean: "CHR ''#'' \<notin> set line \<Longrightarrow> uncomment line = line"
  by (auto simp: uncomment_def takeWhile_eq_all_conv)

lemma right_of_equals_iff:
  "right_of_equals s = Inr v \<longleftrightarrow> (\<exists>u. s = u @ CHR ''='' # v \<and> CHR ''='' \<notin> set u)"
proof
  assume "right_of_equals s = Inr v"
  then obtain c where "dropWhile (\<lambda>c. c \<noteq> CHR ''='') s = c # v"
    by (auto simp: right_of_equals_def split: list.splits)
  moreover from this have "c = CHR ''=''"
    using hd_dropWhile [of "\<lambda>c. c \<noteq> CHR ''=''" s] by simp
  moreover have "s = takeWhile (\<lambda>c. c \<noteq> CHR ''='') s @ dropWhile (\<lambda>c. c \<noteq> CHR ''='') s"
    by simp
  ultimately show "\<exists>u. s = u @ CHR ''='' # v \<and> CHR ''='' \<notin> set u"
    by (metis (mono_tags, lifting) set_takeWhileD)
next
  assume "\<exists>u. s = u @ CHR ''='' # v \<and> CHR ''='' \<notin> set u"
  then obtain u where s: "s = u @ CHR ''='' # v" and u: "\<forall>c \<in> set u. c \<noteq> CHR ''=''"
    by auto
  then have "dropWhile (\<lambda>c. c \<noteq> CHR ''='') s = CHR ''='' # v"
    by (simp add: dropWhile_append2)
  then show "right_of_equals s = Inr v"
    by (simp add: right_of_equals_def)
qed

text \<open>Lines without the name are passed over.\<close>

lemma list_loop_skip:
  assumes "\<forall>l \<in> set pre. \<not> has_infix list_name (uncomment l)"
  shows "list_loop eval list_name [] False (pre @ ls) = list_loop eval list_name [] False ls"
  using assms by (induction pre) (simp_all add: Let_def)

lemma bool_loop_skip:
  assumes "\<forall>l \<in> set pre. \<not> has_infix bool_name (uncomment l)"
  shows "bool_loop eval bool_name (pre @ ls) = bool_loop eval bool_name ls"
  using assms by (induction pre) (simp_all add: Let_def)

text \<open>Inside a definition the lines are collected up to the first closing bracket.\<close>

lemma list_loop_collect:
  assumes "\<forall>l \<in> set body. CHR '']'' \<notin> set (uncomment l)" and "CHR '']'' \<notin> set acc"
    and "CHR '']'' \<in> set (uncomment l)"
  shows "list_loop eval list_name acc True (body @ l # ls) =
           eval_right eval (acc @ concat (map uncomment body) @ uncomment l)"
  using assms by (induction body arbitrary: acc) (auto simp: Let_def)

text \<open>A definition of the list: the first line with the name, the lines up to the bracket.\<close>

definition defines_list :: "string \<Rightarrow> string list \<Rightarrow> string \<Rightarrow> bool" where
  "defines_list list_name ls value \<longleftrightarrow>
     (\<exists>pre first body final rest u.
        ls = pre @ (first # body) @ rest \<and>
        (\<forall>l \<in> set pre. \<not> has_infix list_name (uncomment l)) \<and> has_infix list_name (uncomment first) \<and>
        final = concat (map uncomment (first # body)) \<and>
        (\<forall>l \<in> set (butlast (first # body)). CHR '']'' \<notin> set (uncomment l)) \<and>
        CHR '']'' \<in> set (uncomment (last (first # body))) \<and>
        final = u @ CHR ''='' # value \<and> CHR ''='' \<notin> set u)"

lemma list_loop_defined:
  assumes "defines_list list_name ls value"
  shows "list_loop eval list_name [] False ls = eval (py_strip value)"
proof -
  obtain pre first body rest u where ls: "ls = pre @ (first # body) @ rest"
    and pre: "\<forall>l \<in> set pre. \<not> has_infix list_name (uncomment l)"
    and first: "has_infix list_name (uncomment first)"
    and inner: "\<forall>l \<in> set (butlast (first # body)). CHR '']'' \<notin> set (uncomment l)"
    and closing: "CHR '']'' \<in> set (uncomment (last (first # body)))"
    and joined: "concat (map uncomment (first # body)) = u @ CHR ''='' # value" "CHR ''='' \<notin> set u"
    using assms unfolding defines_list_def by blast
  have eval: "eval_right eval (concat (map uncomment (first # body))) = eval (py_strip value)"
  proof -
    have "right_of_equals (concat (map uncomment (first # body))) = Inr value"
      using joined by (auto simp only: right_of_equals_iff)
    then show ?thesis by (simp add: eval_right_def)
  qed
  have "list_loop eval list_name [] False ls = list_loop eval list_name [] False (first # body @ rest)"
    using pre by (simp add: ls list_loop_skip)
  also have "\<dots> = eval_right eval (concat (map uncomment (first # body)))"
  proof (cases body rule: rev_cases)
    case Nil
    then show ?thesis using first closing by (simp add: Let_def)
  next
    case (snoc b l)
    have b: "\<forall>x \<in> set b. CHR '']'' \<notin> set (uncomment x)"
      and f: "CHR '']'' \<notin> set (uncomment first)"
      and l: "CHR '']'' \<in> set (uncomment l)"
      using inner closing snoc by (auto simp: butlast_append)
    have "list_loop eval list_name [] False (first # body @ rest) =
            list_loop eval list_name (uncomment first) True (b @ l # rest)"
      using first f by (simp add: Let_def snoc)
    also have "\<dots> = eval_right eval (uncomment first @ concat (map uncomment b) @ uncomment l)"
      by (rule list_loop_collect [OF b f l])
    finally show ?thesis by (simp add: snoc)
  qed
  finally show ?thesis using eval by simp
qed

text \<open>Without the file: an empty list, but no switch.\<close>

lemma missing_file:
  "get_list_from_file eval (\<lambda>_. None) path name = Inr (PyList [])"
  "get_bool_from_file eval (\<lambda>_. None) path name v = Inl (UnboundLocalError ''bool_found'')"
  by (simp_all add: get_list_from_file_def get_bool_from_file_def)

text \<open>A list whose bracket never closes is an empty list.\<close>

lemma unclosed_list:
  assumes "\<forall>l \<in> set ls. CHR '']'' \<notin> set (uncomment l)" and "CHR '']'' \<notin> set acc"
  shows "list_loop eval list_name acc m ls = Inr (PyList [])"
  using assms by (induction ls arbitrary: acc m) (auto simp: Let_def)

text \<open>The settings file is read with the defaults for what it does not define.\<close>

lemma read_config_file_default:
  "files ''.ns3rc'' = None \<Longrightarrow> files (home @ ''.ns3rc'') = None \<Longrightarrow>
     read_config_file eval files home =
       Inr \<lparr>config_file_exists = False, modules_enabled = all_modules,
            examples_enabled = PyBool False, tests_enabled = PyBool False\<rparr>"
  by (simp add: read_config_file_def ns3rc_path_def)

lemma read_config_file_empty:
  assumes "files ''.ns3rc'' = Some text"
    and "\<forall>l \<in> set (py_lines text). \<forall>name \<in> {''modules_enabled'', ''examples_enabled'', ''tests_enabled''}.
           \<not> has_infix name (uncomment l)"
  shows "read_config_file eval files home =
           Inr \<lparr>config_file_exists = True, modules_enabled = all_modules,
                examples_enabled = PyBool False, tests_enabled = PyBool False\<rparr>"
  using assms list_loop_skip [of "py_lines text" "''modules_enabled''" eval "[]"]
    bool_loop_skip [of "py_lines text" "''examples_enabled''" eval "[]"]
    bool_loop_skip [of "py_lines text" "''tests_enabled''" eval "[]"]
  by (simp add: read_config_file_def ns3rc_path_def get_list_from_file_def get_bool_from_file_def)

text \<open>A comment that mentions the name is no definition; text that mentions it is taken for one.\<close>

lemma config_examples:
  "bool_loop eval ''tests_enabled'' [''# tests_enabled = True'' @ nl] = Inr None"
  "bool_loop eval ''tests_enabled'' [''tests_enabled'' @ nl] = Inl IndexError"
  "bool_loop eval ''tests_enabled'' [''no_tests_enabled = True'' @ nl] =
     bindE (eval ''True'') (\<lambda>v. Inr (Some v))"
  by (simp_all add: uncomment_def Let_def eval_right_def right_of_equals_def has_prefix_def nl_def
      py_strip_def py_rstrip_def is_ws_def)

end
