(* ===== verification/TestJobs.thy ===== *)
theory TestJobs
  imports ConfigFiles PyFloat "HOL-Library.Multiset"
begin

text \<open>
  \<open>test.py\<close>: from the options and the configuration to the jobs of the test run.

  What the waf configuration cache defines is the record \<open>tconf\<close>, the parsed command line the record
  \<open>topts\<close>.  The operating system is a parameter: \<open>files\<close> maps paths to texts, \<open>exists\<close> tells which
  paths exist, \<open>shell command directory\<close> is the outcome of a process: exit code, its two outputs and
  the time, or an exception when it cannot be started.  \<open>eval\<close> evaluates the values in the settings
  files, \<open>condition\<close> the conditions of the examples.
\<close>

section \<open>Paths\<close>

definition join_path :: "string \<Rightarrow> string \<Rightarrow> string" where
  "join_path a b =
     (if has_prefix ''/'' b then b else if a = [] \<or> last a = CHR ''/'' then a @ b else a @ ''/'' @ b)"

definition basename :: "string \<Rightarrow> string" where
  "basename p = rev (takeWhile (\<lambda>c. c \<noteq> CHR ''/'') (rev p))"

fun normal_parts :: "string list \<Rightarrow> string list \<Rightarrow> string list" where
  "normal_parts acc [] = rev acc"
| "normal_parts acc (p # ps) =
     (if p = [] \<or> p = ''.'' then normal_parts acc ps
      else if p = ''..'' then normal_parts (drop 1 acc) ps
      else normal_parts (p # acc) ps)"

definition abspath :: "string \<Rightarrow> string \<Rightarrow> string" where
  "abspath cwd p =
     (let a = join_path cwd p
      in (if has_prefix ''//'' a \<and> \<not> has_prefix ''///'' a then ''//'' else ''/'') @
         py_join ''/'' (normal_parts [] (split_char (CHR ''/'') a)))"

section \<open>Configuration and options\<close>

record tconf =
  c_basedir :: string
  c_builddir :: string
  c_appname :: string
  c_version :: string
  c_profile :: string
  c_nsc :: bool
  c_examples :: bool
  c_bindings :: bool
  c_example_dirs :: "string list"
  c_modules :: "string list"
  c_module_path :: "string list"
  c_python :: pyval
  c_platform :: string
  c_processors :: nat
  c_cwd :: string

record topts =
  o_buildpath :: string
  o_constrain :: string
  o_duration :: bool
  o_example :: string
  o_update_data :: bool
  o_fullness :: string
  o_valgrind :: bool
  o_kinds :: bool
  o_list :: bool
  o_multiple :: bool
  o_nowaf :: bool
  o_pyexample :: string
  o_retain :: bool
  o_suite :: string
  o_text :: string
  o_html :: string
  o_xml :: string

text \<open>The defaults of \<open>main\<close>.\<close>

definition default_topts :: topts where
  "default_topts =
     \<lparr>o_buildpath = [], o_constrain = [], o_duration = False, o_example = [], o_update_data = False,
      o_fullness = ''QUICK'', o_valgrind = False, o_kinds = False, o_list = False, o_multiple = False,
      o_nowaf = False, o_pyexample = [], o_retain = False, o_suite = [], o_text = [], o_html = [],
      o_xml = []\<rparr>"

definition core_kinds :: "string list" where
  "core_kinds = [''bvt'', ''core'', ''performance'', ''system'', ''unit'']"

definition core_nsc_missing_skip_tests :: "string list" where
  "core_nsc_missing_skip_tests = [''ns3-tcp-cwnd'', ''nsc-tcp-loss'', ''ns3-tcp-interoperability'']"

definition core_valgrind_skip_tests :: "string list" where
  "core_valgrind_skip_tests =
     [''ns3-tcp-cwnd'', ''nsc-tcp-loss'', ''ns3-tcp-interoperability'', ''routing-click'',
      ''lte-rr-ff-mac-scheduler'', ''lte-tdmt-ff-mac-scheduler'', ''lte-fdmt-ff-mac-scheduler'',
      ''lte-pf-ff-mac-scheduler'', ''lte-tta-ff-mac-scheduler'', ''lte-fdbet-ff-mac-scheduler'',
      ''lte-ttbet-ff-mac-scheduler'', ''lte-fdtbfq-ff-mac-scheduler'', ''lte-tdtbfq-ff-mac-scheduler'',
      ''lte-pss-ff-mac-scheduler'']"

definition profile_suffix :: "tconf \<Rightarrow> string" where
  "profile_suffix c = (if c_profile c = ''release'' then [] else ''-'' @ c_profile c)"

text \<open>The name under which waf builds a program.\<close>

definition built_name :: "tconf \<Rightarrow> string \<Rightarrow> string" where
  "built_name c n = c_appname c @ c_version c @ ''-'' @ n @ profile_suffix c"

section \<open>The paths in the environment\<close>

definition path_variable :: "string \<Rightarrow> string" where
  "path_variable platform =
     (if platform = ''darwin'' then ''DYLD_LIBRARY_PATH''
      else if platform = ''win32'' \<or> platform = ''cygwin'' then ''PATH'' else ''LD_LIBRARY_PATH'')"

definition make_paths :: "tconf \<Rightarrow> (string \<rightharpoonup> string) \<Rightarrow> (string \<rightharpoonup> string)" where
  "make_paths c env =
     (let pypath = join_path (join_path (c_builddir c) ''bindings'') ''python'';
          env1 = env(''PYTHONPATH'' \<mapsto> pypath);
          env2 = (if env ''PYTHONPATH'' = None then env1(''PYTHONPATH'' \<mapsto> pypath)
                  else env1(''PYTHONPATH'' \<mapsto> the (env1 ''PYTHONPATH'') @ '':'' @ pypath));
          var = path_variable (c_platform c);
          sep = (if c_platform c = ''win32'' then '';'' else '':'');
          old = (case env var of None \<Rightarrow> [] | Some p \<Rightarrow> p)
      in env2(var \<mapsto> old @ concat (map (\<lambda>p. sep @ p) (c_module_path c))))"

section \<open>Running one command\<close>

type_synonym outcome = "int \<times> string \<times> string \<times> pyfloat"
type_synonym shell = "string \<Rightarrow> string \<Rightarrow> outcome res"

text \<open>\<open>PYTHON[0]\<close>\<close>

fun python_program :: "pyval \<Rightarrow> string res" where
  "python_program (PyStr []) = Inl IndexError"
| "python_program (PyStr (c # cs)) = Inr [c]"
| "python_program (PyList []) = Inl IndexError"
| "python_program (PyList (PyStr s # vs)) = Inr s"
| "python_program (PyTuple []) = Inl IndexError"
| "python_program (PyTuple (PyStr s # vs)) = Inr s"
| "python_program _ = Inl TypeError"

definition path_command :: "tconf \<Rightarrow> string \<Rightarrow> bool \<Rightarrow> string \<Rightarrow> string res" where
  "path_command c shell_command is_python build_path =
     (if is_python
      then bindE (python_program (c_python c)) (\<lambda>p. Inr (p @ '' '' @ join_path (c_basedir c) shell_command))
      else Inr (join_path (if build_path \<noteq> [] then build_path else c_builddir c) shell_command))"

definition valgrind_command :: "tconf \<Rightarrow> string \<Rightarrow> string" where
  "valgrind_command c path_cmd =
     ''valgrind --suppressions='' @ join_path (c_basedir c) ''testpy.supp'' @
     '' --leak-check=full --show-reachable=yes --error-exitcode=2 '' @ path_cmd"

definition run_job_synchronously ::
  "tconf \<Rightarrow> shell \<Rightarrow> string \<Rightarrow> string \<Rightarrow> bool \<Rightarrow> bool \<Rightarrow> string \<Rightarrow> outcome res" where
  "run_job_synchronously c shell shell_command directory valgrind is_python build_path =
     bindE (path_command c shell_command is_python build_path) (\<lambda>path_cmd.
     bindE (shell (if valgrind then valgrind_command c path_cmd else path_cmd) directory)
       (\<lambda>(retval, out, err, elapsed).
         Inr (if valgrind \<and> retval = 0 \<and> has_infix ''== LEAK SUMMARY:'' err then 2 else retval,
              out, err, elapsed)))"

section \<open>The examples to run\<close>

text \<open>\<open>for x in value\<close> and the unpacking of a tuple.\<close>

fun items :: "pyval \<Rightarrow> pyval list res" where
  "items (PyList vs) = Inr vs"
| "items (PyTuple vs) = Inr vs"
| "items (PyStr s) = Inr (map (\<lambda>c. PyStr [c]) s)"
| "items (PyBool b) = Inl TypeError"

definition unpack :: "nat \<Rightarrow> pyval \<Rightarrow> pyval list res" where
  "unpack n v =
     bindE (items v) (\<lambda>vs. if length vs = n then Inr vs else Inl (ValueError ''values to unpack''))"

text \<open>A value on which a string method is called.\<close>

fun as_string :: "pyval \<Rightarrow> string res" where
  "as_string (PyStr s) = Inr s"
| "as_string _ = Inl (AttributeError ''str'')"

record examples =
  example_tests :: "(string \<times> pyval \<times> pyval) list"
  example_names :: "string list"
  python_tests :: "(string \<times> pyval) list"

text \<open>\<open>s.split(' ', 1)\<close>: the program and its arguments.\<close>

definition split_arguments :: "string \<Rightarrow> string \<times> string option" where
  "split_arguments s =
     (takeWhile (\<lambda>c. c \<noteq> CHR '' '') s,
      case dropWhile (\<lambda>c. c \<noteq> CHR '' '') s of [] \<Rightarrow> None | _ # args \<Rightarrow> Some args)"

definition with_arguments :: "string \<Rightarrow> string option \<Rightarrow> string" where
  "with_arguments path args = (case args of None \<Rightarrow> path | Some a \<Rightarrow> path @ '' '' @ a)"

definition add_cpp_example ::
  "tconf \<Rightarrow> (string \<Rightarrow> bool) \<Rightarrow> string \<Rightarrow> pyval \<Rightarrow> examples \<Rightarrow> examples res" where
  "add_cpp_example c exists cpp_executable_dir entry ex =
     bindE (unpack 3 entry) (\<lambda>vs.
     bindE (as_string (vs ! 0)) (\<lambda>original.
       case split_arguments original of (program, args) \<Rightarrow>
         let example_path = join_path cpp_executable_dir (built_name c program) in
         Inr (if exists example_path
              then ex\<lparr>example_tests := example_tests ex @ [(with_arguments example_path args, vs ! 1, vs ! 2)],
                      example_names := example_names ex @ [original]\<rparr>
              else ex)))"

definition add_python_example ::
  "(string \<Rightarrow> bool) \<Rightarrow> string \<Rightarrow> pyval \<Rightarrow> examples \<Rightarrow> examples res" where
  "add_python_example exists python_script_dir entry ex =
     bindE (unpack 2 entry) (\<lambda>vs.
     bindE (as_string (vs ! 0)) (\<lambda>original.
       case split_arguments original of (script, args) \<Rightarrow>
         let example_path = join_path python_script_dir script in
         Inr (if exists example_path
              then ex\<lparr>python_tests := python_tests ex @ [(with_arguments example_path args, vs ! 1)]\<rparr>
              else ex)))"

fun foldE :: "('a \<Rightarrow> 's \<Rightarrow> 's res) \<Rightarrow> 'a list \<Rightarrow> 's \<Rightarrow> 's res" where
  "foldE f [] s = Inr s"
| "foldE f (x # xs) s = bindE (f x s) (foldE f xs)"

definition parse_examples_to_run_file ::
  "tconf \<Rightarrow> (string \<Rightarrow> pyval res) \<Rightarrow> (string \<rightharpoonup> string) \<Rightarrow> (string \<Rightarrow> bool) \<Rightarrow>
     string \<Rightarrow> string \<Rightarrow> string \<Rightarrow> examples \<Rightarrow> examples res" where
  "parse_examples_to_run_file c eval files exists path cpp_executable_dir python_script_dir ex =
     (if files path = None then Inr ex
      else bindE (get_list_from_file eval files path ''cpp_examples'') (\<lambda>cpp.
           bindE (items cpp) (\<lambda>cs.
           bindE (foldE (add_cpp_example c exists cpp_executable_dir) cs ex) (\<lambda>ex1.
           bindE (get_list_from_file eval files path ''python_examples'') (\<lambda>py.
           bindE (items py) (\<lambda>ps. foldE (add_python_example exists python_script_dir) ps ex1))))))"

text \<open>The example directories first, then the examples of the modules.\<close>

definition directory_examples ::
  "tconf \<Rightarrow> (string \<Rightarrow> pyval res) \<Rightarrow> (string \<rightharpoonup> string) \<Rightarrow> (string \<Rightarrow> bool) \<Rightarrow>
     string \<Rightarrow> examples \<Rightarrow> examples res" where
  "directory_examples c eval files exists directory =
     (let d = join_path ''examples'' directory
      in parse_examples_to_run_file c eval files exists (join_path d ''examples-to-run.py'')
           (join_path (c_builddir c) d) d)"

definition module_examples ::
  "tconf \<Rightarrow> (string \<Rightarrow> pyval res) \<Rightarrow> (string \<rightharpoonup> string) \<Rightarrow> (string \<Rightarrow> bool) \<Rightarrow>
     string \<Rightarrow> examples \<Rightarrow> examples res" where
  "module_examples c eval files exists module_name =
     (let m = join_path ''src'' (drop (length ''ns3-'') module_name); d = join_path m ''examples''
      in parse_examples_to_run_file c eval files exists (join_path (join_path m ''test'') ''examples-to-run.py'')
           (join_path (c_builddir c) d) d)"

definition all_examples ::
  "tconf \<Rightarrow> (string \<Rightarrow> pyval res) \<Rightarrow> (string \<rightharpoonup> string) \<Rightarrow> (string \<Rightarrow> bool) \<Rightarrow> examples res" where
  "all_examples c eval files exists =
     bindE (foldE (directory_examples c eval files exists) (c_example_dirs c)
              \<lparr>example_tests = [], example_names = [], python_tests = []\<rparr>)
       (foldE (module_examples c eval files exists) (c_modules c))"

section \<open>Jobs\<close>

record job =
  is_break :: bool
  is_skip :: bool
  is_example :: bool
  is_pyexample :: bool
  shell_command :: string
  display_name :: string
  job_basedir :: string
  job_tempdir :: string
  job_cwd :: string
  tmp_file_name :: string
  returncode :: int
  elapsed_time :: pyfloat
  build_path :: string

text \<open>\<open>Job.__init__\<close>: the return code \<open>False\<close> compares as 0.\<close>

definition new_job :: job where
  "new_job =
     \<lparr>is_break = False, is_skip = False, is_example = False, is_pyexample = False, shell_command = [],
      display_name = [], job_basedir = [], job_tempdir = [], job_cwd = [], tmp_file_name = [],
      returncode = 0, elapsed_time = Fin 0, build_path = []\<rparr>"

definition break_job :: job where
  "break_job = new_job\<lparr>is_break := True\<rparr>"

definition upper :: "char \<Rightarrow> char" where
  "upper ch = (let n = (of_char ch :: nat) in if 97 \<le> n \<and> n \<le> 122 then char_of (n - 32) else ch)"

definition suite_command :: "tconf \<Rightarrow> topts \<Rightarrow> string \<Rightarrow> string" where
  "suite_command c opts test =
     join_path ''utils'' (built_name c ''test-runner'' @ '' --test-name='' @ test @
       (if o_multiple opts then [] else '' --stop-on-failure'') @
       '' --fullness='' @ (if o_fullness opts \<noteq> [] then map upper (o_fullness opts) else ''QUICK''))"

definition suite_job :: "tconf \<Rightarrow> topts \<Rightarrow> string \<Rightarrow> string \<Rightarrow> job" where
  "suite_job c opts tempdir test =
     new_job\<lparr>display_name := test, tmp_file_name := join_path tempdir (test @ ''.xml''),
       job_cwd := c_cwd c, job_basedir := c_cwd c, job_tempdir := tempdir,
       shell_command := suite_command c opts test,
       is_skip := (o_valgrind opts \<and> test \<in> set core_valgrind_skip_tests) \<or>
                  (\<not> c_nsc c \<and> test \<in> set core_nsc_missing_skip_tests)\<rparr>"

definition suite_jobs :: "tconf \<Rightarrow> topts \<Rightarrow> string \<Rightarrow> string list \<Rightarrow> job list" where
  "suite_jobs c opts tempdir suite_list =
     map (suite_job c opts tempdir) (filter (\<lambda>t. t \<noteq> []) (map py_strip suite_list))"

text \<open>What the C++ and the Python examples have in common.\<close>

definition program_job :: "tconf \<Rightarrow> string \<Rightarrow> string \<Rightarrow> string \<Rightarrow> job" where
  "program_job c tempdir command path =
     new_job\<lparr>display_name := command, job_cwd := tempdir, job_basedir := c_cwd c, job_tempdir := tempdir,
       shell_command := command, build_path := path\<rparr>"

definition test_name :: "string \<Rightarrow> string" where
  "test_name test = basename (fst (split_arguments test))"

definition listed_example ::
  "tconf \<Rightarrow> topts \<Rightarrow> (pyval \<Rightarrow> bool res) \<Rightarrow> string \<Rightarrow> (string \<rightharpoonup> string) \<Rightarrow>
     string \<times> pyval \<times> pyval \<Rightarrow> job list res" where
  "listed_example c opts condition tempdir programs = (\<lambda>(test, do_run, do_valgrind_run).
     if programs (test_name test) = None then Inr []
     else bindE (condition do_run) (\<lambda>run.
            if \<not> run then Inr []
            else bindE (if o_valgrind opts then condition do_valgrind_run else Inr True) (\<lambda>grind.
                   Inr [(program_job c tempdir test (o_buildpath opts))\<lparr>is_example := True,
                          is_skip := \<not> grind\<rparr>])))"

text \<open>\<open>name in scripts\<close>\<close>

fun contains :: "pyval \<Rightarrow> string \<Rightarrow> bool res" where
  "contains (PyList vs) n = Inr (PyStr n \<in> set vs)"
| "contains (PyTuple vs) n = Inr (PyStr n \<in> set vs)"
| "contains (PyStr s) n = Inr (has_infix n s)"
| "contains (PyBool b) n = Inl TypeError"

definition listed_script ::
  "tconf \<Rightarrow> topts \<Rightarrow> (pyval \<Rightarrow> bool res) \<Rightarrow> string \<Rightarrow> pyval \<Rightarrow> string \<times> pyval \<Rightarrow> job list res" where
  "listed_script c opts condition tempdir scripts = (\<lambda>(test, do_run).
     bindE (contains scripts (test_name test)) (\<lambda>known.
       if \<not> known then Inr []
       else bindE (condition do_run) (\<lambda>run.
            Inr (if run
                 then [(program_job c tempdir test [])\<lparr>is_pyexample := True,
                         is_skip := o_valgrind opts \<or> \<not> c_bindings c\<rparr>]
                 else []))))"

definition nothing_selected :: "topts \<Rightarrow> bool" where
  "nothing_selected opts \<longleftrightarrow> o_suite opts = [] \<and> o_example opts = [] \<and> o_pyexample opts = []"

definition concat_mapE :: "('a \<Rightarrow> 'b list res) \<Rightarrow> 'a list \<Rightarrow> 'b list res" where
  "concat_mapE f xs = bindE (mapE f xs) (\<lambda>ys. Inr (concat ys))"

definition example_jobs ::
  "tconf \<Rightarrow> topts \<Rightarrow> (pyval \<Rightarrow> bool res) \<Rightarrow> string \<Rightarrow> (string \<rightharpoonup> string) \<Rightarrow> examples \<Rightarrow> job list res" where
  "example_jobs c opts condition tempdir programs ex =
     (if nothing_selected opts
      then if (o_constrain opts = [] \<or> o_constrain opts = ''example'') \<and> c_examples c
           then concat_mapE (listed_example c opts condition tempdir programs) (example_tests ex)
           else Inr []
      else if o_example opts \<noteq> []
      then Inr (case programs (built_name c (o_example opts)) of
                  None \<Rightarrow> []
                | Some path \<Rightarrow>
                    [(program_job c tempdir (abspath (c_cwd c) path) (o_buildpath opts))\<lparr>is_example := True\<rparr>])
      else Inr [])"

definition pyexample_jobs ::
  "tconf \<Rightarrow> topts \<Rightarrow> (pyval \<Rightarrow> bool res) \<Rightarrow> string \<Rightarrow> pyval \<Rightarrow> examples \<Rightarrow> job list res" where
  "pyexample_jobs c opts condition tempdir scripts ex =
     (if nothing_selected opts
      then if (o_constrain opts = [] \<or> o_constrain opts = ''pyexample'') \<and> c_examples c
           then concat_mapE (listed_script c opts condition tempdir scripts) (python_tests ex)
           else Inr []
      else if o_pyexample opts \<noteq> []
      then bindE (contains scripts (basename (o_pyexample opts))) (\<lambda>known.
             Inr (if known then [(program_job c tempdir (o_pyexample opts) [])\<lparr>is_pyexample := True\<rparr>] else []))
      else Inr [])"

section \<open>The list of suites\<close>

text \<open>The test runner asked for the names of its suites.\<close>

definition ask_runner :: "tconf \<Rightarrow> shell \<Rightarrow> string \<Rightarrow> string res" where
  "ask_runner c shell args =
     bindE (run_job_synchronously c shell (join_path ''utils'' (built_name c ''test-runner'' @ args))
              (c_cwd c) False False [])
       (\<lambda>(rc, out, err, et). Inr out)"

definition lines_of :: "string \<Rightarrow> string list" where
  "lines_of s = split_char (CHR 0x0A) s"

definition requested_suites :: "tconf \<Rightarrow> topts \<Rightarrow> shell \<Rightarrow> string res" where
  "requested_suites c opts shell =
     (if o_suite opts \<noteq> []
      then bindE (ask_runner c shell '' --print-test-name-list'') (\<lambda>suites.
             if o_suite opts \<in> set (lines_of suites) then Inr (o_suite opts @ nl) else Inl (SystemExit 2))
      else if o_example opts = [] \<and> o_pyexample opts = []
      then ask_runner c shell ('' --print-test-name-list'' @
             (if o_constrain opts \<noteq> [] then '' --test-type='' @ o_constrain opts else []))
      else Inr [])"

definition suite_list :: "tconf \<Rightarrow> topts \<Rightarrow> shell \<Rightarrow> string list res" where
  "suite_list c opts shell =
     bindE (requested_suites c opts shell) (\<lambda>suites.
       if o_constrain opts = ''performance'' then Inr (lines_of suites)
       else bindE (ask_runner c shell '' --print-test-name-list --test-type=performance'') (\<lambda>performance.
              Inr (fold remove1 (lines_of performance) (lines_of suites))))"

section \<open>All jobs of a run\<close>

text \<open>The names of the programs, without directories, and their paths; a later one wins.\<close>

definition program_table :: "string list \<Rightarrow> (string \<rightharpoonup> string)" where
  "program_table programs = map_of (rev (map (\<lambda>p. (basename p, p)) programs))"

definition string_items :: "pyval \<Rightarrow> string list res" where
  "string_items v = bindE (items v) (mapE as_string)"

definition waf_command :: "tconf \<Rightarrow> topts \<Rightarrow> string" where
  "waf_command c opts =
     (if c_platform c = ''win32'' then ''waf'' else ''./waf'') @
     (if o_kinds opts \<or> o_list opts \<or> (o_constrain opts \<noteq> [] \<and> o_constrain opts \<in> set core_kinds)
      then '' --target=test-runner''
      else if o_example opts \<noteq> [] then '' --target='' @ basename (o_example opts) else [])"

text \<open>The build status file, the program table, the scripts and the examples.\<close>

definition find_runnable ::
  "tconf \<Rightarrow> (string \<Rightarrow> pyval res) \<Rightarrow> (string \<rightharpoonup> string) \<Rightarrow> (string \<Rightarrow> bool) \<Rightarrow>
     ((string \<rightharpoonup> string) \<times> pyval \<times> examples) res" where
  "find_runnable c eval files exists =
     (let status_file = join_path (c_builddir c) ''build-status.py'' in
      if files status_file = None then Inl (SystemExit 2)
      else bindE (get_list_from_file eval files status_file ''ns3_runnable_programs'') (\<lambda>ps.
           bindE (get_list_from_file eval files status_file ''ns3_runnable_scripts'') (\<lambda>ss.
           bindE (string_items ps) (\<lambda>programs.
           bindE (all_examples c eval files exists) (\<lambda>ex.
             Inr (program_table programs, ss, ex))))))"

definition all_jobs ::
  "tconf \<Rightarrow> topts \<Rightarrow> shell \<Rightarrow> (pyval \<Rightarrow> bool res) \<Rightarrow> string \<Rightarrow>
     (string \<rightharpoonup> string) \<times> pyval \<times> examples \<Rightarrow> job list res" where
  "all_jobs c opts shell condition tempdir = (\<lambda>(programs, scripts, ex).
     bindE (suite_list c opts shell) (\<lambda>suites.
     bindE (example_jobs c opts condition tempdir programs ex) (\<lambda>es.
     bindE (pyexample_jobs c opts condition tempdir scripts ex) (\<lambda>ps.
       Inr (suite_jobs c opts tempdir suites @ es @ ps)))))"

section \<open>What the lists of jobs are\<close>

lemma fold_remove1: "mset (fold remove1 ys xs) = mset xs - mset ys"
  by (induction ys arbitrary: xs) simp_all

lemma lines_of_line: "CHR 0x0A \<notin> set s \<Longrightarrow> lines_of (s @ nl) = [s, []]"
  by (simp add: lines_of_def nl_def split_char_append)

text \<open>
  A performance suite that is asked for by name is taken out of the list again, unless the kind of
  tests is given too: nothing is run.
\<close>

lemma performance_suite_dropped:
  assumes s: "o_suite opts \<noteq> []" "CHR 0x0A \<notin> set (o_suite opts)" and kind: "o_constrain opts \<noteq> ''performance''"
    and all: "ask_runner c shell '' --print-test-name-list'' = Inr names" "o_suite opts \<in> set (lines_of names)"
    and perf: "ask_runner c shell '' --print-test-name-list --test-type=performance'' = Inr performance"
      "o_suite opts \<in> set (lines_of performance)"
  shows "\<exists>l. suite_list c opts shell = Inr l \<and> suite_jobs c opts tempdir l = []"
proof -
  let ?l = "fold remove1 (lines_of performance) [o_suite opts, []]"
  have "suite_list c opts shell = Inr ?l"
    using s kind all perf(1) by (simp add: suite_list_def requested_suites_def lines_of_line)
  moreover have "set ?l \<subseteq> {[]}"
  proof
    fix x
    assume "x \<in> set ?l"
    then have "x \<in># {#o_suite opts, []#} - mset (lines_of performance)"
      by (metis fold_remove1 mset.simps set_mset_mset)
    moreover have "o_suite opts \<in># mset (lines_of performance)" using perf(2) by simp
    then obtain M where "mset (lines_of performance) = add_mset (o_suite opts) M"
      by (metis mset_add)
    ultimately have "x \<in># {#[]#} - M" by simp
    then have "x \<in># {#[]#}" by (meson in_diffD)
    then show "x \<in> {[]}" by simp
  qed
  then have "suite_jobs c opts tempdir ?l = []"
    by (auto simp: suite_jobs_def filter_empty_conv py_strip_def py_rstrip_def)
  ultimately show ?thesis by blast
qed

text \<open>The suites that run are those the runner names, each once for each time it is named, but for the
  performance tests.\<close>

lemma suite_jobs_names:
  "map display_name (suite_jobs c opts tempdir l) = filter (\<lambda>t. t \<noteq> []) (map py_strip l)"
  by (induction l) (simp_all add: suite_jobs_def suite_job_def)

lemma suite_jobs_files:
  assumes "distinct (filter (\<lambda>t. t \<noteq> []) (map py_strip l))"
    and "\<forall>t \<in> set (map py_strip l). \<not> has_prefix ''/'' t"
  shows "distinct (map tmp_file_name (suite_jobs c opts tempdir l))"
proof -
  have "map tmp_file_name (suite_jobs c opts tempdir l) =
      map (\<lambda>t. join_path tempdir (t @ ''.xml'')) (filter (\<lambda>t. t \<noteq> []) (map py_strip l))"
    by (simp add: suite_jobs_def suite_job_def)
  moreover have "inj_on (\<lambda>t. join_path tempdir (t @ ''.xml'')) (set (filter (\<lambda>t. t \<noteq> []) (map py_strip l)))"
  proof (rule inj_onI)
    fix s t
    assume st: "s \<in> set (filter (\<lambda>t. t \<noteq> []) (map py_strip l))" "t \<in> set (filter (\<lambda>t. t \<noteq> []) (map py_strip l))"
      and eq: "join_path tempdir (s @ ''.xml'') = join_path tempdir (t @ ''.xml'')"
    have "\<not> has_prefix ''/'' (u @ ''.xml'')" if "u \<in> set (filter (\<lambda>t. t \<noteq> []) (map py_strip l))" for u
    proof -
      have "u \<noteq> []" "\<not> has_prefix ''/'' u" using that assms(2) by auto
      then show ?thesis by (cases u) (simp_all add: has_prefix_def)
    qed
    with st eq show "s = t" by (simp add: join_path_def split: if_splits)
  qed
  ultimately show ?thesis using assms(1) by (simp only: distinct_map)
qed

text \<open>An earlier \<open>PYTHONPATH\<close> is lost, and the new one is there twice.\<close>

lemma pythonpath_lost:
  assumes "env ''PYTHONPATH'' = Some old" and "c_platform c = ''linux''"
  shows "make_paths c env ''PYTHONPATH'' =
    (let p = join_path (join_path (c_builddir c) ''bindings'') ''python'' in Some (p @ '':'' @ p))"
  using assms by (simp add: make_paths_def path_variable_def Let_def)

text \<open>Without an earlier library path the new one begins with an empty entry, the working directory.\<close>

lemma library_path_empty_entry:
  assumes "env ''LD_LIBRARY_PATH'' = None" and "c_platform c = ''linux''" and "c_module_path c = p # ps"
  shows "\<exists>rest. make_paths c env ''LD_LIBRARY_PATH'' = Some (CHR '':'' # rest)"
  using assms by (simp add: make_paths_def path_variable_def Let_def)

end
