(* ===== verification/XmlDoc.thy ===== *)
theory XmlDoc
  imports PyBase
begin

text \<open>
  The part of \<open>xml.etree.ElementTree\<close> that \<open>test.py\<close> uses: parsing an ASCII document into a tree
  and looking for children by their tag.

  The parser is an automaton over the characters.  It knows elements, attributes, character data,
  the five predefined entities and decimal character references, and an XML declaration at the
  start; comments, processing instructions, CDATA sections, document types and hexadecimal references
  do not occur in the documents of the programs and are errors here.  The text behind a child (the
  tail) is not kept: nothing reads it.
\<close>

section \<open>Trees\<close>

datatype xml = Elem (etag: string) (eattrs: "(string \<times> string) list") (etext: "string option") (kids: "xml list")

definition find_all :: "string \<Rightarrow> xml \<Rightarrow> xml list" where
  "find_all tag e = filter (\<lambda>k. etag k = tag) (kids e)"

definition find_first :: "string \<Rightarrow> xml \<Rightarrow> xml option" where
  "find_first tag e = List.find (\<lambda>k. etag k = tag) (kids e)"

section \<open>Characters and names\<close>

definition parse_error :: exn where
  "parse_error = Exception ''ParseError''"

definition xml_blank :: "char \<Rightarrow> bool" where
  "xml_blank c \<longleftrightarrow> c \<in> {CHR '' '', CHR 0x09, CHR 0x0A, CHR 0x0D}"

definition xml_char :: "char \<Rightarrow> bool" where
  "xml_char c \<longleftrightarrow> xml_blank c \<or> (let n = (of_char c :: nat) in 32 \<le> n \<and> n < 128)"

definition name_start :: "char \<Rightarrow> bool" where
  "name_start c \<longleftrightarrow>
     (let n = (of_char c :: nat)
      in (65 \<le> n \<and> n \<le> 90) \<or> (97 \<le> n \<and> n \<le> 122) \<or> c = CHR ''_'' \<or> c = CHR '':'')"

definition name_char :: "char \<Rightarrow> bool" where
  "name_char c \<longleftrightarrow> name_start c \<or> is_digit c \<or> c = CHR ''-'' \<or> c = CHR ''.''"

definition xml_name :: "string \<Rightarrow> bool" where
  "xml_name n \<longleftrightarrow> n \<noteq> [] \<and> name_start (hd n) \<and> list_all name_char n"

definition quote_char :: "char \<Rightarrow> bool" where
  "quote_char c \<longleftrightarrow> c = CHR 0x22 \<or> c = CHR 0x27"

text \<open>The character that \<open>&n;\<close> stands for.\<close>

definition entity :: "string \<Rightarrow> char res" where
  "entity n =
     (if n = ''lt'' then Inr (CHR ''<'') else if n = ''gt'' then Inr (CHR ''>'')
      else if n = ''amp'' then Inr (CHR ''&'') else if n = ''quot'' then Inr (CHR 0x22)
      else if n = ''apos'' then Inr (CHR 0x27)
      else case n of
             CHR ''#'' # ds \<Rightarrow>
               (case parse_digits False 0 ds of
                  Some k \<Rightarrow> if list_all is_digit ds \<and> k < 128 \<and> xml_char (char_of k) then Inr (char_of k)
                            else Inl parse_error
                | None \<Rightarrow> Inl parse_error)
           | _ \<Rightarrow> Inl parse_error)"

text \<open>An attribute value with its entities replaced.\<close>

fun attr_value :: "string \<Rightarrow> string option \<Rightarrow> string res" where
  "attr_value [] None = Inr []"
| "attr_value [] (Some n) = Inl parse_error"
| "attr_value (c # cs) None =
     (if c = CHR ''&'' then attr_value cs (Some [])
      else if xml_char c then bindE (attr_value cs None) (\<lambda>v. Inr (c # v))
      else Inl parse_error)"
| "attr_value (c # cs) (Some n) =
     (if c = CHR '';'' then bindE (entity n) (\<lambda>d. bindE (attr_value cs None) (\<lambda>v. Inr (d # v)))
      else attr_value cs (Some (n @ [c])))"

text \<open>The attributes behind the name of an element; each is preceded by a blank.\<close>

function attributes :: "string \<Rightarrow> (string \<times> string) list res" where
  "attributes s =
     (let t = dropWhile xml_blank s in
      if t = [] then Inr []
      else if s = t then Inl parse_error
      else let n = takeWhile name_char t; r = dropWhile xml_blank (dropWhile name_char t) in
           case r of
             [] \<Rightarrow> Inl parse_error
           | e # r' \<Rightarrow>
               (case dropWhile xml_blank r' of
                  [] \<Rightarrow> Inl parse_error
                | q # v \<Rightarrow>
                    (case dropWhile (\<lambda>c. c \<noteq> q) v of
                       [] \<Rightarrow> Inl parse_error
                     | _ # rest \<Rightarrow>
                         if xml_name n \<and> e = CHR ''='' \<and> quote_char q
                         then bindE (attr_value (takeWhile (\<lambda>c. c \<noteq> q) v) None) (\<lambda>x.
                              bindE (attributes rest) (\<lambda>as.
                                if n \<in> fst ` set as then Inl parse_error else Inr ((n, x) # as)))
                         else Inl parse_error)))"
  by pat_completeness auto
termination
proof (relation "measure length", goal_cases)
  case 1
  show ?case by simp
next
  case (2 s t n r e r' q v d rest x)
  have "Suc (length rest) \<le> length v"
    using 2(8) length_dropWhile_le [of "\<lambda>c. c \<noteq> q" v] by simp
  moreover have "Suc (length v) \<le> length r'"
    using 2(7) length_dropWhile_le [of xml_blank r'] by simp
  moreover have "Suc (length r') \<le> length t"
  proof -
    have "e # r' = dropWhile xml_blank (dropWhile name_char t)"
      using 2(5,6) by simp
    from arg_cong [OF this, of length]
    have "Suc (length r') = length (dropWhile xml_blank (dropWhile name_char t))"
      by (simp only: list.size add_Suc_right add_0_right)
    also have "\<dots> \<le> length (dropWhile name_char t)"
      by (rule length_dropWhile_le)
    also have "\<dots> \<le> length t"
      by (rule length_dropWhile_le)
    finally show ?thesis .
  qed
  moreover have "length t \<le> length s"
    using 2(1) length_dropWhile_le [of xml_blank s] by simp
  ultimately show ?case by simp
qed

declare attributes.simps [simp del]

section \<open>The automaton\<close>

datatype xml_mode = Chars | Entity string | Markup string "char option"

record frame =
  ftag :: string
  fattrs :: "(string \<times> string) list"
  ftext :: string
  fkids :: "xml list"

record xml_state =
  xmode :: xml_mode
  xstack :: "frame list"
  xroot :: "xml option"

definition frame_elem :: "frame \<Rightarrow> xml" where
  "frame_elem f = Elem (ftag f) (fattrs f) (if ftext f = [] then None else Some (ftext f)) (fkids f)"

definition add_char :: "char \<Rightarrow> xml_state \<Rightarrow> xml_state res" where
  "add_char c p =
     (case xstack p of
        [] \<Rightarrow> if xml_blank c then Inr p else Inl parse_error
      | f # fs \<Rightarrow> Inr (p\<lparr>xstack := (if fkids f = [] then f\<lparr>ftext := ftext f @ [c]\<rparr> else f) # fs\<rparr>))"

definition add_elem :: "xml \<Rightarrow> xml_state \<Rightarrow> xml_state res" where
  "add_elem e p =
     (case xstack p of
        [] \<Rightarrow> if xroot p = None then Inr (p\<lparr>xroot := Some e\<rparr>) else Inl parse_error
      | f # fs \<Rightarrow> Inr (p\<lparr>xstack := f\<lparr>fkids := fkids f @ [e]\<rparr> # fs\<rparr>))"

definition close_tag :: "string \<Rightarrow> xml_state \<Rightarrow> xml_state res" where
  "close_tag n p =
     (case xstack p of
        [] \<Rightarrow> Inl parse_error
      | f # fs \<Rightarrow>
          if xml_name n \<and> ftag f = n then add_elem (frame_elem f) (p\<lparr>xstack := fs\<rparr>) else Inl parse_error)"

definition open_tag :: "string \<Rightarrow> (string \<times> string) list \<Rightarrow> xml_state \<Rightarrow> xml_state res" where
  "open_tag n as p =
     (if xstack p = [] \<and> xroot p \<noteq> None then Inl parse_error
      else Inr (p\<lparr>xstack := \<lparr>ftag = n, fattrs = as, ftext = [], fkids = []\<rparr> # xstack p\<rparr>))"

definition split_tag :: "string \<Rightarrow> (string \<times> (string \<times> string) list) res" where
  "split_tag s =
     (let n = takeWhile name_char s in
      if xml_name n then bindE (attributes (dropWhile name_char s)) (\<lambda>as. Inr (n, as))
      else Inl parse_error)"

text \<open>What stands between the angle brackets.\<close>

definition markup :: "string \<Rightarrow> xml_state \<Rightarrow> xml_state res" where
  "markup s p =
     (case s of
        [] \<Rightarrow> Inl parse_error
      | c # r \<Rightarrow>
          if c = CHR ''/'' then close_tag (rev (dropWhile xml_blank (rev r))) p
          else if last s = CHR ''/''
          then bindE (split_tag (butlast s)) (\<lambda>(n, as). add_elem (Elem n as None []) p)
          else bindE (split_tag s) (\<lambda>(n, as). open_tag n as p))"

definition xml_step :: "char \<Rightarrow> xml_state \<Rightarrow> xml_state res" where
  "xml_step c p =
     (case xmode p of
        Chars \<Rightarrow>
          if c = CHR ''<'' then Inr (p\<lparr>xmode := Markup [] None\<rparr>)
          else if c = CHR ''&''
          then (if xstack p = [] then Inl parse_error else Inr (p\<lparr>xmode := Entity []\<rparr>))
          else if xml_char c then add_char c p else Inl parse_error
      | Entity n \<Rightarrow>
          if c = CHR '';'' then bindE (entity n) (\<lambda>d. add_char d (p\<lparr>xmode := Chars\<rparr>))
          else if c = CHR ''<'' then Inl parse_error
          else Inr (p\<lparr>xmode := Entity (n @ [c])\<rparr>)
      | Markup s None \<Rightarrow>
          if c = CHR ''>'' then markup s (p\<lparr>xmode := Chars\<rparr>)
          else if c = CHR ''<'' then Inl parse_error
          else Inr (p\<lparr>xmode := Markup (s @ [c]) (if quote_char c then Some c else None)\<rparr>)
      | Markup s (Some q) \<Rightarrow>
          if c = CHR ''<'' then Inl parse_error
          else Inr (p\<lparr>xmode := Markup (s @ [c]) (if c = q then None else Some q)\<rparr>))"

fun xml_run :: "string \<Rightarrow> xml_state \<Rightarrow> xml_state res" where
  "xml_run [] p = Inr p"
| "xml_run (c # cs) p = bindE (xml_step c p) (xml_run cs)"

section \<open>Documents\<close>

fun after_declaration :: "string \<Rightarrow> string res" where
  "after_declaration [] = Inl parse_error"
| "after_declaration (c # cs) = (if has_prefix ''?>'' (c # cs) then Inr (drop 1 cs) else after_declaration cs)"

definition start_state :: xml_state where
  "start_state = \<lparr>xmode = Chars, xstack = [], xroot = None\<rparr>"

definition xml_parse :: "string \<Rightarrow> xml res" where
  "xml_parse s =
     bindE (if has_prefix ''<?xml '' s then after_declaration s else Inr s) (\<lambda>body.
     bindE (xml_run body start_state) (\<lambda>p.
       if xmode p = Chars \<and> xstack p = [] then of_option parse_error (xroot p) else Inl parse_error))"

text \<open>
  A piece of content that holds whole elements: read inside an element without a name, it leaves
  that element open and its children are the result.
\<close>

definition inside_element :: xml_state where
  "inside_element = \<lparr>xmode = Chars, xstack = [\<lparr>ftag = [], fattrs = [], ftext = [], fkids = []\<rparr>], xroot = None\<rparr>"

definition xml_fragment :: "string \<Rightarrow> xml list res" where
  "xml_fragment s =
     bindE (xml_run s inside_element) (\<lambda>p.
       case xstack p of [f] \<Rightarrow> if xmode p = Chars then Inr (fkids f) else Inl parse_error | _ \<Rightarrow> Inl parse_error)"

section \<open>Running in pieces\<close>

lemma xml_run_append: "xml_run (a @ b) p = bindE (xml_run a p) (xml_run b)"
proof (induction a arbitrary: p)
  case (Cons c a)
  then show ?case by (cases "xml_step c p") auto
qed simp

text \<open>
  \<open>embed_in f rest r p\<close>: the same state inside another document.  The element without a name at the
  bottom of the stack becomes the element \<open>f\<close>, which may have content already, inside \<open>rest\<close>.
\<close>

definition merge :: "frame \<Rightarrow> frame \<Rightarrow> frame" where
  "merge f g =
     (if fkids f = [] then f\<lparr>ftext := ftext f @ ftext g, fkids := fkids g\<rparr>
      else f\<lparr>fkids := fkids f @ fkids g\<rparr>)"

definition embed_in :: "frame \<Rightarrow> frame list \<Rightarrow> xml option \<Rightarrow> xml_state \<Rightarrow> xml_state" where
  "embed_in f rest r p =
     p\<lparr>xstack := butlast (xstack p) @ merge f (last (xstack p)) # rest, xroot := r\<rparr>"

definition anonymous :: "xml_state \<Rightarrow> bool" where
  "anonymous p \<longleftrightarrow> xstack p \<noteq> [] \<and> ftag (last (xstack p)) = []"

lemma embed_mode [simp]: "embed_in f rest r (p\<lparr>xmode := m\<rparr>) = (embed_in f rest r p)\<lparr>xmode := m\<rparr>"
  by (simp add: embed_in_def)

lemma embed_xmode [simp]: "xmode (embed_in f rest r p) = xmode p"
  by (simp add: embed_in_def)

lemma embed_stack_ne [simp]: "xstack (embed_in f rest r p) \<noteq> []"
  by (simp add: embed_in_def)

lemma merge_tag [simp]: "ftag (merge f g) = ftag f"
  by (simp add: merge_def)

lemma merge_char:
  "(if fkids (merge f g) = [] then (merge f g)\<lparr>ftext := ftext (merge f g) @ [c]\<rparr> else merge f g) =
     merge f (if fkids g = [] then g\<lparr>ftext := ftext g @ [c]\<rparr> else g)"
  by (simp add: merge_def)

lemma merge_elem: "(merge f g)\<lparr>fkids := fkids (merge f g) @ [e]\<rparr> = merge f (g\<lparr>fkids := fkids g @ [e]\<rparr>)"
  by (simp add: merge_def)

lemma embed_add_char:
  assumes "anonymous p" and "add_char c p = Inr p'"
  shows "anonymous p' \<and> add_char c (embed_in f rest r p) = Inr (embed_in f rest r p')"
proof (cases "xstack p")
  case (Cons g gs)
  then show ?thesis
    using assms merge_char [of f g c]
    by (cases "gs = []") (auto simp: anonymous_def add_char_def embed_in_def split: if_splits)
qed (use assms in \<open>simp add: anonymous_def\<close>)

lemma embed_add_elem:
  assumes "anonymous p" and "add_elem e p = Inr p'"
  shows "anonymous p' \<and> add_elem e (embed_in f rest r p) = Inr (embed_in f rest r p')"
proof (cases "xstack p")
  case (Cons g gs)
  then show ?thesis
    using assms merge_elem [of f g e]
    by (cases "gs = []") (auto simp: anonymous_def add_elem_def embed_in_def)
qed (use assms in \<open>simp add: anonymous_def\<close>)

lemma embed_close:
  assumes "anonymous p" and "close_tag n p = Inr p'"
  shows "anonymous p' \<and> close_tag n (embed_in f rest r p) = Inr (embed_in f rest r p')"
proof (cases "xstack p")
  case (Cons g gs)
  have n: "xml_name n" "ftag g = n" and add: "add_elem (frame_elem g) (p\<lparr>xstack := gs\<rparr>) = Inr p'"
    using assms(2) Cons by (auto simp: close_tag_def split: if_splits)
  have gs: "gs \<noteq> []"
    using assms(1) Cons n by (auto simp: anonymous_def xml_name_def)
  let ?q = "p\<lparr>xstack := gs\<rparr>"
  have "anonymous ?q" using assms(1) Cons gs by (simp add: anonymous_def)
  from embed_add_elem [OF this add]
  have "anonymous p'" "add_elem (frame_elem g) (embed_in f rest r ?q) = Inr (embed_in f rest r p')"
    by blast+
  moreover obtain hs where hs: "xstack (embed_in f rest r p) = g # hs"
    "(embed_in f rest r p)\<lparr>xstack := hs\<rparr> = embed_in f rest r ?q"
    using Cons gs by (simp add: embed_in_def)
  ultimately show ?thesis using n by (simp add: close_tag_def hs)
qed (use assms in \<open>simp add: anonymous_def\<close>)

lemma embed_open:
  assumes "anonymous p" and "open_tag n as p = Inr p'"
  shows "anonymous p' \<and> open_tag n as (embed_in f rest r p) = Inr (embed_in f rest r p')"
  using assms by (auto simp: anonymous_def open_tag_def embed_in_def)

lemma embed_markup:
  assumes "anonymous p" and "markup s p = Inr p'"
  shows "anonymous p' \<and> markup s (embed_in f rest r p) = Inr (embed_in f rest r p')"
proof (cases s)
  case (Cons c t)
  show ?thesis
  proof (cases "c = CHR ''/''")
    case True
    then show ?thesis
      using assms Cons embed_close [of p _ p' f rest r] by (simp add: markup_def)
  next
    case False
    show ?thesis
    proof (cases "last s = CHR ''/''")
      case True
      with False Cons assms(2) obtain n as
        where nas: "split_tag (butlast s) = Inr (n, as)" and add: "add_elem (Elem n as None []) p = Inr p'"
        by (auto simp: markup_def bindE_Inr_iff)
      from embed_add_elem [OF assms(1) add, of f rest r] nas True False Cons show ?thesis
        by (simp add: markup_def)
    next
      case no_slash: False
      with False Cons assms(2) obtain n as
        where nas: "split_tag s = Inr (n, as)" and op: "open_tag n as p = Inr p'"
        by (auto simp: markup_def bindE_Inr_iff)
      from embed_open [OF assms(1) op, of f rest r] nas no_slash False Cons show ?thesis
        by (simp add: markup_def)
    qed
  qed
qed (use assms(2) in \<open>simp add: markup_def\<close>)

lemma anonymous_mode [simp]: "anonymous (p\<lparr>xmode := m\<rparr>) = anonymous p"
  by (simp add: anonymous_def)

lemma embed_step:
  assumes "anonymous p" and "xml_step c p = Inr p'"
  shows "anonymous p' \<and> xml_step c (embed_in f rest r p) = Inr (embed_in f rest r p')"
proof (cases "xmode p")
  case Chars
  then show ?thesis
    using assms embed_add_char [of p c p' f rest r]
    by (auto simp: xml_step_def split: if_splits)
next
  case (Entity n)
  then show ?thesis
    using assms embed_add_char [of "p\<lparr>xmode := Chars\<rparr>" _ p' f rest r]
    by (auto simp: xml_step_def bindE_Inr_iff split: if_splits)
next
  case (Markup s q)
  then show ?thesis
    using assms embed_markup [of "p\<lparr>xmode := Chars\<rparr>" s p' f rest r]
    by (auto simp: xml_step_def split: if_splits option.splits)
qed

lemma embed_run:
  "anonymous p \<Longrightarrow> xml_run s p = Inr p' \<Longrightarrow>
     anonymous p' \<and> xml_run s (embed_in f rest r p) = Inr (embed_in f rest r p')"
proof (induction s arbitrary: p)
  case (Cons c s)
  then obtain q where q: "xml_step c p = Inr q" "xml_run s q = Inr p'"
    by (auto simp: bindE_Inr_iff)
  with Cons.IH [of q] Cons.prems(1) show ?case
    by (simp add: embed_step)
qed simp

section \<open>Fragments\<close>

definition content :: "frame \<Rightarrow> frame list \<Rightarrow> xml option \<Rightarrow> xml_state" where
  "content f rest r = \<lparr>xmode = Chars, xstack = f # rest, xroot = r\<rparr>"

text \<open>A fragment does the same in every element: its children are appended.\<close>

lemma fragment_run:
  assumes "xml_fragment s = Inr es"
  shows "\<exists>t. \<forall>f rest r. xml_run s (content f rest r) =
           Inr (content (merge f \<lparr>ftag = [], fattrs = [], ftext = t, fkids = es\<rparr>) rest r)"
proof -
  obtain p g where run: "xml_run s inside_element = Inr p" and p: "xstack p = [g]" "xmode p = Chars" "fkids g = es"
  proof -
    from assms obtain p where run: "xml_run s inside_element = Inr p"
      and cases: "(case xstack p of [f] \<Rightarrow> if xmode p = Chars then Inr (fkids f) else Inl parse_error
                    | _ \<Rightarrow> Inl parse_error) = Inr es"
      by (auto simp: xml_fragment_def bindE_Inr_iff)
    show thesis
    proof (rule that [OF run])
      show "xstack p = [hd (xstack p)]" "xmode p = Chars" "fkids (hd (xstack p)) = es"
        using cases by (auto split: list.splits if_splits)
    qed
  qed
  have "xml_run s (content f rest r) =
          Inr (content (merge f \<lparr>ftag = [], fattrs = [], ftext = ftext g, fkids = es\<rparr>) rest r)"
    for f rest r
  proof -
    have "anonymous inside_element" by (simp add: anonymous_def inside_element_def)
    from embed_run [OF this run, of f rest r]
    have "xml_run s (embed_in f rest r inside_element) = Inr (embed_in f rest r p)" by simp
    moreover have "embed_in f rest r inside_element = content f rest r"
      by (simp add: embed_in_def inside_element_def content_def merge_def)
    moreover have "embed_in f rest r p =
        content (merge f \<lparr>ftag = [], fattrs = [], ftext = ftext g, fkids = es\<rparr>) rest r"
      using p by (cases p) (simp add: embed_in_def content_def merge_def)
    ultimately show ?thesis by simp
  qed
  then show ?thesis by blast
qed

lemma fragmentI:
  assumes "xml_run s inside_element = Inr (content f [] r)"
  shows "xml_fragment s = Inr (fkids f)"
  using assms by (simp add: xml_fragment_def content_def)

lemma inside_content: "inside_element = content \<lparr>ftag = [], fattrs = [], ftext = [], fkids = []\<rparr> [] None"
  by (simp add: inside_element_def content_def)

lemma merge_kids [simp]: "fkids (merge f g) = fkids f @ fkids g"
  by (simp add: merge_def)

lemma merge_attrs [simp]: "fattrs (merge f g) = fattrs f"
  by (simp add: merge_def)

lemma fragment_append:
  assumes "xml_fragment a = Inr xs" and "xml_fragment b = Inr ys"
  shows "xml_fragment (a @ b) = Inr (xs @ ys)"
proof -
  obtain t u where
    a: "\<And>f rest r. xml_run a (content f rest r) =
           Inr (content (merge f \<lparr>ftag = [], fattrs = [], ftext = t, fkids = xs\<rparr>) rest r)"
    and b: "\<And>f rest r. xml_run b (content f rest r) =
           Inr (content (merge f \<lparr>ftag = [], fattrs = [], ftext = u, fkids = ys\<rparr>) rest r)"
    using fragment_run [OF assms(1)] fragment_run [OF assms(2)] by metis
  show ?thesis
    using fragmentI [of "a @ b"] by (simp add: inside_content xml_run_append a b)
qed

lemma fragment_Nil: "xml_fragment [] = Inr []"
  by (simp add: xml_fragment_def inside_element_def)

lemma fragment_concat:
  "list_all2 (\<lambda>s es. xml_fragment s = Inr es) ss ess \<Longrightarrow> xml_fragment (concat ss) = Inr (concat ess)"
  by (induction rule: list_all2_induct) (simp_all add: fragment_Nil fragment_append)

text \<open>Character data without markup.\<close>

definition plain :: "string \<Rightarrow> bool" where
  "plain s \<longleftrightarrow> list_all (\<lambda>c. xml_char c \<and> c \<noteq> CHR ''<'' \<and> c \<noteq> CHR ''&'') s"

lemma plain_run:
  "plain s \<Longrightarrow> xml_run s (content f rest r) =
     Inr (content (merge f \<lparr>ftag = [], fattrs = [], ftext = s, fkids = []\<rparr>) rest r)"
proof (induction s arbitrary: f)
  case Nil
  then show ?case by (simp add: content_def merge_def)
next
  case (Cons c s)
  then have "xml_step c (content f rest r) =
      Inr (content (if fkids f = [] then f\<lparr>ftext := ftext f @ [c]\<rparr> else f) rest r)"
    by (simp add: plain_def xml_step_def content_def add_char_def)
  with Cons show ?case by (simp add: plain_def merge_def)
qed

lemma plain_fragment: "plain s \<Longrightarrow> xml_fragment s = Inr []"
  using plain_run [of s] fragmentI [of s] by (simp add: inside_content)

text \<open>Opening and closing an element.\<close>

lemma name_no_delim: "list_all name_char n \<Longrightarrow> c \<in> set n \<Longrightarrow>
    c \<noteq> CHR ''<'' \<and> c \<noteq> CHR ''>'' \<and> \<not> quote_char c \<and> \<not> xml_blank c \<and> c \<noteq> CHR ''/''"
  by (auto simp: list_all_iff name_char_def name_start_def quote_char_def xml_blank_def is_digit_def)

lemma markup_run:
  assumes "\<forall>c \<in> set s. c \<noteq> CHR ''<'' \<and> c \<noteq> CHR ''>'' \<and> \<not> quote_char c"
  shows "xml_run s (p\<lparr>xmode := Markup a None\<rparr>) = Inr (p\<lparr>xmode := Markup (a @ s) None\<rparr>)"
  using assms by (induction s arbitrary: a) (simp_all add: xml_step_def)

lemma name_taken:
  assumes "list_all name_char n"
  shows "takeWhile name_char n = n" "dropWhile name_char n = []"
  using assms by (auto simp: list_all_iff takeWhile_eq_all_conv)

lemma open_run_any:
  assumes "xml_name n" and p: "xmode p = Chars" "xstack p \<noteq> [] \<or> xroot p = None"
  shows "xml_run (''<'' @ n @ ''>'') p =
           Inr (p\<lparr>xstack := \<lparr>ftag = n, fattrs = [], ftext = [], fkids = []\<rparr> # xstack p\<rparr>)"
proof -
  have n: "n \<noteq> []" "list_all name_char n" using assms by (auto simp: xml_name_def)
  have chars: "\<forall>c \<in> set n. c \<noteq> CHR ''<'' \<and> c \<noteq> CHR ''>'' \<and> \<not> quote_char c \<and> c \<noteq> CHR ''/''"
    using name_no_delim [OF n(2)] by blast
  then have ends: "hd n \<noteq> CHR ''/''" "last n \<noteq> CHR ''/''" using n(1) by auto
  have m: "markup n p = open_tag n [] p"
  proof -
    have "split_tag n = Inr (n, [])"
      using assms by (simp add: split_tag_def Let_def name_taken [OF n(2)] attributes.simps [of "[]"])
    moreover obtain c r where "n = c # r" using n(1) by (cases n) auto
    ultimately show ?thesis using ends by (simp add: markup_def)
  qed
  have s1: "xml_step CHR ''<'' p = Inr (p\<lparr>xmode := Markup [] None\<rparr>)"
    using p by (simp add: xml_step_def)
  have s2: "xml_run n (p\<lparr>xmode := Markup [] None\<rparr>) = Inr (p\<lparr>xmode := Markup n None\<rparr>)"
    using markup_run [where s = n and p = p and a = "[]"] chars by auto
  have "p\<lparr>xmode := Chars\<rparr> = p" using p(1) by (cases p) simp
  then have s3: "xml_step CHR ''>'' (p\<lparr>xmode := Markup n None\<rparr>) = markup n p"
    by (simp add: xml_step_def)
  show ?thesis
    using p by (simp add: xml_run_append s1 s2 s3 m) (auto simp: open_tag_def)
qed

lemma open_run:
  "xml_name n \<Longrightarrow> xml_run (''<'' @ n @ ''>'') (content f rest r) =
     Inr (content \<lparr>ftag = n, fattrs = [], ftext = [], fkids = []\<rparr> (f # rest) r)"
  using open_run_any [of n "content f rest r"] by (simp add: content_def)

lemma close_run_any:
  assumes "xml_name n"
  shows "xml_run (''</'' @ n @ ''>'') (content g fs r) = close_tag n (content g fs r)"
proof -
  let ?p = "content g fs r"
  have n: "n \<noteq> []" "list_all name_char n" using assms by (auto simp: xml_name_def)
  have chars: "\<forall>c \<in> set n. c \<noteq> CHR ''<'' \<and> c \<noteq> CHR ''>'' \<and> \<not> quote_char c \<and> \<not> xml_blank c"
    using name_no_delim [OF n(2)] by blast
  then have "dropWhile xml_blank (rev n) = rev n"
    using n(1) by (cases "rev n") (auto simp: rev_eq_Cons_iff)
  then have m: "markup (CHR ''/'' # n) ?p = close_tag n ?p"
    by (simp add: markup_def)
  have s1: "xml_run ''</'' ?p = Inr (?p\<lparr>xmode := Markup ''/'' None\<rparr>)"
    by (simp add: xml_step_def content_def quote_char_def)
  have s2: "xml_run n (?p\<lparr>xmode := Markup ''/'' None\<rparr>) = Inr (?p\<lparr>xmode := Markup (CHR ''/'' # n) None\<rparr>)"
    using markup_run [where s = n and p = ?p and a = "''/''"] chars by auto
  have s3: "xml_step CHR ''>'' (?p\<lparr>xmode := Markup (CHR ''/'' # n) None\<rparr>) = markup (CHR ''/'' # n) ?p"
    by (simp add: xml_step_def content_def)
  show ?thesis
    using s1 s2 s3 m by (simp only: xml_run_append bindE_simps xml_run.simps) (cases "close_tag n ?p"; simp)
qed

lemma close_run:
  "xml_name n \<Longrightarrow> xml_run (''</'' @ n @ ''>'') (content g (f # rest) r) =
     (if ftag g = n then Inr (content (f\<lparr>fkids := fkids f @ [frame_elem g]\<rparr>) rest r)
      else Inl parse_error)"
  using close_run_any [of n g "f # rest" r] by (simp add: close_tag_def add_elem_def content_def)

text \<open>An element around a fragment.\<close>

definition text_of :: "string \<Rightarrow> string option" where
  "text_of t = (if t = [] then None else Some t)"

lemma element_fragment:
  assumes "xml_name n" and "xml_fragment s = Inr es"
  shows "\<exists>t. xml_fragment (''<'' @ n @ ''>'' @ s @ ''</'' @ n @ ''>'') = Inr [Elem n [] t es]"
proof -
  obtain t where s: "\<And>f rest r. xml_run s (content f rest r) =
      Inr (content (merge f \<lparr>ftag = [], fattrs = [], ftext = t, fkids = es\<rparr>) rest r)"
    using fragment_run [OF assms(2)] by blast
  have "xml_run ((''<'' @ n @ ''>'') @ s @ (''</'' @ n @ ''>'')) inside_element =
          Inr (content \<lparr>ftag = [], fattrs = [], ftext = [], fkids = [Elem n [] (text_of t) es]\<rparr> [] None)"
    by (simp only: xml_run_append [of "''<'' @ n @ ''>''"] xml_run_append [of s] inside_content
        open_run [OF assms(1)] s close_run [OF assms(1)] bindE_simps)
      (simp add: merge_def frame_elem_def text_of_def)
  then show ?thesis using fragmentI by fastforce
qed

lemma text_fragment:
  assumes "xml_name n" and "plain t"
  shows "xml_fragment (''<'' @ n @ ''>'' @ t @ ''</'' @ n @ ''>'') = Inr [Elem n [] (text_of t) []]"
proof -
  have "xml_run ((''<'' @ n @ ''>'') @ t @ (''</'' @ n @ ''>'')) inside_element =
          Inr (content \<lparr>ftag = [], fattrs = [], ftext = [], fkids = [Elem n [] (text_of t) []]\<rparr> [] None)"
    by (simp only: xml_run_append [of "''<'' @ n @ ''>''"] xml_run_append [of t] inside_content
        open_run [OF assms(1)] plain_run [OF assms(2)] close_run [OF assms(1)] bindE_simps)
      (simp add: merge_def frame_elem_def text_of_def)
  then show ?thesis using fragmentI by fastforce
qed

section \<open>Whole documents\<close>

definition xml_header :: string where
  "xml_header = ''<?xml version='' @ [CHR 0x22] @ ''1.0'' @ [CHR 0x22] @ ''?>'' @ nl"

lemma after_header: "xml_parse (xml_header @ s) =
    bindE (xml_run s start_state) (\<lambda>p.
      if xmode p = Chars \<and> xstack p = [] then of_option parse_error (xroot p) else Inl parse_error)"
proof -
  have "after_declaration (xml_header @ s) = Inr (nl @ s)"
    by (simp add: xml_header_def nl_def has_prefix_def)
  moreover have "has_prefix ''<?xml '' (xml_header @ s)"
    by (simp add: xml_header_def has_prefix_def)
  moreover have "xml_step CHR 0x0A start_state = Inr start_state"
    by (simp add: xml_step_def start_state_def add_char_def xml_char_def xml_blank_def)
  ultimately show ?thesis by (simp add: xml_parse_def nl_def)
qed

lemma document_run:
  assumes "xml_name n"
  shows "xml_parse (xml_header @ (''<'' @ n @ ''>'') @ s) =
           bindE (xml_run s (content \<lparr>ftag = n, fattrs = [], ftext = [], fkids = []\<rparr> [] None)) (\<lambda>p.
             if xmode p = Chars \<and> xstack p = [] then of_option parse_error (xroot p) else Inl parse_error)"
  using open_run_any [OF assms, of start_state] unfolding after_header xml_run_append
  by (simp add: start_state_def content_def)

lemma nl_plain [simp]: "plain nl"
  by (simp add: plain_def nl_def xml_char_def xml_blank_def)

theorem document_parse:
  assumes n: "xml_name n" and s: "xml_fragment s = Inr es"
  shows "\<exists>t. xml_parse (xml_header @ (''<'' @ n @ ''>'') @ s @ (''</'' @ n @ ''>'') @ nl) = Inr (Elem n [] t es)"
proof -
  obtain t where run: "\<And>f rest r. xml_run s (content f rest r) =
      Inr (content (merge f \<lparr>ftag = [], fattrs = [], ftext = t, fkids = es\<rparr>) rest r)"
    using fragment_run [OF s] by blast
  have end_: "xml_run nl \<lparr>xmode = Chars, xstack = [], xroot = Some e\<rparr> =
      Inr \<lparr>xmode = Chars, xstack = [], xroot = Some e\<rparr>" for e
    by (simp add: nl_def xml_step_def add_char_def xml_char_def xml_blank_def)
  have closed: "xml_run (''</'' @ n @ ''>'') (content \<lparr>ftag = n, fattrs = [], ftext = t, fkids = es\<rparr> [] None) =
      Inr \<lparr>xmode = Chars, xstack = [], xroot = Some (Elem n [] (text_of t) es)\<rparr>"
    using close_run_any [OF n, of "\<lparr>ftag = n, fattrs = [], ftext = t, fkids = es\<rparr>" "[]" None] n
    by (simp add: close_tag_def add_elem_def content_def frame_elem_def text_of_def)
  have merged: "merge \<lparr>ftag = n, fattrs = [], ftext = [], fkids = []\<rparr> \<lparr>ftag = [], fattrs = [], ftext = t, fkids = es\<rparr> =
      \<lparr>ftag = n, fattrs = [], ftext = t, fkids = es\<rparr>"
    by (simp add: merge_def)
  have "xml_run (s @ (''</'' @ n @ ''>'') @ nl) (content \<lparr>ftag = n, fattrs = [], ftext = [], fkids = []\<rparr> [] None) =
      Inr \<lparr>xmode = Chars, xstack = [], xroot = Some (Elem n [] (text_of t) es)\<rparr>"
    by (simp only: xml_run_append [of s] xml_run_append [of "''</'' @ n @ ''>''"] run bindE_simps merged
        closed end_)
  then show ?thesis unfolding document_run [OF n] by simp
qed

text \<open>A mismatched closing tag inside makes the whole document unreadable.\<close>

lemma document_fails:
  assumes n: "xml_name n" and s: "xml_fragment s = Inr es"
    and bad: "\<And>f rest r. xml_run b (content f rest r) = Inl e"
  shows "xml_parse (xml_header @ (''<'' @ n @ ''>'') @ s @ b @ rest) = Inl e"
proof -
  obtain t where "\<And>f rest r. xml_run s (content f rest r) =
      Inr (content (merge f \<lparr>ftag = [], fattrs = [], ftext = t, fkids = es\<rparr>) rest r)"
    using fragment_run [OF s] by blast
  then show ?thesis
    unfolding document_run [OF n] xml_run_append using bad by simp
qed

section \<open>An empty element with one attribute\<close>

definition plain_value :: "string \<Rightarrow> bool" where
  "plain_value v \<longleftrightarrow> list_all (\<lambda>c. xml_char c \<and> c \<noteq> CHR ''<'' \<and> c \<noteq> CHR ''&'' \<and> c \<noteq> CHR 0x22) v"

lemma digits_plain:
  assumes "\<forall>ch \<in> set s. is_digit ch"
  shows "plain_value s"
  using assms by (auto simp: plain_value_def list_all_iff is_digit_def xml_char_def Let_def)

lemma plain_value_append [simp]: "plain_value (a @ b) \<longleftrightarrow> plain_value a \<and> plain_value b"
  by (simp add: plain_value_def)

lemma plain_attr_value: "plain_value v \<Longrightarrow> attr_value v None = Inr v"
  by (induction v) (simp_all add: plain_value_def)

lemma quoted_run:
  "plain_value v \<Longrightarrow> xml_run v (p\<lparr>xmode := Markup a (Some (CHR 0x22))\<rparr>) = Inr (p\<lparr>xmode := Markup (a @ v) (Some (CHR 0x22))\<rparr>)"
  by (induction v arbitrary: a) (simp_all add: plain_value_def xml_step_def)

lemma one_attribute:
  assumes "xml_name a" and "plain_value v"
  shows "attributes (CHR '' '' # a @ CHR ''='' # CHR 0x22 # v @ [CHR 0x22]) = Inr [(a, v)]"
proof -
  have a: "a \<noteq> []" "list_all name_char a" using assms(1) by (auto simp: xml_name_def)
  have eq: "\<not> name_char (CHR ''='')" by (simp add: name_char_def name_start_def is_digit_def)
  let ?t = "a @ CHR ''='' # CHR 0x22 # v @ [CHR 0x22]"
  have "\<not> xml_blank (hd a)" using name_no_delim [OF a(2)] a(1) by auto
  then have t: "dropWhile xml_blank ?t = ?t" using a(1) by (cases a) auto
  have n: "takeWhile name_char ?t = a" "dropWhile name_char ?t = CHR ''='' # CHR 0x22 # v @ [CHR 0x22]"
    using a(2) eq by (auto simp: list_all_iff takeWhile_append2 dropWhile_append2)
  have v: "takeWhile (\<lambda>c. c \<noteq> CHR 0x22) (v @ [CHR 0x22]) = v" "dropWhile (\<lambda>c. c \<noteq> CHR 0x22) (v @ [CHR 0x22]) = [CHR 0x22]"
    using assms(2) by (auto simp: plain_value_def list_all_iff takeWhile_append2 dropWhile_append2)
  have blank: "\<not> xml_blank (CHR ''='')" "\<not> xml_blank (CHR 0x22)" "xml_blank (CHR '' '')"
    by (auto simp: xml_blank_def)
  show ?thesis
    using t n v blank assms a
    by (subst attributes.simps) (simp add: Let_def attributes.simps [of "[]"] quote_char_def plain_attr_value)
qed

lemma markup_empty:
  "b \<noteq> [] \<Longrightarrow> hd b \<noteq> CHR ''/'' \<Longrightarrow>
     markup (b @ ''/'') p = bindE (split_tag b) (\<lambda>(n, as). add_elem (Elem n as None []) p)"
  by (cases b) (simp_all add: markup_def)

lemma attribute_fragment:
  assumes n: "xml_name n" and a: "xml_name a" and v: "plain_value v"
  shows "xml_fragment (''<'' @ n @ '' '' @ a @ ''='' @ [CHR 0x22] @ v @ [CHR 0x22] @ ''/>'') = Inr [Elem n [(a, v)] None []]"
proof -
  let ?s = "n @ '' '' @ a @ ''=''"
  let ?body = "?s @ [CHR 0x22] @ v @ [CHR 0x22]"
  have names: "n \<noteq> []" "list_all name_char n" "list_all name_char a"
    using n a by (auto simp: xml_name_def)
  have "\<forall>c \<in> set ?s. c \<noteq> CHR ''<'' \<and> c \<noteq> CHR ''>'' \<and> \<not> quote_char c"
    using name_no_delim [OF names(2)] name_no_delim [OF names(3)] by (auto simp: quote_char_def)
  then have r1: "xml_run ?s (inside_element\<lparr>xmode := Markup [] None\<rparr>) = Inr (inside_element\<lparr>xmode := Markup ?s None\<rparr>)"
    using markup_run [where s = ?s and p = inside_element and a = "[]"] by simp
  have r2: "xml_run ([CHR 0x22]) (inside_element\<lparr>xmode := Markup ?s None\<rparr>) =
      Inr (inside_element\<lparr>xmode := Markup (?s @ [CHR 0x22]) (Some (CHR 0x22))\<rparr>)"
    by (simp add: xml_step_def quote_char_def)
  have r3: "xml_run v (inside_element\<lparr>xmode := Markup (?s @ [CHR 0x22]) (Some (CHR 0x22))\<rparr>) =
      Inr (inside_element\<lparr>xmode := Markup (?s @ [CHR 0x22] @ v) (Some (CHR 0x22))\<rparr>)"
    using quoted_run [OF v, where p = inside_element and a = "?s @ [CHR 0x22]"] by simp
  have r4: "xml_run ([CHR 0x22] @ ''/'') (inside_element\<lparr>xmode := Markup (?s @ [CHR 0x22] @ v) (Some (CHR 0x22))\<rparr>) =
      Inr (inside_element\<lparr>xmode := Markup (?body @ ''/'') None\<rparr>)"
    by (simp add: xml_step_def quote_char_def)
  have split: "split_tag ?body = Inr (n, [(a, v)])"
  proof -
    have sp: "\<not> name_char (CHR '' '')" by (simp add: name_char_def name_start_def is_digit_def)
    have "takeWhile name_char ?body = n"
      "dropWhile name_char ?body = CHR '' '' # a @ CHR ''='' # CHR 0x22 # v @ [CHR 0x22]"
      using names(2) sp by (auto simp: list_all_iff takeWhile_append2 dropWhile_append2)
    then show ?thesis using one_attribute [OF a v] n by (simp add: split_tag_def Let_def)
  qed
  have "hd n \<noteq> CHR ''/''" using name_no_delim [OF names(2)] names(1) by auto
  then have m: "markup (?body @ ''/'') inside_element = add_elem (Elem n [(a, v)] None []) inside_element"
    using names(1) split by (subst markup_empty) (cases n; simp)+
  have start: "xml_run ''<'' inside_element = Inr (inside_element\<lparr>xmode := Markup [] None\<rparr>)"
    by (simp add: xml_step_def inside_element_def)
  have stop: "xml_run ''>'' (inside_element\<lparr>xmode := Markup (?body @ ''/'') None\<rparr>) = markup (?body @ ''/'') inside_element"
    by (cases "markup (?body @ ''/'') inside_element") (simp_all add: xml_step_def inside_element_def)
  have "xml_run (''<'' @ ?s @ [CHR 0x22] @ v @ ([CHR 0x22] @ ''/'') @ ''>'') inside_element =
      add_elem (Elem n [(a, v)] None []) inside_element"
    by (simp only: xml_run_append [of "''<''"] xml_run_append [of ?s] xml_run_append [of "[CHR 0x22]" "v @ _"]
        xml_run_append [of v] xml_run_append [of "[CHR 0x22] @ ''/''"] start r1 r2 r3 r4 bindE_simps stop m)
  then show ?thesis by (simp add: xml_fragment_def add_elem_def inside_element_def)
qed

end
