(* ===== verification/TestReport.thy ===== *)
theory TestReport
  imports XmlDoc
begin

text \<open>
  \<open>test.py\<close>, lines 210 to 580: the translation of the results file into a text and an HTML report.

  A report is the text written to its file, or the exception that ends the translation: a document
  that is no XML (\<open>ParseError\<close>) or a test without the children that are read (\<open>AttributeError\<close>,
  since \<open>find\<close> returns \<open>None\<close>).  What is in the file when an exception ends the translation is not
  modelled.
\<close>

lemma mapE_cong [fundef_cong]:
  "xs = ys \<Longrightarrow> (\<And>x. x \<in> set ys \<Longrightarrow> f x = g x) \<Longrightarrow> mapE f xs = mapE g ys"
  by (induction ys arbitrary: xs) auto

section \<open>Reading a test\<close>

text \<open>\<open>test.find(tag).text\<close>\<close>

definition child_text :: "string \<Rightarrow> xml \<Rightarrow> string option res" where
  "child_text tag e =
     (case find_first tag e of None \<Rightarrow> Inl (AttributeError ''text'') | Some k \<Rightarrow> Inr (etext k))"

text \<open>\<open>"%s" % x\<close> of a text that may be \<open>None\<close>\<close>

definition show_text :: "string option \<Rightarrow> string" where
  "show_text x = (case x of None \<Rightarrow> ''None'' | Some s \<Rightarrow> s)"

definition time_real :: "xml \<Rightarrow> string option" where
  "time_real test =
     (case find_first ''Time'' test of None \<Rightarrow> Some [] | Some k \<Rightarrow> map_of (eattrs k) ''real'')"

definition read_test :: "xml \<Rightarrow> (string option \<times> string option \<times> string option) res" where
  "read_test test =
     bindE (child_text ''Result'' test) (\<lambda>result.
     bindE (child_text ''Name'' test) (\<lambda>name. Inr (result, name, time_real test)))"

section \<open>The text report\<close>

definition in_quotes :: "string \<Rightarrow> string" where
  "in_quotes s = [CHR 0x22] @ s @ [CHR 0x22]"

definition suite_line :: "string option \<times> string option \<times> string option \<Rightarrow> string" where
  "suite_line = (\<lambda>(result, name, time).
     show_text result @ '': Test Suite '' @ in_quotes (show_text name) @ '' ('' @ show_text time @ '')'' @ nl)"

definition labelled :: "xml \<Rightarrow> string \<times> string \<Rightarrow> string res" where
  "labelled details = (\<lambda>(label, tag).
     bindE (child_text tag details) (\<lambda>t. Inr (label @ show_text t @ nl)))"

definition details_text :: "xml \<Rightarrow> string res" where
  "details_text details =
     bindE (mapE (labelled details)
              [(''      Message:   '', ''Message''), (''      Condition: '', ''Condition''),
               (''      Actual:    '', ''Actual''), (''      Limit:     '', ''Limit''),
               (''      File:      '', ''File''), (''      Line:      '', ''Line'')])
       (\<lambda>ls. Inr (''    Details:'' @ nl @ concat ls))"

lemma kids_size: "k \<in> set (find_all tag e) \<Longrightarrow> size k < size e"
  by (cases e) (auto simp: find_all_def dest: size_list_estimation' [where f = size, OF _ order_refl])

function node_to_text :: "xml \<Rightarrow> string res" where
  "node_to_text test =
     bindE (read_test test) (\<lambda>r.
     bindE (mapE details_text (find_all ''FailureDetails'' test)) (\<lambda>ds.
     bindE (mapE node_to_text (find_all ''Test'' test)) (\<lambda>cs.
       Inr (suite_line r @ concat ds @ concat cs))))"
  by pat_completeness auto
termination
  by (relation "measure size") (auto intro: kids_size)

declare node_to_text.simps [simp del]

definition example_line :: "string option \<times> string option \<times> string option \<Rightarrow> string" where
  "example_line = (\<lambda>(result, name, time).
     show_text result @ '': Example '' @ in_quotes (show_text name) @ '' ('' @ show_text time @ '')'' @ nl)"

definition example_text :: "xml \<Rightarrow> string res" where
  "example_text example = bindE (read_test example) (\<lambda>r. Inr (example_line r))"

definition translate_to_text :: "string \<Rightarrow> string res" where
  "translate_to_text results =
     bindE (xml_parse results) (\<lambda>et.
     bindE (mapE node_to_text (find_all ''Test'' et)) (\<lambda>ts.
     bindE (mapE example_text (find_all ''Example'' et)) (\<lambda>es.
       Inr (concat ts @ concat es))))"

section \<open>The HTML report\<close>

definition styled :: "string \<Rightarrow> string \<Rightarrow> string" where
  "styled tag color = ''<'' @ tag @ '' style='' @ in_quotes (''color:'' @ color) @ ''>''"

definition status_color :: "string option \<Rightarrow> string" where
  "status_color result =
     (if result = Some ''PASS'' then ''green'' else if result = Some ''SKIP'' then ''#ff6600'' else ''red'')"

definition table_start :: string where
  "table_start = ''<table border='' @ in_quotes ''1'' @ ''>'' @ nl"

definition suite_header :: "string option \<times> string option \<times> string option \<Rightarrow> string" where
  "suite_header = (\<lambda>(result, name, time).
     styled ''h3'' (status_color result) @
     show_text result @ '': '' @ show_text name @ '' ('' @ show_text time @ '')</h3>'' @ nl)"

definition cell :: "string \<Rightarrow> string" where
  "cell s = ''<td>'' @ s @ ''</td>'' @ nl"

definition bold_field :: "xml \<Rightarrow> string \<times> string \<times> string \<Rightarrow> string res" where
  "bold_field details = (\<lambda>(label, tag, sep).
     bindE (child_text tag details) (\<lambda>t. Inr (''<b>'' @ label @ '': </b>'' @ show_text t @ sep)))"

text \<open>The row of a failure ends with a second \<open></td>\<close>, as in the source.\<close>

definition failure_row ::
  "string option \<times> string option \<times> string option \<Rightarrow> bool \<Rightarrow> xml \<Rightarrow> string res" where
  "failure_row r first_row details = (case r of (result, name, time) \<Rightarrow>
     bindE (mapE (bold_field details)
              [(''Message'', ''Message'', '', ''), (''Condition'', ''Condition'', '', ''),
               (''Actual'', ''Actual'', '', ''), (''Limit'', ''Limit'', '', ''),
               (''File'', ''File'', '', ''), (''Line'', ''Line'', [])])
       (\<lambda>fs. Inr (''<tr>'' @ nl @
          (if first_row
           then styled ''td'' ''red'' @ show_text result @ ''</td>'' @ nl @ cell (show_text name) @ cell (show_text time)
           else cell [] @ cell [] @ cell []) @
          ''<td>'' @ concat fs @ ''</td>'' @ nl @ ''</td>'' @ nl)))"

fun failure_rows ::
  "string option \<times> string option \<times> string option \<Rightarrow> bool \<Rightarrow> xml list \<Rightarrow> string res" where
  "failure_rows r first_row [] = Inr []"
| "failure_rows r first_row (d # ds) =
     bindE (failure_row r first_row d) (\<lambda>row. bindE (failure_rows r False ds) (\<lambda>rows. Inr (row @ rows)))"

definition case_rows :: "xml \<Rightarrow> string res" where
  "case_rows test_case =
     bindE (read_test test_case) (\<lambda>(result, name, time).
       if result = Some ''FAIL''
       then failure_rows (result, name, time) True (find_all ''FailureDetails'' test_case)
       else Inr (''<tr>'' @ nl @ styled ''td'' ''green'' @ show_text result @ ''</td>'' @ nl @
                 cell (show_text name) @ cell (show_text time) @ cell [] @ ''</tr>'' @ nl))"

definition suite_html :: "xml \<Rightarrow> string res" where
  "suite_html suite =
     bindE (read_test suite) (\<lambda>(result, name, time).
       let start = suite_header (result, name, time) @ table_start @ ''<th> Result </th>'' @ nl in
       if result \<in> {Some ''CRASH'', Some ''SKIP'', Some ''VALGR''}
       then Inr (start @ ''<tr>'' @ nl @ styled ''td'' (if result = Some ''SKIP'' then ''#ff6600'' else ''red'') @
                 show_text result @ ''</td>'' @ nl @ ''</tr>'' @ nl @ ''</table>'' @ nl)
       else
         bindE (mapE case_rows (find_all ''Test'' suite)) (\<lambda>rows.
           Inr (start @ ''<th>Test Case Name</th>'' @ nl @ ''<th> Time </th>'' @ nl @
                (if result = Some ''FAIL'' then ''<th>Failure Details</th>'' @ nl else []) @
                concat rows @ ''</table>'' @ nl)))"

text \<open>The cell of a skipped example is closed by \<open></fd>\<close>, as in the source.\<close>

definition example_html :: "xml \<Rightarrow> string res" where
  "example_html example =
     bindE (read_test example) (\<lambda>(result, name, time).
       Inr (''<tr>'' @ nl @ styled ''td'' (status_color result) @ show_text result @
            (if result = Some ''SKIP'' then ''</fd>'' else ''</td>'') @ nl @
            cell (show_text name) @ cell (show_text time) @ ''</tr>'' @ nl))"

definition translate_to_html :: "string \<Rightarrow> string res" where
  "translate_to_html results =
     bindE (xml_parse results) (\<lambda>et.
     bindE (mapE suite_html (find_all ''Test'' et)) (\<lambda>suites.
     bindE (mapE example_html (find_all ''Example'' et)) (\<lambda>examples.
       Inr (''<html>'' @ nl @ ''<body>'' @ nl @ ''<center><h1>ns-3 Test Results</h1></center>'' @ nl @
            ''<h2>Test Suites</h2>'' @ nl @ concat suites @
            ''<h2>Examples</h2>'' @ nl @ table_start @
            ''<th> Result </th>'' @ nl @ ''<th>Example Name</th>'' @ nl @ ''<th>Elapsed Time</th>'' @ nl @
            concat examples @ ''</table>'' @ nl @ ''</body>'' @ nl @ ''</html>'' @ nl))))"

section \<open>The text report lists every test\<close>

lemma mapE_append: "mapE f (xs @ ys) = bindE (mapE f xs) (\<lambda>a. bindE (mapE f ys) (\<lambda>b. Inr (a @ b)))"
proof (induction xs)
  case Nil
  then show ?case by (cases "mapE f ys") auto
next
  case (Cons x xs)
  then show ?case
    by (cases "f x"; cases "mapE f xs"; cases "mapE f ys") auto
qed

lemma mapE_concat:
  "bindE (mapE (\<lambda>x. bindE (mapE f (g x)) (\<lambda>bs. Inr (concat bs))) xs) (\<lambda>cs. Inr (concat cs)) =
     bindE (mapE f (concat (map g xs))) (\<lambda>bs. Inr (concat bs))"
proof (induction xs)
  case (Cons x xs)
  show ?case
  proof (cases "mapE f (g x)")
    case (Inr a)
    then show ?thesis using Cons
      by (cases "mapE (\<lambda>x. bindE (mapE f (g x)) (\<lambda>bs. Inr (concat bs))) xs";
          cases "mapE f (concat (map g xs))") (auto simp: mapE_append)
  qed (simp add: mapE_append)
qed simp

text \<open>A test and, in order, the tests inside it.\<close>

function preorder :: "xml \<Rightarrow> xml list" where
  "preorder t = t # concat (map preorder (find_all ''Test'' t))"
  by pat_completeness auto
termination
  by (relation "measure size") (auto intro: kids_size)

declare preorder.simps [simp del]

text \<open>The summary line of one test and its failures.\<close>

definition test_block :: "xml \<Rightarrow> string res" where
  "test_block t =
     bindE (read_test t) (\<lambda>r.
     bindE (mapE details_text (find_all ''FailureDetails'' t)) (\<lambda>ds. Inr (suite_line r @ concat ds)))"

lemma node_to_text_preorder:
  "node_to_text t = bindE (mapE test_block (preorder t)) (\<lambda>bs. Inr (concat bs))"
proof (induction t rule: node_to_text.induct)
  case (1 t)
  have kids: "mapE node_to_text (find_all ''Test'' t) =
      mapE (\<lambda>x. bindE (mapE test_block (preorder x)) (\<lambda>bs. Inr (concat bs))) (find_all ''Test'' t)"
    if "read_test t = Inr r" "mapE details_text (find_all ''FailureDetails'' t) = Inr ds" for r ds
    using 1 [OF that] by (intro mapE_cong refl) blast
  show ?case
  proof (cases "test_block t")
    case (Inl e)
    then show ?thesis
      by (auto simp: node_to_text.simps [of t] preorder.simps [of t] test_block_def bindE_Inl_iff)
  next
    case (Inr b)
    then obtain r ds where b: "read_test t = Inr r" "b = suite_line r @ concat ds"
      "mapE details_text (find_all ''FailureDetails'' t) = Inr ds"
      by (auto simp: test_block_def bindE_Inr_iff)
    have "node_to_text t =
        bindE (bindE (mapE node_to_text (find_all ''Test'' t)) (\<lambda>cs. Inr (concat cs))) (\<lambda>s. Inr (b @ s))"
      by (cases "mapE node_to_text (find_all ''Test'' t)") (simp_all add: node_to_text.simps [of t] b)
    also have "bindE (mapE node_to_text (find_all ''Test'' t)) (\<lambda>cs. Inr (concat cs)) =
        bindE (mapE test_block (concat (map preorder (find_all ''Test'' t)))) (\<lambda>bs. Inr (concat bs))"
      unfolding kids [OF b(1) b(3)] by (rule mapE_concat)
    finally show ?thesis
      by (cases "mapE test_block (concat (map preorder (find_all ''Test'' t)))")
        (simp_all add: preorder.simps [of t] Inr)
  qed
qed

lemma translate_to_text_tests:
  "translate_to_text results =
     bindE (xml_parse results) (\<lambda>et.
     bindE (mapE test_block (concat (map preorder (find_all ''Test'' et)))) (\<lambda>bs.
     bindE (mapE example_text (find_all ''Example'' et)) (\<lambda>es. Inr (concat bs @ concat es))))"
proof (cases "xml_parse results")
  case (Inr et)
  have "bindE (mapE node_to_text (find_all ''Test'' et)) (\<lambda>ts. Inr (concat ts)) =
      bindE (mapE test_block (concat (map preorder (find_all ''Test'' et)))) (\<lambda>bs. Inr (concat bs))"
    using mapE_concat [of test_block preorder] by (simp add: node_to_text_preorder [abs_def])
  then show ?thesis
    by (cases "mapE node_to_text (find_all ''Test'' et)";
        cases "mapE test_block (concat (map preorder (find_all ''Test'' et)))")
      (auto simp: translate_to_text_def Inr)
qed (simp add: translate_to_text_def)

section \<open>What the HTML report leaves out\<close>

text \<open>A failed test case without failures of its own, as one whose failures are in the cases inside it
  has it, gets no row at all; a failed case gets one row for each of its failures.\<close>

lemma failed_case_hidden:
  assumes "read_test t = Inr (Some ''FAIL'', name, time)" and "find_all ''FailureDetails'' t = []"
  shows "case_rows t = Inr []"
  using assms by (simp add: case_rows_def)

text \<open>The reports only break on documents that are no XML or lack what is read.\<close>

lemma reports_fail_together:
  "xml_parse results = Inl e \<Longrightarrow> translate_to_text results = Inl e \<and> translate_to_html results = Inl e"
  by (simp add: translate_to_text_def translate_to_html_def)

end
