(* ===== verification/TestPool.thy ===== *)
theory TestPool
  imports TestJobs TestReport "HOL-Library.Multiset"
begin

text \<open>
  \<open>test.py\<close>: the jobs as the worker threads run them and the main thread collects them.

  \<open>pool_step\<close> is the step relation of the program once the jobs are known: the main thread puts
  jobs into the input queue, a worker takes one, runs it and puts it into the output queue, the main
  thread collects the results; control-C sets \<open>thread_exit\<close> at any time.  Each step is one action of
  one thread, so the relation has every interleaving.  \<open>exec\<close> is what running a job does,
  \<open>recording\<close> what the main thread does with a result.  A worker whose job raises is dead.
  The locale \<open>job_runner\<close> is what the threads rely on; \<open>pool_inv\<close> is their invariant.
\<close>

section \<open>Running a job\<close>

definition suite_arguments :: "topts \<Rightarrow> job \<Rightarrow> string" where
  "suite_arguments opts j =
     '' --xml --tempdir='' @ job_tempdir j @ '' --out='' @ tmp_file_name j @ '' '' @
     (if o_update_data opts then ''--update-data'' else [])"

definition is_program :: "job \<Rightarrow> bool" where
  "is_program j \<longleftrightarrow> is_example j \<or> is_pyexample j"

definition run_job :: "tconf \<Rightarrow> topts \<Rightarrow> shell \<Rightarrow> job \<Rightarrow> job res" where
  "run_job c opts shell j =
     bindE (if is_program j
            then run_job_synchronously c shell (shell_command j) (job_cwd j) (o_valgrind opts)
                   (is_pyexample j) (build_path j)
            else run_job_synchronously c shell (shell_command j @ suite_arguments opts j) (job_cwd j)
                   (o_valgrind opts) False [])
       (\<lambda>(rc, out, err, et). Inr (j\<lparr>returncode := rc, elapsed_time := et\<rparr>))"

section \<open>Collecting a result\<close>

record tally =
  passed_tests :: nat
  failed_tests :: nat
  crashed_tests :: nat
  valgrind_errors :: nat
  skipped_tests :: nat
  status_lines :: "string list"
  xml_results :: string

definition job_status :: "job \<Rightarrow> string" where
  "job_status j =
     (if is_skip j then ''SKIP''
      else if returncode j = 0 then ''PASS''
      else if returncode j = 1 then ''FAIL''
      else if returncode j = 2 then ''VALGR'' else ''CRASH'')"

definition count_status :: "string \<Rightarrow> tally \<Rightarrow> tally" where
  "count_status status s =
     (if status = ''SKIP'' then s\<lparr>skipped_tests := Suc (skipped_tests s)\<rparr>
      else if status = ''PASS'' then s\<lparr>passed_tests := Suc (passed_tests s)\<rparr>
      else if status = ''FAIL'' then s\<lparr>failed_tests := Suc (failed_tests s)\<rparr>
      else if status = ''VALGR'' then s\<lparr>valgrind_errors := Suc (valgrind_errors s)\<rparr>
      else s\<lparr>crashed_tests := Suc (crashed_tests s)\<rparr>)"

definition status_line :: "topts \<Rightarrow> job \<Rightarrow> string" where
  "status_line opts j =
     job_status j @
     (if o_duration opts \<or> o_constrain opts = ''performance''
      then '' ('' @ fmt_fixed 3 (elapsed_time j) @ '')'' else []) @
     '': '' @ (if is_program j then ''Example'' else ''TestSuite'') @ '' '' @ display_name j"

definition tagged :: "string \<Rightarrow> string \<Rightarrow> string" where
  "tagged tag s = ''<'' @ tag @ ''>'' @ s @ ''</'' @ tag @ ''>''"

text \<open>The entry of an example.\<close>

definition example_entry :: "job \<Rightarrow> string" where
  "example_entry j =
     ''<Example>'' @ nl @
     ''  '' @ tagged ''Name'' (display_name j) @ nl @
     ''  '' @ tagged ''Result'' (job_status j) @ nl @
     ''  <Time real='' @ in_quotes (fmt_fixed 3 (elapsed_time j)) @ ''/>'' @ nl @
     ''</Example>'' @ nl"

text \<open>An entry made up for a suite; \<open>ending\<close> is what stands behind the result.\<close>

definition suite_entry :: "job \<Rightarrow> string \<Rightarrow> string \<Rightarrow> string" where
  "suite_entry j result ending =
     ''<Test>'' @ nl @ ''  '' @ tagged ''Name'' (display_name j) @ nl @
     ''  <Result>'' @ result @ ending @ nl @ ''</Test>'' @ nl"

text \<open>
  What a result adds to the results file.  \<open>tmp\<close> holds the files the suites wrote; the test for the
  return code 2 inside the last branch can never be true.
\<close>

definition result_entry :: "(string \<rightharpoonup> string) \<Rightarrow> job \<Rightarrow> string res" where
  "result_entry tmp j =
     (if is_program j then Inr (example_entry j)
      else if is_skip j then Inr (suite_entry j ''SKIP'' ''</Result>'')
      else if returncode j = 0 \<or> returncode j = 1 \<or> returncode j = 2
      then of_option (FileNotFoundError (tmp_file_name j)) (tmp (tmp_file_name j))
      else Inr (suite_entry j ''CRASH'' ''</Suite>'' @
                (if returncode j = 2 then suite_entry j ''VALGR'' ''</Result>'' else [])))"

definition collect :: "topts \<Rightarrow> (string \<rightharpoonup> string) \<Rightarrow> job \<Rightarrow> tally \<Rightarrow> tally res" where
  "collect opts tmp j s =
     (if is_break j then Inr s
      else bindE (result_entry tmp j) (\<lambda>entry.
             let s' = count_status (job_status j) s in
             Inr (s'\<lparr>status_lines := status_lines s' @ [status_line opts j],
                     xml_results := xml_results s' @ entry\<rparr>)))"

definition start_tally :: tally where
  "start_tally =
     \<lparr>passed_tests = 0, failed_tests = 0, crashed_tests = 0, valgrind_errors = 0, skipped_tests = 0,
      status_lines = [], xml_results = xml_header @ ''<Results>'' @ nl\<rparr>"

section \<open>The threads\<close>

datatype worker = Waiting | Running job | Returning job | Stopped | Died exn

text \<open>\<open>p_taken\<close> is no variable of the program: it remembers the jobs the main thread has collected.\<close>

record pool =
  p_unsent :: "job list"
  p_input :: "job list"
  p_workers :: "worker list"
  p_output :: "job list"
  p_exit :: bool
  p_pending :: nat
  p_taken :: "job list"
  p_tally :: "tally res"

text \<open>What a worker does with a job it has taken out of the queue.\<close>

definition receive :: "bool \<Rightarrow> job \<Rightarrow> worker" where
  "receive thread_exit j =
     (if is_break j then Stopped
      else if thread_exit then Returning (j\<lparr>is_break := True\<rparr>)
      else if is_skip j then Returning j
      else Running j)"

definition finished :: "job res \<Rightarrow> worker" where
  "finished r = (case r of Inl e \<Rightarrow> Died e | Inr j \<Rightarrow> Returning j)"

inductive pool_step ::
  "(job \<Rightarrow> job res) \<Rightarrow> (job \<Rightarrow> tally \<Rightarrow> tally res) \<Rightarrow> pool \<Rightarrow> pool \<Rightarrow> bool"
  for exec recording where
  send: "p_unsent p = j # js \<Longrightarrow>
     pool_step exec recording p (p\<lparr>p_unsent := js, p_input := p_input p @ [j]\<rparr>)"
| take: "i < length (p_workers p) \<Longrightarrow> p_workers p ! i = Waiting \<Longrightarrow> p_input p = j # js \<Longrightarrow>
     pool_step exec recording p
       (p\<lparr>p_input := js, p_workers := (p_workers p)[i := receive (p_exit p) j]\<rparr>)"
| work: "i < length (p_workers p) \<Longrightarrow> p_workers p ! i = Running j \<Longrightarrow>
     pool_step exec recording p (p\<lparr>p_workers := (p_workers p)[i := finished (exec j)]\<rparr>)"
| put: "i < length (p_workers p) \<Longrightarrow> p_workers p ! i = Returning j \<Longrightarrow>
     pool_step exec recording p
       (p\<lparr>p_workers := (p_workers p)[i := Waiting], p_output := p_output p @ [j]\<rparr>)"
| interrupt: "\<not> p_exit p \<Longrightarrow> pool_step exec recording p (p\<lparr>p_exit := True\<rparr>)"
| get: "p_unsent p = [] \<Longrightarrow> p_tally p = Inr s \<Longrightarrow> p_pending p = Suc n \<Longrightarrow> p_output p = j # js \<Longrightarrow>
     pool_step exec recording p
       (p\<lparr>p_output := js, p_pending := n, p_taken := p_taken p @ [j], p_tally := recording j s\<rparr>)"

inductive_cases pool_stepE: "pool_step exec recording p q"

definition start_pool :: "nat \<Rightarrow> job list \<Rightarrow> pool" where
  "start_pool processors jobs =
     \<lparr>p_unsent = jobs @ replicate processors break_job, p_input = [], p_workers = replicate processors Waiting,
      p_output = [], p_exit = False, p_pending = length jobs, p_taken = [], p_tally = Inr start_tally\<rparr>"

inductive pool_steps ::
  "(job \<Rightarrow> job res) \<Rightarrow> (job \<Rightarrow> tally \<Rightarrow> tally res) \<Rightarrow> nat \<Rightarrow> pool \<Rightarrow> pool \<Rightarrow> bool"
  for exec recording where
  none: "pool_steps exec recording 0 p p"
| more: "pool_steps exec recording n p q \<Longrightarrow> pool_step exec recording q r \<Longrightarrow>
     pool_steps exec recording (Suc n) p r"

text \<open>A run together with the jobs that the workers handed over, in this order.\<close>

definition put_result :: "pool \<Rightarrow> pool \<Rightarrow> job list" where
  "put_result p q = (if length (p_output p) < length (p_output q) then [last (p_output q)] else [])"

inductive pool_log ::
  "(job \<Rightarrow> job res) \<Rightarrow> (job \<Rightarrow> tally \<Rightarrow> tally res) \<Rightarrow> job list \<Rightarrow> pool \<Rightarrow> pool \<Rightarrow> bool"
  for exec recording where
  no_log: "pool_log exec recording [] p p"
| more_log: "pool_log exec recording ds p q \<Longrightarrow> pool_step exec recording q r \<Longrightarrow>
     pool_log exec recording (ds @ put_result q r) p r"

text \<open>All results are collected and all threads can be joined.\<close>

definition all_done :: "pool \<Rightarrow> bool" where
  "all_done p \<longleftrightarrow> p_unsent p = [] \<and> p_pending p = 0 \<and>
     list_all (\<lambda>w. case w of Stopped \<Rightarrow> True | Died e \<Rightarrow> True | _ \<Rightarrow> False) (p_workers p) \<and>
     (case p_tally p of Inl e \<Rightarrow> False | Inr s \<Rightarrow> True)"

section \<open>The invariant of the threads\<close>

text \<open>The results on their way to the main thread or with it already.\<close>

definition holding :: "(job \<Rightarrow> job res) \<Rightarrow> worker \<Rightarrow> job res multiset" where
  "holding exec w =
     (case w of Running j \<Rightarrow> {#exec j#} | Returning j \<Rightarrow> {#Inr j#} | Died e \<Rightarrow> {#Inl e#} | _ \<Rightarrow> {#})"

definition in_flight :: "(job \<Rightarrow> job res) \<Rightarrow> pool \<Rightarrow> job res multiset" where
  "in_flight exec p =
     sum_list (map (holding exec) (p_workers p)) + image_mset Inr (mset (p_output p) + mset (p_taken p))"

text \<open>What a job comes to without an interrupt.\<close>

definition outcome_of :: "(job \<Rightarrow> job res) \<Rightarrow> job \<Rightarrow> job res" where
  "outcome_of exec j = (if is_skip j then Inr j else exec j)"

definition broken :: "job res \<Rightarrow> bool" where
  "broken r = (case r of Inl e \<Rightarrow> False | Inr j \<Rightarrow> is_break j)"

definition stopped_workers :: "pool \<Rightarrow> nat" where
  "stopped_workers p = length (filter (\<lambda>w. w = Stopped) (p_workers p))"

definition pool_inv ::
  "(job \<Rightarrow> job res) \<Rightarrow> (job \<Rightarrow> tally \<Rightarrow> tally res) \<Rightarrow> nat \<Rightarrow> job list \<Rightarrow> nat \<Rightarrow> pool \<Rightarrow> bool" where
  "pool_inv exec recording n js k p \<longleftrightarrow>
     length (p_workers p) = n \<and> k \<le> length js + n \<and>
     p_input p @ p_unsent p = drop k (js @ replicate n break_job) \<and>
     stopped_workers p = k - length js \<and>
     size (in_flight exec p) = min k (length js) \<and>
     filter_mset (\<lambda>r. \<not> broken r) (in_flight exec p) \<subseteq># image_mset (outcome_of exec) (mset (take k js)) \<and>
     (\<not> p_exit p \<longrightarrow> (\<forall>r \<in># in_flight exec p. \<not> broken r)) \<and>
     p_pending p + length (p_taken p) = length js \<and>
     p_tally p = foldE recording (p_taken p) start_tally"

lemma foldE_append: "foldE f (xs @ ys) s = bindE (foldE f xs s) (foldE f ys)"
proof (induction xs arbitrary: s)
  case (Cons x xs)
  then show ?case by (cases "f x s") auto
qed simp

lemma sum_list_update:
  fixes h :: "'a \<Rightarrow> 'b::comm_monoid_add"
  shows "i < length ws \<Longrightarrow> sum_list (map h (ws[i := w])) + h (ws ! i) = sum_list (map h ws) + h w"
proof (induction ws arbitrary: i)
  case (Cons x ws)
  then show ?case by (cases i) (auto simp: ac_simps)
qed simp

lemma stopped_update:
  assumes "i < length ws" and "ws ! i \<noteq> Stopped"
  shows "length (filter (\<lambda>w. w = Stopped) (ws[i := w])) =
           length (filter (\<lambda>w. w = Stopped) ws) + (if w = Stopped then 1 else 0)"
  using assms
proof (induction ws arbitrary: i)
  case (Cons x ws)
  then show ?case by (cases i) auto
qed simp

lemma none_holding: "sum_list (map (holding exec) ws) = {#} \<longleftrightarrow> (\<forall>w \<in> set ws. holding exec w = {#})"
  by (induction ws) auto

lemma in_sum_list_holding:
  "r \<in># sum_list (map (holding exec) ws) \<longleftrightarrow> (\<exists>w \<in> set ws. r \<in># holding exec w)"
  by (induction ws) auto

lemma subset_mset_size_eq: "A \<subseteq># B \<Longrightarrow> size A = size B \<Longrightarrow> A = B"
  by (metis less_irrefl mset_subset_size subset_mset.le_neq_trans)

lemma all_filtered: "length (filter P xs) = length xs \<Longrightarrow> \<forall>x \<in> set xs. P x"
  by (metis length_filter_less less_irrefl)

lemma in_flight_worker:
  assumes "i < length (p_workers p)"
  shows "in_flight exec (p\<lparr>p_workers := (p_workers p)[i := w]\<rparr>) + holding exec (p_workers p ! i) =
           in_flight exec p + holding exec w"
  using sum_list_update [OF assms, of "holding exec" w] by (simp add: in_flight_def)

lemma in_flight_fields [simp]:
  "in_flight exec (p\<lparr>p_unsent := js\<rparr>) = in_flight exec p"
  "in_flight exec (p\<lparr>p_input := js\<rparr>) = in_flight exec p"
  "in_flight exec (p\<lparr>p_exit := b\<rparr>) = in_flight exec p"
  "in_flight exec (p\<lparr>p_pending := m\<rparr>) = in_flight exec p"
  "in_flight exec (p\<lparr>p_tally := r\<rparr>) = in_flight exec p"
  by (simp_all add: in_flight_def)

lemma pool_inv_start:
  "pool_inv exec recording n js 0 (start_pool n js)"
proof -
  have "sum_list (map (holding exec) (replicate n Waiting)) = {#}"
    by (induction n) (simp_all add: holding_def)
  then show ?thesis
    by (simp add: pool_inv_def start_pool_def stopped_workers_def in_flight_def)
qed

text \<open>Every step that is no \<open>take\<close> leaves the results where they are.\<close>

lemma pool_inv_quiet:
  assumes "pool_inv exec recording n js k p"
    and "length (p_workers q) = length (p_workers p)" "p_input q @ p_unsent q = p_input p @ p_unsent p"
      "stopped_workers q = stopped_workers p" "in_flight exec q = in_flight exec p"
      "p_exit p \<longrightarrow> p_exit q"
      "p_pending q + length (p_taken q) = p_pending p + length (p_taken p)"
      "p_tally q = foldE recording (p_taken q) start_tally"
  shows "pool_inv exec recording n js k q"
  using assms by (auto simp: pool_inv_def)

section \<open>What the threads rely on\<close>

text \<open>Running a job does not change whether it is the signal to stop or to be skipped.\<close>

locale job_runner =
  fixes exec :: "job \<Rightarrow> job res"
  assumes exec_break: "exec j = Inr j' \<Longrightarrow> is_break j' = is_break j"
    and exec_skip: "exec j = Inr j' \<Longrightarrow> is_skip j' = is_skip j"
begin

lemma holding_receive:
  assumes "\<not> is_break j"
  shows "\<exists>r. holding exec (receive b j) = {#r#} \<and> (\<not> broken r \<longrightarrow> r = outcome_of exec j) \<and>
           (\<not> b \<longrightarrow> \<not> broken r)"
proof (cases "exec j")
  case (Inl e)
  then show ?thesis using assms by (auto simp: holding_def receive_def outcome_of_def broken_def)
next
  case (Inr j')
  then show ?thesis using assms exec_break [OF Inr]
    by (auto simp: holding_def receive_def outcome_of_def broken_def)
qed

lemma take_inv:
  assumes inv: "pool_inv exec recording n js k p" and js: "\<forall>j \<in> set js. \<not> is_break j"
    and i: "i < length (p_workers p)" "p_workers p ! i = Waiting" and input: "p_input p = j # rest"
  shows "pool_inv exec recording n js (Suc k)
           (p\<lparr>p_input := rest, p_workers := (p_workers p)[i := receive (p_exit p) j]\<rparr>)"
proof -
  define w where "w = receive (p_exit p) j"
  let ?q = "p\<lparr>p_input := rest, p_workers := (p_workers p)[i := w]\<rparr>"
  let ?all = "js @ replicate n break_job"
  have drop: "drop k ?all = j # rest @ p_unsent p"
    using inv input by (simp add: pool_inv_def)
  have k: "k < length js + n" "?all ! k = j"
  proof -
    show "k < length js + n"
      using drop by (metis drop_all length_append length_replicate list.distinct(1) not_le)
    show "?all ! k = j" by (rule nth_via_drop [OF drop])
  qed
  have drop': "rest @ p_unsent p = drop (Suc k) ?all"
    using drop by (metis Cons_nth_drop_Suc drop_eq_Nil list.distinct(1) list.inject not_le)
  have flight: "in_flight exec ?q = in_flight exec p + holding exec w"
    using in_flight_worker [OF i(1), of exec w] i(2) by (simp add: holding_def in_flight_def)
  have stopped: "stopped_workers ?q = stopped_workers p + (if is_break j then 1 else 0)"
    using stopped_update [OF i(1), of w] i(2) by (simp add: stopped_workers_def w_def receive_def)
  have "\<exists>k'. k' = Suc k \<and> pool_inv exec recording n js k' ?q"
  proof (cases "k < length js")
    case True
    then have j: "j = js ! k" using k(2) by (simp add: nth_append)
    with True js have "\<not> is_break j" by simp
    then obtain r where r: "holding exec w = {#r#}" "\<not> broken r \<longrightarrow> r = outcome_of exec j"
      "\<not> p_exit p \<longrightarrow> \<not> broken r"
      using holding_receive unfolding w_def by blast
    have image: "image_mset (outcome_of exec) (mset (take (Suc k) js)) =
        add_mset (outcome_of exec j) (image_mset (outcome_of exec) (mset (take k js)))"
      using True by (simp add: take_Suc_conv_app_nth j)
    have "filter_mset (\<lambda>r. \<not> broken r) (in_flight exec ?q) \<subseteq>#
        image_mset (outcome_of exec) (mset (take (Suc k) js))"
      using inv r(2) by (auto simp: pool_inv_def flight r(1) image intro: subset_mset.order_trans)
    then show ?thesis
      using inv True r drop' stopped \<open>\<not> is_break j\<close>
      by (auto simp: pool_inv_def flight)
  next
    case False
    then have j: "j = break_job" using k by (simp add: nth_append)
    then have "is_break j" by (simp add: break_job_def)
    then have "holding exec w = {#}" by (simp add: w_def receive_def holding_def)
    then show ?thesis
      using inv False drop' stopped k(1) \<open>is_break j\<close> by (auto simp: pool_inv_def flight)
  qed
  then show ?thesis by (simp add: w_def)
qed

lemma step_inv:
  assumes step: "pool_step exec recording p q" and js: "\<forall>j \<in> set js. \<not> is_break j"
    and inv: "pool_inv exec recording n js k p"
  shows "pool_inv exec recording n js k q \<or> pool_inv exec recording n js (Suc k) q"
  using step
proof cases
  case (send j rest)
  then show ?thesis
    by (intro disjI1 pool_inv_quiet [OF inv]) (use inv in \<open>simp_all add: pool_inv_def stopped_workers_def\<close>)
next
  case (take i j rest)
  then show ?thesis using take_inv [OF inv js] by simp
next
  case (work i j)
  have "in_flight exec q = in_flight exec p"
    using in_flight_worker [OF work(2), of exec "finished (exec j)"] work(1,3)
    by (simp add: holding_def finished_def split: sum.splits)
  moreover have "stopped_workers q = stopped_workers p"
    using stopped_update [OF work(2), of "finished (exec j)"] work(1,3)
    by (simp add: stopped_workers_def finished_def split: sum.splits)
  ultimately show ?thesis
    by (intro disjI1 pool_inv_quiet [OF inv]) (use inv work in \<open>simp_all add: pool_inv_def\<close>)
next
  case (put i j)
  have "in_flight exec q = in_flight exec p"
    using in_flight_worker [OF put(2), of exec Waiting] put(1,3)
    by (simp add: holding_def in_flight_def)
  moreover have "stopped_workers q = stopped_workers p"
    using stopped_update [OF put(2), of Waiting] put(1,3) by (simp add: stopped_workers_def)
  ultimately show ?thesis
    by (intro disjI1 pool_inv_quiet [OF inv]) (use inv put in \<open>simp_all add: pool_inv_def\<close>)
next
  case interrupt
  then show ?thesis
    by (intro disjI1 pool_inv_quiet [OF inv]) (use inv in \<open>simp_all add: pool_inv_def stopped_workers_def\<close>)
next
  case (get s m j rest)
  have "foldE recording (p_taken p) start_tally = Inr s"
    using inv get by (simp add: pool_inv_def)
  then have "p_tally q = foldE recording (p_taken q) start_tally"
    using get by (simp add: foldE_append) (cases "recording j s"; simp)
  moreover have "in_flight exec q = in_flight exec p"
    using get by (simp add: in_flight_def)
  ultimately show ?thesis
    by (intro disjI1 pool_inv_quiet [OF inv]) (use get in \<open>simp_all add: stopped_workers_def\<close>)
qed

lemma steps_inv:
  assumes "pool_steps exec recording m (start_pool n js) p" and "\<forall>j \<in> set js. \<not> is_break j"
  shows "\<exists>k. pool_inv exec recording n js k p"
  using assms(1)
proof (induction m "start_pool n js" p)
  case none
  then show ?case using pool_inv_start by blast
next
  case (more m q r)
  then show ?case using step_inv [OF _ assms(2)] by blast
qed

text \<open>Without a dead worker the run can only stop at its end.\<close>

lemma stuck_done:
  assumes inv: "pool_inv exec recording n js k p" and n: "0 < n"
    and alive: "\<forall>w \<in> set (p_workers p). \<forall>e. w \<noteq> Died e"
    and stuck: "\<And>q. \<not> pool_step exec recording p q"
  shows "all_done p \<or> (\<exists>e. p_tally p = Inl e)"
proof (cases "p_tally p")
  case (Inr s)
  have unsent: "p_unsent p = []"
    using stuck pool_step.send by (metis list.exhaust)
  have "w = Stopped" if w: "w \<in> set (p_workers p)" for w
  proof -
    obtain i where i: "i < length (p_workers p)" "p_workers p ! i = w"
      using w by (auto simp: in_set_conv_nth)
    show ?thesis
    proof (cases w)
      case Waiting
      have "p_input p = []"
        using stuck pool_step.take [OF i(1)] i(2) Waiting by (metis list.exhaust)
      with unsent inv have "k = length js + n"
        by (auto simp: pool_inv_def)
      with inv have "stopped_workers p = length (p_workers p)"
        by (simp add: pool_inv_def)
      with w have "w = Stopped"
        unfolding stopped_workers_def using all_filtered by blast
      with Waiting show ?thesis by simp
    qed (use stuck pool_step.work pool_step.put i alive w in \<open>blast+\<close>)
  qed
  then have stopped: "\<forall>w \<in> set (p_workers p). w = Stopped" by blast
  then have "stopped_workers p = n"
    using inv by (simp add: stopped_workers_def pool_inv_def filter_True)
  with inv n have k: "k = length js + n" by (simp add: pool_inv_def)
  have "sum_list (map (holding exec) (p_workers p)) = {#}"
    unfolding none_holding using stopped by (auto simp: holding_def)
  then have len: "length (p_output p) + length (p_taken p) = length js"
    using inv k by (simp add: pool_inv_def in_flight_def)
  have "p_output p = []"
  proof (rule ccontr)
    assume "p_output p \<noteq> []"
    then obtain j rest where out: "p_output p = j # rest" by (cases "p_output p") auto
    have "p_pending p + length (p_taken p) = length js" using inv by (simp add: pool_inv_def)
    then have "p_pending p \<noteq> 0" using len out by simp
    then obtain m where "p_pending p = Suc m" by (cases "p_pending p") auto
    with stuck pool_step.get [OF unsent Inr _ out] show False by blast
  qed
  then have "p_pending p = 0" using len inv by (simp add: pool_inv_def)
  then show ?thesis using unsent stopped Inr by (auto simp: all_done_def list_all_iff)
qed simp

text \<open>At the end every job is accounted for and no worker is dead.\<close>

lemma done_taken:
  assumes inv: "pool_inv exec recording n js k p" and fin: "all_done p"
  shows "length (p_taken p) = length js"
    and "\<forall>w \<in> set (p_workers p). w = Stopped"
    and "in_flight exec p = image_mset Inr (mset (p_taken p))"
    and "min k (length js) = length js"
proof -
  show len: "length (p_taken p) = length js"
    using inv fin by (simp add: pool_inv_def all_done_def)
  let ?held = "sum_list (map (holding exec) (p_workers p))"
  have "size ?held + length (p_output p) + length (p_taken p) \<le> length js"
    using inv by (auto simp: pool_inv_def in_flight_def)
  then have empty: "?held = {#}" "p_output p = []" using len by simp_all
  show "in_flight exec p = image_mset Inr (mset (p_taken p))"
    using empty by (simp add: in_flight_def)
  then show "min k (length js) = length js"
    using inv len by (auto simp: pool_inv_def)
  have none: "holding exec w = {#}" if "w \<in> set (p_workers p)" for w
    using empty(1) that unfolding none_holding by blast
  show "\<forall>w \<in> set (p_workers p). w = Stopped"
  proof
    fix w
    assume w: "w \<in> set (p_workers p)"
    then have "case w of Stopped \<Rightarrow> True | Died e \<Rightarrow> True | _ \<Rightarrow> False"
      using fin by (simp add: all_done_def list_all_iff)
    with none [OF w] show "w = Stopped" by (cases w) (simp_all add: holding_def)
  qed
qed

text \<open>If no collected job is broken, the collected jobs are the outcomes of all jobs.\<close>

lemma taken_outcomes:
  assumes inv: "pool_inv exec recording n js k p" and fin: "all_done p"
    and whole: "\<forall>j \<in> set (p_taken p). \<not> is_break j"
  shows "image_mset Inr (mset (p_taken p)) = image_mset (outcome_of exec) (mset js)"
proof -
  note d = done_taken [OF inv fin]
  have "take k js = js" using d(4) by simp
  moreover have "filter_mset (\<lambda>r. \<not> broken r) (in_flight exec p) = in_flight exec p"
    using whole by (simp add: d(3) broken_def filter_mset_eq_conv)
  ultimately have "image_mset Inr (mset (p_taken p)) \<subseteq># image_mset (outcome_of exec) (mset js)"
    using inv d(3) by (simp add: pool_inv_def)
  then show ?thesis
    by (rule subset_mset_size_eq) (use d(1) in simp)
qed

end

section \<open>Termination\<close>

fun worker_weight :: "worker \<Rightarrow> nat" where
  "worker_weight (Running j) = 3"
| "worker_weight (Returning j) = 2"
| "worker_weight _ = 0"

definition pool_measure :: "pool \<Rightarrow> nat" where
  "pool_measure p =
     6 * length (p_unsent p) + 5 * length (p_input p) + sum_list (map worker_weight (p_workers p)) +
     length (p_output p) + (if p_exit p then 0 else 1)"

lemma weight_update:
  assumes "i < length (p_workers p)" "worker_weight w < worker_weight (p_workers p ! i) + m"
  shows "sum_list (map worker_weight ((p_workers p)[i := w])) < sum_list (map worker_weight (p_workers p)) + m"
  using sum_list_update [OF assms(1), of worker_weight w] assms(2) by simp

lemma step_measure:
  assumes "pool_step exec recording p q"
  shows "pool_measure q < pool_measure p"
  using assms
proof cases
  case (take i j rest)
  have "worker_weight (receive (p_exit p) j) < worker_weight (p_workers p ! i) + 5"
    by (simp add: receive_def)
  from weight_update [OF take(2) this] take show ?thesis by (simp add: pool_measure_def)
next
  case (work i j)
  have "worker_weight (finished (exec j)) < worker_weight (p_workers p ! i) + 0"
    using work by (simp add: finished_def split: sum.splits)
  from weight_update [OF work(2) this] work show ?thesis by (simp add: pool_measure_def)
next
  case (put i j)
  have "sum_list (map worker_weight ((p_workers p)[i := Waiting])) + 2 = sum_list (map worker_weight (p_workers p))"
    using sum_list_update [OF put(2), of worker_weight Waiting] put(3) by simp
  then show ?thesis using put by (simp add: pool_measure_def)
qed (simp_all add: pool_measure_def)

lemma steps_measure:
  "pool_steps exec recording m p q \<Longrightarrow> pool_measure q + m \<le> pool_measure p"
  by (induction rule: pool_steps.induct) (use step_measure in \<open>fastforce+\<close>)

lemma start_measure: "pool_measure (start_pool n js) = 6 * (length js + n) + 1"
  by (induction n) (simp_all add: pool_measure_def start_pool_def)

section \<open>Dead workers\<close>

lemma no_dead_worker:
  assumes inv: "pool_inv exec recording n js k p"
    and start: "\<forall>j \<in> set js. \<exists>j'. outcome_of exec j = Inr j'"
  shows "\<forall>w \<in> set (p_workers p). \<forall>e. w \<noteq> Died e"
proof (intro ballI allI notI)
  fix w e
  assume "w \<in> set (p_workers p)" and w: "w = Died e"
  then have "Inl e \<in># in_flight exec p"
    by (force simp: in_flight_def in_sum_list_holding holding_def)
  then have "Inl e \<in># filter_mset (\<lambda>r. \<not> broken r) (in_flight exec p)"
    by (simp add: broken_def)
  moreover have "filter_mset (\<lambda>r. \<not> broken r) (in_flight exec p) \<subseteq># image_mset (outcome_of exec) (mset (take k js))"
    using inv by (simp add: pool_inv_def)
  ultimately have "Inl e \<in># image_mset (outcome_of exec) (mset (take k js))"
    by (rule mset_subset_eqD [rotated])
  then obtain j where "j \<in> set js" "outcome_of exec j = Inl e"
    by (auto dest: in_set_takeD)
  with start show False by fastforce
qed

lemma other_worker:
  "i < length ws \<Longrightarrow> w \<in> set ws \<Longrightarrow> ws ! i \<noteq> w \<Longrightarrow> w \<in> set (ws[i := v])"
  by (metis in_set_conv_nth length_list_update nth_list_update_neq)

lemma dead_stays:
  "pool_step exec recording p q \<Longrightarrow> Died e \<in> set (p_workers p) \<Longrightarrow> Died e \<in> set (p_workers q)"
  by (erule pool_stepE) (simp_all add: other_worker)

lemma dead_stays_steps:
  "pool_steps exec recording n p q \<Longrightarrow> Died e \<in> set (p_workers p) \<Longrightarrow> Died e \<in> set (p_workers q)"
  by (induction rule: pool_steps.induct) (simp_all add: dead_stays)

lemma pool_steps_trans:
  "pool_steps exec recording n q r \<Longrightarrow> pool_steps exec recording m p q \<Longrightarrow> pool_steps exec recording (m + n) p r"
  by (induction rule: pool_steps.induct) (auto intro: pool_steps.more)

section \<open>One job on one thread\<close>

definition one_state :: "job list \<Rightarrow> job list \<Rightarrow> worker \<Rightarrow> job list \<Rightarrow> job list \<Rightarrow> tally res \<Rightarrow> pool" where
  "one_state unsent inp w out got res =
     \<lparr>p_unsent = unsent, p_input = inp, p_workers = [w], p_output = out, p_exit = False,
      p_pending = 1 - length got, p_taken = got, p_tally = res\<rparr>"

lemma one_started:
  assumes "\<not> is_break j" and "\<not> is_skip j"
  shows "pool_steps exec recording 3 (start_pool 1 [j]) (one_state [] [break_job] (Running j) [] [] (Inr start_tally))"
proof -
  have a: "pool_steps exec recording 1 (start_pool 1 [j])
      (one_state [break_job] [j] Waiting [] [] (Inr start_tally))"
    using pool_steps.more [OF pool_steps.none pool_step.send, of "start_pool 1 [j]" j "[break_job]" exec recording]
    by (simp add: start_pool_def one_state_def)
  have b: "pool_steps exec recording 2 (start_pool 1 [j])
      (one_state [] [j, break_job] Waiting [] [] (Inr start_tally))"
    using pool_steps.more [OF a pool_step.send, of break_job "[]"]
    by (simp add: one_state_def numeral_2_eq_2)
  show ?thesis
    using pool_steps.more [OF b pool_step.take, of 0 j "[break_job]"] assms
    by (simp add: one_state_def receive_def numeral_3_eq_3 numeral_2_eq_2)
qed

lemma one_finished:
  assumes "\<not> is_break j" and "\<not> is_skip j" and e: "exec j = Inr j'" and r: "recording j' start_tally = Inr s"
  shows "pool_steps exec recording 7 (start_pool 1 [j]) (one_state [] [] Stopped [] [j'] (Inr s))"
proof -
  note a = one_started [OF assms(1,2), of exec recording]
  have b: "pool_steps exec recording 4 (start_pool 1 [j])
      (one_state [] [break_job] (Returning j') [] [] (Inr start_tally))"
    using pool_steps.more [OF a pool_step.work, of 0 j] e by (simp add: one_state_def finished_def)
  have c: "pool_steps exec recording 5 (start_pool 1 [j])
      (one_state [] [break_job] Waiting [j'] [] (Inr start_tally))"
    using pool_steps.more [OF b pool_step.put, of 0 j'] by (simp add: one_state_def)
  have d: "pool_steps exec recording 6 (start_pool 1 [j])
      (one_state [] [break_job] Waiting [] [j'] (Inr s))"
    using pool_steps.more [OF c pool_step.get, of start_tally 0 j' "[]"] r by (simp add: one_state_def)
  show ?thesis
    using pool_steps.more [OF d pool_step.take, of 0 break_job "[]"]
    by (simp add: one_state_def receive_def break_job_def)
qed

lemma one_died:
  assumes "\<not> is_break j" and "\<not> is_skip j" and e: "exec j = Inl e"
  shows "pool_steps exec recording 4 (start_pool 1 [j]) (one_state [] [break_job] (Died e) [] [] (Inr start_tally))"
  using pool_steps.more [OF one_started [OF assms(1,2), of exec recording] pool_step.work, of 0 j] e
  by (simp add: one_state_def finished_def)

section \<open>The order of the results\<close>

lemma log_of_steps: "pool_steps exec recording n p q \<Longrightarrow> \<exists>ds. pool_log exec recording ds p q"
  by (induction rule: pool_steps.induct) (auto intro: pool_log.intros)

lemma steps_of_log: "pool_log exec recording ds p q \<Longrightarrow> \<exists>n. pool_steps exec recording n p q"
  by (induction rule: pool_log.induct) (auto intro: pool_steps.intros)

text \<open>The main thread takes the results in the order in which they were handed over.\<close>

lemma log_taken: "pool_log exec recording ds p q \<Longrightarrow> p_taken q @ p_output q = p_taken p @ p_output p @ ds"
proof (induction rule: pool_log.induct)
  case (more_log ds p q r)
  have "p_taken r @ p_output r = p_taken q @ p_output q @ put_result q r"
    using more_log.hyps(2) by (cases rule: pool_step.cases) (simp_all add: put_result_def)
  then show ?case using more_log.IH by simp
qed simp

end
