(* ===== verification/TestRunner.thy ===== *)
theory TestRunner
  imports TestPool
begin

text \<open>
  \<open>test.py\<close>: the whole run of the tests, from the options to the exit code and the reports.

  \<open>plan_tests\<close> is the run up to the jobs, \<open>test_run\<close> the runs of the thread pool on them (the locale of
  \<open>TestPool\<close> is interpreted on \<open>run_job\<close>), \<open>finish\<close> what follows when the threads are joined.
\<close>

section \<open>The end of the run\<close>

record test_end =
  e_code :: int
  e_summary :: string
  e_xml :: string
  e_html_report :: "string option"
  e_text_report :: "string option"
  e_tempdir_removed :: bool

definition summary_line :: "nat \<Rightarrow> tally \<Rightarrow> string" where
  "summary_line n s =
     show_nat (passed_tests s) @ '' of '' @ show_nat n @ '' tests passed ('' @
     show_nat (passed_tests s) @ '' passed, '' @ show_nat (skipped_tests s) @ '' skipped, '' @
     show_nat (failed_tests s) @ '' failed, '' @ show_nat (crashed_tests s) @ '' crashed, '' @
     show_nat (valgrind_errors s) @ '' valgrind errors)''"

definition exit_code :: "nat \<Rightarrow> tally \<Rightarrow> int" where
  "exit_code n s = (if passed_tests s + skipped_tests s = n then 0 else 1)"

definition all_results :: "tally \<Rightarrow> string" where
  "all_results s = xml_results s @ ''</Results>'' @ nl"

definition finish :: "topts \<Rightarrow> nat \<Rightarrow> tally \<Rightarrow> test_end res" where
  "finish opts n s =
     bindE (if o_html opts \<noteq> [] then bindE (translate_to_html (all_results s)) (\<lambda>h. Inr (Some h)) else Inr None) (\<lambda>html.
     bindE (if o_text opts \<noteq> [] then bindE (translate_to_text (all_results s)) (\<lambda>t. Inr (Some t)) else Inr None) (\<lambda>txt.
       Inr \<lparr>e_code = exit_code n s, e_summary = summary_line n s, e_xml = all_results s, e_html_report = html,
            e_text_report = txt, e_tempdir_removed = \<not> o_retain opts\<rparr>))"

text \<open>From the start to the jobs: \<open>Exit code\<close> when the run ends before any test.\<close>

datatype plan = Exit int | Run "job list"

definition plan_tests ::
  "tconf \<Rightarrow> topts \<Rightarrow> int \<Rightarrow> shell \<Rightarrow> (string \<Rightarrow> pyval res) \<Rightarrow> (pyval \<Rightarrow> bool res) \<Rightarrow>
     (string \<rightharpoonup> string) \<Rightarrow> (string \<Rightarrow> bool) \<Rightarrow> string \<Rightarrow> plan res" where
  "plan_tests c opts waf shell eval condition files exists tempdir =
     (if \<not> o_nowaf opts \<and> waf \<noteq> 0 then Inr (Exit waf)
      else bindE (find_runnable c eval files exists) (\<lambda>r.
        if o_kinds opts \<or> o_list opts
        then bindE (if o_kinds opts then ask_runner c shell '' --print-test-type-list'' else Inr []) (\<lambda>kinds.
             bindE (if o_list opts
                    then ask_runner c shell ('' --print-test-name-list --print-test-types'' @
                           (if o_constrain opts \<noteq> [] then '' --test-type='' @ o_constrain opts else []))
                    else Inr []) (\<lambda>names. Inr (Exit 0)))
        else bindE (all_jobs c opts shell condition tempdir r) (\<lambda>jobs. Inr (Run jobs))))"

section \<open>What is counted\<close>

definition with_status :: "string \<Rightarrow> job list \<Rightarrow> nat" where
  "with_status status js = length (filter (\<lambda>j. \<not> is_break j \<and> job_status j = status) js)"

lemma job_status_cases: "job_status j \<in> {''SKIP'', ''PASS'', ''FAIL'', ''VALGR'', ''CRASH''}"
  by (simp add: job_status_def)

lemma collect_counts:
  assumes "collect opts tmp j s = Inr s'"
  shows "passed_tests s' = passed_tests s + with_status ''PASS'' [j]"
    "skipped_tests s' = skipped_tests s + with_status ''SKIP'' [j]"
    "failed_tests s' = failed_tests s + with_status ''FAIL'' [j]"
    "valgrind_errors s' = valgrind_errors s + with_status ''VALGR'' [j]"
    "crashed_tests s' = crashed_tests s + with_status ''CRASH'' [j]"
  using assms job_status_cases [of j]
  by (auto simp: collect_def with_status_def count_status_def bindE_Inr_iff Let_def split: if_splits)

lemma with_status_Cons: "with_status st (j # js) = with_status st [j] + with_status st js"
  by (simp add: with_status_def)

lemma tally_counts:
  assumes "foldE (collect opts tmp) js s = Inr s'"
  shows "passed_tests s' = passed_tests s + with_status ''PASS'' js \<and>
    skipped_tests s' = skipped_tests s + with_status ''SKIP'' js \<and>
    failed_tests s' = failed_tests s + with_status ''FAIL'' js \<and>
    valgrind_errors s' = valgrind_errors s + with_status ''VALGR'' js \<and>
    crashed_tests s' = crashed_tests s + with_status ''CRASH'' js"
  using assms
proof (induction js arbitrary: s)
  case Nil
  then show ?case by (simp add: with_status_def)
next
  case (Cons j js)
  then obtain t where t: "collect opts tmp j s = Inr t" "foldE (collect opts tmp) js t = Inr s'"
    by (auto simp: bindE_Inr_iff)
  from Cons.IH [OF t(2)] collect_counts [OF t(1)] show ?case
    by (simp add: with_status_Cons [of _ j js])
qed

lemma tally_xml:
  assumes "foldE (collect opts tmp) js s = Inr s'" and "\<forall>j \<in> set js. \<not> is_break j"
  shows "\<exists>entries. mapE (result_entry tmp) js = Inr entries \<and> xml_results s' = xml_results s @ concat entries"
  using assms
proof (induction js arbitrary: s)
  case (Cons j js)
  then obtain t where t: "collect opts tmp j s = Inr t" "foldE (collect opts tmp) js t = Inr s'"
    by (auto simp: bindE_Inr_iff)
  from t(1) Cons.prems(2) obtain e where e: "result_entry tmp j = Inr e" "xml_results t = xml_results s @ e"
    by (auto simp: collect_def bindE_Inr_iff Let_def count_status_def)
  from Cons.IH [OF t(2)] Cons.prems(2) e show ?case by fastforce
qed simp

lemma with_status_le: "with_status ''PASS'' js + with_status ''SKIP'' js \<le> length js"
  by (induction js) (auto simp: with_status_def)

lemma all_passed:
  "with_status ''PASS'' js + with_status ''SKIP'' js = length js \<longleftrightarrow>
     (\<forall>j \<in> set js. \<not> is_break j \<and> job_status j \<in> {''PASS'', ''SKIP''})"
proof (induction js)
  case Nil
  then show ?case by (simp add: with_status_def)
next
  case (Cons j js)
  show ?case
    using Cons with_status_le [of js] by (auto simp: with_status_def split: if_splits)
qed

lemma with_status_mset: "mset js = mset js' \<Longrightarrow> with_status st js = with_status st js'"
  unfolding with_status_def by (metis mset_filter size_mset)

section \<open>The runner of the program\<close>

interpretation test_job: job_runner "run_job c opts shell" for c opts shell
proof
  fix j j'
  assume e: "run_job c opts shell j = Inr j'"
  show "is_break j' = is_break j" "is_skip j' = is_skip j"
    using e by (auto simp: run_job_def bindE_Inr_iff split: if_splits prod.splits)
qed

text \<open>A run of the test program: its pool after \<open>m\<close> steps.\<close>

definition test_run ::
  "tconf \<Rightarrow> topts \<Rightarrow> shell \<Rightarrow> (string \<rightharpoonup> string) \<Rightarrow> job list \<Rightarrow> nat \<Rightarrow> pool \<Rightarrow> bool" where
  "test_run c opts shell tmp js m p \<longleftrightarrow>
     pool_steps (run_job c opts shell) (collect opts tmp) m (start_pool (c_processors c) js) p"

text \<open>The same with the jobs in the order of their completion.\<close>

definition test_run_log ::
  "tconf \<Rightarrow> topts \<Rightarrow> shell \<Rightarrow> (string \<rightharpoonup> string) \<Rightarrow> job list \<Rightarrow> job list \<Rightarrow> pool \<Rightarrow> bool" where
  "test_run_log c opts shell tmp js ds p \<longleftrightarrow>
     pool_log (run_job c opts shell) (collect opts tmp) ds (start_pool (c_processors c) js) p"

lemma test_run_of_log: "test_run_log c opts shell tmp js ds p \<Longrightarrow> \<exists>m. test_run c opts shell tmp js m p"
  by (simp add: test_run_log_def test_run_def steps_of_log)

lemma test_run_has_log: "test_run c opts shell tmp js m p \<Longrightarrow> \<exists>ds. test_run_log c opts shell tmp js ds p"
  by (simp add: test_run_log_def test_run_def log_of_steps)

definition test_outcome :: "tconf \<Rightarrow> topts \<Rightarrow> shell \<Rightarrow> job \<Rightarrow> job res" where
  "test_outcome c opts shell = outcome_of (run_job c opts shell)"

lemma test_run_inv:
  assumes "test_run c opts shell tmp js m p" and "\<forall>j \<in> set js. \<not> is_break j"
  shows "\<exists>k. pool_inv (run_job c opts shell) (collect opts tmp) (c_processors c) js k p"
  using test_job.steps_inv assms by (auto simp: test_run_def)

text \<open>No job that is built is the signal to stop.\<close>

lemma concat_mapE_all:
  assumes "concat_mapE f xs = Inr zs" and "\<And>x ys. f x = Inr ys \<Longrightarrow> list_all P ys"
  shows "list_all P zs"
  using assms(1)
proof (induction xs arbitrary: zs)
  case (Cons x xs)
  then obtain y ys where "f x = Inr y" "mapE f xs = Inr ys" "zs = y @ concat ys"
    by (auto simp: concat_mapE_def bindE_Inr_iff)
  then show ?case using Cons.IH [of "concat ys"] assms(2) by (simp add: concat_mapE_def)
qed (simp add: concat_mapE_def)

lemma new_job_no_break [simp]: "\<not> is_break new_job"
  by (simp add: new_job_def)

lemma program_job_no_break [simp]: "\<not> is_break (program_job c tempdir command path)"
  by (simp add: program_job_def)

lemma listed_no_break:
  "listed_example c opts condition tempdir programs e = Inr ys \<Longrightarrow> list_all (\<lambda>j. \<not> is_break j) ys"
  "listed_script c opts condition tempdir scripts s = Inr ys \<Longrightarrow> list_all (\<lambda>j. \<not> is_break j) ys"
  by (auto simp: listed_example_def listed_script_def bindE_Inr_iff split: if_splits prod.splits)

lemma jobs_no_break:
  assumes "all_jobs c opts shell condition tempdir r = Inr js"
  shows "\<forall>j \<in> set js. \<not> is_break j"
proof -
  obtain programs scripts ex where r: "r = (programs, scripts, ex)" by (cases r)
  obtain suites es ps where js: "js = suite_jobs c opts tempdir suites @ es @ ps"
    and es: "example_jobs c opts condition tempdir programs ex = Inr es"
    and ps: "pyexample_jobs c opts condition tempdir scripts ex = Inr ps"
    using assms by (auto simp: all_jobs_def r bindE_Inr_iff)
  have "list_all (\<lambda>j. \<not> is_break j) (suite_jobs c opts tempdir suites)"
    by (simp add: suite_jobs_def suite_job_def list_all_iff)
  moreover have "list_all (\<lambda>j. \<not> is_break j) es"
    using es concat_mapE_all [OF _ listed_no_break(1)]
    by (auto simp: example_jobs_def split: if_splits option.splits)
  moreover have "list_all (\<lambda>j. \<not> is_break j) ps"
    using ps concat_mapE_all [OF _ listed_no_break(2)]
    by (auto simp: pyexample_jobs_def bindE_Inr_iff split: if_splits)
  ultimately show ?thesis by (auto simp: js list_all_iff)
qed

section \<open>The end of every run\<close>

text \<open>Jobs that can all be started: no worker dies.\<close>

definition startable :: "tconf \<Rightarrow> topts \<Rightarrow> shell \<Rightarrow> job list \<Rightarrow> bool" where
  "startable c opts shell js \<longleftrightarrow>
     list_all (\<lambda>j. is_skip j \<or> (case run_job c opts shell j of Inl e \<Rightarrow> False | Inr j' \<Rightarrow> True)) js"

section \<open>The entries of the results file as XML\<close>

lemma fixed_plain: "plain_value (fmt_fixed 3 x)"
proof -
  have "plain_value (show_nat n)" "plain_value (pad_zeros 3 (show_nat n))" for n
    using show_nat_is_digit pad_zeros_digit by (blast intro: digits_plain)+
  moreover have "plain_value ''.''" "plain_value ''-''" "plain_value ''inf''" "plain_value ''-inf''" "plain_value ''nan''"
    by (simp_all add: plain_value_def xml_char_def)
  moreover have "fmt_decimal 3 n = show_nat (n div 1000) @ ''.'' @ pad_zeros 3 (show_nat (n mod 1000))" for n
    by (simp add: fmt_decimal_def)
  ultimately show ?thesis by (cases x) (simp_all add: plain_value_def)
qed

lemma blanks_fragment [simp]: "xml_fragment nl = Inr []" "xml_fragment ''  '' = Inr []"
  using plain_fragment [OF nl_plain] plain_fragment [of "''  ''"] by (simp_all add: plain_def xml_char_def)

lemma names [simp]:
  "xml_name ''Test''" "xml_name ''Example''" "xml_name ''Name''" "xml_name ''Result''" "xml_name ''Time''"
  "xml_name ''real''" "xml_name ''Results''" "xml_name ''Suite''"
  by (simp_all add: xml_name_def name_char_def name_start_def)

lemma status_plain [simp]: "plain (job_status j)"
  by (simp add: job_status_def plain_def xml_char_def)

lemma status_text [simp]: "text_of (job_status j) = Some (job_status j)"
  by (simp add: job_status_def text_of_def)

definition example_children :: "job \<Rightarrow> xml list" where
  "example_children j =
     [Elem ''Name'' [] (text_of (display_name j)) [], Elem ''Result'' [] (Some (job_status j)) [],
      Elem ''Time'' [(''real'', fmt_fixed 3 (elapsed_time j))] None []]"

lemma example_fragment:
  assumes "plain (display_name j)"
  shows "\<exists>t. xml_fragment (example_entry j) = Inr [Elem ''Example'' [] t (example_children j)]"
proof -
  let ?time = "''<Time real='' @ in_quotes (fmt_fixed 3 (elapsed_time j)) @ ''/>''"
  let ?inner = "nl @ ''  '' @ tagged ''Name'' (display_name j) @ nl @ ''  '' @ tagged ''Result'' (job_status j) @ nl @
    ''  '' @ ?time @ nl"
  have name: "xml_fragment (tagged ''Name'' (display_name j)) = Inr [Elem ''Name'' [] (text_of (display_name j)) []]"
    using text_fragment [of "''Name''", OF _ assms] by (simp add: tagged_def)
  have result: "xml_fragment (tagged ''Result'' (job_status j)) = Inr [Elem ''Result'' [] (Some (job_status j)) []]"
    using text_fragment [of "''Result''" "job_status j"] by (simp add: tagged_def)
  have time: "xml_fragment ?time = Inr [Elem ''Time'' [(''real'', fmt_fixed 3 (elapsed_time j))] None []]"
    using attribute_fragment [of "''Time''" "''real''", OF _ _ fixed_plain] by (simp add: in_quotes_def)
  have "xml_fragment ?inner = Inr ([] @ [] @ [Elem ''Name'' [] (text_of (display_name j)) []] @ [] @ [] @
      [Elem ''Result'' [] (Some (job_status j)) []] @ [] @ [] @
      [Elem ''Time'' [(''real'', fmt_fixed 3 (elapsed_time j))] None []] @ [])"
    by (intro fragment_append name result time blanks_fragment)
  then have "xml_fragment ?inner = Inr (example_children j)" by (simp add: example_children_def)
  from element_fragment [OF names(2) this]
  obtain t where "xml_fragment (''<Example>'' @ ?inner @ ''</Example>'') = Inr [Elem ''Example'' [] t (example_children j)]"
    by auto
  from fragment_append [OF this blanks_fragment(1)] show ?thesis
    by (auto simp: example_entry_def)
qed

definition skipped_children :: "job \<Rightarrow> xml list" where
  "skipped_children j =
     [Elem ''Name'' [] (text_of (display_name j)) [], Elem ''Result'' [] (Some ''SKIP'') []]"

lemma skipped_fragment:
  assumes "plain (display_name j)"
  shows "\<exists>t. xml_fragment (suite_entry j ''SKIP'' ''</Result>'') = Inr [Elem ''Test'' [] t (skipped_children j)]"
proof -
  let ?inner = "nl @ ''  '' @ tagged ''Name'' (display_name j) @ nl @ ''  '' @ tagged ''Result'' ''SKIP'' @ nl"
  have name: "xml_fragment (tagged ''Name'' (display_name j)) = Inr [Elem ''Name'' [] (text_of (display_name j)) []]"
    using text_fragment [of "''Name''", OF _ assms] by (simp add: tagged_def)
  have "plain ''SKIP''" by (simp add: plain_def xml_char_def)
  then have result: "xml_fragment (tagged ''Result'' ''SKIP'') = Inr [Elem ''Result'' [] (Some ''SKIP'') []]"
    using text_fragment [of "''Result''" "''SKIP''"] by (simp add: tagged_def text_of_def)
  have "xml_fragment ?inner = Inr ([] @ [] @ [Elem ''Name'' [] (text_of (display_name j)) []] @ [] @ [] @
      [Elem ''Result'' [] (Some ''SKIP'') []] @ [])"
    by (intro fragment_append name result blanks_fragment)
  then have "xml_fragment ?inner = Inr (skipped_children j)" by (simp add: skipped_children_def)
  from element_fragment [OF names(1) this]
  obtain t where "xml_fragment (''<Test>'' @ ?inner @ ''</Test>'') = Inr [Elem ''Test'' [] t (skipped_children j)]"
    by auto
  from fragment_append [OF this blanks_fragment(1)] show ?thesis
    by (auto simp: suite_entry_def tagged_def)
qed

text \<open>The entry of a crashed suite closes \<open>Result\<close> with the wrong tag.\<close>

lemma crash_run:
  assumes "plain (display_name j)"
  shows "xml_run (suite_entry j ''CRASH'' ''</Suite>'' @ rest) (content f fs r) = Inl parse_error"
proof -
  have p: "plain ''  ''" "plain ''CRASH''" by (simp_all add: plain_def xml_char_def)
  have eq: "suite_entry j ''CRASH'' ''</Suite>'' @ rest =
      (''<'' @ ''Test'' @ ''>'') @ nl @ ''  '' @ (''<'' @ ''Name'' @ ''>'') @ display_name j @ (''</'' @ ''Name'' @ ''>'') @
      nl @ ''  '' @ (''<'' @ ''Result'' @ ''>'') @ ''CRASH'' @ (''</'' @ ''Suite'' @ ''>'') @ (nl @ ''</Test>'' @ nl @ rest)"
    by (simp add: suite_entry_def tagged_def)
  have ne: "(''Result'' = ''Suite'') = False" by simp
  show ?thesis
    unfolding eq
    by (simp only: xml_run_append [of "''<'' @ ''Test'' @ ''>''"] xml_run_append [of nl] xml_run_append [of "''  ''"]
        xml_run_append [of "''<'' @ ''Name'' @ ''>''"] xml_run_append [of "display_name j"]
        xml_run_append [of "''</'' @ ''Name'' @ ''>''"] xml_run_append [of "''<'' @ ''Result'' @ ''>''"]
        xml_run_append [of "''CRASH''"] xml_run_append [of "''</'' @ ''Suite'' @ ''>''"]
        open_run [OF names(1)] open_run [OF names(3)] open_run [OF names(4)]
        close_run [OF names(3)] close_run [OF names(8)] bindE_simps plain_run [OF nl_plain] plain_run [OF p(1)]
        plain_run [OF p(2)] plain_run [OF assms] merge_tag frame.select_convs if_True if_False simp_thms ne)
qed

section \<open>The report of a run\<close>

definition crashed :: "job \<Rightarrow> bool" where
  "crashed j \<longleftrightarrow> \<not> is_program j \<and> \<not> is_skip j \<and> returncode j \<notin> {0, 1, 2}"

text \<open>The name needs no escaping, and the file of a suite that ran holds tests.\<close>

definition readable :: "(string \<rightharpoonup> string) \<Rightarrow> job \<Rightarrow> bool" where
  "readable tmp j \<longleftrightarrow> plain (display_name j) \<and>
     (is_program j \<or> is_skip j \<or> crashed j \<or>
      (case tmp (tmp_file_name j) of
         None \<Rightarrow> False
       | Some s \<Rightarrow> (case xml_fragment s of Inl e \<Rightarrow> False | Inr es \<Rightarrow> list_all (\<lambda>e. etag e = ''Test'') es)))"

definition example_report :: "job \<Rightarrow> string" where
  "example_report j =
     job_status j @ '': Example '' @ in_quotes (show_text (text_of (display_name j))) @
     '' ('' @ fmt_fixed 3 (elapsed_time j) @ '')'' @ nl"

definition skip_report :: "job \<Rightarrow> string" where
  "skip_report j = ''SKIP: Test Suite '' @ in_quotes (show_text (text_of (display_name j))) @ '' ()'' @ nl"

text \<open>What the file of a suite comes to on its own.\<close>

definition suite_report :: "(string \<rightharpoonup> string) \<Rightarrow> job \<Rightarrow> string res" where
  "suite_report tmp j =
     (if is_skip j then Inr (skip_report j)
      else bindE (of_option (FileNotFoundError (tmp_file_name j)) (tmp (tmp_file_name j))) (\<lambda>s.
           bindE (xml_fragment s) (\<lambda>es. bindE (mapE node_to_text es) (\<lambda>ts. Inr (concat ts)))))"

definition job_report :: "(string \<rightharpoonup> string) \<Rightarrow> job list \<Rightarrow> string res" where
  "job_report tmp js =
     bindE (mapE (suite_report tmp) (filter (\<lambda>j. \<not> is_program j) js)) (\<lambda>ts.
       Inr (concat ts @ concat (map example_report (filter is_program js))))"

lemma find_simps [simp]:
  "find_first tag (Elem n as t (k # ks)) = (if etag k = tag then Some k else find_first tag (Elem n as t ks))"
  "find_first tag (Elem n as t []) = None"
  "find_all tag (Elem n as t (k # ks)) = (if etag k = tag then k # find_all tag (Elem n as t ks) else find_all tag (Elem n as t ks))"
  "find_all tag (Elem n as t []) = []"
  by (simp_all add: find_first_def find_all_def)

lemma example_read:
  "example_text (Elem ''Example'' as t (example_children j)) = Inr (example_report j)"
  by (simp add: example_text_def read_test_def child_text_def time_real_def example_children_def
      example_line_def example_report_def show_text_def)

lemma skipped_read:
  "node_to_text (Elem ''Test'' as t (skipped_children j)) = Inr (skip_report j)"
  by (simp add: node_to_text.simps read_test_def child_text_def time_real_def skipped_children_def
      suite_line_def skip_report_def show_text_def)

text \<open>The elements of one result, and what the report makes of them.\<close>

lemma entry_report:
  assumes r: "readable tmp j" and c: "\<not> crashed j"
  shows "\<exists>e es. result_entry tmp j = Inr e \<and> xml_fragment e = Inr es \<and>
           bindE (mapE node_to_text (filter (\<lambda>x. etag x = ''Test'') es)) (\<lambda>ts. Inr (concat ts)) =
             (if is_program j then Inr [] else suite_report tmp j) \<and>
           mapE example_text (filter (\<lambda>x. etag x = ''Example'') es) =
             Inr (if is_program j then [example_report j] else [])"
proof -
  have plain: "plain (display_name j)" using r by (simp add: readable_def)
  consider (program) "is_program j" | (skip) "\<not> is_program j" "is_skip j" | (ran) "\<not> is_program j" "\<not> is_skip j"
    by blast
  then show ?thesis
  proof cases
    case program
    obtain t where "xml_fragment (example_entry j) = Inr [Elem ''Example'' [] t (example_children j)]"
      using example_fragment [OF plain] by blast
    then show ?thesis using program by (simp add: result_entry_def example_read)
  next
    case skip
    obtain t where "xml_fragment (suite_entry j ''SKIP'' ''</Result>'') = Inr [Elem ''Test'' [] t (skipped_children j)]"
      using skipped_fragment [OF plain] by blast
    then show ?thesis using skip by (simp add: result_entry_def skipped_read suite_report_def)
  next
    case ran
    then have rc: "returncode j \<in> {0, 1, 2}" using c by (simp add: crashed_def)
    obtain s es where s: "tmp (tmp_file_name j) = Some s" "xml_fragment s = Inr es"
      "\<forall>e \<in> set es. etag e = ''Test''"
      using r ran c by (auto simp: readable_def list_all_iff split: option.splits sum.splits)
    then have "filter (\<lambda>x. etag x = ''Test'') es = es" "filter (\<lambda>x. etag x = ''Example'') es = []"
      by (auto simp: filter_empty_conv)
    then show ?thesis using ran rc s by (auto simp: result_entry_def suite_report_def)
  qed
qed

lemma bindE_concat_append:
  "bindE (mapE f (xs @ ys)) (\<lambda>ts. Inr (concat ts)) =
     bindE (bindE (mapE f xs) (\<lambda>ts. Inr (concat ts))) (\<lambda>a.
       bindE (bindE (mapE f ys) (\<lambda>ts. Inr (concat ts))) (\<lambda>b. Inr (a @ b)))"
  by (cases "mapE f xs"; cases "mapE f ys") (simp_all add: mapE_append)

lemma entries_report:
  assumes "\<forall>j \<in> set js. readable tmp j \<and> \<not> crashed j"
  shows "\<exists>entries es. mapE (result_entry tmp) js = Inr entries \<and> xml_fragment (concat entries) = Inr es \<and>
           bindE (mapE node_to_text (filter (\<lambda>x. etag x = ''Test'') es)) (\<lambda>ts. Inr (concat ts)) =
             bindE (mapE (suite_report tmp) (filter (\<lambda>j. \<not> is_program j) js)) (\<lambda>ts. Inr (concat ts)) \<and>
           mapE example_text (filter (\<lambda>x. etag x = ''Example'') es) = Inr (map example_report (filter is_program js))"
  using assms
proof (induction js)
  case Nil
  then show ?case by (simp add: fragment_Nil)
next
  case (Cons j js)
  obtain e fs where e: "result_entry tmp j = Inr e" "xml_fragment e = Inr fs"
    "bindE (mapE node_to_text (filter (\<lambda>x. etag x = ''Test'') fs)) (\<lambda>ts. Inr (concat ts)) =
       (if is_program j then Inr [] else suite_report tmp j)"
    "mapE example_text (filter (\<lambda>x. etag x = ''Example'') fs) = Inr (if is_program j then [example_report j] else [])"
    using entry_report [of tmp j] Cons.prems by fastforce
  obtain entries es where es: "mapE (result_entry tmp) js = Inr entries" "xml_fragment (concat entries) = Inr es"
    "bindE (mapE node_to_text (filter (\<lambda>x. etag x = ''Test'') es)) (\<lambda>ts. Inr (concat ts)) =
       bindE (mapE (suite_report tmp) (filter (\<lambda>j. \<not> is_program j) js)) (\<lambda>ts. Inr (concat ts))"
    "mapE example_text (filter (\<lambda>x. etag x = ''Example'') es) = Inr (map example_report (filter is_program js))"
    using Cons by fastforce
  have tests: "bindE (mapE node_to_text (filter (\<lambda>x. etag x = ''Test'') (fs @ es))) (\<lambda>ts. Inr (concat ts)) =
      bindE (mapE (suite_report tmp) (filter (\<lambda>j. \<not> is_program j) (j # js))) (\<lambda>ts. Inr (concat ts))"
    unfolding filter_append bindE_concat_append e(3) es(3)
    by (cases "is_program j"; cases "suite_report tmp j";
        cases "mapE (suite_report tmp) (filter (\<lambda>j. \<not> is_program j) js)") simp_all
  show ?case
    using e es tests by (auto simp: fragment_append mapE_append)
qed

lemma results_parse:
  assumes "xml_fragment (concat entries) = Inr es" and "xml_results s = xml_results start_tally @ concat entries"
  shows "\<exists>t. xml_parse (all_results s) = Inr (Elem ''Results'' [] t es)"
proof -
  have "xml_fragment (nl @ concat entries) = Inr es"
    using fragment_append [OF blanks_fragment(1) assms(1)] by simp
  from document_parse [OF names(7) this] show ?thesis
    by (simp add: all_results_def assms(2) start_tally_def)
qed

lemma text_report_entries:
  assumes js: "\<forall>j \<in> set js. readable tmp j \<and> \<not> crashed j \<and> \<not> is_break j"
    and s: "foldE (collect opts tmp) js start_tally = Inr s"
  shows "translate_to_text (all_results s) = job_report tmp js"
proof -
  obtain entries es where es: "mapE (result_entry tmp) js = Inr entries" "xml_fragment (concat entries) = Inr es"
    "bindE (mapE node_to_text (filter (\<lambda>x. etag x = ''Test'') es)) (\<lambda>ts. Inr (concat ts)) =
       bindE (mapE (suite_report tmp) (filter (\<lambda>j. \<not> is_program j) js)) (\<lambda>ts. Inr (concat ts))"
    "mapE example_text (filter (\<lambda>x. etag x = ''Example'') es) = Inr (map example_report (filter is_program js))"
    using entries_report [of js tmp] js by blast
  have "xml_results s = xml_results start_tally @ concat entries"
    using tally_xml [OF s] js es(1) by auto
  from results_parse [OF es(2) this]
  obtain t where "xml_parse (all_results s) = Inr (Elem ''Results'' [] t es)" by blast
  then show ?thesis
    using es(3,4) unfolding translate_to_text_def job_report_def find_all_def
    by (cases "mapE node_to_text (filter (\<lambda>x. etag x = ''Test'') es)";
        cases "mapE (suite_report tmp) (filter (\<lambda>j. \<not> is_program j) js)") auto
qed

lemma crash_entries:
  assumes js: "\<forall>j \<in> set js. readable tmp j \<and> \<not> is_break j" and crash: "\<exists>j \<in> set js. crashed j"
    and s: "foldE (collect opts tmp) js start_tally = Inr s"
  shows "xml_parse (all_results s) = Inl parse_error"
proof -
  obtain a j b where split: "js = a @ j # b" "crashed j" "\<forall>i \<in> set a. \<not> crashed i"
    using split_list_first_prop [OF crash] by blast
  obtain entries where entries: "mapE (result_entry tmp) js = Inr entries"
    "xml_results s = xml_results start_tally @ concat entries"
    using tally_xml [OF s] js by auto
  obtain xs es where xs: "mapE (result_entry tmp) a = Inr xs" "xml_fragment (concat xs) = Inr es"
    using entries_report [of a tmp] js split by auto
  have j: "result_entry tmp j = Inr (suite_entry j ''CRASH'' ''</Suite>'')"
    using split(2) by (auto simp: crashed_def result_entry_def)
  obtain ys where ys: "entries = xs @ suite_entry j ''CRASH'' ''</Suite>'' # ys"
    using entries(1) xs(1) j by (auto simp: split(1) mapE_append bindE_Inr_iff)
  have "xml_fragment (nl @ concat xs) = Inr es"
    using fragment_append [OF blanks_fragment(1) xs(2)] by simp
  moreover have "plain (display_name j)" using js split(1) by (simp add: readable_def)
  ultimately have "xml_parse (xml_header @ (''<'' @ ''Results'' @ ''>'') @ (nl @ concat xs) @
      suite_entry j ''CRASH'' ''</Suite>'' @ (concat ys @ ''</Results>'' @ nl)) = Inl parse_error"
    using crash_run [of j "[]"] by (intro document_fails [OF names(7)]) auto
  then show ?thesis
    by (simp add: all_results_def entries(2) ys start_tally_def)
qed

lemma finish_crashed:
  assumes "xml_parse (all_results s) = Inl e" and "o_html opts \<noteq> [] \<or> o_text opts \<noteq> []"
  shows "finish opts n s = Inl e"
  using reports_fail_together [OF assms(1)] assms(2) by (auto simp: finish_def)

text \<open>A finished run: what the main thread has collected, without an interrupt.\<close>

lemma finished_run:
  assumes run: "test_run c opts shell tmp js m p" and js: "\<forall>j \<in> set js. \<not> is_break j"
    and fin: "all_done p" and s: "p_tally p = Inr s"
  shows "length (p_taken p) = length js" "foldE (collect opts tmp) (p_taken p) start_tally = Inr s"
    "(\<forall>j \<in> set (p_taken p). \<not> is_break j) \<Longrightarrow>
       image_mset Inr (mset (p_taken p)) = image_mset (test_outcome c opts shell) (mset js)"
    "\<not> p_exit p \<Longrightarrow> \<forall>j \<in> set (p_taken p). \<not> is_break j"
proof -
  obtain k where inv: "pool_inv (run_job c opts shell) (collect opts tmp) (c_processors c) js k p"
    using test_run_inv [OF run js] by blast
  note d = test_job.done_taken [OF inv fin]
  show "length (p_taken p) = length js" by (rule d(1))
  show "foldE (collect opts tmp) (p_taken p) start_tally = Inr s"
    using inv s by (simp add: pool_inv_def)
  show "(\<forall>j \<in> set (p_taken p). \<not> is_break j) \<Longrightarrow>
      image_mset Inr (mset (p_taken p)) = image_mset (test_outcome c opts shell) (mset js)"
    unfolding test_outcome_def by (rule test_job.taken_outcomes [OF inv fin])
  show "\<not> p_exit p \<Longrightarrow> \<forall>j \<in> set (p_taken p). \<not> is_break j"
    using inv d(3) by (auto simp: pool_inv_def broken_def)
qed

lemma taken_in_outcomes:
  assumes "image_mset Inr (mset done) = image_mset f (mset js)"
  shows "(\<forall>j \<in> set done. P j) \<longleftrightarrow> (\<forall>j \<in> set js. \<exists>j'. f j = Inr j' \<and> P j')"
proof -
  have "Inr ` set done = f ` set js"
    using arg_cong [OF assms, of set_mset] by simp
  then show ?thesis by (auto simp: image_iff set_eq_iff) (metis sum.inject(2) image_eqI)+
qed

section \<open>An example run\<close>

text \<open>One suite \<open>a\<close>, asked for by name, on one processor; \<open>res\<close> is the outcome of its process.\<close>

definition demo_conf :: tconf where
  "demo_conf =
     \<lparr>c_basedir = ''b'', c_builddir = ''d'', c_appname = ''ns'', c_version = ''3'', c_profile = ''release'',
      c_nsc = True, c_examples = True, c_bindings = True, c_example_dirs = [], c_modules = [],
      c_module_path = [], c_python = PyStr [], c_platform = ''linux'', c_processors = 1, c_cwd = ''/''\<rparr>"

definition demo_opts :: topts where
  "demo_opts = default_topts\<lparr>o_suite := ''a'', o_nowaf := True, o_text := ''r''\<rparr>"

definition demo_shell :: "outcome res \<Rightarrow> shell" where
  "demo_shell res command directory =
     (if has_infix ''print-test-name-list'' command
      then Inr (0, if has_infix ''performance'' command then [] else ''a'' @ nl, [], Fin 0)
      else res)"

definition demo_found :: "(string \<rightharpoonup> string) \<times> pyval \<times> examples" where
  "demo_found = (\<lambda>_. None, PyList [], \<lparr>example_tests = [], example_names = [], python_tests = []\<rparr>)"

definition demo_job :: job where
  "demo_job = suite_job demo_conf demo_opts ''t'' ''a''"

definition demo_file :: string where
  "demo_file =
     ''<Test>'' @ tagged ''Name'' ''a'' @ tagged ''Result'' ''PASS'' @
     ''<Time real='' @ in_quotes ''0.001'' @ '' user='' @ in_quotes ''0.000'' @ ''/>'' @ ''</Test>'' @ nl"

definition demo_tmp :: "string \<rightharpoonup> string" where
  "demo_tmp = [''t/a.xml'' \<mapsto> demo_file]"

lemma demo_opts_text [simp]: "o_text demo_opts = ''r''"
  by (simp add: demo_opts_def)

lemma demo_jobs:
  "all_jobs demo_conf demo_opts (demo_shell res) (\<lambda>_. Inr True) ''t'' demo_found = Inr [demo_job]"
proof -
  have name: "ask_runner demo_conf (demo_shell res) '' --print-test-name-list'' = Inr (''a'' @ nl)"
    "ask_runner demo_conf (demo_shell res) '' --print-test-name-list --test-type=performance'' = Inr []"
    by (simp_all add: ask_runner_def run_job_synchronously_def path_command_def join_path_def built_name_def
        profile_suffix_def demo_conf_def demo_shell_def has_prefix_def)
  have "suite_list demo_conf demo_opts (demo_shell res) = Inr [''a'']"
    by (simp add: suite_list_def requested_suites_def name demo_opts_def default_topts_def lines_of_def nl_def)
  then show ?thesis
    by (simp add: all_jobs_def demo_found_def example_jobs_def pyexample_jobs_def nothing_selected_def
        suite_jobs_def demo_job_def py_strip_def py_rstrip_def is_ws_def)
      (simp add: demo_opts_def default_topts_def)
qed

lemma demo_execute:
  "run_job demo_conf demo_opts (demo_shell res) demo_job =
     bindE res (\<lambda>(rc, out, err, et). Inr (demo_job\<lparr>returncode := rc, elapsed_time := et\<rparr>))"
  by (cases res)
    (auto simp: run_job_def demo_job_def suite_job_def is_program_def new_job_def suite_arguments_def
      suite_command_def run_job_synchronously_def path_command_def join_path_def built_name_def
      profile_suffix_def demo_conf_def demo_opts_def default_topts_def demo_shell_def has_prefix_def upper_def)

lemma demo_job_simps [simp]:
  "\<not> is_break demo_job" "\<not> is_skip demo_job" "\<not> is_program demo_job" "display_name demo_job = ''a''"
  "tmp_file_name demo_job = ''t/a.xml''"
  by (simp_all add: demo_job_def suite_job_def new_job_def is_program_def demo_conf_def demo_opts_def
      default_topts_def join_path_def has_prefix_def)

definition demo_result :: "int \<Rightarrow> job" where
  "demo_result rc = demo_job\<lparr>returncode := rc, elapsed_time := Fin 0\<rparr>"

definition demo_tally :: "int \<Rightarrow> tally" where
  "demo_tally rc =
     (case collect demo_opts demo_tmp (demo_result rc) start_tally of Inl e \<Rightarrow> start_tally | Inr s \<Rightarrow> s)"

definition demo_end :: "int \<Rightarrow> pool" where
  "demo_end rc = one_state [] [] Stopped [] [demo_result rc] (Inr (demo_tally rc))"

lemma demo_result_simps [simp]:
  "\<not> is_break (demo_result rc)" "\<not> is_skip (demo_result rc)" "\<not> is_program (demo_result rc)"
  "display_name (demo_result rc) = ''a''" "tmp_file_name (demo_result rc) = ''t/a.xml''"
  "returncode (demo_result rc) = rc"
  using demo_job_simps by (simp_all add: demo_result_def is_program_def)

lemma demo_collected: "collect demo_opts demo_tmp (demo_result rc) start_tally = Inr (demo_tally rc)"
  by (simp add: demo_tally_def collect_def result_entry_def demo_tmp_def Let_def)

lemma demo_outcome:
  "test_outcome demo_conf demo_opts (demo_shell (Inr (rc, [], [], Fin 0))) demo_job = Inr (demo_result rc)"
  by (simp add: test_outcome_def outcome_of_def demo_execute demo_result_def)

lemma demo_processors [simp]: "c_processors demo_conf = 1"
  by (simp add: demo_conf_def)

lemma demo_run:
  "test_run demo_conf demo_opts (demo_shell (Inr (rc, [], [], Fin 0))) demo_tmp [demo_job] 7 (demo_end rc)"
  using one_finished [of demo_job "run_job demo_conf demo_opts (demo_shell (Inr (rc, [], [], Fin 0)))"
      "demo_result rc" "collect demo_opts demo_tmp" "demo_tally rc"] demo_collected
  by (simp add: test_run_def demo_end_def demo_execute demo_result_def demo_processors)

lemma demo_end_simps [simp]: "all_done (demo_end rc)" "p_tally (demo_end rc) = Inr (demo_tally rc)" "\<not> p_exit (demo_end rc)"
  by (simp_all add: demo_end_def one_state_def all_done_def)

lemma demo_readable: "readable demo_tmp (demo_result rc)"
proof -
  have "(case xml_fragment demo_file of Inl e \<Rightarrow> False | Inr es \<Rightarrow> list_all (\<lambda>e. etag e = ''Test'') es)"
    by code_simp
  moreover have "plain ''a''" by code_simp
  ultimately show ?thesis by (simp add: readable_def demo_tmp_def)
qed

section \<open>The properties of a test run\<close>

definition outcomes_with :: "tconf \<Rightarrow> topts \<Rightarrow> shell \<Rightarrow> string \<Rightarrow> job list \<Rightarrow> nat" where
  "outcomes_with c opts shell status js =
     length (filter (\<lambda>j. case test_outcome c opts shell j of Inl e \<Rightarrow> False | Inr j' \<Rightarrow> job_status j' = status) js)"

lemma status_of_outcomes:
  assumes "image_mset Inr (mset got) = image_mset (test_outcome c opts shell) (mset js)"
    and "\<forall>j \<in> set got. \<not> is_break j"
  shows "with_status status got = outcomes_with c opts shell status js"
proof -
  let ?P = "\<lambda>r :: job res. case r of Inl e \<Rightarrow> False | Inr j' \<Rightarrow> job_status j' = status"
  have same: "mset (map Inr got) = mset (map (test_outcome c opts shell) js)"
    using assms(1) by simp
  have "with_status status got = length (filter (?P \<circ> Inr) got)"
    using assms(2) unfolding with_status_def by (intro arg_cong [where f = length] filter_cong) auto
  also have "\<dots> = length (filter ?P (map Inr got))"
    by (simp only: filter_map length_map)
  also have "\<dots> = length (filter ?P (map (test_outcome c opts shell) js))"
    using arg_cong [OF same, of "\<lambda>m. size (filter_mset ?P m)"] by (simp only: mset_filter [symmetric] size_mset)
  also have "\<dots> = length (filter (?P \<circ> test_outcome c opts shell) js)"
    by (simp only: filter_map length_map)
  also have "\<dots> = outcomes_with c opts shell status js"
    by (simp add: outcomes_with_def comp_def)
  finally show ?thesis .
qed

text \<open>
  C5. If every job can be started, a test run ends: whatever the interleaving and whenever control-C is
  pressed, after at most six steps for each job and each thread (and one for the interrupt) nothing is
  left to do, and then all results are collected and all threads have stopped, unless the results of a
  suite could not be read.
\<close>

theorem test_run_ends:
  assumes "all_jobs c opts shell condition tempdir r = Inr js"
    and "startable c opts shell js" and "0 < c_processors c"
    and "test_run c opts shell tmp js m p"
  shows "m \<le> 6 * (length js + c_processors c) + 1 \<and>
    ((\<exists>q. pool_step (run_job c opts shell) (collect opts tmp) p q) \<or> all_done p \<or> (\<exists>e. p_tally p = Inl e))"
proof -
  obtain k where inv: "pool_inv (run_job c opts shell) (collect opts tmp) (c_processors c) js k p"
    using test_run_inv [OF assms(4) jobs_no_break [OF assms(1)]] by blast
  have "\<forall>j \<in> set js. \<exists>j'. outcome_of (run_job c opts shell) j = Inr j'"
  proof
    fix j
    assume "j \<in> set js"
    then have "is_skip j \<or> (case run_job c opts shell j of Inl e \<Rightarrow> False | Inr j' \<Rightarrow> True)"
      using assms(2) by (simp add: startable_def list_all_iff)
    then show "\<exists>j'. outcome_of (run_job c opts shell) j = Inr j'"
      by (cases "run_job c opts shell j") (auto simp: outcome_of_def)
  qed
  from test_job.stuck_done [OF inv assms(3) no_dead_worker [OF inv this]]
  have "(\<exists>q. pool_step (run_job c opts shell) (collect opts tmp) p q) \<or> all_done p \<or> (\<exists>e. p_tally p = Inl e)"
    by blast
  moreover have "pool_measure p + m \<le> 6 * (length js + c_processors c) + 1"
    using steps_measure assms(4) start_measure unfolding test_run_def by fastforce
  ultimately show ?thesis by simp
qed

lemma test_run_ends_witness:
  "(7::nat) \<le> 6 * (length [demo_job] + c_processors demo_conf) + 1 \<and>
    ((\<exists>q. pool_step (run_job demo_conf demo_opts (demo_shell (Inr (0, [], [], Fin 0)))) (collect demo_opts demo_tmp)
        (demo_end 0) q) \<or> all_done (demo_end 0) \<or> (\<exists>e. p_tally (demo_end 0) = Inl e))"
  by (rule test_run_ends [OF demo_jobs _ _ demo_run]) (simp_all add: startable_def demo_execute)

text \<open>
  C23. A job that cannot be started hangs the test program: the worker that took it is dead, and from
  then on no run ever collects all results, so the main thread waits for ever.
\<close>

theorem dead_worker_hangs:
  assumes "all_jobs c opts shell condition tempdir r = Inr js"
    and "test_run c opts shell tmp js m p" and "Died e \<in> set (p_workers p)"
    and "pool_steps (run_job c opts shell) (collect opts tmp) n p q"
  shows "\<not> all_done q"
proof
  assume fin: "all_done q"
  have "test_run c opts shell tmp js (m + n) q"
    using assms(2,4) unfolding test_run_def by (blast intro: pool_steps_trans)
  then obtain k where "pool_inv (run_job c opts shell) (collect opts tmp) (c_processors c) js k q"
    using test_run_inv jobs_no_break [OF assms(1)] by blast
  from test_job.done_taken(2) [OF this fin] dead_stays_steps [OF assms(4,3)] show False by auto
qed

lemma dead_worker_hangs_witness:
  "\<not> all_done (one_state [] [break_job] (Died OSError) [] [] (Inr start_tally))"
proof -
  have "test_run demo_conf demo_opts (demo_shell (Inl OSError)) demo_tmp [demo_job] 4
      (one_state [] [break_job] (Died OSError) [] [] (Inr start_tally))"
    using one_died [of demo_job "run_job demo_conf demo_opts (demo_shell (Inl OSError))" OSError]
    by (simp add: test_run_def demo_execute)
  from dead_worker_hangs [OF demo_jobs this _ pool_steps.none] show ?thesis
    by (simp add: one_state_def)
qed

text \<open>
  C7. The verdict is right under every interleaving: the exit code is 0 only if every job was run and
  passed or was to be skipped, and without an interrupt exactly then; without an interrupt the five
  counts are those of the jobs run one by one.
\<close>

theorem test_run_verdict:
  assumes "all_jobs c opts shell condition tempdir r = Inr js"
    and "test_run c opts shell tmp js m p" and "all_done p" and "p_tally p = Inr s"
  shows "(exit_code (length js) s = 0 \<longrightarrow>
      (\<forall>j \<in> set js. \<exists>j'. test_outcome c opts shell j = Inr j' \<and> job_status j' \<in> {''PASS'', ''SKIP''})) \<and>
    (\<not> p_exit p \<longrightarrow>
      (exit_code (length js) s = 0 \<longleftrightarrow>
         (\<forall>j \<in> set js. \<exists>j'. test_outcome c opts shell j = Inr j' \<and> job_status j' \<in> {''PASS'', ''SKIP''})) \<and>
      passed_tests s = outcomes_with c opts shell ''PASS'' js \<and>
      skipped_tests s = outcomes_with c opts shell ''SKIP'' js \<and>
      failed_tests s = outcomes_with c opts shell ''FAIL'' js \<and>
      valgrind_errors s = outcomes_with c opts shell ''VALGR'' js \<and>
      crashed_tests s = outcomes_with c opts shell ''CRASH'' js)"
proof -
  note run = finished_run [OF assms(2) jobs_no_break [OF assms(1)] assms(3,4)]
  note counts = tally_counts [OF run(2)]
  have zero: "exit_code (length js) s = 0 \<longleftrightarrow>
      (\<forall>j \<in> set (p_taken p). \<not> is_break j \<and> job_status j \<in> {''PASS'', ''SKIP''})"
    using counts run(1) all_passed [of "p_taken p"] by (simp add: exit_code_def start_tally_def)
  have ok: "(\<forall>j \<in> set (p_taken p). job_status j \<in> {''PASS'', ''SKIP''}) \<longleftrightarrow>
      (\<forall>j \<in> set js. \<exists>j'. test_outcome c opts shell j = Inr j' \<and> job_status j' \<in> {''PASS'', ''SKIP''})"
    if "\<forall>j \<in> set (p_taken p). \<not> is_break j"
    by (rule taken_in_outcomes [OF run(3) [OF that]])
  have "with_status st (p_taken p) = outcomes_with c opts shell st js" if "\<not> p_exit p" for st
    using status_of_outcomes [OF run(3)] run(4) that by blast
  then show ?thesis
    using zero ok run(4) counts by (simp add: start_tally_def) blast
qed

lemma test_run_verdict_witness:
  "exit_code 1 (demo_tally 0) = 0 \<and> exit_code 1 (demo_tally 1) = 1 \<and> failed_tests (demo_tally 1) = 1"
proof -
  have "exit_code (length [demo_job]) (demo_tally 0) = 0"
    using test_run_verdict [OF demo_jobs demo_run demo_end_simps(1,2)]
    by (simp add: demo_outcome job_status_def)
  moreover have "exit_code (length [demo_job]) (demo_tally 1) \<noteq> 0 \<and> failed_tests (demo_tally 1) = 1"
    using test_run_verdict [OF demo_jobs demo_run demo_end_simps(1,2), of 1]
    by (simp add: demo_outcome job_status_def outcomes_with_def)
  ultimately show ?thesis by (simp add: exit_code_def split: if_splits)
qed

lemma finished_log:
  assumes log: "test_run_log c opts shell tmp js ds p" and js: "\<forall>j \<in> set js. \<not> is_break j"
    and fin: "all_done p"
  shows "p_taken p = ds"
proof -
  obtain m where "test_run c opts shell tmp js m p" using test_run_of_log [OF log] by blast
  then obtain k where "pool_inv (run_job c opts shell) (collect opts tmp) (c_processors c) js k p"
    using test_run_inv [OF _ js] by blast
  then have "in_flight (run_job c opts shell) p = image_mset Inr (mset (p_taken p))"
    by (rule test_job.done_taken(3) [OF _ fin])
  then have "p_output p = []" by (simp add: in_flight_def)
  then show ?thesis using log_taken [OF log [unfolded test_run_log_def]] by (simp add: start_pool_def)
qed

text \<open>
  C22. Without an interrupt, and if the names need no escaping and the suites that did not crash wrote
  readable files, the jobs that the workers handed over are the outcomes of all jobs, and the text
  report is made of their single reports: first the suites, then the examples, each in the order in
  which the workers handed them over.
\<close>

theorem text_report_of_run:
  assumes "all_jobs c opts shell condition tempdir r = Inr js"
    and "test_run_log c opts shell tmp js ds p" and "all_done p" and "p_tally p = Inr s" and "\<not> p_exit p"
    and "\<forall>j \<in> set js. \<exists>j'. test_outcome c opts shell j = Inr j' \<and> readable tmp j' \<and> \<not> crashed j'"
  shows "image_mset Inr (mset ds) = image_mset (test_outcome c opts shell) (mset js) \<and>
    translate_to_text (all_results s) = job_report tmp ds"
proof -
  note js = jobs_no_break [OF assms(1)]
  obtain m where "test_run c opts shell tmp js m p" using test_run_of_log [OF assms(2)] by blast
  note run = finished_run [OF this js assms(3,4)]
  note taken = finished_log [OF assms(2) js assms(3)]
  note whole = run(4) [OF assms(5)]
  note same = run(3) [OF whole]
  have "\<forall>j \<in> set (p_taken p). readable tmp j \<and> \<not> crashed j"
    using taken_in_outcomes [OF same] assms(6) by simp
  with whole text_report_entries [OF _ run(2)] same show ?thesis unfolding taken by blast
qed

lemma text_report_of_run_witness:
  "translate_to_text (all_results (demo_tally 0)) = job_report demo_tmp [demo_result 0]"
proof -
  obtain ds where "test_run_log demo_conf demo_opts (demo_shell (Inr (0, [], [], Fin 0))) demo_tmp [demo_job] ds (demo_end 0)"
    using test_run_has_log [OF demo_run] by blast
  moreover have "\<forall>j \<in> set [demo_job]. \<exists>j'. test_outcome demo_conf demo_opts (demo_shell (Inr (0, [], [], Fin 0))) j = Inr j' \<and>
      readable demo_tmp j' \<and> \<not> crashed j'"
    by (simp add: demo_outcome demo_readable crashed_def)
  ultimately have r: "image_mset Inr (mset ds) = image_mset (test_outcome demo_conf demo_opts (demo_shell (Inr (0, [], [], Fin 0)))) (mset [demo_job])"
    "translate_to_text (all_results (demo_tally 0)) = job_report demo_tmp ds"
    using text_report_of_run [OF demo_jobs _ demo_end_simps] by blast+
  have "image_mset Inr (mset ds) = {#Inr (demo_result 0) :: job res#}" unfolding r(1) by (simp add: demo_outcome)
  then have "length ds = 1" "Inr ` set ds = {Inr (demo_result 0) :: job res}"
    by (metis size_image_mset size_mset size_single, metis set_image_mset set_mset_mset set_mset_single)
  then have "ds = [demo_result 0]" by (cases ds) auto
  then show ?thesis using r(2) by simp
qed

text \<open>
  One crashed suite spoils the reports of the whole run: its entry in the results file is closed by
  the wrong tag, so the HTML or text report that was asked for ends with a \<open>ParseError\<close> and neither the
  exit code nor the removal of the temporary files is reached.
\<close>

theorem crash_spoils_reports:
  assumes "all_jobs c opts shell condition tempdir r = Inr js"
    and "test_run c opts shell tmp js m p" and "all_done p" and "p_tally p = Inr s" and "\<not> p_exit p"
    and "\<forall>j \<in> set js. \<exists>j'. test_outcome c opts shell j = Inr j' \<and> readable tmp j'"
    and "\<exists>j \<in> set js. \<exists>j'. test_outcome c opts shell j = Inr j' \<and> crashed j'"
    and "o_html opts \<noteq> [] \<or> o_text opts \<noteq> []"
  shows "finish opts (length js) s = Inl (Exception ''ParseError'')"
proof -
  note run = finished_run [OF assms(2) jobs_no_break [OF assms(1)] assms(3,4)]
  note whole = run(4) [OF assms(5)]
  note same = run(3) [OF whole]
  have "\<forall>j \<in> set (p_taken p). readable tmp j"
    using taken_in_outcomes [OF same] assms(6) by simp
  moreover have "\<not> (\<forall>j \<in> set (p_taken p). \<not> crashed j)"
    using taken_in_outcomes [OF same, of "\<lambda>j. \<not> crashed j"] assms(7) by fastforce
  ultimately have "xml_parse (all_results s) = Inl parse_error"
    using crash_entries [OF _ _ run(2)] whole by blast
  from finish_crashed [OF this assms(8)] show ?thesis by (simp add: parse_error_def)
qed

lemma crash_spoils_reports_witness:
  "finish demo_opts 1 (demo_tally 139) = Inl (Exception ''ParseError'')"
proof -
  have "finish demo_opts (length [demo_job]) (demo_tally 139) = Inl (Exception ''ParseError'')"
    by (rule crash_spoils_reports [OF demo_jobs demo_run demo_end_simps])
      (simp_all add: demo_outcome demo_readable crashed_def)
  then show ?thesis by simp
qed

end
