(* ===== verification/RunRace.thy ===== *)
theory RunRace
  imports RunMain
begin

text \<open>
  Several runs of \<open>run.py\<close> at once over one file system. Each process reserves its output directory
  (\<open>reserve_output_dir\<close>), then writes its manifest, possibly several times (\<open>write_json\<close>), while
  the others go on between any two of its file-system calls; a process may die at any point.

  The calls are those of RunMain: \<open>makedirs\<close> is one call, an iteration of the loop over random ids
  is one draw and one call, and \<open>write_json\<close> is its list of \<open>fs_op\<close>s, taken one at a time.
  \<open>race\<close> is one call of one process, \<open>races\<close> any number of them. The invariant \<open>race_inv\<close> says that
  no two processes own the same directory and that each manifest on disk is the last one its owner
  completed, never a half-written one and never another run's.
\<close>

section \<open>Processes and their calls\<close>

text \<open>
  A process before it has its directory (the requested id and its random generator), a process with
  its directory, the calls left of the manifest it is writing and the last manifest it completed, a
  process that was refused its directory, and one that died.
\<close>

datatype 'g run_proc =
    Reserving "string option" 'g
  | Owning string "(json \<times> fs_op list) option" "json option"
  | Refused exn
  | Dead string "json option"

type_synonym 'g runs = "nat \<Rightarrow> 'g run_proc"

definition manifest_path :: "string \<Rightarrow> string" where
  "manifest_path d = path_join d ''run_manifest.json''"

definition next_write :: "json \<Rightarrow> fs_op list \<Rightarrow> (json \<times> fs_op list) option" where
  "next_write j ops = (if ops = [] then None else Some (j, ops))"

inductive race ::
  "(json \<Rightarrow> string list) \<Rightarrow> ('g \<Rightarrow> int \<times> 'g) \<Rightarrow> string \<Rightarrow> 'g runs \<times> fs \<Rightarrow> 'g runs \<times> fs \<Rightarrow> bool"
  for dump draw out_root where
  requested:
    "ps i = Reserving (Some rid) g \<Longrightarrow>
     reserve_output_dir draw out_root (Some rid) w g = Some (Inr (cid, d, w', g')) \<Longrightarrow>
     race dump draw out_root (ps, w) (ps(i := Owning d None None), w')"
| refused:
    "ps i = Reserving (Some rid) g \<Longrightarrow>
     reserve_output_dir draw out_root (Some rid) w g = Some (Inl e) \<Longrightarrow>
     race dump draw out_root (ps, w) (ps(i := Refused e), w)"
| drawn:
    "ps i = Reserving None g \<Longrightarrow> draw g = (n, g') \<Longrightarrow>
     makedirs w (path_join out_root (show_int n)) = Inr w' \<Longrightarrow>
     race dump draw out_root (ps, w) (ps(i := Owning (path_join out_root (show_int n)) None None), w')"
| redraw:
    "ps i = Reserving None g \<Longrightarrow> draw g = (n, g') \<Longrightarrow>
     makedirs w (path_join out_root (show_int n)) = Inl e \<Longrightarrow>
     race dump draw out_root (ps, w) (ps(i := Reserving None g'), w)"
| begin_write:
    "ps i = Owning d None c \<Longrightarrow>
     race dump draw out_root (ps, w)
       (ps(i := Owning d (Some (j, write_json_ops dump (manifest_path d) j)) c), w)"
| write_op:
    "ps i = Owning d (Some (j, op # ops)) c \<Longrightarrow> fs_step op w = Inr w' \<Longrightarrow>
     race dump draw out_root (ps, w)
       (ps(i := Owning d (next_write j ops) (if ops = [] then Some j else c)), w')"
| die:
    "ps i = Owning d p c \<Longrightarrow> race dump draw out_root (ps, w) (ps(i := Dead d c), w)"

definition races ::
  "(json \<Rightarrow> string list) \<Rightarrow> ('g \<Rightarrow> int \<times> 'g) \<Rightarrow> string \<Rightarrow> 'g runs \<times> fs \<Rightarrow> 'g runs \<times> fs \<Rightarrow> bool" where
  "races dump draw out_root = (race dump draw out_root)\<^sup>*\<^sup>*"

fun owned :: "'g run_proc \<Rightarrow> string option" where
  "owned (Owning d p c) = Some d"
| "owned (Dead d c) = Some d"
| "owned p = None"

fun completed_by :: "'g run_proc \<Rightarrow> json option" where
  "completed_by (Owning d p c) = c"
| "completed_by (Dead d c) = c"
| "completed_by p = None"

fun writing :: "'g run_proc \<Rightarrow> (json \<times> fs_op list) option" where
  "writing (Owning d p c) = p"
| "writing p = None"

definition json_text :: "(json \<Rightarrow> string list) \<Rightarrow> json \<Rightarrow> string" where
  "json_text dump j = concat (dump j) @ nl"

section \<open>Paths\<close>

text \<open>Directories of runs are children of the output root: their manifests are different files.\<close>

definition run_dir :: "string \<Rightarrow> string \<Rightarrow> bool" where
  "run_dir out_root d \<longleftrightarrow> (\<exists>cid. CHR ''/'' \<notin> set cid \<and> d = path_join out_root cid)"

lemma slash_split:
  assumes "CHR ''/'' \<notin> set a" "CHR ''/'' \<notin> set b" "a @ CHR ''/'' # s = b @ CHR ''/'' # t"
  shows "a = b \<and> s = t"
  using assms by (auto simp: append_eq_append_conv2 Cons_eq_append_conv append_eq_Cons_conv)

lemma manifest_path_inj:
  assumes "run_dir r d" "run_dir r d'"
  shows "manifest_path d = manifest_path d' \<longleftrightarrow> d = d'"
    and "manifest_path d @ ''.tmp'' = manifest_path d' @ ''.tmp'' \<longleftrightarrow> d = d'"
    and "manifest_path d @ ''.tmp'' \<noteq> manifest_path d'"
proof -
  obtain a b where ab: "CHR ''/'' \<notin> set a" "d = path_join r a" "CHR ''/'' \<notin> set b" "d' = path_join r b"
    using assms by (auto simp: run_dir_def)
  show "manifest_path d = manifest_path d' \<longleftrightarrow> d = d'"
    by (simp add: manifest_path_def path_join_def)
  show "manifest_path d @ ''.tmp'' = manifest_path d' @ ''.tmp'' \<longleftrightarrow> d = d'"
    by (simp add: manifest_path_def path_join_def)
  show "manifest_path d @ ''.tmp'' \<noteq> manifest_path d'"
    using slash_split[OF ab(1,3), of "''run_manifest.json.tmp''" "''run_manifest.json''"] ab(2,4)
    by (auto simp: manifest_path_def path_join_def)
qed

section \<open>The invariant\<close>

text \<open>What is left of a write: everything, or some chunks and the final rename.\<close>

definition pending_ok ::
  "(json \<Rightarrow> string list) \<Rightarrow> string \<Rightarrow> json \<Rightarrow> fs_op list \<Rightarrow> string option \<Rightarrow> bool" where
  "pending_ok dump path j ops tmp \<longleftrightarrow>
     ops = write_json_ops dump path j \<or>
     (\<exists>cs t. ops = map (Append (path @ ''.tmp'')) cs @ [Replace (path @ ''.tmp'') path] \<and>
        tmp = Some t \<and> t @ concat cs = json_text dump j)"

definition proc_ok :: "(json \<Rightarrow> string list) \<Rightarrow> string \<Rightarrow> fs \<Rightarrow> 'g run_proc \<Rightarrow> bool" where
  "proc_ok dump out_root w p \<longleftrightarrow>
     (\<forall>d. owned p = Some d \<longrightarrow>
        run_dir out_root d \<and> d \<in> dirs w \<and>
        files w (manifest_path d) = map_option (json_text dump) (completed_by p) \<and>
        (\<forall>j ops. writing p = Some (j, ops) \<longrightarrow>
           pending_ok dump (manifest_path d) j ops (files w (manifest_path d @ ''.tmp''))))"

text \<open>A directory of the output root that does not exist holds no files.\<close>

definition fs_ok :: "string \<Rightarrow> fs \<Rightarrow> bool" where
  "fs_ok out_root w \<longleftrightarrow>
     (\<forall>d. run_dir out_root d \<longrightarrow> d \<notin> dirs w \<longrightarrow>
        files w (manifest_path d) = None \<and> files w (manifest_path d @ ''.tmp'') = None)"

definition race_inv :: "(json \<Rightarrow> string list) \<Rightarrow> string \<Rightarrow> 'g runs \<times> fs \<Rightarrow> bool" where
  "race_inv dump out_root s \<longleftrightarrow>
     fs_ok out_root (snd s) \<and> (\<forall>i. proc_ok dump out_root (snd s) (fst s i)) \<and>
     (\<forall>i j d. i \<noteq> j \<longrightarrow> owned (fst s i) = Some d \<longrightarrow> owned (fst s j) \<noteq> Some d)"


section \<open>One call preserves it\<close>

lemma reserved_dir:
  assumes "reserve_output_dir draw r (Some rid) w g = Some (Inr (cid, d, w', g'))"
  shows "run_dir r d \<and> d \<notin> dirs w \<and> w' = w\<lparr>dirs := insert d (dirs w)\<rparr>"
proof -
  have ok: "list_all (\<lambda>c. c \<in> set run_id_chars) rid" "d = path_join r rid"
    "make_requested w r rid = Inr w'"
    using assms by (auto simp: reserve_output_dir_def bindE_Inr_iff split: if_splits)
  have "CHR ''/'' \<notin> set run_id_chars" by (simp add: run_id_chars_def)
  then have "CHR ''/'' \<notin> set rid" using ok(1) by (auto simp: list_all_iff)
  then show ?thesis
    using ok(2,3) by (auto simp: run_dir_def make_requested_def makedirs_def split: if_splits)
qed

lemma drawn_dir:
  assumes "makedirs w (path_join r (show_int n)) = Inr w'"
  shows "run_dir r (path_join r (show_int n)) \<and> path_join r (show_int n) \<notin> dirs w \<and>
    w' = w\<lparr>dirs := insert (path_join r (show_int n)) (dirs w)\<rparr>"
proof -
  have "\<not> is_digit (CHR ''/'')" by (simp add: is_digit_def)
  then have "CHR ''/'' \<noteq> digit_char k" if "k < 10" for k
    using digit_char_props(1)[OF that] by metis
  then have "CHR ''/'' \<notin> set (show_int n)" using show_int_chars[of "CHR ''/''" n] by auto
  then show ?thesis using assms by (auto simp: run_dir_def makedirs_def split: if_splits)
qed

text \<open>A file-system call of a write touches the target and its temporary file only.\<close>

lemma write_call:
  assumes "pending_ok dump path j (op # ops) (files w (path @ ''.tmp''))" "fs_step op w = Inr w'"
  shows "dirs w' = dirs w"
    and "\<And>p. p \<noteq> path \<Longrightarrow> p \<noteq> path @ ''.tmp'' \<Longrightarrow> files w' p = files w p"
    and "ops \<noteq> [] \<Longrightarrow> files w' path = files w path \<and> pending_ok dump path j ops (files w' (path @ ''.tmp''))"
    and "ops = [] \<Longrightarrow> files w' path = Some (json_text dump j)"
proof -
  let ?tmp = "path @ ''.tmp''"
  consider (start) "op = OpenTrunc ?tmp" "ops = map (Append ?tmp) (dump j @ [nl]) @ [Replace ?tmp path]"
    | (more) c cs t where "op = Append ?tmp c" "ops = map (Append ?tmp) cs @ [Replace ?tmp path]"
        "files w ?tmp = Some t" "t @ c @ concat cs = json_text dump j"
    | (final) t where "op = Replace ?tmp path" "ops = []" "files w ?tmp = Some t" "t = json_text dump j"
  proof -
    have "(op = OpenTrunc ?tmp \<and> ops = map (Append ?tmp) (dump j @ [nl]) @ [Replace ?tmp path]) \<or>
      (\<exists>cs t. op # ops = map (Append ?tmp) cs @ [Replace ?tmp path] \<and> files w ?tmp = Some t \<and>
        t @ concat cs = json_text dump j)"
      using assms(1) by (simp add: pending_ok_def write_json_ops_def Let_def)
    then show ?thesis
    proof (elim disjE exE conjE)
      fix cs t assume a: "op # ops = map (Append ?tmp) cs @ [Replace ?tmp path]"
        "files w ?tmp = Some t" "t @ concat cs = json_text dump j"
      show ?thesis
      proof (cases cs)
        case Nil
        then show ?thesis using a final by simp
      next
        case (Cons c cs')
        then show ?thesis using a more by simp
      qed
    qed (rule start)
  qed
  note cases = this
  show "dirs w' = dirs w" using cases assms(2) by cases auto
  show "files w' p = files w p" if "p \<noteq> path" "p \<noteq> ?tmp" for p
    using cases assms(2) that by cases auto
  show "files w' path = files w path \<and> pending_ok dump path j ops (files w' ?tmp)" if "ops \<noteq> []"
    using cases
  proof cases
    case start
    have "\<exists>cs t. ops = map (Append ?tmp) cs @ [Replace ?tmp path] \<and> Some [] = Some t \<and>
        t @ concat cs = json_text dump j"
      using start(2) by (intro exI[of _ "dump j @ [nl]"] exI[of _ "[]"]) (simp add: json_text_def)
    then show ?thesis using start(1) assms(2) by (auto simp: pending_ok_def)
  next
    case more
    have "\<exists>cs' t'. ops = map (Append ?tmp) cs' @ [Replace ?tmp path] \<and> Some (t @ c) = Some t' \<and>
        t' @ concat cs' = json_text dump j"
      using more(2,4) by (intro exI[of _ cs] exI[of _ "t @ c"]) simp
    then show ?thesis using more(1,3) assms(2) by (auto simp: pending_ok_def)
  qed (use that in simp)
  show "files w' path = Some (json_text dump j)" if "ops = []"
    using cases assms(2) that by cases auto
qed

text \<open>A process that is not the one that moves keeps its guarantee.\<close>

lemma proc_ok_other:
  assumes "proc_ok dump r w p" "dirs w \<subseteq> dirs w'"
    and "\<And>d. owned p = Some d \<Longrightarrow> files w' (manifest_path d) = files w (manifest_path d) \<and>
          files w' (manifest_path d @ ''.tmp'') = files w (manifest_path d @ ''.tmp'')"
  shows "proc_ok dump r w' p"
  using assms by (auto simp: proc_ok_def)

lemma race_inv_update:
  assumes inv: "race_inv dump r (ps, w)" and fs: "fs_ok r w'" and sub: "dirs w \<subseteq> dirs w'"
    and p: "proc_ok dump r w' p"
    and others: "\<And>k d. k \<noteq> i \<Longrightarrow> owned (ps k) = Some d \<Longrightarrow>
          files w' (manifest_path d) = files w (manifest_path d) \<and>
          files w' (manifest_path d @ ''.tmp'') = files w (manifest_path d @ ''.tmp'')"
    and fresh: "\<And>k d. k \<noteq> i \<Longrightarrow> owned p = Some d \<Longrightarrow> owned (ps k) \<noteq> Some d"
  shows "race_inv dump r (ps(i := p), w')"
proof -
  have ok: "proc_ok dump r w (ps k)" for k using inv by (simp add: race_inv_def)
  have "proc_ok dump r w' ((ps(i := p)) k)" for k
  proof (cases "k = i")
    case False
    have "proc_ok dump r w' (ps k)" by (rule proc_ok_other[OF ok sub]) (rule others[OF False])
    then show ?thesis using False by simp
  qed (use p in simp)
  moreover have "owned ((ps(i := p)) k') \<noteq> Some d" if "k \<noteq> k'" "owned ((ps(i := p)) k) = Some d" for k k' d
  proof -
    have "owned (ps k') \<noteq> Some d" if "owned (ps k) = Some d" "k \<noteq> k'" for k k' d
      using inv that by (simp add: race_inv_def)
    then show ?thesis using that fresh by (cases "k = i"; cases "k' = i") auto
  qed
  ultimately show ?thesis using fs by (simp add: race_inv_def)
qed

lemma race_inv_reserve:
  assumes inv: "race_inv dump r (ps, w)" and d: "run_dir r d" "d \<notin> dirs w"
  shows "race_inv dump r (ps(i := Owning d None None), w\<lparr>dirs := insert d (dirs w)\<rparr>)"
proof (rule race_inv_update[OF inv])
  have fs: "fs_ok r w" using inv by (simp add: race_inv_def)
  show "fs_ok r (w\<lparr>dirs := insert d (dirs w)\<rparr>)" using fs by (simp add: fs_ok_def)
  show "proc_ok dump r (w\<lparr>dirs := insert d (dirs w)\<rparr>) (Owning d None None)"
    using fs d by (simp add: fs_ok_def proc_ok_def)
  fix k d' assume "k \<noteq> i" "owned (Owning d None None) = Some d'"
  then show "owned (ps k) \<noteq> Some d'"
    using inv d(2) by (auto simp: race_inv_def proc_ok_def)
qed auto

lemma race_inv_local:
  assumes inv: "race_inv dump r (ps, w)" and p: "proc_ok dump r w p"
    and o: "owned p = None \<or> owned p = owned (ps i)"
  shows "race_inv dump r (ps(i := p), w)"
proof (rule race_inv_update[OF inv _ _ p])
  fix k d assume "k \<noteq> i" "owned p = Some d"
  then show "owned (ps k) \<noteq> Some d" using inv o unfolding race_inv_def by (metis fst_conv option.distinct(1))
qed (use inv in \<open>simp_all add: race_inv_def\<close>)

lemma race_inv_write:
  assumes inv: "race_inv dump r (ps, w)" and i: "ps i = Owning d (Some (j, op # ops)) c"
    and step: "fs_step op w = Inr w'"
  shows "race_inv dump r (ps(i := Owning d (next_write j ops) (if ops = [] then Some j else c)), w')"
proof -
  have "proc_ok dump r w (ps i)" using inv by (simp add: race_inv_def)
  then have d: "run_dir r d" "d \<in> dirs w" "files w (manifest_path d) = map_option (json_text dump) c"
    and pend: "pending_ok dump (manifest_path d) j (op # ops) (files w (manifest_path d @ ''.tmp''))"
    by (simp_all add: i proc_ok_def)
  note call = write_call[OF pend step]
  have fs: "fs_ok r w" using inv by (simp add: race_inv_def)
  have keep: "files w' (manifest_path d') = files w (manifest_path d') \<and>
      files w' (manifest_path d' @ ''.tmp'') = files w (manifest_path d' @ ''.tmp'')"
    if "run_dir r d'" "d' \<noteq> d" for d'
    using call(2) manifest_path_inj[OF d(1) that(1)] manifest_path_inj[OF that(1) d(1)] that(2) by metis
  show ?thesis
  proof (rule race_inv_update[OF inv])
    show "fs_ok r w'" using fs keep d(2) call(1) unfolding fs_ok_def by metis
    show "dirs w \<subseteq> dirs w'" using call(1) by simp
    show "proc_ok dump r w' (Owning d (next_write j ops) (if ops = [] then Some j else c))"
      using d call by (auto simp: proc_ok_def next_write_def)
    fix k d' assume k: "k \<noteq> i"
    show "owned (ps k) \<noteq> Some d'"
      if "owned (Owning d (next_write j ops) (if ops = [] then Some j else c)) = Some d'"
    proof -
      have "owned (ps i) = Some d'" using i that by simp
      then show ?thesis using inv k unfolding race_inv_def by (metis fst_conv)
    qed
    assume o: "owned (ps k) = Some d'"
    have "owned (ps i) = Some d" using i by simp
    then have "d' \<noteq> d" using inv o k unfolding race_inv_def by (metis fst_conv)
    moreover have "run_dir r d'" using inv o by (auto simp: race_inv_def proc_ok_def)
    ultimately show "files w' (manifest_path d') = files w (manifest_path d') \<and>
      files w' (manifest_path d' @ ''.tmp'') = files w (manifest_path d' @ ''.tmp'')" using keep by blast
  qed
qed

lemma race_preserves:
  assumes "race dump draw r s s'" "race_inv dump r s"
  shows "race_inv dump r s'"
  using assms
proof (cases rule: race.cases)
  case (requested ps i rid g w cid d w' g')
  from reserved_dir[OF requested(4)] show ?thesis
    using race_inv_reserve assms(2) requested(1,2) by blast
next
  case (refused ps i rid g w e)
  have "proc_ok dump r w (Refused e)" by (simp add: proc_ok_def)
  then show ?thesis using race_inv_local assms(2) refused(1,2) by fastforce
next
  case (drawn ps i g n g' w w')
  from drawn_dir[OF drawn(5)] show ?thesis
    using race_inv_reserve assms(2) drawn(1,2) by blast
next
  case (redraw ps i g n g' w e)
  have "proc_ok dump r w (Reserving None g')" by (simp add: proc_ok_def)
  then show ?thesis using race_inv_local assms(2) redraw(1,2) by fastforce
next
  case (begin_write ps i d c w j)
  have "proc_ok dump r w (ps i)" using assms(2) begin_write(1) by (simp add: race_inv_def)
  then have "proc_ok dump r w (Owning d (Some (j, write_json_ops dump (manifest_path d) j)) c)"
    using begin_write(3) by (simp add: proc_ok_def pending_ok_def)
  from race_inv_local[OF _ this, of ps i] show ?thesis using assms(2) begin_write by simp
next
  case (write_op ps i d j op ops c w w')
  then show ?thesis using race_inv_write assms(2) by blast
next
  case (die ps i d p c w)
  have "proc_ok dump r w (ps i)" using assms(2) die(1) by (simp add: race_inv_def)
  then have "proc_ok dump r w (Dead d c)" using die(3) by (simp add: proc_ok_def)
  from race_inv_local[OF _ this, of ps i] show ?thesis using assms(2) die by simp
qed

lemma races_preserve:
  assumes "races dump draw r s s'" "race_inv dump r s"
  shows "race_inv dump r s'"
  using assms(1) unfolding races_def
  by (induction rule: rtranclp_induct) (use assms(2) race_preserves in \<open>blast+\<close>)


section \<open>Concurrent runs\<close>

lemma race_start:
  assumes "fs_ok r w" "\<forall>i. owned (ps i) = None"
  shows "race_inv dump r (ps, w)"
  using assms by (simp add: race_inv_def proc_ok_def)

text \<open>What a process that goes on finds: its call succeeds, whatever the others did.\<close>

lemma pending_succeeds:
  assumes "race_inv dump r (ps, w)" "ps i = Owning d (Some (j, op # ops)) c"
  shows "\<exists>w'. fs_step op w = Inr w'"
proof -
  have "proc_ok dump r w (ps i)" using assms(1) by (simp add: race_inv_def)
  then have "pending_ok dump (manifest_path d) j (op # ops) (files w (manifest_path d @ ''.tmp''))"
    using assms(2) by (simp add: proc_ok_def)
  then show ?thesis
    by (auto simp: pending_ok_def write_json_ops_def Let_def Cons_eq_append_conv Cons_eq_map_conv)
qed

text \<open>
  C11. Any number of runs of \<open>run.py\<close> may start at once over one output root, and any of them may be
  killed at any point: two runs never own the same directory (also when they ask for the same id),
  the manifest in a run's directory is absent or exactly the last one that run completed, also
  after a kill in the middle of the next, and a run that is writing its manifest never fails at its
  next call, whatever the others did in between.
\<close>

theorem concurrent_runs:
  assumes "races dump draw out_root (ps, w) (ps', w')"
    and "fs_ok out_root w" and "\<forall>i. owned (ps i) = None"
  shows "(\<forall>i j d. i \<noteq> j \<longrightarrow> owned (ps' i) = Some d \<longrightarrow> owned (ps' j) \<noteq> Some d) \<and>
    (\<forall>i d. owned (ps' i) = Some d \<longrightarrow>
       files w' (manifest_path d) = map_option (json_text dump) (completed_by (ps' i))) \<and>
    (\<forall>i d j op ops c. ps' i = Owning d (Some (j, op # ops)) c \<longrightarrow> (\<exists>w''. fs_step op w' = Inr w''))"
proof -
  have inv: "race_inv dump out_root (ps', w')"
    using races_preserve[OF assms(1)] race_start[OF assms(2,3)] by blast
  then show ?thesis
    using pending_succeeds[OF inv] by (simp add: race_inv_def proc_ok_def)
qed

text \<open>
  A demonstration: two runs ask for the id \<open>a\<close>. The first gets the directory, completes a manifest
  and dies in the middle of the next; the second is refused.
\<close>

definition demo_dump :: "json \<Rightarrow> string list" where
  "demo_dump j = (case j of JNull \<Rightarrow> [''null''] | _ \<Rightarrow> [''{'', ''}''])"

definition demo_procs :: "int runs" where
  "demo_procs = (\<lambda>i. if i < 2 then Reserving (Some ''a'') 0 else Refused OSError)"

definition demo_disk :: fs where
  "demo_disk = \<lparr>files = (\<lambda>_. None), dirs = {''out''}\<rparr>"

lemma races_step: "races dump draw r s t \<Longrightarrow> race dump draw r t u \<Longrightarrow> races dump draw r s u"
  unfolding races_def by (rule rtranclp.rtrancl_into_rtrancl)

lemma races_trans: "races dump draw r s t \<Longrightarrow> races dump draw r t u \<Longrightarrow> races dump draw r s u"
  unfolding races_def by (rule rtranclp_trans)

text \<open>A process that nobody interrupts makes the calls of \<open>write_json\<close> one after the other.\<close>

lemma writes_some:
  assumes "fs_run ops1 w = Inr w'" "rest \<noteq> []"
  shows "races dump draw r (ps(i := Owning d (Some (j, ops1 @ rest)) c), w)
    (ps(i := Owning d (Some (j, rest)) c), w')"
  using assms(1)
proof (induction ops1 arbitrary: w)
  case Nil
  then show ?case by (simp add: races_def)
next
  case (Cons op ops)
  then obtain w1 where w1: "fs_step op w = Inr w1" "fs_run ops w1 = Inr w'" by (auto simp: bindE_Inr_iff)
  have "race dump draw r (ps(i := Owning d (Some (j, op # ops @ rest)) c), w)
      (ps(i := Owning d (Some (j, ops @ rest)) c), w1)"
    using race.write_op[OF _ w1(1), of "ps(i := Owning d (Some (j, op # ops @ rest)) c)" i d j "ops @ rest" c]
      assms(2) by (simp add: next_write_def)
  then show ?case using Cons.IH[OF w1(2)] unfolding races_def append_Cons by (rule converse_rtranclp_into_rtranclp)
qed

lemma writes_begin:
  assumes "write_json_ops dump (manifest_path d) j = ops1 @ rest" "rest \<noteq> []" "fs_run ops1 w = Inr w'"
  shows "races dump draw r (ps(i := Owning d None c), w) (ps(i := Owning d (Some (j, rest)) c), w')"
proof -
  have "race dump draw r (ps(i := Owning d None c), w) (ps(i := Owning d (Some (j, ops1 @ rest)) c), w)"
    using race.begin_write[of "ps(i := Owning d None c)" i d c dump draw r w j] assms(1) by simp
  then show ?thesis
    using writes_some[OF assms(3,2), of dump draw r ps i d j c] unfolding races_def
    by (rule converse_rtranclp_into_rtranclp)
qed

lemma writes_all:
  assumes "write_json dump (manifest_path d) j w = Inr w'"
  shows "races dump draw r (ps(i := Owning d None c), w) (ps(i := Owning d None (Some j)), w')"
proof -
  let ?m = "manifest_path d"
  let ?ran = "OpenTrunc (?m @ ''.tmp'') # map (Append (?m @ ''.tmp'')) (dump j @ [nl])"
  let ?last = "Replace (?m @ ''.tmp'') ?m"
  have ops: "write_json_ops dump ?m j = ?ran @ [?last]" by (simp add: write_json_ops_def Let_def)
  obtain w1 where w1: "fs_run ?ran w = Inr w1" "fs_step ?last w1 = Inr w'"
    using assms unfolding write_json_def ops fs_run_append by (auto simp: bindE_Inr_iff)
  have "race dump draw r (ps(i := Owning d (Some (j, [?last])) c), w1) (ps(i := Owning d None (Some j)), w')"
    using race.write_op[OF _ w1(2), of "ps(i := Owning d (Some (j, [?last])) c)" i d j "[]" c]
    by (simp add: next_write_def)
  with writes_begin[OF ops _ w1(1), of draw r ps i c] show ?thesis
    unfolding races_def by (simp add: rtranclp.rtrancl_into_rtrancl)
qed

lemma demo_race:
  "\<exists>w. races demo_dump (\<lambda>g. (g, g)) ''out'' (demo_procs, demo_disk)
     (demo_procs(1 := Refused (FileExistsError ''out/a''), 0 := Dead ''out/a'' (Some JNull)), w) \<and>
     files w ''out/a/run_manifest.json.tmp'' = Some ''{''"
proof -
  let ?race = "race demo_dump (\<lambda>g :: int. (g, g)) ''out''"
  let ?races = "races demo_dump (\<lambda>g :: int. (g, g)) ''out''"
  let ?d = "''out/a''" and ?t = "''out/a/run_manifest.json.tmp''"
  define w1 where "w1 = demo_disk\<lparr>dirs := {?d, ''out''}\<rparr>"
  define qs where "qs = demo_procs(1 := Refused (FileExistsError ?d))"
  have path: "manifest_path ?d = ''out/a/run_manifest.json''" by (simp add: manifest_path_def path_join_def)
  have qs: "demo_procs(0 := p, 1 := Refused (FileExistsError ?d)) = qs(0 := p)" for p
    by (auto simp: qs_def)
  have got: "?race (demo_procs, demo_disk) (demo_procs(0 := Owning ?d None None), w1)"
    by (rule race.requested[where g = 0 and rid = "''a''" and cid = "''a''" and g' = 0])
      (simp_all add: w1_def demo_procs_def demo_disk_def reserve_output_dir_def run_id_chars_def
        make_requested_def makedirs_def path_join_def)
  have lost: "?race (demo_procs(0 := Owning ?d None None), w1) (qs(0 := Owning ?d None None), w1)"
    unfolding qs[symmetric]
    by (rule race.refused[where g = 0 and rid = "''a''"])
      (simp_all add: w1_def demo_procs_def demo_disk_def reserve_output_dir_def run_id_chars_def
        make_requested_def makedirs_def path_join_def)
  obtain w2 where w2: "write_json demo_dump (manifest_path ?d) JNull w1 = Inr w2"
    by (auto simp: write_json_def write_json_ops_def demo_dump_def path bindE_def Let_def)
  have ops: "write_json_ops demo_dump (manifest_path ?d) (JInt 1)
      = [OpenTrunc ?t, Append ?t ''{''] @ [Append ?t ''}'', Append ?t nl, Replace ?t (manifest_path ?d)]"
    by (simp add: path write_json_ops_def demo_dump_def Let_def)
  obtain w3 where w3: "fs_run [OpenTrunc ?t, Append ?t ''{''] w2 = Inr w3" "files w3 ?t = Some ''{''"
    by (auto simp: bindE_def)
  have dead: "?race (qs(0 := Owning ?d (Some (JInt 1, [Append ?t ''}'', Append ?t nl, Replace ?t (manifest_path ?d)])) (Some JNull)), w3)
      (qs(0 := Dead ?d (Some JNull)), w3)"
    using race.die[of "qs(0 := Owning ?d (Some (JInt 1, [Append ?t ''}'', Append ?t nl, Replace ?t (manifest_path ?d)])) (Some JNull))"
        0 ?d _ "Some JNull"] by simp
  have 1: "?races (demo_procs, demo_disk) (qs(0 := Owning ?d None None), w1)"
    using got lost unfolding races_def by (meson r_into_rtranclp rtranclp.rtrancl_into_rtrancl)
  note 2 = races_trans[OF 1 writes_all[OF w2]]
  have "?races (demo_procs, demo_disk) (qs(0 := Dead ?d (Some JNull)), w3)"
    by (rule races_step[OF races_trans[OF 2 writes_begin[OF ops _ w3(1)]] dead]) simp
  then show ?thesis using w3(2) by (auto simp: qs_def)
qed

theorem concurrent_runs_witness:
  "\<exists>ps w. races demo_dump (\<lambda>g. (g, g)) ''out'' (demo_procs, demo_disk) (ps, w) \<and>
     ps 0 = Dead ''out/a'' (Some JNull) \<and> ps 1 = Refused (FileExistsError ''out/a'') \<and>
     files w ''out/a/run_manifest.json'' = Some (''null'' @ nl) \<and>
     files w ''out/a/run_manifest.json.tmp'' = Some ''{''"
proof -
  let ?ps = "demo_procs(1 := Refused (FileExistsError ''out/a''), 0 := Dead ''out/a'' (Some JNull))"
  obtain w where w: "races demo_dump (\<lambda>g. (g, g)) ''out'' (demo_procs, demo_disk) (?ps, w)"
    "files w ''out/a/run_manifest.json.tmp'' = Some ''{''"
    using demo_race by blast
  have "fs_ok ''out'' demo_disk" by (simp add: fs_ok_def demo_disk_def)
  moreover have "\<forall>i. owned (demo_procs i) = None" by (simp add: demo_procs_def)
  ultimately have "\<forall>i d. owned (?ps i) = Some d \<longrightarrow>
      files w (manifest_path d) = map_option (json_text demo_dump) (completed_by (?ps i))"
    using concurrent_runs[OF w(1)] by blast
  then have "files w (manifest_path ''out/a'') = Some (''null'' @ nl)"
    by (auto simp: json_text_def demo_dump_def dest: spec[of _ 0])
  then show ?thesis using w by (intro exI[of _ ?ps] exI[of _ w]) (simp add: manifest_path_def path_join_def)
qed

end
