(* ===== verification/GridData.thy ===== *)
theory GridData
  imports RadUtil PyFloat
begin

text \<open>
  The data of \<open>utils/grid.py\<close>, a viewer for traces of simulations (Python 2): ranges and events on
  named lines of named timelines, the searches of the visible part, the bounds of the trace, the
  colours of the values, and \<open>read_data\<close>, which reads a trace file.

  Times in the file are ints; the ends of the visible part are ints or floats, and Python compares
  the two exactly: \<open>number\<close> and \<open>number_le\<close>. A timeline that is looked up by name and changed through
  the reference is updated in place in its list (\<open>get_or_add\<close>). Python's \<open>list.sort\<close> with a
  comparison function is \<open>sort_by\<close>: a stable sort.
\<close>

section \<open>Numbers\<close>

datatype number = IntN int | FloatN pyfloat

text \<open>The exact value of a number; comparisons look at nothing else.\<close>

fun number_value :: "number \<Rightarrow> pyfloat" where
  "number_value (IntN n) = Fin (of_int n)"
| "number_value (FloatN x) = x"

definition number_le :: "number \<Rightarrow> number \<Rightarrow> bool" where
  "number_le a b = fle (number_value a) (number_value b)"

definition number_less :: "number \<Rightarrow> number \<Rightarrow> bool" where
  "number_less a b = flt (number_value a) (number_value b)"

definition number_eq :: "number \<Rightarrow> number \<Rightarrow> bool" where
  "number_eq a b = feq (number_value a) (number_value b)"

section \<open>Ranges and events\<close>

record data_range =
  dr_start :: int
  dr_end :: int
  dr_value :: string

record 'v trace_event =
  ev_at :: int
  ev_value :: 'v

definition ranges_cmp :: "data_range \<Rightarrow> data_range \<Rightarrow> int" where
  "ranges_cmp a b =
     (let diff = dr_start a - dr_start b in if diff < 0 then - 1 else if 0 < diff then 1 else 0)"

definition events_cmp :: "'v trace_event \<Rightarrow> 'v trace_event \<Rightarrow> int" where
  "events_cmp a b =
     (let diff = ev_at a - ev_at b in if diff < 0 then - 1 else if 0 < diff then 1 else 0)"

fun insert_by :: "('a \<Rightarrow> 'a \<Rightarrow> int) \<Rightarrow> 'a \<Rightarrow> 'a list \<Rightarrow> 'a list" where
  "insert_by cmp x [] = [x]"
| "insert_by cmp x (y # ys) = (if cmp x y \<le> 0 then x # y # ys else y # insert_by cmp x ys)"

definition sort_by :: "('a \<Rightarrow> 'a \<Rightarrow> int) \<Rightarrow> 'a list \<Rightarrow> 'a list" where
  "sort_by cmp xs = foldr (insert_by cmp) xs []"

section \<open>Lines of ranges\<close>

text \<open>\<open>TimelineDataRange.__search\<close>: the index of a range that contains the key, or \<open>-1\<close>.\<close>

function range_search :: "data_range list \<Rightarrow> number \<Rightarrow> int \<Rightarrow> int \<Rightarrow> int" where
  "range_search ranges key l u =
     (if l \<le> u
      then let i = (l + u) div 2; r = ranges ! nat i in
           if number_le (IntN (dr_start r)) key \<and> number_le key (IntN (dr_end r)) then i
           else if number_less key (IntN (dr_start r)) then range_search ranges key l (i - 1)
           else range_search ranges key (i + 1) u
      else - 1)"
  by pat_completeness auto
termination by (relation "measure (\<lambda>(ranges, key, l, u). nat (u - l + 1))") auto

declare range_search.simps [simp del]

record range_line =
  rl_name :: string
  rl_ranges :: "data_range list"

definition search_range :: "data_range list \<Rightarrow> number \<Rightarrow> int" where
  "search_range ranges key = range_search ranges key 0 (int (length ranges) - 1)"

definition add_range :: "data_range \<Rightarrow> range_line \<Rightarrow> range_line" where
  "add_range r line = line\<lparr>rl_ranges := rl_ranges line @ [r]\<rparr>"

definition get_ranges :: "range_line \<Rightarrow> number \<Rightarrow> number \<Rightarrow> data_range list" where
  "get_ranges line start stop =
     (let ranges = rl_ranges line; s = search_range ranges start; e = search_range ranges stop in
      if s = - 1 \<and> e = - 1 then []
      else if s = - 1 then py_slice ranges 0 (e + 1)
      else if e = - 1 then py_slice ranges s (int (length ranges))
      else py_slice ranges s (e + 1))"

definition get_ranges_bounds :: "range_line \<Rightarrow> number \<Rightarrow> number \<Rightarrow> int \<times> int" where
  "get_ranges_bounds line start stop =
     (let ranges = rl_ranges line; s = search_range ranges start; e = search_range ranges stop in
      if s = - 1 \<and> e = - 1 then (0, 0)
      else if s = - 1 then (0, e + 1)
      else if e = - 1 then (s, int (length ranges))
      else (s, e + 1))"

definition sort_ranges :: "range_line \<Rightarrow> range_line" where
  "sort_ranges line = line\<lparr>rl_ranges := sort_by ranges_cmp (rl_ranges line)\<rparr>"

definition range_bounds :: "range_line \<Rightarrow> int \<times> int" where
  "range_bounds line =
     (let ranges = rl_ranges line in
      if 0 < length ranges then (dr_start (ranges ! 0), dr_end (ranges ! (length ranges - 1))) else (0, 0))"

section \<open>Lines of events\<close>

text \<open>\<open>TimelineEvent.__search\<close>: the index of an event at the key, or where one would stand.\<close>

function event_search :: "'v trace_event list \<Rightarrow> number \<Rightarrow> int \<Rightarrow> int \<Rightarrow> int" where
  "event_search events key l u =
     (if l \<le> u
      then let i = (l + u) div 2; a = IntN (ev_at (events ! nat i)) in
           if number_eq key a then i
           else if number_less key a then event_search events key l (i - 1)
           else event_search events key (i + 1) u
      else l)"
  by pat_completeness auto
termination by (relation "measure (\<lambda>(events, key, l, u). nat (u - l + 1))") auto

declare event_search.simps [simp del]

record 'v event_line =
  el_name :: string
  el_events :: "'v trace_event list"

definition search_event :: "'v trace_event list \<Rightarrow> number \<Rightarrow> int" where
  "search_event events key = event_search events key 0 (int (length events) - 1)"

definition add_event :: "'v trace_event \<Rightarrow> 'v event_line \<Rightarrow> 'v event_line" where
  "add_event e line = line\<lparr>el_events := el_events line @ [e]\<rparr>"

definition get_events_bounds :: "'v event_line \<Rightarrow> number \<Rightarrow> number \<Rightarrow> int \<times> int" where
  "get_events_bounds line start stop =
     (let s = search_event (el_events line) start; e = search_event (el_events line) stop in (s, e + 1))"

definition get_events :: "'v event_line \<Rightarrow> number \<Rightarrow> number \<Rightarrow> 'v trace_event list" where
  "get_events line start stop =
     (let s = search_event (el_events line) start; e = search_event (el_events line) stop
      in py_slice (el_events line) s (e + 1))"

definition sort_events :: "'v event_line \<Rightarrow> 'v event_line" where
  "sort_events line = line\<lparr>el_events := sort_by events_cmp (el_events line)\<rparr>"

definition event_bounds :: "'v event_line \<Rightarrow> int \<times> int" where
  "event_bounds line =
     (let events = el_events line in
      if 0 < length events then (ev_at (events ! 0), ev_at (last events)) else (0, 0))"

section \<open>Timelines\<close>

text \<open>
  The first element with the name is changed in place; a new one is appended when there is none.
  This is \<open>get_range\<close>, \<open>get_event_str\<close>, \<open>get_event_int\<close> and \<open>Timelines.get\<close> followed by a change
  through the reference they return.
\<close>

fun get_or_add :: "('a \<Rightarrow> string) \<Rightarrow> (string \<Rightarrow> 'a) \<Rightarrow> string \<Rightarrow> ('a \<Rightarrow> 'a) \<Rightarrow> 'a list \<Rightarrow> 'a list" where
  "get_or_add name_of new name f [] = [f (new name)]"
| "get_or_add name_of new name f (x # xs) =
     (if name_of x = name then f x # xs else x # get_or_add name_of new name f xs)"

record timeline =
  tl_ranges :: "range_line list"
  tl_event_str :: "string event_line list"
  tl_event_int :: "int event_line list"
  tl_name :: string

definition new_timeline :: "string \<Rightarrow> timeline" where
  "new_timeline name = \<lparr>tl_ranges = [], tl_event_str = [], tl_event_int = [], tl_name = name\<rparr>"

definition new_range_line :: "string \<Rightarrow> range_line" where
  "new_range_line name = \<lparr>rl_name = name, rl_ranges = []\<rparr>"

definition new_event_line :: "string \<Rightarrow> 'v event_line" where
  "new_event_line name = \<lparr>el_name = name, el_events = []\<rparr>"

definition with_range :: "string \<Rightarrow> (range_line \<Rightarrow> range_line) \<Rightarrow> timeline \<Rightarrow> timeline" where
  "with_range name f t = t\<lparr>tl_ranges := get_or_add rl_name new_range_line name f (tl_ranges t)\<rparr>"

definition with_event_str :: "string \<Rightarrow> (string event_line \<Rightarrow> string event_line) \<Rightarrow> timeline \<Rightarrow> timeline" where
  "with_event_str name f t = t\<lparr>tl_event_str := get_or_add el_name new_event_line name f (tl_event_str t)\<rparr>"

definition with_event_int :: "string \<Rightarrow> (int event_line \<Rightarrow> int event_line) \<Rightarrow> timeline \<Rightarrow> timeline" where
  "with_event_int name f t = t\<lparr>tl_event_int := get_or_add el_name new_event_line name f (tl_event_int t)\<rparr>"

definition sort_timeline :: "timeline \<Rightarrow> timeline" where
  "sort_timeline t =
     t\<lparr>tl_ranges := map sort_ranges (tl_ranges t), tl_event_int := map sort_events (tl_event_int t),
       tl_event_str := map sort_events (tl_event_str t)\<rparr>"

definition widen :: "int \<times> int \<Rightarrow> int \<times> int \<Rightarrow> int \<times> int" where
  "widen lo_hi b =
     (case (lo_hi, b) of ((lo, hi), (b_lo, b_hi)) \<Rightarrow>
        (if b_lo < lo then b_lo else lo, if hi < b_hi then b_hi else hi))"

definition timeline_bounds :: "timeline \<Rightarrow> int \<times> int" where
  "timeline_bounds t =
     foldl widen (foldl widen (foldl widen (0, 0) (map range_bounds (tl_ranges t)))
       (map event_bounds (tl_event_str t))) (map event_bounds (tl_event_int t))"

type_synonym timelines = "timeline list"

definition with_timeline :: "string \<Rightarrow> (timeline \<Rightarrow> timeline) \<Rightarrow> timelines \<Rightarrow> timelines" where
  "with_timeline = get_or_add tl_name new_timeline"

definition sort_timelines :: "timelines \<Rightarrow> timelines" where
  "sort_timelines ts = map sort_timeline ts"

definition bounds_of :: "timelines \<Rightarrow> int \<times> int" where
  "bounds_of ts = foldl widen (0, 0) (map timeline_bounds ts)"

text \<open>\<open>range_values[ran.value] = 1\<close> for every range; the keys in the order of the dictionary.\<close>

definition all_ranges :: "timelines \<Rightarrow> data_range list" where
  "all_ranges ts = concat (map (\<lambda>t. concat (map rl_ranges (tl_ranges t))) ts)"

definition all_range_values :: "(string list \<Rightarrow> string list) \<Rightarrow> timelines \<Rightarrow> string list" where
  "all_range_values dict_keys ts = dict_keys (remdups (map dr_value (all_ranges ts)))"

section \<open>Colours\<close>

type_synonym color = "int \<times> int \<times> int"

text \<open>The names that have a colour and the list of default colours, which is used up from its end.\<close>

record colors =
  named_colors :: "string \<rightharpoonup> color"
  default_colors :: "color list"

definition new_colors :: colors where
  "new_colors = \<lparr>named_colors = (\<lambda>_. None),
     default_colors = [(1, 0, 0), (0, 1, 0), (0, 0, 1), (1, 1, 0), (1, 0, 1), (0, 1, 1)]\<rparr>"

definition add_color :: "string \<Rightarrow> color \<Rightarrow> colors \<Rightarrow> colors" where
  "add_color name c cs = cs\<lparr>named_colors := (named_colors cs)(name \<mapsto> c)\<rparr>"

definition lookup_color :: "string \<Rightarrow> colors \<Rightarrow> (color \<times> colors) res" where
  "lookup_color name cs =
     (case named_colors cs name of
        Some c \<Rightarrow> Inr (c, cs)
      | None \<Rightarrow>
          if default_colors cs = [] then Inl IndexError
          else Inr (last (default_colors cs),
                    add_color name (last (default_colors cs)) (cs\<lparr>default_colors := butlast (default_colors cs)\<rparr>)))"

text \<open>The loop of \<open>main\<close> over the values.\<close>

fun legend_colors :: "string list \<Rightarrow> colors \<Rightarrow> (color list \<times> colors) res" where
  "legend_colors [] cs = Inr ([], cs)"
| "legend_colors (v # vs) cs =
     bindE (lookup_color v cs) (\<lambda>(c, cs'). bindE (legend_colors vs cs') (\<lambda>(ds, cs''). Inr (c # ds, cs'')))"

section \<open>Reading a trace\<close>

text \<open>
  The regular expressions: a literal text, fields of characters other than the blank and fields of
  digits, with one blank between them, matched at the start of the line. A field ends at the first
  character outside its class, so that nothing is ever matched in a second way.
\<close>

definition literal_text :: "string \<Rightarrow> string \<Rightarrow> string option" where
  "literal_text p s = (if has_prefix p s then Some (drop (length p) s) else None)"

definition class_field :: "(char \<Rightarrow> bool) \<Rightarrow> string \<Rightarrow> (string \<times> string) option" where
  "class_field p s = (let w = takeWhile p s in if w = [] then None else Some (w, drop (length w) s))"

definition word_field :: "string \<Rightarrow> (string \<times> string) option" where
  "word_field s = class_field (\<lambda>c. c \<noteq> CHR '' '') s"

definition digits_field :: "string \<Rightarrow> (int \<times> string) option" where
  "digits_field s =
     map_option (\<lambda>(w, t). (int (foldl (\<lambda>a c. 10 * a + digit_val c) 0 w), t)) (class_field is_digit s)"

definition hex_digit :: "char \<Rightarrow> int option" where
  "hex_digit c =
     (let n = (of_char c :: nat) in
      if 48 \<le> n \<and> n \<le> 57 then Some (int n - 48)
      else if 97 \<le> n \<and> n \<le> 102 then Some (int n - 87)
      else if 65 \<le> n \<and> n \<le> 70 then Some (int n - 55)
      else None)"

definition hex_pair :: "string \<Rightarrow> (int \<times> string) option" where
  "hex_pair s =
     (case s of
        a # b # t \<Rightarrow> Option.bind (hex_digit a) (\<lambda>x. Option.bind (hex_digit b) (\<lambda>y. Some (16 * x + y, t)))
      | _ \<Rightarrow> None)"

text \<open>What a line of a trace says.\<close>

datatype trace_entry =
    Range_Entry string string data_range
  | Str_Entry string string "string trace_event"
  | Int_Entry string string "int trace_event"
  | Color_Entry string int int int

definition match_range :: "string \<Rightarrow> trace_entry option" where
  "match_range s =
     Option.bind (literal_text ''range '' s) (\<lambda>s.
     Option.bind (word_field s) (\<lambda>(t, s). Option.bind (literal_text '' '' s) (\<lambda>s.
     Option.bind (word_field s) (\<lambda>(n, s). Option.bind (literal_text '' '' s) (\<lambda>s.
     Option.bind (word_field s) (\<lambda>(v, s). Option.bind (literal_text '' '' s) (\<lambda>s.
     Option.bind (digits_field s) (\<lambda>(a, s). Option.bind (literal_text '' '' s) (\<lambda>s.
     Option.bind (digits_field s) (\<lambda>(b, s).
     Some (Range_Entry t n \<lparr>dr_start = a, dr_end = b, dr_value = v\<rparr>)))))))))))"

definition match_str :: "string \<Rightarrow> trace_entry option" where
  "match_str s =
     Option.bind (literal_text ''event-str '' s) (\<lambda>s.
     Option.bind (word_field s) (\<lambda>(t, s). Option.bind (literal_text '' '' s) (\<lambda>s.
     Option.bind (word_field s) (\<lambda>(n, s). Option.bind (literal_text '' '' s) (\<lambda>s.
     Option.bind (word_field s) (\<lambda>(v, s). Option.bind (literal_text '' '' s) (\<lambda>s.
     Option.bind (digits_field s) (\<lambda>(a, s).
     Some (Str_Entry t n \<lparr>ev_at = a, ev_value = v\<rparr>)))))))))"

definition match_int :: "string \<Rightarrow> trace_entry option" where
  "match_int s =
     Option.bind (literal_text ''event-int '' s) (\<lambda>s.
     Option.bind (word_field s) (\<lambda>(t, s). Option.bind (literal_text '' '' s) (\<lambda>s.
     Option.bind (word_field s) (\<lambda>(n, s). Option.bind (literal_text '' '' s) (\<lambda>s.
     Option.bind (digits_field s) (\<lambda>(v, s). Option.bind (literal_text '' '' s) (\<lambda>s.
     Option.bind (digits_field s) (\<lambda>(a, s).
     Some (Int_Entry t n \<lparr>ev_at = a, ev_value = v\<rparr>)))))))))"

definition match_color :: "string \<Rightarrow> trace_entry option" where
  "match_color s =
     Option.bind (literal_text ''color '' s) (\<lambda>s.
     Option.bind (word_field s) (\<lambda>(n, s). Option.bind (literal_text '' #'' s) (\<lambda>s.
     Option.bind (hex_pair s) (\<lambda>(r, s). Option.bind (hex_pair s) (\<lambda>(g, s).
     Option.bind (hex_pair s) (\<lambda>(b, s). Some (Color_Entry n r g b)))))))"

definition match_line :: "string \<Rightarrow> trace_entry option" where
  "match_line s =
     (case match_range s of Some e \<Rightarrow> Some e | None \<Rightarrow>
      case match_str s of Some e \<Rightarrow> Some e | None \<Rightarrow>
      case match_int s of Some e \<Rightarrow> Some e | None \<Rightarrow> match_color s)"

text \<open>The body of the loop; \<open>r / 255\<close> is a division of ints.\<close>

fun take_entry :: "trace_entry \<Rightarrow> colors \<times> timelines \<Rightarrow> colors \<times> timelines" where
  "take_entry (Range_Entry t n r) (cs, ts) = (cs, with_timeline t (with_range n (add_range r)) ts)"
| "take_entry (Str_Entry t n e) (cs, ts) = (cs, with_timeline t (with_event_str n (add_event e)) ts)"
| "take_entry (Int_Entry t n e) (cs, ts) = (cs, with_timeline t (with_event_int n (add_event e)) ts)"
| "take_entry (Color_Entry n r g b) (cs, ts) = (add_color n (r div 255, g div 255, b div 255) cs, ts)"

definition take_line :: "colors \<times> timelines \<Rightarrow> string \<Rightarrow> colors \<times> timelines" where
  "take_line st l = (case match_line l of None \<Rightarrow> st | Some e \<Rightarrow> take_entry e st)"

definition read_data :: "string \<Rightarrow> colors \<times> timelines" where
  "read_data contents =
     (case foldl take_line (new_colors, []) (py_lines contents) of (cs, ts) \<Rightarrow> (cs, sort_timelines ts))"


section \<open>Lists of named items\<close>

text \<open>
  What the three classes of named objects share: a new one carries its name. A change through the
  reference that the lookup returned does not rename it. Then the lookup after a change finds the
  changed object under its name and what it found before under every other name, and no name ever
  occurs twice.
\<close>

definition item :: "('a \<Rightarrow> string) \<Rightarrow> (string \<Rightarrow> 'a) \<Rightarrow> string \<Rightarrow> 'a list \<Rightarrow> 'a" where
  "item name_of new name xs = (case find (\<lambda>x. name_of x = name) xs of None \<Rightarrow> new name | Some x \<Rightarrow> x)"

locale named_items =
  fixes name_of :: "'a \<Rightarrow> string" and new :: "string \<Rightarrow> 'a"
  assumes name_of_new: "name_of (new name) = name"
begin

lemma item_name [simp]: "name_of (item name_of new name xs) = name"
  by (auto simp: item_def name_of_new find_Some_iff split: option.splits)

lemma item_get_or_add:
  assumes "\<And>x. name_of (f x) = name_of x"
  shows "item name_of new name (get_or_add name_of new name' f xs) =
    (if name = name' then f (item name_of new name xs) else item name_of new name xs)"
  by (induction xs) (auto simp: item_def assms name_of_new)

lemma names_get_or_add:
  assumes "\<And>x. name_of (f x) = name_of x"
  shows "map name_of (get_or_add name_of new name f xs) =
    (if name \<in> name_of ` set xs then map name_of xs else map name_of xs @ [name])"
  by (induction xs) (auto simp: assms name_of_new)

lemma distinct_get_or_add:
  assumes "\<And>x. name_of (f x) = name_of x" "distinct (map name_of xs)"
  shows "distinct (map name_of (get_or_add name_of new name f xs))"
  using assms by (simp add: names_get_or_add)

lemma item_map:
  assumes "\<And>x. name_of (f x) = name_of x" "\<And>n. f (new n) = new n"
  shows "item name_of new name (map f xs) = f (item name_of new name xs)"
  by (induction xs) (auto simp: item_def assms)

lemma item_mem: "distinct (map name_of xs) \<Longrightarrow> x \<in> set xs \<Longrightarrow> item name_of new (name_of x) xs = x"
  by (induction xs) (auto simp: item_def)

lemma item_cases: "item name_of new name xs \<in> set xs \<or> item name_of new name xs = new name"
  by (auto simp: item_def find_Some_iff split: option.splits)

end

interpretation timelines: named_items tl_name new_timeline
  by unfold_locales (simp add: new_timeline_def)

interpretation range_lines: named_items rl_name new_range_line
  by unfold_locales (simp add: new_range_line_def)

interpretation event_lines: named_items el_name "new_event_line :: string \<Rightarrow> 'v event_line"
  by unfold_locales (simp add: new_event_line_def)

section \<open>Sorting\<close>

lemma insert_by_key:
  assumes "\<And>a b. cmp a b \<le> 0 \<longleftrightarrow> f a \<le> (f b :: int)"
  shows "insert_by cmp x ys = insort_key f x ys"
  by (induction ys) (auto simp: assms)

lemma sort_by_key:
  assumes "\<And>a b. cmp a b \<le> 0 \<longleftrightarrow> f a \<le> (f b :: int)"
  shows "sort_by cmp xs = sort_key f xs"
  unfolding sort_by_def sort_key_def
  by (induction xs) (simp_all add: insert_by_key[OF assms])

lemma sort_ranges_cmp: "sort_by ranges_cmp = sort_key dr_start"
  by (rule ext, rule sort_by_key) (simp add: ranges_cmp_def)

lemma sort_events_cmp: "sort_by events_cmp = sort_key ev_at"
  by (rule ext, rule sort_by_key) (simp add: events_cmp_def)

section \<open>Searching ranges\<close>

definition covers_time :: "data_range \<Rightarrow> rat \<Rightarrow> bool" where
  "covers_time r q \<longleftrightarrow> of_int (dr_start r) \<le> q \<and> q \<le> of_int (dr_end r)"

text \<open>The ranges of a line one after the other, without overlaps.\<close>

definition spaced :: "data_range list \<Rightarrow> bool" where
  "spaced rs \<longleftrightarrow> (\<forall>r \<in> set rs. dr_start r \<le> dr_end r) \<and> sorted_wrt (\<lambda>r s. dr_end r < dr_start s) rs"

lemma number_simps:
  assumes "number_value key = Fin q"
  shows "number_le (IntN n) key \<longleftrightarrow> of_int n \<le> q" "number_le key (IntN n) \<longleftrightarrow> q \<le> of_int n"
    "number_less key (IntN n) \<longleftrightarrow> q < of_int n" "number_eq key (IntN n) \<longleftrightarrow> q = of_int n"
  by (simp_all add: number_le_def number_less_def number_eq_def assms)

lemma spaced_less: "spaced rs \<Longrightarrow> i < j \<Longrightarrow> j < length rs \<Longrightarrow> dr_end (rs ! i) < dr_start (rs ! j)"
  by (auto simp: spaced_def sorted_wrt_iff_nth_less)

lemma spaced_order: "spaced rs \<Longrightarrow> i < length rs \<Longrightarrow> dr_start (rs ! i) \<le> dr_end (rs ! i)"
  by (auto simp: spaced_def)

lemma spaced_covers:
  assumes "spaced rs" "i < length rs" "covers_time (rs ! i) q" "j < length rs"
  shows "of_int (dr_start (rs ! j)) \<le> q \<longleftrightarrow> j \<le> i" "q \<le> of_int (dr_end (rs ! j)) \<longleftrightarrow> i \<le> j"
proof -
  have less: "(of_int (dr_end (rs ! a)) :: rat) < of_int (dr_start (rs ! b))" if "a < b" "b < length rs" for a b
    using spaced_less[OF assms(1) that] by simp
  have ord: "(of_int (dr_start (rs ! j)) :: rat) \<le> of_int (dr_end (rs ! j))"
    using spaced_order[OF assms(1,4)] by simp
  show "of_int (dr_start (rs ! j)) \<le> q \<longleftrightarrow> j \<le> i"
    using less[of i j] less[of j i] ord assms(2-4) by (cases i j rule: linorder_cases) (auto simp: covers_time_def)
  show "q \<le> of_int (dr_end (rs ! j)) \<longleftrightarrow> i \<le> j"
    using less[of i j] less[of j i] ord assms(2-4) by (cases i j rule: linorder_cases) (auto simp: covers_time_def)
qed

lemma range_search_hit:
  assumes "number_value key = Fin q" "spaced rs" "i < length rs" "covers_time (rs ! i) q"
    and "0 \<le> l" "l \<le> int i" "int i \<le> u" "u < int (length rs)"
  shows "range_search rs key l u = int i"
  using assms
proof (induction rs key l u rule: range_search.induct)
  case (1 rs key l u)
  let ?m = "(l + u) div 2"
  have m: "l \<le> ?m" "?m \<le> u" "nat ?m < length rs" "int (nat ?m) = ?m" and lu: "l \<le> u"
    using 1(7-10) by linarith+
  note cov = spaced_covers[OF 1(4,5,6) m(3)]
  note test = number_simps[OF 1(3)]
  show ?case
  proof (cases "nat ?m" i rule: linorder_cases)
    case less
    then have "range_search rs key (?m + 1) u = int i"
      using 1(2)[OF lu refl refl] 1(3-10) cov m by (auto simp: test)
    then show ?thesis using less lu cov by (subst range_search.simps) (simp add: Let_def test)
  next
    case equal
    then show ?thesis using lu cov m(4) by (subst range_search.simps) (simp add: Let_def test)
  next
    case greater
    then have "range_search rs key l (?m - 1) = int i"
      using 1(1)[OF lu refl refl] 1(3-10) cov m by (auto simp: test)
    then show ?thesis using greater lu cov by (subst range_search.simps) (simp add: Let_def test)
  qed
qed

lemma range_search_miss:
  assumes "number_value key = Fin q" "\<forall>r \<in> set rs. \<not> covers_time r q" "0 \<le> l" "u < int (length rs)"
  shows "range_search rs key l u = - 1"
  using assms
proof (induction rs key l u rule: range_search.induct)
  case (1 rs key l u)
  show ?case
  proof (cases "l \<le> u")
    case True
    let ?m = "(l + u) div 2"
    have m: "l \<le> ?m" "?m \<le> u" "nat ?m < length rs" using 1(5,6) True by linarith+
    then have "\<not> covers_time (rs ! nat ?m) q" using 1(4) by simp
    then show ?thesis
      using 1(1)[OF True refl refl] 1(2)[OF True refl refl] 1(3-6) m
      by (subst range_search.simps) (auto simp: Let_def number_simps[OF 1(3)] covers_time_def)
  qed (simp add: range_search.simps)
qed


lemma search_range:
  assumes "number_value key = Fin q" "spaced rs"
  shows "i < length rs \<Longrightarrow> covers_time (rs ! i) q \<Longrightarrow> search_range rs key = int i"
    and "\<forall>r \<in> set rs. \<not> covers_time r q \<Longrightarrow> search_range rs key = - 1"
  using range_search_hit[OF assms, of i 0] range_search_miss[OF assms(1)]
  by (auto simp: search_range_def)

lemma filter_drop_at:
  assumes "\<And>i. i < length xs \<Longrightarrow> P (xs ! i) \<longleftrightarrow> n \<le> i"
  shows "filter P xs = drop n xs"
proof -
  have "filter P (take n xs) = []" "filter P (drop n xs) = drop n xs"
    using assms by (auto simp: filter_empty_conv filter_id_conv in_set_conv_nth)
  then show ?thesis by (metis append_Nil append_take_drop_id filter_append)
qed

lemma filter_take_at:
  assumes "\<And>i. i < length xs \<Longrightarrow> P (xs ! i) \<longleftrightarrow> i < n"
  shows "filter P xs = take n xs"
proof -
  have "filter P (take n xs) = take n xs" "filter P (drop n xs) = []"
    using assms by (auto simp: filter_empty_conv filter_id_conv in_set_conv_nth)
  then show ?thesis by (metis append_Nil2 append_take_drop_id filter_append)
qed

lemma filter_covered:
  assumes "spaced rs" "i < length rs" "covers_time (rs ! i) q"
  shows "filter (\<lambda>r. of_int (dr_start r) \<le> q) rs = take (i + 1) rs"
    and "filter (\<lambda>r. q \<le> of_int (dr_end r)) rs = drop i rs"
  using spaced_covers[OF assms] by (auto intro!: filter_take_at filter_drop_at)

text \<open>
  What the viewer takes for the visible part of a line of ranges that do not overlap: the
  ranges that meet the interval when both its ends lie in ranges; every range up to the one that
  contains the end, respectively from the one that contains the start, when only that end lies in
  a range; nothing at all when both ends fall into gaps, whatever lies between them.
\<close>

definition visible_ranges :: "data_range list \<Rightarrow> rat \<Rightarrow> rat \<Rightarrow> data_range list" where
  "visible_ranges rs x y =
     (let hit = (\<lambda>q. list_ex (\<lambda>r. covers_time r q) rs) in
      if hit x \<and> hit y then filter (\<lambda>r. x \<le> of_int (dr_end r) \<and> of_int (dr_start r) \<le> y) rs
      else if hit y then filter (\<lambda>r. of_int (dr_start r) \<le> y) rs
      else if hit x then filter (\<lambda>r. x \<le> of_int (dr_end r)) rs
      else [])"

lemma get_ranges_slice:
  "get_ranges line a b = (case get_ranges_bounds line a b of (lo, hi) \<Rightarrow> py_slice (rl_ranges line) lo hi)"
  using py_slice_nat[of "rl_ranges line" 0 0] by (simp add: get_ranges_def get_ranges_bounds_def Let_def)

lemma get_ranges_visible:
  assumes "number_value a = Fin x" "number_value b = Fin y" "spaced rs" "rl_ranges line = rs"
  shows "get_ranges line a b = visible_ranges rs x y"
proof -
  have ne: "int i \<noteq> - 1" for i by simp
  have found: "\<exists>i. i < length rs \<and> covers_time (rs ! i) q \<and> search_range rs k = int i"
    if "number_value k = Fin q" "list_ex (\<lambda>r. covers_time r q) rs" for k q
    using that search_range(1)[OF that(1) assms(3)] by (auto simp: list_ex_iff in_set_conv_nth)
  have lost: "search_range rs k = - 1" if "number_value k = Fin q" "\<not> list_ex (\<lambda>r. covers_time r q) rs" for k q
    using that search_range(2)[OF that(1) assms(3)] by (auto simp: list_ex_iff)
  have slice: "py_slice rs (int i) (int j + 1) = take (j + 1 - i) (drop i rs)"
    "py_slice rs 0 (int j + 1) = take (j + 1) rs" "py_slice rs (int i) (int (length rs)) = drop i rs" for i j
    using py_slice_nat[of rs i "j + 1"] py_slice_nat[of rs 0 "j + 1"] py_slice_nat[of rs i "length rs"]
    by (simp_all add: add.commute)
  show ?thesis
  proof (cases "list_ex (\<lambda>r. covers_time r x) rs"; cases "list_ex (\<lambda>r. covers_time r y) rs")
    assume h: "list_ex (\<lambda>r. covers_time r x) rs" "list_ex (\<lambda>r. covers_time r y) rs"
    obtain i j where ij: "i < length rs" "covers_time (rs ! i) x" "search_range rs a = int i"
      "j < length rs" "covers_time (rs ! j) y" "search_range rs b = int j"
      using found[OF assms(1) h(1)] found[OF assms(2) h(2)] by blast
    have "filter (\<lambda>r. x \<le> of_int (dr_end r) \<and> of_int (dr_start r) \<le> y) rs
        = filter (\<lambda>r. x \<le> of_int (dr_end r)) (filter (\<lambda>r. of_int (dr_start r) \<le> y) rs)"
      by (simp add: conj_commute)
    also have "\<dots> = drop i (take (j + 1) rs)"
      unfolding filter_covered(1)[OF assms(3) ij(4,5)]
      using spaced_covers(2)[OF assms(3) ij(1,2)] by (intro filter_drop_at) simp
    finally show ?thesis
      using h ij by (simp add: get_ranges_def visible_ranges_def assms(4) slice drop_take)
  next
    assume h: "list_ex (\<lambda>r. covers_time r x) rs" "\<not> list_ex (\<lambda>r. covers_time r y) rs"
    obtain i where i: "i < length rs" "covers_time (rs ! i) x" "search_range rs a = int i"
      using found[OF assms(1) h(1)] by blast
    show ?thesis
      using h i lost[OF assms(2) h(2)] filter_covered(2)[OF assms(3) i(1,2)]
      by (simp add: get_ranges_def visible_ranges_def assms(4) slice)
  next
    assume h: "\<not> list_ex (\<lambda>r. covers_time r x) rs" "list_ex (\<lambda>r. covers_time r y) rs"
    obtain j where j: "j < length rs" "covers_time (rs ! j) y" "search_range rs b = int j"
      using found[OF assms(2) h(2)] by blast
    show ?thesis
      using h j lost[OF assms(1) h(1)] filter_covered(1)[OF assms(3) j(1,2)]
      by (simp add: get_ranges_def visible_ranges_def assms(4) slice)
  next
    assume h: "\<not> list_ex (\<lambda>r. covers_time r x) rs" "\<not> list_ex (\<lambda>r. covers_time r y) rs"
    show ?thesis
      using h lost[OF assms(1) h(1)] lost[OF assms(2) h(2)]
      by (simp add: get_ranges_def visible_ranges_def assms(4))
  qed
qed

section \<open>Searching events\<close>

text \<open>The number of events before a time; the events of a line in strictly increasing order.\<close>

definition before :: "rat \<Rightarrow> 'v trace_event list \<Rightarrow> nat" where
  "before q es = length (filter (\<lambda>e. of_int (ev_at e) < q) es)"

definition in_order :: "'v trace_event list \<Rightarrow> bool" where
  "in_order es \<longleftrightarrow> sorted_wrt (\<lambda>d e. ev_at d < ev_at e) es"

lemma before_nth:
  assumes "in_order es" "i < length es"
  shows "of_int (ev_at (es ! i)) < (q :: rat) \<longleftrightarrow> i < before q es"
  using assms
proof (induction es arbitrary: i)
  case (Cons e es)
  show ?case
  proof (cases "of_int (ev_at e) < q")
    case True
    then show ?thesis using Cons by (cases i) (auto simp: before_def in_order_def)
  next
    case False
    then have ge: "\<forall>d \<in> set es. \<not> of_int (ev_at d) < q"
      using Cons.prems(1) unfolding in_order_def
      by (auto simp: not_less)
    then have "filter (\<lambda>e. of_int (ev_at e) < q) (e # es) = []" using False by (simp add: filter_empty_conv)
    moreover have "\<not> of_int (ev_at ((e # es) ! i)) < q"
      using False ge Cons.prems(2) by (cases i) auto
    ultimately show ?thesis by (simp add: before_def)
  qed
qed simp

lemma before_le: "before q es \<le> length es"
  by (simp add: before_def)

lemma before_equal:
  assumes "in_order es" "i < length es" "q = of_int (ev_at (es ! i))"
  shows "before q es = i"
proof (rule ccontr)
  assume n: "before q es \<noteq> i"
  have "\<not> i < before q es" using before_nth[OF assms(1,2), of q] assms(3) by simp
  then have less: "before q es < i" using n by simp
  then have "ev_at (es ! before q es) < ev_at (es ! i)"
    using assms(1,2) by (simp add: in_order_def sorted_wrt_iff_nth_less)
  then show False using before_nth[OF assms(1), of "before q es" q] less assms(2,3) by simp
qed

lemma event_search_before:
  assumes "number_value key = Fin q" "in_order es"
    and "0 \<le> l" "l \<le> int (before q es)" "int (before q es) \<le> u + 1" "u < int (length es)"
  shows "event_search es key l u = int (before q es)"
  using assms
proof (induction es key l u rule: event_search.induct)
  case (1 es key l u)
  show ?case
  proof (cases "l \<le> u")
    case True
    let ?m = "(l + u) div 2"
    have m: "l \<le> ?m" "?m \<le> u" "nat ?m < length es" "int (nat ?m) = ?m" using 1(5,8) True by linarith+
    note test = number_simps[OF 1(3)] and nth = before_nth[OF 1(4) m(3), of q]
    consider "q = of_int (ev_at (es ! nat ?m))" | "q < of_int (ev_at (es ! nat ?m))"
      | "of_int (ev_at (es ! nat ?m)) < q" by linarith
    then show ?thesis
    proof cases
      case 1
      then show ?thesis
        using before_equal[OF "1.prems"(2) m(3)] m(4) True by (subst event_search.simps) (simp add: Let_def test)
    next
      case 2
      have "int (before q es) \<le> ?m" using nth 2 m(4) by linarith
      then have "event_search es key l (?m - 1) = int (before q es)"
        using 2 1(1)[OF True refl refl] 1(3-8) nth m by (auto simp: test)
      then show ?thesis using 2 True by (subst event_search.simps) (simp add: Let_def test)
    next
      case 3
      then have "event_search es key (?m + 1) u = int (before q es)"
        using 1(2)[OF True refl refl] 1(3-8) nth m by (auto simp: test)
      then show ?thesis using 3 True by (subst event_search.simps) (simp add: Let_def test)
    qed
  qed (use 1(6,7) in \<open>simp add: event_search.simps\<close>)
qed

lemma search_event:
  "number_value key = Fin q \<Longrightarrow> in_order es \<Longrightarrow> search_event es key = int (before q es)"
  using event_search_before[of key q es 0] before_le[of q es] by (simp add: search_event_def)

text \<open>The visible events: those from the start on, up to the first one at or after the end.\<close>

definition visible_events :: "'v trace_event list \<Rightarrow> rat \<Rightarrow> rat \<Rightarrow> 'v trace_event list" where
  "visible_events es x y =
     filter (\<lambda>e. x \<le> of_int (ev_at e) \<and> of_int (ev_at e) < y) es @ take 1 (filter (\<lambda>e. y \<le> of_int (ev_at e)) es)"

lemma get_events_visible:
  assumes "number_value a = Fin x" "number_value b = Fin y" "x \<le> y" "in_order (el_events line)"
  shows "get_events line a b = visible_events (el_events line) x y"
proof -
  define es where "es = el_events line"
  have ord: "in_order es" using assms(4) by (simp add: es_def)
  have le: "before x es \<le> before y es"
  proof -
    have "filter (\<lambda>e. of_int (ev_at e) < x) es = filter (\<lambda>e. of_int (ev_at e) < x) (filter (\<lambda>e. of_int (ev_at e) < y) es)"
      using assms(3) by (auto intro!: filter_cong)
    then show ?thesis unfolding before_def by (metis length_filter_le)
  qed
  have "filter (\<lambda>e. x \<le> of_int (ev_at e) \<and> of_int (ev_at e) < y) es
      = filter (\<lambda>e. x \<le> of_int (ev_at e)) (filter (\<lambda>e. of_int (ev_at e) < y) es)"
    by (simp add: conj_commute)
  also have "filter (\<lambda>e. of_int (ev_at e) < y) es = take (before y es) es"
    by (rule filter_take_at) (rule before_nth[OF ord])
  also have "filter (\<lambda>e. x \<le> of_int (ev_at e)) \<dots> = drop (before x es) (take (before y es) es)"
    using before_nth[OF ord, of _ x] by (intro filter_drop_at) (simp add: not_less[symmetric])
  finally have mid: "filter (\<lambda>e. x \<le> of_int (ev_at e) \<and> of_int (ev_at e) < y) es
      = drop (before x es) (take (before y es) es)" .
  have high: "filter (\<lambda>e. y \<le> of_int (ev_at e)) es = drop (before y es) es"
    using before_nth[OF ord, of _ y] by (intro filter_drop_at) (simp add: not_less[symmetric])
  have "get_events line a b = take (before y es + 1 - before x es) (drop (before x es) es)"
    using search_event[OF assms(1) ord] search_event[OF assms(2) ord] py_slice_nat[of es "before x es" "before y es + 1"]
    by (simp add: get_events_def es_def add.commute)
  also have "\<dots> = drop (before x es) (take (before y es + 1) es)" by (simp add: drop_take)
  also have "take (before y es + 1) es = take (before y es) es @ take 1 (drop (before y es) es)"
    using take_add[of "before y es" 1 es] by simp
  finally show ?thesis
    using le before_le[of y es] unfolding visible_events_def es_def[symmetric] mid high by simp
qed

end
