(* ===== verification/GridTrace.thy ===== *)
theory GridTrace
  imports GridData
begin

text \<open>
  What \<open>grid.py\<close> knows after it has read a trace: the ranges and events on each line are those of the
  matching lines of the file in the order of time (\<open>read_data_groups\<close>), the bounds (\<open>trace_bounds\<close>),
  the visible part (\<open>visible_part\<close>), the colours (\<open>trace_colors\<close>), and a round trip for traces that
  are written in the expected form (\<open>trace_read_back\<close>).
\<close>

section \<open>The lines of a trace\<close>

definition entries :: "string \<Rightarrow> trace_entry list" where
  "entries contents = List.map_filter match_line (py_lines contents)"

fun entry_range :: "string \<Rightarrow> string \<Rightarrow> trace_entry \<Rightarrow> data_range list" where
  "entry_range t n (Range_Entry t' n' r) = (if t' = t \<and> n' = n then [r] else [])"
| "entry_range t n _ = []"

fun entry_str :: "string \<Rightarrow> string \<Rightarrow> trace_entry \<Rightarrow> string trace_event list" where
  "entry_str t n (Str_Entry t' n' e) = (if t' = t \<and> n' = n then [e] else [])"
| "entry_str t n _ = []"

fun entry_int :: "string \<Rightarrow> string \<Rightarrow> trace_entry \<Rightarrow> int trace_event list" where
  "entry_int t n (Int_Entry t' n' e) = (if t' = t \<and> n' = n then [e] else [])"
| "entry_int t n _ = []"

text \<open>What the viewer holds on a line of a timeline; nothing when there is no such line.\<close>

definition ranges_on :: "timelines \<Rightarrow> string \<Rightarrow> string \<Rightarrow> data_range list" where
  "ranges_on ts t n = rl_ranges (item rl_name new_range_line n (tl_ranges (item tl_name new_timeline t ts)))"

definition strs_on :: "timelines \<Rightarrow> string \<Rightarrow> string \<Rightarrow> string trace_event list" where
  "strs_on ts t n = el_events (item el_name new_event_line n (tl_event_str (item tl_name new_timeline t ts)))"

definition ints_on :: "timelines \<Rightarrow> string \<Rightarrow> string \<Rightarrow> int trace_event list" where
  "ints_on ts t n = el_events (item el_name new_event_line n (tl_event_int (item tl_name new_timeline t ts)))"

lemma with_names [simp]:
  "tl_name (with_range n f t) = tl_name t" "tl_name (with_event_str n g t) = tl_name t"
  "tl_name (with_event_int n h t) = tl_name t" "tl_name (sort_timeline t) = tl_name t"
  "rl_name (add_range r l) = rl_name l" "el_name (add_event e k) = el_name k"
  "rl_name (sort_ranges l) = rl_name l" "el_name (sort_events k) = el_name k"
  by (simp_all add: with_range_def with_event_str_def with_event_int_def sort_timeline_def
      add_range_def add_event_def sort_ranges_def sort_events_def)

lemma take_entry_on:
  assumes "take_entry e (cs, ts) = (cs', ts')"
  shows "ranges_on ts' t n = ranges_on ts t n @ entry_range t n e"
    and "strs_on ts' t n = strs_on ts t n @ entry_str t n e"
    and "ints_on ts' t n = ints_on ts t n @ entry_int t n e"
  using assms
  by (cases e; auto simp: ranges_on_def strs_on_def ints_on_def with_timeline_def timelines.item_get_or_add
      with_range_def with_event_str_def with_event_int_def range_lines.item_get_or_add
      event_lines.item_get_or_add add_range_def add_event_def)+


definition collect_entries :: "(trace_entry \<Rightarrow> 'b list) \<Rightarrow> string \<Rightarrow> 'b list" where
  "collect_entries pick contents = concat (map pick (entries contents))"

lemma take_lines_on:
  assumes "foldl take_line (cs, ts) ls = (cs', ts')"
  shows "ranges_on ts' t n = ranges_on ts t n @ concat (map (entry_range t n) (List.map_filter match_line ls)) \<and>
    strs_on ts' t n = strs_on ts t n @ concat (map (entry_str t n) (List.map_filter match_line ls)) \<and>
    ints_on ts' t n = ints_on ts t n @ concat (map (entry_int t n) (List.map_filter match_line ls))"
  using assms
proof (induction ls arbitrary: cs ts)
  case Nil
  then show ?case by (simp add: List.map_filter_def)
next
  case (Cons l ls)
  obtain cs1 ts1 where s: "take_line (cs, ts) l = (cs1, ts1)" by fastforce
  have ih: "foldl take_line (cs1, ts1) ls = (cs', ts')" using Cons.prems s by simp
  show ?case
  proof (cases "match_line l")
    case None
    then show ?thesis using Cons.IH[OF ih] s by (simp add: take_line_def List.map_filter_def)
  next
    case (Some e)
    then have "take_entry e (cs, ts) = (cs1, ts1)" using s by (simp add: take_line_def)
    from take_entry_on[OF this] show ?thesis using Cons.IH[OF ih] Some by (simp add: List.map_filter_def)
  qed
qed

lemma sort_lines [simp]:
  "sort_ranges (new_range_line n) = new_range_line n" "sort_events (new_event_line n) = new_event_line n"
  "sort_timeline (new_timeline t) = new_timeline t"
  by (simp_all add: sort_ranges_def sort_events_def sort_by_def new_range_line_def new_event_line_def
      sort_timeline_def new_timeline_def)

lemma sort_timelines_on:
  "ranges_on (sort_timelines ts) t n = sort_key dr_start (ranges_on ts t n)"
  "strs_on (sort_timelines ts) t n = sort_key ev_at (strs_on ts t n)"
  "ints_on (sort_timelines ts) t n = sort_key ev_at (ints_on ts t n)"
proof -
  have item: "item tl_name new_timeline t (sort_timelines ts) = sort_timeline (item tl_name new_timeline t ts)"
    unfolding sort_timelines_def by (rule timelines.item_map) simp_all
  have range: "item rl_name new_range_line n (map sort_ranges ls) = sort_ranges (item rl_name new_range_line n ls)" for ls
    by (rule range_lines.item_map) simp_all
  have str: "item el_name new_event_line n (map sort_events ls) = sort_events (item el_name new_event_line n ls)" for ls :: "'v event_line list"
    by (rule event_lines.item_map) simp_all
  show "ranges_on (sort_timelines ts) t n = sort_key dr_start (ranges_on ts t n)"
    unfolding ranges_on_def item by (simp add: sort_timeline_def range, simp add: sort_ranges_def sort_ranges_cmp)
  show "strs_on (sort_timelines ts) t n = sort_key ev_at (strs_on ts t n)"
    unfolding strs_on_def item by (simp add: sort_timeline_def str, simp add: sort_events_def sort_events_cmp)
  show "ints_on (sort_timelines ts) t n = sort_key ev_at (ints_on ts t n)"
    unfolding ints_on_def item by (simp add: sort_timeline_def str, simp add: sort_events_def sort_events_cmp)
qed

lemma empty_on: "ranges_on [] t n = []" "strs_on [] t n = []" "ints_on [] t n = []"
  by (simp_all add: ranges_on_def strs_on_def ints_on_def item_def new_timeline_def new_range_line_def new_event_line_def)

lemma read_data_on:
  fixes contents :: string
  defines "ts \<equiv> snd (read_data contents)"
  shows "ranges_on ts t n = sort_key dr_start (collect_entries (entry_range t n) contents)"
    and "strs_on ts t n = sort_key ev_at (collect_entries (entry_str t n) contents)"
    and "ints_on ts t n = sort_key ev_at (collect_entries (entry_int t n) contents)"
proof -
  obtain cs' ts' where f: "foldl take_line (new_colors, []) (py_lines contents) = (cs', ts')" by fastforce
  then have ts: "ts = sort_timelines ts'" by (simp add: ts_def read_data_def)
  note on = take_lines_on[OF f, of t n]
  show "ranges_on ts t n = sort_key dr_start (collect_entries (entry_range t n) contents)"
    "strs_on ts t n = sort_key ev_at (collect_entries (entry_str t n) contents)"
    "ints_on ts t n = sort_key ev_at (collect_entries (entry_int t n) contents)"
    using on by (simp_all add: ts sort_timelines_on empty_on collect_entries_def entries_def)
qed

text \<open>No name occurs twice: neither a timeline nor a line of one kind in a timeline.\<close>

definition lines_once :: "timeline \<Rightarrow> bool" where
  "lines_once t \<longleftrightarrow> distinct (map rl_name (tl_ranges t)) \<and> distinct (map el_name (tl_event_str t)) \<and>
     distinct (map el_name (tl_event_int t))"

definition named_once :: "timelines \<Rightarrow> bool" where
  "named_once ts \<longleftrightarrow> distinct (map tl_name ts) \<and> list_all lines_once ts"

lemma set_get_or_add: "set (get_or_add nm new name f xs) \<subseteq> set xs \<union> f ` insert (new name) (set xs)"
  by (induction xs) auto

lemma with_timeline_once:
  assumes "named_once ts" and "\<And>t. tl_name (f t) = tl_name t" "\<And>t. lines_once t \<Longrightarrow> lines_once (f t)"
  shows "named_once (with_timeline name f ts)"
proof -
  have "lines_once (new_timeline name)" by (simp add: lines_once_def new_timeline_def)
  then have "list_all lines_once (with_timeline name f ts)"
    using set_get_or_add[of tl_name new_timeline name f ts] assms(1,3)
    by (auto simp: with_timeline_def named_once_def list_all_iff)
  then show ?thesis
    using timelines.distinct_get_or_add[of f ts name] assms(1,2) by (simp add: with_timeline_def named_once_def)
qed

lemma with_line_once:
  "lines_once t \<Longrightarrow> lines_once (with_range n (add_range r) t)"
  "lines_once t \<Longrightarrow> lines_once (with_event_str n (add_event s) t)"
  "lines_once t \<Longrightarrow> lines_once (with_event_int n (add_event i) t)"
  by (simp_all add: lines_once_def with_range_def with_event_str_def with_event_int_def
      range_lines.distinct_get_or_add event_lines.distinct_get_or_add)

lemma take_lines_once:
  assumes "named_once ts" "foldl take_line (cs, ts) ls = (cs', ts')"
  shows "named_once ts'"
  using assms
proof (induction ls arbitrary: cs ts)
  case (Cons l ls)
  obtain cs1 ts1 where s: "take_line (cs, ts) l = (cs1, ts1)" by fastforce
  have once: "named_once ts1"
  proof (cases "match_line l")
    case (Some e)
    then have "take_entry e (cs, ts) = (cs1, ts1)" using s by (simp add: take_line_def)
    then show ?thesis
      using Cons.prems(1) by (cases e) (auto intro!: with_timeline_once with_line_once)
  qed (use s Cons.prems(1) in \<open>simp add: take_line_def\<close>)
  show ?case by (rule Cons.IH[OF once]) (use Cons.prems(2) s in simp)
qed simp

lemma read_data_once: "named_once (snd (read_data contents))"
proof -
  obtain cs' ts' where f: "foldl take_line (new_colors, []) (py_lines contents) = (cs', ts')" by fastforce
  have "named_once ts'" by (rule take_lines_once[OF _ f]) (simp add: named_once_def)
  moreover have "lines_once (sort_timeline t) = lines_once t" for t
    by (simp add: lines_once_def sort_timeline_def comp_def)
  ultimately show ?thesis
    using f by (simp add: read_data_def named_once_def sort_timelines_def list_all_iff comp_def)
qed

text \<open>
  After \<open>read_data\<close> every line of a timeline holds exactly what the lines of the file say about
  it, whatever their order and however they are mixed with others: its ranges sorted by their
  start, its events by their time, equal ones in the order of the file; timelines and lines are
  created once for each name.
\<close>

theorem read_data_groups:
  "ranges_on (snd (read_data contents)) t n = sort_key dr_start (collect_entries (entry_range t n) contents) \<and>
   strs_on (snd (read_data contents)) t n = sort_key ev_at (collect_entries (entry_str t n) contents) \<and>
   ints_on (snd (read_data contents)) t n = sort_key ev_at (collect_entries (entry_int t n) contents) \<and>
   named_once (snd (read_data contents))"
  by (simp add: read_data_on read_data_once)


section \<open>The bounds\<close>

lemma widen_least:
  "foldl widen (lo, hi) bs = (Min (insert lo (fst ` set bs)), Max (insert hi (snd ` set bs)))"
proof (induction bs arbitrary: lo hi)
  case (Cons b bs)
  obtain x y where b: "b = (x, y)" by (cases b)
  have "foldl widen (lo, hi) (b # bs) = foldl widen (min x lo, max y hi) bs"
    by (simp add: b widen_def min_def max_def)
  also have "\<dots> = (Min (insert (min x lo) (fst ` set bs)), Max (insert (max y hi) (snd ` set bs)))"
    by (rule Cons.IH)
  also have "Min (insert (min x lo) (fst ` set bs)) = Min (insert lo (fst ` set (b # bs)))"
    by (cases "set bs = {}") (auto simp: b Min_insert min_def)
  also have "Max (insert (max y hi) (snd ` set bs)) = Max (insert hi (snd ` set (b # bs)))"
    by (cases "set bs = {}") (auto simp: b Max_insert max_def)
  finally show ?case .
qed simp

lemma timeline_bounds_eq:
  "timeline_bounds t = foldl widen (0, 0)
     (map range_bounds (tl_ranges t) @ map event_bounds (tl_event_str t) @ map event_bounds (tl_event_int t))"
  by (simp add: timeline_bounds_def)


lemma widen_bounds:
  assumes "foldl widen (lo, hi) bs = (a, b)"
  shows "a \<le> lo \<and> hi \<le> b \<and> (\<forall>c \<in> set bs. a \<le> fst c \<and> snd c \<le> b) \<and> a \<in> insert lo (fst ` set bs) \<and>
    b \<in> insert hi (snd ` set bs)"
proof -
  have a: "a = Min (insert lo (fst ` set bs))" and b: "b = Max (insert hi (snd ` set bs))"
    using assms by (simp_all add: widen_least)
  have "a \<in> insert lo (fst ` set bs)" unfolding a by (rule Min_in) simp_all
  moreover have "b \<in> insert hi (snd ` set bs)" unfolding b by (rule Max_in) simp_all
  ultimately show ?thesis unfolding a b by (auto intro: Min_le Max_ge)
qed

text \<open>The bounds of all lines.\<close>

definition line_bounds :: "timelines \<Rightarrow> (int \<times> int) set" where
  "line_bounds ts = (\<Union>t \<in> set ts. range_bounds ` set (tl_ranges t) \<union> event_bounds ` set (tl_event_str t) \<union>
     event_bounds ` set (tl_event_int t))"

lemma timeline_bounds_widest:
  assumes "timeline_bounds t = (a, b)"
  shows "a \<le> 0 \<and> 0 \<le> b \<and> (\<forall>c \<in> line_bounds [t]. a \<le> fst c \<and> snd c \<le> b) \<and>
    a \<in> insert 0 (fst ` line_bounds [t]) \<and> b \<in> insert 0 (snd ` line_bounds [t])"
proof -
  have "set (map range_bounds (tl_ranges t) @ map event_bounds (tl_event_str t) @ map event_bounds (tl_event_int t))
      = line_bounds [t]"
    by (auto simp: line_bounds_def)
  then show ?thesis using widen_bounds[OF assms[unfolded timeline_bounds_eq]] by simp
qed

lemma bounds_of_widest:
  assumes "bounds_of ts = (lo, hi)"
  shows "lo \<le> 0 \<and> 0 \<le> hi \<and> (\<forall>c \<in> line_bounds ts. lo \<le> fst c \<and> snd c \<le> hi) \<and>
    lo \<in> insert 0 (fst ` line_bounds ts) \<and> hi \<in> insert 0 (snd ` line_bounds ts)"
proof -
  note w = widen_bounds[OF assms[unfolded bounds_of_def]]
  have sub: "line_bounds [t] \<subseteq> line_bounds ts" if "t \<in> set ts" for t
    using that by (auto simp: line_bounds_def)
  have tb: "a \<in> insert 0 (fst ` line_bounds [t]) \<and> b \<in> insert 0 (snd ` line_bounds [t]) \<and>
      (\<forall>c \<in> line_bounds [t]. a \<le> fst c \<and> snd c \<le> b)" if "timeline_bounds t = (a, b)" for t a b
    using timeline_bounds_widest[OF that] by blast
  have within: "lo \<le> fst c \<and> snd c \<le> hi" if c: "c \<in> line_bounds ts" for c
  proof -
    obtain t where t: "t \<in> set ts" "c \<in> line_bounds [t]" using c by (auto simp: line_bounds_def)
    obtain a b where ab: "timeline_bounds t = (a, b)" by fastforce
    have "lo \<le> a \<and> b \<le> hi" using w t(1) ab by (metis fst_conv image_eqI list.set_map snd_conv)
    moreover have "a \<le> fst c \<and> snd c \<le> b" using tb[OF ab] t(2) by blast
    ultimately show ?thesis by linarith
  qed
  have some: "fst (timeline_bounds t) \<in> insert 0 (fst ` line_bounds ts) \<and> snd (timeline_bounds t) \<in> insert 0 (snd ` line_bounds ts)"
    if "t \<in> set ts" for t
    using tb[of t "fst (timeline_bounds t)" "snd (timeline_bounds t)"] sub[OF that] by auto
  have "lo = 0 \<or> (\<exists>t \<in> set ts. lo = fst (timeline_bounds t))" "hi = 0 \<or> (\<exists>t \<in> set ts. hi = snd (timeline_bounds t))"
    using w by (simp_all add: image_iff)
  then have "lo \<in> insert 0 (fst ` line_bounds ts)" "hi \<in> insert 0 (snd ` line_bounds ts)"
    using some by blast+
  then show ?thesis using w within by blast
qed

text \<open>The times in a trace are never negative.\<close>

lemma digits_nonneg: "digits_field s = Some (n, t) \<Longrightarrow> 0 \<le> n"
  by (auto simp: digits_field_def)

lemmas match_defs = match_range_def match_str_def match_int_def match_color_def

lemma match_nonneg:
  "match_line l = Some (Range_Entry t n r) \<Longrightarrow> 0 \<le> dr_start r \<and> 0 \<le> dr_end r"
  "match_line l = Some (Str_Entry t n s) \<Longrightarrow> 0 \<le> ev_at s"
  "match_line l = Some (Int_Entry t n i) \<Longrightarrow> 0 \<le> ev_at i"
  by (auto simp: match_line_def match_defs bind_eq_Some_conv digits_nonneg split: option.splits)

lemma collect_mem:
  assumes "x \<in> set (collect_entries pick contents)"
  obtains l e where "match_line l = Some e" "x \<in> set (pick e)"
  using assms by (auto simp: collect_entries_def entries_def List.map_filter_def)

lemma on_nonneg:
  fixes contents :: string
  defines "ts \<equiv> snd (read_data contents)"
  shows "r \<in> set (ranges_on ts t n) \<Longrightarrow> 0 \<le> dr_start r \<and> 0 \<le> dr_end r"
    and "s \<in> set (strs_on ts t n) \<Longrightarrow> 0 \<le> ev_at s" and "i \<in> set (ints_on ts t n) \<Longrightarrow> 0 \<le> ev_at i"
proof -
  have pick: "x \<in> set (entry_range t n e) \<longleftrightarrow> e = Range_Entry t n x" "y \<in> set (entry_str t n e) \<longleftrightarrow> e = Str_Entry t n y"
    "z \<in> set (entry_int t n e) \<longleftrightarrow> e = Int_Entry t n z" for x y z e
    by (cases e; auto)+
  show "r \<in> set (ranges_on ts t n) \<Longrightarrow> 0 \<le> dr_start r \<and> 0 \<le> dr_end r"
    "s \<in> set (strs_on ts t n) \<Longrightarrow> 0 \<le> ev_at s" "i \<in> set (ints_on ts t n) \<Longrightarrow> 0 \<le> ev_at i"
    unfolding ts_def read_data_on using match_nonneg by (auto elim!: collect_mem simp: pick)
qed

text \<open>A line of a timeline that was read is what the lookup by names finds.\<close>

lemma line_on:
  fixes contents :: string
  defines "ts \<equiv> snd (read_data contents)"
  assumes "t \<in> set ts"
  shows "l \<in> set (tl_ranges t) \<Longrightarrow> rl_ranges l = ranges_on ts (tl_name t) (rl_name l)"
    and "s \<in> set (tl_event_str t) \<Longrightarrow> el_events s = strs_on ts (tl_name t) (el_name s)"
    and "i \<in> set (tl_event_int t) \<Longrightarrow> el_events i = ints_on ts (tl_name t) (el_name i)"
proof -
  have once: "named_once ts" by (simp add: ts_def read_data_once)
  then have "item tl_name new_timeline (tl_name t) ts = t"
    using timelines.item_mem assms(2) by (simp add: named_once_def)
  moreover have "lines_once t" using once assms(2) by (simp add: named_once_def list_all_iff)
  ultimately show "l \<in> set (tl_ranges t) \<Longrightarrow> rl_ranges l = ranges_on ts (tl_name t) (rl_name l)"
    "s \<in> set (tl_event_str t) \<Longrightarrow> el_events s = strs_on ts (tl_name t) (el_name s)"
    "i \<in> set (tl_event_int t) \<Longrightarrow> el_events i = ints_on ts (tl_name t) (el_name i)"
    by (simp_all add: ranges_on_def strs_on_def ints_on_def lines_once_def range_lines.item_mem event_lines.item_mem)
qed

lemma nonneg_bounds:
  fixes contents :: string
  assumes "c \<in> line_bounds (snd (read_data contents))"
  shows "0 \<le> fst c"
proof -
  have r: "0 \<le> fst (range_bounds l)" if "\<And>r. r \<in> set (rl_ranges l) \<Longrightarrow> 0 \<le> dr_start r \<and> 0 \<le> dr_end r" for l
    using that by (auto simp: range_bounds_def Let_def)
  have e: "0 \<le> fst (event_bounds l)" if "\<And>e. e \<in> set (el_events l) \<Longrightarrow> 0 \<le> ev_at e" for l :: "'v event_line"
    using that by (auto simp: event_bounds_def Let_def)
  show ?thesis
    using assms unfolding line_bounds_def
    by (auto intro!: r e simp: line_on dest: on_nonneg)
qed


lemma range_bounds_spaced:
  assumes "spaced (rl_ranges l)" "r \<in> set (rl_ranges l)"
  shows "dr_end r \<le> snd (range_bounds l)"
proof -
  let ?rs = "rl_ranges l"
  obtain i where i: "i < length ?rs" "r = ?rs ! i" using assms(2) by (auto simp: in_set_conv_nth)
  have "dr_end (?rs ! i) \<le> dr_end (?rs ! (length ?rs - 1))"
  proof (cases "i = length ?rs - 1")
    case False
    then have j: "i < length ?rs - 1" "length ?rs - 1 < length ?rs" using i(1) by auto
    show ?thesis using spaced_less[OF assms(1) j] spaced_order[OF assms(1) j(2)] by linarith
  qed simp
  then show ?thesis using i by (auto simp: range_bounds_def Let_def)
qed

lemma event_bounds_sorted:
  assumes "sorted (map ev_at (el_events l))" "e \<in> set (el_events l)"
  shows "ev_at e \<le> snd (event_bounds l)"
proof -
  have "el_events l \<noteq> []" using assms(2) by auto
  then have "event_bounds l = (ev_at (el_events l ! 0), ev_at (last (el_events l)))"
    by (simp add: event_bounds_def Let_def)
  moreover have "ev_at e \<le> ev_at (last (el_events l))"
  proof -
    have "sorted (map ev_at (butlast (el_events l)) @ [ev_at (last (el_events l))])"
      using assms(1) \<open>el_events l \<noteq> []\<close> by (metis append_butlast_last_id list.map(1) list.map(2) map_append)
    moreover have "e \<in> set (butlast (el_events l)) \<or> e = last (el_events l)"
      using assms(2) \<open>el_events l \<noteq> []\<close> by (metis UnE append_butlast_last_id empty_iff insertE list.set set_append)
    ultimately show ?thesis by (auto simp: sorted_append)
  qed
  ultimately show ?thesis by simp
qed


lemma item_line:
  assumes "ranges_on ts t n \<noteq> []"
  obtains u l where "u \<in> set ts" "l \<in> set (tl_ranges u)" "ranges_on ts t n = rl_ranges l"
proof -
  have u: "item tl_name new_timeline t ts \<in> set ts"
    using assms timelines.item_cases[of t ts] by (auto simp: ranges_on_def new_timeline_def item_def new_range_line_def)
  have "item rl_name new_range_line n (tl_ranges (item tl_name new_timeline t ts)) \<in> set (tl_ranges (item tl_name new_timeline t ts))"
    using assms range_lines.item_cases[of n "tl_ranges (item tl_name new_timeline t ts)"] by (auto simp: ranges_on_def new_range_line_def)
  then show ?thesis using that[OF u] by (simp add: ranges_on_def)
qed

lemma item_event:
  assumes "strs_on ts t n \<noteq> []"
  obtains u l where "u \<in> set ts" "l \<in> set (tl_event_str u)" "strs_on ts t n = el_events l"
proof -
  have u: "item tl_name new_timeline t ts \<in> set ts"
    using assms timelines.item_cases[of t ts] by (auto simp: strs_on_def new_timeline_def item_def new_event_line_def)
  have "item el_name new_event_line n (tl_event_str (item tl_name new_timeline t ts)) \<in> set (tl_event_str (item tl_name new_timeline t ts))"
    using assms event_lines.item_cases[of n "tl_event_str (item tl_name new_timeline t ts)"] by (auto simp: strs_on_def new_event_line_def)
  then show ?thesis using that[OF u] by (simp add: strs_on_def)
qed

lemma item_int:
  assumes "ints_on ts t n \<noteq> []"
  obtains u l where "u \<in> set ts" "l \<in> set (tl_event_int u)" "ints_on ts t n = el_events l"
proof -
  have u: "item tl_name new_timeline t ts \<in> set ts"
    using assms timelines.item_cases[of t ts] by (auto simp: ints_on_def new_timeline_def item_def new_event_line_def)
  have "item el_name new_event_line n (tl_event_int (item tl_name new_timeline t ts)) \<in> set (tl_event_int (item tl_name new_timeline t ts))"
    using assms event_lines.item_cases[of n "tl_event_int (item tl_name new_timeline t ts)"] by (auto simp: ints_on_def new_event_line_def)
  then show ?thesis using that[OF u] by (simp add: ints_on_def)
qed

lemma read_bounds:
  "bounds_of (snd (read_data contents)) = (lo, hi) \<Longrightarrow> lo = 0 \<and> 0 \<le> hi"
  using bounds_of_widest[of "snd (read_data contents)" lo hi] nonneg_bounds[of _ contents] by force

text \<open>
  The bounds of a trace that was read: the lower one is 0, also when the trace starts later;
  the upper one is at or after every event and, on lines whose ranges do not overlap, the end of
  every range, and it is 0 or the end of a line.
\<close>

theorem trace_bounds:
  assumes "read_data contents = (cs, ts)" "bounds_of ts = (lo, hi)"
  shows "lo = 0 \<and> 0 \<le> hi \<and>
    (\<forall>t n. \<forall>e \<in> set (strs_on ts t n). ev_at e \<le> hi) \<and> (\<forall>t n. \<forall>e \<in> set (ints_on ts t n). ev_at e \<le> hi) \<and>
    (\<forall>t n. spaced (ranges_on ts t n) \<longrightarrow> (\<forall>r \<in> set (ranges_on ts t n). dr_end r \<le> hi)) \<and>
    hi \<in> insert 0 (snd ` line_bounds ts)"
proof -
  have ts: "ts = snd (read_data contents)" using assms(1) by simp
  note w = bounds_of_widest[OF assms(2)]
  have sorted: "sorted (map ev_at (strs_on ts t n))" "sorted (map ev_at (ints_on ts t n))" for t n
    by (simp_all add: ts read_data_on)
  have str: "ev_at e \<le> hi" if e: "e \<in> set (strs_on ts t n)" for e t n
  proof -
    obtain u l where l: "u \<in> set ts" "l \<in> set (tl_event_str u)" "strs_on ts t n = el_events l"
      using item_event[of ts t n] e by (metis list.set(1) empty_iff)
    then have "snd (event_bounds l) \<le> hi" using w by (auto simp: line_bounds_def)
    then show ?thesis using event_bounds_sorted[of l e] sorted(1)[of t n] l(3) e by fastforce
  qed
  have int: "ev_at e \<le> hi" if e: "e \<in> set (ints_on ts t n)" for e t n
  proof -
    obtain u l where l: "u \<in> set ts" "l \<in> set (tl_event_int u)" "ints_on ts t n = el_events l"
      using item_int[of ts t n] e by (metis list.set(1) empty_iff)
    then have "snd (event_bounds l) \<le> hi" using w by (auto simp: line_bounds_def)
    then show ?thesis using event_bounds_sorted[of l e] sorted(2)[of t n] l(3) e by fastforce
  qed
  have range: "dr_end r \<le> hi" if r: "r \<in> set (ranges_on ts t n)" "spaced (ranges_on ts t n)" for r t n
  proof -
    obtain u l where l: "u \<in> set ts" "l \<in> set (tl_ranges u)" "ranges_on ts t n = rl_ranges l"
      using item_line[of ts t n] r(1) by (metis list.set(1) empty_iff)
    then have "snd (range_bounds l) \<le> hi" using w by (auto simp: line_bounds_def)
    then show ?thesis using range_bounds_spaced[of l r] l(3) r by fastforce
  qed
  have "lo = 0" using read_bounds assms(2) by (simp add: ts)
  then show ?thesis using w str int range by blast
qed


section \<open>The visible part\<close>

text \<open>
  C26. What the viewer takes for the visible part \<open>[x, y]\<close>. On a line of ranges that do not overlap:
  the ranges that meet \<open>[x, y]\<close> when both its ends lie in ranges; every range up to the one with
  \<open>y\<close>, respectively from the one with \<open>x\<close>, when only that end does; nothing when both ends fall into
  gaps, whatever lies between them. On a line of events at different times: the events from \<open>x\<close> on,
  up to and including the first one at or after \<open>y\<close>. The bounds that the drawing uses give the same.
\<close>

theorem visible_part:
  assumes "number_value a = Fin x" "number_value b = Fin y"
  shows "(spaced (rl_ranges line) \<longrightarrow>
      get_ranges line a b = visible_ranges (rl_ranges line) x y \<and>
      (case get_ranges_bounds line a b of (lo, hi) \<Rightarrow> py_slice (rl_ranges line) lo hi) = visible_ranges (rl_ranges line) x y) \<and>
    (in_order (el_events k) \<longrightarrow> x \<le> y \<longrightarrow>
      get_events k a b = visible_events (el_events k) x y \<and>
      (case get_events_bounds k a b of (lo, hi) \<Rightarrow> py_slice (el_events k) lo hi) = visible_events (el_events k) x y)"
proof -
  have "(case get_events_bounds k a b of (lo, hi) \<Rightarrow> py_slice (el_events k) lo hi) = get_events k a b"
    by (simp add: get_events_bounds_def get_events_def Let_def)
  then show ?thesis
    using assms get_ranges_visible[OF assms, of "rl_ranges line" line] get_ranges_slice[of line a b]
      get_events_visible[OF assms, of k] by simp
qed

definition demo_line :: range_line where
  "demo_line = \<lparr>rl_name = ''state'', rl_ranges =
     [\<lparr>dr_start = 0, dr_end = 4, dr_value = ''a''\<rparr>, \<lparr>dr_start = 6, dr_end = 9, dr_value = ''b''\<rparr>,
      \<lparr>dr_start = 11, dr_end = 15, dr_value = ''a''\<rparr>]\<rparr>"

definition demo_events :: "int event_line" where
  "demo_events = \<lparr>el_name = ''queue'', el_events = [\<lparr>ev_at = 2, ev_value = 7\<rparr>, \<lparr>ev_at = 5, ev_value = 8\<rparr>]\<rparr>"

text \<open>From 5 to 10 the middle range is in view, and nothing is taken.\<close>

theorem visible_part_witness:
  "get_ranges demo_line (IntN 5) (IntN 10) = [] \<and> map ev_at (get_events demo_events (IntN 3) (IntN 4)) = [5] \<and>
   map dr_start (get_ranges demo_line (IntN 8) (FloatN (Fin (23 / 2)))) = [6, 11]"
proof -
  have "spaced (rl_ranges demo_line)" "in_order (el_events demo_events)"
    by (simp_all add: spaced_def in_order_def demo_line_def demo_events_def)
  then show ?thesis
    using visible_part[of "IntN 5" 5 "IntN 10" 10 demo_line demo_events]
      visible_part[of "IntN 3" 3 "IntN 4" 4 demo_line demo_events]
      visible_part[of "IntN 8" 8 "FloatN (Fin (23 / 2))" "23 / 2" demo_line demo_events]
    by (simp add: visible_ranges_def visible_events_def covers_time_def demo_line_def demo_events_def)
qed

section \<open>Colours\<close>

text \<open>The values without a colour, each once.\<close>

definition uncolored :: "string list \<Rightarrow> colors \<Rightarrow> string list" where
  "uncolored vs cs = filter (\<lambda>v. named_colors cs v = None) (remdups vs)"

lemma lookup_color_named: "named_colors cs v = Some c \<Longrightarrow> lookup_color v cs = Inr (c, cs)"
  by (simp add: lookup_color_def)

lemma legend_colors_keeps:
  assumes "legend_colors vs cs = Inr (ds, cs')" "named_colors cs v = Some c"
  shows "named_colors cs' v = Some c"
  using assms
proof (induction vs arbitrary: cs ds)
  case (Cons w ws)
  then obtain d cs1 ds1 where s: "lookup_color w cs = Inr (d, cs1)" "legend_colors ws cs1 = Inr (ds1, cs')"
    by (auto simp: bindE_Inr_iff)
  then have "named_colors cs1 v = Some c"
    using Cons.prems(2) by (auto simp: lookup_color_def add_color_def split: option.splits if_splits)
  then show ?case by (rule Cons.IH[OF s(2)])
qed simp

lemma legend_colors_run:
  assumes "distinct vs"
  shows "(length (uncolored vs cs) \<le> length (default_colors cs) \<longrightarrow>
      (\<exists>ds cs'. legend_colors vs cs = Inr (ds, cs') \<and> map (named_colors cs') vs = map Some ds \<and>
         default_colors cs' = take (length (default_colors cs) - length (uncolored vs cs)) (default_colors cs))) \<and>
    (length (default_colors cs) < length (uncolored vs cs) \<longrightarrow> legend_colors vs cs = Inl IndexError)"
  using assms
proof (induction vs arbitrary: cs)
  case Nil
  then show ?case by (simp add: uncolored_def)
next
  case (Cons v vs)
  have d: "distinct vs" "v \<notin> set vs" using Cons.prems by simp_all
  show ?case
  proof (cases "named_colors cs v")
    case (Some c)
    have "uncolored (v # vs) cs = uncolored vs cs" using Some d by (simp add: uncolored_def)
    then show ?thesis
      using Cons.IH[OF d(1), of cs] lookup_color_named[OF Some] legend_colors_keeps[OF _ Some] by auto
  next
    case None
    have un: "uncolored (v # vs) cs = v # uncolored vs cs" using None d by (simp add: uncolored_def)
    show ?thesis
    proof (cases "default_colors cs = []")
      case True
      then show ?thesis using None un by (simp add: lookup_color_def)
    next
      case False
      define c where "c = last (default_colors cs)"
      define cs1 where "cs1 = add_color v c (cs\<lparr>default_colors := butlast (default_colors cs)\<rparr>)"
      have look: "lookup_color v cs = Inr (c, cs1)" using None False by (simp add: lookup_color_def c_def cs1_def)
      have v: "named_colors cs1 v = Some c" by (simp add: cs1_def add_color_def)
      have n: "length (default_colors cs1) = length (default_colors cs) - 1" "0 < length (default_colors cs)"
        using False by (simp_all add: cs1_def add_color_def)
      have un1: "uncolored vs cs1 = uncolored vs cs"
        using d by (auto simp: uncolored_def cs1_def add_color_def intro!: filter_cong)
      have tk: "take (length (default_colors cs1) - k) (default_colors cs1) = take (length (default_colors cs) - Suc k) (default_colors cs)" for k
        by (simp add: cs1_def add_color_def butlast_conv_take min_def)
      show ?thesis
      proof (cases "length (uncolored vs cs) < length (default_colors cs)")
        case True
        then obtain ds cs' where ih: "legend_colors vs cs1 = Inr (ds, cs')" "map (named_colors cs') vs = map Some ds"
          "default_colors cs' = take (length (default_colors cs1) - length (uncolored vs cs)) (default_colors cs1)"
          using Cons.IH[OF d(1), of cs1] n un1 by fastforce
        have "legend_colors (v # vs) cs = Inr (c # ds, cs')" using look ih(1) by simp
        then show ?thesis using True ih(2,3) legend_colors_keeps[OF ih(1) v] by (simp add: un tk)
      next
        case False
        then have "length (default_colors cs1) < length (uncolored vs cs1)" unfolding un1 using False n by arith
        then have "legend_colors vs cs1 = Inl IndexError" using Cons.IH[OF d(1), of cs1] by blast
        then show ?thesis using False look by (simp add: un)
      qed
    qed
  qed
qed


text \<open>Which names a trace gives a colour; the dictionary holds nothing else before \<open>main\<close>'s loop.\<close>

fun entry_color :: "trace_entry \<Rightarrow> string list" where
  "entry_color (Color_Entry n r g b) = [n]"
| "entry_color _ = []"

definition color_names :: "string \<Rightarrow> string set" where
  "color_names contents = set (collect_entries entry_color contents)"

lemma take_lines_colors:
  assumes "foldl take_line (cs, ts) ls = (cs', ts')"
  shows "dom (named_colors cs') = dom (named_colors cs) \<union> set (concat (map entry_color (List.map_filter match_line ls))) \<and>
    default_colors cs' = default_colors cs"
  using assms
proof (induction ls arbitrary: cs ts)
  case Nil
  then show ?case by (simp add: List.map_filter_def)
next
  case (Cons l ls)
  obtain cs1 ts1 where s: "take_line (cs, ts) l = (cs1, ts1)" by fastforce
  have ih: "foldl take_line (cs1, ts1) ls = (cs', ts')" using Cons.prems s by simp
  show ?case
  proof (cases "match_line l")
    case None
    then show ?thesis using Cons.IH[OF ih] s by (simp add: take_line_def List.map_filter_def)
  next
    case (Some e)
    then have "take_entry e (cs, ts) = (cs1, ts1)" using s by (simp add: take_line_def)
    then have "dom (named_colors cs1) = dom (named_colors cs) \<union> set (entry_color e) \<and> default_colors cs1 = default_colors cs"
      by (cases e) (auto simp: add_color_def)
    then show ?thesis using Cons.IH[OF ih] Some by (simp add: List.map_filter_def Un_assoc)
  qed
qed

lemma read_data_colors:
  "dom (named_colors (fst (read_data contents))) = color_names contents"
  "default_colors (fst (read_data contents)) = default_colors new_colors"
proof -
  obtain cs' ts' where f: "foldl take_line (new_colors, []) (py_lines contents) = (cs', ts')" by fastforce
  then have "fst (read_data contents) = cs'" by (simp add: read_data_def)
  then show "dom (named_colors (fst (read_data contents))) = color_names contents"
    "default_colors (fst (read_data contents)) = default_colors new_colors"
    using take_lines_colors[OF f] by (simp_all add: color_names_def collect_entries_def entries_def new_colors_def)
qed

text \<open>
  The legend: \<open>main\<close> gives every value of a range a colour, for whatever order the dictionary of
  the values has, and the drawing then finds a colour for each of them without changing the table,
  if at most six values have no \<open>color\<close> line in the trace; with more, \<open>main\<close> dies with an
  \<open>IndexError\<close> before it shows anything.
\<close>

theorem trace_colors:
  assumes "read_data contents = (cs, ts)"
    and "\<And>xs :: string list. distinct xs \<Longrightarrow> distinct (dict_keys xs) \<and> set (dict_keys xs) = set xs"
  shows "(if card (dr_value ` set (all_ranges ts) - color_names contents) \<le> 6
    then \<exists>ds cs'. legend_colors (all_range_values dict_keys ts) cs = Inr (ds, cs') \<and>
      (\<forall>r \<in> set (all_ranges ts). \<exists>c. lookup_color (dr_value r) cs' = Inr (c, cs'))
    else legend_colors (all_range_values dict_keys ts) cs = Inl IndexError)"
proof -
  let ?vs = "all_range_values dict_keys ts"
  have vs: "distinct ?vs" "set ?vs = dr_value ` set (all_ranges ts)"
    using assms(2)[of "remdups (map dr_value (all_ranges ts))"] by (simp_all add: all_range_values_def)
  have six: "length (default_colors cs) = 6" using read_data_colors(2)[of contents] assms(1) by (simp add: new_colors_def)
  have "set (uncolored ?vs cs) = dr_value ` set (all_ranges ts) - color_names contents"
    using read_data_colors(1)[of contents] assms(1) vs(2) by (auto simp: uncolored_def)
  moreover have "distinct (uncolored ?vs cs)" by (simp add: uncolored_def)
  ultimately have len: "length (uncolored ?vs cs) = card (dr_value ` set (all_ranges ts) - color_names contents)"
    by (metis distinct_card)
  note run = legend_colors_run[OF vs(1), of cs]
  show ?thesis
  proof (cases "card (dr_value ` set (all_ranges ts) - color_names contents) \<le> 6")
    case True
    then obtain ds cs' where l: "legend_colors ?vs cs = Inr (ds, cs')" "map (named_colors cs') ?vs = map Some ds"
      using run len six by auto
    have "\<exists>c. lookup_color v cs' = Inr (c, cs')" if "v \<in> set ?vs" for v
    proof -
      have "named_colors cs' v \<in> set (map Some ds)" unfolding l(2)[symmetric] using that by simp
      then show ?thesis using lookup_color_named by fastforce
    qed
    then show ?thesis using True l(1) vs(2) by auto
  next
    case False
    then show ?thesis using run len six by simp
  qed
qed


section \<open>Traces in the expected form\<close>

definition plain_word :: "string \<Rightarrow> bool" where
  "plain_word w \<longleftrightarrow> w \<noteq> [] \<and> CHR '' '' \<notin> set w \<and> CHR 0x0A \<notin> set w"

fun entry_ok :: "trace_entry \<Rightarrow> bool" where
  "entry_ok (Range_Entry t n r) \<longleftrightarrow> plain_word t \<and> plain_word n \<and> plain_word (dr_value r) \<and> 0 \<le> dr_start r \<and> 0 \<le> dr_end r"
| "entry_ok (Str_Entry t n e) \<longleftrightarrow> plain_word t \<and> plain_word n \<and> plain_word (ev_value e) \<and> 0 \<le> ev_at e"
| "entry_ok (Int_Entry t n e) \<longleftrightarrow> plain_word t \<and> plain_word n \<and> 0 \<le> ev_value e \<and> 0 \<le> ev_at e"
| "entry_ok (Color_Entry n r g b) \<longleftrightarrow>
     plain_word n \<and> r \<in> {0..255} \<and> g \<in> {0..255} \<and> b \<in> {0..255}"

definition show_hex :: "int \<Rightarrow> string" where
  "show_hex n = [hex_char (nat (n div 16)), hex_char (nat (n mod 16))]"

fun show_entry :: "trace_entry \<Rightarrow> string" where
  "show_entry (Range_Entry t n r) =
     ''range '' @ t @ '' '' @ n @ '' '' @ dr_value r @ '' '' @ show_int (dr_start r) @ '' '' @ show_int (dr_end r)"
| "show_entry (Str_Entry t n e) = ''event-str '' @ t @ '' '' @ n @ '' '' @ ev_value e @ '' '' @ show_int (ev_at e)"
| "show_entry (Int_Entry t n e) =
     ''event-int '' @ t @ '' '' @ n @ '' '' @ show_int (ev_value e) @ '' '' @ show_int (ev_at e)"
| "show_entry (Color_Entry n r g b) = ''color '' @ n @ '' #'' @ show_hex r @ show_hex g @ show_hex b"

lemma word_field_show: "plain_word w \<Longrightarrow> word_field (w @ CHR '' '' # s) = Some (w, CHR '' '' # s)"
proof -
  assume w: "plain_word w"
  then have "takeWhile (\<lambda>c. c \<noteq> CHR '' '') (w @ CHR '' '' # s) = w"
    by (subst takeWhile_append2) (auto simp: plain_word_def)
  then show ?thesis using w by (simp add: word_field_def class_field_def plain_word_def)
qed

lemma digits_field_show:
  assumes "0 \<le> n" "case s of [] \<Rightarrow> True | c # _ \<Rightarrow> \<not> is_digit c"
  shows "digits_field (show_int n @ s) = Some (n, s)"
proof -
  have "takeWhile is_digit (show_nat (nat n) @ s) = show_nat (nat n)"
    using assms(2) by (subst takeWhile_append2) (auto simp: show_nat_is_digit split: list.splits)
  then show ?thesis using assms(1) foldl_show_nat[of "nat n"]
    by (simp add: digits_field_def class_field_def show_int_def)
qed

lemma hex_digit_show: "d < 16 \<Longrightarrow> hex_digit (hex_char d) = Some (int d)"
proof -
  assume "d < 16"
  then have "d = 0 \<or> d = 1 \<or> d = 2 \<or> d = 3 \<or> d = 4 \<or> d = 5 \<or> d = 6 \<or> d = 7 \<or> d = 8 \<or> d = 9 \<or> d = 10 \<or>
      d = 11 \<or> d = 12 \<or> d = 13 \<or> d = 14 \<or> d = 15" by arith
  then show ?thesis by (elim disjE) (simp_all add: hex_digit_def hex_char_def digit_char_def Let_def)
qed

lemma hex_pair_show:
  assumes "n \<in> {0..255}"
  shows "hex_pair (show_hex n @ s) = Some (n, s)"
proof -
  have "nat (n div 16) < 16" "nat (n mod 16) < 16" using assms by auto
  then show ?thesis
    using assms by (simp add: hex_pair_def show_hex_def hex_digit_show mult_div_mod_eq)
qed

lemma literal_text_Cons [simp]:
  "literal_text [] s = Some s" "literal_text (p # ps) (c # cs) = (if p = c then literal_text ps cs else None)"
  by (simp_all add: literal_text_def has_prefix_def)

lemma not_digits: "\<not> is_digit (CHR '' '')" "\<not> is_digit (CHR 0x0A)"
  by (simp_all add: is_digit_def)

lemma match_show:
  assumes "entry_ok e"
  shows "match_line (show_entry e @ nl) = Some e"
proof (cases e)
  case (Range_Entry t n r)
  then show ?thesis using assms
    by (simp add: match_line_def match_range_def word_field_show digits_field_show not_digits nl_def)
next
  case (Str_Entry t n ev)
  then show ?thesis using assms
    by (simp add: match_line_def match_range_def match_str_def word_field_show digits_field_show not_digits nl_def)
next
  case (Int_Entry t n ev)
  then show ?thesis using assms
    by (simp add: match_line_def match_range_def match_str_def match_int_def word_field_show digits_field_show
        not_digits nl_def)
next
  case (Color_Entry n r g b)
  then show ?thesis using assms
    by (simp add: match_line_def match_defs word_field_show hex_pair_show)
qed

lemma show_entry_line: "entry_ok e \<Longrightarrow> CHR 0x0A \<notin> set (show_entry e)"
proof -
  have int: "CHR 0x0A \<notin> set (show_int n)" for n
    using show_int_no_ws[of "CHR 0x0A" n] by (auto simp: is_ws_def)
  have hex: "CHR 0x0A \<notin> set (show_hex n)" if n: "n \<in> {0..255}" for n
  proof
    assume "CHR 0x0A \<in> set (show_hex n)"
    moreover have "hex_digit (CHR 0x0A) = None" by (simp add: hex_digit_def)
    moreover have "nat (n div 16) < 16" "nat (n mod 16) < 16" using n by auto
    ultimately show False using hex_digit_show by (auto simp: show_hex_def)
  qed
  show "entry_ok e \<Longrightarrow> CHR 0x0A \<notin> set (show_entry e)"
    by (cases e) (auto simp: int hex plain_word_def)
qed

text \<open>
  A trace written in the expected form is read back: each line gives its entry and nothing is
  lost, so that by the grouping the viewer shows exactly the ranges, events and colours written.
\<close>

theorem trace_read_back:
  assumes "list_all entry_ok es"
  shows "entries (concat (map (\<lambda>e. show_entry e @ nl) es)) = es"
proof -
  have "py_lines (concat (map (\<lambda>w. w @ nl) (map show_entry es))) = map (\<lambda>w. w @ nl) (map show_entry es)"
    by (rule py_lines_concat) (use assms show_entry_line in \<open>auto simp: list_all_iff\<close>)
  then have "entries (concat (map (\<lambda>e. show_entry e @ nl) es)) = List.map_filter match_line (map (\<lambda>e. show_entry e @ nl) es)"
    by (simp add: entries_def comp_def)
  also have "\<dots> = es"
    using assms by (induction es) (simp_all add: List.map_filter_def match_show)
  finally show ?thesis .
qed

section \<open>A demonstration\<close>

definition demo_entries :: "trace_entry list" where
  "demo_entries =
     [Range_Entry ''n0'' ''state'' \<lparr>dr_start = 6, dr_end = 9, dr_value = ''tx''\<rparr>,
      Int_Entry ''n0'' ''queue'' \<lparr>ev_at = 12, ev_value = 3\<rparr>,
      Range_Entry ''n0'' ''state'' \<lparr>dr_start = 2, dr_end = 4, dr_value = ''rx''\<rparr>,
      Color_Entry ''tx'' 255 128 0]"

definition demo_trace :: string where
  "demo_trace = concat (map (\<lambda>e. show_entry e @ nl) demo_entries)"

theorem trace_read_back_witness: "entries demo_trace = demo_entries"
  unfolding demo_trace_def by (rule trace_read_back) (simp add: demo_entries_def plain_word_def)

lemma demo_text:
  "demo_trace = ''range n0 state tx 6 9'' @ nl @ ''event-int n0 queue 3 12'' @ nl @ ''range n0 state rx 2 4'' @ nl @
     ''color tx #ff8000'' @ nl"
  by code_simp


theorem trace_bounds_witness:
  "\<forall>e \<in> set (ints_on (snd (read_data demo_trace)) ''n0'' ''queue''). ev_at e \<le> 12"
proof -
  have "bounds_of (snd (read_data demo_trace)) = (0, 12)" by code_simp
  then have b: "bounds_of (snd (read_data demo_trace)) = (0, 12)" .
  have "read_data demo_trace = (fst (read_data demo_trace), snd (read_data demo_trace))" by simp
  from trace_bounds[OF this b] show ?thesis by blast
qed

theorem trace_colors_witness:
  "\<exists>ds cs'. legend_colors (all_range_values rev (snd (read_data demo_trace))) (fst (read_data demo_trace)) = Inr (ds, cs')"
proof -
  have "dr_value ` set (all_ranges (snd (read_data demo_trace))) = {''rx'', ''tx''}"
  proof -
    have "map dr_value (all_ranges (snd (read_data demo_trace))) = [''rx'', ''tx'']" by code_simp
    then show ?thesis by (metis empty_set list.set(2) list.set_map)
  qed
  then have "card (dr_value ` set (all_ranges (snd (read_data demo_trace))) - color_names demo_trace) \<le> card {''rx'', ''tx''}"
    by (intro card_mono) auto
  then have six: "card (dr_value ` set (all_ranges (snd (read_data demo_trace))) - color_names demo_trace) \<le> 6"
    by simp
  have "read_data demo_trace = (fst (read_data demo_trace), snd (read_data demo_trace))" by simp
  from trace_colors[OF this, of rev] six show ?thesis by auto
qed

text \<open>Seven values without a colour; and the colour \<open>#ff8000\<close>, which the division of ints makes red.\<close>

lemma color_examples:
  "case legend_colors [''a'', ''b'', ''c'', ''d'', ''e'', ''f'', ''g''] new_colors of Inl e \<Rightarrow> e = IndexError | Inr _ \<Rightarrow> False"
  "named_colors (fst (read_data demo_trace)) ''tx'' = Some (1, 0, 0)"
  by code_simp+

end
