(* ===== verification/GridView.thy ===== *)
theory GridView
  imports GridTrace
begin

text \<open>
  The window of \<open>utils/grid.py\<close>: the layouts of the legend, the lines and the two scales, the visible
  range, the ticks, the rectangles that are drawn for ranges and events, and the mouse handlers.

  Numbers are ints or floats as in Python 2: an operation on two ints is one on ints (with the floor
  division), any other converts both operands to floats. The extents of texts (cairo) are a
  parameter: vertical bearing, width and height of a string. Attributes that a method may find unset
  are options; reading an unset one is an \<open>AttributeError\<close>. An exception in a handler is printed by
  GTK and leaves the attributes as they are at that point, so that handlers return the result beside
  the state. \<open>None\<close> is a handler that does not return.
\<close>

section \<open>Numbers\<close>

fun as_float :: "number \<Rightarrow> pyfloat res" where
  "as_float (IntN n) = float_of_int n"
| "as_float (FloatN x) = Inr x"

fun float_op :: "(pyfloat \<Rightarrow> pyfloat \<Rightarrow> pyfloat res) \<Rightarrow> number \<Rightarrow> number \<Rightarrow> number res" where
  "float_op f a b = bindE (as_float a) (\<lambda>x. bindE (as_float b) (\<lambda>y. bindE (f x y) (\<lambda>z. Inr (FloatN z))))"

fun num_add :: "number \<Rightarrow> number \<Rightarrow> number res" where
  "num_add (IntN m) (IntN n) = Inr (IntN (m + n))"
| "num_add a b = float_op (\<lambda>x y. Inr (fadd x y)) a b"

fun num_sub :: "number \<Rightarrow> number \<Rightarrow> number res" where
  "num_sub (IntN m) (IntN n) = Inr (IntN (m - n))"
| "num_sub a b = float_op (\<lambda>x y. Inr (fsub x y)) a b"

fun num_mul :: "number \<Rightarrow> number \<Rightarrow> number res" where
  "num_mul (IntN m) (IntN n) = Inr (IntN (m * n))"
| "num_mul a b = float_op (\<lambda>x y. Inr (fmul x y)) a b"

fun num_div :: "number \<Rightarrow> number \<Rightarrow> number res" where
  "num_div (IntN m) (IntN n) = (if n = 0 then Inl ZeroDivisionError else Inr (IntN (m div n)))"
| "num_div a b = float_op fdiv a b"

text \<open>\<open>x % y\<close> on floats: the exact remainder, with the divisor added when the signs differ.\<close>

fun float_mod :: "pyfloat \<Rightarrow> pyfloat \<Rightarrow> pyfloat res" where
  "float_mod x (Fin b) =
     (if b = 0 then Inl ZeroDivisionError
      else case x of
             Fin a \<Rightarrow>
               (let r = a - b * (if 0 \<le> a / b then of_int \<lfloor>a / b\<rfloor> else of_int \<lceil>a / b\<rceil>)
                in Inr (if r \<noteq> 0 \<and> (b < 0) \<noteq> (r < 0) then fround (r + b) else Fin r))
           | _ \<Rightarrow> Inr NaN)"
| "float_mod (Fin a) PInf = Inr (if a < 0 then PInf else Fin a)"
| "float_mod (Fin a) MInf = Inr (if 0 < a then MInf else Fin a)"
| "float_mod x y = Inr NaN"

fun num_mod :: "number \<Rightarrow> number \<Rightarrow> number res" where
  "num_mod (IntN m) (IntN n) = (if n = 0 then Inl ZeroDivisionError else Inr (IntN (m mod n)))"
| "num_mod a b = float_op float_mod a b"

fun num_int :: "number \<Rightarrow> int res" where
  "num_int (IntN n) = Inr n"
| "num_int (FloatN x) = int_of_float x"

definition num_max :: "number \<Rightarrow> number \<Rightarrow> number" where
  "num_max a b = (if number_less a b then b else a)"

definition num_min :: "number \<Rightarrow> number \<Rightarrow> number" where
  "num_min a b = (if number_less b a then b else a)"

text \<open>\<open>a + b + c + \<dots>\<close>, from the left.\<close>

fun num_sum :: "number \<Rightarrow> number list \<Rightarrow> number res" where
  "num_sum a [] = Inr a"
| "num_sum a (b # bs) = bindE (num_add a b) (\<lambda>c. num_sum c bs)"

type_synonym extents = "string \<Rightarrow> pyfloat \<times> pyfloat \<times> pyfloat"

definition text_width :: "extents \<Rightarrow> string \<Rightarrow> number" where
  "text_width ext s = FloatN (fst (snd (ext s)))"

definition text_height :: "extents \<Rightarrow> string \<Rightarrow> number" where
  "text_height ext s = FloatN (snd (snd (ext s)))"

definition alphabet :: string where
  "alphabet = ''ABCDEFGHIJKLMNOPQRSTUVWXYZabcedefghijklmnopqrstuvwxyz0123456789''"

section \<open>The legend\<close>

text \<open>
  The walk over the legends, which \<open>layout\<close> and \<open>draw\<close> both make: the height of the current line,
  the height above it, the width used in it; with it the place of each legend.
\<close>

record legend_state =
  line_height :: number
  total_height :: number
  line_used :: number

definition legend_start :: "number \<Rightarrow> legend_state" where
  "legend_start padding = \<lparr>line_height = IntN 0, total_height = padding, line_used = padding\<rparr>"

definition legend_item :: "extents \<Rightarrow> number \<Rightarrow> number \<Rightarrow> string \<Rightarrow> legend_state \<Rightarrow> (legend_state \<times> number) res" where
  "legend_item ext padding width legend st =
     bindE (num_sum padding [padding, text_width ext legend, padding]) (\<lambda>item_width.
     bindE (num_add (text_height ext legend) padding) (\<lambda>item_height.
     let lh = (if number_less (line_height st) item_height then item_height else line_height st) in
     bindE (num_add (line_used st) item_width) (\<lambda>used.
     bindE (if number_less width used
            then bindE (num_add padding item_width) (\<lambda>u. bindE (num_add (total_height st) lh) (\<lambda>t. Inr (t, u)))
            else Inr (total_height st, used)) (\<lambda>(t, u).
     bindE (num_sub u item_width) (\<lambda>x.
     Inr (\<lparr>line_height = lh, total_height = t, line_used = u\<rparr>, x))))))"

fun legend_walk :: "extents \<Rightarrow> number \<Rightarrow> number \<Rightarrow> string list \<Rightarrow> legend_state \<Rightarrow> (legend_state \<times> (number \<times> number) list) res" where
  "legend_walk ext padding width [] st = Inr (st, [])"
| "legend_walk ext padding width (l # ls) st =
     bindE (legend_item ext padding width l st) (\<lambda>(st', x).
     bindE (legend_walk ext padding width ls st') (\<lambda>(st'', ps). Inr (st'', (x, total_height st') # ps)))"

definition legend_layout :: "extents \<Rightarrow> number \<Rightarrow> string list \<Rightarrow> number res" where
  "legend_layout ext width legends =
     bindE (legend_walk ext (IntN 10) width legends (legend_start (IntN 10))) (\<lambda>(st, ps).
     num_add (total_height st) (line_height st))"

section \<open>The lines\<close>

record data_layout =
  left_width :: number
  right_width :: number
  max_text_height :: number
  data_height :: number

definition widest :: "extents \<Rightarrow> string list \<Rightarrow> number" where
  "widest ext names = foldl (\<lambda>w s. num_max w (text_width ext s)) (IntN 0) names"

definition line_names :: "timeline \<Rightarrow> string list" where
  "line_names t = map rl_name (tl_ranges t) @ map el_name (tl_event_int t) @ map el_name (tl_event_str t)"

definition data_layout_of :: "extents \<Rightarrow> timelines \<Rightarrow> data_layout res" where
  "data_layout_of ext ts =
     (let th = text_height ext alphabet;
          left_n = int (length ts);
          range_n = int (length (concat (map tl_ranges ts)));
          event_n = int (length (concat (map tl_event_int ts))) + int (length (concat (map tl_event_str ts)));
          right_n = range_n + event_n in
      bindE (num_mul (IntN left_n) th) (\<lambda>a. bindE (num_add a (IntN ((left_n - 1) * 10))) (\<lambda>left_height.
      bindE (num_mul (IntN right_n) th) (\<lambda>b. bindE (num_add (IntN ((right_n - 1) * 10)) b) (\<lambda>right_height.
      bindE (num_add th (IntN 5)) (\<lambda>c. bindE (num_mul (IntN event_n) c) (\<lambda>d.
      bindE (num_sum d [IntN (range_n * 10), IntN ((right_n - 1) * 10)]) (\<lambda>right_data_height.
      bindE (num_add (num_max (num_max left_height right_height) right_data_height) (IntN 10)) (\<lambda>height.
      Inr \<lparr>left_width = widest ext (map tl_name ts), right_width = widest ext (concat (map line_names ts)),
           max_text_height = th, data_height = height\<rparr>)))))))))"

definition data_x_start :: "data_layout \<Rightarrow> number res" where
  "data_x_start d = num_sum (IntN 5) [left_width d, IntN 10, right_width d, IntN 5]"

section \<open>The scales\<close>

record scale =
  sc_bounds :: "(number \<times> number) option"
  sc_delta :: "int option"
  sc_width :: "number option"
  sc_height :: "number option"

definition new_scale :: scale where
  "new_scale = \<lparr>sc_bounds = None, sc_delta = None, sc_width = None, sc_height = None\<rparr>"

definition set_bounds :: "number \<Rightarrow> number \<Rightarrow> scale \<Rightarrow> scale" where
  "set_bounds lo hi s = s\<lparr>sc_bounds := Some (lo, hi)\<rparr>"

definition attr :: "string \<Rightarrow> 'a option \<Rightarrow> 'a res" where
  "attr name x = of_option (AttributeError name) x"

definition get_position :: "scale \<Rightarrow> number \<Rightarrow> number res" where
  "get_position s x =
     bindE (attr ''__lo'' (sc_bounds s)) (\<lambda>(lo, hi).
     bindE (num_sub x lo) (\<lambda>d.
     bindE (attr ''__width'' (sc_width s)) (\<lambda>w.
     bindE (num_mul d w) (\<lambda>n. bindE (num_sub hi lo) (\<lambda>l. num_div n l)))))"

text \<open>\<open>while (closest*10) < data_delta: closest *= 10\<close>\<close>

function closest_power :: "rat \<Rightarrow> int \<Rightarrow> int" where
  "closest_power q c = (if 0 < c \<and> of_int (c * 10) < q then closest_power q (c * 10) else c)"
  by pat_completeness auto
termination
proof (relation "measure (\<lambda>(q, c). nat (\<lceil>q\<rceil> - c))", goal_cases)
  case (2 q c)
  then have "c * 10 < \<lceil>q\<rceil>" by (metis less_ceiling_iff)
  then show ?case using 2 by simp
qed simp

declare closest_power.simps [simp del]

text \<open>For an infinite interval the loop never ends.\<close>

fun closest :: "pyfloat \<Rightarrow> int option" where
  "closest (Fin q) = Some (closest_power q 1)"
| "closest PInf = None"
| "closest _ = Some 1"

definition scale_delta :: "number \<Rightarrow> int \<Rightarrow> int res" where
  "scale_delta data_delta c =
     bindE (num_div data_delta (IntN c)) (\<lambda>q.
     Inr (if number_eq q (IntN 0) then c else if number_eq q (IntN 1) then c div 10 else c))"

text \<open>The first multiple of \<open>delta\<close> after \<open>lo\<close> and the last one up to \<open>hi\<close>.\<close>

definition tick_bounds :: "number \<Rightarrow> number \<Rightarrow> int \<Rightarrow> (number \<times> number) res" where
  "tick_bounds lo hi delta =
     bindE (num_mod lo (IntN delta)) (\<lambda>a. bindE (num_sub lo a) (\<lambda>b. bindE (num_add b (IntN delta)) (\<lambda>start.
     bindE (num_mod hi (IntN delta)) (\<lambda>c. bindE (num_sub hi c) (\<lambda>stop. Inr (start, stop))))))"

definition scale_layout :: "extents \<Rightarrow> number \<Rightarrow> scale \<Rightarrow> (unit res \<times> scale) option" where
  "scale_layout ext width s =
     (case bindE (attr ''__hi'' (sc_bounds s)) (\<lambda>(lo, hi). bindE (num_sub hi lo) (\<lambda>d. Inr (lo, hi, d))) of
        Inl e \<Rightarrow> Some (Inl e, s)
      | Inr (lo, hi, d) \<Rightarrow>
          map_option (\<lambda>c.
            case bindE (scale_delta d c) (\<lambda>delta. bindE (tick_bounds lo hi delta) (\<lambda>_. Inr delta)) of
              Inl e \<Rightarrow> (Inl e, s)
            | Inr delta \<Rightarrow>
                (let s' = s\<lparr>sc_delta := Some delta, sc_width := Some width\<rparr> in
                 case num_add (text_height ext alphabet) (IntN 10) of
                   Inl e \<Rightarrow> (Inl e, s')
                 | Inr h \<Rightarrow> (Inr (), s'\<lparr>sc_height := Some h\<rparr>)))
            (closest (number_value d)))"

text \<open>\<open>range(a, b, step)\<close>\<close>

definition py_range :: "int \<Rightarrow> int \<Rightarrow> int \<Rightarrow> int list res" where
  "py_range a b step =
     (if step = 0 then Inl (ValueError ''range() step argument must not be zero'')
      else Inr (map (\<lambda>i. a + int i * step) [0..<nat ((if 0 < step then b - a + step - 1 else b - a + step + 1) div step)]))"

text \<open>The ticks with a number; the ones without are the same for a tenth of the distance.\<close>

definition ticks :: "number \<Rightarrow> number \<Rightarrow> int \<Rightarrow> int list res" where
  "ticks lo hi delta =
     bindE (tick_bounds lo hi delta) (\<lambda>(start, stop).
     bindE (num_int start) (\<lambda>a. bindE (num_add stop (IntN delta)) (\<lambda>e. bindE (num_int e) (\<lambda>b.
     py_range a b delta))))"

definition subticks :: "number \<Rightarrow> number \<Rightarrow> int \<Rightarrow> int list res" where
  "subticks lo hi delta = (if 0 < delta div 10 then ticks lo hi (delta div 10) else Inr [])"


definition tick_positions :: "scale \<Rightarrow> int list \<Rightarrow> number list res" where
  "tick_positions s xs = mapE (\<lambda>x. get_position s (IntN x)) xs"

section \<open>Drawing the lines\<close>

text \<open>\<open>int(x + (at - start) * width / (end - start))\<close>\<close>

definition pixel :: "number \<Rightarrow> number \<Rightarrow> number \<Rightarrow> number \<Rightarrow> number \<Rightarrow> int res" where
  "pixel x width start stop tm =
     bindE (num_sub tm start) (\<lambda>d. bindE (num_mul d width) (\<lambda>n. bindE (num_sub stop start) (\<lambda>l.
     bindE (num_div n l) (\<lambda>q. bindE (num_add x q) num_int))))"

text \<open>The marks of events: their place and their value; one is left out when it is too close.\<close>

fun event_marks :: "(int \<Rightarrow> int res) \<Rightarrow> 'v trace_event list \<Rightarrow> int \<Rightarrow> (int \<times> 'v) list res" where
  "event_marks at_pixel [] last_drawn = Inr []"
| "event_marks at_pixel (e # es) last_drawn =
     bindE (at_pixel (ev_at e)) (\<lambda>real_x.
     if last_drawn + 2 < real_x
     then bindE (event_marks at_pixel es real_x) (\<lambda>ms. Inr ((real_x, ev_value e) # ms))
     else event_marks at_pixel es last_drawn)"

definition draw_events ::
  "number \<times> number \<Rightarrow> 'v event_line \<Rightarrow> number \<Rightarrow> number \<Rightarrow> (int \<times> 'v) list res" where
  "draw_events view line x width =
     (case view of (start, stop) \<Rightarrow>
      bindE (num_int x) (\<lambda>last_drawn.
      case get_events_bounds line start stop of (lo, hi) \<Rightarrow>
        event_marks (\<lambda>tm. pixel x width start stop (IntN tm)) (py_slice (el_events line) lo hi) last_drawn))"

text \<open>The rectangles of ranges: from, to and colour.\<close>

fun range_marks ::
  "(number \<Rightarrow> int res) \<Rightarrow> number \<times> number \<Rightarrow> data_range list \<Rightarrow> int \<Rightarrow> colors \<Rightarrow> ((int \<times> int \<times> color) list \<times> colors) res" where
  "range_marks at_pixel view [] last_drawn cs = Inr ([], cs)"
| "range_marks at_pixel view (r # rs) last_drawn cs =
     bindE (at_pixel (num_max (IntN (dr_start r)) (fst view))) (\<lambda>x_start.
     bindE (at_pixel (num_min (IntN (dr_end r)) (snd view))) (\<lambda>x_end.
     if last_drawn < x_end
     then bindE (lookup_color (dr_value r) cs) (\<lambda>(c, cs').
          bindE (range_marks at_pixel view rs x_end cs') (\<lambda>(ms, cs''). Inr ((x_start, x_end, c) # ms, cs'')))
     else range_marks at_pixel view rs last_drawn cs))"

definition draw_ranges ::
  "number \<times> number \<Rightarrow> range_line \<Rightarrow> number \<Rightarrow> number \<Rightarrow> colors \<Rightarrow> ((int \<times> int \<times> color) list \<times> colors) res" where
  "draw_ranges view line x width cs =
     (case view of (start, stop) \<Rightarrow>
      bindE (num_sub x (IntN 1)) (\<lambda>x1. bindE (num_int x1) (\<lambda>last_drawn.
      case get_ranges_bounds line start stop of (lo, hi) \<Rightarrow>
        range_marks (pixel x width start stop) view (py_slice (rl_ranges line) lo hi) last_drawn cs)))"

section \<open>The view\<close>

text \<open>
  \<open>GraphicRenderer\<close> with its two scales, its legend and its lines. The visible range, which
  \<open>set_range\<close> also hands to the lines, is \<open>g_range\<close>.
\<close>

record graphic =
  g_start :: pyfloat
  g_end :: pyfloat
  g_range :: "(number \<times> number) option"
  g_width :: number
  g_height :: number
  g_legends :: "string list"
  g_legend_height :: "number option"
  g_lines :: timelines
  g_data :: "data_layout option"
  g_mid :: scale
  g_bot :: scale

text \<open>Actions: the result and the state after it, or \<open>None\<close> when the action does not return.\<close>

type_synonym ('s, 'a) view_act = "'s \<Rightarrow> ('a res \<times> 's) option"

definition bindV :: "('s, 'a) view_act \<Rightarrow> ('a \<Rightarrow> ('s, 'b) view_act) \<Rightarrow> ('s, 'b) view_act" where
  "bindV m f s =
     (case m s of
        None \<Rightarrow> None
      | Some (Inl e, s') \<Rightarrow> Some (Inl e, s')
      | Some (Inr a, s') \<Rightarrow> f a s')"

definition resV :: "('s \<Rightarrow> 'a res) \<Rightarrow> ('s, 'a) view_act" where
  "resV f s = Some (f s, s)"

definition putV :: "('s \<Rightarrow> 's) \<Rightarrow> ('s, unit) view_act" where
  "putV f s = Some (Inr (), f s)"

definition midV :: "(scale \<Rightarrow> (unit res \<times> scale) option) \<Rightarrow> ('b graphic_scheme, unit) view_act" where
  "midV f g = map_option (\<lambda>(r, s). (r, g\<lparr>g_mid := s\<rparr>)) (f (g_mid g))"

definition botV :: "(scale \<Rightarrow> (unit res \<times> scale) option) \<Rightarrow> ('b graphic_scheme, unit) view_act" where
  "botV f g = map_option (\<lambda>(r, s). (r, g\<lparr>g_bot := s\<rparr>)) (f (g_bot g))"

definition graphic_layout :: "extents \<Rightarrow> number \<Rightarrow> number \<Rightarrow> ('b graphic_scheme, unit) view_act" where
  "graphic_layout ext width height =
     bindV (putV (\<lambda>g. g\<lparr>g_width := width, g_height := height\<rparr>)) (\<lambda>_.
     bindV (resV (\<lambda>g. legend_layout ext width (g_legends g))) (\<lambda>h.
     bindV (putV (\<lambda>g. g\<lparr>g_legend_height := Some h\<rparr>)) (\<lambda>_.
     bindV (resV (\<lambda>g. data_layout_of ext (g_lines g))) (\<lambda>d.
     bindV (putV (\<lambda>g. g\<lparr>g_data := Some d\<rparr>)) (\<lambda>_.
     bindV (resV (\<lambda>g. bindE (data_x_start d) (num_sub width))) (\<lambda>w.
     bindV (midV (scale_layout ext w)) (\<lambda>_.
     botV (scale_layout ext width))))))))"

definition set_range :: "extents \<Rightarrow> number \<Rightarrow> number \<Rightarrow> ('b graphic_scheme, unit) view_act" where
  "set_range ext start stop g =
     (let s = num_min start stop; e = num_max start stop;
          a = num_max (FloatN (g_start g)) s; b = num_min (FloatN (g_end g)) e in
      graphic_layout ext (g_width g) (g_height g)
        (g\<lparr>g_range := Some (a, b), g_mid := set_bounds a b (g_mid g)\<rparr>))"

definition new_graphic :: "int \<Rightarrow> int \<Rightarrow> string list \<Rightarrow> timelines \<Rightarrow> graphic res" where
  "new_graphic lo hi legends ts =
     bindE (float_of_int lo) (\<lambda>start. bindE (float_of_int hi) (\<lambda>stop.
     Inr \<lparr>g_start = start, g_end = stop, g_range = None, g_width = IntN 1, g_height = IntN 1,
          g_legends = legends, g_legend_height = None, g_lines = ts, g_data = None,
          g_mid = new_scale, g_bot = set_bounds (IntN lo) (IntN hi) new_scale\<rparr>))"

text \<open>\<open>main\<close> up to the main loop of GTK: the view and the colours, or the exception it dies with.\<close>

definition grid_main :: "extents \<Rightarrow> (string list \<Rightarrow> string list) \<Rightarrow> string \<Rightarrow> (graphic \<times> color list \<times> colors) res option" where
  "grid_main ext dict_keys contents =
     (case read_data contents of (cs, ts) \<Rightarrow>
      case bounds_of ts of (lower, upper) \<Rightarrow>
      let values = all_range_values dict_keys ts;
          mid = (upper - lower) div 2; width = (upper - lower) div 10 in
      case bindE (new_graphic lower upper values ts) (\<lambda>g.
           bindE (legend_colors values cs) (\<lambda>(ds, cs'). Inr (g, ds, cs'))) of
        Inl e \<Rightarrow> Some (Inl e)
      | Inr (g, ds, cs') \<Rightarrow>
          map_option (\<lambda>(r, g'). bindE r (\<lambda>_. Inr (g', ds, cs')))
            (set_range ext (IntN (mid - width div 2)) (IntN (mid + width div 2)) g))"

section \<open>Rectangles and scaling\<close>

definition the_range :: "'b graphic_scheme \<Rightarrow> (number \<times> number) res" where
  "the_range g = attr ''__r_start'' (g_range g)"

definition data_start :: "'b graphic_scheme \<Rightarrow> number res" where
  "data_start g = bindE (attr ''left_width'' (g_data g)) data_x_start"

definition data_rectangle :: "'b graphic_scheme \<Rightarrow> (number \<times> number \<times> number \<times> number) res" where
  "data_rectangle g =
     bindE (attr ''__height'' (g_legend_height g)) (\<lambda>y. bindE (data_start g) (\<lambda>x.
     bindE (num_sub (g_width g) x) (\<lambda>w. bindE (attr ''height'' (g_data g)) (\<lambda>d. Inr (x, y, w, data_height d)))))"

definition selection_rectangle :: "'b graphic_scheme \<Rightarrow> (number \<times> number \<times> number \<times> number) res" where
  "selection_rectangle g =
     bindE (attr ''__height'' (g_legend_height g)) (\<lambda>t. bindE (attr ''height'' (g_data g)) (\<lambda>d.
     bindE (attr ''__height'' (sc_height (g_mid g))) (\<lambda>m. bindE (num_sum t [data_height d, m, IntN 20]) (\<lambda>y.
     bindE (attr ''__height'' (sc_height (g_bot g))) (\<lambda>b. bindE (num_add b (IntN 20)) (\<lambda>h.
     bindE (the_range g) (\<lambda>(r, s). bindE (get_position (g_bot g) r) (\<lambda>x. bindE (get_position (g_bot g) s) (\<lambda>x'.
     bindE (num_sub x' x) (\<lambda>w. Inr (x, y, w, h)))))))))))"

definition scale_data :: "number \<Rightarrow> 'b graphic_scheme \<Rightarrow> number res" where
  "scale_data x g =
     bindE (data_start g) (\<lambda>x_start. bindE (num_sub (g_width g) x_start) (\<lambda>w. bindE (num_div x w) (\<lambda>q.
     bindE (the_range g) (\<lambda>(a, b). bindE (num_sub b a) (num_mul q)))))"

definition scale_selection :: "number \<Rightarrow> 'b graphic_scheme \<Rightarrow> number res" where
  "scale_selection x g =
     bindE (num_div x (g_width g)) (\<lambda>q. num_mul q (FloatN (fsub (g_end g) (g_start g))))"


section \<open>Ticks\<close>

definition ten_power :: "int \<Rightarrow> bool" where
  "ten_power c \<longleftrightarrow> (\<exists>k. c = 10 ^ k)"

lemma closest_power:
  assumes "ten_power c" "c = 1 \<or> of_int c < q"
  shows "ten_power (closest_power q c) \<and> q \<le> of_int (closest_power q c * 10) \<and>
    (closest_power q c = 1 \<or> of_int (closest_power q c) < q)"
  using assms
proof (induction q c rule: closest_power.induct)
  case (1 q c)
  have pos: "0 < c" using 1(2) by (auto simp: ten_power_def)
  show ?case
  proof (cases "of_int (c * 10) < q")
    case True
    have "ten_power (c * 10)" using 1(2) unfolding ten_power_def by (metis power_Suc2)
    have step: "closest_power q c = closest_power q (c * 10)" using True pos by (subst closest_power.simps) simp
    show ?thesis unfolding step by (rule 1(1)) (use True pos \<open>ten_power (c * 10)\<close> in auto)
  next
    case False
    then have "closest_power q c = c" by (subst closest_power.simps) simp
    then show ?thesis using False 1(2,3) by simp
  qed
qed

lemma closest_int:
  fixes d :: int
  defines "c \<equiv> closest_power (of_int d) 1"
  shows "ten_power c" "0 < c" "d \<le> 10 * c" "c = 1 \<or> c < d"
proof -
  have "ten_power 1" unfolding ten_power_def by (metis power_0)
  from closest_power[OF this, of "of_int d"]
  have *: "ten_power c" "of_int d \<le> (of_int (c * 10) :: rat)" "c = 1 \<or> (of_int c :: rat) < of_int d"
    by (simp_all only: c_def simp_thms)
  show "ten_power c" "d \<le> 10 * c" "c = 1 \<or> c < d" using * by (simp_all add: mult.commute)
  then show "0 < c" by (auto simp: ten_power_def)
qed

lemma scale_delta_int:
  assumes "0 \<le> d"
  defines "c \<equiv> closest_power (of_int d) 1"
  obtains e where "scale_delta (IntN d) c = Inr e" "d \<noteq> 1 \<longrightarrow> ten_power e" "d < 20 * e \<or> d = 1 \<and> e = 0"
proof -
  note c = closest_int[of d, folded c_def]
  have run: "scale_delta (IntN d) c = Inr (if d div c = 1 then c div 10 else c)"
    using c(2) by (simp add: scale_delta_def number_eq_def)
  show ?thesis
  proof (cases "d div c = 1")
    case False
    then show ?thesis using that[of c] run c(1-3) by auto
  next
    case True
    have d: "c \<le> d" "d < 2 * c"
    proof -
      have "d = c * 1 + d mod c" using True by (metis mult_div_mod_eq)
      then show "c \<le> d" "d < 2 * c" using pos_mod_bound[OF c(2), of d] pos_mod_sign[OF c(2), of d] by linarith+
    qed
    obtain k where k: "c = 10 ^ k" using c(1) by (auto simp: ten_power_def)
    show ?thesis
    proof (cases k)
      case 0
      then show ?thesis using that[of "0"] run True k d by simp
    next
      case (Suc j)
      then have "c div 10 = 10 ^ j" using k by simp
      then show ?thesis using that[of "10 ^ j"] run True k d Suc by (auto simp: ten_power_def)
    qed
  qed
qed

lemma ticks_int:
  assumes "0 < d" "lo \<le> hi"
  shows "ticks (IntN lo) (IntN hi) d = Inr (map (\<lambda>i. (lo div d + 1 + int i) * d) [0..<nat (hi div d - lo div d)])"
proof -
  have m: "lo - lo mod d = lo div d * d" "hi - hi mod d = hi div d * d" by (simp_all add: minus_mod_eq_div_mult)
  have le: "lo div d \<le> hi div d" using assms by (simp add: zdiv_mono1)
  have "(hi div d * d + d - (lo div d * d + d) + d - 1) div d = ((hi div d - lo div d) * d + (d - 1)) div d"
    by (simp add: algebra_simps)
  also have "\<dots> = hi div d - lo div d + (d - 1) div d" using assms(1) by (intro div_mult_self3) simp
  also have "\<dots> = hi div d - lo div d" using assms(1) by simp
  finally have len: "(hi div d * d + d - (lo div d * d + d) + d - 1) div d = hi div d - lo div d" .
  have "ticks (IntN lo) (IntN hi) d = py_range (lo div d * d + d) (hi div d * d + d) d"
    using assms(1) by (simp add: ticks_def tick_bounds_def m)
  also have "\<dots> = Inr (map (\<lambda>i. lo div d * d + d + int i * d) [0..<nat (hi div d - lo div d)])"
    using assms(1) unfolding py_range_def by (simp only: len if_True less_irrefl if_False) auto
  also have "(\<lambda>i. lo div d * d + d + int i * d) = (\<lambda>i. (lo div d + 1 + int i) * d)"
    by (simp add: distrib_right)
  finally show ?thesis .
qed

text \<open>
  The scale below an interval of ints: the layout fails exactly when the interval has length 1;
  otherwise the distance of the ticks is a power of ten, the ticks are its multiples after the lower
  end up to the upper end, in order, and there are at most 20 of them.
\<close>

lemma scale_ticks:
  assumes "sc_bounds s = Some (IntN lo, IntN hi)" "lo \<le> hi"
  shows "if hi - lo = 1 then scale_layout ext width s = Some (Inl ZeroDivisionError, s)
    else \<exists>d xs s'. scale_layout ext width s = Some (Inr (), s') \<and> sc_delta s' = Some d \<and> ten_power d \<and>
      ticks (IntN lo) (IntN hi) d = Inr xs \<and> sorted_wrt (<) xs \<and> set xs = {x. lo < x \<and> x \<le> hi \<and> d dvd x} \<and>
      length xs \<le> 20"
proof -
  obtain e where e: "scale_delta (IntN (hi - lo)) (closest_power (of_int (hi - lo)) 1) = Inr e"
    "hi - lo \<noteq> 1 \<longrightarrow> ten_power e" "hi - lo < 20 * e \<or> hi - lo = 1 \<and> e = 0"
    using scale_delta_int[of "hi - lo"] assms(2) by (metis diff_ge_0_iff_ge)
  have "number_value (IntN (hi - lo)) = Fin (of_int (hi - lo))" by simp
  show ?thesis
  proof (cases "hi - lo = 1")
    case True
    have "scale_delta (IntN 1) (closest_power 1 1) = Inr 0"
      by (simp add: closest_power.simps scale_delta_def number_eq_def)
    then show ?thesis using True assms(1)
      by (simp add: scale_layout_def attr_def tick_bounds_def bindE_def)
  next
    case False
    then have d: "0 < e" "ten_power e" "hi - lo < 20 * e" using e(2,3) by (auto simp: ten_power_def)
    define n where "n = nat (hi div e - lo div e)"
    define xs where "xs = map (\<lambda>i. (lo div e + 1 + int i) * e) [0..<n]"
    have ticks: "ticks (IntN lo) (IntN hi) e = Inr xs" using ticks_int[OF d(1) assms(2)] by (simp add: xs_def n_def)
    have n: "int n = hi div e - lo div e" using d(1) assms(2) by (simp add: n_def zdiv_mono1)
    have bounds: "x div e * e \<le> x" "x < (x div e + 1) * e" for x
      using pos_mod_sign[OF d(1), of x] pos_mod_bound[OF d(1), of x] div_mult_mod_eq[of x e]
      by (simp_all only: distrib_right mult_1)
    have sorted: "sorted_wrt (<) xs"
      using d(1) by (simp add: xs_def sorted_wrt_map sorted_wrt_iff_nth_less)
    have "set xs = {x. lo < x \<and> x \<le> hi \<and> e dvd x}"
    proof (intro equalityI subsetI)
      fix x assume "x \<in> set xs"
      then obtain i where i: "i < n" "x = (lo div e + 1 + int i) * e" by (auto simp: xs_def)
      have "(lo div e + 1) * e \<le> x" unfolding i(2) by (rule mult_right_mono) (use d(1) in auto)
      moreover have "x \<le> hi div e * e" unfolding i(2) by (rule mult_right_mono) (use d(1) i(1) n in auto)
      ultimately show "x \<in> {x. lo < x \<and> x \<le> hi \<and> e dvd x}" using bounds[of lo] bounds[of hi] i(2) by auto
    next
      fix x assume "x \<in> {x. lo < x \<and> x \<le> hi \<and> e dvd x}"
      then obtain q where q: "x = q * e" "lo < q * e" "q * e \<le> hi" by (metis dvd_def mem_Collect_eq mult.commute)
      have "lo div e < q" using q(2) bounds(1)[of lo] d(1) by (meson le_less_trans mult_less_cancel_right_pos)
      moreover have "q \<le> hi div e" using q(3) d(1) by (metis nonzero_mult_div_cancel_right less_irrefl zdiv_mono1)
      ultimately show "x \<in> set xs"
        using n q(1) by (auto simp: xs_def image_iff intro!: bexI[of _ "nat (q - lo div e - 1)"])
    qed
    moreover have "length xs \<le> 20"
    proof -
      have "(hi div e - lo div e - 1) * e < 20 * e"
        using bounds(1)[of hi] bounds(2)[of lo] d(3) by (simp add: left_diff_distrib distrib_right)
      then have "hi div e - lo div e - 1 < 20" using d(1) by simp
      then show ?thesis using n by (simp add: xs_def)
    qed
    moreover have "\<exists>s'. scale_layout ext width s = Some (Inr (), s') \<and> sc_delta s' = Some e"
      using e(1) d(1) assms(1)
      by (simp add: scale_layout_def attr_def tick_bounds_def text_height_def Let_def)
    ultimately show ?thesis using False d(2) ticks sorted by auto
  qed
qed


section \<open>Marks\<close>

text \<open>The texts of events are more than two pixels apart, the ends of rectangles move to the right.\<close>

lemma event_marks_spaced:
  "event_marks f es last_drawn = Inr ms \<Longrightarrow>
     sorted_wrt (\<lambda>x y. x + 2 < y) (last_drawn # map fst ms) \<and> set (map snd ms) \<subseteq> ev_value ` set es"
proof (induction es arbitrary: last_drawn ms)
  case (Cons e es)
  obtain x where x: "f (ev_at e) = Inr x" using Cons.prems by (auto simp: bindE_Inr_iff)
  show ?case
  proof (cases "last_drawn + 2 < x")
    case True
    then obtain ns where ns: "event_marks f es x = Inr ns" "ms = (x, ev_value e) # ns"
      using Cons.prems x by (auto simp: bindE_Inr_iff)
    then show ?thesis using Cons.IH[OF ns(1)] True by fastforce
  next
    case False
    then have "event_marks f es last_drawn = Inr ms" using Cons.prems x by simp
    then show ?thesis using Cons.IH by fastforce
  qed
qed simp

lemma range_marks_spaced:
  "range_marks f view rs last_drawn cs = Inr (ms, cs') \<Longrightarrow>
     sorted_wrt (<) (last_drawn # map (fst \<circ> snd) ms)"
proof (induction rs arbitrary: last_drawn cs ms)
  case (Cons r rs)
  obtain x y where xy: "f (num_max (IntN (dr_start r)) (fst view)) = Inr x" "f (num_min (IntN (dr_end r)) (snd view)) = Inr y"
    using Cons.prems by (auto simp: bindE_Inr_iff)
  show ?case
  proof (cases "last_drawn < y")
    case True
    then obtain c cs1 ns where ns: "range_marks f view rs y cs1 = Inr (ns, cs')" "ms = (x, y, c) # ns"
      using Cons.prems xy by (auto simp: bindE_Inr_iff)
    have "sorted_wrt (<) (y # map (fst \<circ> snd) ns)" by (rule Cons.IH[OF ns(1)])
    then show ?thesis using True ns(2) by (auto simp: comp_def intro: less_trans)
  next
    case False
    then have "range_marks f view rs last_drawn cs = Inr (ms, cs')" using Cons.prems xy by simp
    then show ?thesis by (rule Cons.IH)
  qed
qed simp

section \<open>Short traces\<close>

lemma bindV_Inr: "bindV m f s = Some (Inr b, s'') \<longleftrightarrow> (\<exists>a s'. m s = Some (Inr a, s') \<and> f a s' = Some (Inr b, s''))"
  by (auto simp: bindV_def split: option.splits sum.splits prod.splits)

lemma layout_keeps:
  assumes "graphic_layout ext w h g = Some (Inr (), g')"
  shows "g_range g' = g_range g \<and> g_lines g' = g_lines g \<and> (\<exists>s. scale_layout ext w (g_bot g) = Some (Inr (), s))"
  using assms
  by (auto simp: graphic_layout_def bindV_Inr putV_def resV_def midV_def botV_def)

lemma set_range_range:
  assumes "set_range ext a b g = Some (Inr (), g')"
  shows "g_range g' = Some (num_max (FloatN (g_start g)) (num_min a b), num_min (FloatN (g_end g)) (num_max a b)) \<and>
    (\<exists>s. scale_layout ext (g_width g) (g_bot g) = Some (Inr (), s))"
  using layout_keeps[OF assms[unfolded set_range_def Let_def]] by simp

lemma grid_main_Inr:
  assumes "grid_main ext dict_keys contents = Some (Inr (g, ds, cs'))" "bounds_of (snd (read_data contents)) = (lo, hi)"
  obtains g0 where "new_graphic lo hi (all_range_values dict_keys (snd (read_data contents))) (snd (read_data contents)) = Inr g0"
    "set_range ext (IntN ((hi - lo) div 2 - (hi - lo) div 10 div 2)) (IntN ((hi - lo) div 2 + (hi - lo) div 10 div 2)) g0 = Some (Inr (), g)"
  using assms
  by (auto simp: grid_main_def Let_def bindE_Inr_iff split: prod.splits sum.splits)


lemma scale_layout_None:
  assumes "scale_layout ext w s = None"
  shows "\<exists>lo hi d. sc_bounds s = Some (lo, hi) \<and> num_sub hi lo = Inr d \<and> number_value d = PInf"
proof -
  have "x = PInf" if "closest x = None" for x
    using that by (cases x) auto
  then show ?thesis
    using assms by (auto simp: scale_layout_def attr_def bindE_Inr_iff split: sum.splits prod.splits)
qed

lemma layout_returns:
  assumes "scale_layout ext (g_width g) (g_bot g) \<noteq> None" "\<And>w. scale_layout ext w (g_mid g) \<noteq> None"
  shows "graphic_layout ext (g_width g) h g \<noteq> None"
proof -
  note defs = graphic_layout_def bindV_def putV_def resV_def midV_def botV_def
  show ?thesis
  proof (cases "legend_layout ext (g_width g) (g_legends g)")
    case (Inr l)
    note l = Inr
    show ?thesis
    proof (cases "data_layout_of ext (g_lines g)")
      case (Inr d)
      note d = Inr
      show ?thesis
      proof (cases "bindE (data_x_start d) (num_sub (g_width g))")
        case (Inr w)
        obtain r s where "scale_layout ext w (g_mid g) = Some (r, s)" using assms(2)[of w] by auto
        then show ?thesis using l d Inr assms(1) by (cases r) (simp_all add: defs)
      qed (use l d in \<open>simp add: defs\<close>)
    qed (use l in \<open>simp add: defs\<close>)
  qed (simp add: defs)
qed

lemma covering_draw_fails:
  assumes "spaced (rl_ranges line)" "r \<in> set (rl_ranges line)" "covers_time r (of_int m)"
  shows "\<exists>e. draw_ranges (IntN m, IntN m) line x w cs = Inl e"
proof -
  let ?rs = "rl_ranges line"
  obtain i where i: "i < length ?rs" "r = ?rs ! i" using assms(2) by (auto simp: in_set_conv_nth)
  have s: "search_range ?rs (IntN m) = int i"
    using search_range(1)[of "IntN m" "of_int m", OF _ assms(1) i(1)] i(2) assms(3) by simp
  have b: "get_ranges_bounds line (IntN m) (IntN m) = (int i, int i + 1)"
    using s by (simp add: get_ranges_bounds_def Let_def)
  have "py_slice ?rs (int i) (int i + 1) = take 1 (drop i ?rs)"
    using py_slice_nat[of ?rs i "i + 1"] by (simp add: add.commute)
  then have slice: "py_slice ?rs (int i) (int i + 1) = [r]"
    using i Cons_nth_drop_Suc[OF i(1)] by (metis One_nat_def take_Suc_Cons take0)
  have "dr_start r \<le> m" using assms(3) by (simp add: covers_time_def)
  then have at: "num_max (IntN (dr_start r)) (IntN m) = IntN m"
    by (auto simp: num_max_def number_less_def)
  have "\<exists>e. pixel x w (IntN m) (IntN m) (IntN m) = Inl e"
    by (cases w) (auto simp: pixel_def bindE_def split: sum.splits)
  then show ?thesis
    by (auto simp: draw_ranges_def b slice at bindE_def split: sum.splits)
qed

lemma new_graphic_bot:
  "new_graphic lo hi ls ts = Inr g \<Longrightarrow> g_bot g = set_bounds (IntN lo) (IntN hi) new_scale \<and>
     float_of_int lo = Inr (g_start g) \<and> float_of_int hi = Inr (g_end g) \<and> g_width g = IntN 1 \<and> g_lines g = ts"
  by (auto simp: new_graphic_def bindE_Inr_iff)

text \<open>
  Traces of a short time: a trace whose last time is 1 cannot be shown at all, \<open>main\<close> dies on
  it whatever the texts measure; for one of 2 to 19 the first visible range has both ends at the
  middle of the trace, and the first drawing of a line with a range there dies, too.
\<close>

theorem short_traces:
  assumes "read_data contents = (cs, ts)" "bounds_of ts = (lo, hi)"
  shows "(hi = 1 \<longrightarrow> (\<exists>e. grid_main ext dict_keys contents = Some (Inl e))) \<and>
    (\<forall>g ds cs'. grid_main ext dict_keys contents = Some (Inr (g, ds, cs')) \<longrightarrow> 2 \<le> hi \<longrightarrow> hi < 20 \<longrightarrow>
      g_range g = Some (IntN (hi div 2), IntN (hi div 2)) \<and>
      (\<forall>line r x w. spaced (rl_ranges line) \<longrightarrow> r \<in> set (rl_ranges line) \<longrightarrow> covers_time r (of_int (hi div 2)) \<longrightarrow>
         (\<exists>e. draw_ranges (IntN (hi div 2), IntN (hi div 2)) line x w cs' = Inl e)))"
proof (intro conjI impI allI)
  have b: "bounds_of (snd (read_data contents)) = (lo, hi)" using assms by simp
  have lo: "lo = 0" using read_bounds[OF b] by simp
  show "\<exists>e. grid_main ext dict_keys contents = Some (Inl e)" if one: "hi = 1"
  proof -
    have no: "grid_main ext dict_keys contents \<noteq> Some (Inr (g, ds, cs'))" for g ds cs'
    proof
      assume "grid_main ext dict_keys contents = Some (Inr (g, ds, cs'))"
      from grid_main_Inr[OF this b] obtain g0 a c where g0: "new_graphic lo hi (all_range_values dict_keys (snd (read_data contents)))
          (snd (read_data contents)) = Inr g0" "set_range ext a c g0 = Some (Inr (), g)" by metis
      have "sc_bounds (g_bot g0) = Some (IntN 0, IntN 1)"
        using new_graphic_bot[OF g0(1)] lo one by (simp add: set_bounds_def)
      from scale_ticks[OF this, of ext "g_width g0"] show False
        using set_range_range[OF g0(2)] by simp
    qed
    have "set_range ext (IntN 0) (IntN 0) g0 \<noteq> None" if g0: "new_graphic lo hi ls us = Inr g0" for ls us g0
    proof -
      note new = new_graphic_bot[OF g0]
      have ends: "g_start g0 = Fin 0" "g_end g0 = Fin 1" using new lo one by (simp_all add: float_of_int_small)
      let ?g = "g0\<lparr>g_range := Some (FloatN (Fin 0), IntN 0), g_mid := set_bounds (FloatN (Fin 0)) (IntN 0) (g_mid g0)\<rparr>"
      have "graphic_layout ext (g_width ?g) (g_height g0) ?g \<noteq> None"
      proof (rule layout_returns)
        show "scale_layout ext (g_width ?g) (g_bot ?g) \<noteq> None"
        proof
          assume "scale_layout ext (g_width ?g) (g_bot ?g) = None"
          from scale_layout_None[OF this] show False using new by (auto simp: set_bounds_def)
        qed
        show "scale_layout ext w (g_mid ?g) \<noteq> None" for w
        proof
          assume "scale_layout ext w (g_mid ?g) = None"
          from scale_layout_None[OF this] show False by (auto simp: set_bounds_def fsub_def)
        qed
      qed
      moreover have "num_max (FloatN (Fin 0)) (num_min (IntN 0) (IntN 0)) = FloatN (Fin 0)"
        "num_min (FloatN (Fin 1)) (num_max (IntN 0) (IntN 0)) = IntN 0"
        by (simp_all add: num_max_def num_min_def number_less_def)
      ultimately show ?thesis by (simp add: set_range_def ends Let_def)
    qed
    then have "grid_main ext dict_keys contents \<noteq> None"
      using b lo one by (auto simp: grid_main_def Let_def bindE_Inr_iff split: prod.splits sum.splits)
    then show ?thesis using no by (metis not_Some_eq prod_cases3 sum.exhaust)
  qed
  fix g ds cs'
  assume main: "grid_main ext dict_keys contents = Some (Inr (g, ds, cs'))" and hi: "2 \<le> hi" "hi < 20"
  from grid_main_Inr[OF main b] obtain g0 where g0:
    "new_graphic lo hi (all_range_values dict_keys (snd (read_data contents))) (snd (read_data contents)) = Inr g0"
    "set_range ext (IntN ((hi - lo) div 2 - (hi - lo) div 10 div 2)) (IntN ((hi - lo) div 2 + (hi - lo) div 10 div 2)) g0 = Some (Inr (), g)"
    by metis
  have mid: "hi div 10 div 2 = 0" "0 < hi div 2" "hi div 2 < hi" using hi by auto
  have ends: "g_start g0 = Fin 0" "g_end g0 = Fin (of_int hi)"
    using new_graphic_bot[OF g0(1)] lo hi by (simp_all add: float_of_int_small)
  show "g_range g = Some (IntN (hi div 2), IntN (hi div 2))"
    using set_range_range[OF g0(2)] mid lo by (simp add: ends num_max_def num_min_def number_less_def)
  show "\<exists>e. draw_ranges (IntN (hi div 2), IntN (hi div 2)) line x w cs' = Inl e"
    if "spaced (rl_ranges line)" "r \<in> set (rl_ranges line)" "covers_time r (of_int (hi div 2))" for line r x w
    by (rule covering_draw_fails[OF that])
qed


text \<open>The demonstration, with texts six pixels wide for each character and eight high.\<close>

definition demo_extents :: extents where
  "demo_extents s = (Fin (- 8), Fin (of_nat (6 * length s)), Fin 8)"

lemma demo_bounds: "bounds_of (snd (read_data demo_trace)) = (0, 12)"
  by code_simp

lemma demo_main:
  "case grid_main demo_extents rev demo_trace of Some (Inr _) \<Rightarrow> True | _ \<Rightarrow> False"
  by code_simp

theorem short_traces_witness:
  "\<exists>g ds cs'. grid_main demo_extents rev demo_trace = Some (Inr (g, ds, cs')) \<and> g_range g = Some (IntN 6, IntN 6) \<and>
     (\<exists>e. draw_ranges (IntN 6, IntN 6) demo_line (IntN 0) (IntN 100) cs' = Inl e)"
proof -
  obtain g ds cs' where main: "grid_main demo_extents rev demo_trace = Some (Inr (g, ds, cs'))"
    using demo_main by (auto split: option.splits sum.splits)
  have "read_data demo_trace = (fst (read_data demo_trace), snd (read_data demo_trace))" by simp
  note short = short_traces[OF this demo_bounds, of demo_extents rev]
  have line: "spaced (rl_ranges demo_line)" "\<lparr>dr_start = 6, dr_end = 9, dr_value = ''b''\<rparr> \<in> set (rl_ranges demo_line)"
    by (simp_all add: spaced_def demo_line_def)
  have "covers_time \<lparr>dr_start = 6, dr_end = 9, dr_value = ''b''\<rparr> (of_int (12 div 2))" by (simp add: covers_time_def)
  then have "\<exists>e. draw_ranges (IntN (12 div 2), IntN (12 div 2)) demo_line (IntN 0) (IntN 100) cs' = Inl e"
    using conjunct2[OF short, rule_format, OF main] line by auto
  moreover have "g_range g = Some (IntN (12 div 2), IntN (12 div 2))"
    using conjunct2[OF short, rule_format, OF main] by auto
  ultimately show ?thesis using main by auto
qed

end
