(* ===== verification/GridMouse.thy ===== *)
theory GridMouse
  imports GridView
begin

text \<open>
  The window of \<open>utils/grid.py\<close> (\<open>GtkGraphicRenderer\<close>): its handlers for the mouse, for a new size and
  for the zoom buttons, as a state machine over the view of GridView. A drag begins with a button
  press (on the left or right end of the selection, inside it, or on the data), goes on with motions
  and ends with the release; the position of the pointer is kept in attributes that only a motion
  sets. \<open>input_step\<close> is one handler call, \<open>inputs\<close> a sequence of them, exceptions included.
\<close>

section \<open>State\<close>

datatype cursor = No_Cursor | Double_Arrow | Fleur

record gtk_view = graphic +
  moving_left :: bool
  moving_right :: bool
  moving_both :: bool
  moving_top :: bool
  left_cur :: "number option"
  right_cur :: "number option"
  both_start :: "number option"
  both_cur :: "number option"
  top_start :: "number option"
  top_cur :: "number option"
  view_width :: "number option"
  view_height :: "number option"
  full_redraw :: bool
  cursor_shown :: cursor

definition new_view :: "graphic \<Rightarrow> gtk_view" where
  "new_view g = graphic.extend g
     \<lparr>moving_left = False, moving_right = False, moving_both = False, moving_top = False,
      left_cur = None, right_cur = None, both_start = None, both_cur = None, top_start = None, top_cur = None,
      view_width = None, view_height = None, full_redraw = True, cursor_shown = No_Cursor\<rparr>"

text \<open>The truth of a number in an \<open>if\<close>.\<close>

definition number_true :: "number \<Rightarrow> bool" where
  "number_true x = (\<not> number_eq x (IntN 0))"

fun num_abs :: "number \<Rightarrow> number" where
  "num_abs (IntN n) = IntN \<bar>n\<bar>"
| "num_abs (FloatN (Fin q)) = FloatN (Fin \<bar>q\<bar>)"
| "num_abs (FloatN MInf) = FloatN PInf"
| "num_abs (FloatN x) = FloatN x"

text \<open>\<open>v > lo and v < lo + extent\<close>, and \<open>abs(a - b) < 5\<close>.\<close>

definition spans :: "number \<Rightarrow> number \<Rightarrow> number \<Rightarrow> bool res" where
  "spans lo extent v =
     (if number_less lo v then bindE (num_add lo extent) (\<lambda>hi. Inr (number_less v hi)) else Inr False)"

definition near :: "number \<Rightarrow> number \<Rightarrow> bool res" where
  "near a b = bindE (num_sub a b) (\<lambda>d. Inr (number_less (num_abs d) (IntN 5)))"

text \<open>The range is set and everything is drawn again.\<close>

definition move_range :: "extents \<Rightarrow> number \<Rightarrow> number \<Rightarrow> (gtk_view, unit) view_act" where
  "move_range ext start stop = bindV (set_range ext start stop) (\<lambda>_. putV (\<lambda>v. v\<lparr>full_redraw := True\<rparr>))"

text \<open>\<open>set_range(left + delta, right + delta)\<close>\<close>

definition shift_range :: "extents \<Rightarrow> number \<Rightarrow> (gtk_view, unit) view_act" where
  "shift_range ext delta =
     bindV (resV (\<lambda>v. bindE (the_range v) (\<lambda>(a, b). bindE (num_add a delta) (\<lambda>a'. bindE (num_add b delta) (\<lambda>b'.
       Inr (a', b')))))) (\<lambda>(a, b). move_range ext a b)"

section \<open>Zoom and size\<close>

definition smaller_zoom :: "extents \<Rightarrow> (gtk_view, unit) view_act" where
  "smaller_zoom ext =
     bindV (resV (\<lambda>v. bindE (the_range v) (\<lambda>(a, b). bindE (num_sub b a) (\<lambda>l. bindE (num_mul l (IntN 2)) (\<lambda>m.
       bindE (num_add a m) (\<lambda>b'. Inr (a, b'))))))) (\<lambda>(a, b). move_range ext a b)"

definition bigger_zoom :: "extents \<Rightarrow> (gtk_view, unit) view_act" where
  "bigger_zoom ext =
     bindV (resV (\<lambda>v. bindE (the_range v) (\<lambda>(a, b). bindE (num_sub b a) (\<lambda>l. bindE (num_div l (IntN 2)) (\<lambda>m.
       bindE (num_add a m) (\<lambda>b'. Inr (a, b'))))))) (\<lambda>(a, b). move_range ext a b)"

definition size_allocate :: "extents \<Rightarrow> int \<Rightarrow> int \<Rightarrow> (gtk_view, unit) view_act" where
  "size_allocate ext width height =
     bindV (putV (\<lambda>v. v\<lparr>view_width := Some (IntN width), view_height := Some (IntN height)\<rparr>)) (\<lambda>_.
     bindV (graphic_layout ext (IntN width) (IntN height)) (\<lambda>_.
     putV (\<lambda>v. v\<lparr>full_redraw := True\<rparr>)))"

section \<open>Button press\<close>

text \<open>Where the pointer is: on an end of the selection, inside it, on the data, elsewhere.\<close>

datatype place = Left_End | Right_End | Selection | Data_Area | Elsewhere

definition data_place :: "number \<Rightarrow> number \<Rightarrow> number \<times> number \<times> number \<times> number \<Rightarrow> place res" where
  "data_place ex ey d =
     (case d of (d_x, d_y, d_width, d_height) \<Rightarrow>
        bindE (spans d_y d_height ey) (\<lambda>in_y.
        if \<not> in_y then Inr Elsewhere
        else bindE (spans d_x d_width ex) (\<lambda>in_x. Inr (if in_x then Data_Area else Elsewhere))))"

definition press_place ::
  "number \<Rightarrow> number \<Rightarrow> number \<times> number \<times> number \<times> number \<Rightarrow> number \<times> number \<times> number \<times> number \<Rightarrow> place res" where
  "press_place ex ey s d =
     (case s of (x, y, width, height) \<Rightarrow>
        bindE (spans y height ey) (\<lambda>in_y.
        if \<not> in_y then data_place ex ey d
        else
          bindE (near ex x) (\<lambda>l. if l then Inr Left_End else
          bindE (num_add x width) (\<lambda>r. bindE (near ex r) (\<lambda>r. if r then Inr Right_End else
          bindE (spans x width ex) (\<lambda>i. if i then Inr Selection else data_place ex ey d))))))"

definition pressed :: "number \<Rightarrow> place \<Rightarrow> gtk_view \<Rightarrow> gtk_view" where
  "pressed ex p v =
     (case p of
        Left_End \<Rightarrow> v\<lparr>moving_left := True\<rparr>
      | Right_End \<Rightarrow> v\<lparr>moving_right := True\<rparr>
      | Selection \<Rightarrow> v\<lparr>moving_both := True, both_start := Some ex, both_cur := Some ex\<rparr>
      | Data_Area \<Rightarrow> v\<lparr>moving_top := True, top_start := Some ex, top_cur := Some ex\<rparr>
      | Elsewhere \<Rightarrow> v)"

definition button_press :: "number \<Rightarrow> number \<Rightarrow> (gtk_view, bool) view_act" where
  "button_press ex ey =
     bindV (resV selection_rectangle) (\<lambda>s. bindV (resV data_rectangle) (\<lambda>d.
     bindV (resV (\<lambda>v. press_place ex ey s d)) (\<lambda>p.
     bindV (putV (pressed ex p)) (\<lambda>_. resV (\<lambda>v. Inr (p \<noteq> Elsewhere))))))"

section \<open>Button release\<close>

text \<open>A range from the new end and the other end, then the handler returns \<open>True\<close>.\<close>

definition release_left :: "extents \<Rightarrow> (gtk_view, bool) view_act" where
  "release_left ext =
     bindV (putV (\<lambda>v. v\<lparr>moving_left := False\<rparr>)) (\<lambda>_.
     bindV (resV (\<lambda>v. bindE (attr ''__moving_left_cur'' (left_cur v)) (\<lambda>c. bindE (scale_selection c v) (\<lambda>left.
       bindE (the_range v) (\<lambda>(a, b). Inr (left, b)))))) (\<lambda>(left, right).
     bindV (move_range ext left right) (\<lambda>_. resV (\<lambda>v. Inr True))))"

definition release_right :: "extents \<Rightarrow> (gtk_view, bool) view_act" where
  "release_right ext =
     bindV (putV (\<lambda>v. v\<lparr>moving_right := False\<rparr>)) (\<lambda>_.
     bindV (resV (\<lambda>v. bindE (attr ''__moving_right_cur'' (right_cur v)) (\<lambda>c. bindE (scale_selection c v) (\<lambda>right.
       bindE (the_range v) (\<lambda>(a, b). Inr (a, right)))))) (\<lambda>(left, right).
     bindV (move_range ext left right) (\<lambda>_. resV (\<lambda>v. Inr True))))"

definition release_both :: "extents \<Rightarrow> (gtk_view, bool) view_act" where
  "release_both ext =
     bindV (putV (\<lambda>v. v\<lparr>moving_both := False\<rparr>)) (\<lambda>_.
     bindV (resV (\<lambda>v. bindE (attr ''__moving_both_cur'' (both_cur v)) (\<lambda>c.
       bindE (attr ''__moving_both_start'' (both_start v)) (\<lambda>s. bindE (num_sub c s) (\<lambda>d. scale_selection d v))))) (\<lambda>delta.
     bindV (shift_range ext delta) (\<lambda>_. resV (\<lambda>v. Inr True))))"

definition button_release :: "extents \<Rightarrow> (gtk_view, bool) view_act" where
  "button_release ext v =
     (if moving_left v then release_left ext v
      else if moving_right v then release_right ext v
      else if moving_both v then release_both ext v
      else Some (Inr False, if moving_top v then v\<lparr>moving_top := False\<rparr> else v))"

section \<open>Motion\<close>

text \<open>\<open>queue_draw_area(0, int(y), int(self.__width), int(height))\<close>, then the handler returns \<open>True\<close>.\<close>

definition redraw_area :: "number \<times> number \<times> number \<times> number \<Rightarrow> (gtk_view, bool) view_act" where
  "redraw_area s =
     (case s of (x, y, width, height) \<Rightarrow>
        resV (\<lambda>v. bindE (num_int y) (\<lambda>_. bindE (attr ''__width'' (view_width v)) (\<lambda>w. bindE (num_int w) (\<lambda>_.
          bindE (num_int height) (\<lambda>_. Inr True))))))"

definition motion_left :: "number \<Rightarrow> number \<times> number \<times> number \<times> number \<Rightarrow> (gtk_view, bool) view_act" where
  "motion_left ex s =
     (case s of (x, y, width, height) \<Rightarrow>
        bindV (if number_le ex (IntN 0) then putV (\<lambda>v. v\<lparr>left_cur := Some (IntN 0)\<rparr>)
               else bindV (resV (\<lambda>v. num_add x width)) (\<lambda>r.
                    if number_le r ex then putV (\<lambda>v. v\<lparr>left_cur := Some r\<rparr>)
                    else putV (\<lambda>v. v\<lparr>left_cur := Some ex\<rparr>))) (\<lambda>_.
        redraw_area s))"

text \<open>Past the right border it is \<open>__moving_right\<close> that is assigned, not \<open>__moving_right_cur\<close>.\<close>

definition motion_right :: "number \<Rightarrow> number \<times> number \<times> number \<times> number \<Rightarrow> (gtk_view, bool) view_act" where
  "motion_right ex s =
     (case s of (x, y, width, height) \<Rightarrow>
        bindV (resV (\<lambda>v. attr ''__width'' (view_width v))) (\<lambda>w.
        bindV (if number_le w ex then putV (\<lambda>v. v\<lparr>moving_right := number_true w\<rparr>)
               else if number_less ex x then putV (\<lambda>v. v\<lparr>right_cur := Some x\<rparr>)
               else putV (\<lambda>v. v\<lparr>right_cur := Some ex\<rparr>)) (\<lambda>_.
        redraw_area s)))"

definition motion_both :: "number \<Rightarrow> number \<times> number \<times> number \<times> number \<Rightarrow> (gtk_view, bool) view_act" where
  "motion_both ex s =
     (case s of (x, y, width, height) \<Rightarrow>
        bindV (resV (\<lambda>v. bindE (attr ''__width'' (view_width v)) (\<lambda>w. bindE (num_add x width) (\<lambda>r.
          bindE (attr ''__moving_both_start'' (both_start v)) (\<lambda>st. bindE (num_sub r st) (\<lambda>m.
          bindE (num_sub w m) (\<lambda>cur_e. bindE (num_sub st x) (\<lambda>cur_s. Inr (cur_s, cur_e))))))))) (\<lambda>(cur_s, cur_e).
        bindV (putV (\<lambda>v. v\<lparr>both_cur := Some (if number_less ex cur_s then cur_s
                                     else if number_less cur_e ex then cur_e else ex)\<rparr>)) (\<lambda>_.
        redraw_area s)))"

definition motion_top :: "extents \<Rightarrow> number \<Rightarrow> (gtk_view, bool) view_act" where
  "motion_top ext ex =
     bindV (putV (\<lambda>v. v\<lparr>top_cur := Some ex\<rparr>)) (\<lambda>_.
     bindV (resV (\<lambda>v. bindE (attr ''__moving_top_start'' (top_start v)) (\<lambda>s. bindE (num_sub s ex) (\<lambda>d. scale_data d v)))) (\<lambda>delta.
     bindV (shift_range ext delta) (\<lambda>_.
     bindV (putV (\<lambda>v. v\<lparr>top_start := Some ex\<rparr>)) (\<lambda>_. resV (\<lambda>v. Inr True)))))"

text \<open>Without a drag the pointer changes its shape over the ends, the selection and the data.\<close>

definition hover :: "number \<Rightarrow> number \<Rightarrow> number \<times> number \<times> number \<times> number \<Rightarrow> (gtk_view, bool) view_act" where
  "hover ex ey s =
     bindV (resV data_rectangle) (\<lambda>d.
     bindV (resV (\<lambda>v. press_place ex ey s d)) (\<lambda>p.
     bindV (putV (\<lambda>v. v\<lparr>cursor_shown := (case p of Left_End \<Rightarrow> Double_Arrow | Right_End \<Rightarrow> Double_Arrow
                                     | Selection \<Rightarrow> Fleur | Data_Area \<Rightarrow> Fleur | Elsewhere \<Rightarrow> No_Cursor)\<rparr>)) (\<lambda>_.
     resV (\<lambda>v. Inr (p \<noteq> Elsewhere)))))"

definition motion_notify :: "extents \<Rightarrow> number \<Rightarrow> number \<Rightarrow> (gtk_view, bool) view_act" where
  "motion_notify ext ex ey =
     bindV (resV selection_rectangle) (\<lambda>s v.
       if moving_left v then motion_left ex s v
       else if moving_right v then motion_right ex s v
       else if moving_both v then motion_both ex s v
       else if moving_top v then motion_top ext ex v
       else hover ex ey s v)"

section \<open>The lines of a drag\<close>

text \<open>Where \<open>expose\<close> draws the vertical lines of the drag that is going on.\<close>

definition drag_lines :: "gtk_view \<Rightarrow> number list res" where
  "drag_lines v =
     bindE (selection_rectangle v) (\<lambda>(x, y, width, height).
     bindE (if moving_left v
            then bindE (attr ''__moving_left_cur'' (left_cur v)) (\<lambda>c. Inr [num_max c (IntN 2)]) else Inr []) (\<lambda>ls.
     bindE (if moving_right v
            then bindE (attr ''__moving_right_cur'' (right_cur v)) (\<lambda>c. bindE (attr ''__width'' (view_width v)) (\<lambda>w.
                 bindE (num_sub w (IntN 2)) (\<lambda>m. Inr [num_min c m]))) else Inr []) (\<lambda>rs.
     bindE (if moving_both v
            then bindE (attr ''__moving_both_cur'' (both_cur v)) (\<lambda>c. bindE (attr ''__moving_both_start'' (both_start v)) (\<lambda>s.
                 bindE (num_sub c s) (\<lambda>d. bindE (num_add x d) (\<lambda>a. bindE (num_sum x [width, d]) (\<lambda>b. Inr [a, b])))))
            else Inr []) (\<lambda>bs.
     Inr (ls @ rs @ bs)))))"

section \<open>Sequences of handler calls\<close>

datatype user_input =
    Press number number
  | Release
  | Motion number number
  | Allocate int int
  | Zoom_Out
  | Zoom_In

definition no_result :: "('s, 'a) view_act \<Rightarrow> 's \<Rightarrow> (unit res \<times> 's) option" where
  "no_result m s = map_option (\<lambda>(r, s'). (bindE r (\<lambda>_. Inr ()), s')) (m s)"

fun input_step :: "extents \<Rightarrow> user_input \<Rightarrow> (gtk_view, unit) view_act" where
  "input_step ext (Press x y) = no_result (button_press x y)"
| "input_step ext Release = no_result (button_release ext)"
| "input_step ext (Motion x y) = no_result (motion_notify ext x y)"
| "input_step ext (Allocate w h) = size_allocate ext w h"
| "input_step ext Zoom_Out = smaller_zoom ext"
| "input_step ext Zoom_In = bigger_zoom ext"

text \<open>GTK prints the exception of a handler and goes on with the next event.\<close>

fun inputs :: "extents \<Rightarrow> user_input list \<Rightarrow> gtk_view \<Rightarrow> (exn list \<times> gtk_view) option" where
  "inputs ext [] v = Some ([], v)"
| "inputs ext (i # is) v =
     (case input_step ext i v of
        None \<Rightarrow> None
      | Some (r, v') \<Rightarrow>
          map_option (\<lambda>(es, v''). ((case r of Inl e \<Rightarrow> [e] | Inr _ \<Rightarrow> []) @ es, v'')) (inputs ext is v'))"


section \<open>What every handler keeps\<close>

definition keeps :: "('s \<Rightarrow> bool) \<Rightarrow> ('s, 'a) view_act \<Rightarrow> bool" where
  "keeps P m \<longleftrightarrow> (\<forall>s r s'. P s \<longrightarrow> m s = Some (r, s') \<longrightarrow> P s')"

named_theorems keeps_intros "rules for what actions keep"





lemma keeps_put [keeps_intros]: "(\<And>s. P s \<Longrightarrow> P (f s)) \<Longrightarrow> keeps P (putV f)"
  by (simp add: keeps_def putV_def)

lemma keeps_if [keeps_intros]: "keeps P m \<Longrightarrow> keeps P m' \<Longrightarrow> keeps P (if c then m else m')"
  by simp


















section \<open>The course of a session\<close>




lemma flag_rectangles [simp]:
  "selection_rectangle (v\<lparr>moving_left := x\<rparr>) = selection_rectangle v" "selection_rectangle (v\<lparr>moving_right := x\<rparr>) = selection_rectangle v"
  "scale_selection c (v\<lparr>moving_left := x\<rparr>) = scale_selection c v" "the_range (v\<lparr>moving_left := x\<rparr>) = the_range v"
  by (simp_all add: selection_rectangle_def the_range_def scale_selection_def)

lemma press_at:
  assumes "selection_rectangle v = Inr s" "data_rectangle v = Inr d" "press_place x y s d = Inr p"
  shows "input_step ext (Press x y) v = Some (Inr (), pressed x p v)"
  using assms by (simp add: no_result_def button_press_def bindV_def resV_def putV_def)

lemma stale_left:
  assumes "\<not> moving_left v" "\<not> moving_right v"
    and "selection_rectangle v = Inr s" "data_rectangle v = Inr d"
    and left: "press_place x y s d = Inr Left_End"
  shows "inputs ext [Press x y, Release] v =
        (case left_cur v of
           None \<Rightarrow> Some ([AttributeError ''__moving_left_cur''], v)
         | Some c \<Rightarrow>
             (case bindE (scale_selection c v) (\<lambda>l. bindE (the_range v) (\<lambda>(a, b). Inr (l, b))) of
                Inl e \<Rightarrow> Some ([e], v)
              | Inr (l, b) \<Rightarrow> map_option (\<lambda>(r, v'). (case r of Inl e \<Rightarrow> [e] | Inr _ \<Rightarrow> [], v')) (move_range ext l b v)))"
proof -
  note press = press_at[OF assms(3,4) left, of ext]
  let ?v = "v\<lparr>moving_left := True\<rparr>"
  have same: "?v\<lparr>moving_left := False\<rparr> = v" using assms(1) by simp
  have two: "inputs ext [Press x y, Release] v =
      map_option (\<lambda>(r, v'). ((case r of Inl e \<Rightarrow> [e] | Inr _ \<Rightarrow> []), v')) (no_result (release_left ext) ?v)"
    using press by (cases "no_result (release_left ext) ?v") (auto simp: pressed_def button_release_def no_result_def split: option.splits)
  show "inputs ext [Press x y, Release] v =
        (case left_cur v of
           None \<Rightarrow> Some ([AttributeError ''__moving_left_cur''], v)
         | Some c \<Rightarrow>
             (case bindE (scale_selection c v) (\<lambda>l. bindE (the_range v) (\<lambda>(a, b). Inr (l, b))) of
                Inl e \<Rightarrow> Some ([e], v)
              | Inr (l, b) \<Rightarrow> map_option (\<lambda>(r, v'). (case r of Inl e \<Rightarrow> [e] | Inr _ \<Rightarrow> [], v')) (move_range ext l b v)))"
  proof (cases "left_cur v")
    case None
    then show ?thesis
      unfolding two using same by (simp add: no_result_def release_left_def bindV_def putV_def resV_def attr_def)
  next
    case (Some c)
    note c = Some
    show ?thesis
    proof (cases "bindE (scale_selection c v) (\<lambda>l. bindE (the_range v) (\<lambda>(a, b). Inr (l, b)))")
      case (Inl e)
      then show ?thesis
        unfolding two using same c by (simp add: no_result_def release_left_def bindV_def putV_def resV_def attr_def)
    next
      case (Inr lb)
      obtain l b where lb: "lb = (l, b)" by (cases lb)
      show ?thesis
      proof (cases "move_range ext l b v")
        case None
        then show ?thesis
          unfolding two using same c Inr lb
          by (simp add: no_result_def release_left_def bindV_def putV_def resV_def attr_def)
      next
        case (Some q)
        obtain r1 v1 where q: "q = (r1, v1)" by (cases q)
        show ?thesis
          unfolding two using same c Inr lb Some q
          by (cases r1) (simp_all add: no_result_def release_left_def bindV_def putV_def resV_def attr_def)
      qed
    qed
  qed
qed

lemma inputs_append:
  "inputs ext (is @ js) v =
     (case inputs ext is v of
        None \<Rightarrow> None
      | Some (es, v') \<Rightarrow> map_option (\<lambda>(es', v''). (es @ es', v'')) (inputs ext js v'))"
  by (induction "is" arbitrary: v) (auto split: option.splits simp: option.map_comp comp_def split_def option.map_ident
      intro!: map_option_cong)

text \<open>A motion of the right end that reaches the border changes nothing, whatever it raises.\<close>

lemma border_motions:
  assumes "\<not> moving_left v" "moving_right v" "selection_rectangle v = Inr s" "view_width v = Some w" "number_true w"
    and "\<forall>(mx, my) \<in> set ms. number_le w mx"
  shows "\<exists>es. inputs ext (map (\<lambda>(mx, my). Motion mx my) ms) v = Some (es, v)"
  using assms(6)
proof (induction ms)
  case (Cons m ms)
  obtain mx my where m: "m = (mx, my)" by (cases m)
  obtain sx sy sw sh where s: "s = (sx, sy, sw, sh)" by (cases s)
  have same: "v\<lparr>moving_right := True\<rparr> = v" using assms(2) by simp
  have "number_le w mx" using Cons.prems m by simp
  then have "\<exists>q. motion_notify ext mx my v = Some (q, v)"
    using assms(1-5) same by (simp add: motion_notify_def motion_right_def redraw_area_def s bindV_def resV_def putV_def attr_def)
  then obtain q where "input_step ext (Motion mx my) v = Some (q, v)" by (auto simp: no_result_def)
  then show ?case using Cons by (auto simp: m simp del: input_step.simps)
qed simp

lemma stale_right:
  assumes "\<not> moving_left v" "\<not> moving_right v"
    and "selection_rectangle v = Inr s" "data_rectangle v = Inr d"
    and right: "press_place x y s d = Inr Right_End" and w: "view_width v = Some w" "number_true w"
    and ms: "\<forall>(mx, my) \<in> set ms. number_le w mx"
  shows "\<exists>es. inputs ext (Press x y # map (\<lambda>(mx, my). Motion mx my) ms @ [Release]) v =
        (case right_cur v of
           None \<Rightarrow> Some (es @ [AttributeError ''__moving_right_cur''], v)
         | Some c \<Rightarrow>
             (case bindE (scale_selection c v) (\<lambda>r. bindE (the_range v) (\<lambda>(a, b). Inr (a, r))) of
                Inl e \<Rightarrow> Some (es @ [e], v)
              | Inr (a, r) \<Rightarrow>
                  map_option (\<lambda>(q, v'). (es @ (case q of Inl e \<Rightarrow> [e] | Inr _ \<Rightarrow> []), v')) (move_range ext a r v)))"
proof -
  let ?v = "v\<lparr>moving_right := True\<rparr>"
  have same: "?v\<lparr>moving_right := False\<rparr> = v" using assms(2) by simp
  obtain es where es: "inputs ext (map (\<lambda>(mx, my). Motion mx my) ms) ?v = Some (es, ?v)"
    using border_motions [of ?v s w ms ext] assms(1,3) w ms by auto
  have press: "input_step ext (Press x y) v = Some (Inr (), ?v)"
    using press_at [OF assms(3,4) right, of ext] by (simp add: pressed_def)
  have run: "inputs ext (Press x y # map (\<lambda>(mx, my). Motion mx my) ms @ [Release]) v =
      map_option (\<lambda>(r, v'). (es @ (case r of Inl e \<Rightarrow> [e] | Inr _ \<Rightarrow> []), v')) (no_result (release_right ext) ?v)"
    using press assms(1) by (cases "no_result (release_right ext) ?v")
      (auto simp: inputs_append es button_release_def no_result_def simp del: input_step.simps(1) split: option.splits)
  show ?thesis
  proof (intro exI [of _ es])
    show "inputs ext (Press x y # map (\<lambda>(mx, my). Motion mx my) ms @ [Release]) v =
        (case right_cur v of
           None \<Rightarrow> Some (es @ [AttributeError ''__moving_right_cur''], v)
         | Some c \<Rightarrow>
             (case bindE (scale_selection c v) (\<lambda>r. bindE (the_range v) (\<lambda>(a, b). Inr (a, r))) of
                Inl e \<Rightarrow> Some (es @ [e], v)
              | Inr (a, r) \<Rightarrow>
                  map_option (\<lambda>(q, v'). (es @ (case q of Inl e \<Rightarrow> [e] | Inr _ \<Rightarrow> []), v')) (move_range ext a r v)))"
    proof (cases "right_cur v")
      case None
      then show ?thesis
        unfolding run using same by (simp add: no_result_def release_right_def bindV_def putV_def resV_def attr_def)
    next
      case (Some c)
      note c = Some
      show ?thesis
      proof (cases "bindE (scale_selection c v) (\<lambda>r. bindE (the_range v) (\<lambda>(a, b). Inr (a, r)))")
        case (Inl e)
        then show ?thesis
          unfolding run using same c by (simp add: no_result_def release_right_def bindV_def putV_def resV_def attr_def)
      next
        case (Inr ar)
        obtain a r where ar: "ar = (a, r)" by (cases ar)
        show ?thesis
        proof (cases "move_range ext a r v")
          case None
          then show ?thesis
            unfolding run using same c Inr ar
            by (simp add: no_result_def release_right_def bindV_def putV_def resV_def attr_def)
        next
          case (Some q)
          obtain r1 v1 where q: "q = (r1, v1)" by (cases q)
          show ?thesis
            unfolding run using same c Inr ar Some q
            by (cases r1) (simp_all add: no_result_def release_right_def bindV_def putV_def resV_def attr_def)
        qed
      qed
    qed
  qed
qed

text \<open>
  C30. Drags that read a stale position.  A click on the left end of the selection without a motion
  still reads the position of the previous drag of this end: if there was none it is an
  \<open>AttributeError\<close>, otherwise the range jumps to where that drag ended.  The same holds for the right end
  if the drag has no motion, or if all its motions reach the right border of the window, because these
  assign to the wrong attribute.
\<close>

theorem stale_drag:
  assumes "\<not> moving_left v" "\<not> moving_right v"
    and "selection_rectangle v = Inr s" "data_rectangle v = Inr d"
  shows "(press_place x y s d = Inr Left_End \<longrightarrow>
      inputs ext [Press x y, Release] v =
        (case left_cur v of
           None \<Rightarrow> Some ([AttributeError ''__moving_left_cur''], v)
         | Some c \<Rightarrow>
             (case bindE (scale_selection c v) (\<lambda>l. bindE (the_range v) (\<lambda>(a, b). Inr (l, b))) of
                Inl e \<Rightarrow> Some ([e], v)
              | Inr (l, b) \<Rightarrow> map_option (\<lambda>(r, v'). (case r of Inl e \<Rightarrow> [e] | Inr _ \<Rightarrow> [], v')) (move_range ext l b v)))) \<and>
    (press_place x y s d = Inr Right_End \<longrightarrow> view_width v = Some w \<longrightarrow> number_true w \<longrightarrow>
      (\<forall>(mx, my) \<in> set ms. number_le w mx) \<longrightarrow>
      (\<exists>es. inputs ext (Press x y # map (\<lambda>(mx, my). Motion mx my) ms @ [Release]) v =
        (case right_cur v of
           None \<Rightarrow> Some (es @ [AttributeError ''__moving_right_cur''], v)
         | Some c \<Rightarrow>
             (case bindE (scale_selection c v) (\<lambda>r. bindE (the_range v) (\<lambda>(a, b). Inr (a, r))) of
                Inl e \<Rightarrow> Some (es @ [e], v)
              | Inr (a, r) \<Rightarrow>
                  map_option (\<lambda>(q, v'). (es @ (case q of Inl e \<Rightarrow> [e] | Inr _ \<Rightarrow> []), v')) (move_range ext a r v)))))"
  by (intro conjI impI) (rule stale_left [OF assms] stale_right [OF assms]; assumption)+

section \<open>A demonstration\<close>

text \<open>The demonstration trace in a window of 400 by 300 pixels, before and after a session.\<close>

definition demo_inputs :: "user_input list" where
  "demo_inputs =
     [Allocate 400 300, Zoom_Out, Press (FloatN (Fin 200)) (FloatN (Fin 110)), Motion (FloatN (Fin 100)) (FloatN (Fin 110)), Release, Zoom_In]"


lemma demo_session:
  "case grid_main demo_extents rev demo_trace of
     Some (Inr (g, _)) \<Rightarrow>
       (case inputs demo_extents demo_inputs (new_view g) of
          Some (es, v) \<Rightarrow> es = [] \<and> g_range v = Some (FloatN (Fin 3), FloatN (Fin (9 / 2))) \<and>
            \<not> moving_left v \<and> \<not> moving_right v \<and> right_cur v = None \<and> view_width v = Some (IntN 400) \<and>
            selection_rectangle v = Inr (FloatN (Fin 100), FloatN (Fin 109), FloatN (Fin 50), FloatN (Fin 38)) \<and>
            data_rectangle v = Inr (FloatN (Fin 62), FloatN (Fin 28), FloatN (Fin 338), FloatN (Fin 43))
        | None \<Rightarrow> False)
   | _ \<Rightarrow> False"
  by code_simp



lemma demo_window:
  "case grid_main demo_extents rev demo_trace of
     Some (Inr (g, _)) \<Rightarrow>
       (case inputs demo_extents [Allocate 400 300] (new_view g) of
          Some (es, v) \<Rightarrow> es = [] \<and> \<not> moving_left v \<and> \<not> moving_right v \<and> left_cur v = None \<and>
            selection_rectangle v = Inr (IntN 200, FloatN (Fin 109), IntN 0, FloatN (Fin 38)) \<and>
            data_rectangle v = Inr (FloatN (Fin 62), FloatN (Fin 28), FloatN (Fin 338), FloatN (Fin 43))
        | None \<Rightarrow> False)
   | _ \<Rightarrow> False"
  by code_simp

theorem stale_drag_witness:
  "\<exists>g ds cs' v v' es.
     grid_main demo_extents rev demo_trace = Some (Inr (g, ds, cs')) \<and>
     inputs demo_extents [Allocate 400 300] (new_view g) = Some ([], v) \<and>
     inputs demo_extents [Press (FloatN (Fin 200)) (FloatN (Fin 110)), Release] v =
       Some ([AttributeError ''__moving_left_cur''], v) \<and>
     inputs demo_extents demo_inputs (new_view g) = Some ([], v') \<and>
     inputs demo_extents
       [Press (FloatN (Fin 150)) (FloatN (Fin 110)), Motion (FloatN (Fin 450)) (FloatN (Fin 110)), Release] v' =
       Some (es @ [AttributeError ''__moving_right_cur''], v')"
proof -
  obtain g ds cs' and v v' :: gtk_view where v: "\<not> moving_left v" "\<not> moving_right v" "left_cur v = None"
    "selection_rectangle v = Inr (IntN 200, FloatN (Fin 109), IntN 0, FloatN (Fin 38))"
    "data_rectangle v = Inr (FloatN (Fin 62), FloatN (Fin 28), FloatN (Fin 338), FloatN (Fin 43))"
    and v': "\<not> moving_left v'" "\<not> moving_right v'" "right_cur v' = None" "view_width v' = Some (IntN 400)"
    "selection_rectangle v' = Inr (FloatN (Fin 100), FloatN (Fin 109), FloatN (Fin 50), FloatN (Fin 38))"
    "data_rectangle v' = Inr (FloatN (Fin 62), FloatN (Fin 28), FloatN (Fin 338), FloatN (Fin 43))"
    and run: "grid_main demo_extents rev demo_trace = Some (Inr (g, ds, cs'))"
    "inputs demo_extents [Allocate 400 300] (new_view g) = Some ([], v)"
    "inputs demo_extents demo_inputs (new_view g) = Some ([], v')"
    using demo_window demo_session by (auto split: option.splits sum.splits prod.splits simp del: inputs.simps)
  have p: "press_place (FloatN (Fin 200)) (FloatN (Fin 110)) (IntN 200, FloatN (Fin 109), IntN 0, FloatN (Fin 38))
      (FloatN (Fin 62), FloatN (Fin 28), FloatN (Fin 338), FloatN (Fin 43)) = Inr Left_End"
    "press_place (FloatN (Fin 150)) (FloatN (Fin 110)) (FloatN (Fin 100), FloatN (Fin 109), FloatN (Fin 50), FloatN (Fin 38))
      (FloatN (Fin 62), FloatN (Fin 28), FloatN (Fin 338), FloatN (Fin 43)) = Inr Right_End"
    "number_true (IntN 400)" "number_le (IntN 400) (FloatN (Fin 450))"
    by code_simp+
  have "inputs demo_extents [Press (FloatN (Fin 200)) (FloatN (Fin 110)), Release] v =
       Some ([AttributeError ''__moving_left_cur''], v)"
    using stale_drag[OF v(1,2,4,5), of "FloatN (Fin 200)" "FloatN (Fin 110)" demo_extents "IntN 400" "[]"] v(3) p(1) by auto
  moreover have "\<exists>es. inputs demo_extents
       [Press (FloatN (Fin 150)) (FloatN (Fin 110)), Motion (FloatN (Fin 450)) (FloatN (Fin 110)), Release] v' =
       Some (es @ [AttributeError ''__moving_right_cur''], v')"
    using stale_drag[OF v'(1,2,5,6), of "FloatN (Fin 150)" "FloatN (Fin 110)" demo_extents "IntN 400"
        "[(FloatN (Fin 450), FloatN (Fin 110))]"] v'(3,4) p(2-4) by (simp del: inputs.simps)
  ultimately show ?thesis using run by blast
qed

end
