(* ===== verification/FlowMon.thy ===== *)
theory FlowMon
  imports PyFloat XmlDoc
begin

text \<open>
  \<open>flowmon-parse-results.py\<close>: reads the XML file that the flow monitor of the simulator writes and
  prints rates, delay and loss of every flow.

  An element of the tree is a value of \<open>xml\<close> (theory \<open>XmlDoc\<close>).  A \<open>Flow\<close> object is shared by the
  list \<open>self.flows\<close> and the dictionary \<open>flow_map\<close>; the model keeps the objects in the list, and the
  dictionary maps an id to the position of its object.  A slot that has not been assigned yet is
  \<open>None\<close>.  What \<open>main\<close> prints and the exception that ends it are a pair \<open>mon_output\<close>.
\<close>

section \<open>Numbers in attributes\<close>

text \<open>
  \<open>int\<close>, \<open>long\<close> and \<open>float\<close> of Python 2 on a string: no underscores, blanks allowed behind the sign,
  and \<open>long\<close> accepts a trailing \<open>L\<close>.  The arguments come from \<open>el.get\<close>, which is \<open>None\<close> for a missing
  attribute; the text of the message stops before the quoted literal.
\<close>

definition py2_digits :: "string \<Rightarrow> int option" where
  "py2_digits s = (if s \<noteq> [] \<and> list_all is_digit s then map_option int (parse_digits False 0 s) else None)"

definition py2_int :: "string \<Rightarrow> int option" where
  "py2_int s =
     (case py_strip s of
        [] \<Rightarrow> None
      | c # cs \<Rightarrow>
          if c = CHR ''-'' then map_option uminus (py2_digits (dropWhile is_ws cs))
          else if c = CHR ''+'' then py2_digits (dropWhile is_ws cs)
          else py2_digits (c # cs))"

definition py2_long :: "string \<Rightarrow> int option" where
  "py2_long s =
     (let t = py_strip s
      in if t \<noteq> [] \<and> last t \<in> {CHR ''L'', CHR ''l''}
         then (if t \<noteq> [last t] \<and> is_digit (last (butlast t)) then py2_int (butlast t) else None)
         else py2_int t)"

definition to_int2 :: "string option \<Rightarrow> int res" where
  "to_int2 x =
     (case x of None \<Rightarrow> Inl TypeError
      | Some s \<Rightarrow> of_option (ValueError ''invalid literal for int() with base 10'') (py2_int s))"

definition to_long2 :: "string option \<Rightarrow> int res" where
  "to_long2 x =
     (case x of None \<Rightarrow> Inl TypeError
      | Some s \<Rightarrow> of_option (ValueError ''invalid literal for long() with base 10'') (py2_long s))"

definition to_float2 :: "string option \<Rightarrow> pyfloat res" where
  "to_float2 x =
     (case x of None \<Rightarrow> Inl TypeError
      | Some s \<Rightarrow> of_option (ValueError ''could not convert string to float'')
                    (if CHR ''_'' \<in> set s then None else py_float s))"

definition el_get :: "xml \<Rightarrow> string \<Rightarrow> string option" where
  "el_get e a = map_of (eattrs e) a"

text \<open>\<open>x[:-2]\<close> of an attribute.\<close>

definition cut_unit :: "string option \<Rightarrow> string option res" where
  "cut_unit x = (case x of None \<Rightarrow> Inl TypeError | Some s \<Rightarrow> Inr (Some (take (length s - 2) s)))"

definition ends_with :: "string \<Rightarrow> string \<Rightarrow> bool" where
  "ends_with s e \<longleftrightarrow> has_prefix (rev e) (rev s)"

definition parse_time_ns :: "string option \<Rightarrow> int res" where
  "parse_time_ns tm =
     (case tm of
        None \<Rightarrow> Inl (AttributeError ''endswith'')
      | Some s \<Rightarrow> if ends_with s ''ns'' then to_long2 (Some (take (length s - 2) s)) else Inl (ValueError s))"

section \<open>Objects\<close>

datatype mixed_num = WholeN int | FractionN pyfloat

record five_tuple =
  sourceAddress :: "string option"
  destinationAddress :: "string option"
  protocol :: int
  sourcePort :: int
  destinationPort :: int

definition read_five_tuple :: "xml \<Rightarrow> five_tuple res" where
  "read_five_tuple el =
     bindE (to_int2 (el_get el ''sourcePort'')) (\<lambda>sp.
     bindE (to_int2 (el_get el ''destinationPort'')) (\<lambda>dp.
     bindE (to_int2 (el_get el ''protocol'')) (\<lambda>p.
       Inr \<lparr>sourceAddress = el_get el ''sourceAddress'', destinationAddress = el_get el ''destinationAddress'',
            protocol = p, sourcePort = sp, destinationPort = dp\<rparr>)))"

type_synonym histogram = "(pyfloat \<times> pyfloat \<times> int) list"

definition read_bin :: "xml \<Rightarrow> (pyfloat \<times> pyfloat \<times> int) res" where
  "read_bin b =
     bindE (to_float2 (el_get b ''start'')) (\<lambda>s.
     bindE (to_float2 (el_get b ''width'')) (\<lambda>w.
     bindE (to_int2 (el_get b ''count'')) (\<lambda>c. Inr (s, w, c))))"

definition read_histogram :: "xml \<Rightarrow> histogram res" where
  "read_histogram el = mapE read_bin (find_all ''bin'' el)"

record probe_stats =
  probeId :: int
  probePackets :: int
  probeBytes :: int
  delayFromFirstProbe :: mixed_num

record mon_flow =
  flowId :: int
  delayMean :: "pyfloat option"
  packetLossRatio :: "pyfloat option"
  rxBitrate :: "pyfloat option"
  txBitrate :: "pyfloat option"
  fiveTuple :: "five_tuple option"
  packetSizeMean :: "pyfloat option"
  probe_stats_unsorted :: "probe_stats list"
  hopCount :: mixed_num
  flowInterruptionsHistogram :: "histogram option"
  rx_duration :: pyfloat

definition nano_unit :: pyfloat where
  "nano_unit = fround (1 / 1000000000)"

definition milli :: pyfloat where
  "milli = fround (1 / 1000)"

text \<open>\<open>float(long(last[:-2]) - long(first[:-2])) * 1e-9\<close>\<close>

definition duration_of :: "string option \<Rightarrow> string option \<Rightarrow> pyfloat res" where
  "duration_of lst fst' =
     bindE (bindE (cut_unit lst) to_long2) (\<lambda>l.
     bindE (bindE (cut_unit fst') to_long2) (\<lambda>f.
     bindE (float_of_int (l - f)) (\<lambda>d. Inr (fmul d nano_unit))))"

definition div_int :: "pyfloat \<Rightarrow> int \<Rightarrow> pyfloat res" where
  "div_int x n = bindE (float_of_int n) (fdiv x)"

definition bitrate :: "string option \<Rightarrow> pyfloat \<Rightarrow> pyfloat option res" where
  "bitrate bytes d =
     (if flt (Fin 0) d
      then bindE (to_long2 bytes) (\<lambda>b. bindE (float_of_int (b * 8)) (\<lambda>x. bindE (fdiv x d) (\<lambda>r. Inr (Some r))))
      else Inr None)"

definition hop_count :: "xml \<Rightarrow> int \<Rightarrow> mixed_num res" where
  "hop_count el rx =
     (if rx \<noteq> 0
      then bindE (to_float2 (el_get el ''timesForwarded'')) (\<lambda>t. bindE (div_int t rx) (\<lambda>q. Inr (FractionN (fadd q (Fin 1)))))
      else Inr (WholeN (- 1000)))"

definition means :: "xml \<Rightarrow> int \<Rightarrow> (pyfloat option \<times> pyfloat option) res" where
  "means el rx =
     (if rx \<noteq> 0
      then bindE (bindE (cut_unit (el_get el ''delaySum'')) to_float2) (\<lambda>d.
           bindE (div_int d rx) (\<lambda>q.
           bindE (to_float2 (el_get el ''rxBytes'')) (\<lambda>b.
           bindE (div_int b rx) (\<lambda>s. Inr (Some (fmul q nano_unit), Some s)))))
      else Inr (None, None))"

definition loss_ratio :: "pyfloat \<Rightarrow> int \<Rightarrow> pyfloat option res" where
  "loss_ratio lost rx =
     (if rx = 0 then Inr None
      else bindE (float_of_int rx) (\<lambda>r. bindE (fdiv lost (fadd r lost)) (\<lambda>q. Inr (Some q))))"

definition read_flow :: "xml \<Rightarrow> mon_flow res" where
  "read_flow el =
     bindE (to_int2 (el_get el ''flowId'')) (\<lambda>i.
     bindE (to_long2 (el_get el ''rxPackets'')) (\<lambda>rx.
     bindE (to_long2 (el_get el ''txPackets'')) (\<lambda>tx.
     bindE (duration_of (el_get el ''timeLastTxPacket'') (el_get el ''timeFirstTxPacket'')) (\<lambda>txd.
     bindE (duration_of (el_get el ''timeLastRxPacket'') (el_get el ''timeFirstRxPacket'')) (\<lambda>rxd.
     bindE (hop_count el rx) (\<lambda>hops.
     bindE (means el rx) (\<lambda>(delay, size).
     bindE (bitrate (el_get el ''rxBytes'') rxd) (\<lambda>rxr.
     bindE (bitrate (el_get el ''txBytes'') txd) (\<lambda>txr.
     bindE (to_float2 (el_get el ''lostPackets'')) (\<lambda>lost.
     bindE (loss_ratio lost rx) (\<lambda>loss.
     bindE (case find_first ''flowInterruptionsHistogram'' el of
              None \<Rightarrow> Inr None
            | Some h \<Rightarrow> bindE (read_histogram h) (\<lambda>b. Inr (Some b))) (\<lambda>hist.
       Inr \<lparr>flowId = i, delayMean = delay, packetLossRatio = loss, rxBitrate = rxr, txBitrate = txr,
            fiveTuple = None, packetSizeMean = size, probe_stats_unsorted = [], hopCount = hops,
            flowInterruptionsHistogram = hist, rx_duration = rxd\<rparr>))))))))))))"

section \<open>A simulation\<close>

definition the_only :: "'a list \<Rightarrow> 'a res" where
  "the_only xs =
     (case xs of
        [] \<Rightarrow> Inl (ValueError ''need more than 0 values to unpack'')
      | [x] \<Rightarrow> Inr x
      | _ \<Rightarrow> Inl (ValueError ''too many values to unpack''))"

definition flow_elems :: "xml \<Rightarrow> xml list" where
  "flow_elems e = concat (map (find_all ''Flow'') (find_all ''FlowStats'' e))"

definition probe_elems :: "xml \<Rightarrow> xml list" where
  "probe_elems e = concat (map (find_all ''FlowProbe'') (find_all ''FlowProbes'' e))"

fun read_flows :: "xml list \<Rightarrow> mon_flow list \<Rightarrow> (int \<Rightarrow> nat option) \<Rightarrow> (mon_flow list \<times> (int \<Rightarrow> nat option)) res" where
  "read_flows [] fs m = Inr (fs, m)"
| "read_flows (e # es) fs m =
     bindE (read_flow e) (\<lambda>f. read_flows es (fs @ [f]) (m(flowId f \<mapsto> length fs)))"

definition set_tuple :: "five_tuple \<Rightarrow> mon_flow \<Rightarrow> mon_flow" where
  "set_tuple t f = f\<lparr>fiveTuple := Some t\<rparr>"

definition add_probe :: "probe_stats \<Rightarrow> mon_flow \<Rightarrow> mon_flow" where
  "add_probe s f = f\<lparr>probe_stats_unsorted := probe_stats_unsorted f @ [s]\<rparr>"

text \<open>An operation on the object \<open>flow_map[i]\<close>.\<close>

definition on_flow :: "(int \<Rightarrow> nat option) \<Rightarrow> int \<Rightarrow> (mon_flow \<Rightarrow> mon_flow) \<Rightarrow> mon_flow list \<Rightarrow> mon_flow list res" where
  "on_flow m i g fs =
     (case m i of None \<Rightarrow> Inl (KeyError (show_int i)) | Some k \<Rightarrow> Inr (fs[k := g (fs ! k)]))"

definition read_class :: "xml \<Rightarrow> (int \<times> five_tuple) res" where
  "read_class c = bindE (to_int2 (el_get c ''flowId'')) (\<lambda>i. bindE (read_five_tuple c) (\<lambda>t. Inr (i, t)))"

fun classify :: "(int \<Rightarrow> nat option) \<Rightarrow> xml list \<Rightarrow> mon_flow list \<Rightarrow> mon_flow list res" where
  "classify m [] fs = Inr fs"
| "classify m (c # cs) fs =
     bindE (read_class c) (\<lambda>(i, t). bindE (on_flow m i (set_tuple t) fs) (classify m cs))"

definition read_stats :: "int \<Rightarrow> xml \<Rightarrow> (int \<times> probe_stats) res" where
  "read_stats p s =
     bindE (to_int2 (el_get s ''flowId'')) (\<lambda>i.
     bindE (to_int2 (el_get s ''packets'')) (\<lambda>n.
     bindE (to_long2 (el_get s ''bytes'')) (\<lambda>b.
     bindE (if 0 < n
            then bindE (parse_time_ns (el_get s ''delayFromFirstProbeSum'')) (\<lambda>t.
                 bindE (float_of_int n) (\<lambda>d. bindE (float_of_int t) (\<lambda>x. bindE (fdiv x d) (\<lambda>q. Inr (FractionN q)))))
            else Inr (WholeN 0)) (\<lambda>d.
       Inr (i, \<lparr>probeId = p, probePackets = n, probeBytes = b, delayFromFirstProbe = d\<rparr>)))))"

fun stats_of_probe :: "(int \<Rightarrow> nat option) \<Rightarrow> int \<Rightarrow> xml list \<Rightarrow> mon_flow list \<Rightarrow> mon_flow list res" where
  "stats_of_probe m p [] fs = Inr fs"
| "stats_of_probe m p (s # ss) fs =
     bindE (read_stats p s) (\<lambda>(i, st). bindE (on_flow m i (add_probe st) fs) (stats_of_probe m p ss))"

fun read_probes :: "(int \<Rightarrow> nat option) \<Rightarrow> xml list \<Rightarrow> mon_flow list \<Rightarrow> mon_flow list res" where
  "read_probes m [] fs = Inr fs"
| "read_probes m (p # ps) fs =
     bindE (to_int2 (el_get p ''index'')) (\<lambda>i.
     bindE (stats_of_probe m i (find_all ''FlowStats'' p) fs) (read_probes m ps))"

definition simulation :: "xml \<Rightarrow> mon_flow list res" where
  "simulation el =
     bindE (the_only (find_all ''Ipv4FlowClassifier'' el)) (\<lambda>cl.
     bindE (read_flows (flow_elems el) [] Map.empty) (\<lambda>(fs, m).
     bindE (classify m (find_all ''Flow'' cl) fs) (read_probes m (probe_elems el))))"

section \<open>The report\<close>

type_synonym mon_output = "string \<times> exn option"

definition and_then :: "mon_output \<Rightarrow> mon_output \<Rightarrow> mon_output" where
  "and_then a b = (case snd a of None \<Rightarrow> (fst a @ fst b, snd b) | Some e \<Rightarrow> a)"

definition fails :: "exn \<Rightarrow> mon_output" where
  "fails e = ([], Some e)"

definition prints :: "string \<Rightarrow> mon_output" where
  "prints s = (s, None)"

text \<open>\<open>print "\<dots>%.2f\<dots>" % (x*k,)\<close>; \<open>None * k\<close> is a \<open>TypeError\<close>.\<close>

definition value_line :: "string \<Rightarrow> pyfloat option \<Rightarrow> pyfloat \<Rightarrow> string \<Rightarrow> mon_output" where
  "value_line label x k unit =
     (case x of None \<Rightarrow> fails TypeError
      | Some v \<Rightarrow> prints (CHR 0x09 # label @ '': '' @ fmt_fixed 2 (fmul v k) @ '' '' @ unit @ nl))"

definition show_address :: "string option \<Rightarrow> string" where
  "show_address a = (case a of None \<Rightarrow> ''None'' | Some s \<Rightarrow> s)"

definition proto_name :: "int \<Rightarrow> string option" where
  "proto_name p = (if p = 6 then Some ''TCP'' else if p = 17 then Some ''UDP'' else None)"

definition title_line :: "mon_flow \<Rightarrow> mon_output" where
  "title_line f =
     (case fiveTuple f of
        None \<Rightarrow> fails (AttributeError ''fiveTuple'')
      | Some t \<Rightarrow>
          (case proto_name (protocol t) of
             None \<Rightarrow> fails (KeyError (show_int (protocol t)))
           | Some p \<Rightarrow>
               prints (''FlowID: '' @ show_int (flowId f) @ '' ('' @ p @ '' '' @ show_address (sourceAddress t) @ ''/'' @
                 show_int (sourcePort t) @ '' --> '' @ show_address (destinationAddress t) @ ''/'' @
                 show_int (destinationPort t) @ '')'' @ nl)))"

definition flow_report :: "mon_flow \<Rightarrow> mon_output" where
  "flow_report f =
     and_then (title_line f)
       (and_then (value_line ''TX bitrate'' (txBitrate f) milli ''kbit/s'')
         (and_then (value_line ''RX bitrate'' (rxBitrate f) milli ''kbit/s'')
           (and_then (value_line ''Mean Delay'' (delayMean f) (Fin 1000) ''ms'')
             (value_line ''Packet Loss Ratio'' (packetLossRatio f) (Fin 100) ''%''))))"

fun report_flows :: "mon_flow list \<Rightarrow> mon_output" where
  "report_flows [] = prints []"
| "report_flows (f # fs) = and_then (flow_report f) (report_flows fs)"

text \<open>
  \<open>iterparse\<close> gives the root element as soon as it is closed (the only one at level 0); an error
  behind it is raised afterwards.
\<close>

fun parse_events :: "string \<Rightarrow> xml_state \<Rightarrow> xml option \<times> exn option" where
  "parse_events [] p =
     (xroot p, if xmode p = Chars \<and> xstack p = [] \<and> xroot p \<noteq> None then None else Some parse_error)"
| "parse_events (c # cs) p =
     (case xml_step c p of Inl e \<Rightarrow> (xroot p, Some e) | Inr q \<Rightarrow> parse_events cs q)"

definition iterparse :: "string \<Rightarrow> xml option \<times> exn option" where
  "iterparse s =
     (case (if has_prefix ''<?xml '' s then after_declaration s else Inr s) of
        Inl e \<Rightarrow> (None, Some e)
      | Inr body \<Rightarrow> parse_events body start_state)"

definition sims_of :: "xml option \<Rightarrow> mon_flow list list res" where
  "sims_of el =
     (case el of
        None \<Rightarrow> Inr []
      | Some e \<Rightarrow> if etag e = ''FlowMonitor'' then bindE (simulation e) (\<lambda>s. Inr [s]) else Inr [])"

text \<open>
  \<open>print "\<dots> ",\<close> leaves a blank to be printed before the next item; the dots are written directly,
  which clears it.
\<close>

definition flowmon_read :: "string \<Rightarrow> mon_output" where
  "flowmon_read text =
     (case iterparse text of (el, err) \<Rightarrow>
        and_then (prints ''Reading XML file '')
          (case sims_of el of
             Inl e \<Rightarrow> fails e
           | Inr sims \<Rightarrow>
               and_then (concat (map (\<lambda>_. ''.'') sims), err)
                 (and_then (prints ((if sims = [] then '' '' else []) @ '' done.'' @ nl))
                   (report_flows (concat sims)))))"

definition flowmon_main :: "(string \<Rightarrow> string option) \<Rightarrow> string list \<Rightarrow> mon_output" where
  "flowmon_main files argv =
     (case drop 1 argv of
        [] \<Rightarrow> fails IndexError
      | name # _ \<Rightarrow> (case files name of None \<Rightarrow> fails OSError | Some text \<Rightarrow> flowmon_read text))"

end
