(* ===== verification/XmlWrite.thy ===== *)
theory XmlWrite
  imports XmlDoc
begin

text \<open>
  Documents with attributes, as a program writes them with formatted output: which tree the parser
  of \<open>XmlDoc\<close> makes of them.  \<open>written s es\<close> says that the text \<open>s\<close> holds the elements \<open>es\<close>, apart
  from character data (indentation and line breaks); the rules \<open>written_rules\<close> follow the shape of
  the text, so that the tree of a document is found by applying them.
\<close>

section \<open>Trees without character data\<close>

fun bare :: "xml \<Rightarrow> xml" where
  "bare (Elem n as t ks) = Elem n as None (map bare ks)"

lemma bare_tag [simp]: "etag (bare e) = etag e"
  by (cases e) simp

lemma bare_attrs [simp]: "eattrs (bare e) = eattrs e"
  by (cases e) simp

lemma bare_kids [simp]: "kids (bare e) = map bare (kids e)"
  by (cases e) simp

lemma bare_find_all: "find_all n (bare e) = map bare (find_all n e)"
  by (simp add: find_all_def filter_map o_def)

lemma bare_find_first: "find_first n (bare e) = map_option bare (find_first n e)"
proof -
  have "List.find (\<lambda>k. etag k = n) (map bare ks) = map_option bare (List.find (\<lambda>k. etag k = n) ks)" for ks
    by (induction ks) auto
  then show ?thesis by (simp add: find_first_def)
qed

section \<open>Attributes\<close>

definition quoted :: "string \<Rightarrow> string" where
  "quoted v = [CHR 0x22] @ v @ [CHR 0x22]"

fun attr_text :: "(string \<times> string) list \<Rightarrow> string" where
  "attr_text [] = []"
| "attr_text ((a, v) # as) = '' '' @ a @ ''='' @ quoted v @ attr_text as"

definition blank :: "string \<Rightarrow> bool" where
  "blank s \<longleftrightarrow> list_all (\<lambda>c. c = CHR '' '') s"

lemma blank_simps [simp]: "blank []" "blank (c # s) \<longleftrightarrow> c = CHR '' '' \<and> blank s" "blank (replicate n (CHR '' ''))"
  by (simp_all add: blank_def list_all_iff)

definition attrs_ok :: "(string \<times> string) list \<Rightarrow> bool" where
  "attrs_ok as \<longleftrightarrow> distinct (map fst as) \<and> list_all (\<lambda>(a, v). xml_name a \<and> plain_value v) as"

lemma attrs_ok_simps [simp]:
  "attrs_ok []"
  "attrs_ok ((a, v) # as) \<longleftrightarrow> xml_name a \<and> plain_value v \<and> a \<notin> fst ` set as \<and> attrs_ok as"
  by (auto simp: attrs_ok_def)

lemma blank_drop: "blank b \<Longrightarrow> dropWhile xml_blank (b @ s) = dropWhile xml_blank s"
  by (induction b) (auto simp: xml_blank_def)

lemma dropWhile_all: "blank b \<Longrightarrow> dropWhile xml_blank b = []"
  using blank_drop [of b "[]"] by simp

lemma name_first_not_blank: "xml_name a \<Longrightarrow> dropWhile xml_blank (a @ s) = a @ s"
  by (cases a) (auto simp: xml_name_def xml_blank_def name_start_def)

lemma name_taken_before:
  assumes "xml_name a" "\<not> name_char c"
  shows "takeWhile name_char (a @ c # s) = a" "dropWhile name_char (a @ c # s) = c # s"
  using assms by (auto simp: xml_name_def list_all_iff takeWhile_append2 dropWhile_append2)

lemma not_name_chars [simp]:
  "\<not> name_char (CHR ''='')" "\<not> name_char (CHR '' '')" "\<not> name_char (CHR 0x22)"
  "\<not> xml_blank (CHR ''='')" "\<not> xml_blank (CHR 0x22)" "xml_blank (CHR '' '')" "quote_char (CHR 0x22)"
  "\<not> quote_char (CHR '' '')" "\<not> quote_char (CHR ''='')"
  by (simp_all add: name_char_def name_start_def is_digit_def xml_blank_def quote_char_def)

lemma value_taken:
  assumes "plain_value v"
  shows "takeWhile (\<lambda>c. c \<noteq> CHR 0x22) (v @ CHR 0x22 # s) = v"
    "dropWhile (\<lambda>c. c \<noteq> CHR 0x22) (v @ CHR 0x22 # s) = CHR 0x22 # s"
  using assms by (auto simp: plain_value_def list_all_iff takeWhile_append2 dropWhile_append2)

lemma attributes_text:
  "attrs_ok as \<Longrightarrow> blank b \<Longrightarrow> blank e \<Longrightarrow> attributes (b @ attr_text as @ e) = Inr as"
proof (induction as arbitrary: b)
  case Nil
  then show ?case
    using dropWhile_all [of e] by (subst attributes.simps) (simp add: blank_drop)
next
  case (Cons p as)
  obtain a v where p: "p = (a, v)" by (cases p)
  let ?rest = "attr_text as @ e"
  let ?t = "a @ CHR ''='' # CHR 0x22 # v @ CHR 0x22 # ?rest"
  have ok: "xml_name a" "plain_value v" "a \<notin> fst ` set as" "attrs_ok as"
    using Cons.prems p by auto
  have s: "b @ attr_text (p # as) @ e = b @ CHR '' '' # ?t"
    by (simp add: p quoted_def)
  have t: "dropWhile xml_blank (b @ CHR '' '' # ?t) = ?t"
    using Cons.prems(2) name_first_not_blank [OF ok(1)] by (simp add: blank_drop)
  have longer: "b @ CHR '' '' # ?t \<noteq> ?t"
    using arg_cong [of "b @ CHR '' '' # ?t" ?t length] by auto
  have "attributes ?rest = Inr as"
    using Cons.IH [of "[]"] ok Cons.prems by simp
  then show ?case
    unfolding s
    using ok t longer
    by (subst attributes.simps)
      (simp add: Let_def name_taken_before value_taken plain_attr_value quoted_def p)
qed

lemma attr_text_run:
  "attrs_ok as \<Longrightarrow> xml_run (attr_text as) (p\<lparr>xmode := Markup m None\<rparr>) =
     Inr (p\<lparr>xmode := Markup (m @ attr_text as) None\<rparr>)"
proof (induction as arbitrary: m)
  case (Cons q as)
  obtain a v where q: "q = (a, v)" by (cases q)
  have ok: "xml_name a" "plain_value v" "attrs_ok as" using Cons.prems q by auto
  let ?s = "'' '' @ a @ ''=''"
  have "\<forall>c \<in> set ?s. c \<noteq> CHR ''<'' \<and> c \<noteq> CHR ''>'' \<and> \<not> quote_char c"
    using ok(1) name_no_delim [of a] by (auto simp: xml_name_def)
  then have r1: "xml_run ?s (p\<lparr>xmode := Markup m None\<rparr>) = Inr (p\<lparr>xmode := Markup (m @ ?s) None\<rparr>)"
    by (rule markup_run)
  have r2: "xml_run [CHR 0x22] (p\<lparr>xmode := Markup (m @ ?s) None\<rparr>) =
      Inr (p\<lparr>xmode := Markup (m @ ?s @ [CHR 0x22]) (Some (CHR 0x22))\<rparr>)"
    by (simp add: xml_step_def quote_char_def)
  have r3: "xml_run v (p\<lparr>xmode := Markup (m @ ?s @ [CHR 0x22]) (Some (CHR 0x22))\<rparr>) =
      Inr (p\<lparr>xmode := Markup (m @ ?s @ [CHR 0x22] @ v) (Some (CHR 0x22))\<rparr>)"
    using quoted_run [OF ok(2), where p = p and a = "m @ ?s @ [CHR 0x22]"] by simp
  have r4: "xml_run [CHR 0x22] (p\<lparr>xmode := Markup (m @ ?s @ [CHR 0x22] @ v) (Some (CHR 0x22))\<rparr>) =
      Inr (p\<lparr>xmode := Markup (m @ ?s @ quoted v) None\<rparr>)"
    by (simp add: xml_step_def quote_char_def quoted_def)
  have "attr_text (q # as) = ?s @ [CHR 0x22] @ v @ [CHR 0x22] @ attr_text as"
    by (simp add: q quoted_def)
  moreover have "xml_run (?s @ [CHR 0x22] @ v @ [CHR 0x22] @ attr_text as) (p\<lparr>xmode := Markup m None\<rparr>) =
      xml_run (attr_text as) (p\<lparr>xmode := Markup (m @ ?s @ quoted v) None\<rparr>)"
    by (simp only: xml_run_append [of ?s] xml_run_append [of "[CHR 0x22]"] xml_run_append [of v] r1 r2 r3 r4 bindE_simps)
  ultimately show ?case using Cons.IH [OF ok(3)] by (simp add: quoted_def)
qed simp

section \<open>Tags\<close>

definition tag_text :: "string \<Rightarrow> string \<Rightarrow> (string \<times> string) list \<Rightarrow> string \<Rightarrow> string" where
  "tag_text n b as e = n @ b @ attr_text as @ e"

lemma blank_last: "blank (c # s) \<Longrightarrow> last (c # s) = CHR '' ''"
  by (induction s arbitrary: c) auto

lemma tag_last:
  assumes "xml_name n" "blank b" "blank e"
  shows "last (tag_text n b as e) \<noteq> CHR ''/''"
proof -
  have n: "n \<noteq> []" "last n \<noteq> CHR ''/''"
    using assms(1) name_no_delim [of n "last n"] by (auto simp: xml_name_def)
  have as: "as \<noteq> [] \<Longrightarrow> attr_text as \<noteq> [] \<and> last (attr_text as) = CHR 0x22"
  proof (induction as)
    case (Cons p as)
    then show ?case by (cases p, cases as) (auto simp: quoted_def)
  qed simp
  show ?thesis
  proof (cases "e = []")
    case False
    then show ?thesis using blank_last [of "hd e" "tl e"] assms(3) by (simp add: tag_text_def)
  next
    case e: True
    show ?thesis
    proof (cases "as = []")
      case False
      with as show ?thesis by (simp add: tag_text_def e)
    next
      case True
      then show ?thesis using n e blank_last [of "hd b" "tl b"] assms(2) by (cases b) (simp_all add: tag_text_def)
    qed
  qed
qed

lemma tag_split:
  assumes "xml_name n" "attrs_ok as" "blank b" "blank e"
  shows "split_tag (tag_text n b as e) = Inr (n, as)"
proof -
  let ?r = "b @ attr_text as @ e"
  have name: "list_all name_char n" using assms(1) by (simp add: xml_name_def)
  have "takeWhile name_char (n @ ?r) = n \<and> dropWhile name_char (n @ ?r) = ?r"
  proof (cases ?r)
    case Nil
    then show ?thesis using name_taken [OF name] by simp
  next
    case (Cons c r)
    then have "c = CHR '' ''"
      using assms(3,4) by (cases b; cases as; cases e) auto
    then show ?thesis using Cons name_taken_before [OF assms(1), of c r] by simp
  qed
  then show ?thesis
    using assms attributes_text [OF assms(2-4)] by (simp add: split_tag_def tag_text_def Let_def)
qed

lemma tag_run:
  assumes "xml_name n" "attrs_ok as" "blank b" "blank e"
  shows "xml_run (tag_text n b as e) (p\<lparr>xmode := Markup [] None\<rparr>) =
           Inr (p\<lparr>xmode := Markup (tag_text n b as e) None\<rparr>)"
proof -
  have bl: "\<forall>c \<in> set s. c \<noteq> CHR ''<'' \<and> c \<noteq> CHR ''>'' \<and> \<not> quote_char c" if "blank s" for s
    using that by (induction s) auto
  have nm: "\<forall>c \<in> set n. c \<noteq> CHR ''<'' \<and> c \<noteq> CHR ''>'' \<and> \<not> quote_char c"
    using assms(1) name_no_delim [of n] by (auto simp: xml_name_def)
  have n: "xml_run n (p\<lparr>xmode := Markup [] None\<rparr>) = Inr (p\<lparr>xmode := Markup n None\<rparr>)"
    using markup_run [OF nm, where p = p and a = "[]"] by simp
  have b: "xml_run b (p\<lparr>xmode := Markup n None\<rparr>) = Inr (p\<lparr>xmode := Markup (n @ b) None\<rparr>)"
    by (rule markup_run [OF bl [OF assms(3)]])
  have a: "xml_run (attr_text as) (p\<lparr>xmode := Markup (n @ b) None\<rparr>) =
      Inr (p\<lparr>xmode := Markup ((n @ b) @ attr_text as) None\<rparr>)"
    by (rule attr_text_run [OF assms(2)])
  have e: "xml_run e (p\<lparr>xmode := Markup ((n @ b) @ attr_text as) None\<rparr>) =
      Inr (p\<lparr>xmode := Markup (((n @ b) @ attr_text as) @ e) None\<rparr>)"
    by (rule markup_run [OF bl [OF assms(4)]])
  have "xml_run (n @ (b @ (attr_text as @ e))) (p\<lparr>xmode := Markup [] None\<rparr>) =
      Inr (p\<lparr>xmode := Markup (((n @ b) @ attr_text as) @ e) None\<rparr>)"
    by (simp only: xml_run_append [of n] xml_run_append [of b] xml_run_append [of "attr_text as"] n b a e bindE_simps)
  then show ?thesis by (simp add: tag_text_def)
qed

lemma content_mode: "(content f rest r)\<lparr>xmode := Chars\<rparr> = content f rest r"
  by (simp add: content_def)

lemma tag_first: "xml_name n \<Longrightarrow> \<exists>c t. tag_text n b as e = c # t \<and> c \<noteq> CHR ''/''"
  using name_no_delim [of n "hd n"] by (cases n) (auto simp: xml_name_def tag_text_def)

lemma open_attrs_run:
  assumes "xml_name n" "attrs_ok as" "blank b" "blank e"
  shows "xml_run (''<'' @ tag_text n b as e @ ''>'') (content f rest r) =
           Inr (content \<lparr>ftag = n, fattrs = as, ftext = [], fkids = []\<rparr> (f # rest) r)"
proof -
  let ?p = "content f rest r" and ?t = "tag_text n b as e"
  have m: "markup ?t ?p = open_tag n as ?p"
  proof -
    obtain c t where "?t = c # t" "c \<noteq> CHR ''/''" using tag_first [OF assms(1)] by blast
    with tag_split [OF assms] tag_last [OF assms(1,3,4), of as] show ?thesis by (simp add: markup_def)
  qed
  have s1: "xml_run ''<'' ?p = Inr (?p\<lparr>xmode := Markup [] None\<rparr>)"
    by (simp add: xml_step_def content_def)
  have s3: "xml_run ''>'' (?p\<lparr>xmode := Markup ?t None\<rparr>) = open_tag n as ?p"
    by (cases "open_tag n as ?p") (simp_all add: xml_step_def content_mode m)
  show ?thesis
    by (simp only: xml_run_append [of "''<''"] xml_run_append [of ?t] s1 tag_run [OF assms] s3 bindE_simps)
      (simp add: open_tag_def content_def)
qed

lemma empty_attrs_run:
  assumes "xml_name n" "attrs_ok as" "blank b" "blank e"
  shows "xml_run (''<'' @ tag_text n b as e @ ''/>'') (content f rest r) =
           Inr (content (f\<lparr>fkids := fkids f @ [Elem n as None []]\<rparr>) rest r)"
proof -
  let ?p = "content f rest r" and ?t = "tag_text n b as e"
  have ne: "?t \<noteq> []" "hd ?t \<noteq> CHR ''/''" using tag_first [OF assms(1), of b as e] by auto
  have m: "markup (?t @ ''/'') ?p = add_elem (Elem n as None []) ?p"
    using markup_empty [OF ne] tag_split [OF assms] by simp
  have s1: "xml_run ''<'' ?p = Inr (?p\<lparr>xmode := Markup [] None\<rparr>)"
    by (simp add: xml_step_def content_def)
  have s2: "xml_run ''/'' (?p\<lparr>xmode := Markup ?t None\<rparr>) = Inr (?p\<lparr>xmode := Markup (?t @ ''/'') None\<rparr>)"
    by (simp add: xml_step_def quote_char_def)
  have s3: "xml_run ''>'' (?p\<lparr>xmode := Markup (?t @ ''/'') None\<rparr>) = add_elem (Elem n as None []) ?p"
    by (cases "add_elem (Elem n as None []) ?p") (simp_all add: xml_step_def content_mode m)
  have "''<'' @ ?t @ ''/>'' = ''<'' @ ?t @ ''/'' @ ''>''" by simp
  then show ?thesis
    by (simp only: xml_run_append [of "''<''"] xml_run_append [of ?t] xml_run_append [of "''/''"]
        s1 s2 tag_run [OF assms] s3 bindE_simps)
      (simp add: add_elem_def content_def)
qed

section \<open>What a text holds\<close>

named_theorems written_rules "the elements that a text holds"

definition written :: "string \<Rightarrow> xml list \<Rightarrow> bool" where
  "written s es \<longleftrightarrow> (\<exists>es'. xml_fragment s = Inr es' \<and> map bare es' = es)"

lemma written_append [written_rules]:
  "written s es \<Longrightarrow> written t fs \<Longrightarrow> written (s @ t) (es @ fs)"
  using fragment_append by (fastforce simp: written_def)

lemma written_Nil [written_rules]: "written [] []"
  by (simp add: written_def fragment_Nil)

lemma written_concat:
  "(\<And>x. x \<in> set xs \<Longrightarrow> written (f x) (g x)) \<Longrightarrow> written (concat (map f xs)) (concat (map g xs))"
  by (induction xs) (auto intro: written_append written_Nil)

lemma written_plain: "plain s \<Longrightarrow> written s []"
  by (simp add: written_def plain_fragment)

lemma written_skip: "plain s \<Longrightarrow> written t es \<Longrightarrow> written (s @ t) es"
  using written_append [OF written_plain] by fastforce

lemma written_line: "written t es \<Longrightarrow> written (t @ nl) es"
  using written_append [of t es nl "[]"] by (simp add: written_plain)

lemma blank_plain: "blank b \<Longrightarrow> plain b"
  by (induction b) (auto simp: plain_def xml_char_def xml_blank_def)

lemma written_empty:
  assumes "xml_name n" "attrs_ok as" "blank b" "blank e"
  shows "written (''<'' @ tag_text n b as e @ ''/>'') [Elem n as None []]"
proof -
  have "xml_fragment (''<'' @ tag_text n b as e @ ''/>'') = Inr [Elem n as None []]"
    using empty_attrs_run [OF assms] by (subst fragmentI) (auto simp: inside_content)
  then show ?thesis by (simp add: written_def)
qed

lemma written_element:
  assumes n: "xml_name n" "attrs_ok as" "blank b" "blank e" and s: "written s es"
  shows "written (''<'' @ tag_text n b as e @ ''>'' @ s @ ''</'' @ n @ ''>'') [Elem n as None es]"
proof -
  obtain es' where es': "xml_fragment s = Inr es'" "map bare es' = es" using s by (auto simp: written_def)
  obtain t where run: "\<And>f rest r. xml_run s (content f rest r) =
      Inr (content (merge f \<lparr>ftag = [], fattrs = [], ftext = t, fkids = es'\<rparr>) rest r)"
    using fragment_run [OF es'(1)] by blast
  let ?e = "Elem n as (text_of t) es'"
  have "xml_run ((''<'' @ tag_text n b as e @ ''>'') @ s @ (''</'' @ n @ ''>'')) inside_element =
      Inr (content \<lparr>ftag = [], fattrs = [], ftext = [], fkids = [?e]\<rparr> [] None)"
    by (simp only: xml_run_append [of "''<'' @ tag_text n b as e @ ''>''"] xml_run_append [of s] inside_content
        open_attrs_run [OF n] run close_run [OF n(1)] bindE_simps)
      (simp add: merge_def frame_elem_def text_of_def)
  then have "xml_fragment (''<'' @ tag_text n b as e @ ''>'' @ s @ ''</'' @ n @ ''>'') = Inr [?e]"
    using fragmentI by fastforce
  then show ?thesis using es' by (simp add: written_def)
qed

end
