(* ===== verification/FlowReport.thy ===== *)
theory FlowReport
  imports FlowMon XmlWrite
begin

text \<open>
  What \<open>flowmon-parse-results.py\<close> computes: the objects of a simulation without the dictionary of
  shared objects (\<open>join_flows\<close>), and the documents for which the report is complete.
\<close>

section \<open>Operations on shared objects\<close>

definition map_ok :: "mon_flow list \<Rightarrow> (int \<Rightarrow> nat option) \<Rightarrow> bool" where
  "map_ok fs m \<longleftrightarrow>
     (\<forall>i k. m i = Some k \<longleftrightarrow> k < length fs \<and> flowId (fs ! k) = i \<and> (\<forall>j < length fs. k < j \<longrightarrow> flowId (fs ! j) \<noteq> i))"

definition owner :: "mon_flow list \<Rightarrow> nat \<Rightarrow> bool" where
  "owner fs k \<longleftrightarrow> (\<forall>j < length fs. k < j \<longrightarrow> flowId (fs ! j) \<noteq> flowId (fs ! k))"

fun apply_all :: "(int \<Rightarrow> nat option) \<Rightarrow> (int \<times> (mon_flow \<Rightarrow> mon_flow)) list \<Rightarrow> mon_flow list \<Rightarrow> mon_flow list res" where
  "apply_all m [] fs = Inr fs"
| "apply_all m ((i, g) # es) fs = bindE (on_flow m i g fs) (apply_all m es)"

definition changes :: "(int \<times> 'a) list \<Rightarrow> int \<Rightarrow> 'a list" where
  "changes es i = map snd (filter (\<lambda>e. fst e = i) es)"

lemma changes_simps [simp]:
  "changes [] i = []" "changes (e # es) i = (if fst e = i then [snd e] else []) @ changes es i"
  by (simp_all add: changes_def)

lemma map_ok_empty: "map_ok [] Map.empty"
  by (simp add: map_ok_def)

lemma map_ok_snoc: "map_ok fs m \<Longrightarrow> map_ok (fs @ [f]) (m(flowId f \<mapsto> length fs))"
  by (auto simp: map_ok_def nth_append less_Suc_eq)

lemma map_ok_ids: "map_ok fs m \<Longrightarrow> map flowId gs = map flowId fs \<Longrightarrow> map_ok gs m"
proof -
  assume m: "map_ok fs m" and ids: "map flowId gs = map flowId fs"
  then have l: "length gs = length fs" by (metis length_map)
  moreover have "k < length fs \<Longrightarrow> flowId (gs ! k) = flowId (fs ! k)" for k
    using ids l by (metis nth_map)
  ultimately show ?thesis using m by (auto simp: map_ok_def)
qed

lemma map_ok_owner: "map_ok fs m \<Longrightarrow> k < length fs \<Longrightarrow> m (flowId (fs ! k)) = Some k \<longleftrightarrow> owner fs k"
  by (auto simp: map_ok_def owner_def)

lemma map_ok_dom: "map_ok fs m \<Longrightarrow> m i \<noteq> None \<longleftrightarrow> i \<in> flowId ` set fs"
proof
  assume m: "map_ok fs m" and i: "i \<in> flowId ` set fs"
  let ?K = "{k. k < length fs \<and> flowId (fs ! k) = i}"
  have fin: "finite ?K" by simp
  have ne: "?K \<noteq> {}" using i by (auto simp: in_set_conv_nth)
  have "m i = Some (Max ?K)"
  proof -
    have "Max ?K < length fs" "flowId (fs ! Max ?K) = i" using Max_in [OF fin ne] by auto
    moreover have "flowId (fs ! j) \<noteq> i" if "j < length fs" "Max ?K < j" for j
    proof
      assume "flowId (fs ! j) = i"
      with that have "j \<in> ?K" by simp
      from Max_ge [OF fin this] that(2) show False by linarith
    qed
    moreover have "m i = Some (Max ?K) \<longleftrightarrow> Max ?K < length fs \<and> flowId (fs ! Max ?K) = i \<and>
        (\<forall>j < length fs. Max ?K < j \<longrightarrow> flowId (fs ! j) \<noteq> i)"
      using m unfolding map_ok_def by blast
    ultimately show ?thesis by blast
  qed
  then show "m i \<noteq> None" by simp
qed (auto simp: map_ok_def)

lemma on_flow_iff:
  "on_flow m i g fs = Inr gs \<longleftrightarrow> (\<exists>k. m i = Some k \<and> gs = fs[k := g (fs ! k)])"
  by (auto simp: on_flow_def split: option.splits)

lemma apply_all_iff:
  assumes "map_ok fs m" and "\<forall>e \<in> set es. \<forall>f. flowId (snd e f) = flowId f"
  shows "apply_all m es fs = Inr gs \<longleftrightarrow>
    (\<forall>e \<in> set es. fst e \<in> flowId ` set fs) \<and>
    gs = map (\<lambda>k. if owner fs k then fold (\<lambda>g. g) (changes es (flowId (fs ! k))) (fs ! k) else fs ! k) [0..<length fs]"
  using assms
proof (induction es arbitrary: fs)
  case Nil
  have "(if c then fold (\<lambda>g. g) (changes [] i) x else x) = x" for c i and x :: mon_flow by simp
  show ?case by (auto simp: map_nth \<open>\<And>x i c. (if c then fold (\<lambda>g. g) (changes [] i) x else x) = x\<close>)
next
  case (Cons e es)
  obtain i g where e: "e = (i, g)" by (cases e)
  show ?case
  proof (cases "m i")
    case None
    then have "i \<notin> flowId ` set fs" using map_ok_dom [OF Cons.prems(1)] by blast
    then show ?thesis using None by (simp add: e on_flow_def)
  next
    case (Some k)
    then have k: "k < length fs" "flowId (fs ! k) = i" "owner fs k"
      using Cons.prems(1) by (auto simp: map_ok_def owner_def)
    let ?fs = "fs[k := g (fs ! k)]"
    have g: "flowId (g (fs ! k)) = flowId (fs ! k)" using Cons.prems(2) by (simp add: e)
    have ids: "map flowId ?fs = map flowId fs"
      using Cons.prems(2) k by (simp add: e map_update list_update_same_conv)
    have nth: "flowId (?fs ! j) = flowId (fs ! j)" if "j < length fs" for j
      using arg_cong [OF ids, of "\<lambda>xs. xs ! j"] that by simp
    have same: "owner ?fs j \<longleftrightarrow> owner fs j" if "j < length fs" for j
      using nth that by (auto simp: owner_def)
    have set_ids: "flowId ` set ?fs = flowId ` set fs"
      using arg_cong [OF ids, of set] by (simp only: set_map)
    have i: "i \<in> flowId ` set fs" using k by auto
    have other: "flowId (fs ! j) \<noteq> i" if "j < length fs" "owner fs j" "j \<noteq> k" for j
      using that k by (metis linorder_neqE_nat owner_def)
    have "apply_all m (e # es) fs = Inr gs \<longleftrightarrow> apply_all m es ?fs = Inr gs"
      by (simp add: e on_flow_def Some)
    also have "\<dots> \<longleftrightarrow> (\<forall>e \<in> set es. fst e \<in> flowId ` set fs) \<and>
      gs = map (\<lambda>j. if owner ?fs j then fold (\<lambda>g. g) (changes es (flowId (?fs ! j))) (?fs ! j) else ?fs ! j) [0..<length fs]"
      using Cons.IH [OF map_ok_ids [OF Cons.prems(1) ids]] Cons.prems(2) set_ids by simp
    also have "map (\<lambda>j. if owner ?fs j then fold (\<lambda>g. g) (changes es (flowId (?fs ! j))) (?fs ! j) else ?fs ! j) [0..<length fs] =
      map (\<lambda>j. if owner fs j then fold (\<lambda>g. g) (changes (e # es) (flowId (fs ! j))) (fs ! j) else fs ! j) [0..<length fs]"
    proof (rule map_cong [OF refl])
      fix j assume "j \<in> set [0..<length fs]"
      then have j: "j < length fs" by simp
      show "(if owner ?fs j then fold (\<lambda>g. g) (changes es (flowId (?fs ! j))) (?fs ! j) else ?fs ! j) =
        (if owner fs j then fold (\<lambda>g. g) (changes (e # es) (flowId (fs ! j))) (fs ! j) else fs ! j)"
        using j k g nth same other [OF j] by (cases "j = k") (auto simp: e)
    qed
    finally show ?thesis using i by (simp add: e)
  qed
qed

section \<open>The simulation without shared objects\<close>

lemma read_flows_iff:
  "map_ok fs m \<Longrightarrow> read_flows es fs m = Inr (gs, m') \<Longrightarrow>
     (\<exists>bs. mapE read_flow es = Inr bs \<and> gs = fs @ bs) \<and> map_ok gs m'"
proof (induction es arbitrary: fs m)
  case (Cons e es)
  from Cons.prems(2) obtain f where f: "read_flow e = Inr f" "read_flows es (fs @ [f]) (m(flowId f \<mapsto> length fs)) = Inr (gs, m')"
    by (auto simp: bindE_Inr_iff)
  from Cons.IH [OF map_ok_snoc [OF Cons.prems(1)] f(2)] f(1) show ?case
    by (auto simp: bindE_Inr_iff)
qed auto

lemma read_flows_some: "mapE read_flow es = Inr bs \<Longrightarrow> \<exists>m'. read_flows es fs m = Inr (fs @ bs, m')"
proof (induction es arbitrary: fs m bs)
  case (Cons e es)
  from Cons.prems obtain f bs' where f: "read_flow e = Inr f" "mapE read_flow es = Inr bs'" "bs = f # bs'"
    by (auto simp: bindE_Inr_iff)
  from Cons.IH [OF f(2), of "fs @ [f]"] f show ?case by simp
qed auto

lemma classify_iff: "classify m cs fs = Inr gs \<longleftrightarrow>
    (\<exists>ts. mapE read_class cs = Inr ts \<and> apply_all m (map (\<lambda>(i, t). (i, set_tuple t)) ts) fs = Inr gs)"
proof (induction cs arbitrary: fs)
  case (Cons c cs)
  show ?case by (cases "read_class c") (auto simp: bindE_Inr_iff Cons.IH split: prod.splits)
qed simp

lemma stats_of_probe_iff: "stats_of_probe m p xs fs = Inr gs \<longleftrightarrow>
    (\<exists>ss. mapE (read_stats p) xs = Inr ss \<and> apply_all m (map (\<lambda>(i, s). (i, add_probe s)) ss) fs = Inr gs)"
proof (induction xs arbitrary: fs)
  case (Cons x xs)
  show ?case by (cases "read_stats p x") (auto simp: bindE_Inr_iff Cons.IH split: prod.splits)
qed simp

definition probe_samples :: "xml \<Rightarrow> (int \<times> probe_stats) list res" where
  "probe_samples p = bindE (to_int2 (el_get p ''index'')) (\<lambda>i. mapE (read_stats i) (find_all ''FlowStats'' p))"

lemma apply_all_append: "apply_all m (xs @ ys) fs = bindE (apply_all m xs fs) (apply_all m ys)"
proof (induction xs arbitrary: fs)
  case (Cons x xs)
  obtain i g where x: "x = (i, g)" by (cases x)
  show ?case by (cases "on_flow m i g fs") (simp_all add: x Cons.IH)
qed simp

lemma read_probes_Cons: "read_probes m (p # ps) fs = Inr gs \<longleftrightarrow>
    (\<exists>ss hs. probe_samples p = Inr ss \<and> apply_all m (map (\<lambda>(i, s). (i, add_probe s)) ss) fs = Inr hs \<and>
       read_probes m ps hs = Inr gs)"
  unfolding probe_samples_def read_probes.simps bindE_Inr_iff stats_of_probe_iff by blast

lemma read_probes_iff: "read_probes m ps fs = Inr gs \<longleftrightarrow>
    (\<exists>ss. mapE probe_samples ps = Inr ss \<and> apply_all m (map (\<lambda>(i, s). (i, add_probe s)) (concat ss)) fs = Inr gs)"
proof (induction ps arbitrary: fs)
  case (Cons p ps)
  let ?a = "\<lambda>ss. map (\<lambda>(i, s). (i, add_probe s)) ss"
  have "(\<exists>ss. mapE probe_samples (p # ps) = Inr ss \<and> apply_all m (?a (concat ss)) fs = Inr gs) \<longleftrightarrow>
      (\<exists>s ss. probe_samples p = Inr s \<and> mapE probe_samples ps = Inr ss \<and> apply_all m (?a s @ ?a (concat ss)) fs = Inr gs)"
    by (auto simp: bindE_Inr_iff)
  then show ?case unfolding read_probes_Cons Cons.IH apply_all_append bindE_Inr_iff by blast
qed simp

text \<open>
  \<open>join_flows bs ts ss\<close>: the flows \<open>bs\<close> with the last tuple of their id in \<open>ts\<close> and all samples of
  their id in \<open>ss\<close>, in order.  Of flows with the same id only the last one gets them.
\<close>

definition join_flows :: "mon_flow list \<Rightarrow> (int \<times> five_tuple) list \<Rightarrow> (int \<times> probe_stats) list \<Rightarrow> mon_flow list" where
  "join_flows bs ts ss =
     map (\<lambda>k. let b = bs ! k
              in if owner bs k
                 then b\<lparr>fiveTuple := map_of (rev ts) (flowId b), probe_stats_unsorted := changes ss (flowId b)\<rparr>
                 else b) [0..<length bs]"

lemma fold_tuples: "fold (\<lambda>g. g) (changes (map (\<lambda>(i, t). (i, set_tuple t)) ts) i) f =
    (case map_of (rev ts) i of None \<Rightarrow> f | Some t \<Rightarrow> f\<lparr>fiveTuple := Some t\<rparr>)"
  unfolding set_tuple_def
proof (induction ts arbitrary: f)
  case (Cons p ts)
  obtain j t where p: "p = (j, t)" by (cases p)
  show ?case by (cases "j = i") (auto simp: p Cons.IH map_add_def split: option.splits)
qed simp

lemma fold_probes: "fold (\<lambda>g. g) (changes (map (\<lambda>(i, s). (i, add_probe s)) ss) i) f =
    f\<lparr>probe_stats_unsorted := probe_stats_unsorted f @ changes ss i\<rparr>"
  unfolding add_probe_def
proof (induction ss arbitrary: f)
  case (Cons p ss)
  obtain j t where p: "p = (j, t)" by (cases p)
  show ?case by (cases "j = i") (auto simp: p Cons.IH)
qed simp

lemma read_flow_fresh: "read_flow e = Inr f \<Longrightarrow> fiveTuple f = None \<and> probe_stats_unsorted f = []"
  by (auto simp: read_flow_def bindE_Inr_iff split: prod.splits)

lemma mapE_set: "mapE f xs = Inr ys \<Longrightarrow> y \<in> set ys \<Longrightarrow> \<exists>x \<in> set xs. f x = Inr y"
  by (induction xs arbitrary: ys) (auto simp: bindE_Inr_iff)

lemma the_only_iff: "the_only xs = Inr x \<longleftrightarrow> xs = [x]"
  by (auto simp: the_only_def split: list.splits)

definition tupled :: "mon_flow list \<Rightarrow> (int \<times> five_tuple) list \<Rightarrow> nat \<Rightarrow> mon_flow" where
  "tupled bs ts k =
     (if owner bs k
      then (case map_of (rev ts) (flowId (bs ! k)) of None \<Rightarrow> bs ! k | Some t \<Rightarrow> (bs ! k)\<lparr>fiveTuple := Some t\<rparr>)
      else bs ! k)"

lemma tupled_id [simp]: "flowId (tupled bs ts k) = flowId (bs ! k)"
  by (auto simp: tupled_def split: option.splits)

lemma apply_tuples:
  assumes "map_ok bs m"
  shows "apply_all m (map (\<lambda>(i, t). (i, set_tuple t)) ts) bs = Inr hs \<longleftrightarrow>
    fst ` set ts \<subseteq> flowId ` set bs \<and> hs = map (tupled bs ts) [0..<length bs]"
proof -
  have "\<forall>e \<in> set (map (\<lambda>(i, t). (i, set_tuple t)) ts). \<forall>f. flowId (snd e f) = flowId f"
    by (auto simp: set_tuple_def)
  from apply_all_iff [OF assms this, of hs] show ?thesis
    by (simp only: fold_tuples tupled_def [abs_def]) force
qed

lemma apply_probes:
  assumes "map_ok bs m"
  shows "apply_all m (map (\<lambda>(i, s). (i, add_probe s)) ss) bs = Inr hs \<longleftrightarrow>
    fst ` set ss \<subseteq> flowId ` set bs \<and>
    hs = map (\<lambda>k. if owner bs k
                  then (bs ! k)\<lparr>probe_stats_unsorted := probe_stats_unsorted (bs ! k) @ changes ss (flowId (bs ! k))\<rparr>
                  else bs ! k) [0..<length bs]"
proof -
  have "\<forall>e \<in> set (map (\<lambda>(i, s). (i, add_probe s)) ss). \<forall>f. flowId (snd e f) = flowId f"
    by (auto simp: add_probe_def)
  from apply_all_iff [OF assms this, of hs] show ?thesis
    by (simp only: fold_probes) force
qed

lemma apply_both:
  assumes m: "map_ok bs m" and fresh: "\<forall>b \<in> set bs. fiveTuple b = None \<and> probe_stats_unsorted b = []"
  shows "(\<exists>hs. apply_all m (map (\<lambda>(i, t). (i, set_tuple t)) ts) bs = Inr hs \<and>
           apply_all m (map (\<lambda>(i, s). (i, add_probe s)) ss) hs = Inr fs) \<longleftrightarrow>
         fst ` set ts \<union> fst ` set ss \<subseteq> flowId ` set bs \<and> fs = join_flows bs ts ss"
proof -
  let ?hs = "map (tupled bs ts) [0..<length bs]"
  have ids: "map flowId ?hs = map flowId bs"
    by (rule nth_equalityI) auto
  have set_ids: "flowId ` set ?hs = flowId ` set bs"
    using arg_cong [OF ids, of set] by (simp only: set_map)
  have own: "owner ?hs k \<longleftrightarrow> owner bs k" if "k < length bs" for k
    using that by (simp add: owner_def)
  have "map (\<lambda>k. if owner ?hs k
                 then (?hs ! k)\<lparr>probe_stats_unsorted := probe_stats_unsorted (?hs ! k) @ changes ss (flowId (?hs ! k))\<rparr>
                 else ?hs ! k) [0..<length bs] = join_flows bs ts ss"
    unfolding join_flows_def
  proof (rule map_cong [OF refl])
    fix k assume "k \<in> set [0..<length bs]"
    then have k: "k < length bs" by simp
    have "fiveTuple (bs ! k) = None" "probe_stats_unsorted (bs ! k) = []" using fresh k by auto
    with k own [OF k] show "(if owner ?hs k
                 then (?hs ! k)\<lparr>probe_stats_unsorted := probe_stats_unsorted (?hs ! k) @ changes ss (flowId (?hs ! k))\<rparr>
                 else ?hs ! k) =
        (let b = bs ! k in if owner bs k
           then b\<lparr>fiveTuple := map_of (rev ts) (flowId b), probe_stats_unsorted := changes ss (flowId b)\<rparr> else b)"
      by (auto simp: tupled_def Let_def split: option.splits)
  qed
  then have "apply_all m (map (\<lambda>(i, s). (i, add_probe s)) ss) ?hs = Inr fs \<longleftrightarrow>
      fst ` set ss \<subseteq> flowId ` set bs \<and> fs = join_flows bs ts ss"
    using apply_probes [OF map_ok_ids [OF m ids], of ss fs] set_ids by simp
  then show ?thesis unfolding apply_tuples [OF m] by auto
qed

text \<open>
  C33. The loops over the shared objects compute the join: \<open>Simulation\<close> succeeds exactly if there is one
  classifier, every element can be read and every id of the classifier and of the probes belongs to a
  flow; then the flows stand in the order of the document, each with the last tuple and all samples of its
  id.  Of several flows with one id only the last one is classified.
\<close>

theorem simulation_joins:
  "simulation el = Inr fs \<longleftrightarrow>
    (\<exists>c bs ts ss. find_all ''Ipv4FlowClassifier'' el = [c] \<and> mapE read_flow (flow_elems el) = Inr bs \<and>
       mapE read_class (find_all ''Flow'' c) = Inr ts \<and> mapE probe_samples (probe_elems el) = Inr ss \<and>
       fst ` set ts \<union> fst ` set (concat ss) \<subseteq> flowId ` set bs \<and> fs = join_flows bs ts (concat ss))"
    (is "_ \<longleftrightarrow> ?join")
proof -
  have both: "(\<exists>hs. classify m (find_all ''Flow'' c) bs = Inr hs \<and> read_probes m (probe_elems el) hs = Inr fs) \<longleftrightarrow>
      (\<exists>ts ss. mapE read_class (find_all ''Flow'' c) = Inr ts \<and> mapE probe_samples (probe_elems el) = Inr ss \<and>
         fst ` set ts \<union> fst ` set (concat ss) \<subseteq> flowId ` set bs \<and> fs = join_flows bs ts (concat ss))"
    if "map_ok bs m" "mapE read_flow (flow_elems el) = Inr bs" for bs m c
  proof -
    have "\<forall>b \<in> set bs. fiveTuple b = None \<and> probe_stats_unsorted b = []"
      using mapE_set [OF that(2)] read_flow_fresh by blast
    note both = apply_both [OF that(1) this]
    show ?thesis unfolding classify_iff read_probes_iff both [symmetric] by fast
  qed
  have flows: "(\<exists>m. read_flows (flow_elems el) [] Map.empty = Inr (bs, m)) \<longleftrightarrow> mapE read_flow (flow_elems el) = Inr bs" for bs
    using read_flows_iff [OF map_ok_empty] read_flows_some [of "flow_elems el" bs "[]"] by fastforce
  have step: "simulation el = Inr fs \<longleftrightarrow>
      (\<exists>c bs m hs. find_all ''Ipv4FlowClassifier'' el = [c] \<and> read_flows (flow_elems el) [] Map.empty = Inr (bs, m) \<and>
         classify m (find_all ''Flow'' c) bs = Inr hs \<and> read_probes m (probe_elems el) hs = Inr fs)"
    by (simp add: simulation_def bindE_Inr_iff the_only_iff)
  show ?thesis
  proof
    assume "simulation el = Inr fs"
    then obtain c bs m hs where *: "find_all ''Ipv4FlowClassifier'' el = [c]"
      "read_flows (flow_elems el) [] Map.empty = Inr (bs, m)"
      "classify m (find_all ''Flow'' c) bs = Inr hs" "read_probes m (probe_elems el) hs = Inr fs"
      unfolding step by blast
    have "map_ok bs m" "mapE read_flow (flow_elems el) = Inr bs"
      using read_flows_iff [OF map_ok_empty *(2)] by auto
    note b = both [OF this, of c]
    have "\<exists>hs. classify m (find_all ''Flow'' c) bs = Inr hs \<and> read_probes m (probe_elems el) hs = Inr fs"
      using *(3,4) by (intro exI conjI)
    from this [unfolded b] *(1) \<open>mapE read_flow (flow_elems el) = Inr bs\<close>
    show ?join by (elim exE conjE) (intro exI conjI; assumption)
  next
    assume ?join
    then obtain c bs ts ss where *: "find_all ''Ipv4FlowClassifier'' el = [c]"
      "mapE read_flow (flow_elems el) = Inr bs" "mapE read_class (find_all ''Flow'' c) = Inr ts"
      "mapE probe_samples (probe_elems el) = Inr ss"
      "fst ` set ts \<union> fst ` set (concat ss) \<subseteq> flowId ` set bs" "fs = join_flows bs ts (concat ss)" by blast
    obtain m where m: "read_flows (flow_elems el) [] Map.empty = Inr (bs, m)" using flows *(2) by blast
    then have "map_ok bs m" using read_flows_iff [OF map_ok_empty m] by simp
    from *(3-6) have "\<exists>hs. classify m (find_all ''Flow'' c) bs = Inr hs \<and> read_probes m (probe_elems el) hs = Inr fs"
      unfolding both [OF \<open>map_ok bs m\<close> *(2), of c] by (intro exI conjI)
    with *(1) m show "simulation el = Inr fs" unfolding step by blast
  qed
qed

section \<open>Complete reports\<close>

lemma nano_unit_value: "nano_unit = Fin (4835703278458517 / 4835703278458516698824704)"
  by code_simp

lemma span_positive:
  assumes "float_of_int n = Inr x"
  shows "flt (Fin 0) (fmul x nano_unit) \<longleftrightarrow> 0 < n"
proof -
  let ?q = "4835703278458517 / 4835703278458516698824704 :: rat"
  obtain r where x: "x = Fin r" and r: "r = rnd53 (of_int n)"
    using assms fround_eq_Fin [of "of_int n"] by (cases "fround (of_int n)") (auto simp: float_of_int_def)
  have "?q = rnd53 (1 / 1000000000)"
    using fround_eq_Fin nano_unit_value unfolding nano_unit_def by blast
  then have q: "rnd53 ?q = ?q" by (metis rnd53_idem)
  show ?thesis
  proof (cases "0 < n")
    case True
    then have "rnd53 1 \<le> r" unfolding r by (intro rnd53_mono) simp
    then have "?q \<le> r * ?q" using rnd53_int [of 1] by (simp add: field_simps)
    then have "?q \<le> rnd53 (r * ?q)" using rnd53_mono q by fastforce
    then show ?thesis using True by (simp add: x nano_unit_value fround_def Let_def fmax_def)
  next
    case False
    then have "r \<le> rnd53 0" unfolding r by (intro rnd53_mono) simp
    then have "rnd53 (r * ?q) \<le> rnd53 0" using rnd53_int [of 0] by (intro rnd53_mono) simp
    then have "rnd53 (r * ?q) \<le> 0" using rnd53_int [of 0] by simp
    then show ?thesis using False by (auto simp: x nano_unit_value fround_def Let_def fmax_def)
  qed
qed

definition stamp :: "xml \<Rightarrow> string \<Rightarrow> int res" where
  "stamp e a = bindE (cut_unit (el_get e a)) to_long2"

definition earlier :: "xml \<Rightarrow> string \<Rightarrow> string \<Rightarrow> bool" where
  "earlier e a b \<longleftrightarrow> (case (stamp e a, stamp e b) of (Inr x, Inr y) \<Rightarrow> x < y | _ \<Rightarrow> False)"

text \<open>A flow with rates, a delay and a loss ratio.\<close>

definition measurable :: "xml \<Rightarrow> bool" where
  "measurable e \<longleftrightarrow>
     to_long2 (el_get e ''rxPackets'') \<noteq> Inr 0 \<and>
     earlier e ''timeFirstTxPacket'' ''timeLastTxPacket'' \<and> earlier e ''timeFirstRxPacket'' ''timeLastRxPacket''"

lemma duration_positive:
  assumes "duration_of (el_get e b) (el_get e a) = Inr d"
  shows "flt (Fin 0) d \<longleftrightarrow> earlier e a b"
proof -
  obtain l f x where *: "stamp e b = Inr l" "stamp e a = Inr f" "float_of_int (l - f) = Inr x" "d = fmul x nano_unit"
    using assms by (auto simp: duration_of_def stamp_def bindE_Inr_iff)
  with span_positive [OF *(3)] show ?thesis by (simp add: earlier_def)
qed

lemma bitrate_some: "bitrate b d = Inr r \<Longrightarrow> r \<noteq> None \<longleftrightarrow> flt (Fin 0) d"
  by (auto simp: bitrate_def bindE_Inr_iff split: if_splits)

lemma read_flow_measured:
  assumes "read_flow e = Inr f"
  shows "measurable e \<longleftrightarrow> txBitrate f \<noteq> None \<and> rxBitrate f \<noteq> None \<and> delayMean f \<noteq> None \<and> packetLossRatio f \<noteq> None"
proof -
  obtain rx txd rxd delay size rxr txr lost loss where *:
    "to_long2 (el_get e ''rxPackets'') = Inr rx"
    "duration_of (el_get e ''timeLastTxPacket'') (el_get e ''timeFirstTxPacket'') = Inr txd"
    "duration_of (el_get e ''timeLastRxPacket'') (el_get e ''timeFirstRxPacket'') = Inr rxd"
    "means e rx = Inr (delay, size)" "bitrate (el_get e ''rxBytes'') rxd = Inr rxr"
    "bitrate (el_get e ''txBytes'') txd = Inr txr" "loss_ratio lost rx = Inr loss"
    and f: "txBitrate f = txr" "rxBitrate f = rxr" "delayMean f = delay" "packetLossRatio f = loss"
    using assms by (auto simp: read_flow_def bindE_Inr_iff split: prod.splits)
  have "delay \<noteq> None \<longleftrightarrow> rx \<noteq> 0" using *(4) by (auto simp: means_def bindE_Inr_iff split: if_splits)
  moreover have "loss \<noteq> None \<longleftrightarrow> rx \<noteq> 0" using *(7) by (auto simp: loss_ratio_def bindE_Inr_iff split: if_splits)
  ultimately show ?thesis
    unfolding measurable_def *(1) f
      duration_positive [OF *(2), symmetric] duration_positive [OF *(3), symmetric]
      bitrate_some [OF *(5), symmetric] bitrate_some [OF *(6), symmetric] by auto
qed

definition classified :: "mon_flow \<Rightarrow> bool" where
  "classified f \<longleftrightarrow> (case fiveTuple f of None \<Rightarrow> False | Some t \<Rightarrow> protocol t \<in> {6, 17})"

lemma and_then_None [simp]: "snd (and_then a b) = None \<longleftrightarrow> snd a = None \<and> snd b = None"
  by (auto simp: and_then_def split: option.splits)

lemma value_line_None [simp]: "snd (value_line l x k u) = None \<longleftrightarrow> x \<noteq> None"
  by (auto simp: value_line_def fails_def prints_def split: option.splits)

lemma title_line_None [simp]: "snd (title_line f) = None \<longleftrightarrow> classified f"
  by (auto simp: title_line_def classified_def proto_name_def fails_def prints_def split: option.splits)

definition reportable :: "mon_flow \<Rightarrow> bool" where
  "reportable f \<longleftrightarrow> snd (flow_report f) = None"

lemma reportable_iff:
  "reportable f \<longleftrightarrow> classified f \<and> txBitrate f \<noteq> None \<and> rxBitrate f \<noteq> None \<and> delayMean f \<noteq> None \<and> packetLossRatio f \<noteq> None"
  by (simp add: reportable_def flow_report_def)

text \<open>The flows before the first one without a report are printed completely.\<close>

lemma report_flows_result:
  "report_flows fs =
     (concat (map (fst \<circ> flow_report) (takeWhile reportable fs)) @
        (case dropWhile reportable fs of [] \<Rightarrow> [] | f # _ \<Rightarrow> fst (flow_report f)),
      case dropWhile reportable fs of [] \<Rightarrow> None | f # _ \<Rightarrow> snd (flow_report f))"
  by (induction fs) (auto simp: prints_def and_then_def reportable_def split: option.splits)

lemma parse_events_run: "xml_run s p = Inr q \<Longrightarrow> parse_events s p = parse_events [] q"
proof (induction s arbitrary: p)
  case (Cons c s)
  then show ?case by (cases "xml_step c p") auto
qed simp

lemma iterparse_parsed:
  assumes "xml_parse s = Inr e" shows "iterparse s = (Some e, None)"
proof -
  obtain body p where b: "(if has_prefix ''<?xml '' s then after_declaration s else Inr s) = Inr body"
    "xml_run body start_state = Inr p" "xmode p = Chars \<and> xstack p = []" "xroot p = Some e"
    using assms by (auto simp: xml_parse_def bindE_Inr_iff split: if_splits)
  show ?thesis unfolding iterparse_def b(1) using parse_events_run [OF b(2)] b(3,4) by simp
qed

lemma flowmon_read_parsed:
  assumes "xml_parse s = Inr e" and "etag e = ''FlowMonitor''"
  shows "flowmon_read s =
    (case simulation e of
       Inl x \<Rightarrow> (''Reading XML file '', Some x)
     | Inr fs \<Rightarrow> and_then (prints (''Reading XML file . done.'' @ nl)) (report_flows fs))"
  using assms by (simp add: flowmon_read_def iterparse_parsed sims_of_def prints_def fails_def and_then_def
      split: sum.splits option.splits)

lemma joined_values:
  assumes "f \<in> set (join_flows bs ts ss)"
  shows "\<exists>b \<in> set bs. txBitrate f = txBitrate b \<and> rxBitrate f = rxBitrate b \<and>
    delayMean f = delayMean b \<and> packetLossRatio f = packetLossRatio b"
  using assms by (force simp: join_flows_def Let_def split: if_splits)

lemma joined_all:
  assumes "b \<in> set bs"
  shows "\<exists>f \<in> set (join_flows bs ts ss). txBitrate f = txBitrate b \<and> rxBitrate f = rxBitrate b \<and>
    delayMean f = delayMean b \<and> packetLossRatio f = packetLossRatio b"
proof -
  obtain k where k: "k < length bs" "b = bs ! k" using assms by (auto simp: in_set_conv_nth)
  let ?f = "join_flows bs ts ss ! k"
  have "k < length (join_flows bs ts ss)" using k by (simp add: join_flows_def)
  then have "?f \<in> set (join_flows bs ts ss)" by (rule nth_mem)
  moreover have "txBitrate ?f = txBitrate b \<and> rxBitrate ?f = rxBitrate b \<and>
      delayMean ?f = delayMean b \<and> packetLossRatio ?f = packetLossRatio b"
    using k by (simp add: join_flows_def Let_def)
  ultimately show ?thesis by blast
qed

lemma simulation_measured:
  assumes "simulation e = Inr fs"
  shows "(\<forall>f \<in> set fs. txBitrate f \<noteq> None \<and> rxBitrate f \<noteq> None \<and> delayMean f \<noteq> None \<and> packetLossRatio f \<noteq> None)
    \<longleftrightarrow> (\<forall>x \<in> set (flow_elems e). measurable x)"
proof -
  obtain m c bs where *: "read_flows (flow_elems e) [] Map.empty = Inr (bs, m)"
    "find_all ''Ipv4FlowClassifier'' e = [c]"
    and cl: "\<exists>hs. classify m (find_all ''Flow'' c) bs = Inr hs \<and> read_probes m (probe_elems e) hs = Inr fs"
    using assms by (auto simp: simulation_def bindE_Inr_iff the_only_iff)
  have m: "map_ok bs m" and bs: "mapE read_flow (flow_elems e) = Inr bs"
    using read_flows_iff [OF map_ok_empty *(1)] by auto
  have "\<forall>b \<in> set bs. fiveTuple b = None \<and> probe_stats_unsorted b = []"
    using mapE_set [OF bs] read_flow_fresh by blast
  from apply_both [OF m this] cl obtain ts ss where fs: "fs = join_flows bs ts ss"
    unfolding classify_iff read_probes_iff by blast
  have all2: "list_all2 (\<lambda>x b. read_flow x = Inr b) (flow_elems e) bs" using bs by (simp add: mapE_Inr_iff)
  have "(\<forall>f \<in> set fs. txBitrate f \<noteq> None \<and> rxBitrate f \<noteq> None \<and> delayMean f \<noteq> None \<and> packetLossRatio f \<noteq> None)
    \<longleftrightarrow> (\<forall>b \<in> set bs. txBitrate b \<noteq> None \<and> rxBitrate b \<noteq> None \<and> delayMean b \<noteq> None \<and> packetLossRatio b \<noteq> None)"
    unfolding fs using joined_values joined_all by metis
  also have "\<dots> \<longleftrightarrow> (\<forall>x \<in> set (flow_elems e). measurable x)"
    using all2 by (induction rule: list_all2_induct) (auto simp: read_flow_measured)
  finally show ?thesis .
qed

text \<open>
  C31. The report of a readable file ends normally exactly if every flow has sent and received packets at
  two different times at least and has a classified protocol (TCP or UDP); a flow without any received
  packet, or with a single one, ends the script with an exception.  In every case the flows before the
  first such flow are printed completely, and of that flow the lines before the missing value.
\<close>

theorem report_complete_iff:
  assumes "xml_parse s = Inr e" and "etag e = ''FlowMonitor''" and "simulation e = Inr fs"
  shows "(snd (flowmon_read s) = None \<longleftrightarrow> (\<forall>x \<in> set (flow_elems e). measurable x) \<and> (\<forall>f \<in> set fs. classified f)) \<and>
    fst (flowmon_read s) = ''Reading XML file . done.'' @ nl @
      concat (map (fst \<circ> flow_report) (takeWhile reportable fs)) @
      (case dropWhile reportable fs of [] \<Rightarrow> [] | f # _ \<Rightarrow> fst (flow_report f))"
proof -
  have r: "flowmon_read s = and_then (prints (''Reading XML file . done.'' @ nl)) (report_flows fs)"
    using flowmon_read_parsed [OF assms(1,2)] assms(3) by simp
  have "snd (report_flows fs) = None \<longleftrightarrow> (\<forall>f \<in> set fs. reportable f)"
    by (induction fs) (auto simp: prints_def reportable_def)
  then have "snd (flowmon_read s) = None \<longleftrightarrow> (\<forall>x \<in> set (flow_elems e). measurable x) \<and> (\<forall>f \<in> set fs. classified f)"
    using simulation_measured [OF assms(3)] by (auto simp: r prints_def reportable_iff)
  then show ?thesis
    by (simp add: r report_flows_result and_then_def prints_def)
qed

text \<open>A file with one flow, which has not received any packet.\<close>

definition sample_file :: string where
  "sample_file =
     ''<FlowMonitor><FlowStats><Flow'' @ attr_text
       [(''flowId'', ''1''), (''timeFirstTxPacket'', ''5ns''), (''timeFirstRxPacket'', ''0ns''),
        (''timeLastTxPacket'', ''5ns''), (''timeLastRxPacket'', ''0ns''), (''txPackets'', ''1''),
        (''rxPackets'', ''0''), (''lostPackets'', ''1'')] @
     ''/></FlowStats><Ipv4FlowClassifier><Flow'' @ attr_text
       [(''flowId'', ''1''), (''protocol'', ''17''), (''sourcePort'', ''10''), (''destinationPort'', ''20'')] @
     ''/></Ipv4FlowClassifier></FlowMonitor>''"

lemma sample_parsed:
  "(case xml_parse sample_file of
      Inl _ \<Rightarrow> False
    | Inr e \<Rightarrow> etag e = ''FlowMonitor'' \<and> \<not> list_all measurable (flow_elems e) \<and>
        (case simulation e of Inl _ \<Rightarrow> False | Inr fs \<Rightarrow> True))"
  by code_simp

theorem report_complete_iff_witness:
  "\<exists>e fs x. xml_parse sample_file = Inr e \<and> etag e = ''FlowMonitor'' \<and> simulation e = Inr fs \<and>
     snd (flowmon_read sample_file) = Some x"
proof -
  obtain e fs where *: "xml_parse sample_file = Inr e" "etag e = ''FlowMonitor''" "simulation e = Inr fs"
    and "\<not> list_all measurable (flow_elems e)"
    using sample_parsed by (auto split: sum.splits)
  then have "snd (flowmon_read sample_file) \<noteq> None"
    using report_complete_iff [OF *] by (simp add: list_all_iff)
  with * show ?thesis by blast
qed

end
