(* ===== verification/FloatText.thy ===== *)
theory FloatText
  imports PyFloat
begin

text \<open>
  The text of a float with a given number of significant digits, as the conversion \<open>g\<close> of C gives it: a
  fixed or an exponential form, without trailing zeros.
\<close>

definition round_sig :: "nat \<Rightarrow> rat \<Rightarrow> nat \<times> int" where
  "round_sig d x =
     (let k = ilog10 x; n = round_half_even (x * 10 powi (int d - 1 - k))
      in if n = 10 ^ d then (10 ^ (d - 1), k + 1) else (nat n, k))"

definition strip_zeros :: "string \<Rightarrow> string" where
  "strip_zeros ds = rev (dropWhile (\<lambda>c. c = CHR ''0'') (rev ds))"

definition fraction_text :: "string \<Rightarrow> string" where
  "fraction_text ds = (let f = strip_zeros ds in if f = [] then [] else CHR ''.'' # f)"

definition general_pos :: "nat \<Rightarrow> rat \<Rightarrow> string" where
  "general_pos d x =
     (case round_sig d x of (n, k) \<Rightarrow>
        let ds = show_nat n
        in if 0 \<le> k \<and> k < int d then take (nat k + 1) ds @ fraction_text (drop (nat k + 1) ds)
           else if - 4 \<le> k \<and> k < 0 then ''0.'' @ replicate (nat (- k) - 1) (CHR ''0'') @ strip_zeros ds
           else take 1 ds @ fraction_text (drop 1 ds) @ ''e'' @ (if k < 0 then ''-'' else ''+'') @
             pad_zeros 2 (show_nat (nat \<bar>k\<bar>)))"

fun general_text :: "nat \<Rightarrow> pyfloat \<Rightarrow> string" where
  "general_text d (Fin x) =
     (if x = 0 then ''0'' else if x < 0 then CHR ''-'' # general_pos d (- x) else general_pos d x)"
| "general_text d PInf = ''inf''"
| "general_text d MInf = ''-inf''"
| "general_text d NaN = ''nan''"

text \<open>\<open>str(x)\<close> of Python 2: twelve digits, and a point in every finite number without exponent.\<close>

definition py2_float_text :: "pyfloat \<Rightarrow> string" where
  "py2_float_text x =
     (let t = general_text 12 x
      in if is_finite x \<and> CHR ''.'' \<notin> set t \<and> CHR ''e'' \<notin> set t then t @ ''.0'' else t)"

lemma general_examples:
  "general_text 6 (Fin 20) = ''20''" "general_text 6 (Fin (1 / 8)) = ''0.125''" "general_text 6 (Fin 1234567) = ''1.23457e+06''"
  "general_text 6 (Fin (- 1 / 100000)) = ''-1e-05''" "py2_float_text (Fin 100) = ''100.0''"
  "py2_float_text (Fin (1 / 3)) = ''0.333333333333''"
  by code_simp+

end
