(* ===== verification/FlowXml.thy ===== *)
theory FlowXml
  imports FlowReport FloatText "HOL-Library.Word"
begin

text \<open>
  The file that \<open>flowmon-parse-results.py\<close> is made for: the flow monitor of the simulator
  (\<open>FlowMonitor\<close>, \<open>FlowProbe\<close>, \<open>Ipv4FlowClassifier\<close>, \<open>Histogram\<close>, and the text of \<open>Time\<close> values)
  writes it, and the script is run on it.

  Counters and times keep their width (\<open>32 word\<close>, \<open>64 word\<close>).  A \<open>std::map\<close> is the list of its
  entries in the order of their keys.  Streams print doubles with six significant digits.
\<close>

section \<open>Numbers on a stream\<close>

definition show_double :: "pyfloat \<Rightarrow> string" where
  "show_double x = general_text 6 x"

definition show_word :: "'a::len word \<Rightarrow> string" where
  "show_word w = show_nat (unat w)"

text \<open>\<open>operator<<\<close> of \<open>Time\<close>: sign, value in the resolution of the simulation, \<open>.0\<close> and the unit.\<close>

datatype time_unit = Unit_S | Unit_MS | Unit_US | Unit_NS | Unit_PS | Unit_FS

fun unit_name :: "time_unit \<Rightarrow> string" where
  "unit_name Unit_S = ''s''"
| "unit_name Unit_MS = ''ms''"
| "unit_name Unit_US = ''us''"
| "unit_name Unit_NS = ''ns''"
| "unit_name Unit_PS = ''ps''"
| "unit_name Unit_FS = ''fs''"

definition time_text :: "time_unit \<Rightarrow> 64 word \<Rightarrow> string" where
  "time_text u t = (if 0 \<le> sint t then ''+'' else []) @ show_int (sint t) @ ''.0'' @ unit_name u"

text \<open>\<open>Ipv4Address::Print\<close> of this simulator writes the two middle octets only.\<close>

definition show_ipv4 :: "32 word \<Rightarrow> string" where
  "show_ipv4 a = show_word (take_bit 8 (drop_bit 16 a)) @ ''.'' @ show_word (take_bit 8 (drop_bit 8 a))"

section \<open>The state of the monitor\<close>

record sim_histogram =
  m_histogram :: "32 word list"
  m_binWidth :: pyfloat

record flow_stats =
  timeFirstTxPacket :: "64 word"
  timeFirstRxPacket :: "64 word"
  timeLastTxPacket :: "64 word"
  timeLastRxPacket :: "64 word"
  delaySum :: "64 word"
  jitterSum :: "64 word"
  lastDelay :: "64 word"
  txBytes :: "64 word"
  rxBytes :: "64 word"
  txPackets :: "32 word"
  rxPackets :: "32 word"
  lostPackets :: "32 word"
  timesForwarded :: "32 word"
  delayHistogram :: sim_histogram
  jitterHistogram :: sim_histogram
  packetSizeHistogram :: sim_histogram
  interruptionsHistogram :: sim_histogram
  packetsDropped :: "32 word list"
  bytesDropped :: "64 word list"

record probe_entry =
  entryPackets :: "32 word"
  entryBytes :: "64 word"
  delayFromFirstProbeSum :: "64 word"
  entryPacketsDropped :: "32 word list"
  entryBytesDropped :: "64 word list"

record class_key =
  keySource :: "32 word"
  keyDestination :: "32 word"
  keyProtocol :: "8 word"
  keySourcePort :: "16 word"
  keyDestinationPort :: "16 word"

record flow_monitor =
  m_flowStats :: "(32 word \<times> flow_stats) list"
  m_trackedPackets :: "((32 word \<times> 32 word) \<times> 64 word) list"
  m_maxPerHopDelay :: "64 word"
  m_flowProbes :: "(32 word \<times> probe_entry) list list"
  m_flowMap :: "(class_key \<times> 32 word) list"

text \<open>
  \<open>CheckForLostPackets\<close> at the time \<open>now\<close>: packets not seen for \<open>m_maxPerHopDelay\<close> are counted as
  lost in their flow and are not tracked any more.
\<close>

definition overdue :: "64 word \<Rightarrow> flow_monitor \<Rightarrow> (32 word \<times> 32 word) \<times> 64 word \<Rightarrow> bool" where
  "overdue now st p \<longleftrightarrow> sint (m_maxPerHopDelay st) \<le> sint (now - snd p)"

definition count_lost :: "32 word \<Rightarrow> (32 word \<times> flow_stats) list \<Rightarrow> (32 word \<times> flow_stats) list" where
  "count_lost i fs = map (\<lambda>(j, s). (j, if j = i then s\<lparr>lostPackets := lostPackets s + 1\<rparr> else s)) fs"

definition check_for_lost_packets :: "64 word \<Rightarrow> flow_monitor \<Rightarrow> flow_monitor" where
  "check_for_lost_packets now st =
     st\<lparr>m_flowStats := fold (\<lambda>p. count_lost (fst (fst p))) (filter (overdue now st) (m_trackedPackets st)) (m_flowStats st),
        m_trackedPackets := filter (\<lambda>p. \<not> overdue now st p) (m_trackedPackets st)\<rparr>"

section \<open>Writing the file\<close>

definition out_line :: "nat \<Rightarrow> string \<Rightarrow> string" where
  "out_line i s = replicate i (CHR '' '') @ s @ nl"

definition bin_attrs :: "pyfloat \<Rightarrow> nat \<Rightarrow> 32 word \<Rightarrow> (string \<times> string) list" where
  "bin_attrs w i n =
     [(''index'', show_nat i), (''start'', show_double (fmul (Fin (of_nat i)) w)), (''width'', show_double w),
      (''count'', show_word n)]"

definition bins_of :: "sim_histogram \<Rightarrow> (nat \<times> 32 word) list" where
  "bins_of h = filter (\<lambda>(i, n). n \<noteq> 0) (enumerate 0 (m_histogram h))"

definition histogram_text :: "nat \<Rightarrow> string \<Rightarrow> sim_histogram \<Rightarrow> string" where
  "histogram_text i name h =
     out_line i (''<'' @ tag_text name [] [(''nBins'', show_nat (length (m_histogram h)))] '' '' @ ''>'') @
     concat (map (\<lambda>(k, n). out_line (i + 2) (''<'' @ tag_text ''bin'' [] (bin_attrs (m_binWidth h) k n) '' '' @ ''/>''))
               (bins_of h)) @
     out_line i (''</'' @ name @ ''>'')"

definition dropped_text :: "nat \<Rightarrow> string \<Rightarrow> string \<Rightarrow> 'a::len word list \<Rightarrow> string" where
  "dropped_text i name attr ws =
     concat (map (\<lambda>(k, w). out_line i (''<'' @ tag_text name [] [(''reasonCode'', show_nat k), (attr, show_word w)] '' '' @ ''/>''))
               (enumerate 0 ws))"

definition flow_attrs :: "time_unit \<Rightarrow> 32 word \<Rightarrow> flow_stats \<Rightarrow> (string \<times> string) list" where
  "flow_attrs u i s =
     [(''flowId'', show_word i),
      (''timeFirstTxPacket'', time_text u (timeFirstTxPacket s)),
      (''timeFirstRxPacket'', time_text u (timeFirstRxPacket s)),
      (''timeLastTxPacket'', time_text u (timeLastTxPacket s)),
      (''timeLastRxPacket'', time_text u (timeLastRxPacket s)),
      (''delaySum'', time_text u (delaySum s)),
      (''jitterSum'', time_text u (jitterSum s)),
      (''lastDelay'', time_text u (lastDelay s)),
      (''txBytes'', show_word (txBytes s)),
      (''rxBytes'', show_word (rxBytes s)),
      (''txPackets'', show_word (txPackets s)),
      (''rxPackets'', show_word (rxPackets s)),
      (''lostPackets'', show_word (lostPackets s)),
      (''timesForwarded'', show_word (timesForwarded s))]"

definition flow_text :: "time_unit \<Rightarrow> bool \<Rightarrow> nat \<Rightarrow> 32 word \<times> flow_stats \<Rightarrow> string" where
  "flow_text u histograms i p =
     (case p of (k, s) \<Rightarrow>
        out_line i (''<'' @ tag_text ''Flow'' [] (flow_attrs u k s) [] @ ''>'') @
        dropped_text (i + 2) ''packetsDropped'' ''number'' (packetsDropped s) @
        dropped_text (i + 2) ''bytesDropped'' ''bytes'' (bytesDropped s) @
        (if histograms
         then histogram_text (i + 2) ''delayHistogram'' (delayHistogram s) @
              histogram_text (i + 2) ''jitterHistogram'' (jitterHistogram s) @
              histogram_text (i + 2) ''packetSizeHistogram'' (packetSizeHistogram s) @
              histogram_text (i + 2) ''flowInterruptionsHistogram'' (interruptionsHistogram s)
         else []) @
        out_line i ''</Flow>'')"

definition class_attrs :: "class_key \<times> 32 word \<Rightarrow> (string \<times> string) list" where
  "class_attrs p =
     (case p of (t, i) \<Rightarrow>
        [(''flowId'', show_word i), (''sourceAddress'', show_ipv4 (keySource t)),
         (''destinationAddress'', show_ipv4 (keyDestination t)), (''protocol'', show_word (keyProtocol t)),
         (''sourcePort'', show_word (keySourcePort t)), (''destinationPort'', show_word (keyDestinationPort t))])"

definition classifier_text :: "nat \<Rightarrow> (class_key \<times> 32 word) list \<Rightarrow> string" where
  "classifier_text i es =
     out_line i ''<Ipv4FlowClassifier>'' @
     concat (map (\<lambda>e. out_line (i + 2) (''<'' @ tag_text ''Flow'' [] (class_attrs e) '' '' @ ''/>'')) es) @
     out_line i ''</Ipv4FlowClassifier>''"

definition entry_attrs :: "time_unit \<Rightarrow> 32 word \<times> probe_entry \<Rightarrow> (string \<times> string) list" where
  "entry_attrs u p =
     (case p of (i, s) \<Rightarrow>
        [(''flowId'', show_word i), (''packets'', show_word (entryPackets s)), (''bytes'', show_word (entryBytes s)),
         (''delayFromFirstProbeSum'', time_text u (delayFromFirstProbeSum s))])"

definition probe_text :: "time_unit \<Rightarrow> nat \<Rightarrow> nat \<Rightarrow> (32 word \<times> probe_entry) list \<Rightarrow> string" where
  "probe_text u i k es =
     out_line i (''<'' @ tag_text ''FlowProbe'' [] [(''index'', show_nat k)] [] @ ''>'') @
     concat (map (\<lambda>e.
       out_line (i + 2) (''<'' @ tag_text ''FlowStats'' '' '' (entry_attrs u e) '' '' @ ''>'') @
       dropped_text (i + 4) ''packetsDropped'' ''number'' (entryPacketsDropped (snd e)) @
       dropped_text (i + 4) ''bytesDropped'' ''bytes'' (entryBytesDropped (snd e)) @
       out_line (i + 2) ''</FlowStats>'') es) @
     out_line i ''</FlowProbe>''"

definition monitor_text :: "time_unit \<Rightarrow> nat \<Rightarrow> bool \<Rightarrow> bool \<Rightarrow> flow_monitor \<Rightarrow> string" where
  "monitor_text u i histograms probes st =
     out_line i ''<FlowMonitor>'' @
     out_line (i + 2) ''<FlowStats>'' @
     concat (map (flow_text u histograms (i + 4)) (m_flowStats st)) @
     out_line (i + 2) ''</FlowStats>'' @
     classifier_text (i + 2) (m_flowMap st) @
     (if probes
      then out_line (i + 2) ''<FlowProbes>'' @
           concat (map (\<lambda>(k, es). probe_text u (i + 4) k es) (enumerate 0 (m_flowProbes st))) @
           out_line (i + 2) ''</FlowProbes>''
      else []) @
     out_line i ''</FlowMonitor>''"

definition serialize_to_xml_file :: "time_unit \<Rightarrow> bool \<Rightarrow> bool \<Rightarrow> 64 word \<Rightarrow> flow_monitor \<Rightarrow> string" where
  "serialize_to_xml_file u histograms probes now st =
     ''<?xml version='' @ quoted ''1.0'' @ '' ?>'' @ nl @
     monitor_text u 0 histograms probes (check_for_lost_packets now st)"

end
