(* ===== verification/FlowRead.thy ===== *)
theory FlowRead
  imports FlowXml
begin

text \<open>
  What the script makes of the file that the simulator writes.  The file is a well-formed document with
  the expected tree (\<open>monitor_tree\<close>), but no flow in it can be read: \<open>long\<close> does not accept the times.
\<close>

section \<open>Attribute values\<close>

lemma plain_value_Nil [simp]: "plain_value []"
  by (simp add: plain_value_def)

lemma plain_value_Cons [simp]: "plain_value (c # s) \<longleftrightarrow>
    xml_char c \<and> c \<noteq> CHR ''<'' \<and> c \<noteq> CHR ''&'' \<and> c \<noteq> CHR 0x22 \<and> plain_value s"
  by (auto simp: plain_value_def)

lemma show_nat_all_digits: "\<forall>c \<in> set (show_nat n). is_digit c"
  using show_nat_digits digit_char_props(1) by blast

lemma plain_show_nat [simp]: "plain_value (show_nat n)"
  by (rule digits_plain [OF show_nat_all_digits])

lemma plain_show_word [simp]: "plain_value (show_word w)"
  by (simp add: show_word_def)

lemma plain_time [simp]: "plain_value (time_text u t)"
  by (cases u) (simp_all add: time_text_def show_int_def xml_char_def)

lemma plain_ipv4 [simp]: "plain_value (show_ipv4 a)"
  by (simp add: show_ipv4_def xml_char_def)

lemma plain_part: "plain_value s \<Longrightarrow> set t \<subseteq> set s \<Longrightarrow> plain_value t"
  by (auto simp: plain_value_def list_all_iff)

lemma strip_zeros_set: "set (strip_zeros s) \<subseteq> set s"
  using set_dropWhileD by (fastforce simp: strip_zeros_def)

lemma plain_fraction: "plain_value s \<Longrightarrow> plain_value (fraction_text s)"
  using plain_part [OF _ strip_zeros_set] by (simp add: fraction_text_def Let_def xml_char_def)

lemma plain_take: "plain_value s \<Longrightarrow> plain_value (take n s)" "plain_value s \<Longrightarrow> plain_value (drop n s)"
  by (auto intro: plain_part dest: in_set_takeD in_set_dropD)

lemma plain_zeros: "plain_value (replicate n (CHR ''0''))"
  by (induction n) (simp_all add: xml_char_def)

lemma plain_double_pos: "plain_value (general_pos d x)"
  by (auto simp: general_pos_def Let_def pad_zeros_def xml_char_def
      intro!: plain_fraction plain_take plain_zeros plain_part [OF _ strip_zeros_set] split: prod.split)

lemma plain_double [simp]: "plain_value (show_double x)"
  by (cases x) (auto simp: show_double_def plain_double_pos xml_char_def)

section \<open>Blocks and lines\<close>

lemma blank_indent [simp]: "plain (replicate i (CHR '' ''))"
  by (rule blank_plain) simp

lemma written_out_line: "written s es \<Longrightarrow> written (out_line i s) es"
  unfolding out_line_def by (intro written_skip written_line) simp_all

lemma written_block:
  assumes "xml_name n" "attrs_ok as" "blank b" "blank e" "written X es"
    and "c = ''</'' @ n @ ''>''" and "d = ''<'' @ tag_text n b as e @ ''>''"
  shows "written (out_line i d @ X @ out_line i c) [Elem n as None es]"
proof -
  have "written (nl @ X @ replicate i (CHR '' '')) es"
    using written_skip [OF nl_plain written_append [OF assms(5) written_plain [OF blank_indent [of i]]]] by simp
  from written_skip [OF blank_indent written_line [OF written_element [OF assms(1-4) this]]]
  have "written (replicate i (CHR '' '') @ (''<'' @ tag_text n b as e @ ''>'' @ (nl @ X @ replicate i (CHR '' '')) @
      ''</'' @ n @ ''>'') @ nl) [Elem n as None es]" .
  then show ?thesis by (simp add: out_line_def assms)
qed

lemma written_leaf:
  assumes "xml_name n" "attrs_ok as"
  shows "written (out_line i (''<'' @ tag_text n [] as '' '' @ ''/>'')) [Elem n as None []]"
  by (rule written_out_line [OF written_empty [OF assms]]) simp_all

lemma written_leaves:
  assumes "xml_name n" "\<And>x. x \<in> set xs \<Longrightarrow> attrs_ok (f x)"
  shows "written (concat (map (\<lambda>x. out_line i (''<'' @ tag_text n [] (f x) '' '' @ ''/>'')) xs))
           (map (\<lambda>x. Elem n (f x) None []) xs)"
  using written_concat [of xs _ "\<lambda>x. [Elem n (f x) None []]"] written_leaf [OF assms(1) assms(2)] by fastforce

lemma names_ok [simp]:
  "xml_name ''Flow''" "xml_name ''FlowStats''" "xml_name ''FlowProbe''" "xml_name ''FlowProbes''"
  "xml_name ''Ipv4FlowClassifier''" "xml_name ''FlowMonitor''" "xml_name ''bin''" "xml_name ''packetsDropped''"
  "xml_name ''bytesDropped''" "xml_name ''delayHistogram''" "xml_name ''jitterHistogram''"
  "xml_name ''packetSizeHistogram''" "xml_name ''flowInterruptionsHistogram''" "xml_name ''index''" "xml_name ''start''"
  "xml_name ''width''" "xml_name ''count''" "xml_name ''nBins''" "xml_name ''reasonCode''" "xml_name ''number''"
  "xml_name ''bytes''" "xml_name ''packets''" "xml_name ''delayFromFirstProbeSum''" "xml_name ''flowId''"
  "xml_name ''sourceAddress''" "xml_name ''destinationAddress''" "xml_name ''protocol''" "xml_name ''sourcePort''"
  "xml_name ''destinationPort''" "xml_name ''timeFirstTxPacket''" "xml_name ''timeFirstRxPacket''"
  "xml_name ''timeLastTxPacket''" "xml_name ''timeLastRxPacket''" "xml_name ''delaySum''" "xml_name ''jitterSum''"
  "xml_name ''lastDelay''" "xml_name ''txBytes''" "xml_name ''rxBytes''" "xml_name ''txPackets''" "xml_name ''rxPackets''"
  "xml_name ''lostPackets''" "xml_name ''timesForwarded''"
  by code_simp+

lemma attrs_all_ok [simp]:
  "attrs_ok (bin_attrs w i n)" "attrs_ok (flow_attrs u k s)" "attrs_ok (class_attrs e)" "attrs_ok (entry_attrs u p)"
  by (cases e; cases p; simp add: bin_attrs_def flow_attrs_def class_attrs_def entry_attrs_def)+

section \<open>The tree of the file\<close>

definition dropped_tree :: "string \<Rightarrow> string \<Rightarrow> 'a::len word list \<Rightarrow> xml list" where
  "dropped_tree name attr ws =
     map (\<lambda>(k, w). Elem name [(''reasonCode'', show_nat k), (attr, show_word w)] None []) (enumerate 0 ws)"

definition histogram_tree :: "string \<Rightarrow> sim_histogram \<Rightarrow> xml" where
  "histogram_tree name h =
     Elem name [(''nBins'', show_nat (length (m_histogram h)))] None
       (map (\<lambda>(k, n). Elem ''bin'' (bin_attrs (m_binWidth h) k n) None []) (bins_of h))"

definition flow_tree :: "time_unit \<Rightarrow> bool \<Rightarrow> 32 word \<times> flow_stats \<Rightarrow> xml" where
  "flow_tree u histograms p =
     (case p of (k, s) \<Rightarrow>
        Elem ''Flow'' (flow_attrs u k s) None
          (dropped_tree ''packetsDropped'' ''number'' (packetsDropped s) @
           dropped_tree ''bytesDropped'' ''bytes'' (bytesDropped s) @
           (if histograms
            then [histogram_tree ''delayHistogram'' (delayHistogram s), histogram_tree ''jitterHistogram'' (jitterHistogram s),
                  histogram_tree ''packetSizeHistogram'' (packetSizeHistogram s),
                  histogram_tree ''flowInterruptionsHistogram'' (interruptionsHistogram s)]
            else [])))"

definition classifier_tree :: "(class_key \<times> 32 word) list \<Rightarrow> xml" where
  "classifier_tree es = Elem ''Ipv4FlowClassifier'' [] None (map (\<lambda>e. Elem ''Flow'' (class_attrs e) None []) es)"

definition probe_tree :: "time_unit \<Rightarrow> nat \<Rightarrow> (32 word \<times> probe_entry) list \<Rightarrow> xml" where
  "probe_tree u k es =
     Elem ''FlowProbe'' [(''index'', show_nat k)] None
       (map (\<lambda>e. Elem ''FlowStats'' (entry_attrs u e) None
                    (dropped_tree ''packetsDropped'' ''number'' (entryPacketsDropped (snd e)) @
                     dropped_tree ''bytesDropped'' ''bytes'' (entryBytesDropped (snd e)))) es)"

definition monitor_tree :: "time_unit \<Rightarrow> bool \<Rightarrow> bool \<Rightarrow> flow_monitor \<Rightarrow> xml" where
  "monitor_tree u histograms probes st =
     Elem ''FlowMonitor'' [] None
       ([Elem ''FlowStats'' [] None (map (flow_tree u histograms) (m_flowStats st)), classifier_tree (m_flowMap st)] @
        (if probes
         then [Elem ''FlowProbes'' [] None (map (\<lambda>(k, es). probe_tree u k es) (enumerate 0 (m_flowProbes st)))]
         else []))"

lemma written_dropped:
  assumes "name = ''packetsDropped'' \<and> attr = ''number'' \<or> name = ''bytesDropped'' \<and> attr = ''bytes''"
  shows "written (dropped_text i name attr ws) (dropped_tree name attr ws)"
  using written_leaves [where n = name and xs = "enumerate 0 ws" and i = i
      and f = "\<lambda>(k, w). [(''reasonCode'', show_nat k), (attr, show_word w)]"] assms
  by (auto simp: dropped_text_def dropped_tree_def case_prod_unfold)

lemma written_histogram:
  assumes "xml_name name"
  shows "written (histogram_text i name h) [histogram_tree name h]"
  unfolding histogram_text_def histogram_tree_def
proof (rule written_block [OF assms])
  show "written (concat (map (\<lambda>(k, n). out_line (i + 2) (''<'' @ tag_text ''bin'' [] (bin_attrs (m_binWidth h) k n) '' '' @ ''/>''))
      (bins_of h))) (map (\<lambda>(k, n). Elem ''bin'' (bin_attrs (m_binWidth h) k n) None []) (bins_of h))"
    using written_leaves [of "''bin''" "bins_of h" "\<lambda>(k, n). bin_attrs (m_binWidth h) k n" "i + 2"]
    by (simp add: case_prod_unfold)
qed simp_all

lemma written_flow: "written (flow_text u hs i p) [flow_tree u hs p]"
proof -
  obtain k s where p: "p = (k, s)" by (cases p)
  let ?D = "dropped_text (i + 2) ''packetsDropped'' ''number'' (packetsDropped s) @
    dropped_text (i + 2) ''bytesDropped'' ''bytes'' (bytesDropped s)"
  let ?H = "if hs
    then histogram_text (i + 2) ''delayHistogram'' (delayHistogram s) @
         histogram_text (i + 2) ''jitterHistogram'' (jitterHistogram s) @
         histogram_text (i + 2) ''packetSizeHistogram'' (packetSizeHistogram s) @
         histogram_text (i + 2) ''flowInterruptionsHistogram'' (interruptionsHistogram s)
    else []"
  have h: "written ?H (if hs
    then [histogram_tree ''delayHistogram'' (delayHistogram s)] @ [histogram_tree ''jitterHistogram'' (jitterHistogram s)] @
         [histogram_tree ''packetSizeHistogram'' (packetSizeHistogram s)] @
         [histogram_tree ''flowInterruptionsHistogram'' (interruptionsHistogram s)]
    else [])" (is "written _ ?hts")
    by (cases hs) (auto intro!: written_append written_histogram written_Nil simp del: append_Cons append_Nil)
  have "written (?D @ ?H) ((dropped_tree ''packetsDropped'' ''number'' (packetsDropped s) @
    dropped_tree ''bytesDropped'' ''bytes'' (bytesDropped s)) @ ?hts)"
    by (intro written_append written_dropped h) simp_all
  from written_block [OF _ _ _ _ this refl refl, of "''Flow''" "flow_attrs u k s" "[]" "[]" i]
  show ?thesis by (simp add: p flow_text_def flow_tree_def cong: if_cong)
qed

lemma written_classifier: "written (classifier_text i es) [classifier_tree es]"
  unfolding classifier_text_def classifier_tree_def
proof (rule written_block [where as = "[]" and b = "[]" and e = "[]"])
  show "written (concat (map (\<lambda>e. out_line (i + 2) (''<'' @ tag_text ''Flow'' [] (class_attrs e) '' '' @ ''/>'')) es))
      (map (\<lambda>e. Elem ''Flow'' (class_attrs e) None []) es)"
    by (rule written_leaves) simp_all
qed (simp_all add: tag_text_def)

lemma written_probe: "written (probe_text u i k es) [probe_tree u k es]"
  unfolding probe_text_def probe_tree_def
proof (rule written_block)
  let ?block = "\<lambda>e. out_line (i + 2) (''<'' @ tag_text ''FlowStats'' '' '' (entry_attrs u e) '' '' @ ''>'') @
    dropped_text (i + 4) ''packetsDropped'' ''number'' (entryPacketsDropped (snd e)) @
    dropped_text (i + 4) ''bytesDropped'' ''bytes'' (entryBytesDropped (snd e)) @
    out_line (i + 2) ''</FlowStats>''"
  let ?tree = "\<lambda>e. Elem ''FlowStats'' (entry_attrs u e) None
    (dropped_tree ''packetsDropped'' ''number'' (entryPacketsDropped (snd e)) @
     dropped_tree ''bytesDropped'' ''bytes'' (entryBytesDropped (snd e)))"
  have "written (?block e) [?tree e]" for e
  proof -
    have "written (dropped_text (i + 4) ''packetsDropped'' ''number'' (entryPacketsDropped (snd e)) @
      dropped_text (i + 4) ''bytesDropped'' ''bytes'' (entryBytesDropped (snd e)))
      (dropped_tree ''packetsDropped'' ''number'' (entryPacketsDropped (snd e)) @
       dropped_tree ''bytesDropped'' ''bytes'' (entryBytesDropped (snd e)))"
      by (intro written_append written_dropped) simp_all
    from written_block [OF _ _ _ _ this refl refl, of "''FlowStats''" "entry_attrs u e" "'' ''" "'' ''" "i + 2"]
    show ?thesis by simp
  qed
  then show "written (concat (map ?block es)) (map ?tree es)"
    using written_concat [of es ?block "\<lambda>e. [?tree e]"] by simp
qed simp_all

lemma written_probes:
  "written (out_line i ''<FlowProbes>'' @ concat (map (\<lambda>(k, es). probe_text u j k es) ks) @ out_line i ''</FlowProbes>'')
     [Elem ''FlowProbes'' [] None (map (\<lambda>(k, es). probe_tree u k es) ks)]"
proof (rule written_block [where as = "[]" and b = "[]" and e = "[]"])
  show "written (concat (map (\<lambda>(k, es). probe_text u j k es) ks)) (map (\<lambda>(k, es). probe_tree u k es) ks)"
    using written_concat [of ks "\<lambda>(k, es). probe_text u j k es" "\<lambda>(k, es). [probe_tree u k es]"] written_probe
    by (fastforce simp: case_prod_unfold)
qed (simp_all add: tag_text_def)

lemma written_stats:
  "written (out_line i ''<FlowStats>'' @ concat (map (flow_text u hs j) fs) @ out_line i ''</FlowStats>'')
     [Elem ''FlowStats'' [] None (map (flow_tree u hs) fs)]"
proof (rule written_block [where as = "[]" and b = "[]" and e = "[]"])
  show "written (concat (map (flow_text u hs j) fs)) (map (flow_tree u hs) fs)"
    using written_concat [of fs "flow_text u hs j" "\<lambda>f. [flow_tree u hs f]"] written_flow by simp
qed (simp_all add: tag_text_def)

lemma header_text: "xml_parse (''<?xml version='' @ quoted ''1.0'' @ '' ?>'' @ nl @ s) = xml_parse (xml_header @ s)"
  by (simp add: xml_parse_def xml_header_def quoted_def nl_def has_prefix_def)

text \<open>
  For every state of the monitor, with or without histograms and probes, the file is a well-formed
  document whose tree, apart from indentation, is \<open>monitor_tree\<close>.
\<close>

theorem monitor_file_parsed:
  "\<exists>e. xml_parse (serialize_to_xml_file u hs ps now st) = Inr e \<and>
       bare e = monitor_tree u hs ps (check_for_lost_packets now st)"
proof -
  let ?st = "check_for_lost_packets now st"
  define body where "body =
    (out_line 2 ''<FlowStats>'' @ concat (map (flow_text u hs 4) (m_flowStats ?st)) @ out_line 2 ''</FlowStats>'') @
    classifier_text 2 (m_flowMap ?st) @
    (if ps then out_line 2 ''<FlowProbes>'' @
       concat (map (\<lambda>(k, es). probe_text u 4 k es) (enumerate 0 (m_flowProbes ?st))) @ out_line 2 ''</FlowProbes>''
     else [])"
  have p: "written (if ps then out_line 2 ''<FlowProbes>'' @
       concat (map (\<lambda>(k, es). probe_text u 4 k es) (enumerate 0 (m_flowProbes ?st))) @ out_line 2 ''</FlowProbes>''
     else []) (if ps then [Elem ''FlowProbes'' [] None (map (\<lambda>(k, es). probe_tree u k es) (enumerate 0 (m_flowProbes ?st)))] else [])"
    using written_probes written_Nil by simp
  have "written body (kids (monitor_tree u hs ps ?st))"
    using written_append [OF written_stats written_append [OF written_classifier p]]
    by (simp add: body_def monitor_tree_def cong: if_cong)
  from written_skip [OF nl_plain this]
  obtain es where es: "xml_fragment (nl @ body) = Inr es" "map bare es = kids (monitor_tree u hs ps ?st)"
    by (auto simp: written_def)
  have shape: "serialize_to_xml_file u hs ps now st = ''<?xml version='' @ quoted ''1.0'' @ '' ?>'' @ nl @
      ((''<'' @ ''FlowMonitor'' @ ''>'') @ (nl @ body) @ (''</'' @ ''FlowMonitor'' @ ''>'') @ nl)"
    by (simp add: serialize_to_xml_file_def monitor_text_def body_def out_line_def [of 0] numeral_2_eq_2 cong: if_cong)
  obtain t where "xml_parse (serialize_to_xml_file u hs ps now st) = Inr (Elem ''FlowMonitor'' [] t es)"
    unfolding shape header_text using document_parse [OF _ es(1), of "''FlowMonitor''"] by auto
  then show ?thesis using es(2) by (auto simp: monitor_tree_def)
qed

section \<open>Times that cannot be read\<close>

lemma dot_digits: "CHR ''.'' \<in> set s \<Longrightarrow> py2_digits s = None"
  by (auto simp: py2_digits_def list_all_iff is_digit_def)

lemma dot_dropWhile: "CHR ''.'' \<in> set s \<Longrightarrow> CHR ''.'' \<in> set (dropWhile is_ws s)"
  by (induction s) (auto simp: is_ws_def)

lemma dot_strip: "CHR ''.'' \<in> set s \<Longrightarrow> CHR ''.'' \<in> set (py_strip s)"
  using dot_dropWhile [of s] dot_dropWhile [of "rev (dropWhile is_ws s)"] dot_dropWhile [of "rev s"]
  by (auto simp: py_strip_def py_rstrip_def dot_dropWhile)

lemma dot_int: "CHR ''.'' \<in> set s \<Longrightarrow> py2_int s = None"
  using dot_strip [of s]
  by (auto simp: py2_int_def dot_digits dot_dropWhile split: list.splits)

lemma dot_long: "CHR ''.'' \<in> set s \<Longrightarrow> py2_long s = None"
proof -
  assume "CHR ''.'' \<in> set s"
  then have dot: "CHR ''.'' \<in> set (py_strip s)" by (rule dot_strip)
  then have "last (py_strip s) \<noteq> CHR ''.'' \<Longrightarrow> CHR ''.'' \<in> set (butlast (py_strip s))"
    by (cases "py_strip s" rule: rev_cases) auto
  with dot show ?thesis by (auto simp: py2_long_def Let_def dot_int)
qed

lemma time_text_dot: "CHR ''.'' \<in> set (take (length (time_text u t) - 2) (time_text u t))"
  by (cases u) (simp_all add: time_text_def)

lemma time_unreadable: "bindE (cut_unit (Some (time_text u t))) to_long2 =
    Inl (ValueError ''invalid literal for long() with base 10'')"
  by (simp add: cut_unit_def to_long2_def dot_long [OF time_text_dot])

lemma strip_show_nat: "py_strip (show_nat n) = show_nat n"
  by (rule py_strip_clean) auto

lemma show_nat_first: "\<exists>c cs. show_nat n = c # cs \<and> is_digit c"
  using show_nat_all_digits [of n] by (cases "show_nat n") auto

lemma read_nat: "py2_int (show_nat n) = Some (int n)"
proof -
  obtain c cs where c: "show_nat n = c # cs" "is_digit c" using show_nat_first by blast
  then have "c \<noteq> CHR ''-'' \<and> c \<noteq> CHR ''+''" using is_digit_not by blast
  moreover have "py2_digits (show_nat n) = Some (int n)"
    using show_nat_all_digits [of n] by (simp add: py2_digits_def list_all_iff parse_show_nat)
  ultimately show ?thesis using c by (simp add: py2_int_def strip_show_nat [of n, unfolded c(1)])
qed

lemma read_long: "py2_long (show_nat n) = Some (int n)"
proof -
  have "is_digit (last (show_nat n))" using show_nat_all_digits [of n] by simp
  then have "last (show_nat n) \<notin> {CHR ''L'', CHR ''l''}" by (auto simp: is_digit_def)
  then show ?thesis by (simp add: py2_long_def Let_def strip_show_nat read_nat)
qed

lemma read_words [simp]:
  "to_int2 (Some (show_word w)) = Inr (uint w)" "to_long2 (Some (show_word w)) = Inr (uint w)"
  "to_int2 (Some (show_nat n)) = Inr (int n)"
  by (simp_all add: to_int2_def to_long2_def show_word_def read_nat read_long)

abbreviation bad_long :: exn where
  "bad_long \<equiv> ValueError ''invalid literal for long() with base 10''"

lemma written_flow_unreadable:
  assumes "eattrs x = flow_attrs u k s"
  shows "read_flow x = Inl bad_long"
proof -
  have get: "el_get x ''flowId'' = Some (show_word k)" "el_get x ''rxPackets'' = Some (show_word (rxPackets s))"
    "el_get x ''txPackets'' = Some (show_word (txPackets s))"
    "el_get x ''timeLastTxPacket'' = Some (time_text u (timeLastTxPacket s))"
    using assms by (simp_all add: el_get_def flow_attrs_def)
  show ?thesis
    by (simp add: read_flow_def get duration_of_def time_unreadable)
qed

lemma flow_elems_bare: "flow_elems (bare e) = map bare (flow_elems e)"
  by (simp add: flow_elems_def bare_find_all map_concat o_def)

lemma monitor_parts:
  "flow_elems (monitor_tree u hs ps st) = map (flow_tree u hs) (m_flowStats st)"
  "find_all ''Ipv4FlowClassifier'' (monitor_tree u hs ps st) = [classifier_tree (m_flowMap st)]"
proof -
  have tag: "etag (flow_tree u hs p) = ''Flow''" for p by (cases p) (simp add: flow_tree_def)
  show "flow_elems (monitor_tree u hs ps st) = map (flow_tree u hs) (m_flowStats st)"
    by (cases ps) (auto simp: flow_elems_def find_all_def monitor_tree_def classifier_tree_def tag filter_id_conv)
  show "find_all ''Ipv4FlowClassifier'' (monitor_tree u hs ps st) = [classifier_tree (m_flowMap st)]"
    by (cases ps) (auto simp: find_all_def monitor_tree_def classifier_tree_def)
qed

lemma stats_kept: "m_flowStats (check_for_lost_packets now st) = [] \<longleftrightarrow> m_flowStats st = []"
proof -
  have "fold (\<lambda>p. count_lost (fst (fst p))) ps fs = [] \<longleftrightarrow> fs = []" for ps :: "((32 word \<times> 32 word) \<times> 64 word) list" and fs
    by (induction ps arbitrary: fs) (simp_all add: count_lost_def)
  then show ?thesis by (simp add: check_for_lost_packets_def)
qed

text \<open>
  C27. The script cannot read the files of this simulator: whatever the state of the monitor and the
  resolution of its clock, as soon as there is one flow the script ends with the \<open>ValueError\<close> of
  \<open>long\<close>, because a time is written with a decimal point.  It has printed the first words only.
\<close>

theorem simulator_file_rejected:
  assumes "m_flowStats st \<noteq> []"
  shows "flowmon_main (\<lambda>f. if f = name then Some (serialize_to_xml_file u hs ps now st) else None) [prog, name] =
    (''Reading XML file '', Some (ValueError ''invalid literal for long() with base 10''))"
proof -
  let ?st = "check_for_lost_packets now st"
  obtain p fs where st: "m_flowStats ?st = p # fs" using stats_kept [of now st] assms by (cases "m_flowStats ?st") auto
  obtain k s where p: "p = (k, s)" by (cases p)
  obtain e where e: "xml_parse (serialize_to_xml_file u hs ps now st) = Inr e" "bare e = monitor_tree u hs ps ?st"
    using monitor_file_parsed by blast
  have tag: "etag e = ''FlowMonitor''" using arg_cong [OF e(2), of etag] by (simp add: monitor_tree_def)
  have "map bare (flow_elems e) = map (flow_tree u hs) (p # fs)"
    using flow_elems_bare [of e] monitor_parts(1) [of u hs ps ?st] by (simp add: e(2) st)
  then obtain x xs where x: "flow_elems e = x # xs" "bare x = flow_tree u hs p" by auto
  have "eattrs x = flow_attrs u k s"
    using arg_cong [OF x(2), of eattrs] by (simp add: p flow_tree_def)
  then have flow: "read_flow x = Inl bad_long" by (rule written_flow_unreadable)
  have "map bare (find_all ''Ipv4FlowClassifier'' e) = [classifier_tree (m_flowMap ?st)]"
    using bare_find_all [of "''Ipv4FlowClassifier''" e] monitor_parts(2) [of u hs ps ?st] by (simp add: e(2))
  then obtain c where "find_all ''Ipv4FlowClassifier'' e = [c]" by auto
  then have "simulation e = Inl bad_long"
    using flow x(1) by (simp add: simulation_def the_only_def)
  then show ?thesis
    using flowmon_read_parsed [OF e(1) tag] by (simp add: flowmon_main_def)
qed

definition one_flow :: flow_monitor where
  "one_flow =
     \<lparr>m_flowStats =
        [(1, \<lparr>timeFirstTxPacket = 1000000000, timeFirstRxPacket = 1000500000, timeLastTxPacket = 2000000000,
              timeLastRxPacket = 2000500000, delaySum = 1000000, jitterSum = 0, lastDelay = 500000, txBytes = 2000,
              rxBytes = 1000, txPackets = 2, rxPackets = 1, lostPackets = 0, timesForwarded = 1,
              delayHistogram = \<lparr>m_histogram = [1], m_binWidth = Fin 1\<rparr>,
              jitterHistogram = \<lparr>m_histogram = [], m_binWidth = Fin 1\<rparr>,
              packetSizeHistogram = \<lparr>m_histogram = [0, 1], m_binWidth = Fin 20\<rparr>,
              interruptionsHistogram = \<lparr>m_histogram = [], m_binWidth = Fin 1\<rparr>,
              packetsDropped = [], bytesDropped = []\<rparr>)],
      m_trackedPackets = [((1, 1), 2000000000)], m_maxPerHopDelay = 10000000000, m_flowProbes = [],
      m_flowMap = [(\<lparr>keySource = 0x0B000001, keyDestination = 0x0B000101, keyProtocol = 17, keySourcePort = 10000,
                     keyDestinationPort = 100\<rparr>, 1)]\<rparr>"

theorem simulator_file_rejected_witness:
  "m_flowStats one_flow \<noteq> [] \<and>
   flowmon_main (\<lambda>f. if f = ''mon.xml'' then Some (serialize_to_xml_file Unit_NS True True 20000000000 one_flow) else None)
     [''flowmon-parse-results.py'', ''mon.xml''] =
     (''Reading XML file '', Some (ValueError ''invalid literal for long() with base 10''))"
  using simulator_file_rejected [of one_flow "''mon.xml''"] by (simp add: one_flow_def)

end
