(* ===== verification/WafRun.thy ===== *)
theory WafRun
  imports ShellCmd
begin

text \<open>
  \<open>wutils.py\<close>: how waf finds and runs a program (\<open>./waf --run\<close>, \<open>--pyrun\<close>, \<open>--command-template\<close>,
  \<open>--valgrind\<close>).

  The objects of waf that the functions read are a record \<open>waf\<close>.  Starting a process is the parameter
  \<open>popen\<close>: for arguments, environment and directory it gives the text of the operating system's
  error, or the lines on the error stream and the exit status.  \<open>WafError\<close> is \<open>waf_error\<close>.
\<close>

section \<open>Text of values\<close>

definition repr_digit :: "nat \<Rightarrow> char" where
  "repr_digit d = ''0123456789abcdef'' ! d"

definition repr_char :: "char \<Rightarrow> char \<Rightarrow> string" where
  "repr_char q c =
     (let n = (of_char c :: nat)
      in if c = q \<or> c = backslash then [backslash, c]
         else if n = 10 then [backslash, CHR ''n''] else if n = 9 then [backslash, CHR ''t'']
         else if n = 13 then [backslash, CHR ''r'']
         else if n < 32 \<or> 127 \<le> n then [backslash, CHR ''x'', repr_digit (n div 16), repr_digit (n mod 16)]
         else [c])"

definition repr_str :: "string \<Rightarrow> string" where
  "repr_str s =
     (let q = (if CHR 0x27 \<in> set s \<and> CHR 0x22 \<notin> set s then CHR 0x22 else CHR 0x27)
      in [q] @ concat (map (repr_char q) s) @ [q])"

definition repr_list :: "string list \<Rightarrow> string" where
  "repr_list xs = ''['' @ py_join '', '' (map repr_str xs) @ '']''"

definition waf_error :: "string \<Rightarrow> exn" where
  "waf_error msg = Exception (''WafError: '' @ msg)"

text \<open>
  \<open>template % args\<close> with strings as arguments: flags, width, precision and length modifier, then the
  conversion.  A number is required by all conversions but \<open>s\<close>, \<open>r\<close>, \<open>c\<close> and \<open>%\<close>.
\<close>

definition fmt_pad :: "string \<Rightarrow> string \<Rightarrow> string \<Rightarrow> string" where
  "fmt_pad flags width s =
     (let n = (case parse_digits False 0 width of None \<Rightarrow> 0 | Some n \<Rightarrow> n);
          sp = replicate (n - length s) (CHR '' '')
      in if CHR ''-'' \<in> set flags then s @ sp else sp @ s)"

definition fmt_cut :: "string option \<Rightarrow> string \<Rightarrow> string" where
  "fmt_cut prec s =
     (case prec of None \<Rightarrow> s
      | Some d \<Rightarrow> take (case parse_digits False 0 d of None \<Rightarrow> 0 | Some n \<Rightarrow> n) s)"

definition fmt_value :: "char \<Rightarrow> string option \<Rightarrow> string \<Rightarrow> string res" where
  "fmt_value c prec a =
     (if c = CHR ''s'' then Inr (fmt_cut prec a)
      else if c = CHR ''r'' then Inr (fmt_cut prec (repr_str a))
      else if c = CHR ''c'' then (if length a = 1 then Inr a else Inl TypeError)
      else if c \<in> set ''diouxXeEfFgG*('' then Inl TypeError
      else Inl (ValueError ''unsupported format character''))"

definition fmt_precision :: "string \<Rightarrow> string option \<times> string" where
  "fmt_precision s =
     (case s of c # x \<Rightarrow> if c = CHR ''.'' then (Some (takeWhile is_digit x), dropWhile is_digit x) else (None, s)
      | [] \<Rightarrow> (None, s))"

definition fmt_modifier :: "string \<Rightarrow> string" where
  "fmt_modifier s = (case s of c # x \<Rightarrow> if c \<in> {CHR ''h'', CHR ''l'', CHR ''L''} then x else s | [] \<Rightarrow> s)"

definition fmt_spec :: "string \<Rightarrow> string \<times> string \<times> string option \<times> string" where
  "fmt_spec s =
     (let r = dropWhile (\<lambda>c. c \<in> set ''#0- +'') s; (prec, r') = fmt_precision (dropWhile is_digit r)
      in (takeWhile (\<lambda>c. c \<in> set ''#0- +'') s, takeWhile is_digit r, prec, fmt_modifier r'))"

lemma fmt_spec_shorter: "fmt_spec s = (f, w, p, c # r) \<Longrightarrow> length r < length s"
proof -
  assume a: "fmt_spec s = (f, w, p, c # r)"
  let ?r = "dropWhile is_digit (dropWhile (\<lambda>c. c \<in> set ''#0- +'') s)"
  have 1: "length ?r \<le> length s"
    by (metis length_dropWhile_le order_trans)
  have 2: "length (snd (fmt_precision t)) \<le> length t" for t
    using length_dropWhile_le [of is_digit] by (auto simp: fmt_precision_def le_SucI split: list.split)
  have 3: "length (fmt_modifier t) \<le> length t" for t
    by (auto simp: fmt_modifier_def split: list.split)
  have "c # r = fmt_modifier (snd (fmt_precision ?r))"
    using a by (auto simp: fmt_spec_def Let_def split: prod.splits)
  then have "Suc (length r) \<le> length (snd (fmt_precision ?r))" using 3 [of "snd (fmt_precision ?r)"] by (metis length_Cons)
  with 1 2 [of ?r] show ?thesis by linarith
qed

function percent_fill :: "string \<Rightarrow> string list \<Rightarrow> string res" where
  "percent_fill [] args = (if args = [] then Inr [] else Inl TypeError)"
| "percent_fill (c # cs) args =
     (if c \<noteq> CHR ''%'' then bindE (percent_fill cs args) (\<lambda>r. Inr (c # r))
      else case fmt_spec cs of (flags, width, prec, rest) \<Rightarrow>
        (case rest of
           [] \<Rightarrow> Inl (ValueError ''incomplete format'')
         | d # ds \<Rightarrow>
             if d = CHR ''%'' then bindE (percent_fill ds args) (\<lambda>r. Inr (fmt_pad flags width ''%'' @ r))
             else case args of
                    [] \<Rightarrow> Inl TypeError
                  | a # as \<Rightarrow>
                      bindE (fmt_value d prec a) (\<lambda>v.
                      bindE (percent_fill ds as) (\<lambda>r. Inr (fmt_pad flags width v @ r)))))"
  by pat_completeness auto
termination
  by (relation "measure (\<lambda>(s, _). length s)") (auto dest!: fmt_spec_shorter sym [of _ "fmt_spec _"])

section \<open>Paths\<close>

fun shared_prefix :: "'a list \<Rightarrow> 'a list \<Rightarrow> 'a list" where
  "shared_prefix (x # xs) (y # ys) = (if x = y then x # shared_prefix xs ys else [])"
| "shared_prefix _ _ = []"

definition join_all :: "string list \<Rightarrow> string" where
  "join_all xs = foldl os_path_join (hd xs) (tl xs)"

text \<open>
  The replacement for \<open>os.path.relpath\<close> of old versions, and the function of the library, which
  ignores empty components; both on normalised absolute paths.
\<close>

definition up_and_down :: "string list \<Rightarrow> string list \<Rightarrow> string" where
  "up_and_down start path =
     (let i = length (shared_prefix start path);
          rel = replicate (length start - i) ''..'' @ drop i path
      in if rel = [] then ''.'' else join_all rel)"

definition own_relpath :: "string \<Rightarrow> string \<Rightarrow> string res" where
  "own_relpath path start =
     (if path = [] then Inl (ValueError ''no path specified'')
      else Inr (up_and_down (split_char (CHR ''/'') start) (split_char (CHR ''/'') path)))"

definition relpath :: "string \<Rightarrow> string \<Rightarrow> string res" where
  "relpath path start =
     (if path = [] then Inl (ValueError ''no path specified'')
      else Inr (up_and_down (filter (\<lambda>w. w \<noteq> []) (split_char (CHR ''/'') start))
                            (filter (\<lambda>w. w \<noteq> []) (split_char (CHR ''/'') path))))"

section \<open>The state of waf\<close>

record task_gen =
  is_ns3_program :: bool
  tg_name :: string
  tg_path :: string
  tg_build_path :: string
  tg_node :: string

record waf =
  sys_platform :: string
  os_environ :: "string \<Rightarrow> string option"
  module_path :: "string list"
  executable_path :: "string list"
  valgrind_program :: string
  python_program :: "string list"
  pymoddir :: string
  pyvizdir :: string
  all_task_gen :: "task_gen list"
  launch_dir :: string
  opt_template :: "string option"
  opt_valgrind :: bool
  opt_cwd :: string
  cwd_launch :: string

definition get_command_template :: "waf \<Rightarrow> string list \<Rightarrow> string" where
  "get_command_template bld args =
     foldl (\<lambda>cmd arg. cmd @ '' '' @ arg)
       (case opt_template bld of None \<Rightarrow> ''%s'' | Some t \<Rightarrow> if t = [] then ''%s'' else t) args"

section \<open>Finding a program\<close>

definition launchable :: "waf \<Rightarrow> task_gen \<Rightarrow> bool" where
  "launchable bld obj \<longleftrightarrow>
     is_ns3_program obj \<and>
     (has_prefix (launch_dir bld) (tg_path obj) \<or> has_prefix (launch_dir bld) (tg_build_path obj))"

definition names_of :: "waf \<Rightarrow> task_gen \<Rightarrow> string list res" where
  "names_of bld obj =
     bindE (relpath (tg_path obj) (launch_dir bld)) (\<lambda>r. Inr [tg_name obj, os_path_join r (tg_name obj)])"

fun find_loop :: "waf \<Rightarrow> string \<Rightarrow> task_gen list \<Rightarrow> string list \<Rightarrow> task_gen res" where
  "find_loop bld pname [] found =
     Inl (ValueError (''program '' @ [CHR 0x27] @ pname @ [CHR 0x27] @ '' not found; available programs are: '' @ repr_list found))"
| "find_loop bld pname (obj # objs) found =
     (if \<not> launchable bld obj then find_loop bld pname objs found
      else bindE (names_of bld obj) (\<lambda>names.
        if pname \<in> set names then Inr obj else find_loop bld pname objs (found @ names)))"

definition find_program :: "waf \<Rightarrow> string \<Rightarrow> task_gen res" where
  "find_program bld pname = find_loop bld pname (all_task_gen bld) []"

text \<open>A \<open>ValueError\<close> of \<open>find_program\<close> becomes a \<open>WafError\<close> with its text.\<close>

definition wanted_program :: "waf \<Rightarrow> string \<Rightarrow> task_gen res" where
  "wanted_program bld pname =
     (case find_program bld pname of Inl (ValueError msg) \<Rightarrow> Inl (waf_error msg) | r \<Rightarrow> r)"

definition get_run_program :: "waf \<Rightarrow> string \<Rightarrow> string option \<Rightarrow> (string \<times> string list) res" where
  "get_run_program bld program_string tmpl =
     (if tmpl \<in> {None, Some ''%s''}
      then bindE (shlex_split program_string) (\<lambda>pargs.
           bindE (py_index pargs 0) (\<lambda>pname.
           bindE (wanted_program bld pname) (\<lambda>obj. Inr (pname, tg_node obj # tl pargs))))
      else bindE (wanted_program bld program_string) (\<lambda>obj.
           bindE (percent_fill (the tmpl) [tg_node obj]) (\<lambda>s.
           bindE (shlex_split (py_replace [backslash] [backslash, backslash] s)) (\<lambda>execvec.
             Inr (program_string, execvec)))))"

section \<open>The environment of the process\<close>

definition library_variable :: "string \<Rightarrow> string" where
  "library_variable p =
     (if p = ''linux2'' then ''LD_LIBRARY_PATH''
      else if p = ''darwin'' then ''DYLD_LIBRARY_PATH''
      else if p = ''win32'' then ''PATH''
      else if p = ''cygwin'' then ''PATH''
      else if has_prefix ''freebsd'' p then ''LD_LIBRARY_PATH''
      else ''LD_LIBRARY_PATH'')"

definition path_sep :: "waf \<Rightarrow> string" where
  "path_sep bld = (if sys_platform bld = ''win32'' then '';'' else '':'')"

definition put_before :: "waf \<Rightarrow> string list \<Rightarrow> string \<Rightarrow> (string \<Rightarrow> string option) \<Rightarrow> (string \<Rightarrow> string option)" where
  "put_before bld dirs var penv =
     penv(var \<mapsto> py_join (path_sep bld) (dirs @ (case penv var of None \<Rightarrow> [] | Some old \<Rightarrow> [old])))"

definition get_proc_env :: "waf \<Rightarrow> (string \<Rightarrow> string option) option \<Rightarrow> (string \<Rightarrow> string option)" where
  "get_proc_env bld os_env =
     (let penv = os_environ bld ++ (case os_env of None \<Rightarrow> Map.empty | Some e \<Rightarrow> e);
          penv = put_before bld (module_path bld) (library_variable (sys_platform bld)) penv;
          penv = put_before bld [pymoddir bld, pyvizdir bld] ''PYTHONPATH'' penv
      in put_before bld (executable_path bld) ''PATH'' penv)"

section \<open>Running\<close>

type_synonym popen = "string list \<Rightarrow> (string \<Rightarrow> string option) \<Rightarrow> string option \<Rightarrow> string + (string list \<times> int)"

definition leak_line :: "string \<Rightarrow> bool" where
  "leak_line l \<longleftrightarrow> has_infix ''== LEAK SUMMARY'' l"

definition valgrind_argv :: "waf \<Rightarrow> string list \<Rightarrow> string list" where
  "valgrind_argv bld pargs =
     [valgrind_program bld, ''--leak-check=full'', ''--show-reachable=yes'', ''--error-exitcode=1''] @ pargs"

definition signal_name :: "(string \<times> int) list \<Rightarrow> int \<Rightarrow> string option" where
  "signal_name sigs retval =
     (if retval < 0
      then map_option fst (List.find (\<lambda>(n, v).
             3 < length n \<and> take 3 n = ''SIG'' \<and> n ! 3 \<noteq> CHR ''_'' \<and> v = - retval) sigs)
      else None)"

definition check_status :: "(string \<times> int) list \<Rightarrow> string list \<Rightarrow> int \<Rightarrow> int res" where
  "check_status sigs pargs retval =
     (if retval = 0 then Inr retval
      else case signal_name sigs retval of
             Some s \<Rightarrow>
               Inl (waf_error (''Command '' @ repr_list pargs @ '' terminated with signal '' @ s @
                 ''. Run it under a debugger to get more information (./waf --run <program> --command-template='' @
                 [CHR 0x22] @ ''gdb --args %s <args>'' @ [CHR 0x22] @ '').''))
           | None \<Rightarrow> Inl (waf_error (''Command '' @ repr_list pargs @ '' exited with code '' @ show_int retval)))"

text \<open>The lines written to the error stream of waf, and the result.\<close>

definition run_argv ::
  "popen \<Rightarrow> (string \<times> int) list \<Rightarrow> waf \<Rightarrow> string list \<Rightarrow> (string \<Rightarrow> string option) option \<Rightarrow> string option \<Rightarrow> bool \<Rightarrow>
   string list \<times> int res" where
  "run_argv popen sigs bld pargs os_env cwd force_no_valgrind =
     (let penv = get_proc_env bld os_env
      in if opt_valgrind bld \<and> \<not> force_no_valgrind then
           (if opt_template bld \<notin> {None, Some []} then
              ([], Inl (waf_error ''Options --command-template and --valgrind are conflicting''))
            else if valgrind_program bld = [] then ([], Inl (waf_error ''valgrind is not installed''))
            else let pargs = valgrind_argv bld pargs
                 in case popen pargs penv cwd of
                      Inl _ \<Rightarrow> ([], Inl OSError)
                    | Inr (errs, status) \<Rightarrow>
                        (errs, check_status sigs pargs (if status = 0 \<and> list_ex leak_line errs then 1 else status)))
         else
           case popen pargs penv cwd of
             Inl t \<Rightarrow>
               ([], Inl (if sys_platform bld = ''win32''
                         then waf_error (''Command '' @ repr_list pargs @ '' raised exception '' @ t) else OSError))
           | Inr (errs, status) \<Rightarrow> ([], check_status sigs pargs status))"

definition launch_cwd :: "waf \<Rightarrow> string" where
  "launch_cwd bld = (if opt_cwd bld \<noteq> [] then opt_cwd bld else cwd_launch bld)"

definition visual_arg :: "bool \<Rightarrow> string list" where
  "visual_arg visualize = (if visualize then [''--SimulatorImplementationType=ns3::VisualSimulatorImpl''] else [])"

definition run_program ::
  "popen \<Rightarrow> (string \<times> int) list \<Rightarrow> waf \<Rightarrow> string \<Rightarrow> string option \<Rightarrow> string option \<Rightarrow> bool \<Rightarrow> string list \<times> int res" where
  "run_program popen sigs bld program_string tmpl cwd visualize =
     (case get_run_program bld program_string tmpl of
        Inl e \<Rightarrow> ([], Inl e)
      | Inr (_, execvec) \<Rightarrow>
          run_argv popen sigs bld (execvec @ visual_arg visualize) None
            (Some (case cwd of None \<Rightarrow> launch_cwd bld | Some d \<Rightarrow> d)) False)"

definition run_python_program ::
  "popen \<Rightarrow> (string \<times> int) list \<Rightarrow> waf \<Rightarrow> string \<Rightarrow> bool \<Rightarrow> string list \<times> int res" where
  "run_python_program popen sigs bld program_string visualize =
     (case shlex_split program_string of
        Inl e \<Rightarrow> ([], Inl e)
      | Inr execvec \<Rightarrow>
          (case py_index (python_program bld) 0 of
             Inl e \<Rightarrow> ([], Inl e)
           | Inr py \<Rightarrow>
               run_argv popen sigs bld ([py] @ execvec @ visual_arg visualize) None (Some (launch_cwd bld)) False))"

section \<open>Which program is found\<close>

definition matches :: "waf \<Rightarrow> string \<Rightarrow> task_gen \<Rightarrow> bool" where
  "matches bld pname obj \<longleftrightarrow> launchable bld obj \<and> (case names_of bld obj of Inl _ \<Rightarrow> False | Inr ns \<Rightarrow> pname \<in> set ns)"

definition paths_named :: "waf \<Rightarrow> bool" where
  "paths_named bld \<longleftrightarrow> (\<forall>obj \<in> set (all_task_gen bld). tg_path obj \<noteq> [])"

lemma names_of_Inr: "tg_path obj \<noteq> [] \<Longrightarrow> \<exists>ns. names_of bld obj = Inr ns"
  by (simp add: names_of_def relpath_def)

lemma find_loop_iff:
  "\<forall>obj \<in> set objs. tg_path obj \<noteq> [] \<Longrightarrow>
     find_loop bld pname objs found = Inr obj \<longleftrightarrow> List.find (matches bld pname) objs = Some obj"
proof (induction objs arbitrary: found)
  case (Cons o1 objs)
  obtain ns where "names_of bld o1 = Inr ns" using names_of_Inr Cons.prems by fastforce
  with Cons show ?case by (simp add: matches_def)
qed simp

text \<open>The first launchable object with one of the two names is run.\<close>

theorem find_program_iff:
  assumes "paths_named bld"
  shows "find_program bld pname = Inr obj \<longleftrightarrow> List.find (matches bld pname) (all_task_gen bld) = Some obj"
  using assms find_loop_iff by (simp add: find_program_def paths_named_def)

section \<open>Templates\<close>

text \<open>The blank separated words of a text.\<close>

function blank_words :: "string \<Rightarrow> string list" where
  "blank_words s =
     (let t = dropWhile is_blank s
      in if t = [] then [] else takeWhile (\<lambda>c. \<not> is_blank c) t # blank_words (dropWhile (\<lambda>c. \<not> is_blank c) t))"
  by pat_completeness auto
termination
proof (relation "measure length", goal_cases)
  case (2 s t)
  then have "t \<noteq> []" by simp
  then obtain c r where t: "t = c # r" by (meson neq_Nil_conv)
  with 2 have "\<not> is_blank c" by (metis dropWhile_eq_Cons_conv)
  then have "length (dropWhile (\<lambda>c. \<not> is_blank c) t) \<le> length r"
    using length_dropWhile_le [of _ r] by (simp add: t)
  moreover have "length t \<le> length s" using 2 length_dropWhile_le [of is_blank s] by simp
  ultimately show ?case by (simp add: t)
qed simp

declare blank_words.simps [simp del]

definition unquoted :: "string \<Rightarrow> bool" where
  "unquoted s \<longleftrightarrow> list_all (\<lambda>c. \<not> is_quote c) s"

definition doubled_backslashes :: "string \<Rightarrow> string" where
  "doubled_backslashes s = concat (map (\<lambda>c. if c = backslash then [backslash, backslash] else [c]) s)"

lemma split_backslash: "split_str [backslash] s = split_char backslash s"
  by (induction s) (auto simp: has_prefix_def split: list.splits)

lemma py_join_Cons: "ws \<noteq> [] \<Longrightarrow> py_join sep (w # ws) = w @ sep @ py_join sep ws"
  by (cases ws) auto

lemma replace_backslash: "py_replace [backslash] [backslash, backslash] s = doubled_backslashes s"
  unfolding py_replace_def split_backslash
proof (induction s)
  case (Cons c s)
  obtain w ws where w: "split_char backslash s = w # ws" by (meson neq_Nil_conv split_char_ne)
  have "py_join sep ((c # w) # ws) = c # py_join sep (w # ws)" for sep by (cases ws) auto
  with Cons w show ?case by (simp add: doubled_backslashes_def py_join_Cons)
qed (simp add: doubled_backslashes_def)

lemma blank_words_blank: "is_blank c \<Longrightarrow> blank_words (c # s) = blank_words s"
  by (subst (1 2) blank_words.simps) simp

lemma blank_words_word: "\<not> is_blank c \<Longrightarrow>
    blank_words (c # s) = (c # takeWhile (\<lambda>c. \<not> is_blank c) s) # blank_words (dropWhile (\<lambda>c. \<not> is_blank c) s)"
  by (subst blank_words.simps) simp

lemma lex_doubled:
  "unquoted s \<Longrightarrow> lex Blank False [] (doubled_backslashes s) = Inr (blank_words s)"
  "unquoted s \<Longrightarrow> w \<noteq> [] \<Longrightarrow> lex Word False w (doubled_backslashes s) =
     Inr ((w @ takeWhile (\<lambda>c. \<not> is_blank c) s) # blank_words (dropWhile (\<lambda>c. \<not> is_blank c) s))"
proof (induction s arbitrary: w)
  case Nil
  {
    case 1
    show ?case by (simp add: doubled_backslashes_def emit_def blank_words.simps)
  next
    case 2
    then show ?case by (simp add: doubled_backslashes_def emit_def blank_words.simps)
  }
next
  case (Cons c s)
  have c: "\<not> is_quote c" "unquoted s" if "unquoted (c # s)" using that by (auto simp: unquoted_def)
  have b: "\<not> is_blank backslash" "\<not> is_quote backslash" by (auto simp: is_blank_def is_quote_def backslash_def)
  have d: "doubled_backslashes (c # s) =
      (if c = backslash then [backslash, backslash] else [c]) @ doubled_backslashes s"
    by (simp add: doubled_backslashes_def)
  {
    case 1
    show ?case
      using c [OF 1] b Cons.IH(1) Cons.IH(2) [of "[c]"]
      by (cases "is_blank c") (auto simp: d emit_def blank_words_blank blank_words_word)
  next
    case 2
    show ?case
      using c [OF 2(1)] b Cons.IH(1) Cons.IH(2) [of "w @ [c]"] 2(2)
      by (cases "is_blank c") (auto simp: d emit_def blank_words_blank)
  }
qed

lemma percent_plain: "CHR ''%'' \<notin> set s \<Longrightarrow> percent_fill (s @ t) args = bindE (percent_fill t args) (\<lambda>r. Inr (s @ r))"
proof (induction s)
  case Nil
  then show ?case by (cases "percent_fill t args") auto
next
  case (Cons c s)
  then show ?case by (cases "percent_fill t args") auto
qed

lemma percent_one:
  assumes "CHR ''%'' \<notin> set a" "CHR ''%'' \<notin> set b"
  shows "percent_fill (a @ ''%s'' @ b) [p] = Inr (a @ p @ b)"
proof -
  have "fmt_spec (CHR ''s'' # b) = ([], [], None, CHR ''s'' # b)"
    by (simp add: fmt_spec_def fmt_precision_def fmt_modifier_def is_digit_def Let_def)
  moreover have "percent_fill b [] = Inr b" using percent_plain [OF assms(2), of "[]" "[]"] by simp
  ultimately have "percent_fill (''%s'' @ b) [p] = Inr (p @ b)"
    by (simp add: fmt_value_def fmt_cut_def fmt_pad_def)
  then show ?thesis using percent_plain [OF assms(1), of "''%s'' @ b" "[p]"] by simp
qed

text \<open>
  With a template that has one \<open>%s\<close> and no quotes, the process that is started has as its arguments
  the blank separated words of the template with the path of the program in place of \<open>%s\<close>; backslashes
  of the path and of the template arrive unchanged.
\<close>

theorem template_words:
  assumes "CHR ''%'' \<notin> set a" and "CHR ''%'' \<notin> set b" and "a @ b \<noteq> []"
    and "find_program bld pname = Inr obj" and "unquoted (a @ tg_node obj @ b)"
  shows "get_run_program bld pname (Some (a @ ''%s'' @ b)) = Inr (pname, blank_words (a @ tg_node obj @ b))"
proof -
  have "a @ ''%s'' @ b \<noteq> ''%s''" using assms(3) by (cases a; cases b) (auto simp: append_eq_Cons_conv)
  moreover have "wanted_program bld pname = Inr obj" using assms(4) by (simp add: wanted_program_def)
  ultimately show ?thesis
    by (simp add: get_run_program_def percent_one [OF assms(1,2), simplified] shlex_split_def replace_backslash
        lex_doubled(1) [OF assms(5)] del: percent_fill.simps)
qed

definition demo_waf :: waf where
  "demo_waf =
     \<lparr>sys_platform = ''linux2'', os_environ = (\<lambda>v. if v = ''PATH'' then Some ''/usr/bin'' else None),
      module_path = [''/ns3/build''], executable_path = [''/ns3/build/utils''], valgrind_program = ''/usr/bin/valgrind'',
      python_program = [''/usr/bin/python''], pymoddir = ''/ns3/build/bindings/python'', pyvizdir = ''/ns3/src/visualizer'',
      all_task_gen =
        [\<lparr>is_ns3_program = False, tg_name = ''core'', tg_path = ''/ns3/src/core'', tg_build_path = ''/ns3/build/src/core'',
          tg_node = ''/ns3/build/libcore.so''\<rparr>,
         \<lparr>is_ns3_program = True, tg_name = ''third'', tg_path = ''/ns3/scratch'', tg_build_path = ''/ns3/build/scratch'',
          tg_node = ''/ns3/build/scratch/third''\<rparr>],
      launch_dir = ''/ns3'', opt_template = None, opt_valgrind = True, opt_cwd = [], cwd_launch = ''/ns3''\<rparr>"

lemma demo_found: "find_program demo_waf ''scratch/third'' = Inr (last (all_task_gen demo_waf))"
  by code_simp

lemma demo_node: "tg_node (last (all_task_gen demo_waf)) = ''/ns3/build/scratch/third''"
  by (simp add: demo_waf_def)

theorem template_words_witness:
  "get_run_program demo_waf ''scratch/third'' (Some (''gdb --args '' @ ''%s'' @ '' a'' @ [backslash] @ ''b'')) =
     Inr (''scratch/third'', [''gdb'', ''--args'', ''/ns3/build/scratch/third'', ''a'' @ [backslash] @ ''b''])"
proof -
  have "get_run_program demo_waf ''scratch/third'' (Some (''gdb --args '' @ ''%s'' @ ('' a'' @ [backslash] @ ''b''))) =
     Inr (''scratch/third'', blank_words (''gdb --args '' @ ''/ns3/build/scratch/third'' @ '' a'' @ [backslash] @ ''b''))"
    using template_words [OF _ _ _ demo_found, of "''gdb --args ''" "'' a'' @ [backslash] @ ''b''"]
    by (simp add: demo_node unquoted_def is_quote_def backslash_def)
  moreover have "blank_words (''gdb --args '' @ ''/ns3/build/scratch/third'' @ '' a'' @ [backslash] @ ''b'') =
      [''gdb'', ''--args'', ''/ns3/build/scratch/third'', ''a'' @ [backslash] @ ''b'']"
    by code_simp
  ultimately show ?thesis by simp
qed

text \<open>Inside single quotes a backslash arrives twice.\<close>

lemma quoted_backslash_doubled:
  "shlex_split (py_replace [backslash] [backslash, backslash] [CHR 0x27, CHR ''a'', backslash, CHR ''b'', CHR 0x27]) =
     Inr [[CHR ''a'', backslash, backslash, CHR ''b'']]"
  by code_simp

section \<open>The status\<close>

text \<open>
  C36. \<open>run_argv\<close> returns nothing but 0, and it returns exactly if the process could be started and ended
  with status 0 and, under valgrind (which excludes a command template and has to be installed), no
  line on its error stream reported a leak.  Everything else is an exception.
\<close>

theorem run_argv_returns:
  "snd (run_argv popen sigs bld pargs os_env cwd force) = Inr r \<longleftrightarrow>
    r = 0 \<and>
    (let v = opt_valgrind bld \<and> \<not> force
     in (v \<longrightarrow> opt_template bld \<in> {None, Some []} \<and> valgrind_program bld \<noteq> []) \<and>
        (\<exists>errs. popen (if v then valgrind_argv bld pargs else pargs) (get_proc_env bld os_env) cwd = Inr (errs, 0) \<and>
                (v \<longrightarrow> \<not> list_ex leak_line errs)))"
proof -
  have status: "check_status sigs xs s = Inr n \<longleftrightarrow> s = 0 \<and> n = 0" for xs s n
    by (auto simp: check_status_def split: option.splits)
  show ?thesis
    by (cases "popen (if opt_valgrind bld \<and> \<not> force then valgrind_argv bld pargs else pargs) (get_proc_env bld os_env) cwd")
      (auto simp: run_argv_def Let_def status split: if_splits)
qed

theorem run_argv_returns_witness:
  "snd (run_argv (\<lambda>_ _ _. Inr ([''==1== LEAK SUMMARY:''], 0)) [] demo_waf [''third''] None None True) = Inr 0 \<and>
   (\<forall>r. snd (run_argv (\<lambda>_ _ _. Inr ([''==1== LEAK SUMMARY:''], 0)) [] demo_waf [''third''] None None False) \<noteq> Inr r)"
proof -
  have "leak_line ''==1== LEAK SUMMARY:''" by code_simp
  then show ?thesis by (simp add: run_argv_returns Let_def demo_waf_def)
qed

text \<open>
  The two functions for relative paths agree below a directory; for the root the replacement goes one
  level up too many.  A directory whose name starts with the name of the launch directory counts as
  inside it.
\<close>

lemma relpath_examples:
  "own_relpath ''/a/b/c'' ''/a/d'' = Inr ''../b/c''" "relpath ''/a/b/c'' ''/a/d'' = Inr ''../b/c''"
  "own_relpath ''/a'' ''/'' = Inr ''../a''" "relpath ''/a'' ''/'' = Inr ''a''"
  "has_prefix ''/ns3/src'' ''/ns3/src-old/x''"
  by code_simp+

end
