(* ===== verification/ModuleGen.thy ===== *)
theory ModuleGen
  imports WafRun PyFloat
begin

text \<open>
  \<open>create-module.py\<close>: the skeleton of a new module of the simulator, made from templates.

  The templates are the texts of the script; in the lines of \<open>template_text\<close> the characters \<open>$\<close> and
  \<open>^\<close>, which they do not contain, stand for the double and the single quote.  The file system maps paths
  to folders and files; \<open>deny\<close> are the paths where the operating system refuses an operation.
\<close>

section \<open>Templates\<close>

definition template_char :: "char \<Rightarrow> char" where
  "template_char c = (if c = CHR ''$'' then CHR 0x22 else if c = CHR ''^'' then CHR 0x27 else c)"

definition template_text :: "string list \<Rightarrow> string" where
  "template_text ls = concat (map (\<lambda>l. map template_char l @ nl) ls)"

definition WSCRIPT_TEMPLATE :: string where
  "WSCRIPT_TEMPLATE = template_text
    [''# -*- Mode: python; py-indent-offset: 4; indent-tabs-mode: nil; coding: utf-8; -*-'',
     [],
     ''# def options(opt):'',
     ''#     pass'',
     [],
     ''# def configure(conf):'',
     ''#     conf.check_nonfatal(header_name=^stdint.h^, define_name=^HAVE_STDINT_H^)'',
     [],
     ''def build(bld):'',
     ''    module = bld.create_ns3_module(%(MODULE)r, [^core^])'',
     ''    module.source = ['',
     ''        ^model/%(MODULE)s.cc^,'',
     ''        ^helper/%(MODULE)s-helper.cc^,'',
     ''        ]'',
     [],
     ''    module_test = bld.create_ns3_module_test_library(^%(MODULE)s^)'',
     ''    module_test.source = ['',
     ''        ^test/%(MODULE)s-test-suite.cc^,'',
     ''        ]'',
     [],
     ''    headers = bld.new_task_gen(features=[^ns3header^])'',
     ''    headers.module = %(MODULE)r'',
     ''    headers.source = ['',
     ''        ^model/%(MODULE)s.h^,'',
     ''        ^helper/%(MODULE)s-helper.h^,'',
     ''        ]'',
     [],
     ''    if bld.env.ENABLE_EXAMPLES:'',
     ''        bld.add_subdirs(^examples^)'',
     [],
     ''    # bld.ns3_python_bindings()'',
     []]"

definition MODEL_CC_TEMPLATE :: string where
  "MODEL_CC_TEMPLATE = template_text
    [''/* -*- Mode:C++; c-file-style:$gnu$; indent-tabs-mode:nil; -*- */'',
     [],
     ''#include $%(MODULE)s.h$'',
     [],
     ''namespace ns3 {'',
     [],
     ''/* ... */'',
     [],
     [],
     ''}'',
     []]"

definition MODEL_H_TEMPLATE :: string where
  "MODEL_H_TEMPLATE = template_text
    [''/* -*- Mode:C++; c-file-style:$gnu$; indent-tabs-mode:nil; -*- */'',
     ''#ifndef %(INCLUDE_GUARD)s'',
     ''#define %(INCLUDE_GUARD)s'',
     [],
     ''namespace ns3 {'',
     [],
     ''/* ... */'',
     [],
     ''}'',
     [],
     ''#endif /* %(INCLUDE_GUARD)s */'',
     []]"

definition HELPER_CC_TEMPLATE :: string where
  "HELPER_CC_TEMPLATE = template_text
    [''/* -*- Mode:C++; c-file-style:$gnu$; indent-tabs-mode:nil; -*- */'',
     [],
     ''#include $%(MODULE)s-helper.h$'',
     [],
     ''namespace ns3 {'',
     [],
     ''/* ... */'',
     [],
     [],
     ''}'',
     []]"

definition HELPER_H_TEMPLATE :: string where
  "HELPER_H_TEMPLATE = template_text
    [''/* -*- Mode:C++; c-file-style:$gnu$; indent-tabs-mode:nil; -*- */'',
     ''#ifndef %(INCLUDE_GUARD)s'',
     ''#define %(INCLUDE_GUARD)s'',
     [],
     ''#include $ns3/%(MODULE)s.h$'',
     [],
     ''namespace ns3 {'',
     [],
     ''/* ... */'',
     [],
     ''}'',
     [],
     ''#endif /* %(INCLUDE_GUARD)s */'',
     []]"

definition EXAMPLES_WSCRIPT_TEMPLATE :: string where
  "EXAMPLES_WSCRIPT_TEMPLATE = template_text
    [''# -*- Mode: python; py-indent-offset: 4; indent-tabs-mode: nil; coding: utf-8; -*-'',
     [],
     ''def build(bld):'',
     ''    obj = bld.create_ns3_program(^%(MODULE)s-example^, [%(MODULE)r])'',
     ''    obj.source = ^%(MODULE)s-example.cc^'',
     []]"

definition EXAMPLE_CC_TEMPLATE :: string where
  "EXAMPLE_CC_TEMPLATE = template_text
    [''/* -*- Mode:C++; c-file-style:$gnu$; indent-tabs-mode:nil; -*- */'',
     [],
     ''#include $ns3/core-module.h$'',
     ''#include $ns3/%(MODULE)s-helper.h$'',
     [],
     ''using namespace ns3;'',
     [],
     [],
     ''int '',
     ''main (int argc, char *argv[])'',
     ''{'',
     ''  bool verbose = true;'',
     [],
     ''  CommandLine cmd;'',
     ''  cmd.AddValue ($verbose$, $Tell application to log if true$, verbose);'',
     [],
     ''  cmd.Parse (argc,argv);'',
     [],
     ''  /* ... */'',
     [],
     ''  Simulator::Run ();'',
     ''  Simulator::Destroy ();'',
     ''  return 0;'',
     ''}'',
     [],
     []]"

definition TEST_CC_TEMPLATE :: string where
  "TEST_CC_TEMPLATE = template_text
    [''/* -*- Mode:C++; c-file-style:$gnu$; indent-tabs-mode:nil; -*- */'',
     [],
     ''// Include a header file from your module to test.'',
     ''#include $ns3/%(MODULE)s.h$'',
     [],
     ''// An essential include is test.h'',
     ''#include $ns3/test.h$'',
     [],
     ''// Do not put your test classes in namespace ns3.  You may find it useful'',
     ''// to use the using directive to access the ns3 namespace directly'',
     ''using namespace ns3;'',
     [],
     ''// This is an example TestCase.'',
     ''class %(CAPITALIZED)sTestCase1 : public TestCase'',
     ''{'',
     ''public:'',
     ''  %(CAPITALIZED)sTestCase1 ();'',
     ''  virtual ~%(CAPITALIZED)sTestCase1 ();'',
     [],
     ''private:'',
     ''  virtual void DoRun (void);'',
     ''};'',
     [],
     ''// Add some help text to this case to describe what it is intended to test'',
     ''%(CAPITALIZED)sTestCase1::%(CAPITALIZED)sTestCase1 ()'',
     ''  : TestCase ($%(CAPITALIZED)s test case (does nothing)$)'',
     ''{'',
     ''}'',
     [],
     ''// This destructor does nothing but we include it as a reminder that'',
     ''// the test case should clean up after itself'',
     ''%(CAPITALIZED)sTestCase1::~%(CAPITALIZED)sTestCase1 ()'',
     ''{'',
     ''}'',
     [],
     ''//'',
     ''// This method is the pure virtual method from class TestCase that every'',
     ''// TestCase must implement'',
     ''//'',
     ''void'',
     ''%(CAPITALIZED)sTestCase1::DoRun (void)'',
     ''{'',
     ''  // A wide variety of test macros are available in src/core/test.h'',
     ''  NS_TEST_ASSERT_MSG_EQ (true, true, $true doesn^t equal true for some reason$);'',
     ''  // Use this one for floating point comparisons'',
     ''  NS_TEST_ASSERT_MSG_EQ_TOL (0.01, 0.01, 0.001, $Numbers are not equal within tolerance$);'',
     ''}'',
     [],
     ''// The TestSuite class names the TestSuite, identifies what type of TestSuite,'',
     ''// and enables the TestCases to be run.  Typically, only the constructor for'',
     ''// this class must be defined'',
     ''//'',
     ''class %(CAPITALIZED)sTestSuite : public TestSuite'',
     ''{'',
     ''public:'',
     ''  %(CAPITALIZED)sTestSuite ();'',
     ''};'',
     [],
     ''%(CAPITALIZED)sTestSuite::%(CAPITALIZED)sTestSuite ()'',
     ''  : TestSuite ($%(MODULE)s$, UNIT)'',
     ''{'',
     ''  AddTestCase (new %(CAPITALIZED)sTestCase1);'',
     ''}'',
     [],
     ''// Do not forget to allocate an instance of this TestSuite'',
     ''static %(CAPITALIZED)sTestSuite %(MODULE)sTestSuite;'',
     []]"

definition DOC_RST_TEMPLATE :: string where
  "DOC_RST_TEMPLATE = template_text
    [''Example Module Documentation'',
     ''----------------------------'',
     [],
     ''.. heading hierarchy:'',
     ''   ------------- Chapter'',
     ''   ************* Section (#.#)'',
     ''   ============= Subsection (#.#.#)'',
     ''   ############# Paragraph (no number)'',
     [],
     ''This is a suggested outline for adding new module documentation to ns-3.'',
     ''See ``src/click/doc/click.rst`` for an example.'',
     [],
     ''The introductory paragraph is for describing what this code is trying to'',
     ''model.'',
     [],
     ''Model Description'',
     ''*****************'',
     [],
     ''The source code for the new module lives in the directory ``src/%(MODULE)s``.'',
     [],
     ''Add here a basic description of what is being modeled.'',
     [],
     ''Design'',
     ''======'',
     [],
     ''Briefly describe the software design of the model and how it fits into '',
     ''the existing ns-3 architecture. '',
     [],
     ''Scope and Limitations'',
     ''====================='',
     [],
     ''What can the model do?  What can it not do?  Please use this section to'',
     ''describe the scope and limitations of the model.'',
     [],
     ''References'',
     ''=========='',
     [],
     ''Add academic citations here, such as if you published a paper on this'',
     ''model, or if readers should read a particular specification or other work.'',
     [],
     ''Usage'',
     ''*****'',
     [],
     ''This section is principally concerned with the usage of your model, using'',
     ''the public API.  Focus first on most common usage patterns, then go'',
     ''into more advanced topics.'',
     [],
     ''Building New Module'',
     ''==================='',
     [],
     ''Include this subsection only if there are special build instructions or'',
     ''platform limitations.'',
     [],
     ''Helpers'',
     ''======='',
     [],
     ''What helper API will users typically use?  Describe it here.'',
     [],
     ''Attributes'',
     ''=========='',
     [],
     ''What classes hold attributes, and what are the key ones worth mentioning?'',
     [],
     ''Output'',
     ''======'',
     [],
     ''What kind of data does the model generate?  What are the key trace'',
     ''sources?   What kind of logging output can be enabled?'',
     [],
     ''Advanced Usage'',
     ''=============='',
     [],
     ''Go into further details (such as using the API outside of the helpers)'',
     ''in additional sections, as needed.'',
     [],
     ''Examples'',
     ''========'',
     [],
     ''What examples using this new code are available?  Describe them here.'',
     [],
     ''Troubleshooting'',
     ''==============='',
     [],
     ''Add any tips for avoiding pitfalls, etc.'',
     [],
     ''Validation'',
     ''**********'',
     [],
     ''Describe how the model has been tested/validated.  What tests run in the'',
     ''test suite?  How much API and code is covered by the tests?  Again, '',
     ''references to outside published work may help here.'']"

section \<open>Filling a template\<close>

text \<open>\<open>template % d\<close> for a dictionary of strings and the conversions \<open>%(key)s\<close>, \<open>%(key)r\<close> and \<open>%%\<close>.\<close>

definition dict_value :: "char \<Rightarrow> string \<Rightarrow> string res" where
  "dict_value c v =
     (if c = CHR ''s'' then Inr v else if c = CHR ''r'' then Inr (repr_str v)
      else Inl (ValueError ''unsupported format character''))"

text \<open>What is behind a \<open>%\<close>: the key with its conversion, and the rest.\<close>

definition dict_spec :: "string \<Rightarrow> (string \<times> char \<times> string) option" where
  "dict_spec s =
     (case s of [] \<Rightarrow> None
      | c # cs \<Rightarrow>
          if c = CHR ''('' then
            (case drop 1 (dropWhile (\<lambda>c. c \<noteq> CHR '')'') cs) of
               [] \<Rightarrow> None
             | d # ds \<Rightarrow> Some (takeWhile (\<lambda>c. c \<noteq> CHR '')'') cs, d, ds))
          else None)"

lemma dict_spec_shorter: "dict_spec s = Some (k, d, ds) \<Longrightarrow> length ds < length s"
proof -
  assume a: "dict_spec s = Some (k, d, ds)"
  then obtain c cs where s: "s = c # cs" by (cases s) (auto simp: dict_spec_def)
  then have "drop 1 (dropWhile (\<lambda>c. c \<noteq> CHR '')'') cs) = d # ds"
    using a by (auto simp: dict_spec_def split: if_splits list.splits)
  from arg_cong [OF this, of length] show ?thesis
    using length_dropWhile_le [of "\<lambda>c. c \<noteq> CHR '')''" cs] by (simp add: s)
qed

function dict_fill :: "string \<Rightarrow> (string \<times> string) list \<Rightarrow> string res" where
  "dict_fill [] ents = Inr []"
| "dict_fill (c # cs) ents =
     (if c \<noteq> CHR ''%'' then bindE (dict_fill cs ents) (\<lambda>r. Inr (c # r))
      else if has_prefix ''%'' cs then bindE (dict_fill (tl cs) ents) (\<lambda>r. Inr (CHR ''%'' # r))
      else case dict_spec cs of
             None \<Rightarrow> Inl (ValueError ''incomplete format'')
           | Some (k, d, ds) \<Rightarrow>
               bindE (of_option (KeyError k) (map_of ents k)) (\<lambda>v.
               bindE (dict_value d v) (\<lambda>t.
               bindE (dict_fill ds ents) (\<lambda>r. Inr (t @ r)))))"
  by pat_completeness auto
termination
  by (relation "measure (\<lambda>(s, _). length s)") (auto dest!: dict_spec_shorter)

declare dict_fill.simps(2) [simp del]

definition ascii_upper :: "char \<Rightarrow> char" where
  "ascii_upper c = (let n = (of_char c :: nat) in if 97 \<le> n \<and> n \<le> 122 then char_of (n - 32) else c)"

definition py_upper :: "string \<Rightarrow> string" where
  "py_upper s = map ascii_upper s"

definition py_capitalize :: "string \<Rightarrow> string" where
  "py_capitalize s = (case s of [] \<Rightarrow> [] | c # cs \<Rightarrow> ascii_upper c # map to_lower cs)"

definition guard_name :: "string \<Rightarrow> string \<Rightarrow> string" where
  "guard_name m suffix = ''__'' @ py_upper m @ suffix"

definition env_module :: "string \<Rightarrow> (string \<times> string) list" where
  "env_module m = [(''MODULE'', m)]"

definition env_guard :: "string \<Rightarrow> string \<Rightarrow> (string \<times> string) list" where
  "env_guard m suffix = [(''MODULE'', m), (''INCLUDE_GUARD'', guard_name m suffix)]"

definition env_test :: "string \<Rightarrow> (string \<times> string) list" where
  "env_test m = [(''MODULE'', m), (''CAPITALIZED'', py_capitalize m)]"

section \<open>Folders and files\<close>

datatype fs_node = Folder | Content string

type_synonym file_tree = "string \<Rightarrow> fs_node option"

definition parent_path :: "string \<Rightarrow> string" where
  "parent_path p =
     (let h = rev (dropWhile (\<lambda>c. c \<noteq> CHR ''/'') (rev p)); s = rev (dropWhile (\<lambda>c. c = CHR ''/'') (rev h))
      in if s = [] then h else s)"

definition parent_ok :: "file_tree \<Rightarrow> string \<Rightarrow> bool" where
  "parent_ok fs p \<longleftrightarrow> parent_path p = [] \<or> fs (parent_path p) = Some Folder"

datatype make_step = Make_Dir string | Write_File string string "(string \<times> string) list"

fun do_make :: "(string \<Rightarrow> bool) \<Rightarrow> make_step \<Rightarrow> file_tree \<Rightarrow> file_tree \<times> unit res" where
  "do_make deny (Make_Dir p) fs =
     (if p = [] \<or> deny p \<or> fs p \<noteq> None \<or> \<not> parent_ok fs p then (fs, Inl OSError) else (fs(p \<mapsto> Folder), Inr ()))"
| "do_make deny (Write_File p t ents) fs =
     (if p = [] \<or> deny p \<or> fs p = Some Folder \<or> \<not> parent_ok fs p then (fs, Inl OSError)
      else case dict_fill t ents of
             Inl e \<Rightarrow> (fs(p \<mapsto> Content []), Inl e)
           | Inr s \<Rightarrow> (fs(p \<mapsto> Content s), Inr ()))"

fun make_all :: "(string \<Rightarrow> bool) \<Rightarrow> make_step list \<Rightarrow> file_tree \<Rightarrow> file_tree \<times> unit res" where
  "make_all deny [] fs = (fs, Inr ())"
| "make_all deny (s # ss) fs =
     (case do_make deny s fs of (fs', Inl e) \<Rightarrow> (fs', Inl e) | (fs', Inr _) \<Rightarrow> make_all deny ss fs')"

section \<open>The script\<close>

definition create_steps :: "string \<Rightarrow> string \<Rightarrow> make_step list" where
  "create_steps d m =
     [Make_Dir d,
      Write_File (os_path_join d ''wscript'') WSCRIPT_TEMPLATE (env_module m),
      Make_Dir (os_path_join d ''model''),
      Write_File (os_path_join (os_path_join d ''model'') (m @ ''.cc'')) MODEL_CC_TEMPLATE (env_module m),
      Write_File (os_path_join (os_path_join d ''model'') (m @ ''.h'')) MODEL_H_TEMPLATE (env_guard m ''_H__''),
      Make_Dir (os_path_join d ''test''),
      Write_File (os_path_join (os_path_join d ''test'') (m @ ''-test-suite.cc'')) TEST_CC_TEMPLATE (env_test m),
      Make_Dir (os_path_join d ''helper''),
      Write_File (os_path_join (os_path_join d ''helper'') (m @ ''-helper.cc'')) HELPER_CC_TEMPLATE (env_module m),
      Write_File (os_path_join (os_path_join d ''helper'') (m @ ''-helper.h'')) HELPER_H_TEMPLATE (env_guard m ''_HELPER_H__''),
      Make_Dir (os_path_join d ''examples''),
      Write_File (os_path_join (os_path_join d ''examples'') ''wscript'') EXAMPLES_WSCRIPT_TEMPLATE (env_module m),
      Write_File (os_path_join (os_path_join d ''examples'') (m @ ''-example.cc'')) EXAMPLE_CC_TEMPLATE (env_module m),
      Make_Dir (os_path_join d ''doc''),
      Write_File (os_path_join (os_path_join d ''doc'') (m @ ''.rst'')) DOC_RST_TEMPLATE (env_module m)]"

text \<open>
  \<open>OptionParser\<close> without options of its own: only \<open>-h\<close> and \<open>--help\<close> (or an abbreviation of it), which
  exit with 0; other options exit with 2.
\<close>

fun opt_parse :: "string list \<Rightarrow> int + string list" where
  "opt_parse [] = Inr []"
| "opt_parse (a # as) =
     (if a = ''--'' then Inr as
      else if has_prefix ''--'' a then
        Inl (if 2 < length a \<and> has_prefix a ''--help'' then 0 else 2)
      else if has_prefix ''-'' a \<and> 1 < length a then Inl (if a ! 1 = CHR ''h'' then 0 else 2)
      else case opt_parse as of Inl n \<Rightarrow> Inl n | Inr args \<Rightarrow> Inr (a # args))"

definition path_exists :: "file_tree \<Rightarrow> string \<Rightarrow> string \<Rightarrow> bool" where
  "path_exists fs here m \<longleftrightarrow>
     (if m = [] then here \<noteq> [] else m \<in> {''.'', ''..''} \<or> fs (os_path_join here m) \<noteq> None)"

definition create_module :: "(string \<Rightarrow> bool) \<Rightarrow> string \<Rightarrow> string list \<Rightarrow> file_tree \<Rightarrow> file_tree \<times> int res" where
  "create_module deny here args fs =
     (case opt_parse args of
        Inl n \<Rightarrow> (fs, Inl (SystemExit n))
      | Inr [m] \<Rightarrow>
          if CHR ''/'' \<in> set m then (fs, Inl AssertionError)
          else if path_exists fs here m then (fs, Inr 2)
          else (case make_all deny (create_steps (os_path_join here m) m) fs of
                  (fs', Inl e) \<Rightarrow> (fs', Inl e)
                | (fs', Inr _) \<Rightarrow> (fs', Inr 0))
      | _ \<Rightarrow> (fs, Inr 1))"

section \<open>All templates can be filled\<close>

lemma dict_spec_append: "dict_spec s = Some (k, d, ds) \<Longrightarrow> dict_spec (s @ t) = Some (k, d, ds @ t)"
proof -
  assume a: "dict_spec s = Some (k, d, ds)"
  then obtain cs where s: "s = CHR ''('' # cs" by (cases s) (auto simp: dict_spec_def split: if_splits)
  with a have dd: "drop 1 (dropWhile (\<lambda>c. c \<noteq> CHR '')'') cs) = d # ds" "k = takeWhile (\<lambda>c. c \<noteq> CHR '')'') cs"
    by (auto simp: dict_spec_def split: list.splits)
  then obtain x where x: "dropWhile (\<lambda>c. c \<noteq> CHR '')'') cs = x # d # ds"
    by (cases "dropWhile (\<lambda>c. c \<noteq> CHR '')'') cs") auto
  then have "dropWhile (\<lambda>c. c \<noteq> CHR '')'') cs \<noteq> []" by simp
  then have "CHR '')'' \<in> set cs" by (simp add: dropWhile_eq_Nil_conv)
  with dd x show ?thesis by (auto simp: s dict_spec_def dropWhile_append1 takeWhile_append1)
qed

lemma prefix_one [simp]: "has_prefix [x] (y # ys) \<longleftrightarrow> x = y"
  by (auto simp: has_prefix_def)

lemma fill_append: "dict_fill a ents = Inr s \<Longrightarrow> dict_fill b ents = Inr t \<Longrightarrow> dict_fill (a @ b) ents = Inr (s @ t)"
proof (induction a ents arbitrary: s rule: dict_fill.induct)
  case (2 c cs ents)
  consider "c \<noteq> CHR ''%''" | "c = CHR ''%''" "has_prefix ''%'' cs" |
    k d ds where "c = CHR ''%''" "\<not> has_prefix ''%'' cs" "dict_spec cs = Some (k, d, ds)"
    using "2.prems"(1) by (auto simp: dict_fill.simps(2) split: if_splits option.splits)
  then show ?case
  proof cases
    case 1
    with 2 show ?thesis by (auto simp: dict_fill.simps(2) bindE_Inr_iff)
  next
    case c: 2
    then obtain r where "cs = CHR ''%'' # r" by (auto simp: has_prefix_iff)
    with c "2.IH"(2) "2.prems" show ?thesis by (auto simp: dict_fill.simps(2) bindE_Inr_iff)
  next
    case (3 k d ds)
    then have "\<not> has_prefix ''%'' (cs @ b)" by (cases cs) (auto simp: dict_spec_def has_prefix_iff)
    then show ?thesis using 3 dict_spec_append [OF 3(3), of b] "2.IH"(3) "2.prems"
      by (auto simp: dict_fill.simps(2) bindE_Inr_iff)
  qed
qed simp

definition line_fills :: "(string \<times> string) list \<Rightarrow> string \<Rightarrow> bool" where
  "line_fills ents l \<longleftrightarrow> (\<exists>s. dict_fill (map template_char l) ents = Inr s)"

lemma fill_plain: "list_all (\<lambda>c. c \<noteq> CHR ''%'') s \<Longrightarrow> dict_fill s ents = Inr s"
  by (induction s) (simp_all add: dict_fill.simps(2))

lemma line_plain: "list_all (\<lambda>c. c \<noteq> CHR ''%'') l \<Longrightarrow> line_fills ents l"
proof -
  assume "list_all (\<lambda>c. c \<noteq> CHR ''%'') l"
  then have "list_all (\<lambda>c. c \<noteq> CHR ''%'') (map template_char l)"
    by (induction l) (auto simp: template_char_def)
  from fill_plain [OF this] show ?thesis unfolding line_fills_def by blast
qed

lemma fill_lines: "list_all (line_fills ents) ls \<Longrightarrow> \<exists>s. dict_fill (template_text ls) ents = Inr s"
proof (induction ls)
  case (Cons l ls)
  then obtain s t where "dict_fill (map template_char l) ents = Inr s" "dict_fill (template_text ls) ents = Inr t"
    by (auto simp: line_fills_def)
  moreover have "dict_fill nl ents = Inr nl" by (rule fill_plain) (simp add: nl_def)
  ultimately have "dict_fill ((map template_char l @ nl) @ template_text ls) ents = Inr ((s @ nl) @ t)"
    by (intro fill_append)
  then show ?case by (auto simp: template_text_def)
qed (simp add: template_text_def)

lemmas place_simps = line_fills_def dict_fill.simps(2) dict_spec_def template_char_def dict_value_def has_prefix_def
  env_module_def env_guard_def env_test_def

lemma wscript_fills [simp]: "\<exists>s. dict_fill WSCRIPT_TEMPLATE (env_module m) = Inr s"
  unfolding WSCRIPT_TEMPLATE_def by (rule fill_lines) (simp add: line_plain; simp add: place_simps)

lemma model_cc_fills [simp]: "\<exists>s. dict_fill MODEL_CC_TEMPLATE (env_module m) = Inr s"
  unfolding MODEL_CC_TEMPLATE_def by (rule fill_lines) (simp add: line_plain; simp add: place_simps)

lemma model_h_fills [simp]: "\<exists>s. dict_fill MODEL_H_TEMPLATE (env_guard m g) = Inr s"
  unfolding MODEL_H_TEMPLATE_def by (rule fill_lines) (simp add: line_plain; simp add: place_simps)

lemma test_cc_fills [simp]: "\<exists>s. dict_fill TEST_CC_TEMPLATE (env_test m) = Inr s"
  unfolding TEST_CC_TEMPLATE_def by (rule fill_lines) (simp add: line_plain; simp add: place_simps)

lemma helper_cc_fills [simp]: "\<exists>s. dict_fill HELPER_CC_TEMPLATE (env_module m) = Inr s"
  unfolding HELPER_CC_TEMPLATE_def by (rule fill_lines) (simp add: line_plain; simp add: place_simps)

lemma helper_h_fills [simp]: "\<exists>s. dict_fill HELPER_H_TEMPLATE (env_guard m g) = Inr s"
  unfolding HELPER_H_TEMPLATE_def by (rule fill_lines) (simp add: line_plain; simp add: place_simps)

lemma examples_wscript_fills [simp]: "\<exists>s. dict_fill EXAMPLES_WSCRIPT_TEMPLATE (env_module m) = Inr s"
  unfolding EXAMPLES_WSCRIPT_TEMPLATE_def by (rule fill_lines) (simp add: line_plain; simp add: place_simps)

lemma example_cc_fills [simp]: "\<exists>s. dict_fill EXAMPLE_CC_TEMPLATE (env_module m) = Inr s"
  unfolding EXAMPLE_CC_TEMPLATE_def by (rule fill_lines) (simp add: line_plain; simp add: place_simps)

lemma doc_rst_fills [simp]: "\<exists>s. dict_fill DOC_RST_TEMPLATE (env_module m) = Inr s"
  unfolding DOC_RST_TEMPLATE_def by (rule fill_lines) (simp add: line_plain; simp add: place_simps)

section \<open>The new module\<close>

definition filled :: "string \<Rightarrow> (string \<times> string) list \<Rightarrow> fs_node" where
  "filled t ents = Content (case dict_fill t ents of Inl _ \<Rightarrow> [] | Inr s \<Rightarrow> s)"

definition module_tree :: "string \<Rightarrow> string \<Rightarrow> file_tree" where
  "module_tree d m = map_of (rev
     [(d, Folder),
      (d @ ''/wscript'', filled WSCRIPT_TEMPLATE (env_module m)),
      (d @ ''/model'', Folder),
      (d @ ''/model/'' @ m @ ''.cc'', filled MODEL_CC_TEMPLATE (env_module m)),
      (d @ ''/model/'' @ m @ ''.h'', filled MODEL_H_TEMPLATE (env_guard m ''_H__'')),
      (d @ ''/test'', Folder),
      (d @ ''/test/'' @ m @ ''-test-suite.cc'', filled TEST_CC_TEMPLATE (env_test m)),
      (d @ ''/helper'', Folder),
      (d @ ''/helper/'' @ m @ ''-helper.cc'', filled HELPER_CC_TEMPLATE (env_module m)),
      (d @ ''/helper/'' @ m @ ''-helper.h'', filled HELPER_H_TEMPLATE (env_guard m ''_HELPER_H__'')),
      (d @ ''/examples'', Folder),
      (d @ ''/examples/wscript'', filled EXAMPLES_WSCRIPT_TEMPLATE (env_module m)),
      (d @ ''/examples/'' @ m @ ''-example.cc'', filled EXAMPLE_CC_TEMPLATE (env_module m)),
      (d @ ''/doc'', Folder),
      (d @ ''/doc/'' @ m @ ''.rst'', filled DOC_RST_TEMPLATE (env_module m))])"

definition fresh_at :: "file_tree \<Rightarrow> string \<Rightarrow> bool" where
  "fresh_at fs d \<longleftrightarrow> fs d = None \<and> (\<forall>x. fs (d @ CHR ''/'' # x) = None)"

definition plain_dir :: "string \<Rightarrow> bool" where
  "plain_dir d \<longleftrightarrow> d \<noteq> [] \<and> last d \<noteq> CHR ''/''"

lemma join_plain: "plain_dir d \<Longrightarrow> hd x \<noteq> CHR ''/'' \<Longrightarrow> x \<noteq> [] \<Longrightarrow> os_path_join d x = d @ CHR ''/'' # x"
  by (cases x) (auto simp: plain_dir_def os_path_join_def)

lemma parent_of_join:
  assumes "plain_dir d" "CHR ''/'' \<notin> set x"
  shows "parent_path (d @ CHR ''/'' # x) = d"
proof -
  have r: "rev (d @ CHR ''/'' # x) = rev x @ CHR ''/'' # rev d" by simp
  have a: "dropWhile (\<lambda>c. c \<noteq> CHR ''/'') (rev x @ CHR ''/'' # rev d) = CHR ''/'' # rev d"
    using assms(2) by (subst dropWhile_append2) auto
  have b: "dropWhile (\<lambda>c. c = CHR ''/'') (CHR ''/'' # rev d) = rev d"
    using assms(1) by (cases d rule: rev_cases) (auto simp: plain_dir_def)
  have "d \<noteq> []" using assms(1) by (simp add: plain_dir_def)
  then show ?thesis unfolding parent_path_def Let_def r a rev_rev_ident b by simp
qed

lemma make_dir: "fs p = None \<Longrightarrow> parent_ok fs p \<Longrightarrow> p \<noteq> [] \<Longrightarrow> do_make (\<lambda>_. False) (Make_Dir p) fs = (fs(p \<mapsto> Folder), Inr ())"
  by simp

lemma make_file:
  "fs p \<noteq> Some Folder \<Longrightarrow> parent_ok fs p \<Longrightarrow> p \<noteq> [] \<Longrightarrow> \<exists>s. dict_fill t ents = Inr s \<Longrightarrow>
     do_make (\<lambda>_. False) (Write_File p t ents) fs = (fs(p \<mapsto> filled t ents), Inr ())"
  by (auto simp: filled_def)

lemma slash_dir: "plain_dir d \<Longrightarrow> x \<noteq> [] \<Longrightarrow> last x \<noteq> CHR ''/'' \<Longrightarrow> plain_dir (d @ x)"
  by (simp add: plain_dir_def)

lemma make_module:
  assumes d: "plain_dir d" and m: "m \<noteq> []" "CHR ''/'' \<notin> set m" and f: "fresh_at fs d" "parent_ok fs d"
  shows "make_all (\<lambda>_. False) (create_steps d m) fs = (fs ++ module_tree d m, Inr ())"
proof -
  have hd: "hd (m @ x) \<noteq> CHR ''/''" for x using m by (cases m) auto
  have j: "os_path_join d ''wscript'' = d @ ''/wscript''" "os_path_join d ''model'' = d @ ''/model''"
    "os_path_join d ''test'' = d @ ''/test''" "os_path_join d ''helper'' = d @ ''/helper''"
    "os_path_join d ''examples'' = d @ ''/examples''" "os_path_join d ''doc'' = d @ ''/doc''"
    using join_plain [OF d] by simp_all
  have sub: "plain_dir (d @ ''/model'')" "plain_dir (d @ ''/test'')" "plain_dir (d @ ''/helper'')"
    "plain_dir (d @ ''/examples'')" "plain_dir (d @ ''/doc'')"
    using slash_dir [OF d] by simp_all
  have jj: "os_path_join (d @ ''/model'') (m @ x) = d @ ''/model/'' @ m @ x"
    "os_path_join (d @ ''/test'') (m @ x) = d @ ''/test/'' @ m @ x"
    "os_path_join (d @ ''/helper'') (m @ x) = d @ ''/helper/'' @ m @ x"
    "os_path_join (d @ ''/examples'') (m @ x) = d @ ''/examples/'' @ m @ x"
    "os_path_join (d @ ''/doc'') (m @ x) = d @ ''/doc/'' @ m @ x"
    "os_path_join (d @ ''/examples'') ''wscript'' = d @ ''/examples/wscript''" for x
    using sub hd [of x] m(1) by (simp_all add: join_plain)
  have top: "parent_path (d @ CHR ''/'' # x) = d" if "CHR ''/'' \<notin> set x" for x
    using parent_of_join [OF d that] .
  have low: "parent_path (d @ ''/model/'' @ x) = d @ ''/model''" "parent_path (d @ ''/test/'' @ x) = d @ ''/test''"
    "parent_path (d @ ''/helper/'' @ x) = d @ ''/helper''" "parent_path (d @ ''/examples/'' @ x) = d @ ''/examples''"
    "parent_path (d @ ''/doc/'' @ x) = d @ ''/doc''" if "CHR ''/'' \<notin> set x" for x
    using parent_of_join [OF sub(1) that] parent_of_join [OF sub(2) that] parent_of_join [OF sub(3) that]
      parent_of_join [OF sub(4) that] parent_of_join [OF sub(5) that] by simp_all
  have lw: "parent_path (d @ ''/examples/wscript'') = d @ ''/examples''" using low(4) [of "''wscript''"] by simp
  have ok: "parent_ok g p" if "g (parent_path p) = Some Folder" for g p using that by (simp add: parent_ok_def)
  have fr: "fs d = None" "fs (d @ CHR ''/'' # x) = None" for x using f(1) by (simp_all add: fresh_at_def)
  show ?thesis
    unfolding create_steps_def j jj module_tree_def make_all.simps
    using d f(2) fr m
    by (simp add: make_dir make_file ok top low [simplified] lw [simplified] plain_dir_def del: do_make.simps)
qed

text \<open>
  C37. A call with the name of a module that does not exist returns 0 and makes exactly the six folders and
  nine files of a module, every file with the text of its template filled in for this name; nothing else
  changes.
\<close>

theorem module_created:
  assumes "m \<noteq> []" and "CHR ''/'' \<notin> set m" and "m \<notin> {''.'', ''..''}" and "hd m \<noteq> CHR ''-''"
    and "d = os_path_join here m" and "fresh_at fs d" and "parent_ok fs d"
  shows "create_module (\<lambda>_. False) here [m] fs = (fs ++ module_tree d m, Inr 0)"
proof -
  have "plain_dir d"
    using assms(1,2,5) by (cases m rule: rev_cases) (auto simp: os_path_join_def plain_dir_def split: if_splits)
  moreover have "opt_parse [m] = Inr [m]"
    using assms(1,4) by (cases m) (auto simp: has_prefix_def)
  moreover have "\<not> path_exists fs here m"
    using assms by (simp add: path_exists_def fresh_at_def)
  ultimately show ?thesis
    using make_module [of d m fs] assms by (simp add: create_module_def)
qed

theorem module_created_witness:
  "create_module (\<lambda>_. False) ''src'' [''demo''] [''src'' \<mapsto> Folder] =
     ([''src'' \<mapsto> Folder] ++ module_tree ''src/demo'' ''demo'', Inr 0)"
proof (rule module_created)
  show "parent_ok [''src'' \<mapsto> Folder] ''src/demo''"
    using parent_of_join [of "''src''" "''demo''"] by (simp add: parent_ok_def plain_dir_def)
qed (simp_all add: os_path_join_def has_prefix_def fresh_at_def)

section \<open>Interrupted creation\<close>

lemma make_keeps: "do_make deny s fs = (fs', r) \<Longrightarrow> fs p \<noteq> None \<Longrightarrow> fs' p \<noteq> None"
  by (cases s) (auto split: if_splits sum.splits)

lemma make_all_keeps: "make_all deny ss fs = (fs', r) \<Longrightarrow> fs p \<noteq> None \<Longrightarrow> fs' p \<noteq> None"
proof (induction ss arbitrary: fs)
  case (Cons s ss)
  obtain g q where g: "do_make deny s fs = (g, q)" by (cases "do_make deny s fs")
  with make_keeps [OF g Cons.prems(2)] Cons show ?case by (cases q) auto
qed simp

text \<open>
  A call that has changed anything, whether it returned or was ended by an exception, cannot be repeated:
  the next call with the same arguments returns 2 and changes nothing.  So a creation that failed half-way
  has to be cleaned up by hand.
\<close>

theorem creation_not_repeated:
  assumes "create_module deny here args fs = (fs', r)" and "fs' \<noteq> fs"
  shows "create_module deny' here args fs' = (fs', Inr 2)"
proof -
  obtain m where m: "opt_parse args = Inr [m]" "CHR ''/'' \<notin> set m"
    and steps: "\<exists>q. make_all deny (create_steps (os_path_join here m) m) fs = (fs', q)"
    using assms by (auto simp: create_module_def split: sum.splits list.splits if_splits prod.splits)
  let ?d = "os_path_join here m"
  obtain ss where "create_steps ?d m = Make_Dir ?d # ss" by (simp add: create_steps_def)
  with steps obtain q where q: "make_all deny (Make_Dir ?d # ss) fs = (fs', q)" by auto
  with assms(2) have d: "?d \<noteq> []" and run: "make_all deny ss (fs(?d \<mapsto> Folder)) = (fs', q)"
    by (auto split: if_splits)
  have "fs' ?d \<noteq> None" by (rule make_all_keeps [OF run]) simp
  moreover have "m = [] \<Longrightarrow> here \<noteq> []" using d by (auto simp: os_path_join_def has_prefix_def)
  ultimately have "path_exists fs' here m" by (simp add: path_exists_def)
  with m show ?thesis by (simp add: create_module_def)
qed

text \<open>A hyphen in the name, as in \<open>flow-monitor\<close>, ends up in the include guard and in the names of classes.\<close>

lemma hyphen_guard: "guard_name ''my-module'' ''_H__'' = ''__MY-MODULE_H__''" "py_capitalize ''my-module'' = ''My-module''"
  "py_capitalize ''myModule'' = ''Mymodule''"
  by code_simp+

end
