(* ===== verification/FlowBins.thy ===== *)
theory FlowBins
  imports CustomRand FlowMon FloatText
begin

text \<open>
  \<open>traffic_gen/flow_bins.py\<close>: the sizes at which a distribution of flow sizes is divided into bins, from
  the largest value down: one percent at a time, or half of the value where one percent is more than that.

  The script is written for Python 2: \<open>/\<close> divides integers, and \<open>None\<close> is less than every number.  The
  sizes are integers that floats represent exactly (truncated floats and their halves), so the
  conversion for \<open>getPercentileFromValue\<close> does not round.  The loop may not end; it is a
  \<open>partial_function (option)\<close>.
\<close>

section \<open>The script\<close>

definition bins_knot :: "string \<Rightarrow> knot res" where
  "bins_knot line =
     bindE (mapE (\<lambda>f. to_float2 (Some f)) (split_char (CHR '' '') (py_strip line))) (\<lambda>vs.
       case vs of
         [x, y] \<Rightarrow> Inr (x, y)
       | _ # _ # _ \<Rightarrow> Inl (ValueError ''too many values to unpack'')
       | _ \<Rightarrow> Inl (ValueError ''need more than 1 value to unpack''))"

text \<open>\<open>int(customRand.getValueFromPercentile(p))\<close>\<close>

definition int_value :: "custom_rand \<Rightarrow> pyfloat \<Rightarrow> int res" where
  "int_value self p =
     bindE (getValueFromPercentile self p) (\<lambda>v. bindE (of_option TypeError v) int_of_float)"

definition percentile_of :: "custom_rand \<Rightarrow> int \<Rightarrow> pyfloat option res" where
  "percentile_of self x = bindE (float_of_int x) (getPercentileFromValue self)"

definition negative :: "pyfloat option \<Rightarrow> bool" where
  "negative p \<longleftrightarrow> (case p of None \<Rightarrow> True | Some q \<Rightarrow> flt q (Fin 0))"

datatype bins_end = All_bins "int list" | Bad_percentile int "pyfloat option" "int list"

definition add_bin :: "int \<Rightarrow> int list \<Rightarrow> int list" where
  "add_bin x bins = (if bins = [] \<or> x \<noteq> last bins then bins @ [x] else bins)"

definition next_percent :: "pyfloat \<Rightarrow> pyfloat" where
  "next_percent p = (if flt (Fin 2) p then fsub p (Fin 1) else Fin 1)"

text \<open>The size and the percentile of the next round.\<close>

definition next_bin :: "custom_rand \<Rightarrow> int \<Rightarrow> pyfloat \<Rightarrow> (int \<times> pyfloat option) res" where
  "next_bin self x p =
     bindE (int_value self (next_percent p)) (\<lambda>x1.
       if x1 < x div 2 \<and> 1000 < x
       then bindE (percentile_of self (x div 2)) (\<lambda>q. Inr (x div 2, q))
       else Inr (x1, Some (next_percent p)))"

partial_function (option) bins_loop :: "custom_rand \<Rightarrow> int \<Rightarrow> pyfloat \<Rightarrow> int list \<Rightarrow> bins_end res option" where
  "bins_loop self v p bins =
     (if v \<le> 0 then Some (Inr (All_bins bins))
      else if \<not> flt (Fin 1) p then Some (Inr (All_bins (add_bin v bins)))
      else case next_bin self v p of
             Inl e \<Rightarrow> Some (Inl e)
           | Inr (v1, p1) \<Rightarrow>
               if negative p1 then Some (Inr (Bad_percentile v1 p1 (add_bin v bins)))
               else bins_loop self v1 (the p1) (add_bin v bins))"

definition all_bins :: "custom_rand \<Rightarrow> bins_end res option" where
  "all_bins self =
     (case int_value self (Fin 100) of Inl e \<Rightarrow> Some (Inl e) | Inr x \<Rightarrow> bins_loop self x (Fin 100) [])"

text \<open>Outside of the table the percentile is the integer \<open>-1\<close>, which is printed without a point.\<close>

definition off_table :: "custom_rand \<Rightarrow> pyfloat \<Rightarrow> bool" where
  "off_table self x \<longleftrightarrow>
     flt x (Fin 0) \<or> (case self_cdf self of Inr (p # ps) \<Rightarrow> flt (fst (last (p # ps))) x | _ \<Rightarrow> False)"

definition percent_text :: "custom_rand \<Rightarrow> int \<Rightarrow> pyfloat option \<Rightarrow> string" where
  "percent_text self x p =
     (case p of
        None \<Rightarrow> ''None''
      | Some v \<Rightarrow> if off_table self (Fin (of_int x)) then ''-1'' else py2_float_text v)"

definition repr_int2 :: "int \<Rightarrow> string" where
  "repr_int2 n = show_int n @ (if - (2 ^ 63) \<le> n \<and> n < 2 ^ 63 then [] else ''L'')"

fun print_bins :: "custom_rand \<Rightarrow> int list \<Rightarrow> mon_output" where
  "print_bins self [] = prints []"
| "print_bins self (x # xs) =
     (case percentile_of self x of
        Inl e \<Rightarrow> fails e
      | Inr p \<Rightarrow> and_then (prints (show_int x @ '' '' @ percent_text self x p @ nl)) (print_bins self xs))"

definition show_end :: "custom_rand \<Rightarrow> bins_end \<Rightarrow> mon_output" where
  "show_end self r =
     (case r of
        All_bins bins \<Rightarrow> print_bins self (sort bins)
      | Bad_percentile x p bins \<Rightarrow>
          and_then (prints (''error'' @ nl @ percent_text self x p @ '' ['' @ py_join '', '' (map repr_int2 bins) @ '']'' @ nl))
            (fails (SystemExit 0)))"

text \<open>\<open>None\<close>: the script does not end.  The argument is the text of the file, \<open>None\<close> if it cannot be opened.\<close>

definition flow_bins :: "string option \<Rightarrow> mon_output option" where
  "flow_bins file =
     (case file of
        None \<Rightarrow> Some (fails OSError)
      | Some s \<Rightarrow>
          (case bindE (mapE bins_knot (py_lines s)) (setCdf CustomRand_init) of
             Inl e \<Rightarrow> Some (fails e)
           | Inr (ok, self) \<Rightarrow>
               if \<not> ok then Some (and_then (prints (''Error: Not valid cdf'' @ nl)) (fails (SystemExit 0)))
               else map_option (\<lambda>r. case r of Inl e \<Rightarrow> fails e | Inr b \<Rightarrow> show_end self b) (all_bins self)))"

section \<open>The bins\<close>

definition good_bins :: "int list \<Rightarrow> bool" where
  "good_bins bins \<longleftrightarrow> (\<forall>x \<in> set bins. 0 < x) \<and> distinct_adj bins"

fun bins_of_end :: "bins_end \<Rightarrow> int list" where
  "bins_of_end (All_bins bins) = bins"
| "bins_of_end (Bad_percentile x p bins) = bins"

lemma good_add: "good_bins bins \<Longrightarrow> 0 < x \<Longrightarrow> good_bins (add_bin x bins)"
  by (auto simp: good_bins_def add_bin_def distinct_adj_append_iff)

lemma bins_loop_good:
  assumes "bins_loop self x p bins = Some r"
  shows "good_bins bins \<longrightarrow> (\<forall>b. r = Inr b \<longrightarrow> good_bins (bins_of_end b))"
proof (rule bins_loop.raw_induct [OF _ assms], goal_cases)
  case (1 loop self x p bins r)
  consider "x \<le> 0" | "0 < x" "\<not> flt (Fin 1) p" | e where "0 < x" "flt (Fin 1) p" "next_bin self x p = Inl e" |
    x1 p1 where "0 < x" "flt (Fin 1) p" "next_bin self x p = Inr (x1, p1)"
    by (cases "next_bin self x p") fastforce+
  then show ?case
  proof cases
    case (4 x1 p1)
    then have "0 < x" by simp
    show ?thesis
    proof (cases "negative p1")
      case True
      with 4 1(2) show ?thesis using good_add by auto
    next
      case False
      with 4 1(2) have "loop self x1 (the p1) (add_bin x bins) = Some r" by simp
      from 1(1) [OF this] show ?thesis using good_add [of bins x] \<open>0 < x\<close> by blast
    qed
  qed (use 1(2) good_add in auto)
qed

text \<open>Every size in the list is positive, and a size is not entered twice in a row.\<close>

theorem all_bins_good:
  assumes "all_bins self = Some (Inr b)" shows "good_bins (bins_of_end b)"
  using assms bins_loop_good [of self _ "Fin 100" "[]"]
  by (auto simp: all_bins_def good_bins_def split: sum.splits)

section \<open>Small distributions\<close>

text \<open>The value at \<open>k\<close> percent is at most 1000 (or its computation fails).\<close>

definition small_at :: "custom_rand \<Rightarrow> nat \<Rightarrow> bool" where
  "small_at self k \<longleftrightarrow> (case int_value self (Fin (of_nat k)) of Inl e \<Rightarrow> True | Inr x \<Rightarrow> x \<le> 1000)"

lemma next_percent_nat: "2 \<le> k \<Longrightarrow> k \<le> 100 \<Longrightarrow> next_percent (Fin (of_nat k)) = Fin (of_nat (k - 1))"
proof -
  assume k: "2 \<le> k" "k \<le> 100"
  show ?thesis
  proof (cases "k = 2")
    case False
    with k have "2 < k" by simp
    moreover have "(of_nat k - 1 :: rat) = of_int (int k - 1)" by simp
    then have "fround (of_nat k - 1) = Fin (of_int (int k - 1))"
      using k fround_int [of "int k - 1"] by simp
    moreover have "(of_int (int k - 1) :: rat) = of_nat (k - 1)" using k by (simp add: of_nat_diff)
    ultimately show ?thesis by (simp add: next_percent_def fsub_def)
  qed (simp add: next_percent_def)
qed

lemma bins_loop_small:
  assumes "1 \<le> k" "k \<le> 100" "x \<le> 1000" "\<forall>j. 1 \<le> j \<and> j < k \<longrightarrow> small_at self j"
  shows "\<exists>r. bins_loop self x (Fin (of_nat k)) bins = Some r"
  using assms
proof (induction k arbitrary: x bins)
  case (Suc k)
  show ?case
  proof (cases "x \<le> 0 \<or> k = 0")
    case True
    then show ?thesis by (subst bins_loop.simps) auto
  next
    case False
    then have k: "1 \<le> k" "k \<le> 100" using Suc.prems by auto
    have p: "next_percent (Fin (of_nat (Suc k))) = Fin (of_nat k)"
      using next_percent_nat [of "Suc k"] k Suc.prems(2) by simp
    show ?thesis
    proof (cases "int_value self (Fin (of_nat k))")
      case (Inl e)
      then have "next_bin self x (Fin (of_nat (Suc k))) = Inl e" unfolding next_bin_def p by simp
      then show ?thesis using False by (subst bins_loop.simps) (simp del: of_nat_Suc)
    next
      case (Inr x1)
      then have n: "next_bin self x (Fin (of_nat (Suc k))) = Inr (x1, Some (Fin (of_nat k)))"
        unfolding next_bin_def p using Suc.prems(3) by simp
      have "small_at self k" using Suc.prems(4) k by simp
      then have "x1 \<le> 1000" using Inr by (simp add: small_at_def)
      then obtain r where "bins_loop self x1 (Fin (of_nat k)) (add_bin x bins) = Some r"
        using Suc.IH [of x1 "add_bin x bins"] k Suc.prems(4) by auto
      then show ?thesis using False n
        by (subst bins_loop.simps) (auto simp: negative_def simp del: of_nat_Suc)
    qed
  qed
qed simp

text \<open>The script ends for every distribution whose values at the whole percents are at most 1000.\<close>

theorem all_bins_small:
  assumes "\<forall>k. 1 \<le> k \<and> k \<le> 100 \<longrightarrow> small_at self k"
  shows "\<exists>r. all_bins self = Some r"
proof (cases "int_value self (Fin 100)")
  case (Inr x)
  have "x \<le> 1000" using assms [rule_format, of 100] Inr by (simp add: small_at_def)
  then show ?thesis
    using bins_loop_small [of 100 x self "[]"] assms Inr by (simp add: all_bins_def)
qed (simp add: all_bins_def)

end
