(* ===== verification/Spec2Isabelle.thy ===== *)
theory Spec2Isabelle
  imports FatTopo RunDriver PlotData RadNum Topsort Cycles ShellCmd CheckStyle TestRunner RunRace GridMouse FlowRead ModuleGen FlowBins
begin

text \<open>
  Verification development of the Python tooling of \<open>conweave-ns3\<close> (the paths below are those of
  the repository).

  \<^bold>\<open>The program.\<close>  The repository evaluates load balancing in RDMA networks with a simulator written in
  C++.  An experiment goes through four stages of Python scripts that communicate by text files.
  \<open>config/fat_topology_gen.py\<close> writes a topology and \<open>traffic_gen/traffic_gen.py\<close> a list of flows;
  \<open>run.py\<close> checks its options against both, writes the configuration, starts the simulator and
  records the run in a manifest and in a history file; \<open>fctAnalysis.py\<close> and \<open>queueAnalysis.py\<close>, which
  \<open>run.py\<close> starts, turn the outputs into statistics; the scripts of \<open>analysis\<close> read the history and
  draw the figures.  Around them are the tools of ns-3: the bindings' sorting and utility functions
  (\<open>bindings/python\<close>), the test runner (\<open>test.py\<close>) with its settings files (\<open>utils.py\<close>), the command
  lines of the regression tests (\<open>waf-tools/shellcmd.py\<close>), the style check (\<open>utils/check-style.py\<close>), a
  viewer for traces (\<open>utils/grid.py\<close>), a report of the flow monitor's results
  (\<open>flowmon-parse-results.py\<close>), the start of programs from waf (\<open>wutils.py\<close>) and the maker of new modules
  (\<open>create-module.py\<close>).

  \<^bold>\<open>Conventions.\<close>  A computation that can raise has type \<open>'a res\<close>, a sum with the exception on the left
  (\<open>PyBase\<close>).  Python's integers are \<open>int\<close>; its floats are the datatype \<open>pyfloat\<close>, rationals with
  infinities and NaN and with every operation rounded to 53 bits (\<open>PyFloat\<close>), so that conversions,
  comparisons and truncations behave as in the program.  Strings are ASCII lists of characters, and
  the lines of a text file end with a line feed; neither a lone carriage return as the end of a line nor the
  limit of new Python versions on the digits that \<open>int\<close> reads is modelled.  A
  dictionary is an association list where its order is visible and a map where it is not.  Loops that
  may not end are \<open>partial_function (option)\<close> and \<open>None\<close> means that the code does not return; there is
  no fuel in the development.  What is outside of the repository (random numbers, the file system's
  answers, numpy, awk, the simulator, the operating system) is an argument of the definitions that
  use it.

  \<^bold>\<open>Theories.\<close>
  \<^item> \<open>PyBase\<close>, \<open>PyFloat\<close>: the prelude.  String methods and number formats with their round trips (locale
    \<open>field_codec\<close>), binary64 arithmetic (locale \<open>rounding\<close>), formatting and parsing of floats.
  \<^item> \<open>FatTopo\<close>: \<open>fat_topology_gen.py\<close>, one definition per loop.  The links are in range and distinct,
    every server has one uplink, every core reaches every pod once, all servers are connected.
  \<^item> \<open>CustomRand\<close>: the flow sizes of \<open>custom_rand.py\<close>: which tables \<open>testCdf\<close> accepts, and that the
    interpolation is total and in range in spite of rounding.
  \<^item> \<open>TrafficGen\<close>: \<open>traffic_gen.py\<close>, with the heap of pending hosts (locale \<open>pending_queue\<close>, interpreted on
    the functions of \<open>heapq\<close>) and the main loop: soundness of the flows, exactly when the
    loop does not return, and when the overwritten header is read back as the number of rows.
  \<^item> \<open>FlowBins\<close>: \<open>flow_bins.py\<close>, the division of a distribution into bins; \<open>FloatText\<close>: floats as \<open>%g\<close> and Python 2
    print them.
  \<^item> \<open>FlowFile\<close>: \<open>validate_flow_file\<close> of \<open>run.py\<close>: which files it accepts, which line it reports, and that
    it accepts what the generator writes.
  \<^item> \<open>RunArgs\<close>, \<open>RunChecks\<close>, \<open>RunConfig\<close>, \<open>RunMain\<close>, \<open>RunDriver\<close>: \<open>run.py\<close>.  Options and the schedule of
    flapping links; the checks in their order; the configuration template and its substitution,
    read back value by value; topology file, output directory, atomic writing of JSON, counting of
    finished flows; the whole \<open>main\<close> with the file system at every exception, so that the manifest is
    known on every path.
  \<^item> \<open>RunRace\<close>: several runs of \<open>run.py\<close> at once.  A step relation over the single calls of their
    reservations and manifest writes, with deaths at any point, and its invariant: directories are not
    shared and manifests are never mixed.
  \<^item> \<open>Stats\<close>, \<open>FctAnalysis\<close>, \<open>QueueAnalysis\<close>, \<open>PlotData\<close>: the distribution function, percentiles and size classes;
    the two analysis scripts; the data of the figures, with the history file and the sampling loop.
  \<^item> \<open>RadUtil\<close>, \<open>RadNum\<close>: \<open>rad_util.py\<close>, each function against its mathematical meaning.
  \<^item> \<open>Topsort\<close>, \<open>Cycles\<close>: \<open>topsort.py\<close>.  Topological order, levels by depth, and the completeness of the
    search of cycles; all loops are total functions with a measure.
  \<^item> \<open>ShellCmd\<close>: \<open>shellcmd.py\<close>.  The parser is a state machine with an invariant; the runner yields its
    actions on the operating system and refines an abstract evaluation.
  \<^item> \<open>CheckStyle\<close>: \<open>check-style.py\<close>.  Patches are written and read back; the removal of blank changes works on
    shared line objects, as the code does.
  \<^item> \<open>ConfigFiles\<close>: the settings files of \<open>utils.py\<close>.  \<open>XmlDoc\<close>, \<open>TestReport\<close>, \<open>TestJobs\<close>, \<open>TestPool\<close>, \<open>TestRunner\<close>:
    \<open>test.py\<close>.  An automaton that reads XML and the lemmas that put documents together; the two reports;
    the list of jobs; the worker threads as a step relation with their invariant (locale \<open>job_runner\<close>,
    interpreted on \<open>run_job\<close>); termination, verdict and reports of every run.
  \<^item> \<open>GridData\<close>, \<open>GridTrace\<close>, \<open>GridView\<close>, \<open>GridMouse\<close>: \<open>grid.py\<close>.  Lines of ranges and events with their
    searches and the reading of a trace (locale \<open>named_items\<close>, interpreted on the three kinds of named
    objects); what is held and selected, the bounds and the colours; layouts, scales, ticks and marks
    with Python's mixed int and float arithmetic; the mouse handlers as a state machine, with what
    every handler keeps.
  \<^item> \<open>XmlWrite\<close>, \<open>FlowMon\<close>, \<open>FlowReport\<close>, \<open>FlowXml\<close>, \<open>FlowRead\<close>: \<open>flowmon-parse-results.py\<close>.  The tree
    of a document with attributes; the script with its shared flow objects; the join it computes and
    the files it reports completely; the file that the C++ flow monitor writes (words for its counters,
    six digits for doubles) and what the script makes of it.
  \<^item> \<open>WafRun\<close>, \<open>ModuleGen\<close>: \<open>wutils.py\<close> and \<open>create-module.py\<close>.  How a program is found, its arguments
    from a template, its environment, and the status of its process; the templates of a new module, the
    folders and files that are made, also when this is interrupted.
  \<^item> This theory: properties that connect stages.  \<open>run.py\<close> accepts the topologies of the generator, and the
    analysis finds the outputs of its own run.

  \<^bold>\<open>Bounds.\<close>  Statements about floats of integers assume magnitudes below \<open>2 ^ 53\<close>, where conversion is
  exact; lists of samples are shorter than \<open>2 ^ 35\<close> where an index is computed in floats.  The
  theorems on termination state a value (\<open>\<exists>y. f x = Some y\<close>) or that there is none.

  \<^bold>\<open>Order of the work.\<close>  First the data that flows from the generators into \<open>run.py\<close> and through it to the analysis,
  then the tools.

  \<^bold>\<open>Not modelled.\<close>  The C++ simulator, apart from the file of its flow monitor; the generated bindings \<open>modulegen__gcc_*.py\<close>, which have no logic; the
  extensions of waf and the generator of the bindings, which consist of calls into libraries that are not in the
  repository; the graphical visualizer; the drawing part of the plot scripts and, apart from places of marks
  and ticks, of \<open>grid.py\<close>; \<open>timestamp\<close>, \<open>getmodule\<close>, \<open>pt2str\<close>
  and \<open>nice_units\<close> of \<open>rad_util.py\<close>; printing of progress and debugging messages.
\<close>


section \<open>The generated topology is accepted\<close>

lemma digit_not [simp]: "d < 10 \<Longrightarrow> digit_char d \<noteq> CHR '' ''" "d < 10 \<Longrightarrow> digit_char d \<noteq> CHR 0x0A"
  "d < 10 \<Longrightarrow> digit_char d \<noteq> CHR 0x0D" "d < 10 \<Longrightarrow> digit_char d \<noteq> CHR ''G''"
  using digit_char_props(1)[of d] by (auto simp: is_digit_def Let_def)

lemma show_nat_avoids [simp]:
  "CHR '' '' \<notin> set (show_nat n)" "CHR 0x0A \<notin> set (show_nat n)" "CHR 0x0D \<notin> set (show_nat n)"
  "CHR ''G'' \<notin> set (show_nat n)"
  using show_nat_digits digit_not by metis+

lemma dropWhile_rev_clean: "\<forall>c \<in> set s. \<not> P c \<Longrightarrow> dropWhile P (rev s) = rev s"
  by (cases s rule: rev_cases) auto

lemma rstrip_newlines_append:
  "\<forall>c \<in> set s. c \<noteq> CHR 0x0A \<and> c \<noteq> CHR 0x0D \<Longrightarrow> rstrip_newlines (s @ nl) = s \<and> rstrip_newlines s = s"
  by (simp add: rstrip_newlines_def nl_def dropWhile_rev_clean)

lemma split_str_tail: "CHR ''G'' \<notin> set w \<Longrightarrow> split_str ''Gbps'' (w @ ''Gbps'') = [w, []]"
  by (induction w) (auto simp: has_prefix_def)

lemma nl_is_ws: "is_ws (CHR 0x0A)"
  by (simp add: is_ws_def)

lemma py_strip_nl: "\<forall>c \<in> set w. \<not> is_ws c \<Longrightarrow> py_strip (w @ nl) = w"
  by (cases w) (auto simp: py_strip_def py_rstrip_def nl_def dropWhile_rev_clean[of "_ # _" is_ws, simplified] nl_is_ws)

lemma to_int_show_nat: "to_int (show_nat n) = Inr (int n)" "to_int (show_nat n @ nl) = Inr (int n)"
proof -
  have "py_int (show_nat n) = Some (int n)"
    using py_int_show_int[of "int n"] by (simp add: show_int_def)
  moreover have "py_int (show_nat n @ nl) = py_int (show_nat n)"
    by (simp add: py_int_def py_strip_nl py_strip_clean)
  ultimately show "to_int (show_nat n) = Inr (int n)" "to_int (show_nat n @ nl) = Inr (int n)"
    by (simp_all add: to_int_def)
qed

text \<open>The lines of the file: totals, switch ids, links.\<close>

lemma id_switch_line: "CHR 0x0A \<notin> set (rstrip_newlines (id_switch_all p))"
proof (cases "num_total_switch p")
  case 0
  then show ?thesis by (simp add: id_switch_all_def rstrip_newlines_def)
next
  case (Suc n)
  let ?s = "concat (map (\<lambda>i. show_nat (i + n_server_total p) @ '' '') [0..<n]) @ show_nat (n + n_server_total p)"
  have "concat (map (\<lambda>i. if i = n then show_nat (i + n_server_total p) @ nl else show_nat (i + n_server_total p) @ '' '') [0..<n])
      = concat (map (\<lambda>i. show_nat (i + n_server_total p) @ '' '') [0..<n])"
    by (rule arg_cong[where f = concat]) simp
  then have "id_switch_all p = ?s @ nl"
    using Suc by (simp add: id_switch_all_def)
  moreover have "CHR 0x0A \<notin> set ?s" "CHR 0x0D \<notin> set ?s" by auto
  then have "\<forall>c \<in> set ?s. c \<noteq> CHR 0x0A \<and> c \<noteq> CHR 0x0D" by metis
  ultimately show ?thesis using rstrip_newlines_append[of ?s] by auto
qed

lemma py_lines_topology:
  assumes "write_links p (all_links p) ([], 0) = (body, num_link)"
  shows "py_lines (topology_text p) =
     (show_nat (num_total_node p) @ '' '' @ show_nat (num_total_switch p) @ '' '' @ show_nat num_link @ nl) #
     (rstrip_newlines (id_switch_all p) @ nl) # map (link_line p) (all_links p)"
proof -
  let ?h = "show_nat (num_total_node p) @ '' '' @ show_nat (num_total_switch p) @ '' '' @ show_nat num_link"
  have h: "\<forall>c \<in> set ?h. c \<noteq> CHR 0x0A \<and> c \<noteq> CHR 0x0D" using show_nat_avoids by fastforce
  let ?l = "\<lambda>e. show_nat (fst e) @ '' '' @ show_nat (snd e) @ '' '' @ show_nat (link_rate p) @ ''Gbps '' @
     show_nat (link_latency p) @ ''ns 0.000000''"
  have l: "link_line p e = ?l e @ nl" for e by (simp add: link_line_def)
  have "\<forall>w \<in> set (map ?l (all_links p)). CHR 0x0A \<notin> set w" by simp
  from py_lines_concat[OF this] have body: "py_lines (concat (map (link_line p) (all_links p))) = map (link_line p) (all_links p)"
    unfolding map_map comp_def l[symmetric] .
  have b: "body = concat (map (link_line p) (all_links p))" using assms by (simp add: write_links_acc)
  have "topology_text p = ?h @ CHR 0x0A # (rstrip_newlines (id_switch_all p) @ CHR 0x0A # body)"
    using assms rstrip_newlines_append[OF h] by (simp add: topology_text_def line_prepender_def nl_def)
  then show ?thesis
    using h py_lines_line[OF id_switch_line] py_lines_line[of ?h] body b by simp
qed

lemma field_int_simps [simp]: "field_int (w # ws) 0 = to_int w" "field_int (w # ws) (Suc i) = field_int ws i"
  using py_index_nat[of i ws] by (simp_all add: field_int_def py_index_def nat_add_distrib)

lemma field_int_1: "field_int (w # v # ws) 1 = to_int v" "field_int (w # v # u # ws) 2 = to_int u"
  by (simp_all add: field_int_def py_index_def)

lemma header_fields:
  assumes "write_links p (all_links p) ([], 0) = (body, num_link)"
  shows "first_fields (topology_text p) =
    [show_nat (num_total_node p), show_nat (num_total_switch p), show_nat num_link @ nl]"
  by (simp add: first_fields_def py_lines_topology[OF assms] split_char_append split_char_no nl_def)

lemma check_link_line:
  assumes "u < v"
  shows "check_link (int n) b (link_line p (u, v)) = guardE AssertionError (u < n \<longrightarrow> int (link_rate p) = b)"
proof -
  have f: "split_char (CHR '' '') (link_line p (u, v)) =
      [show_nat u, show_nat v, show_nat (link_rate p) @ ''Gbps'', show_nat (link_latency p) @ ''ns'', ''0.000000'' @ nl]"
  proof -
    have eq: "link_line p (u, v) = show_nat u @ CHR '' '' # (show_nat v @ CHR '' '' #
       ((show_nat (link_rate p) @ ''Gbps'') @ CHR '' '' # ((show_nat (link_latency p) @ ''ns'') @ CHR '' '' # (''0.000000'' @ nl))))"
      by (simp add: link_line_def)
    have "CHR '' '' \<notin> set (show_nat (link_rate p) @ ''Gbps'')" "CHR '' '' \<notin> set (show_nat (link_latency p) @ ''ns'')"
      "CHR '' '' \<notin> set (''0.000000'' @ nl)" by (simp_all add: nl_def)
    then show ?thesis unfolding eq by (simp only: split_char_append split_char_no show_nat_avoids not_False_eq_True)
  qed
  have r: "py_replace ''Gbps'' [] (show_nat (link_rate p) @ ''Gbps'') = show_nat (link_rate p)"
    by (simp add: py_replace_def split_str_tail)
  show ?thesis using assms by (auto simp: check_link_def Let_def f r to_int_show_nat numeral_2_eq_2 field_int_1)
qed

lemma check_links_all:
  assumes "\<And>e. e \<in> set es \<Longrightarrow> check_link h b (f e) = guardE AssertionError (P e)" "i + int (length es) \<le> n"
  shows "check_links h b n i (map f es) = guardE AssertionError (\<forall>e \<in> set es. P e)"
  using assms
proof (induction es arbitrary: i)
  case (Cons e es)
  have IH: "check_links h b n (i + 1) (map f es) = guardE AssertionError (\<forall>e \<in> set es. P e)"
    using Cons.prems by (intro Cons.IH) auto
  show ?case using Cons.prems by (cases "P e") (simp_all add: IH)
qed simp

text \<open>
  C13. \<open>fat_topology_gen.py\<close> and \<open>run.py\<close> agree on the topology file. For every even \<open>k_fat\<close>,
  \<open>run.py\<close> reads from the generated file exactly \<open>n_server_total\<close> hosts, and its bandwidth check
  accepts the file if and only if the \<open>--bw\<close> it was given is the \<open>link_rate\<close> of the generator (any
  value passes when the network has no server).
\<close>

theorem generated_topology_accepted:
  assumes "even (k_fat p)"
  shows "sniff_hosts (topology_text p) = Inr (int (n_server_total p)) \<and>
    check_bandwidth (topology_text p) b =
      guardE AssertionError (n_server_total p = 0 \<or> b = int (link_rate p))"
proof -
  obtain body n where w: "write_links p (all_links p) ([], 0) = (body, n)" by fastforce
  have n: "n = length (all_links p)" using w by (simp add: write_links_acc)
  have nodes: "num_total_node p = n_server_total p + num_total_switch p"
    by (simp add: num_total_node_def num_total_switch_def)
  have sniff: "sniff_hosts (topology_text p) = Inr (int (n_server_total p))"
    by (simp add: sniff_hosts_def header_fields[OF w] to_int_show_nat nodes)
  obtain h where h: "k_fat p = 2 * h" using assms by (rule even_half)
  have "check_bandwidth (topology_text p) b
      = check_links (int (n_server_total p)) b (int n) 0 (map (link_line p) (all_links p))"
    by (simp add: check_bandwidth_def header_fields[OF w] to_int_show_nat nodes py_lines_topology[OF w] numeral_2_eq_2)
  also have "\<dots> = guardE AssertionError (\<forall>e \<in> set (all_links p). fst e < n_server_total p \<longrightarrow> int (link_rate p) = b)"
    using in_range_lemma[OF h] n by (intro check_links_all) (auto simp: check_link_line)
  also have "(\<forall>e \<in> set (all_links p). fst e < n_server_total p \<longrightarrow> int (link_rate p) = b)
      \<longleftrightarrow> n_server_total p = 0 \<or> b = int (link_rate p)"
  proof
    assume all: "\<forall>e \<in> set (all_links p). fst e < n_server_total p \<longrightarrow> int (link_rate p) = b"
    show "n_server_total p = 0 \<or> b = int (link_rate p)"
    proof (cases "n_server_total p = 0")
      case False
      then have "(0, i_tor p) \<in> set (all_links p)" using tor_of_server[OF assms, of 0] by (simp add: all_links_def)
      from bspec[OF all this] False show ?thesis by simp
    qed simp
  qed auto
  finally show ?thesis using sniff by blast
qed

theorem generated_topology_accepted_witness:
  "check_bandwidth (topology_text shipped_params) 100 = Inr ()"
  using generated_topology_accepted[of shipped_params 100] by (simp add: shipped_params_def)

section \<open>Runs and their analysis\<close>

lemma doubled: "a @ x # a @ y = b @ x # b @ y \<Longrightarrow> a = b"
proof -
  assume e: "a @ x # a @ y = b @ x # b @ y"
  from arg_cong[OF this, of length] have "length a = length b" by simp
  then show "a = b" using e by simp
qed

text \<open>
  C25. The analysis that \<open>run.py\<close> starts reads the outputs of its run exactly when the run id is the
  canonical decimal form of an integer, as the generated ids are. With another id that
  \<open>reserve_output_dir\<close> accepts, \<open>fctAnalysis.py\<close> looks at another path (\<open>007\<close>) or ends in a
  \<open>ValueError\<close> (letters); \<open>run.py\<close> ignores its exit status.
\<close>

theorem analysis_reads_own_run:
  assumes "reserve_output_dir draw (cwd @ ''/mix/output'') requested w g = Some (Inr (config_ID, dir, w', g'))"
  shows "(\<exists>n. to_int config_ID = Inr n \<and> output_base cwd ''mix'' n @ ''.txt'' = path_join dir (config_ID @ ''_out_fct.txt''))
    \<longleftrightarrow> (\<exists>n. config_ID = show_int n)"
proof -
  have dir: "dir = cwd @ ''/mix/output'' @ ''/'' @ config_ID"
    using reserve_output_dir_Inr[OF assms] by (simp add: path_join_def)
  have "config_ID = show_int n"
    if eq: "output_base cwd ''mix'' n @ ''.txt'' = path_join dir (config_ID @ ''_out_fct.txt'')" for n
  proof -
    have "show_int n @ CHR ''/'' # show_int n @ ''_out_fct.txt'' = config_ID @ CHR ''/'' # config_ID @ ''_out_fct.txt''"
      using eq by (simp add: output_base_def path_join_def dir)
    then show ?thesis using doubled by metis
  qed
  moreover have "output_base cwd ''mix'' n @ ''.txt'' = path_join dir (config_ID @ ''_out_fct.txt'')"
    if "config_ID = show_int n" for n
    by (simp add: output_base_def path_join_def dir that)
  ultimately show ?thesis by (metis to_int_show)
qed

theorem analysis_reads_own_run_witness:
  "\<not> (\<exists>n. to_int ''007'' = Inr n \<and> output_base ''/r'' ''mix'' n @ ''.txt'' = path_join ''/r/mix/output/007'' ''007_out_fct.txt'')"
proof -
  have r: "reserve_output_dir (\<lambda>g. (g, g)) (''/r'' @ ''/mix/output'') (Some ''007'') \<lparr>files = (\<lambda>_. None), dirs = {}\<rparr> (0 :: int)
      = Some (Inr (''007'', ''/r/mix/output/007'', \<lparr>files = (\<lambda>_. None), dirs = {''/r/mix/output/007''}\<rparr>, 0))"
    by (simp add: reserve_output_dir_def run_id_chars_def make_requested_def makedirs_def path_join_def)
  have "''007'' \<noteq> show_int n" for n
  proof
    assume e: "''007'' = show_int n"
    then have "py_int ''007'' = Some n" by simp
    moreover have "py_int ''007'' = Some 7" by code_simp
    ultimately have "n = 7" by simp
    moreover have "show_int 7 = ''7''" by code_simp
    ultimately show False using e by simp
  qed
  then show ?thesis using analysis_reads_own_run[OF r] by simp
qed

end
